(* ===== verification/Bingo_Prelude.thy ===== *)
theory Bingo_Prelude
  imports Main "HOL-Library.Word" "HOL-Library.Mapping" "HOL-Library.AList_Mapping"
    "HOL-Library.List_Lexorder" "HOL-Library.Char_ord"
begin

text \<open>
  The shared base of the development: the machine types, the JSON values that
  travel uninterpreted through the kernel, the collections of simplification
  rules the component proofs draw on, and the generic facts on lists, options
  and finite mappings that more than one component needs.

  Conventions of the whole library.  A Rust struct is a \<^theory_text>\<open>record\<close>
  whose fields carry a short prefix (Isabelle field names are global), an enum is
  a \<^theory_text>\<open>datatype\<close> whose constructors carry a short prefix for the
  same reason.  \<open>HashMap\<close> and \<open>BTreeMap\<close> are \<open>mapping\<close>s, \<open>HashSet\<close> is
  \<open>set\<close>, \<open>Vec\<close> and \<open>VecDeque\<close> are lists.  \<open>Arc\<close>, \<open>Box\<close> and borrows
  disappear.  A mutating method takes the state and returns the new one.
\<close>

section \<open>Machine integers and payloads\<close>

type_synonym u32 = "32 word"
type_synonym u64 = "64 word"
type_synonym i32 = "32 word"

text \<open>
  \<open>jiff::Timestamp\<close> and \<open>jiff::SignedDuration\<close> are counted in nanoseconds.
\<close>

type_synonym timestamp = int
type_synonym duration = int

text \<open>
  A \<open>serde_json::Value\<close>.  The kernel stores and forwards these; a number is
  kept as its text, since no component of the model computes with one.
\<close>

datatype json =
    JNull
  | JBool bool
  | JNumber string
  | JString string
  | JArray "json list"
  | JObject "(string \<times> json) list"

primrec is_null :: "json \<Rightarrow> bool" where
  "is_null JNull = True"
| "is_null (JBool b) = False"
| "is_null (JNumber n) = False"
| "is_null (JString s) = False"
| "is_null (JArray xs) = False"
| "is_null (JObject fs) = False"

lemma is_null_iff [simp]: "is_null v \<longleftrightarrow> v = JNull"
  by (cases v) simp_all

section \<open>Named collections\<close>

named_theorems transcript_simps \<open>the transcript operations, field by field\<close>
named_theorems wf_intros \<open>an operation keeps the invariant of its component\<close>
named_theorems ladder_simps \<open>the steps of the permission ladder\<close>
named_theorems actor_simps \<open>what one kernel operation leaves alone\<close>

section \<open>Saturating and wrapping arithmetic\<close>

definition saturating_inc :: "'a::len word \<Rightarrow> 'a word" where
  "saturating_inc w = (if w = -1 then w else w + 1)"

definition saturating_sub :: "'a::len word \<Rightarrow> 'a word \<Rightarrow> 'a word" where
  "saturating_sub a b = (if b \<le> a then a - b else 0)"

definition saturating_add :: "'a::len word \<Rightarrow> 'a word \<Rightarrow> 'a word" where
  "saturating_add a b = (if a \<le> a + b then a + b else - 1)"

lemma saturating_sub_le: "saturating_sub a b \<le> a"
  by (simp add: saturating_sub_def word_sub_le)

section \<open>Lists\<close>

lemma find_Some_in_set: "find P xs = Some x \<Longrightarrow> x \<in> set xs \<and> P x"
  by (auto simp: find_Some_iff)

lemma find_None_append: "find P xs = None \<Longrightarrow> find P (xs @ ys) = find P ys"
  by (induction xs) auto

lemma find_Some_append: "find P xs = Some x \<Longrightarrow> find P (xs @ ys) = Some x"
  by (induction xs) (auto split: if_splits)

lemma find_append:
  "find P (xs @ ys) = (case find P xs of Some x \<Rightarrow> Some x | None \<Rightarrow> find P ys)"
  by (induction xs) auto

lemma distinct_map_filter: "distinct (map f xs) \<Longrightarrow> distinct (map f (filter P xs))"
  by (induction xs) auto

lemma distinct_map_nth_eq:
  "distinct (map f xs) \<Longrightarrow> i < length xs \<Longrightarrow> j < length xs \<Longrightarrow> f (xs ! i) = f (xs ! j) \<Longrightarrow> i = j"
  using nth_eq_iff_index_eq[of "map f xs" i j] by simp

text \<open>The index of the first element that satisfies a predicate: \<open>Iterator::position\<close>.\<close>

fun position :: "('a \<Rightarrow> bool) \<Rightarrow> 'a list \<Rightarrow> nat option" where
  "position P [] = None"
| "position P (x # xs) = (if P x then Some 0 else map_option Suc (position P xs))"

lemma position_None_iff: "position P xs = None \<longleftrightarrow> (\<forall>x \<in> set xs. \<not> P x)"
  by (induction xs) auto

lemma position_SomeD:
  "position P xs = Some n \<Longrightarrow> n < length xs \<and> P (xs ! n) \<and> (\<forall>m < n. \<not> P (xs ! m))"
  by (induction xs arbitrary: n) (auto split: if_splits simp: nth_Cons split: nat.splits)

lemma position_append:
  "position P (xs @ ys) =
     (case position P xs of Some n \<Rightarrow> Some n
      | None \<Rightarrow> map_option (\<lambda>m. length xs + m) (position P ys))"
proof (induction xs)
  case Nil
  have "(+) 0 = (\<lambda>m::nat. m)" by auto
  then show ?case by (simp add: option.map_ident)
next
  case (Cons x xs)
  have "(+) (Suc n) = Suc \<circ> (+) n" for n by auto
  then show ?case
    using Cons by (simp add: option.map_comp split: option.splits)
qed

lemma position_find: "map_option (\<lambda>n. xs ! n) (position P xs) = find P xs"
  by (induction xs) (auto simp: option.map_comp comp_def)

lemma position_map: "position P (map f xs) = position (P \<circ> f) xs"
  by (induction xs) auto

text \<open>\<open>Vec::remove\<close> at an index that is in range.\<close>

definition remove_at :: "nat \<Rightarrow> 'a list \<Rightarrow> 'a list" where
  "remove_at n xs = take n xs @ drop (Suc n) xs"

lemma set_remove_at: "set (remove_at n xs) \<subseteq> set xs"
  by (auto simp: remove_at_def dest: in_set_takeD in_set_dropD)

lemma map_remove_at: "map f (remove_at n xs) = remove_at n (map f xs)"
  by (simp add: remove_at_def take_map drop_map)

lemma distinct_remove_at: "distinct xs \<Longrightarrow> distinct (remove_at n xs)"
  by (auto simp: remove_at_def set_take_disj_set_drop_if_distinct)

lemma distinct_map_filter_take:
  assumes "distinct (map f xs)"
  shows "distinct (map f (filter P (take n xs) @ drop n xs))"
proof -
  have "distinct (map f (as @ bs)) \<Longrightarrow> distinct (map f (filter P as @ bs))" for as bs
    by (auto simp: distinct_map_filter)
  then show ?thesis
    using assms by (metis append_take_drop_id)
qed

lemma map_list_update_same:
  "at < length xs \<Longrightarrow> f (xs ! at) = f y \<Longrightarrow> map f (xs[at := y]) = map f xs"
  by (metis list_update_id map_update nth_map)

lemma length_filter_take:
  "length (filter P (take n xs)) \<le> length (filter P xs)"
  by (metis append_take_drop_id filter_append le_add1 length_append)

lemma map_filter_cong':
  "(\<And>x. x \<in> set xs \<Longrightarrow> f x = g x) \<Longrightarrow> List.map_filter f xs = List.map_filter g xs"
  by (induction xs) (auto simp: map_filter_simps split: option.splits)

lemma find_filter_keep:
  "(\<And>x. x \<in> set xs \<Longrightarrow> P x \<Longrightarrow> Q x) \<Longrightarrow> find P (filter Q xs) = find P xs"
  by (induction xs) auto

section \<open>Finite mappings\<close>

lemma lookup_delete' [simp]:
  "Mapping.lookup (Mapping.delete k m) k' = (if k = k' then None else Mapping.lookup m k')"
  by (cases "k = k'") auto

declare Mapping.lookup_update' [simp]

lemma mapping_is_empty_lookup:
  "Mapping.is_empty m \<longleftrightarrow> (\<forall>k. Mapping.lookup m k = None)"
  by (auto simp: Mapping.is_empty_def keys_dom_lookup)

end
