(* ===== verification/Rust_Text.thy ===== *)
theory Rust_Text
  imports Bingo_Prelude
begin

text \<open>
  What the sources use of Rust's \<open>str\<close> and \<open>std::path\<close>.  A string is a
  list whose elements stand for Rust \<open>char\<close>s (the alphabet is limited to the
  256 values of HOL's \<open>char\<close>, which contains every character the modelled
  code compares with).  Paths follow the Unix rules of \<open>std::path\<close>: the
  separator is a slash and there are no prefixes.
\<close>

section \<open>Strings\<close>

abbreviation newline :: char where "newline \<equiv> CHR 0x0A"
abbreviation carriage_return :: char where "carriage_return \<equiv> CHR 0x0D"

definition starts_with :: "string \<Rightarrow> string \<Rightarrow> bool" where
  "starts_with s p \<longleftrightarrow> take (length p) s = p"

definition ends_with :: "string \<Rightarrow> string \<Rightarrow> bool" where
  "ends_with s p \<longleftrightarrow> length p \<le> length s \<and> drop (length s - length p) s = p"

definition strip_prefix :: "string \<Rightarrow> string \<Rightarrow> string option" where
  "strip_prefix s p = (if starts_with s p then Some (drop (length p) s) else None)"

definition strip_suffix :: "string \<Rightarrow> string \<Rightarrow> string option" where
  "strip_suffix s p = (if ends_with s p then Some (take (length s - length p) s) else None)"

text \<open>\<open>char::is_whitespace\<close> on the modelled alphabet.\<close>

definition is_white :: "char \<Rightarrow> bool" where
  "is_white c \<longleftrightarrow> (let n = (of_char c :: nat) in (9 \<le> n \<and> n \<le> 13) \<or> n = 32 \<or> n = 133 \<or> n = 160)"

definition trim_start :: "string \<Rightarrow> string" where
  "trim_start s = dropWhile is_white s"

definition trim_end :: "string \<Rightarrow> string" where
  "trim_end s = rev (dropWhile is_white (rev s))"

definition trim :: "string \<Rightarrow> string" where
  "trim s = trim_end (trim_start s)"

definition trim_end_matches :: "char \<Rightarrow> string \<Rightarrow> string" where
  "trim_end_matches c s = rev (dropWhile (\<lambda>x. x = c) (rev s))"

definition trim_matches :: "char list \<Rightarrow> string \<Rightarrow> string" where
  "trim_matches cs s = rev (dropWhile (\<lambda>x. x \<in> set cs) (rev (dropWhile (\<lambda>x. x \<in> set cs) s)))"

fun split_once :: "string \<Rightarrow> string \<Rightarrow> (string \<times> string) option" where
  "split_once p [] = (if p = [] then Some ([], []) else None)"
| "split_once p (c # cs) =
     (if starts_with (c # cs) p then Some ([], drop (length p) (c # cs))
      else map_option (\<lambda>(a, b). (c # a, b)) (split_once p cs))"

definition rsplit_once_char :: "char \<Rightarrow> string \<Rightarrow> (string \<times> string) option" where
  "rsplit_once_char c s =
     map_option (\<lambda>(a, b). (rev b, rev a)) (split_once [c] (rev s))"

lemma starts_with_append [simp]: "starts_with (p @ r) p"
  by (simp add: starts_with_def)

lemma starts_with_iff: "starts_with s p \<longleftrightarrow> (\<exists>r. s = p @ r)"
  unfolding starts_with_def by (metis append_eq_conv_conj append_take_drop_id)

lemma starts_with_refl [simp]: "starts_with s s"
  by (simp add: starts_with_def)

lemma starts_with_trans: "starts_with s p \<Longrightarrow> starts_with p q \<Longrightarrow> starts_with s q"
  by (auto simp: starts_with_iff)

lemma strip_prefix_Some [simp]: "strip_prefix s p = Some r \<longleftrightarrow> s = p @ r"
  by (auto simp: strip_prefix_def starts_with_iff)

lemma ends_with_iff: "ends_with s p \<longleftrightarrow> (\<exists>r. s = r @ p)"
  by (auto simp: ends_with_def) (metis append_take_drop_id)

lemma strip_suffix_Some [simp]: "strip_suffix s p = Some r \<longleftrightarrow> s = r @ p"
  by (auto simp: strip_suffix_def ends_with_iff)

lemma split_once_Some:
  "split_once p s = Some (a, b) \<Longrightarrow> s = a @ p @ b"
  by (induction p s arbitrary: a rule: split_once.induct)
     (auto simp: starts_with_iff split: if_splits)

lemma length_split_once:
  "split_once p s = Some (a, b) \<Longrightarrow> p \<noteq> [] \<Longrightarrow> length b < length s"
  by (drule split_once_Some) auto

text \<open>\<open>str::split\<close> by a nonempty pattern.\<close>

function split_str :: "string \<Rightarrow> string \<Rightarrow> string list" where
  "split_str p s =
     (if p = [] then [s]
      else case split_once p s of None \<Rightarrow> [s] | Some (a, b) \<Rightarrow> a # split_str p b)"
  by pat_completeness auto
termination
  by (relation "measure (\<lambda>(p, s). length s)") (auto intro: length_split_once)

declare split_str.simps [simp del]

text \<open>\<open>str::split\<close> by a set of characters.\<close>

fun split_chars :: "(char \<Rightarrow> bool) \<Rightarrow> string \<Rightarrow> string list" where
  "split_chars P [] = [[]]"
| "split_chars P (c # cs) =
     (if P c then [] # split_chars P cs
      else case split_chars P cs of
             [] \<Rightarrow> [[c]]
           | w # ws \<Rightarrow> (c # w) # ws)"

lemma split_chars_nonempty [simp]: "split_chars P s \<noteq> []"
  by (induction s) (auto split: list.splits)

lemma hd_split_chars: "hd (split_chars P s) = takeWhile (\<lambda>c. \<not> P c) s"
  by (induction s) (auto split: list.splits)

definition split_whitespace :: "string \<Rightarrow> string list" where
  "split_whitespace s = filter (\<lambda>w. w \<noteq> []) (split_chars is_white s)"

text \<open>
  \<open>str::lines\<close>: pieces that end at a line feed lose it and one carriage
  return before it; the last piece, without a line feed, is kept as it is.
\<close>

definition strip_eol :: "string \<Rightarrow> string" where
  "strip_eol l =
     (case strip_suffix l [carriage_return] of Some l' \<Rightarrow> l' | None \<Rightarrow> l)"

function lines :: "string \<Rightarrow> string list" where
  "lines s =
     (if s = [] then []
      else if newline \<in> set s
           then strip_eol (takeWhile (\<lambda>c. c \<noteq> newline) s)
                  # lines (tl (dropWhile (\<lambda>c. c \<noteq> newline) s))
           else [s])"
  by pat_completeness auto
termination
proof (relation "measure length")
  show "(tl (dropWhile (\<lambda>c. c \<noteq> newline) s), s) \<in> measure length"
    if "s \<noteq> []" and "newline \<in> set s" for s
    using that length_dropWhile_le[of "\<lambda>c. c \<noteq> newline" s] by (cases s) auto
qed auto

declare lines.simps [simp del]

definition to_ascii_lower :: "char \<Rightarrow> char" where
  "to_ascii_lower c =
     (let n = (of_char c :: nat) in if 65 \<le> n \<and> n \<le> 90 then char_of (n + 32) else c)"

definition eq_ignore_ascii_case :: "string \<Rightarrow> string \<Rightarrow> bool" where
  "eq_ignore_ascii_case a b \<longleftrightarrow> map to_ascii_lower a = map to_ascii_lower b"

definition is_ascii_digit :: "char \<Rightarrow> bool" where
  "is_ascii_digit c \<longleftrightarrow> (let n = (of_char c :: nat) in 48 \<le> n \<and> n \<le> 57)"

definition is_ascii_alphanumeric :: "char \<Rightarrow> bool" where
  "is_ascii_alphanumeric c \<longleftrightarrow>
     (let n = (of_char c :: nat) in
        (48 \<le> n \<and> n \<le> 57) \<or> (65 \<le> n \<and> n \<le> 90) \<or> (97 \<le> n \<and> n \<le> 122))"

text \<open>\<open>[String]::join\<close>.\<close>

fun join_with :: "string \<Rightarrow> string list \<Rightarrow> string" where
  "join_with sep [] = []"
| "join_with sep [x] = x"
| "join_with sep (x # y # ys) = x @ sep @ join_with sep (y # ys)"

text \<open>The decimal text of a number, as \<open>format!\<close> writes it.\<close>

fun show_nat :: "nat \<Rightarrow> string" where
  "show_nat n =
     (if n < 10 then [char_of (48 + n)] else show_nat (n div 10) @ [char_of (48 + n mod 10)])"

declare show_nat.simps [simp del]

definition show_int :: "int \<Rightarrow> string" where
  "show_int i = (if i < 0 then ''-'' @ show_nat (nat (- i)) else show_nat (nat i))"

section \<open>Paths\<close>

abbreviation slash :: char where "slash \<equiv> CHR ''/''"

datatype component =
    RootDir
  | CurDir
  | ParentDir
  | Normal string

text \<open>
  \<open>Path::components\<close>: repeated separators and inner \<open>.\<close> are skipped, a
  leading \<open>.\<close> of a relative path is kept.
\<close>

definition is_absolute :: "string \<Rightarrow> bool" where
  "is_absolute p \<longleftrightarrow> starts_with p [slash]"

definition component_of :: "string \<Rightarrow> component" where
  "component_of w = (if w = ''..'' then ParentDir else Normal w)"

definition components :: "string \<Rightarrow> component list" where
  "components p =
     (let ws = split_chars (\<lambda>c. c = slash) p;
          body = map component_of (filter (\<lambda>w. w \<noteq> [] \<and> w \<noteq> ''.'') ws)
      in if is_absolute p then RootDir # body
         else if hd ws = ''.'' then CurDir # body
         else body)"

text \<open>\<open>PathBuf::push\<close> and \<open>Path::join\<close>.\<close>

definition path_push :: "string \<Rightarrow> string \<Rightarrow> string" where
  "path_push buf p =
     (if is_absolute p then p
      else if buf \<noteq> [] \<and> last buf \<noteq> slash then buf @ [slash] @ p
      else buf @ p)"

definition as_os_str :: "component \<Rightarrow> string" where
  "as_os_str c =
     (case c of RootDir \<Rightarrow> [slash] | CurDir \<Rightarrow> ''.'' | ParentDir \<Rightarrow> ''..'' | Normal w \<Rightarrow> w)"

definition path_of :: "component list \<Rightarrow> string" where
  "path_of cs = fold (\<lambda>c buf. path_push buf (as_os_str c)) cs []"

text \<open>
  \<open>Path::parent\<close> of a path written without redundant separators, which is
  the only kind the sources call it on; \<open>PathBuf::pop\<close> truncates to it.
\<close>

definition path_parent :: "string \<Rightarrow> string option" where
  "path_parent p =
     (let cs = components p in
      if cs = [] \<or> last cs = RootDir then None else Some (path_of (butlast cs)))"

definition path_pop :: "string \<Rightarrow> string" where
  "path_pop p = (case path_parent p of None \<Rightarrow> p | Some q \<Rightarrow> q)"

end
