(* ===== verification/Sdk_Model.thy ===== *)
theory Sdk_Model
  imports Rust_Text
begin

text \<open>
  The provider-neutral vocabulary of \<open>bingo-sdk\<close>: identifiers
  (\<open>ids.rs\<close>), error codes (\<open>error.rs\<close>), messages, content parts, pictures,
  token counts and the stream events of a provider (\<open>model.rs\<close>), the
  decisions of a permission policy (\<open>policy.rs\<close>) and what the gate may
  assume about a tool (\<open>tool.rs\<close>).
\<close>

section \<open>Identifiers\<close>

text \<open>
  Every id of \<open>ids.rs\<close> is a newtype around its text.  A \<open>Seq\<close> is a
  counter that only ever grows by one per published frame; it is kept
  unbounded.
\<close>

type_synonym session_id = string
type_synonym turn_id = string
type_synonym item_id = string
type_synonym interaction_id = string
type_synonym intent_id = string
type_synonym seq = nat

definition seq_next :: "seq \<Rightarrow> seq" where
  "seq_next s = s + 1"

section \<open>Errors\<close>

datatype error_code =
    ErrSessionNotFound | ErrSessionLocked | ErrSessionClosed | ErrInteractionClosed
  | ErrNotReady | ErrInterrupted | ErrStaleGeneration | ErrProtocolLimit | ErrNotInitialized
  | ErrInvalidInput | ErrPermissionDenied | ErrToolNotFound | ErrNotFound | ErrToolFailed
  | ErrProviderUnavailable | ErrAuthRequired | ErrRateLimited | ErrContextOverflow | ErrTimeout
  | ErrOffline | ErrServerError | ErrTurnLost | ErrTurnBudgetExhausted | ErrStorage
  | ErrUnsupported | ErrInternal

fun error_code_as_str :: "error_code \<Rightarrow> string" where
  "error_code_as_str ErrSessionNotFound = ''SESSION_NOT_FOUND''"
| "error_code_as_str ErrSessionLocked = ''SESSION_LOCKED''"
| "error_code_as_str ErrSessionClosed = ''SESSION_CLOSED''"
| "error_code_as_str ErrInteractionClosed = ''INTERACTION_CLOSED''"
| "error_code_as_str ErrNotReady = ''NOT_READY''"
| "error_code_as_str ErrInterrupted = ''INTERRUPTED''"
| "error_code_as_str ErrStaleGeneration = ''STALE_GENERATION''"
| "error_code_as_str ErrProtocolLimit = ''PROTOCOL_LIMIT''"
| "error_code_as_str ErrNotInitialized = ''NOT_INITIALIZED''"
| "error_code_as_str ErrInvalidInput = ''INVALID_INPUT''"
| "error_code_as_str ErrPermissionDenied = ''PERMISSION_DENIED''"
| "error_code_as_str ErrToolNotFound = ''TOOL_NOT_FOUND''"
| "error_code_as_str ErrNotFound = ''NOT_FOUND''"
| "error_code_as_str ErrToolFailed = ''TOOL_FAILED''"
| "error_code_as_str ErrProviderUnavailable = ''PROVIDER_UNAVAILABLE''"
| "error_code_as_str ErrAuthRequired = ''AUTH_REQUIRED''"
| "error_code_as_str ErrRateLimited = ''RATE_LIMITED''"
| "error_code_as_str ErrContextOverflow = ''CONTEXT_OVERFLOW''"
| "error_code_as_str ErrTimeout = ''TIMEOUT''"
| "error_code_as_str ErrOffline = ''OFFLINE''"
| "error_code_as_str ErrServerError = ''SERVER_ERROR''"
| "error_code_as_str ErrTurnLost = ''TURN_LOST''"
| "error_code_as_str ErrTurnBudgetExhausted = ''TURN_BUDGET_EXHAUSTED''"
| "error_code_as_str ErrStorage = ''STORAGE''"
| "error_code_as_str ErrUnsupported = ''UNSUPPORTED''"
| "error_code_as_str ErrInternal = ''INTERNAL''"

record kernel_error =
  ke_code :: error_code
  ke_message :: string

definition kernel_error_new :: "error_code \<Rightarrow> string \<Rightarrow> kernel_error" where
  "kernel_error_new code message = \<lparr>ke_code = code, ke_message = message\<rparr>"

section \<open>Messages and content parts\<close>

text \<open>Provider-private data, keyed by provider id, in key order.\<close>

type_synonym provider_metadata = "(string \<times> (string \<times> json) list) list"

datatype role = RoleUser | RoleAssistant

record image =
  img_media_type :: string
  img_data :: string
  img_width :: "u32 option"
  img_height :: "u32 option"
  img_path :: "string option"

definition media_types :: "(string \<times> string) list" where
  "media_types =
     [(''png'', ''image/png''), (''jpg'', ''image/jpeg''), (''jpeg'', ''image/jpeg''),
      (''gif'', ''image/gif''), (''webp'', ''image/webp'')]"

definition MAX_BYTES :: nat where
  "MAX_BYTES = 5 * 1024 * 1024"

definition extension_of :: "string \<Rightarrow> string option" where
  "extension_of media_type =
     map_option fst (find (\<lambda>(_, known). known = media_type) media_types)"

definition image_is_known :: "string \<Rightarrow> bool" where
  "image_is_known media_type \<longleftrightarrow> list_ex (\<lambda>(_, known). known = media_type) media_types"

definition decoded_len :: "image \<Rightarrow> nat" where
  "decoded_len img =
     (let padding = length (takeWhile (\<lambda>b. b = CHR ''='') (rev (img_data img)))
      in (length (img_data img) div 4) * 3 - padding)"

datatype content_part =
    PText string
  | PImage image
  | PToolUse string string json
  | PToolResult string "content_part list" bool
  | PReasoning string provider_metadata

definition as_text :: "content_part \<Rightarrow> string option" where
  "as_text p = (case p of PText t \<Rightarrow> Some t | _ \<Rightarrow> None)"

record message =
  msg_role :: role
  msg_parts :: "content_part list"
  msg_provider_options :: provider_metadata

definition message_user :: "content_part list \<Rightarrow> message" where
  "message_user parts = \<lparr>msg_role = RoleUser, msg_parts = parts, msg_provider_options = []\<rparr>"

definition message_assistant :: "content_part list \<Rightarrow> message" where
  "message_assistant parts =
     \<lparr>msg_role = RoleAssistant, msg_parts = parts, msg_provider_options = []\<rparr>"

definition message_text :: "role \<Rightarrow> string \<Rightarrow> message" where
  "message_text r t = \<lparr>msg_role = r, msg_parts = [PText t], msg_provider_options = []\<rparr>"

section \<open>Effort, usage, capabilities\<close>

datatype effort = EffMinimal | EffLow | EffMedium | EffHigh | EffXHigh | EffMax

definition effort_all :: "effort list" where
  "effort_all = [EffMinimal, EffLow, EffMedium, EffHigh, EffXHigh, EffMax]"

fun effort_name :: "effort \<Rightarrow> string" where
  "effort_name EffMinimal = ''minimal''"
| "effort_name EffLow = ''low''"
| "effort_name EffMedium = ''medium''"
| "effort_name EffHigh = ''high''"
| "effort_name EffXHigh = ''xhigh''"
| "effort_name EffMax = ''max''"

definition effort_off :: string where
  "effort_off = ''off''"

definition effort_parse :: "string \<Rightarrow> effort option" where
  "effort_parse word =
     (let lower = map to_ascii_lower (trim word) in find (\<lambda>e. effort_name e = lower) effort_all)"

definition effort_spoken :: "string \<Rightarrow> effort option option" where
  "effort_spoken word =
     (if eq_ignore_ascii_case (trim word) effort_off then Some None
      else map_option Some (effort_parse word))"

definition effort_word :: "effort option \<Rightarrow> string" where
  "effort_word level = (case level of None \<Rightarrow> effort_off | Some e \<Rightarrow> effort_name e)"

record usage =
  us_input_tokens :: u64
  us_output_tokens :: u64
  us_cache_read_tokens :: u64
  us_cache_write_tokens :: u64
  us_reasoning_tokens :: u64

definition usage_default :: usage where
  "usage_default =
     \<lparr>us_input_tokens = 0, us_output_tokens = 0, us_cache_read_tokens = 0,
      us_cache_write_tokens = 0, us_reasoning_tokens = 0\<rparr>"

definition input_total :: "usage \<Rightarrow> u64" where
  "input_total u = us_input_tokens u + us_cache_read_tokens u + us_cache_write_tokens u"

definition usage_add :: "usage \<Rightarrow> usage \<Rightarrow> usage" where
  "usage_add u other =
     \<lparr>us_input_tokens = us_input_tokens u + us_input_tokens other,
      us_output_tokens = us_output_tokens u + us_output_tokens other,
      us_cache_read_tokens = us_cache_read_tokens u + us_cache_read_tokens other,
      us_cache_write_tokens = us_cache_write_tokens u + us_cache_write_tokens other,
      us_reasoning_tokens = us_reasoning_tokens u + us_reasoning_tokens other\<rparr>"

datatype unified_finish = FinStop | FinLength | FinToolCalls | FinContentFilter | FinError | FinOther

record finish_reason =
  fr_unified :: unified_finish
  fr_raw :: "string option"

datatype model_event =
    MStreamStart "string list"
  | MResponseMetadata "string option" "string option"
  | MTextStart string
  | MTextDelta string string
  | MTextEnd string
  | MReasoningStart string
  | MReasoningDelta string string
  | MReasoningEnd string provider_metadata
  | MToolInputStart string string
  | MToolInputDelta string string
  | MToolInputEnd string
  | MToolCall string string string
  | MContext u64 u64
  | MCompacted u64 u64
  | MFinish usage finish_reason

datatype provider_error =
    PeAuth string
  | PeRateLimited "u64 option"
  | PeContextOverflow string
  | PeServer "16 word" string
  | PeRequest string
  | PeTransport string
  | PeStream string
  | PeTimeout
  | PeUnsupported string
  | PeConfig string

definition retryable :: "provider_error \<Rightarrow> bool" where
  "retryable e =
     (case e of PeRateLimited _ \<Rightarrow> True | PeServer _ _ \<Rightarrow> True | PeTransport _ \<Rightarrow> True
      | PeStream _ \<Rightarrow> True | PeTimeout \<Rightarrow> True | _ \<Rightarrow> False)"

definition retry_after_ms :: "provider_error \<Rightarrow> u64 option" where
  "retry_after_ms e = (case e of PeRateLimited ms \<Rightarrow> ms | _ \<Rightarrow> None)"

fun provider_error_code :: "provider_error \<Rightarrow> error_code" where
  "provider_error_code (PeAuth _) = ErrAuthRequired"
| "provider_error_code (PeRateLimited _) = ErrRateLimited"
| "provider_error_code (PeContextOverflow _) = ErrContextOverflow"
| "provider_error_code (PeServer _ _) = ErrServerError"
| "provider_error_code (PeRequest _) = ErrInvalidInput"
| "provider_error_code (PeConfig _) = ErrInvalidInput"
| "provider_error_code (PeUnsupported _) = ErrInvalidInput"
| "provider_error_code (PeTransport _) = ErrOffline"
| "provider_error_code (PeStream _) = ErrOffline"
| "provider_error_code PeTimeout = ErrTimeout"

section \<open>Policy decisions and tool traits\<close>

datatype rule_source = SrcSettings | SrcSession

datatype reason =
    ReRule string "rule_source option"
  | ReMode string
  | ReHook string
  | ReSafety string
  | ReReadOnly
  | ReConfirm string
  | ReDefault

datatype decision =
    Allow reason
  | Deny reason
  | Ask reason "string option"

datatype verdict =
    VerdictAllow "string option"
  | VerdictDeny "string option"

datatype stance = StanceAllow | StanceAsk | StanceRefuse

datatype result_limit = LimitGlobal | LimitSelfBounded

record tool_traits =
  tt_quiet :: bool
  tt_concurrency_safe :: bool
  tt_read_only :: bool
  tt_destructive :: bool
  tt_edit :: bool
  tt_result_limit :: result_limit
  tt_trusted :: bool

definition traits_default :: tool_traits where
  "traits_default =
     \<lparr>tt_quiet = False, tt_concurrency_safe = False, tt_read_only = False, tt_destructive = False,
      tt_edit = False, tt_result_limit = LimitGlobal, tt_trusted = False\<rparr>"

definition traits_read_only :: tool_traits where
  "traits_read_only =
     traits_default\<lparr>tt_concurrency_safe := True, tt_read_only := True, tt_trusted := True\<rparr>"

definition traits_edit :: tool_traits where
  "traits_edit = traits_default\<lparr>tt_edit := True, tt_trusted := True\<rparr>"

definition traits_destructive :: tool_traits where
  "traits_destructive = traits_default\<lparr>tt_destructive := True, tt_trusted := True\<rparr>"

datatype subject =
    SubjPath string
  | SubjCommand string
  | SubjUrl string
  | SubjName string

record tool_call =
  tc_call_id :: string
  tc_name :: string
  tc_input :: json

section \<open>Facts about the vocabulary\<close>

text \<open>Token counts form a commutative monoid (each count wraps at \<open>2 ^ 64\<close>).\<close>

lemma usage_add_default [simp]:
  "usage_add usage_default u = u" "usage_add u usage_default = u"
  by (simp_all add: usage_add_def usage_default_def)

lemma usage_add_assoc: "usage_add (usage_add a b) c = usage_add a (usage_add b c)"
  by (simp add: usage_add_def add.assoc)

lemma usage_add_commute: "usage_add a b = usage_add b a"
  by (simp add: usage_add_def add.commute)

lemma input_total_add: "input_total (usage_add a b) = input_total a + input_total b"
  by (simp add: input_total_def usage_add_def algebra_simps)

lemma error_code_as_str_inj: "error_code_as_str a = error_code_as_str b \<Longrightarrow> a = b"
  by (cases a; cases b) simp_all

lemma as_text_Some [simp]: "as_text p = Some t \<longleftrightarrow> p = PText t"
  by (auto simp: as_text_def split: content_part.splits)

lemma trim_effort_name [simp]: "trim (effort_name e) = effort_name e"
  by (cases e) (simp_all add: trim_def trim_start_def trim_end_def is_white_def)

lemma trim_effort_off [simp]: "trim effort_off = effort_off"
  by (simp add: effort_off_def trim_def trim_start_def trim_end_def is_white_def)

text \<open>
  Every level, and off, is read back from the word it is said in
  (\<open>Effort::word\<close> then \<open>Effort::spoken\<close>).
\<close>

lemma effort_spoken_word: "effort_spoken (effort_word l) = Some l"
proof (cases l)
  case None
  then show ?thesis
    by (simp add: effort_spoken_def eq_ignore_ascii_case_def effort_word_def)
next
  case (Some e)
  have "effort_parse (effort_name e) = Some e"
    unfolding effort_parse_def trim_effort_name
    by (cases e) (simp_all add: effort_all_def to_ascii_lower_def)
  moreover have "\<not> eq_ignore_ascii_case (effort_name e) effort_off"
    by (cases e) (simp_all add: eq_ignore_ascii_case_def effort_off_def to_ascii_lower_def)
  ultimately show ?thesis
    using Some by (simp add: effort_spoken_def effort_word_def)
qed

end
