(* ===== verification/Sdk_Event.thy ===== *)
theory Sdk_Event
  imports Sdk_Model "HOL-Library.AList"
begin

text \<open>
  The one vocabulary that crosses from the kernel to a client
  (\<open>bingo-sdk/src/event.rs\<close>, \<open>event/interaction.rs\<close>,
  \<open>event/hunks.rs\<close>): interactions and their answers, transcript items and
  their bodies, session summaries, events and frames; and who said a line
  (\<open>asked.rs\<close>).
\<close>

section \<open>Interactions\<close>

datatype answer_role = Allowing | Refusing

record question_option =
  qo_id :: string
  qo_label :: string
  qo_description :: "string option"
  qo_role :: "answer_role option"
  qo_preview :: "string option"

record question =
  qu_question :: string
  qu_header :: "string option"
  qu_options :: "question_option list"
  qu_free_text :: bool
  qu_multi :: bool

record caution =
  ca_reason :: string
  ca_act :: "string option"

record stakes =
  sk_line :: string
  sk_items :: "string list"

datatype preview =
    PreviewDiff string
  | PreviewCommand string string "string option" "stakes option"
  | PreviewUrl string

datatype login_flow = FlowBrowser string | FlowDevice string string | FlowPaste

datatype answer_spec =
    SpAllowChanged | SpAllowOnce | SpAllowSession | SpDeny | SpChoice | SpText | SpConfirm
  | SpCancel | SpForm

datatype answer =
    AnAllowChanged json
  | AnAllowOnce
  | AnAllowSession string
  | AnDeny "string option"
  | AnChoice "string list" "string option"
  | AnText string
  | AnConfirm
  | AnCancel
  | AnForm "answer list"

definition answer_spec_of :: "answer \<Rightarrow> answer_spec" where
  "answer_spec_of a =
     (case a of AnAllowChanged _ \<Rightarrow> SpAllowChanged | AnAllowOnce \<Rightarrow> SpAllowOnce
      | AnAllowSession _ \<Rightarrow> SpAllowSession | AnDeny _ \<Rightarrow> SpDeny | AnChoice _ _ \<Rightarrow> SpChoice
      | AnText _ \<Rightarrow> SpText | AnConfirm \<Rightarrow> SpConfirm | AnCancel \<Rightarrow> SpCancel | AnForm _ \<Rightarrow> SpForm)"

text \<open>
  \<open>KPermission tool input summary preview session_scope caution\<close>, in the
  order of the fields of the source.
\<close>

datatype interaction_kind =
    KPermission string json string "preview option" "string option" "caution option"
  | KQuestion question
  | KForm "string option" "question list"
  | KConfirm string string
  | KLogin string login_flow

record interaction =
  in_id :: interaction_id
  in_session :: session_id
  in_turn :: "turn_id option"
  in_item :: "item_id option"
  in_opened_at :: timestamp
  in_guard_until :: "timestamp option"
  in_expires_at :: "timestamp option"
  in_kind :: interaction_kind
  in_answers :: "answer_spec list"

datatype activation = Keyboard | Pointer | Programmatic

datatype resolved_by =
    ByClient string string
  | ByPlugin string string
  | ByKernel
  | ByPolicy

datatype cancel_reason =
    CrTurnEnded | CrCommandEnded | CrInterrupted | CrSessionClosed | CrExpired | CrSuperseded

record rung =
  ru_answer :: answer
  ru_label :: string
  ru_description :: "string option"

definition rung_of :: "interaction \<Rightarrow> answer \<Rightarrow> string \<Rightarrow> rung option" where
  "rung_of i a label =
     (if answer_spec_of a \<in> set (in_answers i)
      then Some \<lparr>ru_answer = a, ru_label = label, ru_description = None\<rparr> else None)"

definition option_list :: "'a option \<Rightarrow> 'a list" where
  "option_list v = (case v of None \<Rightarrow> [] | Some x \<Rightarrow> [x])"

definition permission_rungs :: "interaction \<Rightarrow> string option \<Rightarrow> rung list" where
  "permission_rungs i session_scope =
     option_list (rung_of i AnAllowOnce ''Allow once'')
     @ option_list (Option.bind session_scope (\<lambda>scope.
         rung_of i (AnAllowSession scope) (''Allow '' @ scope @ '' for this session'')))
     @ option_list (rung_of i (AnDeny None) ''Deny'')"

definition question_rungs :: "interaction \<Rightarrow> question \<Rightarrow> rung list" where
  "question_rungs i q =
     List.map_filter
       (\<lambda>opt. map_option (\<lambda>r. r\<lparr>ru_description := qo_description opt\<rparr>)
         (rung_of i (AnChoice [qo_id opt] None) (qo_label opt)))
       (qu_options q)"

definition rungs :: "interaction \<Rightarrow> rung list" where
  "rungs i =
     (case in_kind i of
        KPermission _ _ _ _ scope caution \<Rightarrow>
          permission_rungs i (if caution = None then scope else None)
      | KQuestion q \<Rightarrow> question_rungs i q
      | KConfirm _ _ \<Rightarrow>
          option_list (rung_of i AnConfirm ''Yes'') @ option_list (rung_of i AnCancel ''No'')
      | KLogin _ _ \<Rightarrow> option_list (rung_of i AnCancel ''Cancel'')
      | KForm _ _ \<Rightarrow> [])"

definition question_answer_for :: "question \<Rightarrow> answer_role \<Rightarrow> answer option" where
  "question_answer_for q role =
     map_option (\<lambda>opt. AnChoice [qo_id opt] None)
       (find (\<lambda>opt. qo_role opt = Some role) (qu_options q))"

fun collect_options :: "'a option list \<Rightarrow> 'a list option" where
  "collect_options [] = Some []"
| "collect_options (None # xs) = None"
| "collect_options (Some x # xs) = map_option (Cons x) (collect_options xs)"

definition answer_for :: "interaction_kind \<Rightarrow> answer_role \<Rightarrow> answer option" where
  "answer_for k role =
     (case k of
        KQuestion q \<Rightarrow> question_answer_for q role
      | KForm _ qs \<Rightarrow>
          map_option AnForm (collect_options (map (\<lambda>q. question_answer_for q role) qs))
      | _ \<Rightarrow> None)"

section \<open>What a tool returned\<close>

datatype tone = Neutral | Good | Bad | Attention

datatype upshot = UpDiff u32 u32 | UpWords string tone

text \<open>A drawing; only a diff is read by the vocabulary, the rest travels.\<close>

datatype view = ViewDiff string | ViewOther json

record hunk =
  hk_old :: u32
  hk_new :: u32

datatype mark = MarkAdded | MarkRemoved | MarkKept

text \<open>\<open>str::parse::<u32>\<close>: an optional plus sign, then digits, in range.\<close>

definition digits_value :: "string \<Rightarrow> nat" where
  "digits_value ds = foldl (\<lambda>n c. n * 10 + (of_char c - 48)) 0 ds"

definition parse_u32 :: "string \<Rightarrow> u32 option" where
  "parse_u32 s =
     (let ds = (case s of [] \<Rightarrow> [] | c # cs \<Rightarrow> if c = CHR ''+'' then cs else s) in
      if ds \<noteq> [] \<and> list_all is_ascii_digit ds \<and> digits_value ds < 2 ^ 32
      then Some (of_nat (digits_value ds)) else None)"

definition hunk_length :: "string \<Rightarrow> u32 option" where
  "hunk_length rng =
     (case split_once '','' rng of
        Some (_, l) \<Rightarrow> parse_u32 l
      | None \<Rightarrow> map_option (\<lambda>_. 1) (parse_u32 rng))"

definition hunk_open :: "string \<Rightarrow> hunk option" where
  "hunk_open line =
     Option.bind (strip_prefix line ''@@ '') (\<lambda>rest.
     Option.bind (split_once '' @@'' rest) (\<lambda>(ranges, _).
     Option.bind (split_once '' '' ranges) (\<lambda>(old, new).
     Option.bind (Option.bind (strip_prefix old ''-'') hunk_length) (\<lambda>o_len.
     Option.bind (Option.bind (strip_prefix new ''+'') hunk_length) (\<lambda>n_len.
       Some \<lparr>hk_old = o_len, hk_new = n_len\<rparr>)))))"

definition hunk_take :: "hunk \<Rightarrow> string \<Rightarrow> hunk \<times> mark option" where
  "hunk_take h line =
     (if hk_old h = 0 \<and> hk_new h = 0 then (h, None)
      else (case line of
          c # _ \<Rightarrow>
            if c = CHR ''+'' \<and> hk_new h > 0 then (h\<lparr>hk_new := hk_new h - 1\<rparr>, Some MarkAdded)
            else if c = CHR ''-'' \<and> hk_old h > 0 then (h\<lparr>hk_old := hk_old h - 1\<rparr>, Some MarkRemoved)
            else if c = CHR 0x5C then (h, None)
            else (\<lparr>hk_old = saturating_sub (hk_old h) 1, hk_new = saturating_sub (hk_new h) 1\<rparr>,
                  Some MarkKept)
        | [] \<Rightarrow> (\<lparr>hk_old = saturating_sub (hk_old h) 1, hk_new = saturating_sub (hk_new h) 1\<rparr>,
                  Some MarkKept)))"

fun counts_loop :: "hunk \<Rightarrow> u32 \<Rightarrow> u32 \<Rightarrow> string list \<Rightarrow> u32 \<times> u32" where
  "counts_loop h added removed [] = (added, removed)"
| "counts_loop h added removed (line # rest) =
     (case hunk_open line of
        Some opened \<Rightarrow> counts_loop opened added removed rest
      | None \<Rightarrow>
          (case hunk_take h line of
             (h', Some MarkAdded) \<Rightarrow> counts_loop h' (added + 1) removed rest
           | (h', Some MarkRemoved) \<Rightarrow> counts_loop h' added (removed + 1) rest
           | (h', _) \<Rightarrow> counts_loop h' added removed rest))"

definition counts :: "string \<Rightarrow> u32 \<times> u32" where
  "counts unified = counts_loop \<lparr>hk_old = 0, hk_new = 0\<rparr> 0 0 (lines unified)"

definition of_diff :: "string \<Rightarrow> upshot" where
  "of_diff unified = (case counts unified of (added, removed) \<Rightarrow> UpDiff added removed)"

record tool_output =
  to_parts :: "content_part list"
  to_is_error :: bool
  to_display :: "view option"
  to_upshot :: "upshot option"

definition tool_output_text :: "string \<Rightarrow> tool_output" where
  "tool_output_text t =
     \<lparr>to_parts = [PText t], to_is_error = False, to_display = None, to_upshot = None\<rparr>"

definition tool_output_error :: "string \<Rightarrow> tool_output" where
  "tool_output_error t =
     \<lparr>to_parts = [PText t], to_is_error = True, to_display = None, to_upshot = None\<rparr>"

definition outcome :: "tool_output \<Rightarrow> upshot option" where
  "outcome out =
     (case to_upshot out of
        Some u \<Rightarrow> Some u
      | None \<Rightarrow> (case to_display out of Some (ViewDiff d) \<Rightarrow> Some (of_diff d) | _ \<Rightarrow> None))"

section \<open>Who said it\<close>

datatype voice = Said | Note | Quiet | Aside

datatype surface_name = SurfTerminal | SurfDesktop | SurfText | SurfChat

record origin =
  or_render_surface :: "surface_name option"
  or_voice :: "voice option"
  or_surface :: string
  or_principal :: "string option"
  or_conversation :: "string option"

definition CONTRIBUTOR_PREFIX :: string where
  "CONTRIBUTOR_PREFIX = ''contributor:''"

definition origin_is_context :: "origin \<Rightarrow> bool" where
  "origin_is_context og \<longleftrightarrow> starts_with (or_surface og) CONTRIBUTOR_PREFIX"

definition origin_surface :: "string \<Rightarrow> origin" where
  "origin_surface name =
     \<lparr>or_render_surface = None, or_voice = None, or_surface = name, or_principal = None,
      or_conversation = None\<rparr>"

definition PERSON_SURFACES :: "string list" where
  "PERSON_SURFACES = [''tui'', ''print'', ''rpc'', ''acp'', ''channels'']"

definition effective_voice :: "origin \<Rightarrow> voice" where
  "effective_voice og =
     (case or_voice og of
        Some v \<Rightarrow> v
      | None \<Rightarrow> if or_surface og \<in> set PERSON_SURFACES then Said else Quiet)"

section \<open>Items\<close>

datatype level = LvInfo | LvWarn | LvError

datatype close_reason = CloseClient | CloseShutdown | CloseDeleted | CloseError string

datatype turn_origin = OrSubmit | OrQueue | OrPeer | OrAuto

datatype interrupt_reason = IrUserCancel | IrNewInput | IrShutdown | IrBudget

datatype turn_status =
    TsCompleted
  | TsFailed kernel_error
  | TsInterrupted interrupt_reason

datatype context_kind = CkSystem | CkTools | CkChat | CkPictures

record context_part =
  cp_name :: context_kind
  cp_tokens :: u64

record context_usage =
  cu_parts :: "(context_part \<times> context_part \<times> context_part \<times> context_part) option"
  cu_used :: u64
  cu_window :: u64
  cu_trigger :: u64

definition percent :: "context_usage \<Rightarrow> u64" where
  "percent u = (if cu_window u = 0 then 0 else (cu_used u * 100) div cu_window u)"

datatype item_status = StPending | StRunning | StCompleted | StFailed | StInterrupted

definition status_is_terminal :: "item_status \<Rightarrow> bool" where
  "status_is_terminal st \<longleftrightarrow> st = StCompleted \<or> st = StFailed \<or> st = StInterrupted"

definition status_failed :: "item_status \<Rightarrow> tool_output option \<Rightarrow> bool" where
  "status_failed st out \<longleftrightarrow>
     st = StFailed \<or> (case out of Some o' \<Rightarrow> to_is_error o' | None \<Rightarrow> False)"

datatype decision_kind =
    DkAllowChanged | DkAllowChangedSession | DkAllow | DkAllowSession | DkDeny

record call_body =
  cb_allowed_by :: "reason option"
  cb_asked_at :: "timestamp option"
  cb_began_at :: "timestamp option"
  cb_call_id :: string
  cb_name :: string
  cb_input :: json
  cb_output :: "tool_output option"
  cb_progress :: "string option"
  cb_duration_ms :: "u64 option"
  cb_quiet :: bool

record compaction_body =
  co_summary :: string
  co_replaced :: u32
  co_before :: u64
  co_after :: u64
  co_duration_ms :: u64
  co_window :: "u64 option"

text \<open>
  The fields of each variant in the order of the source: a shell line is
  \<open>BShell command output exit cwd\<close>, an answered question
  \<open>BQuestionAnswer asked_at item interaction question answer\<close>, a permission
  receipt \<open>BPermissionReceipt asked_at item interaction tool decision feedback\<close>.
  \<open>BUnknown\<close> carries the bytes of a payload this build cannot read.
\<close>

datatype item_body =
    BUser "content_part list" origin
  | BAssistant string
  | BReasoning string provider_metadata
  | BToolCall call_body
  | BShell string string "i32 option" string
  | BAction string json "json option"
  | BCompaction compaction_body
  | BRewind turn_id u32
  | BInterruption string "timestamp option"
  | BNotice level string string
  | BQuestionAnswer "timestamp option" "item_id option" interaction_id string string
  | BPermissionReceipt "timestamp option" "item_id option" interaction_id string decision_kind
      "string option"
  | BAsset string "string option"
  | BUnknown string

definition is_message :: "item_body \<Rightarrow> bool" where
  "is_message b =
     (case b of BUser _ og \<Rightarrow> \<not> origin_is_context og | BAssistant _ \<Rightarrow> True | _ \<Rightarrow> False)"

definition receipt :: "item_body \<Rightarrow> string option" where
  "receipt b = (case b of BNotice LvInfo _ t \<Rightarrow> Some t | _ \<Rightarrow> None)"

definition nl :: string where
  "nl = [CHR 0x0A]"

text \<open>\<open>shell_note\<close> of \<open>event.rs\<close>.\<close>

definition shell_note :: "string \<Rightarrow> string \<Rightarrow> i32 option \<Rightarrow> string" where
  "shell_note command out exit_code =
     (let body = trim_end_matches (CHR 0x0A) out in
      ''$ '' @ command
      @ (if body = [] then [] else nl @ ''```'' @ nl @ body @ nl @ ''```'')
      @ (case exit_code of
           Some code \<Rightarrow>
             if code \<noteq> 0 then nl @ ''[exit '' @ show_int (sint code) @ '']'' else []
         | None \<Rightarrow> []))"

record item =
  it_id :: item_id
  it_turn :: "turn_id option"
  it_round :: u32
  it_status :: item_status
  it_started_at :: timestamp
  it_completed_at :: "timestamp option"
  it_intent :: "intent_id option"
  it_body :: item_body
  it_meta :: "(string \<times> json) list"

definition EXTERNAL :: string where
  "EXTERNAL = ''external''"

definition is_terminal :: "item \<Rightarrow> bool" where
  "is_terminal i \<longleftrightarrow> status_is_terminal (it_status i)"

definition external :: "item \<Rightarrow> bool" where
  "external i \<longleftrightarrow> map_of (it_meta i) EXTERNAL = Some (JBool True)"

definition mark_external :: "item \<Rightarrow> item" where
  "mark_external i = i\<lparr>it_meta := AList.update EXTERNAL (JBool True) (it_meta i)\<rparr>"

definition asked :: "item \<Rightarrow> string option" where
  "asked i =
     (case it_body i of
        BUser parts og \<Rightarrow>
          if effective_voice og = Said
          then Option.bind (find (\<lambda>p. as_text p \<noteq> None) parts) as_text else None
      | _ \<Rightarrow> None)"

definition FIRST_ASK_CHARS :: nat where
  "FIRST_ASK_CHARS = 200"

definition first_line :: "string \<Rightarrow> string option" where
  "first_line t = (case lines t of [] \<Rightarrow> None | l # _ \<Rightarrow> Some l)"

definition unwrap_or :: "'a option \<Rightarrow> 'a \<Rightarrow> 'a" where
  "unwrap_or v d = (case v of None \<Rightarrow> d | Some x \<Rightarrow> x)"

definition first_ask :: "item \<Rightarrow> string option" where
  "first_ask i =
     map_option (\<lambda>a. take FIRST_ASK_CHARS (trim (unwrap_or (first_line a) []))) (asked i)"

section \<open>Sessions\<close>

record queue_entry =
  qe_intent :: intent_id
  qe_position :: u32
  qe_preview :: string
  qe_steerable :: bool
  qe_origin :: origin

datatype intent_outcome =
    IoTurnStarted turn_id
  | IoQueued u32
  | IoApplied json
  | IoRejected kernel_error

record parent_link =
  pl_session :: session_id
  pl_item :: "item_id option"

datatype driver = DriverModel | DriverLog

datatype choice_scope = ScopeSession | ScopeDefault

record session_model =
  sm_model :: "string option"
  sm_model_scope :: "choice_scope option"
  sm_effort :: "effort option"

record fork_link =
  fl_session :: session_id
  fl_turn :: "turn_id option"

record session_history =
  sh_first_ask :: "string option"
  sh_forked_from :: "fork_link option"
  sh_messages :: "u64 option"

record session_summary =
  ss_id :: session_id
  ss_key :: "string option"
  ss_title :: "string option"
  ss_cwd :: string
  ss_parent :: "parent_link option"
  ss_driver :: driver
  ss_choice :: session_model
  ss_system_extra :: "string option"
  ss_tools :: "string list option"
  ss_provider :: "string option"
  ss_created_at :: timestamp
  ss_updated_at :: timestamp
  ss_usage :: usage
  ss_busy :: bool
  ss_asking :: bool
  ss_history :: session_history

record config_view =
  cv_kernel :: json
  cv_plugins :: "(string, json) mapping"

definition config_default :: config_view where
  "config_default = \<lparr>cv_kernel = JNull, cv_plugins = Mapping.empty\<rparr>"

definition json_get :: "json \<Rightarrow> string \<Rightarrow> json option" where
  "json_get v k = (case v of JObject fs \<Rightarrow> map_of fs k | _ \<Rightarrow> None)"

definition json_as_str :: "json \<Rightarrow> string option" where
  "json_as_str v = (case v of JString s \<Rightarrow> Some s | _ \<Rightarrow> None)"

definition config_policy :: "config_view \<Rightarrow> (string \<times> json) option" where
  "config_policy c =
     Option.bind (Option.bind (json_get (cv_kernel c) ''policy'') json_as_str) (\<lambda>id.
       map_option (\<lambda>v. (id, v)) (Mapping.lookup (cv_plugins c) id))"

section \<open>Events and frames\<close>

datatype delta_kind = DeltaText | DeltaReasoning | DeltaTail

text \<open>
  The fields of each variant in the order of the source.
\<close>

datatype event =
    EvSessionUpdated session_summary
  | EvSessionClosed close_reason
  | EvTurnStarted turn_id "item_id list" turn_origin
  | EvTurnRetrying turn_id u32 u32 u64 "item_id list" string
  | EvTurnUsage turn_id usage context_usage
  | EvContextChanged "context_usage option"
  | EvUsageCharged "turn_id option" string usage
  | EvTurnCompleted turn_id turn_status usage
  | EvItemStarted item
  | EvItemDelta item_id u32 delta_kind string
  | EvItemUpdated item
  | EvItemCompleted item
  | EvQueueChanged u64 "queue_entry list"
  | EvInteractionOpened interaction
  | EvInteractionResolved interaction_id answer resolved_by
  | EvInteractionCancelled interaction_id cancel_reason
  | EvIntentAck intent_id intent_outcome
  | EvCompacted u64 item_id item_id "item_id list"
  | EvRewound u64 turn_id "item_id list" "string list"
  | EvConfigChanged config_view
  | EvCatalogChanged string
  | EvNotice level string string
  | EvExtension string string json
  | EvInvalidated "string list"
  | EvSignal "item_id option" string string json
  | EvLagged seq seq
  | EvUnknown string

definition is_durable :: "event \<Rightarrow> bool" where
  "is_durable e =
     (case e of EvItemDelta _ _ _ _ \<Rightarrow> False | EvNotice _ _ _ \<Rightarrow> False | EvInvalidated _ \<Rightarrow> False
      | EvSignal _ _ _ _ \<Rightarrow> False | EvLagged _ _ \<Rightarrow> False | _ \<Rightarrow> True)"

definition completes_a_message :: "event \<Rightarrow> bool" where
  "completes_a_message e = (case e of EvItemCompleted i \<Rightarrow> is_message (it_body i) | _ \<Rightarrow> False)"

record frame =
  fr_seq :: seq
  fr_ts :: timestamp
  fr_session :: session_id
  fr_cause :: "intent_id option"
  fr_event :: event

section \<open>Facts about the vocabulary\<close>

lemma rung_of_Some: "r \<in> set (option_list (rung_of i a l)) \<Longrightarrow> ru_answer r = a"
  by (auto simp: rung_of_def option_list_def split: if_splits)

lemma rung_of_spec:
  "r \<in> set (option_list (rung_of i a l)) \<Longrightarrow> answer_spec_of (ru_answer r) \<in> set (in_answers i)"
  by (auto simp: rung_of_def option_list_def split: if_splits)

lemma permission_rungs_spec:
  "r \<in> set (permission_rungs i sc) \<Longrightarrow> answer_spec_of (ru_answer r) \<in> set (in_answers i)"
  by (cases sc) (auto simp: permission_rungs_def option_list_def[of None] dest: rung_of_spec)

lemma question_rungs_spec:
  "r \<in> set (question_rungs i q) \<Longrightarrow> answer_spec_of (ru_answer r) \<in> set (in_answers i)"
  by (auto simp: question_rungs_def map_filter_def rung_of_def split: if_splits)

text \<open>
  A row a surface draws never promises what the kernel would refuse: every
  rung of an interaction sends an answer whose kind the interaction allows.
\<close>

lemma rungs_spec: "r \<in> set (rungs i) \<Longrightarrow> answer_spec_of (ru_answer r) \<in> set (in_answers i)"
  by (auto simp: rungs_def dest: permission_rungs_spec question_rungs_spec rung_of_spec
      split: interaction_kind.splits if_splits)

lemma external_mark [simp]: "external (mark_external i)"
  by (simp add: external_def mark_external_def update_conv')

lemma mark_external_fields [simp]:
  "it_id (mark_external i) = it_id i" "it_body (mark_external i) = it_body i"
  "it_status (mark_external i) = it_status i"
  by (simp_all add: mark_external_def)

lemma completes_a_message_durable: "completes_a_message e \<Longrightarrow> is_durable e"
  by (cases e) (simp_all add: completes_a_message_def is_durable_def)

end
