(* ===== verification/Sdk_Transcript.thy ===== *)
theory Sdk_Transcript
  imports Sdk_Event
begin

text \<open>
  The transcript of a session (\<open>bingo-sdk/src/transcript.rs\<close> and
  \<open>transcript/checkpoint.rs\<close>): the client order and the model order over
  shared items, the in-place edits a frame makes, what a compaction releases,
  the window a client is sent, and the two codecs (the flat client snapshot and
  the checkpoint).

  The invariant \<open>wf_transcript\<close> ties the index \<open>tr_positions\<close> to the item
  list and the membership set \<open>tr_model_ids\<close> to the model order; with it no
  index of the source is out of range (\<open>position_in_range\<close>), and \<open>get\<close> is a
  search by id (\<open>get_find\<close>).
\<close>

section \<open>State\<close>

record transcript =
  tr_generation :: u64
  tr_items :: "item list"
  tr_positions :: "(item_id, nat) mapping"
  tr_model_order :: "item_id list"
  tr_model_ids :: "item_id set"
  tr_hidden :: nat
  tr_cut :: "item_id option"
  tr_has_more :: bool
  tr_revision :: u64

text \<open>\<open>PartialEq for Revision\<close>: two copies are equal whatever their revision.\<close>

definition transcript_eq :: "transcript \<Rightarrow> transcript \<Rightarrow> bool" where
  "transcript_eq a b \<longleftrightarrow> a\<lparr>tr_revision := 0\<rparr> = b\<lparr>tr_revision := 0\<rparr>"

text \<open>What a frame changed: \<open>enum Applied\<close> of \<open>state.rs\<close>.\<close>

datatype applied =
    ApStale | ApNothing | ApSession | ApConfig | ApTurn
  | ApItem item_id
  | ApQueue
  | ApInteraction interaction_id
  | ApIntent intent_id
  | ApHistory | ApNotice | ApExtension | ApSignal | ApLagged

definition transcript_new :: transcript where
  "transcript_new =
     \<lparr>tr_generation = 0, tr_items = [], tr_positions = Mapping.empty, tr_model_order = [],
      tr_model_ids = {}, tr_hidden = 0, tr_cut = None, tr_has_more = False, tr_revision = 0\<rparr>"

section \<open>Operations\<close>

definition positions :: "item list \<Rightarrow> (item_id, nat) mapping" where
  "positions items =
     foldl (\<lambda>m (at, i). Mapping.update (it_id i) at m) Mapping.empty (List.enumerate 0 items)"

text \<open>\<open>Transcript::items\<close>, what a client may read.\<close>

definition visible_items :: "transcript \<Rightarrow> item list" where
  "visible_items t = drop (tr_hidden t) (tr_items t)"

definition get :: "transcript \<Rightarrow> item_id \<Rightarrow> item option" where
  "get t key = map_option (\<lambda>at. tr_items t ! at) (Mapping.lookup (tr_positions t) key)"

definition open_items :: "transcript \<Rightarrow> turn_id \<Rightarrow> item list" where
  "open_items t turn =
     filter (\<lambda>i. it_turn i = Some turn \<and> \<not> status_is_terminal (it_status i)) (tr_items t)"

definition model_items :: "transcript \<Rightarrow> item list" where
  "model_items t = List.map_filter (get t) (tr_model_order t)"

definition upsert :: "transcript \<Rightarrow> item \<Rightarrow> transcript \<times> applied" where
  "upsert t i =
     (let t1 = (case Mapping.lookup (tr_positions t) (it_id i) of
            Some at \<Rightarrow> t\<lparr>tr_items := (tr_items t)[at := i]\<rparr>
          | None \<Rightarrow>
              t\<lparr>tr_positions := Mapping.update (it_id i) (length (tr_items t)) (tr_positions t),
                tr_items := tr_items t @ [i]\<rparr>);
          t2 = (if it_id i \<in> tr_model_ids t1 then t1
                else t1\<lparr>tr_model_ids := insert (it_id i) (tr_model_ids t1),
                        tr_model_order := tr_model_order t1 @ [it_id i]\<rparr>)
      in (t2, ApItem (it_id i)))"

definition remove_items :: "transcript \<Rightarrow> item_id list \<Rightarrow> transcript" where
  "remove_items t dropped =
     (let gone = set dropped;
          hid = tr_hidden t
            - length (filter (\<lambda>i. it_id i \<in> gone) (take (tr_hidden t) (tr_items t)));
          items = filter (\<lambda>i. it_id i \<notin> gone) (tr_items t)
      in t\<lparr>tr_hidden := hid, tr_items := items, tr_positions := positions items,
           tr_model_order := filter (\<lambda>id. id \<notin> gone) (tr_model_order t),
           tr_model_ids := tr_model_ids t - gone\<rparr>)"

text \<open>
  The edit a delta makes to a body; \<open>None\<close> where the kind does not fit it.
\<close>

definition delta_body :: "item_body \<Rightarrow> delta_kind \<Rightarrow> string \<Rightarrow> item_body option" where
  "delta_body b kind data =
     (case (b, kind) of
        (BAssistant text, DeltaText) \<Rightarrow> Some (BAssistant (text @ data))
      | (BReasoning text meta, DeltaReasoning) \<Rightarrow> Some (BReasoning (text @ data) meta)
      | (BToolCall c, DeltaTail) \<Rightarrow> Some (BToolCall (c\<lparr>cb_progress := Some data\<rparr>))
      | _ \<Rightarrow> None)"

definition delta :: "transcript \<Rightarrow> item_id \<Rightarrow> delta_kind \<Rightarrow> string \<Rightarrow> transcript \<times> applied" where
  "delta t key kind data =
     (case Mapping.lookup (tr_positions t) key of
        None \<Rightarrow> (t, ApNothing)
      | Some at \<Rightarrow>
          if is_terminal (tr_items t ! at) then (t, ApNothing)
          else (case delta_body (it_body (tr_items t ! at)) kind data of
              None \<Rightarrow> (t, ApNothing)
            | Some b \<Rightarrow>
                (t\<lparr>tr_items := (tr_items t)[at := (tr_items t ! at)\<lparr>it_body := b\<rparr>]\<rparr>, ApItem key)))"

text \<open>
  \<open>splice_compaction\<close>: before the seam only kept ids survive; the summary,
  when the order has it, takes the seam; the tail is untouched.
\<close>

definition splice_compaction :: "'a list \<Rightarrow> nat \<Rightarrow> ('a \<Rightarrow> bool) \<Rightarrow> ('a \<Rightarrow> bool) \<Rightarrow> 'a list" where
  "splice_compaction order at_cut kept is_summary =
     (let found = position is_summary order;
          rest = (case found of None \<Rightarrow> order | Some at \<Rightarrow> remove_at at order);
          summary = (case found of None \<Rightarrow> [] | Some at \<Rightarrow> [order ! at]);
          cut' = min at_cut (length rest)
      in filter kept (take cut' rest) @ summary @ drop cut' rest)"

definition compact :: "transcript \<Rightarrow> u64 \<Rightarrow> item_id \<Rightarrow> item_id list \<Rightarrow> item_id \<Rightarrow> transcript" where
  "compact t generation boundary kept summary =
     (let t1 = t\<lparr>tr_generation := generation\<rparr> in
      case position (\<lambda>id. id = boundary) (tr_model_order t1) of
        None \<Rightarrow> t1
      | Some seam \<Rightarrow>
          (let order = splice_compaction (tr_model_order t1) seam
                 (\<lambda>id. id \<in> set kept) (\<lambda>id. id = summary)
           in t1\<lparr>tr_cut := Some boundary, tr_model_order := order, tr_model_ids := set order\<rparr>))"

definition change :: "transcript \<Rightarrow> event \<Rightarrow> transcript \<times> applied" where
  "change t e =
     (case e of
        EvItemStarted i \<Rightarrow> upsert t i
      | EvItemUpdated i \<Rightarrow> upsert t i
      | EvItemCompleted i \<Rightarrow> upsert t i
      | EvItemDelta key _ kind data \<Rightarrow> delta t key kind data
      | EvTurnRetrying _ _ _ _ dropped _ \<Rightarrow> (remove_items t dropped, ApTurn)
      | EvRewound generation _ dropped _ \<Rightarrow>
          (remove_items (t\<lparr>tr_generation := generation\<rparr>) dropped, ApHistory)
      | EvCompacted generation boundary summary kept \<Rightarrow>
          (compact t generation boundary kept summary, ApHistory)
      | _ \<Rightarrow> (t, ApNothing))"

definition transcript_apply :: "transcript \<Rightarrow> event \<Rightarrow> transcript \<times> applied" where
  "transcript_apply t e =
     (case change t e of
        (t', ap) \<Rightarrow> (if ap = ApNothing then t' else t'\<lparr>tr_revision := tr_revision t' + 1\<rparr>, ap))"

definition from_items :: "item list \<Rightarrow> transcript" where
  "from_items items = foldl (\<lambda>t i. fst (transcript_apply t (EvItemCompleted i))) transcript_new items"

text \<open>
  \<open>drop_before_cut\<close>: items before the cut stay only while the model order
  needs them, and are hidden from the client.
\<close>

definition cut_index :: "transcript \<Rightarrow> nat" where
  "cut_index t =
     max (unwrap_or (Option.bind (tr_cut t) (Mapping.lookup (tr_positions t))) (tr_hidden t))
       (tr_hidden t)"

definition drop_before_cut :: "transcript \<Rightarrow> transcript" where
  "drop_before_cut t =
     (let cut = cut_index t;
          prefix = filter (\<lambda>i. it_id i \<in> tr_model_ids t) (take cut (tr_items t));
          items = prefix @ drop cut (tr_items t)
      in t\<lparr>tr_has_more := (tr_has_more t \<or> cut > tr_hidden t),
           tr_items := items, tr_hidden := length prefix, tr_positions := positions items\<rparr>)"

definition window :: "transcript \<Rightarrow> nat \<Rightarrow> transcript" where
  "window t start =
     (let items = drop start (visible_items t);
          pos = positions items;
          order = filter (\<lambda>id. Mapping.lookup pos id \<noteq> None) (tr_model_order t)
      in \<lparr>tr_generation = tr_generation t, tr_items = items, tr_positions = pos,
          tr_model_order = order, tr_model_ids = set order, tr_hidden = 0, tr_cut = None,
          tr_has_more = (tr_has_more t \<or> start > 0), tr_revision = tr_revision t\<rparr>)"

definition with_history :: "transcript \<Rightarrow> transcript \<Rightarrow> transcript" where
  "with_history t history =
     history
       \<lparr>tr_items := map (\<lambda>i. case Mapping.lookup (tr_positions t) (it_id i) of
            Some at \<Rightarrow> tr_items t ! at | None \<Rightarrow> i) (tr_items history),
        tr_model_order := tr_model_order t, tr_model_ids := tr_model_ids t,
        tr_generation := tr_generation t, tr_cut := tr_cut t, tr_hidden := 0,
        tr_has_more := False, tr_revision := tr_revision t\<rparr>"

text \<open>The client snapshot on the wire: the history generation and the visible items.\<close>

record client_snapshot =
  cs_history_generation :: u64
  cs_items :: "item list"

definition transcript_serialize :: "transcript \<Rightarrow> client_snapshot" where
  "transcript_serialize t =
     \<lparr>cs_history_generation = tr_generation t, cs_items = visible_items t\<rparr>"

definition transcript_deserialize :: "client_snapshot \<Rightarrow> transcript" where
  "transcript_deserialize w = (from_items (cs_items w))\<lparr>tr_generation := cs_history_generation w\<rparr>"

text \<open>The checkpoint codec.\<close>

record stored =
  sd_history_generation :: u64
  sd_items :: "item list"
  sd_model_order :: "item_id list"
  sd_hidden :: nat
  sd_cut :: "item_id option"
  sd_has_more :: bool

definition stored_of :: "transcript \<Rightarrow> stored" where
  "stored_of t =
     \<lparr>sd_history_generation = tr_generation t, sd_items = tr_items t,
      sd_model_order = tr_model_order t, sd_hidden = tr_hidden t, sd_cut = tr_cut t,
      sd_has_more = tr_has_more t\<rparr>"

definition restore :: "stored \<Rightarrow> string + transcript" where
  "restore s =
     (let items = sd_items s; pos = positions items; ids = set (sd_model_order s) in
      if sd_hidden s > length items
         \<or> card (Mapping.keys pos) \<noteq> length items
         \<or> card ids \<noteq> length (sd_model_order s)
         \<or> (\<exists>id \<in> ids. Mapping.lookup pos id = None)
         \<or> (\<exists>i \<in> set (take (sd_hidden s) items). it_id i \<notin> ids)
         \<or> (sd_hidden s > 0 \<and> \<not> sd_has_more s)
      then Inl ''invalid checkpoint transcript''
      else Inr
        \<lparr>tr_generation = sd_history_generation s, tr_items = items, tr_positions = pos,
         tr_model_order = sd_model_order s, tr_model_ids = ids, tr_hidden = sd_hidden s,
         tr_cut = sd_cut s, tr_has_more = sd_has_more s, tr_revision = 0\<rparr>)"

section \<open>The index\<close>

lemma positions_Nil [simp]: "positions [] = Mapping.empty"
  by (simp add: positions_def)

lemma positions_snoc:
  "positions (xs @ [x]) = Mapping.update (it_id x) (length xs) (positions xs)"
  by (simp add: positions_def enumerate_append_eq)

lemma lookup_positions:
  "distinct (map it_id xs) \<Longrightarrow>
     Mapping.lookup (positions xs) k = position (\<lambda>i. it_id i = k) xs"
proof (induction xs rule: rev_induct)
  case (snoc x xs)
  have "position (\<lambda>i. it_id i = it_id x) xs = None"
    using snoc.prems by (auto simp: position_None_iff image_iff)
  then show ?case
    using snoc by (auto simp: positions_snoc position_append split: option.splits)
qed simp

lemma keys_positions: "Mapping.keys (positions xs) = it_id ` set xs"
  by (induction xs rule: rev_induct) (auto simp: positions_snoc)

lemma positions_cong: "map it_id xs = map it_id ys \<Longrightarrow> positions xs = positions ys"
proof (induction xs arbitrary: ys rule: rev_induct)
  case (snoc x xs)
  then obtain y ys' where "ys = ys' @ [y]" "map it_id xs = map it_id ys'" "it_id x = it_id y"
    by (cases ys rule: rev_cases) auto
  then show ?case
    using snoc.IH[of ys'] map_eq_imp_length_eq[of it_id xs it_id ys'] by (simp add: positions_snoc)
qed simp

section \<open>The invariant\<close>

definition wf_transcript :: "transcript \<Rightarrow> bool" where
  "wf_transcript t \<longleftrightarrow>
     distinct (map it_id (tr_items t))
     \<and> tr_positions t = positions (tr_items t)
     \<and> distinct (tr_model_order t)
     \<and> tr_model_ids t = set (tr_model_order t)
     \<and> set (tr_model_order t) \<subseteq> it_id ` set (tr_items t)
     \<and> tr_hidden t \<le> length (tr_items t)
     \<and> (tr_hidden t > 0 \<longrightarrow> tr_has_more t)"

lemma wf_lookup:
  "wf_transcript t \<Longrightarrow>
     Mapping.lookup (tr_positions t) k = position (\<lambda>i. it_id i = k) (tr_items t)"
  by (simp add: wf_transcript_def lookup_positions)

lemma position_in_range:
  "wf_transcript t \<Longrightarrow> Mapping.lookup (tr_positions t) k = Some at \<Longrightarrow>
     at < length (tr_items t) \<and> it_id (tr_items t ! at) = k"
  by (auto simp: wf_lookup dest: position_SomeD)

lemma wf_lookup_None:
  "wf_transcript t \<Longrightarrow>
     Mapping.lookup (tr_positions t) k = None \<longleftrightarrow> k \<notin> it_id ` set (tr_items t)"
  by (auto simp: wf_lookup position_None_iff)

lemma get_find: "wf_transcript t \<Longrightarrow> get t k = find (\<lambda>i. it_id i = k) (tr_items t)"
  by (simp add: get_def wf_lookup position_find)

lemma wf_transcript_revision [simp]:
  "wf_transcript (t\<lparr>tr_revision := r\<rparr>) = wf_transcript t"
  "wf_transcript (t\<lparr>tr_generation := g\<rparr>) = wf_transcript t"
  by (simp_all add: wf_transcript_def)

lemma wf_transcript_new [simp, wf_intros]: "wf_transcript transcript_new"
  by (simp add: wf_transcript_def transcript_new_def)

lemma wf_replace:
  assumes "wf_transcript t" "at < length (tr_items t)" "it_id (tr_items t ! at) = it_id i"
  shows "wf_transcript (t\<lparr>tr_items := (tr_items t)[at := i]\<rparr>)"
proof -
  have ids: "map it_id ((tr_items t)[at := i]) = map it_id (tr_items t)"
    using assms by (simp add: map_list_update_same)
  then have "it_id ` set ((tr_items t)[at := i]) = it_id ` set (tr_items t)"
    by (metis set_map)
  then show ?thesis
    using assms ids positions_cong[OF ids] by (simp add: wf_transcript_def)
qed

lemma wf_push:
  assumes "wf_transcript t" "it_id i \<notin> it_id ` set (tr_items t)"
  shows "wf_transcript (t\<lparr>tr_positions := Mapping.update (it_id i) (length (tr_items t)) (tr_positions t),
            tr_items := tr_items t @ [i]\<rparr>)"
  using assms by (auto simp: wf_transcript_def positions_snoc)

lemma wf_upsert [wf_intros]:
  assumes "wf_transcript t"
  shows "wf_transcript (fst (upsert t i))"
proof -
  let ?t1 = "case Mapping.lookup (tr_positions t) (it_id i) of
            Some at \<Rightarrow> t\<lparr>tr_items := (tr_items t)[at := i]\<rparr>
          | None \<Rightarrow>
              t\<lparr>tr_positions := Mapping.update (it_id i) (length (tr_items t)) (tr_positions t),
                tr_items := tr_items t @ [i]\<rparr>"
  have wf: "wf_transcript ?t1"
    using assms wf_push[of t i] wf_replace[of t _ i] position_in_range[OF assms, of "it_id i"]
      wf_lookup_None[OF assms, of "it_id i"]
    by (auto split: option.splits)
  moreover have "it_id i \<in> it_id ` set (tr_items ?t1)"
    using position_in_range[OF assms, of "it_id i"]
    by (auto split: option.splits intro!: rev_image_eqI[of i] set_update_memI)
  ultimately show ?thesis
    by (auto simp: upsert_def Let_def wf_transcript_def)
qed

lemma wf_delta [wf_intros]:
  "wf_transcript t \<Longrightarrow> wf_transcript (fst (delta t k kind data))"
  using position_in_range[of t k]
  by (auto simp: delta_def intro!: wf_replace split: option.splits)

lemma wf_remove_items [wf_intros]:
  assumes "wf_transcript t"
  shows "wf_transcript (remove_items t dropped)"
proof -
  let ?in = "\<lambda>i. it_id i \<in> set dropped"
  have "tr_hidden t - length (filter ?in (take (tr_hidden t) (tr_items t)))
      = length (filter (\<lambda>i. \<not> ?in i) (take (tr_hidden t) (tr_items t)))"
    using assms sum_length_filter_compl[of ?in "take (tr_hidden t) (tr_items t)"]
    by (simp add: wf_transcript_def)
  also have "\<dots> \<le> length (filter (\<lambda>i. \<not> ?in i) (tr_items t))"
    by (rule length_filter_take)
  finally show ?thesis
    using assms by (auto simp: wf_transcript_def remove_items_def Let_def distinct_map_filter)
qed

lemma set_splice: "set (splice_compaction xs n P Q) \<subseteq> set xs"
  using set_remove_at[of _ xs]
  by (auto simp: splice_compaction_def Let_def dest!: position_SomeD dest: in_set_takeD in_set_dropD
      split: option.splits)

lemma distinct_splice:
  assumes "distinct xs"
  shows "distinct (splice_compaction xs n P Q)"
proof (cases "position Q xs")
  case None
  then show ?thesis
    using assms set_take_disj_set_drop_if_distinct[OF assms, of "min n (length xs)" "min n (length xs)"]
    by (auto simp: splice_compaction_def Let_def)
next
  case (Some at)
  let ?r = "remove_at at xs"
  have d: "distinct ?r" by (rule distinct_remove_at[OF assms])
  have "at < length xs" using position_SomeD[OF Some] by simp
  then have "xs ! at \<notin> set ?r"
    using assms id_take_nth_drop[of at xs]
    by (metis distinct.simps(2) distinct_append not_distinct_conv_prefix remove_at_def
        Un_iff disjoint_insert(1) list.set(2) set_append)
  then show ?thesis
    using Some d set_take_disj_set_drop_if_distinct[OF d, of "min n (length ?r)" "min n (length ?r)"]
    by (auto simp: splice_compaction_def Let_def dest: in_set_takeD in_set_dropD)
qed

lemma wf_compact [wf_intros]:
  "wf_transcript t \<Longrightarrow> wf_transcript (compact t g b kept s)"
  using distinct_splice[of "tr_model_order t"]
  by (auto simp: wf_transcript_def compact_def Let_def dest: subsetD[OF set_splice]
      split: option.splits)

lemma wf_change [wf_intros]: "wf_transcript t \<Longrightarrow> wf_transcript (fst (change t e))"
  by (cases e) (simp_all add: change_def wf_intros)

lemma wf_transcript_apply [wf_intros]:
  "wf_transcript t \<Longrightarrow> wf_transcript (fst (transcript_apply t e))"
  using wf_change[of t e] by (auto simp: transcript_apply_def split: prod.splits)


section \<open>What a compaction releases\<close>

lemma cut_index_bounds:
  "wf_transcript t \<Longrightarrow> tr_hidden t \<le> cut_index t \<and> cut_index t \<le> length (tr_items t)"
  using position_in_range[of t]
  by (auto simp: cut_index_def unwrap_or_def wf_transcript_def bind_eq_Some_conv split: option.splits
      dest!: less_imp_le)

lemma wf_drop_before_cut [wf_intros]:
  assumes "wf_transcript t"
  shows "wf_transcript (drop_before_cut t)"
proof -
  let ?c = "cut_index t"
  let ?p = "filter (\<lambda>i. it_id i \<in> tr_model_ids t) (take ?c (tr_items t))"
  have split: "tr_items t = take ?c (tr_items t) @ drop ?c (tr_items t)" by simp
  have "distinct (map it_id (?p @ drop ?c (tr_items t)))"
    using assms by (simp add: wf_transcript_def distinct_map_filter_take del: map_append)
  moreover have "set (tr_model_order t) \<subseteq> it_id ` set (?p @ drop ?c (tr_items t))"
  proof
    fix k assume k: "k \<in> set (tr_model_order t)"
    then obtain i where "i \<in> set (tr_items t)" "it_id i = k"
      using assms by (auto simp: wf_transcript_def)
    then have "i \<in> set (take ?c (tr_items t)) \<or> i \<in> set (drop ?c (tr_items t))"
      using split by (metis Un_iff set_append)
    then show "k \<in> it_id ` set (?p @ drop ?c (tr_items t))"
      using assms k \<open>it_id i = k\<close> by (auto simp: wf_transcript_def)
  qed
  moreover have "?p \<noteq> [] \<longrightarrow> tr_has_more t \<or> ?c > tr_hidden t"
    using assms cut_index_bounds[OF assms] by (cases "?c = 0") (auto simp: wf_transcript_def)
  ultimately show ?thesis
    using assms by (simp add: wf_transcript_def drop_before_cut_def Let_def)
qed

lemma drop_before_cut_fields [simp]:
  "tr_model_order (drop_before_cut t) = tr_model_order t"
  "tr_model_ids (drop_before_cut t) = tr_model_ids t"
  "tr_generation (drop_before_cut t) = tr_generation t"
  "tr_cut (drop_before_cut t) = tr_cut t"
  by (simp_all add: drop_before_cut_def Let_def)

lemma get_drop_before_cut:
  assumes "wf_transcript t" "k \<in> tr_model_ids t"
  shows "get (drop_before_cut t) k = get t k"
proof -
  let ?c = "cut_index t"
  have "find (\<lambda>i. it_id i = k) (tr_items (drop_before_cut t))
      = find (\<lambda>i. it_id i = k) (take ?c (tr_items t) @ drop ?c (tr_items t))"
    unfolding find_append using assms(2)
    by (simp add: drop_before_cut_def Let_def find_append)
       (subst find_filter_keep; auto)
  then show ?thesis
    by (simp add: get_find assms(1) wf_drop_before_cut)
qed

text \<open>The model reads the same transcript before and after the release.\<close>

lemma model_items_drop_before_cut:
  "wf_transcript t \<Longrightarrow> model_items (drop_before_cut t) = model_items t"
  unfolding model_items_def drop_before_cut_fields
  by (rule map_filter_cong') (auto simp: get_drop_before_cut wf_transcript_def)

lemma visible_drop_before_cut:
  "wf_transcript t \<Longrightarrow>
     visible_items (drop_before_cut t) = drop (cut_index t) (tr_items t)"
  by (simp add: visible_items_def drop_before_cut_def Let_def)

text \<open>A checkpoint written after the release is restored as it was.\<close>

lemma restore_stored:
  assumes "wf_transcript t" "\<forall>i \<in> set (take (tr_hidden t) (tr_items t)). it_id i \<in> tr_model_ids t"
  shows "restore (stored_of t) = Inr (t\<lparr>tr_revision := 0\<rparr>)"
proof -
  have "card (Mapping.keys (positions (tr_items t))) = length (tr_items t)"
    using assms distinct_card[of "map it_id (tr_items t)"]
    by (simp add: keys_positions wf_transcript_def)
  moreover have "card (set (tr_model_order t)) = length (tr_model_order t)"
    using assms by (simp add: wf_transcript_def distinct_card)
  moreover have "\<forall>k \<in> set (tr_model_order t). Mapping.lookup (positions (tr_items t)) k \<noteq> None"
    using assms wf_lookup_None[OF assms(1)] by (auto simp: wf_transcript_def)
  ultimately show ?thesis
    using assms by (auto simp: restore_def stored_of_def Let_def wf_transcript_def)
qed

lemma hidden_prefix_drop_before_cut:
  "\<forall>i \<in> set (take (tr_hidden (drop_before_cut t)) (tr_items (drop_before_cut t))).
     it_id i \<in> tr_model_ids (drop_before_cut t)"
  by (simp add: drop_before_cut_def Let_def)

text \<open>Whatever bytes a checkpoint holds, what is restored is well-formed.\<close>

lemma restore_wf:
  assumes "restore s = Inr t"
  shows "wf_transcript t"
proof -
  let ?ids = "map it_id (sd_items s)"
  have ok: "sd_hidden s \<le> length (sd_items s)"
      "card (Mapping.keys (positions (sd_items s))) = length (sd_items s)"
      "card (set (sd_model_order s)) = length (sd_model_order s)"
      "\<forall>k \<in> set (sd_model_order s). Mapping.lookup (positions (sd_items s)) k \<noteq> None"
      "sd_hidden s > 0 \<longrightarrow> sd_has_more s"
    using assms by (auto simp: restore_def Let_def split: if_splits)
  have d: "distinct ?ids"
    using ok(2) by (auto simp: keys_positions intro: card_distinct)
  have "set (sd_model_order s) \<subseteq> it_id ` set (sd_items s)"
    using ok(4) by (auto simp: keys_positions[symmetric] keys_dom_lookup)
  then show ?thesis
    using assms ok d
    by (auto simp: restore_def Let_def wf_transcript_def card_distinct split: if_splits)
qed

section \<open>Windows and client snapshots\<close>

lemma wf_window [wf_intros]:
  assumes "wf_transcript t"
  shows "wf_transcript (window t start)"
proof -
  have "set (filter (\<lambda>k. Mapping.lookup (positions xs) k \<noteq> None) ks) \<subseteq> it_id ` set xs" for xs ks
    by (auto simp: keys_positions[symmetric] keys_dom_lookup)
  then show ?thesis
    using assms by (simp add: wf_transcript_def window_def Let_def visible_items_def
        drop_map[symmetric])
qed

lemma visible_window [simp]: "visible_items (window t start) = drop start (visible_items t)"
  by (simp add: window_def Let_def visible_items_def)


text \<open>
  What one event does to a plain list of items: replace an item in place or
  append it, edit it, or drop some.  The client order is refined by it as long
  as no event rewrites an item that is hidden from the client.
\<close>

definition upsert_list :: "item list \<Rightarrow> item \<Rightarrow> item list" where
  "upsert_list xs i =
     (case position (\<lambda>j. it_id j = it_id i) xs of Some n \<Rightarrow> xs[n := i] | None \<Rightarrow> xs @ [i])"

definition delta_list :: "item list \<Rightarrow> item_id \<Rightarrow> delta_kind \<Rightarrow> string \<Rightarrow> item list" where
  "delta_list xs k kind data =
     (case position (\<lambda>j. it_id j = k) xs of
        None \<Rightarrow> xs
      | Some n \<Rightarrow>
          if is_terminal (xs ! n) then xs
          else (case delta_body (it_body (xs ! n)) kind data of
              None \<Rightarrow> xs | Some b \<Rightarrow> xs[n := (xs ! n)\<lparr>it_body := b\<rparr>]))"

definition view_step :: "item list \<Rightarrow> event \<Rightarrow> item list" where
  "view_step xs e =
     (case e of
        EvItemStarted i \<Rightarrow> upsert_list xs i
      | EvItemUpdated i \<Rightarrow> upsert_list xs i
      | EvItemCompleted i \<Rightarrow> upsert_list xs i
      | EvItemDelta k _ kind data \<Rightarrow> delta_list xs k kind data
      | EvTurnRetrying _ _ _ _ dropped _ \<Rightarrow> filter (\<lambda>i. it_id i \<notin> set dropped) xs
      | EvRewound _ _ dropped _ \<Rightarrow> filter (\<lambda>i. it_id i \<notin> set dropped) xs
      | _ \<Rightarrow> xs)"

definition touched :: "event \<Rightarrow> item_id option" where
  "touched e =
     (case e of
        EvItemStarted i \<Rightarrow> Some (it_id i)
      | EvItemUpdated i \<Rightarrow> Some (it_id i)
      | EvItemCompleted i \<Rightarrow> Some (it_id i)
      | EvItemDelta k _ _ _ \<Rightarrow> Some k
      | _ \<Rightarrow> None)"

definition hidden_ids :: "transcript \<Rightarrow> item_id set" where
  "hidden_ids t = it_id ` set (take (tr_hidden t) (tr_items t))"

lemma lookup_past_hidden:
  assumes "wf_transcript t" "k \<notin> hidden_ids t"
  shows "Mapping.lookup (tr_positions t) k
    = map_option (\<lambda>n. tr_hidden t + n) (position (\<lambda>i. it_id i = k) (visible_items t))"
proof -
  have "position (\<lambda>i. it_id i = k) (take (tr_hidden t) (tr_items t)) = None"
    using assms(2) by (auto simp: hidden_ids_def position_None_iff)
  then show ?thesis
    using assms(1) wf_lookup[OF assms(1), of k]
      position_append[of "\<lambda>i. it_id i = k" "take (tr_hidden t) (tr_items t)" "visible_items t"]
    by (simp add: visible_items_def wf_transcript_def min_absorb2)
qed

lemma visible_upsert:
  assumes "wf_transcript t" "it_id i \<notin> hidden_ids t"
  shows "visible_items (fst (upsert t i)) = upsert_list (visible_items t) i"
  using assms lookup_past_hidden[OF assms]
  by (auto simp: upsert_def upsert_list_def Let_def visible_items_def drop_update_swap wf_transcript_def
      split: option.splits)

lemma visible_delta:
  assumes "wf_transcript t" "k \<notin> hidden_ids t"
  shows "visible_items (fst (delta t k kind data)) = delta_list (visible_items t) k kind data"
proof (cases "position (\<lambda>i. it_id i = k) (visible_items t)")
  case None
  then show ?thesis
    using lookup_past_hidden[OF assms] by (simp add: delta_def delta_list_def)
next
  case (Some n)
  have "n < length (visible_items t)" using position_SomeD[OF Some] by simp
  then have at: "visible_items t ! n = tr_items t ! (tr_hidden t + n)"
    by (simp add: visible_items_def)
  show ?thesis
    using lookup_past_hidden[OF assms] Some at
    by (auto simp: delta_def delta_list_def visible_items_def drop_update_swap split: option.splits)
qed

lemma visible_remove:
  assumes "wf_transcript t"
  shows "visible_items (remove_items t dropped)
    = filter (\<lambda>i. it_id i \<notin> set dropped) (visible_items t)"
proof -
  let ?in = "\<lambda>i. it_id i \<in> set dropped"
  let ?pre = "take (tr_hidden t) (tr_items t)"
  have "tr_hidden t - length (filter ?in ?pre) = length (filter (\<lambda>i. \<not> ?in i) ?pre)"
    using assms sum_length_filter_compl[of ?in ?pre] by (simp add: wf_transcript_def)
  moreover have "filter (\<lambda>i. \<not> ?in i) (tr_items t)
      = filter (\<lambda>i. \<not> ?in i) ?pre @ filter (\<lambda>i. \<not> ?in i) (drop (tr_hidden t) (tr_items t))"
    by (metis append_take_drop_id filter_append)
  ultimately show ?thesis
    by (simp add: visible_items_def remove_items_def Let_def)
qed

lemma visible_generation [simp]:
  "visible_items (t\<lparr>tr_generation := g\<rparr>) = visible_items t"
  "visible_items (t\<lparr>tr_revision := r\<rparr>) = visible_items t"
  by (simp_all add: visible_items_def)

lemma visible_compact [simp]: "visible_items (compact t g b kept s) = visible_items t"
  by (simp add: compact_def Let_def visible_items_def split: option.splits)

lemma visible_change:
  assumes "wf_transcript t" "\<forall>k. touched e = Some k \<longrightarrow> k \<notin> hidden_ids t"
  shows "visible_items (fst (change t e)) = view_step (visible_items t) e"
  using assms
  by (cases e) (simp_all add: change_def view_step_def touched_def visible_upsert visible_delta
      visible_remove)

lemma visible_apply:
  assumes "wf_transcript t" "\<forall>k. touched e = Some k \<longrightarrow> k \<notin> hidden_ids t"
  shows "visible_items (fst (transcript_apply t e)) = view_step (visible_items t) e"
  using visible_change[OF assms] by (auto simp: transcript_apply_def split: prod.splits)


section \<open>The snapshot a client is sent\<close>

lemma from_items_snoc:
  "from_items (xs @ [x]) = fst (transcript_apply (from_items xs) (EvItemCompleted x))"
  by (simp add: from_items_def)

lemma wf_from_items [wf_intros]: "wf_transcript (from_items xs)"
  by (induction xs rule: rev_induct)
     (simp_all add: from_items_snoc wf_transcript_apply, simp add: from_items_def)

lemma from_items_distinct:
  assumes "distinct (map it_id xs)"
  shows "tr_items (from_items xs) = xs \<and> tr_model_order (from_items xs) = map it_id xs
    \<and> tr_hidden (from_items xs) = 0 \<and> tr_cut (from_items xs) = None
    \<and> \<not> tr_has_more (from_items xs)"
  using assms
proof (induction xs rule: rev_induct)
  case Nil
  then show ?case by (simp add: from_items_def transcript_new_def)
next
  case (snoc x xs)
  then have IH: "tr_items (from_items xs) = xs" "tr_model_order (from_items xs) = map it_id xs"
      "tr_hidden (from_items xs) = 0" "tr_cut (from_items xs) = None" "\<not> tr_has_more (from_items xs)"
    by simp_all
  have "Mapping.lookup (tr_positions (from_items xs)) (it_id x) = None"
    using snoc.prems wf_lookup_None[OF wf_from_items, of xs "it_id x"] IH by simp
  moreover have "tr_model_ids (from_items xs) = it_id ` set xs"
    using wf_from_items[of xs] IH by (simp add: wf_transcript_def)
  ultimately show ?case
    using IH snoc.prems
    by (simp add: from_items_snoc transcript_apply_def change_def upsert_def Let_def)
qed

lemma model_items_all:
  assumes "wf_transcript t" "tr_model_order t = map it_id (tr_items t)"
  shows "model_items t = tr_items t"
proof -
  have "get t (it_id i) = Some i" if "i \<in> set (tr_items t)" for i
  proof -
    have "distinct (map it_id xs) \<Longrightarrow> i \<in> set xs \<Longrightarrow> find (\<lambda>j. it_id j = it_id i) xs = Some i" for xs
      by (induction xs) (auto dest: rev_image_eqI)
    then show ?thesis
      using assms that by (simp add: get_find wf_transcript_def)
  qed
  then have "List.map_filter (get t) (map it_id xs) = xs" if "set xs \<subseteq> set (tr_items t)" for xs
    using that by (induction xs) (auto simp: map_filter_simps)
  then show ?thesis
    using assms by (simp add: model_items_def)
qed

lemma distinct_visible: "wf_transcript t \<Longrightarrow> distinct (map it_id (visible_items t))"
  by (simp add: wf_transcript_def visible_items_def drop_map[symmetric])

lemma deserialize_serialize:
  assumes "wf_transcript t"
  shows "wf_transcript (transcript_deserialize (transcript_serialize t))
    \<and> visible_items (transcript_deserialize (transcript_serialize t)) = visible_items t
    \<and> hidden_ids (transcript_deserialize (transcript_serialize t)) = {}
    \<and> tr_generation (transcript_deserialize (transcript_serialize t)) = tr_generation t
    \<and> model_items (transcript_deserialize (transcript_serialize t)) = visible_items t"
proof -
  let ?c = "from_items (visible_items t)"
  have c: "tr_items ?c = visible_items t" "tr_model_order ?c = map it_id (visible_items t)"
      "tr_hidden ?c = 0"
    using from_items_distinct[OF distinct_visible[OF assms]] by simp_all
  let ?d = "transcript_deserialize (transcript_serialize t)"
  have "model_items ?d = tr_items ?d"
    using c by (intro model_items_all)
      (simp_all add: transcript_deserialize_def transcript_serialize_def wf_from_items)
  then show ?thesis
    using c by (simp add: transcript_deserialize_def transcript_serialize_def wf_from_items
        hidden_ids_def visible_items_def)
qed

lemma hidden_ids_update [simp]:
  "hidden_ids (t\<lparr>tr_generation := g\<rparr>) = hidden_ids t"
  "hidden_ids (t\<lparr>tr_revision := r\<rparr>) = hidden_ids t"
  by (simp_all add: hidden_ids_def)

lemma hidden_ids_replace:
  assumes "at < length (tr_items t)" "it_id (tr_items t ! at) = it_id i"
  shows "it_id ` set (take n ((tr_items t)[at := i])) = it_id ` set (take n (tr_items t))"
proof -
  have "map it_id (take n ((tr_items t)[at := i])) = map it_id (take n (tr_items t))"
    using assms by (simp add: take_map[symmetric] map_list_update_same)
  then show ?thesis by (metis set_map)
qed

lemma hidden_ids_upsert: "wf_transcript t \<Longrightarrow> hidden_ids (fst (upsert t i)) = hidden_ids t"
  using position_in_range[of t "it_id i"]
  by (auto simp: upsert_def Let_def hidden_ids_def hidden_ids_replace wf_transcript_def
      split: option.splits)

lemma hidden_ids_delta: "wf_transcript t \<Longrightarrow> hidden_ids (fst (delta t k kind data)) = hidden_ids t"
  using position_in_range[of t k]
  by (auto simp: delta_def hidden_ids_def hidden_ids_replace split: option.splits)

lemma hidden_ids_remove:
  assumes "wf_transcript t"
  shows "hidden_ids (remove_items t dropped) \<subseteq> hidden_ids t"
proof -
  let ?in = "\<lambda>i. it_id i \<in> set dropped"
  let ?pre = "take (tr_hidden t) (tr_items t)"
  have len: "tr_hidden t - length (filter ?in ?pre) = length (filter (\<lambda>i. \<not> ?in i) ?pre)"
    using assms sum_length_filter_compl[of ?in ?pre] by (simp add: wf_transcript_def)
  have "filter (\<lambda>i. \<not> ?in i) (tr_items t)
      = filter (\<lambda>i. \<not> ?in i) ?pre @ filter (\<lambda>i. \<not> ?in i) (drop (tr_hidden t) (tr_items t))"
    by (metis append_take_drop_id filter_append)
  then have "take (length (filter (\<lambda>i. \<not> ?in i) ?pre)) (filter (\<lambda>i. \<not> ?in i) (tr_items t))
      = filter (\<lambda>i. \<not> ?in i) ?pre"
    by simp
  then show ?thesis
    using len by (auto simp: hidden_ids_def remove_items_def Let_def)
qed

lemma hidden_ids_compact [simp]: "hidden_ids (compact t g b kept s) = hidden_ids t"
  by (simp add: compact_def Let_def hidden_ids_def split: option.splits)

lemma hidden_ids_apply:
  assumes "wf_transcript t"
  shows "hidden_ids (fst (transcript_apply t e)) \<subseteq> hidden_ids t"
proof -
  have "hidden_ids (fst (change t e)) \<subseteq> hidden_ids t"
    using assms hidden_ids_remove[of "t\<lparr>tr_generation := g\<rparr>" for g] hidden_ids_remove[of t]
    by (cases e) (simp_all add: change_def hidden_ids_upsert hidden_ids_delta)
  then show ?thesis
    by (auto simp: transcript_apply_def split: prod.splits)
qed

definition transcript_fold :: "transcript \<Rightarrow> event list \<Rightarrow> transcript" where
  "transcript_fold t es = foldl (\<lambda>t e. fst (transcript_apply t e)) t es"

lemma transcript_fold_simps [simp]:
  "transcript_fold t [] = t"
  "transcript_fold t (e # es) = transcript_fold (fst (transcript_apply t e)) es"
  by (simp_all add: transcript_fold_def)

lemma visible_fold:
  "wf_transcript t \<Longrightarrow> \<forall>e \<in> set es. \<forall>k. touched e = Some k \<longrightarrow> k \<notin> hidden_ids t \<Longrightarrow>
     visible_items (transcript_fold t es) = foldl view_step (visible_items t) es"
proof (induction es arbitrary: t)
  case (Cons e es)
  then have "visible_items (fst (transcript_apply t e)) = view_step (visible_items t) e"
    by (simp add: visible_apply)
  moreover have "\<forall>e' \<in> set es. \<forall>k. touched e' = Some k \<longrightarrow> k \<notin> hidden_ids (fst (transcript_apply t e))"
    using Cons.prems hidden_ids_apply[of t e] by auto
  ultimately show ?case
    using Cons.IH[of "fst (transcript_apply t e)"] Cons.prems(1) by (simp add: wf_transcript_apply)
qed simp

section \<open>Every transcript the program builds\<close>

text \<open>
  The ways a transcript comes to be: empty, one more event, a release before a
  checkpoint, a window for a client, a list of items read off the wire, a
  checkpoint read from storage (whatever its bytes say).
\<close>

inductive transcript_reachable :: "transcript \<Rightarrow> bool" where
  reach_new: "transcript_reachable transcript_new"
| reach_apply: "transcript_reachable t \<Longrightarrow> transcript_reachable (fst (transcript_apply t e))"
| reach_drop: "transcript_reachable t \<Longrightarrow> transcript_reachable (drop_before_cut t)"
| reach_window: "transcript_reachable t \<Longrightarrow> transcript_reachable (window t n)"
| reach_wire: "transcript_reachable (transcript_deserialize w)"
| reach_restore: "restore s = Inr t \<Longrightarrow> transcript_reachable t"

lemma transcript_wf: "transcript_reachable t \<Longrightarrow> wf_transcript t"
  by (induction rule: transcript_reachable.induct)
     (auto simp: transcript_deserialize_def intro: wf_intros restore_wf)


definition sample_item :: "string \<Rightarrow> item_body \<Rightarrow> item" where
  "sample_item k b =
     \<lparr>it_id = k, it_turn = None, it_round = 0, it_status = StRunning, it_started_at = 0,
      it_completed_at = None, it_intent = None, it_body = b, it_meta = []\<rparr>"

definition sample_events :: "event list" where
  "sample_events =
     [EvItemStarted (sample_item ''a'' (BAssistant ''x'')),
      EvItemCompleted (sample_item ''b'' (BAssistant ''y'')),
      EvItemCompleted (sample_item ''s'' (BAssistant ''sum'')),
      EvCompacted 1 ''b'' ''s'' []]"

lemma reach_fold: "transcript_reachable t \<Longrightarrow> transcript_reachable (transcript_fold t es)"
  by (induction es arbitrary: t) (simp_all add: reach_apply)


text \<open>
  C35: writing a checkpoint and reading it back gives the transcript again, up to
  the revision (which is not content), the release that precedes the write does
  not change what the model reads, and the client keeps exactly the items from
  the cut on.
\<close>

theorem checkpoint_roundtrip:
  assumes "transcript_reachable t"
  shows "restore (stored_of (drop_before_cut t)) = Inr ((drop_before_cut t)\<lparr>tr_revision := 0\<rparr>)
    \<and> model_items (drop_before_cut t) = model_items t
    \<and> visible_items (drop_before_cut t) = drop (cut_index t) (tr_items t)"
  using restore_stored[OF wf_drop_before_cut[OF transcript_wf[OF assms]] hidden_prefix_drop_before_cut]
    model_items_drop_before_cut[OF transcript_wf[OF assms]]
    visible_drop_before_cut[OF transcript_wf[OF assms]]
  by simp

theorem checkpoint_roundtrip_witness:
  "restore (stored_of (drop_before_cut (transcript_fold transcript_new sample_events)))
   = Inr ((drop_before_cut (transcript_fold transcript_new sample_events))\<lparr>tr_revision := 0\<rparr>)"
  using checkpoint_roundtrip[OF reach_fold[OF reach_new, of sample_events]] by simp

text \<open>
  A client that decodes the snapshot it was sent and folds the frames that
  follow sees the same items as the kernel, as long as no frame rewrites an item
  the kernel holds only for the model.
\<close>

theorem client_follows_kernel:
  assumes "transcript_reachable t"
    and "\<forall>e \<in> set es. \<forall>k. touched e = Some k \<longrightarrow> k \<notin> hidden_ids t"
  shows "visible_items (transcript_fold (transcript_deserialize (transcript_serialize t)) es)
    = visible_items (transcript_fold t es)"
  using assms deserialize_serialize[OF transcript_wf[OF assms(1)]]
  by (simp add: visible_fold transcript_wf)

theorem client_follows_kernel_witness:
  "visible_items (transcript_fold
     (transcript_deserialize (transcript_serialize (transcript_fold transcript_new sample_events)))
     [EvItemDelta ''a'' 0 DeltaText ''!''])
   = visible_items (transcript_fold (transcript_fold transcript_new sample_events)
       [EvItemDelta ''a'' 0 DeltaText ''!''])"
  by (rule client_follows_kernel[OF reach_fold[OF reach_new]])
     (simp add: sample_events_def hidden_ids_def transcript_apply_def change_def upsert_def Let_def
        transcript_new_def compact_def sample_item_def)

end
