(* ===== verification/Sdk_State.thy ===== *)
theory Sdk_State
  imports Sdk_Transcript
begin

text \<open>
  The one reducer (\<open>bingo-sdk/src/state.rs\<close>): the state a session and every
  client of it keeps, and what each frame does to it.  \<open>state_apply\<close> is
  \<open>SessionState::apply\<close>, with one definition per method it dispatches to.
\<close>

section \<open>State\<close>

record live_signal =
  ls_generation :: "item_id option"
  ls_payload :: json

record retry =
  rt_attempt :: u32
  rt_max :: u32
  rt_delay_ms :: u64
  rt_reason :: string
  rt_started_at :: timestamp

record live_turn =
  lt_id :: turn_id
  lt_started_at :: timestamp
  lt_origin :: turn_origin
  lt_round :: u32
  lt_usage :: usage
  lt_retrying :: "retry option"

record last_turn =
  la_id :: turn_id
  la_status :: turn_status
  la_started_at :: timestamp
  la_ended_at :: timestamp
  la_usage :: usage

type_synonym 'v by_plugin = "(string, (string, 'v) mapping) mapping"

record session_state =
  st_seq :: seq
  st_summary :: session_summary
  st_config :: config_view
  st_transcript :: transcript
  st_turn :: "live_turn option"
  st_queue :: "queue_entry list"
  st_interactions :: "interaction list"
  st_context :: "context_usage option"
  st_last_turn :: "last_turn option"
  st_unread :: bool
  st_closed :: bool
  st_extensions :: "json by_plugin"
  st_invalidated :: "(string, u64) mapping"
  st_signals :: "live_signal by_plugin"

definition state_new :: "session_summary \<Rightarrow> session_state" where
  "state_new summary =
     \<lparr>st_seq = 0, st_summary = summary, st_config = config_default,
      st_transcript = transcript_new, st_turn = None, st_queue = [], st_interactions = [],
      st_context = None, st_last_turn = None, st_unread = False, st_closed = False,
      st_extensions = Mapping.empty, st_invalidated = Mapping.empty, st_signals = Mapping.empty\<rparr>"

definition attention :: "session_state \<Rightarrow> bool" where
  "attention s \<longleftrightarrow> st_interactions s \<noteq> [] \<or> (st_turn s = None \<and> st_unread s)"

definition mark_read :: "session_state \<Rightarrow> session_state" where
  "mark_read s = s\<lparr>st_unread := False\<rparr>"

definition last_status :: "session_state \<Rightarrow> turn_status option" where
  "last_status s = map_option la_status (st_last_turn s)"

definition busy :: "session_state \<Rightarrow> bool" where
  "busy s \<longleftrightarrow> st_turn s \<noteq> None"

section \<open>What each event does\<close>

text \<open>A two-level map: set a leaf, or remove it and an inner map left empty.\<close>

definition put_leaf :: "'v by_plugin \<Rightarrow> string \<Rightarrow> string \<Rightarrow> 'v \<Rightarrow> 'v by_plugin" where
  "put_leaf m plugin kind v =
     Mapping.update plugin
       (Mapping.update kind v (unwrap_or (Mapping.lookup m plugin) Mapping.empty)) m"

definition drop_leaf :: "'v by_plugin \<Rightarrow> string \<Rightarrow> string \<Rightarrow> 'v by_plugin" where
  "drop_leaf m plugin kind =
     (case Mapping.lookup m plugin of
        None \<Rightarrow> m
      | Some kinds \<Rightarrow>
          (let kinds' = Mapping.delete kind kinds in
           if Mapping.is_empty kinds' then Mapping.delete plugin m
           else Mapping.update plugin kinds' m))"

definition get_leaf :: "'v by_plugin \<Rightarrow> string \<Rightarrow> string \<Rightarrow> 'v option" where
  "get_leaf m plugin kind =
     Option.bind (Mapping.lookup m plugin) (\<lambda>kinds. Mapping.lookup kinds kind)"

definition extended :: "session_state \<Rightarrow> string \<Rightarrow> string \<Rightarrow> json \<Rightarrow> session_state \<times> applied" where
  "extended s plugin kind payload =
     (s\<lparr>st_extensions :=
          (if is_null payload then drop_leaf (st_extensions s) plugin kind
           else put_leaf (st_extensions s) plugin kind payload)\<rparr>, ApExtension)"

definition signalled ::
  "session_state \<Rightarrow> string \<Rightarrow> string \<Rightarrow> json \<Rightarrow> item_id option \<Rightarrow> session_state \<times> applied" where
  "signalled s plugin kind payload generation =
     (if is_null payload
      then (case Mapping.lookup (st_signals s) plugin of
          None \<Rightarrow> (s, ApSignal)
        | Some kinds \<Rightarrow>
            if generation \<noteq> None
               \<and> Option.bind (Mapping.lookup kinds kind) ls_generation \<noteq> generation
            then (s, ApNothing)
            else (s\<lparr>st_signals := drop_leaf (st_signals s) plugin kind\<rparr>, ApSignal))
      else (s\<lparr>st_signals := put_leaf (st_signals s) plugin kind
                \<lparr>ls_generation = generation, ls_payload = payload\<rparr>\<rparr>, ApSignal))"

definition invalidate :: "session_state \<Rightarrow> string list \<Rightarrow> session_state \<times> applied" where
  "invalidate s requests =
     (s\<lparr>st_invalidated :=
          foldl (\<lambda>m r. Mapping.update r (saturating_inc (unwrap_or (Mapping.lookup m r) 0)) m)
            (st_invalidated s) requests\<rparr>, ApSignal)"

definition count_a_message :: "session_state \<Rightarrow> event \<Rightarrow> session_state" where
  "count_a_message s e =
     (let h = ss_history (st_summary s);
          h1 = h\<lparr>sh_messages := Some (unwrap_or (sh_messages h) 0 + 1)\<rparr>;
          h2 = (case (sh_first_ask h1, e) of
                  (None, EvItemCompleted i) \<Rightarrow> h1\<lparr>sh_first_ask := first_ask i\<rparr>
                | _ \<Rightarrow> h1)
      in s\<lparr>st_summary := (st_summary s)\<lparr>ss_history := h2\<rparr>\<rparr>)"

definition session_updated :: "session_state \<Rightarrow> session_summary \<Rightarrow> session_state \<times> applied" where
  "session_updated s summary =
     (let kept = (case sh_first_ask (ss_history (st_summary s)) of
                    Some a \<Rightarrow> Some a
                  | None \<Rightarrow> sh_first_ask (ss_history summary))
      in (s\<lparr>st_summary := summary\<lparr>ss_history := (ss_history summary)\<lparr>sh_first_ask := kept\<rparr>\<rparr>,
             st_closed := False\<rparr>, ApSession))"

definition session_closed :: "session_state \<Rightarrow> session_state \<times> applied" where
  "session_closed s = (s\<lparr>st_closed := True, st_turn := None, st_interactions := []\<rparr>, ApSession)"

definition turn_started ::
  "session_state \<Rightarrow> turn_id \<Rightarrow> turn_origin \<Rightarrow> timestamp \<Rightarrow> session_state \<times> applied" where
  "turn_started s turn og started_at =
     (s\<lparr>st_turn := Some
          \<lparr>lt_id = turn, lt_started_at = started_at, lt_origin = og, lt_round = 0,
           lt_usage = usage_default, lt_retrying = None\<rparr>\<rparr>, ApTurn)"

definition item_started :: "session_state \<Rightarrow> item \<Rightarrow> applied \<Rightarrow> session_state \<times> applied" where
  "item_started s i ap =
     (let speaks = (case it_body i of BAssistant _ \<Rightarrow> True | BReasoning _ _ \<Rightarrow> True
                    | BToolCall _ \<Rightarrow> True | _ \<Rightarrow> False)
      in (case st_turn s of
            Some t \<Rightarrow>
              if speaks \<and> it_turn i = Some (lt_id t)
              then s\<lparr>st_turn := Some (t\<lparr>lt_retrying := None\<rparr>)\<rparr> else s
          | None \<Rightarrow> s, ap))"

definition turn_retrying ::
  "session_state \<Rightarrow> u32 \<Rightarrow> u32 \<Rightarrow> u64 \<Rightarrow> string \<Rightarrow> timestamp \<Rightarrow> session_state \<times> applied" where
  "turn_retrying s attempt mx delay_ms why ts =
     (s\<lparr>st_turn := map_option (\<lambda>t. t\<lparr>lt_retrying := Some
          \<lparr>rt_attempt = attempt, rt_max = mx, rt_delay_ms = delay_ms, rt_reason = why,
           rt_started_at = ts\<rparr>\<rparr>) (st_turn s)\<rparr>, ApTurn)"

definition add_summary_usage :: "session_state \<Rightarrow> usage \<Rightarrow> session_state" where
  "add_summary_usage s u =
     s\<lparr>st_summary := (st_summary s)\<lparr>ss_usage := usage_add (ss_usage (st_summary s)) u\<rparr>\<rparr>"

definition usage_charged ::
  "session_state \<Rightarrow> turn_id option \<Rightarrow> usage \<Rightarrow> session_state \<times> applied" where
  "usage_charged s turn u =
     (let s1 = (case st_turn s of
            Some live \<Rightarrow>
              if Some (lt_id live) = turn
              then s\<lparr>st_turn := Some (live\<lparr>lt_usage := usage_add (lt_usage live) u\<rparr>)\<rparr> else s
          | None \<Rightarrow> s)
      in (add_summary_usage s1 u, ApTurn))"

definition turn_usage ::
  "session_state \<Rightarrow> usage \<Rightarrow> context_usage \<Rightarrow> session_state \<times> applied" where
  "turn_usage s u cu =
     (let s1 = s\<lparr>st_turn := map_option
            (\<lambda>t. t\<lparr>lt_usage := usage_add (lt_usage t) u, lt_round := lt_round t + 1,
                   lt_retrying := None\<rparr>) (st_turn s)\<rparr>
      in ((add_summary_usage s1 u)\<lparr>st_context := Some cu\<rparr>, ApTurn))"

definition context_changed ::
  "session_state \<Rightarrow> context_usage option \<Rightarrow> session_state \<times> applied" where
  "context_changed s cu = (s\<lparr>st_context := cu\<rparr>, ApSession)"

definition turn_completed ::
  "session_state \<Rightarrow> turn_id \<Rightarrow> turn_status \<Rightarrow> usage \<Rightarrow> timestamp \<Rightarrow> session_state \<times> applied" where
  "turn_completed s turn status u ended_at =
     (let started_at = (case st_turn s of
            Some live \<Rightarrow> if lt_id live = turn then lt_started_at live else ended_at
          | None \<Rightarrow> ended_at)
      in (s\<lparr>st_turn := None,
             st_last_turn := Some \<lparr>la_id = turn, la_status = status, la_started_at = started_at,
                                   la_ended_at = ended_at, la_usage = u\<rparr>,
             st_unread := True\<rparr>, ApTurn))"

definition rewound :: "session_state \<Rightarrow> applied \<Rightarrow> session_state \<times> applied" where
  "rewound s ap =
     (case st_last_turn s of
        Some turn \<Rightarrow>
          if list_ex (\<lambda>i. it_turn i = Some (la_id turn)) (visible_items (st_transcript s))
          then (s, ap) else (s\<lparr>st_last_turn := None\<rparr>, ap)
      | None \<Rightarrow> (s, ap))"

definition queue_changed :: "session_state \<Rightarrow> queue_entry list \<Rightarrow> session_state \<times> applied" where
  "queue_changed s entries = (s\<lparr>st_queue := entries\<rparr>, ApQueue)"

definition interaction_opened :: "session_state \<Rightarrow> interaction \<Rightarrow> session_state \<times> applied" where
  "interaction_opened s i =
     (s\<lparr>st_interactions := filter (\<lambda>j. in_id j \<noteq> in_id i) (st_interactions s) @ [i]\<rparr>,
      ApInteraction (in_id i))"

definition interaction_closed :: "session_state \<Rightarrow> interaction_id \<Rightarrow> session_state \<times> applied" where
  "interaction_closed s k =
     (s\<lparr>st_interactions := filter (\<lambda>j. in_id j \<noteq> k) (st_interactions s)\<rparr>, ApInteraction k)"

definition config_changed :: "session_state \<Rightarrow> config_view \<Rightarrow> session_state \<times> applied" where
  "config_changed s c = (s\<lparr>st_config := c\<rparr>, ApConfig)"

section \<open>The reducer\<close>

definition is_lagged :: "event \<Rightarrow> bool" where
  "is_lagged e = (case e of EvLagged _ _ \<Rightarrow> True | _ \<Rightarrow> False)"

definition dispatch :: "session_state \<Rightarrow> frame \<Rightarrow> applied \<Rightarrow> session_state \<times> applied" where
  "dispatch s f ap =
     (case fr_event f of
        EvSessionUpdated summary \<Rightarrow> session_updated s summary
      | EvSessionClosed _ \<Rightarrow> session_closed s
      | EvTurnStarted turn _ og \<Rightarrow> turn_started s turn og (fr_ts f)
      | EvTurnRetrying _ attempt mx delay_ms _ why \<Rightarrow>
          turn_retrying s attempt mx delay_ms why (fr_ts f)
      | EvTurnUsage _ u cu \<Rightarrow> turn_usage s u cu
      | EvContextChanged cu \<Rightarrow> context_changed s cu
      | EvUsageCharged turn _ u \<Rightarrow> usage_charged s turn u
      | EvTurnCompleted turn status u \<Rightarrow> turn_completed s turn status u (fr_ts f)
      | EvItemStarted i \<Rightarrow> item_started s i ap
      | EvItemUpdated _ \<Rightarrow> (s, ap)
      | EvItemCompleted _ \<Rightarrow> (s, ap)
      | EvItemDelta _ _ _ _ \<Rightarrow> (s, ap)
      | EvCompacted _ _ _ _ \<Rightarrow> (s, ap)
      | EvQueueChanged _ entries \<Rightarrow> queue_changed s entries
      | EvInteractionOpened i \<Rightarrow> interaction_opened s i
      | EvInteractionResolved k _ _ \<Rightarrow> interaction_closed s k
      | EvInteractionCancelled k _ \<Rightarrow> interaction_closed s k
      | EvIntentAck k _ \<Rightarrow> (s, ApIntent k)
      | EvRewound _ _ _ _ \<Rightarrow> rewound s ap
      | EvConfigChanged c \<Rightarrow> config_changed s c
      | EvCatalogChanged _ \<Rightarrow> (s, ApNothing)
      | EvUnknown _ \<Rightarrow> (s, ApNothing)
      | EvNotice _ _ _ \<Rightarrow> (s, ApNotice)
      | EvExtension plugin kind payload \<Rightarrow> extended s plugin kind payload
      | EvSignal generation plugin kind payload \<Rightarrow> signalled s plugin kind payload generation
      | EvInvalidated requests \<Rightarrow> invalidate s requests
      | EvLagged _ _ \<Rightarrow> (s, ApLagged))"

definition state_apply :: "session_state \<Rightarrow> frame \<Rightarrow> session_state \<times> applied" where
  "state_apply s f =
     (if is_lagged (fr_event f) then (s, ApLagged)
      else if fr_seq f \<le> st_seq s \<and> st_seq s \<noteq> 0 then (s, ApStale)
      else (let s1 = s\<lparr>st_seq := fr_seq f\<rparr>;
                s2 = (if completes_a_message (fr_event f) then count_a_message s1 (fr_event f) else s1);
                (tr, ap) = transcript_apply (st_transcript s2) (fr_event f)
            in dispatch (s2\<lparr>st_transcript := tr\<rparr>) f ap))"

definition state_fold :: "session_state \<Rightarrow> frame list \<Rightarrow> session_state" where
  "state_fold s fs = foldl (\<lambda>s f. fst (state_apply s f)) s fs"

section \<open>Reducers over numbered frames\<close>

text \<open>
  The contract a client relies on when it re-reads a journal: a transport frame
  and a frame at or below the cursor change nothing, any other frame moves the
  cursor to its own number.
\<close>

locale sequenced_reducer =
  fixes step :: "'s \<Rightarrow> 'f \<Rightarrow> 's"
    and cursor :: "'s \<Rightarrow> nat"
    and stamp :: "'f \<Rightarrow> nat"
    and transport :: "'f \<Rightarrow> bool"
  assumes transport_skip: "transport f \<Longrightarrow> step s f = s"
    and stale_skip: "stamp f \<le> cursor s \<Longrightarrow> cursor s \<noteq> 0 \<Longrightarrow> step s f = s"
    and advances: "\<not> transport f \<Longrightarrow> cursor s < stamp f \<or> cursor s = 0 \<Longrightarrow> cursor (step s f) = stamp f"
begin

lemma cursor_step_mono: "cursor s \<le> cursor (step s f)"
proof (cases "transport f \<or> (stamp f \<le> cursor s \<and> cursor s \<noteq> 0)")
  case True
  then show ?thesis using transport_skip stale_skip by auto
next
  case False
  then show ?thesis using advances[of f s] by auto
qed

lemma cursor_step_ge: "\<not> transport f \<Longrightarrow> stamp f \<le> cursor (step s f)"
  using advances[of f s] cursor_step_mono[of s f] by (cases "cursor s < stamp f \<or> cursor s = 0") auto

lemma cursor_fold_mono: "cursor s \<le> cursor (foldl step s fs)"
  by (induction fs arbitrary: s) (auto intro: order_trans[OF cursor_step_mono])

lemma cursor_fold_ge:
  "f \<in> set fs \<Longrightarrow> \<not> transport f \<Longrightarrow> stamp f \<le> cursor (foldl step s fs)"
  by (induction fs arbitrary: s) (auto intro: order_trans[OF cursor_step_ge cursor_fold_mono])

lemma fold_seen:
  "\<forall>f \<in> set fs. transport f \<or> (0 < stamp f \<and> stamp f \<le> cursor s) \<Longrightarrow> foldl step s fs = s"
  by (induction fs) (auto simp: transport_skip stale_skip)

lemma replay_overlap:
  assumes "\<forall>f \<in> set xs. 0 < stamp f" "set ys \<subseteq> set xs"
  shows "foldl step (foldl step s xs) (ys @ zs) = foldl step s (xs @ zs)"
proof -
  have "foldl step (foldl step s xs) ys = foldl step s xs"
    by (rule fold_seen) (use assms cursor_fold_ge[of _ xs s] in auto)
  then show ?thesis by simp
qed

text \<open>
  A component of the state that each fresh frame maps by a function of its own
  is the fold of that function.
\<close>

lemma project_fold:
  assumes "\<And>s f. \<not> transport f \<Longrightarrow> cursor s < stamp f \<Longrightarrow> p (step s f) = g (p s) f"
    and "\<And>x f. transport f \<Longrightarrow> g x f = x"
    and "sorted_wrt (<) (cursor s # map stamp fs)"
  shows "p (foldl step s fs) = foldl g (p s) fs"
  using assms(3)
proof (induction fs arbitrary: s)
  case (Cons f fs)
  have "cursor (step s f) \<le> stamp f"
    using Cons.prems advances[of f s] transport_skip[of f s] by (cases "transport f") auto
  then have "sorted_wrt (<) (cursor (step s f) # map stamp fs)"
    using Cons.prems by (auto intro: le_less_trans)
  moreover have "p (step s f) = g (p s) f"
    using Cons.prems assms(1,2) transport_skip[of f s] by (cases "transport f") auto
  ultimately show ?case
    using Cons.IH by simp
qed simp

end

section \<open>The reducer meets the contract\<close>

lemmas handler_defs =
  session_updated_def session_closed_def turn_started_def turn_retrying_def turn_usage_def
  context_changed_def usage_charged_def turn_completed_def item_started_def queue_changed_def
  interaction_opened_def interaction_closed_def rewound_def config_changed_def extended_def
  signalled_def invalidate_def add_summary_usage_def Let_def

lemma dispatch_frame_fields [simp]:
  "st_seq (fst (dispatch s f ap)) = st_seq s"
  "st_transcript (fst (dispatch s f ap)) = st_transcript s"
  by (cases "fr_event f"; auto simp: dispatch_def handler_defs split: option.splits if_splits)+

lemma count_a_message_fields [simp]:
  "st_seq (count_a_message s e) = st_seq s"
  "st_transcript (count_a_message s e) = st_transcript s"
  "st_interactions (count_a_message s e) = st_interactions s"
  "st_extensions (count_a_message s e) = st_extensions s"
  "st_signals (count_a_message s e) = st_signals s"
  "st_turn (count_a_message s e) = st_turn s"
  "ss_usage (st_summary (count_a_message s e)) = ss_usage (st_summary s)"
  by (simp_all add: count_a_message_def Let_def split: option.splits event.splits)

text \<open>The state a fresh frame is dispatched in.\<close>

definition prepared :: "session_state \<Rightarrow> frame \<Rightarrow> session_state" where
  "prepared s f =
     (let s1 = s\<lparr>st_seq := fr_seq f\<rparr>;
          s2 = (if completes_a_message (fr_event f) then count_a_message s1 (fr_event f) else s1)
      in s2\<lparr>st_transcript := fst (transcript_apply (st_transcript s2) (fr_event f))\<rparr>)"

lemma state_apply_fresh:
  "\<not> is_lagged (fr_event f) \<Longrightarrow> st_seq s < fr_seq f \<or> st_seq s = 0 \<Longrightarrow>
     state_apply s f = dispatch (prepared s f) f (snd (transcript_apply (st_transcript s) (fr_event f)))"
  by (auto simp: state_apply_def prepared_def Let_def split: prod.splits)

lemma prepared_fields [simp]:
  "st_seq (prepared s f) = fr_seq f"
  "st_interactions (prepared s f) = st_interactions s"
  "st_extensions (prepared s f) = st_extensions s"
  "st_signals (prepared s f) = st_signals s"
  "st_turn (prepared s f) = st_turn s"
  "ss_usage (st_summary (prepared s f)) = ss_usage (st_summary s)"
  "st_transcript (prepared s f) = fst (transcript_apply (st_transcript s) (fr_event f))"
  by (simp_all add: prepared_def Let_def)

interpretation reducer: sequenced_reducer
  "\<lambda>s f. fst (state_apply s f)" st_seq fr_seq "\<lambda>f. is_lagged (fr_event f)"
proof
  fix f s
  show "is_lagged (fr_event f) \<Longrightarrow> fst (state_apply s f) = s"
    by (simp add: state_apply_def)
  show "fr_seq f \<le> st_seq s \<Longrightarrow> st_seq s \<noteq> 0 \<Longrightarrow> fst (state_apply s f) = s"
    by (simp add: state_apply_def)
  show "\<not> is_lagged (fr_event f) \<Longrightarrow> st_seq s < fr_seq f \<or> st_seq s = 0 \<Longrightarrow>
      st_seq (fst (state_apply s f)) = fr_seq f"
    by (simp add: state_apply_fresh)
qed

text \<open>
  A client that lost its place may re-read any part of the journal it has
  already seen: frames that were applied before change nothing, so the state
  after \<open>xs\<close>, a replay of some of \<open>xs\<close> and then \<open>zs\<close> is the state after
  \<open>xs\<close> and \<open>zs\<close>.
\<close>

theorem resync_replay:
  assumes "\<forall>f \<in> set xs. 0 < fr_seq f" "set ys \<subseteq> set xs"
  shows "state_fold (state_fold s xs) (ys @ zs) = state_fold s (xs @ zs)"
  unfolding state_fold_def by (rule reducer.replay_overlap[OF assms])

section \<open>Plugin state\<close>

lemma get_leaf_put [simp]:
  "get_leaf (put_leaf m p k v) p' k' = (if p = p' \<and> k = k' then Some v else get_leaf m p' k')"
  by (auto simp: get_leaf_def put_leaf_def unwrap_or_def split: option.splits)

lemma get_leaf_drop [simp]:
  "get_leaf (drop_leaf m p k) p' k' = (if p = p' \<and> k = k' then None else get_leaf m p' k')"
  by (auto simp: get_leaf_def drop_leaf_def Let_def mapping_is_empty_lookup
      split: option.splits if_splits)

definition no_empty_inner :: "'v by_plugin \<Rightarrow> bool" where
  "no_empty_inner m \<longleftrightarrow> (\<forall>p kinds. Mapping.lookup m p = Some kinds \<longrightarrow> \<not> Mapping.is_empty kinds)"

lemma no_empty_put [wf_intros]: "no_empty_inner m \<Longrightarrow> no_empty_inner (put_leaf m p k v)"
  by (auto simp: no_empty_inner_def put_leaf_def mapping_is_empty_lookup)

lemma no_empty_drop [wf_intros]: "no_empty_inner m \<Longrightarrow> no_empty_inner (drop_leaf m p k)"
  by (auto simp: no_empty_inner_def drop_leaf_def Let_def split: option.splits)

section \<open>The invariant of the state\<close>

definition wf_state :: "session_state \<Rightarrow> bool" where
  "wf_state s \<longleftrightarrow>
     wf_transcript (st_transcript s) \<and> distinct (map in_id (st_interactions s))
     \<and> no_empty_inner (st_extensions s) \<and> no_empty_inner (st_signals s)"

text \<open>What a frame does to the open interactions, and to the two plugin maps.\<close>

definition interactions_step :: "interaction list \<Rightarrow> event \<Rightarrow> interaction list" where
  "interactions_step xs e =
     (case e of
        EvInteractionOpened i \<Rightarrow> filter (\<lambda>j. in_id j \<noteq> in_id i) xs @ [i]
      | EvInteractionResolved k _ _ \<Rightarrow> filter (\<lambda>j. in_id j \<noteq> k) xs
      | EvInteractionCancelled k _ \<Rightarrow> filter (\<lambda>j. in_id j \<noteq> k) xs
      | EvSessionClosed _ \<Rightarrow> []
      | _ \<Rightarrow> xs)"

definition extensions_step :: "json by_plugin \<Rightarrow> event \<Rightarrow> json by_plugin" where
  "extensions_step m e =
     (case e of
        EvExtension p k v \<Rightarrow> (if is_null v then drop_leaf m p k else put_leaf m p k v)
      | _ \<Rightarrow> m)"

lemma dispatch_interactions:
  "st_interactions (fst (dispatch s f ap)) = interactions_step (st_interactions s) (fr_event f)"
  by (cases "fr_event f")
     (auto simp: dispatch_def interactions_step_def handler_defs split: option.splits if_splits)

lemma dispatch_extensions:
  "st_extensions (fst (dispatch s f ap)) = extensions_step (st_extensions s) (fr_event f)"
  by (cases "fr_event f")
     (auto simp: dispatch_def extensions_step_def handler_defs split: option.splits if_splits)

lemma dispatch_signals:
  "no_empty_inner (st_signals s) \<Longrightarrow> no_empty_inner (st_signals (fst (dispatch s f ap)))"
  by (cases "fr_event f")
     (auto simp: dispatch_def handler_defs intro: wf_intros split: option.splits if_splits)

lemma distinct_interactions_step [wf_intros]:
  "distinct (map in_id xs) \<Longrightarrow> distinct (map in_id (interactions_step xs e))"
  by (cases e) (auto simp: interactions_step_def distinct_map_filter)

lemma no_empty_extensions_step [wf_intros]:
  "no_empty_inner m \<Longrightarrow> no_empty_inner (extensions_step m e)"
  by (cases e) (auto simp: extensions_step_def intro: wf_intros)

lemma wf_state_new [wf_intros]: "wf_state (state_new summary)"
  by (simp add: wf_state_def state_new_def no_empty_inner_def)

lemma wf_state_apply [wf_intros]:
  assumes "wf_state s"
  shows "wf_state (fst (state_apply s f))"
proof (cases "is_lagged (fr_event f) \<or> (fr_seq f \<le> st_seq s \<and> st_seq s \<noteq> 0)")
  case True
  then show ?thesis using assms by (auto simp: state_apply_def)
next
  case False
  then have "state_apply s f
      = dispatch (prepared s f) f (snd (transcript_apply (st_transcript s) (fr_event f)))"
    by (intro state_apply_fresh) auto
  then show ?thesis
    using assms
    by (auto simp: wf_state_def dispatch_interactions dispatch_extensions
        intro!: wf_intros dispatch_signals)
qed

lemma wf_state_fold [wf_intros]: "wf_state s \<Longrightarrow> wf_state (state_fold s fs)"
  unfolding state_fold_def by (induction fs arbitrary: s) (simp_all add: wf_state_apply)

text \<open>
  Whatever frames arrive, in whatever order, the state stays well-formed: the
  transcript invariant holds, no interaction is open twice, and no plugin keeps
  an empty table of extensions or signals.
\<close>

theorem state_invariant: "wf_state (state_fold (state_new summary) fs)"
  by (intro wf_intros)

section \<open>Open interactions and plugin state over a run\<close>

text \<open>Which events end an open interaction; opening it again does, too.\<close>

definition ends_interaction :: "event \<Rightarrow> interaction_id \<Rightarrow> bool" where
  "ends_interaction e k =
     (case e of
        EvInteractionOpened i \<Rightarrow> in_id i = k
      | EvInteractionResolved k' _ _ \<Rightarrow> k' = k
      | EvInteractionCancelled k' _ \<Rightarrow> k' = k
      | EvSessionClosed _ \<Rightarrow> True
      | _ \<Rightarrow> False)"

lemma interactions_step_iff:
  "i \<in> set (interactions_step xs e) \<longleftrightarrow>
     e = EvInteractionOpened i \<or> (i \<in> set xs \<and> \<not> ends_interaction e (in_id i))"
  by (cases e) (auto simp: interactions_step_def ends_interaction_def)

text \<open>An event opened \<open>i\<close> and nothing after it ended it.\<close>

definition opened_since :: "event list \<Rightarrow> interaction \<Rightarrow> bool" where
  "opened_since es i \<longleftrightarrow>
     (\<exists>as bs. es = as @ EvInteractionOpened i # bs \<and> (\<forall>e \<in> set bs. \<not> ends_interaction e (in_id i)))"

lemma opened_since_Nil [simp]: "\<not> opened_since [] i"
  by (simp add: opened_since_def)

lemma opened_since_snoc:
  "opened_since (es @ [e]) i \<longleftrightarrow>
     e = EvInteractionOpened i \<or> (\<not> ends_interaction e (in_id i) \<and> opened_since es i)"
proof
  assume "opened_since (es @ [e]) i"
  then obtain as bs where "es @ [e] = as @ EvInteractionOpened i # bs"
      "\<forall>e \<in> set bs. \<not> ends_interaction e (in_id i)"
    by (auto simp: opened_since_def)
  then show "e = EvInteractionOpened i \<or> (\<not> ends_interaction e (in_id i) \<and> opened_since es i)"
    by (cases bs rule: rev_cases) (auto simp: opened_since_def)
next
  assume "e = EvInteractionOpened i \<or> (\<not> ends_interaction e (in_id i) \<and> opened_since es i)"
  then show "opened_since (es @ [e]) i"
  proof
    assume "e = EvInteractionOpened i"
    then have "es @ [e] = es @ EvInteractionOpened i # []" by simp
    then show ?thesis unfolding opened_since_def by (intro exI[of _ es] exI[of _ "[]"]) simp
  next
    assume "\<not> ends_interaction e (in_id i) \<and> opened_since es i"
    then obtain as bs where "es @ [e] = as @ EvInteractionOpened i # (bs @ [e])"
        "\<forall>e \<in> set (bs @ [e]). \<not> ends_interaction e (in_id i)"
      by (auto simp: opened_since_def)
    then show ?thesis unfolding opened_since_def by blast
  qed
qed

lemma interactions_fold_iff:
  "i \<in> set (foldl interactions_step xs es) \<longleftrightarrow>
     (i \<in> set xs \<and> (\<forall>e \<in> set es. \<not> ends_interaction e (in_id i))) \<or> opened_since es i"
  by (induction es rule: rev_induct) (auto simp: interactions_step_iff opened_since_snoc)

text \<open>The last payload published for a kind, or what was there before.\<close>

definition last_extension :: "frame list \<Rightarrow> string \<Rightarrow> string \<Rightarrow> json option \<Rightarrow> json option" where
  "last_extension fs p k old =
     foldl (\<lambda>v f. case fr_event f of
         EvExtension p' k' w \<Rightarrow> if p' = p \<and> k' = k then (if is_null w then None else Some w) else v
       | _ \<Rightarrow> v) old fs"

lemma get_leaf_extensions_step:
  "get_leaf (extensions_step m e) p k =
     (case e of
        EvExtension p' k' w \<Rightarrow>
          if p' = p \<and> k' = k then (if is_null w then None else Some w) else get_leaf m p k
      | _ \<Rightarrow> get_leaf m p k)"
  by (cases e) (auto simp: extensions_step_def)

lemma fold_interactions:
  assumes "sorted_wrt (<) (st_seq s # map fr_seq fs)"
  shows "st_interactions (state_fold s fs)
      = foldl interactions_step (st_interactions s) (map fr_event fs)"
proof -
  have "st_interactions (state_fold s fs)
      = foldl (\<lambda>xs f. interactions_step xs (fr_event f)) (st_interactions s) fs"
    unfolding state_fold_def
    by (rule reducer.project_fold[OF _ _ assms])
       (auto simp: state_apply_fresh dispatch_interactions interactions_step_def is_lagged_def
         split: event.splits)
  then show ?thesis
    by (simp add: foldl_map)
qed

text \<open>
  On fresh frames, an interaction is open exactly when it was opened (or was
  open before) and nothing since resolved, cancelled or reopened it or closed the
  session.
\<close>

theorem open_interactions:
  assumes "sorted_wrt (<) (st_seq s # map fr_seq fs)"
  shows "i \<in> set (st_interactions (state_fold s fs)) \<longleftrightarrow>
     (i \<in> set (st_interactions s) \<and> (\<forall>f \<in> set fs. \<not> ends_interaction (fr_event f) (in_id i)))
     \<or> opened_since (map fr_event fs) i"
  unfolding fold_interactions[OF assms] interactions_fold_iff by simp

text \<open>
  On fresh frames, what a plugin published under a kind is the payload of the
  last extension frame for it, a null payload meaning that nothing is kept.
\<close>

theorem extensions_last_payload:
  assumes "sorted_wrt (<) (st_seq s # map fr_seq fs)"
  shows "get_leaf (st_extensions (state_fold s fs)) p k
      = last_extension fs p k (get_leaf (st_extensions s) p k)"
  unfolding state_fold_def last_extension_def
  by (rule reducer.project_fold[OF _ _ assms, where p = "\<lambda>s. get_leaf (st_extensions s) p k"])
     (auto simp: state_apply_fresh dispatch_extensions get_leaf_extensions_step is_lagged_def
       split: event.splits)

section \<open>Spending and messages\<close>

definition charge :: "event \<Rightarrow> usage" where
  "charge e =
     (case e of EvTurnUsage _ u _ \<Rightarrow> u | EvUsageCharged _ _ u \<Rightarrow> u | _ \<Rightarrow> usage_default)"

definition spent :: "session_state \<Rightarrow> usage \<times> u64 option" where
  "spent s = (ss_usage (st_summary s), sh_messages (ss_history (st_summary s)))"

lemma messages_prepared:
  "sh_messages (ss_history (st_summary (prepared s f))) =
     (if completes_a_message (fr_event f)
      then Some (unwrap_or (sh_messages (ss_history (st_summary s))) 0 + 1)
      else sh_messages (ss_history (st_summary s)))"
  by (simp add: prepared_def Let_def count_a_message_def split: option.splits event.splits)

lemma dispatch_spent:
  "spent (fst (dispatch s f ap)) =
     (case fr_event f of
        EvSessionUpdated n \<Rightarrow> (ss_usage n, sh_messages (ss_history n))
      | e \<Rightarrow> (usage_add (ss_usage (st_summary s)) (charge e), snd (spent s)))"
  by (cases "fr_event f")
     (auto simp: dispatch_def spent_def charge_def handler_defs split: option.splits if_splits)

definition spent_step :: "usage \<times> u64 option \<Rightarrow> event \<Rightarrow> usage \<times> u64 option" where
  "spent_step um e =
     (case e of
        EvSessionUpdated n \<Rightarrow> (ss_usage n, sh_messages (ss_history n))
      | _ \<Rightarrow> (usage_add (fst um) (charge e),
               if completes_a_message e then Some (unwrap_or (snd um) 0 + 1) else snd um))"

lemma spent_apply:
  assumes "\<not> is_lagged (fr_event f)" "st_seq s < fr_seq f"
  shows "spent (fst (state_apply s f)) = spent_step (spent s) (fr_event f)"
  using assms
  by (auto simp: state_apply_fresh dispatch_spent spent_def[of "prepared s f"] spent_def[of s]
      messages_prepared spent_step_def split: event.splits)

definition is_session_updated :: "event \<Rightarrow> bool" where
  "is_session_updated e = (case e of EvSessionUpdated _ \<Rightarrow> True | _ \<Rightarrow> False)"

lemma spent_step_fold:
  "\<forall>e \<in> set es. \<not> is_session_updated e \<Longrightarrow>
     fst (foldl spent_step um es) = foldl usage_add (fst um) (map charge es)
     \<and> unwrap_or (snd (foldl spent_step um es)) 0
         = unwrap_or (snd um) 0 + of_nat (length (filter completes_a_message es))"
proof (induction es arbitrary: um)
  case (Cons e es)
  then have "spent_step um e = (usage_add (fst um) (charge e),
      if completes_a_message e then Some (unwrap_or (snd um) 0 + 1) else snd um)"
    by (simp add: spent_step_def is_session_updated_def split: event.splits)
  then show ?case
    using Cons.IH[of "spent_step um e"] Cons.prems by (simp add: unwrap_or_def)
qed simp

text \<open>
  Between two summaries, the tokens a session reports are the old total plus
  every charge (the usage of each round and every plugin's own spending), and its
  message count grows by exactly the number of messages completed, however often
  an item was updated on the way.
\<close>

theorem spending_and_messages:
  assumes "sorted_wrt (<) (st_seq s # map fr_seq fs)"
    and "\<forall>f \<in> set fs. \<not> is_session_updated (fr_event f)"
  shows "ss_usage (st_summary (state_fold s fs))
      = foldl usage_add (ss_usage (st_summary s)) (map (\<lambda>f. charge (fr_event f)) fs)
    \<and> unwrap_or (sh_messages (ss_history (st_summary (state_fold s fs)))) 0
      = unwrap_or (sh_messages (ss_history (st_summary s))) 0
        + of_nat (length (filter (\<lambda>f. completes_a_message (fr_event f)) fs))"
proof -
  have "spent (state_fold s fs) = foldl (\<lambda>um f. spent_step um (fr_event f)) (spent s) fs"
    unfolding state_fold_def
    by (rule reducer.project_fold[OF _ _ assms(1), where p = spent])
       (auto simp: spent_apply spent_step_def charge_def completes_a_message_def is_lagged_def
         split: event.splits)
  then have folded: "foldl spent_step (spent s) (map fr_event fs) = spent (state_fold s fs)"
    by (simp add: foldl_map)
  then show ?thesis
    using spent_step_fold[of "map fr_event fs" "spent s"] assms(2) unfolding folded
    by (simp add: spent_def comp_def filter_map)
qed

section \<open>Witnesses\<close>

definition sample_summary :: session_summary where
  "sample_summary =
     \<lparr>ss_id = ''s'', ss_key = None, ss_title = None, ss_cwd = ''/w'', ss_parent = None,
      ss_driver = DriverModel,
      ss_choice = \<lparr>sm_model = None, sm_model_scope = None, sm_effort = None\<rparr>,
      ss_system_extra = None, ss_tools = None, ss_provider = None, ss_created_at = 0,
      ss_updated_at = 0, ss_usage = usage_default, ss_busy = False, ss_asking = False,
      ss_history = \<lparr>sh_first_ask = None, sh_forked_from = None, sh_messages = None\<rparr>\<rparr>"

definition sample_frame :: "nat \<Rightarrow> event \<Rightarrow> frame" where
  "sample_frame n e =
     \<lparr>fr_seq = n, fr_ts = 0, fr_session = ''s'', fr_cause = None, fr_event = e\<rparr>"

definition sample_interaction :: interaction where
  "sample_interaction =
     \<lparr>in_id = ''i'', in_session = ''s'', in_turn = None, in_item = None, in_opened_at = 0,
      in_guard_until = None, in_expires_at = None, in_kind = KConfirm ''t'' ''d'',
      in_answers = [SpConfirm, SpCancel]\<rparr>"

definition sample_frames :: "frame list" where
  "sample_frames =
     [sample_frame 1 (EvItemCompleted (sample_item ''a'' (BAssistant ''hi''))),
      sample_frame 2 (EvExtension ''p'' ''k'' (JBool True)),
      sample_frame 3 (EvUsageCharged None ''p'' usage_default),
      sample_frame 4 (EvInteractionOpened sample_interaction)]"

lemma sample_fresh: "sorted_wrt (<) (st_seq (state_new sample_summary) # map fr_seq sample_frames)"
  by (simp add: sample_frames_def sample_frame_def state_new_def)

theorem resync_replay_witness:
  "state_fold (state_fold (state_new sample_summary) sample_frames) (sample_frames @ sample_frames)
   = state_fold (state_new sample_summary) (sample_frames @ sample_frames)"
  by (rule resync_replay) (simp_all add: sample_frames_def sample_frame_def)

theorem open_interactions_witness:
  "sample_interaction
     \<in> set (st_interactions (state_fold (state_new sample_summary) sample_frames))"
proof -
  have "map fr_event sample_frames
      = map fr_event (take 3 sample_frames) @ [EvInteractionOpened sample_interaction]"
    by (simp add: sample_frames_def sample_frame_def)
  then have "opened_since (map fr_event sample_frames) sample_interaction"
    by (simp add: opened_since_snoc)
  then show ?thesis
    using open_interactions[OF sample_fresh, of sample_interaction] by simp
qed

theorem extensions_last_payload_witness:
  "get_leaf (st_extensions (state_fold (state_new sample_summary) sample_frames)) ''p'' ''k''
   = Some (JBool True)"
  using extensions_last_payload[OF sample_fresh, of "''p''" "''k''"]
  by (simp add: last_extension_def sample_frames_def sample_frame_def)

theorem spending_and_messages_witness:
  "unwrap_or (sh_messages (ss_history (st_summary
     (state_fold (state_new sample_summary) sample_frames)))) 0 = 1"
  using spending_and_messages[OF sample_fresh]
  by (simp add: sample_frames_def sample_frame_def is_session_updated_def completes_a_message_def
      sample_item_def is_message_def state_new_def sample_summary_def unwrap_or_def)

end
