(* ===== verification/Core_Context.thy ===== *)
theory Core_Context
  imports Sdk_State
begin

text \<open>
  The model view of a transcript (\<open>bingo-core/src/context.rs\<close>): the fold of
  items into the messages a provider receives (\<open>Folder\<close>), who a line is
  attributed to, and the reference fold of a journal into model items
  (\<open>ContextView::items\<close>), against which the incremental transcript is checked.

  \<open>render\<close> is the text \<open>serde_json\<close> gives a JSON value; nothing is assumed
  of it.
\<close>

section \<open>Attribution\<close>

definition speaker :: "origin \<Rightarrow> string option" where
  "speaker og =
     (let said = (\<lambda>v. case v of Some s \<Rightarrow> if s = [] then None else Some s | None \<Rightarrow> None)
      in case (said (or_principal og), said (or_conversation og)) of
           (Some who, Some place) \<Rightarrow> Some (''from '' @ who @ '' in '' @ place)
         | (Some who, None) \<Rightarrow> Some (''from '' @ who)
         | (None, Some place) \<Rightarrow> Some (''in '' @ place)
         | (None, None) \<Rightarrow> None)"

definition THE_PERSON :: string where
  "THE_PERSON = ''from the person you work for''"

definition person_surface :: "origin \<Rightarrow> bool" where
  "person_surface og \<longleftrightarrow> or_surface og \<in> set PERSON_SURFACES \<and> effective_voice og = Said"

definition the_persons_own :: "origin \<Rightarrow> bool" where
  "the_persons_own og \<longleftrightarrow> speaker og = None \<and> person_surface og"

definition marker :: "origin \<Rightarrow> string option" where
  "marker og =
     (case speaker og of
        Some l \<Rightarrow> Some l
      | None \<Rightarrow> if the_persons_own og then Some THE_PERSON else None)"

definition spoken :: "content_part list \<Rightarrow> origin \<Rightarrow> content_part list" where
  "spoken parts og =
     (case marker og of None \<Rightarrow> parts | Some label \<Rightarrow> PText (''['' @ label @ '']'') # parts)"

definition plain :: "(json \<Rightarrow> string) \<Rightarrow> json \<Rightarrow> string" where
  "plain render v = (case v of JString s \<Rightarrow> s | JNull \<Rightarrow> [] | _ \<Rightarrow> render v)"

section \<open>The fold into messages\<close>

definition OPENING_NOTE :: string where
  "OPENING_NOTE = ''[The conversation begins here.]''"

record folder =
  fo_messages :: "message list"
  fo_pending :: "content_part list"
  fo_round :: "(turn_id option \<times> u32) option"

definition folder_default :: folder where
  "folder_default = \<lparr>fo_messages = [], fo_pending = [], fo_round = None\<rparr>"

definition extend_parts :: "content_part list \<Rightarrow> message \<Rightarrow> message" where
  "extend_parts ps m = m\<lparr>msg_parts := msg_parts m @ ps\<rparr>"

text \<open>
  Append to the last message when it has the role, else open a new one: the
  match on \<open>messages.last_mut()\<close> of \<open>user\<close> and \<open>assistant\<close>.
\<close>

definition join_role :: "role \<Rightarrow> content_part list \<Rightarrow> message list \<Rightarrow> message list" where
  "join_role r ps ms =
     (if ms \<noteq> [] \<and> msg_role (last ms) = r then butlast ms @ [extend_parts ps (last ms)]
      else ms @ [\<lparr>msg_role = r, msg_parts = ps, msg_provider_options = []\<rparr>])"

definition folder_user :: "content_part list \<Rightarrow> folder \<Rightarrow> folder" where
  "folder_user ps f =
     f\<lparr>fo_messages := join_role RoleUser (fo_pending f @ ps) (fo_messages f), fo_pending := []\<rparr>"

definition folder_owed :: "folder \<Rightarrow> folder" where
  "folder_owed f =
     (if fo_pending f = [] then f else folder_user (fo_pending f) (f\<lparr>fo_pending := []\<rparr>))"

definition folder_assistant :: "content_part list \<Rightarrow> folder \<Rightarrow> folder" where
  "folder_assistant ps f =
     (let f1 = folder_owed f in f1\<lparr>fo_messages := join_role RoleAssistant ps (fo_messages f1)\<rparr>)"

definition folder_note :: "string \<Rightarrow> folder \<Rightarrow> folder" where
  "folder_note t f = folder_user [PText t] f"

definition folder_text :: "string \<Rightarrow> folder \<Rightarrow> folder" where
  "folder_text t f = (if t = [] then f else folder_assistant [PText t] f)"

definition folder_reasoning :: "string \<Rightarrow> provider_metadata \<Rightarrow> folder \<Rightarrow> folder" where
  "folder_reasoning t meta f =
     (if t \<noteq> [] \<or> meta \<noteq> [] then folder_assistant [PReasoning t meta] f else f)"

definition folder_tool_call :: "turn_id option \<times> u32 \<Rightarrow> call_body \<Rightarrow> folder \<Rightarrow> folder" where
  "folder_tool_call round c f =
     (let part = PToolUse (cb_call_id c) (cb_name c) (cb_input c);
          f1 = (if fo_messages f \<noteq> [] \<and> msg_role (last (fo_messages f)) = RoleAssistant
                   \<and> fo_round f = Some round
                then f\<lparr>fo_messages :=
                        butlast (fo_messages f) @ [extend_parts [part] (last (fo_messages f))]\<rparr>
                else (folder_assistant [part] f)\<lparr>fo_round := Some round\<rparr>);
          (parts, is_error) = (case cb_output c of
              Some out \<Rightarrow> (to_parts out, to_is_error out)
            | None \<Rightarrow> ([PText ''[no result: the call did not complete]''], True))
      in f1\<lparr>fo_pending := fo_pending f1 @ [PToolResult (cb_call_id c) parts is_error]\<rparr>)"

definition folder_item :: "(json \<Rightarrow> string) \<Rightarrow> folder \<Rightarrow> item \<Rightarrow> folder" where
  "folder_item render f i =
     (case it_body i of
        BUser parts og \<Rightarrow> folder_user (spoken parts og) f
      | BAssistant t \<Rightarrow> folder_text t f
      | BReasoning t meta \<Rightarrow> folder_reasoning t meta f
      | BToolCall c \<Rightarrow>
          if external i then f else folder_tool_call (it_turn i, it_round i) c f
      | BCompaction c \<Rightarrow>
          if co_summary c = [] then f
          else folder_note (''[Summary of the conversation so far]'' @ nl @ co_summary c) f
      | BInterruption mark _ \<Rightarrow> folder_note mark f
      | BQuestionAnswer _ _ _ q a \<Rightarrow> folder_note (''Q: '' @ q @ nl @ ''A: '' @ a) f
      | BShell command out code _ \<Rightarrow> folder_note (shell_note command out code) f
      | BAction name args result \<Rightarrow>
          (case result of
             Some r \<Rightarrow>
               folder_note (''['' @ name @ ''] '' @ plain render args @ nl @ plain render r) f
           | None \<Rightarrow> f)
      | BRewind _ _ \<Rightarrow> f
      | BNotice _ _ _ \<Rightarrow> f
      | BPermissionReceipt _ _ _ _ _ _ \<Rightarrow> f
      | BAsset _ _ \<Rightarrow> f
      | BUnknown _ \<Rightarrow> f)"

definition folder_finish :: "folder \<Rightarrow> message list" where
  "folder_finish f =
     (let ms = filter (\<lambda>m. msg_parts m \<noteq> []) (fo_messages (folder_owed f))
      in if ms \<noteq> [] \<and> msg_role (hd ms) = RoleAssistant
         then message_text RoleUser OPENING_NOTE # ms else ms)"

definition fold_items :: "(json \<Rightarrow> string) \<Rightarrow> item list \<Rightarrow> message list" where
  "fold_items render items = folder_finish (foldl (folder_item render) folder_default items)"

definition model_view :: "(json \<Rightarrow> string) \<Rightarrow> transcript \<Rightarrow> message list" where
  "model_view render t = fold_items render (model_items t)"

section \<open>The reference fold of a journal\<close>

text \<open>The items and their positions, as \<open>ContextView::items\<close> keeps them.\<close>

definition ref_step ::
  "item list \<times> (item_id, nat) mapping \<Rightarrow> event \<Rightarrow> item list \<times> (item_id, nat) mapping" where
  "ref_step st e =
     (let (items, pos) = st;
          place = (\<lambda>i. case Mapping.lookup pos (it_id i) of
              Some n \<Rightarrow> (items[n := i], pos)
            | None \<Rightarrow> (items @ [i], Mapping.update (it_id i) (length items) pos));
          retain = (\<lambda>dropped.
              let kept = filter (\<lambda>i. it_id i \<notin> set dropped) items in (kept, positions kept))
      in case e of
           EvItemStarted i \<Rightarrow> place i
         | EvItemUpdated i \<Rightarrow> place i
         | EvItemCompleted i \<Rightarrow> place i
         | EvCompacted _ boundary summary kept \<Rightarrow>
             (case position (\<lambda>i. it_id i = boundary) items of
                None \<Rightarrow> (items, pos)
              | Some n \<Rightarrow>
                  (let items' = splice_compaction items n
                         (\<lambda>i. it_id i \<in> set kept) (\<lambda>i. it_id i = summary)
                   in (items', positions items')))
         | EvRewound _ _ dropped _ \<Rightarrow> retain dropped
         | EvTurnRetrying _ _ _ _ dropped _ \<Rightarrow> retain dropped
         | _ \<Rightarrow> st)"

definition ref_items :: "frame list \<Rightarrow> item list" where
  "ref_items frames = fst (foldl (\<lambda>st f. ref_step st (fr_event f)) ([], Mapping.empty) frames)"

section \<open>The incremental transcript refines the reference fold\<close>

lemma get_id: "wf_transcript t \<Longrightarrow> get t k = Some i \<Longrightarrow> it_id i = k"
  by (auto simp: get_find dest: find_Some_in_set)

lemma get_present:
  "wf_transcript t \<Longrightarrow> k \<in> set (tr_model_order t) \<Longrightarrow> \<exists>i. get t k = Some i"
  using find_None_iff[of "\<lambda>i. it_id i = k" "tr_items t"]
  by (cases "get t k") (auto simp: get_find wf_transcript_def)

lemma model_items_map:
  assumes "wf_transcript t"
  shows "model_items t = map (\<lambda>k. the (get t k)) (tr_model_order t)"
proof -
  have "\<forall>k \<in> set ks. get t k \<noteq> None \<Longrightarrow> List.map_filter (get t) ks = map (\<lambda>k. the (get t k)) ks" for ks
    by (induction ks) (auto simp: map_filter_simps)
  then show ?thesis
    using get_present[OF assms] by (simp add: model_items_def)
qed

lemma model_items_ids: "wf_transcript t \<Longrightarrow> map it_id (model_items t) = tr_model_order t"
  using get_present[of t] get_id[of t]
  by (auto simp: model_items_map intro!: map_idI)

lemma model_items_get: "wf_transcript t \<Longrightarrow> i \<in> set (model_items t) \<Longrightarrow> get t (it_id i) = Some i"
  using get_present[of t] get_id[of t] by (fastforce simp: model_items_map)

lemma model_items_eqI:
  assumes "wf_transcript t" "tr_model_order t = map it_id xs" "\<And>i. i \<in> set xs \<Longrightarrow> get t (it_id i) = Some i"
  shows "model_items t = xs"
  using assms by (auto simp: model_items_map intro!: map_idI)

lemma position_nth_self: "distinct xs \<Longrightarrow> n < length xs \<Longrightarrow> position (\<lambda>x. x = xs ! n) xs = Some n"
proof -
  assume d: "distinct xs" "n < length xs"
  then obtain m where m: "position (\<lambda>x. x = xs ! n) xs = Some m"
    using position_None_iff[of "\<lambda>x. x = xs ! n" xs] nth_mem[of n xs] by (cases "position (\<lambda>x. x = xs ! n) xs") auto
  then show ?thesis
    using position_SomeD[OF m] d by (auto simp: nth_eq_iff_index_eq)
qed

lemma get_fields [simp]:
  "get (t\<lparr>tr_generation := g\<rparr>) = get t" "get (t\<lparr>tr_revision := r\<rparr>) = get t"
  by (simp_all add: get_def fun_eq_iff)

lemma get_upsert:
  assumes "wf_transcript t"
  shows "get (fst (upsert t i)) k = (if k = it_id i then Some i else get t k)"
proof (cases "Mapping.lookup (tr_positions t) (it_id i)")
  case None
  then show ?thesis
    using assms position_in_range[OF assms, of k]
    by (cases "Mapping.lookup (tr_positions t) k")
       (auto simp: get_def upsert_def Let_def nth_append)
next
  case (Some n)
  then have n: "n < length (tr_items t)" "it_id (tr_items t ! n) = it_id i"
    using position_in_range[OF assms] by auto
  have "at \<noteq> n" if "Mapping.lookup (tr_positions t) k = Some at" "k \<noteq> it_id i" for at
    using position_in_range[OF assms that(1)] n(2) that(2) by auto
  then show ?thesis
    using Some n
    by (cases "Mapping.lookup (tr_positions t) k")
       (auto simp: get_def upsert_def Let_def nth_list_update)
qed

lemma order_upsert:
  "wf_transcript t \<Longrightarrow> tr_model_order (fst (upsert t i)) =
     (if it_id i \<in> set (tr_model_order t) then tr_model_order t else tr_model_order t @ [it_id i])"
  by (auto simp: upsert_def Let_def wf_transcript_def split: option.splits)

lemma model_upsert:
  assumes "wf_transcript t"
  shows "model_items (fst (upsert t i)) = upsert_list (model_items t) i"
proof (cases "it_id i \<in> set (tr_model_order t)")
  case True
  then obtain n where n: "n < length (model_items t)" "tr_model_order t ! n = it_id i"
    using model_items_ids[OF assms] by (metis in_set_conv_nth length_map)
  have pos: "position (\<lambda>j. it_id j = it_id i) (model_items t) = Some n"
    using position_nth_self[of "tr_model_order t" n] n assms model_items_ids[OF assms]
      position_map[of "\<lambda>k. k = it_id i" it_id "model_items t"]
    by (simp add: comp_def wf_transcript_def) (metis length_map)
  have ids: "map it_id ((model_items t)[n := i]) = tr_model_order t"
    using n model_items_ids[OF assms] by (metis map_list_update_same nth_map)
  have "get (fst (upsert t i)) (it_id j) = Some j" if j: "j \<in> set ((model_items t)[n := i])" for j
  proof (cases "it_id j = it_id i")
    case True
    have "distinct (map it_id ((model_items t)[n := i]))"
      using assms by (simp add: ids wf_transcript_def)
    moreover have "i \<in> set ((model_items t)[n := i])"
      using n by (simp add: set_update_memI)
    ultimately have "j = i"
      using True j by (auto simp: distinct_map dest: inj_onD)
    then show ?thesis by (simp add: get_upsert assms)
  next
    case False
    then have "j \<in> set (model_items t)"
      using j set_update_subset_insert[of "model_items t" n i] by auto
    then show ?thesis
      using False by (simp add: get_upsert assms model_items_get)
  qed
  then show ?thesis
    using True assms ids pos
    by (intro model_items_eqI) (simp_all add: wf_upsert order_upsert upsert_list_def)
next
  case False
  then have other: "\<forall>j \<in> set (model_items t). it_id j \<noteq> it_id i"
    using model_items_ids[OF assms] by (metis image_eqI list.set_map)
  then have "position (\<lambda>j. it_id j = it_id i) (model_items t) = None"
    by (simp add: position_None_iff)
  then show ?thesis
    using False other assms model_items_get[OF assms] model_items_ids[OF assms]
    by (intro model_items_eqI) (auto simp: wf_upsert order_upsert upsert_list_def get_upsert)
qed


lemma get_remove:
  assumes "wf_transcript t" "k \<notin> set dropped"
  shows "get (remove_items t dropped) k = get t k"
proof -
  have "find (\<lambda>i. it_id i = k) (filter (\<lambda>i. it_id i \<notin> set dropped) (tr_items t))
      = find (\<lambda>i. it_id i = k) (tr_items t)"
    using assms(2) by (intro find_filter_keep) auto
  then show ?thesis
    by (simp add: get_find assms(1) wf_remove_items) (simp add: remove_items_def Let_def)
qed

lemma model_remove:
  assumes "wf_transcript t"
  shows "model_items (remove_items t dropped)
    = filter (\<lambda>i. it_id i \<notin> set dropped) (model_items t)"
proof (rule model_items_eqI)
  show "wf_transcript (remove_items t dropped)"
    by (rule wf_remove_items[OF assms])
  show "tr_model_order (remove_items t dropped)
      = map it_id (filter (\<lambda>i. it_id i \<notin> set dropped) (model_items t))"
    using model_items_ids[OF assms] filter_map[of "\<lambda>k. k \<notin> set dropped" it_id "model_items t"]
    by (simp add: remove_items_def Let_def comp_def)
qed (use assms in \<open>auto simp: get_remove model_items_get\<close>)

lemma splice_map:
  "splice_compaction (map f xs) n P Q = map f (splice_compaction xs n (P \<circ> f) (Q \<circ> f))"
proof (cases "position (Q \<circ> f) xs")
  case None
  then show ?thesis
    by (simp add: splice_compaction_def Let_def position_map filter_map take_map drop_map)
next
  case (Some at)
  then have "at < length xs" using position_SomeD by fast
  then show ?thesis
    using Some by (simp add: splice_compaction_def Let_def position_map filter_map take_map drop_map
        map_remove_at[symmetric])
qed

lemma model_compact:
  assumes "wf_transcript t"
  shows "model_items (compact t g boundary kept summary) =
    (case position (\<lambda>i. it_id i = boundary) (model_items t) of
       None \<Rightarrow> model_items t
     | Some n \<Rightarrow> splice_compaction (model_items t) n
         (\<lambda>i. it_id i \<in> set kept) (\<lambda>i. it_id i = summary))"
proof -
  have ids: "tr_model_order t = map it_id (model_items t)"
    by (simp add: model_items_ids assms)
  have pos: "position (\<lambda>k. k = boundary) (tr_model_order t)
      = position (\<lambda>i. it_id i = boundary) (model_items t)"
    unfolding ids by (simp add: position_map comp_def)
  show ?thesis
  proof (cases "position (\<lambda>i. it_id i = boundary) (model_items t)")
    case None
    then show ?thesis
      using pos by (simp add: compact_def Let_def model_items_def)
  next
    case (Some n)
    let ?xs = "splice_compaction (model_items t) n (\<lambda>i. it_id i \<in> set kept) (\<lambda>i. it_id i = summary)"
    have "tr_model_order (compact t g boundary kept summary) = map it_id ?xs"
      using Some pos splice_map[of it_id "model_items t" n "\<lambda>k. k \<in> set kept" "\<lambda>k. k = summary"] ids
      by (simp add: compact_def Let_def comp_def)
    moreover have "get (compact t g boundary kept summary) = get t"
      by (auto simp: compact_def Let_def get_def split: option.splits)
    moreover have "i \<in> set ?xs \<Longrightarrow> i \<in> set (model_items t)" for i
      using set_splice by fast
    ultimately show ?thesis
      using Some by (simp add: model_items_eqI wf_compact assms model_items_get)
  qed
qed

definition is_delta :: "event \<Rightarrow> bool" where
  "is_delta e = (case e of EvItemDelta _ _ _ _ \<Rightarrow> True | _ \<Rightarrow> False)"

lemma distinct_model_items: "wf_transcript t \<Longrightarrow> distinct (map it_id (model_items t))"
  by (simp add: model_items_ids wf_transcript_def)

lemma model_fields [simp]:
  "model_items (t\<lparr>tr_generation := g\<rparr>) = model_items t"
  "model_items (t\<lparr>tr_revision := r\<rparr>) = model_items t"
  by (simp_all add: model_items_def)

lemma positions_upsert_list:
  assumes "distinct (map it_id xs)"
  shows "(case Mapping.lookup (positions xs) (it_id i) of
            Some n \<Rightarrow> (xs[n := i], positions xs)
          | None \<Rightarrow> (xs @ [i], Mapping.update (it_id i) (length xs) (positions xs)))
    = (upsert_list xs i, positions (upsert_list xs i))"
proof (cases "position (\<lambda>j. it_id j = it_id i) xs")
  case None
  then show ?thesis
    by (simp add: lookup_positions assms upsert_list_def positions_snoc)
next
  case (Some n)
  then have "map it_id (xs[n := i]) = map it_id xs"
    using position_SomeD[OF Some] by (simp add: map_list_update_same)
  then show ?thesis
    using Some positions_cong[of "xs[n := i]" xs] by (simp add: lookup_positions assms upsert_list_def)
qed

lemma ref_step_model:
  assumes "wf_transcript t" "\<not> is_delta e"
  shows "ref_step (model_items t, positions (model_items t)) e
    = (model_items (fst (transcript_apply t e)), positions (model_items (fst (transcript_apply t e))))"
proof -
  have "ref_step (model_items t, positions (model_items t)) e
    = (model_items (fst (change t e)), positions (model_items (fst (change t e))))"
    using assms positions_upsert_list[OF distinct_model_items[OF assms(1)]]
    by (cases e) (simp_all add: ref_step_def change_def model_upsert model_remove model_compact
        is_delta_def Let_def split: option.splits)
  then show ?thesis
    by (auto simp: transcript_apply_def split: prod.splits)
qed

lemma ref_fold_model:
  assumes "wf_transcript t" "\<forall>e \<in> set es. \<not> is_delta e"
  shows "fst (foldl ref_step (model_items t, positions (model_items t)) es)
    = model_items (transcript_fold t es)"
  using assms
  by (induction es arbitrary: t) (simp_all add: ref_step_model wf_transcript_apply)

text \<open>
  C36: the model order the transcript maintains frame by frame is the one the
  reference fold computes from the whole journal: for every journal (which holds
  no delta) the items the model reads are \<open>ContextView::items\<close> of its frames.
\<close>

theorem model_items_reference:
  assumes "\<forall>f \<in> set frames. \<not> is_delta (fr_event f)"
  shows "model_items (transcript_fold transcript_new (map fr_event frames)) = ref_items frames"
proof -
  have "model_items transcript_new = []" "positions [] = Mapping.empty"
    by (simp_all add: model_items_def transcript_new_def map_filter_simps)
  then show ?thesis
    using ref_fold_model[OF wf_transcript_new, of "map fr_event frames"] assms
    by (simp add: ref_items_def foldl_map)
qed

theorem model_items_reference_witness:
  "map it_id (ref_items (map (sample_frame 1) sample_events)) = [''s'', ''b'']"
proof -
  have journal: "\<forall>f \<in> set (map (sample_frame 1) sample_events). \<not> is_delta (fr_event f)"
    by (simp add: sample_events_def sample_frame_def is_delta_def)
  show ?thesis
    unfolding model_items_reference[OF journal, symmetric]
    by (simp add: sample_events_def sample_frame_def sample_item_def transcript_new_def
        transcript_apply_def change_def upsert_def compact_def splice_compaction_def remove_at_def
        model_items_def get_def map_filter_simps Let_def)
qed

section \<open>Every call is answered\<close>

definition tool_use_id :: "content_part \<Rightarrow> string option" where
  "tool_use_id p = (case p of PToolUse k _ _ \<Rightarrow> Some k | _ \<Rightarrow> None)"

definition result_id :: "content_part \<Rightarrow> string option" where
  "result_id p = (case p of PToolResult k _ _ \<Rightarrow> Some k | _ \<Rightarrow> None)"

text \<open>The calls an assistant message makes, in order.\<close>

definition uses :: "message \<Rightarrow> string list" where
  "uses m = (if msg_role m = RoleAssistant then List.map_filter tool_use_id (msg_parts m) else [])"

text \<open>
  The message after one that makes calls is the user's, and opens with their
  results in the order of the calls.
\<close>

definition answers :: "message \<Rightarrow> message \<Rightarrow> bool" where
  "answers a n \<longleftrightarrow>
     (uses a \<noteq> [] \<longrightarrow>
        msg_role n = RoleUser
        \<and> map result_id (take (length (uses a)) (msg_parts n)) = map Some (uses a))"

lemma map_filter_append: "List.map_filter f (xs @ ys) = List.map_filter f xs @ List.map_filter f ys"
  by (simp add: List.map_filter_def)

lemma extend_parts_fields [simp]:
  "msg_role (extend_parts ps m) = msg_role m"
  "msg_parts (extend_parts ps m) = msg_parts m @ ps"
  by (simp_all add: extend_parts_def)

lemma uses_extend:
  "uses (extend_parts ps m) =
     uses m @ (if msg_role m = RoleAssistant then List.map_filter tool_use_id ps else [])"
  by (simp add: uses_def map_filter_append)

lemma uses_user [simp]: "msg_role m = RoleUser \<Longrightarrow> uses m = []"
  by (simp add: uses_def)

lemma answers_extend: "answers a n \<Longrightarrow> answers a (extend_parts ps n)"
proof -
  assume a: "answers a n"
  show ?thesis
  proof (cases "uses a = []")
    case False
    then have "length (take (length (uses a)) (msg_parts n)) = length (uses a)"
      using a by (metis answers_def length_map)
    then show ?thesis
      using a False by (auto simp: answers_def)
  qed (simp add: answers_def)
qed

lemma join_role_cases:
  "(\<exists>ms' m. ms = ms' @ [m] \<and> msg_role m = r \<and> join_role r ps ms = ms' @ [extend_parts ps m])
   \<or> ((ms \<noteq> [] \<longrightarrow> msg_role (last ms) \<noteq> r)
      \<and> join_role r ps ms = ms @ [\<lparr>msg_role = r, msg_parts = ps, msg_provider_options = []\<rparr>])"
  by (cases ms rule: rev_cases) (auto simp: join_role_def)

text \<open>What the folder keeps: owed results are those of the open message's calls.\<close>

definition folder_inv :: "string list \<Rightarrow> folder \<Rightarrow> bool" where
  "folder_inv calls f \<longleftrightarrow>
     successively answers (fo_messages f)
     \<and> map result_id (fo_pending f)
         = map Some (if fo_messages f = [] then [] else uses (last (fo_messages f)))
     \<and> concat (map uses (fo_messages f)) = calls"

lemma folder_inv_user:
  assumes "folder_inv calls f"
  shows "folder_inv calls (folder_user ps f) \<and> fo_pending (folder_user ps f) = []
    \<and> fo_messages (folder_user ps f) \<noteq> [] \<and> msg_role (last (fo_messages (folder_user ps f))) = RoleUser"
proof -
  let ?ms = "fo_messages f" and ?ps = "fo_pending f @ ps"
  have pend: "map result_id (fo_pending f) = map Some (if ?ms = [] then [] else uses (last ?ms))"
    using assms by (simp add: folder_inv_def)
  then have len: "length (fo_pending f) = length (if ?ms = [] then [] else uses (last ?ms))"
    by (metis length_map)
  show ?thesis
    using join_role_cases[of ?ms RoleUser ?ps]
  proof (elim disjE exE conjE)
    fix ms' m
    assume ms: "?ms = ms' @ [m]" "msg_role m = RoleUser"
        "join_role RoleUser ?ps ?ms = ms' @ [extend_parts ?ps m]"
    then show ?thesis
      using assms by (auto simp: folder_inv_def folder_user_def successively_append_iff uses_extend
          answers_extend)
  next
    assume "join_role RoleUser ?ps ?ms
        = ?ms @ [\<lparr>msg_role = RoleUser, msg_parts = ?ps, msg_provider_options = []\<rparr>]"
    then show ?thesis
      using assms pend len
      by (auto simp: folder_inv_def folder_user_def successively_append_iff answers_def uses_def
          split: if_splits)
  qed
qed

lemma folder_inv_owed:
  "folder_inv calls f \<Longrightarrow> folder_inv calls (folder_owed f) \<and> fo_pending (folder_owed f) = []"
  using folder_inv_user[of calls f "[]"]
  by (auto simp: folder_owed_def folder_user_def)

lemma folder_inv_assistant:
  assumes "folder_inv calls f"
  shows "fo_pending (folder_assistant ps f) = []
    \<and> fo_messages (folder_assistant ps f) \<noteq> []
    \<and> msg_role (last (fo_messages (folder_assistant ps f))) = RoleAssistant
    \<and> successively answers (fo_messages (folder_assistant ps f))
    \<and> uses (last (fo_messages (folder_assistant ps f))) = List.map_filter tool_use_id ps
    \<and> concat (map uses (fo_messages (folder_assistant ps f))) = calls @ List.map_filter tool_use_id ps"
proof -
  let ?f = "folder_owed f"
  let ?ms = "fo_messages ?f"
  have inv: "folder_inv calls ?f" "fo_pending ?f = []"
    using folder_inv_owed[OF assms] by auto
  then have none: "?ms \<noteq> [] \<Longrightarrow> uses (last ?ms) = []"
    by (simp add: folder_inv_def)
  show ?thesis
    using join_role_cases[of ?ms RoleAssistant ps]
  proof (elim disjE exE conjE)
    fix ms' m
    assume ms: "?ms = ms' @ [m]" "msg_role m = RoleAssistant"
        "join_role RoleAssistant ps ?ms = ms' @ [extend_parts ps m]"
    then show ?thesis
      using inv none by (auto simp: folder_inv_def folder_assistant_def Let_def
          successively_append_iff uses_extend answers_extend)
  next
    assume new: "join_role RoleAssistant ps ?ms
        = ?ms @ [\<lparr>msg_role = RoleAssistant, msg_parts = ps, msg_provider_options = []\<rparr>]"
    then show ?thesis
      using inv none by (cases "?ms = []") (auto simp: folder_inv_def folder_assistant_def Let_def
          successively_append_iff answers_def[of "last ?ms"] uses_def[of "\<lparr>msg_role = _, msg_parts = _, msg_provider_options = _\<rparr>"])
  qed
qed

lemma folder_inv_plain:
  assumes "folder_inv calls f" "List.map_filter tool_use_id ps = []"
  shows "folder_inv calls (folder_assistant ps f)"
  using folder_inv_assistant[OF assms(1), of ps] assms(2) by (simp add: folder_inv_def)

lemma folder_inv_tool_call:
  assumes "folder_inv calls f"
  shows "folder_inv (calls @ [cb_call_id c]) (folder_tool_call round c f)"
proof (cases "fo_messages f \<noteq> [] \<and> msg_role (last (fo_messages f)) = RoleAssistant
    \<and> fo_round f = Some round")
  case True
  then obtain ms m where ms: "fo_messages f = ms @ [m]" "msg_role m = RoleAssistant"
    by (metis append_butlast_last_id)
  then show ?thesis
    using True assms
    by (auto simp: folder_inv_def folder_tool_call_def Let_def successively_append_iff uses_extend
        answers_extend tool_use_id_def result_id_def map_filter_simps split: prod.splits)
next
  case False
  have "List.map_filter tool_use_id [PToolUse (cb_call_id c) (cb_name c) (cb_input c)] = [cb_call_id c]"
    by (simp add: tool_use_id_def map_filter_simps)
  then show ?thesis
    using False folder_inv_assistant[OF assms, of "[PToolUse (cb_call_id c) (cb_name c) (cb_input c)]"]
    by (auto simp: folder_inv_def folder_tool_call_def Let_def result_id_def split: prod.splits)
qed

text \<open>The call an item puts in the model's mouth, if any.\<close>

definition call_of :: "item \<Rightarrow> string list" where
  "call_of i =
     (case it_body i of BToolCall c \<Rightarrow> if external i then [] else [cb_call_id c] | _ \<Rightarrow> [])"

lemma folder_inv_item:
  assumes "folder_inv calls f"
  shows "folder_inv (calls @ call_of i) (folder_item render f i)"
proof -
  have plain_text: "List.map_filter tool_use_id [PText t] = []"
      "List.map_filter tool_use_id [PReasoning t meta] = []" for t meta
    by (simp_all add: tool_use_id_def map_filter_simps)
  show ?thesis
    using assms
    by (cases "it_body i")
       (auto simp: folder_item_def call_of_def folder_note_def folder_text_def folder_reasoning_def
         folder_inv_user folder_inv_plain[OF _ plain_text(1)] folder_inv_plain[OF _ plain_text(2)]
         folder_inv_tool_call split: option.splits)
qed

lemma folder_inv_fold:
  "folder_inv calls f \<Longrightarrow>
     folder_inv (calls @ concat (map call_of items)) (foldl (folder_item render) f items)"
proof (induction items arbitrary: calls f)
  case (Cons i items)
  from Cons.IH[OF folder_inv_item[OF Cons.prems, of i render]] show ?case by simp
qed simp

lemma answers_through_empty:
  assumes "answers a m" "msg_parts m = []"
  shows "answers a n"
  using assms by (auto simp: answers_def)

lemma successively_answers_filter:
  "successively answers ms \<Longrightarrow> successively answers (filter (\<lambda>m. msg_parts m \<noteq> []) ms)"
proof (induction ms rule: induct_list012)
  case (3 a m ms)
  show ?case
  proof (cases "msg_parts m = []")
    case True
    then have "answers a n" for n
      using 3 answers_through_empty[of a m] by simp
    then show ?thesis
      using 3 True by (cases "filter (\<lambda>m. msg_parts m \<noteq> []) ms") auto
  next
    case False
    then show ?thesis
      using 3 by auto
  qed
qed auto

lemma concat_uses_filter:
  "concat (map uses (filter (\<lambda>m. msg_parts m \<noteq> []) ms)) = concat (map uses ms)"
  by (induction ms) (auto simp: uses_def map_filter_simps)

lemma successively_answers_end:
  "successively answers (ms @ [message_assistant [PText t]]) \<longleftrightarrow>
     successively answers ms \<and> (ms = [] \<or> uses (last ms) = [])"
  by (auto simp: successively_append_iff answers_def message_assistant_def)

text \<open>
  C37: in the messages sent to a provider, the calls are exactly the transcript's
  own calls (never one handed in from outside), in order; each message that makes
  calls is followed by a user message that opens with their results, in the order
  of the calls, whether or not the calls completed; and the last message leaves
  no call unanswered.
\<close>

theorem calls_are_answered:
  "let ms = fold_items render items in
     concat (map uses ms) = concat (map call_of items)
     \<and> successively answers ms
     \<and> (ms = [] \<or> uses (last ms) = [])"
proof -
  let ?f = "folder_owed (foldl (folder_item render) folder_default items)"
  let ?z = "message_assistant [PText []]"
  let ?ms = "filter (\<lambda>m. msg_parts m \<noteq> []) (fo_messages ?f)"
  have "folder_inv [] folder_default"
    by (simp add: folder_inv_def folder_default_def)
  then have inv: "folder_inv (concat (map call_of items)) ?f" "fo_pending ?f = []"
    using folder_inv_owed[OF folder_inv_fold[of "[]" folder_default items render]] by simp_all
  then have "successively answers (fo_messages ?f @ [?z])"
    by (auto simp: successively_answers_end folder_inv_def split: if_splits)
  then have "successively answers (?ms @ [?z])"
    using successively_answers_filter[of "fo_messages ?f @ [?z]"] by (simp add: message_assistant_def)
  then have chain: "successively answers ?ms" "?ms = [] \<or> uses (last ?ms) = []"
    by (simp_all add: successively_answers_end)
  have calls: "concat (map uses ?ms) = concat (map call_of items)"
    using inv by (simp add: folder_inv_def concat_uses_filter)
  have "uses (message_text RoleUser OPENING_NOTE) = []"
    by (simp add: message_text_def)
  moreover from this have "successively answers (message_text RoleUser OPENING_NOTE # ?ms)"
    using chain(1) by (cases ?ms) (simp_all add: answers_def)
  ultimately show ?thesis
    using chain calls by (auto simp: fold_items_def folder_finish_def Let_def)
qed

section \<open>Turns of speech\<close>

definition alternate :: "message \<Rightarrow> message \<Rightarrow> bool" where
  "alternate a b \<longleftrightarrow> msg_role a \<noteq> msg_role b"

definition folder_talk :: "folder \<Rightarrow> bool" where
  "folder_talk f \<longleftrightarrow>
     successively alternate (fo_messages f) \<and> (\<forall>m \<in> set (fo_messages f). msg_parts m \<noteq> [])"

lemma join_role_talk:
  assumes "successively alternate ms" "\<forall>m \<in> set ms. msg_parts m \<noteq> []" "ps \<noteq> []"
  shows "successively alternate (join_role r ps ms) \<and> (\<forall>m \<in> set (join_role r ps ms). msg_parts m \<noteq> [])"
  using join_role_cases[of ms r ps] assms
  by (auto simp: successively_append_iff alternate_def)

lemma folder_talk_user: "folder_talk f \<Longrightarrow> ps \<noteq> [] \<Longrightarrow> folder_talk (folder_user ps f)"
  using join_role_talk[of "fo_messages f" "fo_pending f @ ps" RoleUser]
  by (simp add: folder_talk_def folder_user_def)

lemma folder_talk_owed: "folder_talk f \<Longrightarrow> folder_talk (folder_owed f)"
  using folder_talk_user[of "f\<lparr>fo_pending := []\<rparr>" "fo_pending f"]
  by (auto simp: folder_owed_def folder_talk_def)

lemma folder_talk_assistant: "folder_talk f \<Longrightarrow> ps \<noteq> [] \<Longrightarrow> folder_talk (folder_assistant ps f)"
  using join_role_talk[of "fo_messages (folder_owed f)" ps RoleAssistant] folder_talk_owed[of f]
  by (simp add: folder_talk_def folder_assistant_def Let_def)

lemma folder_talk_tool_call: "folder_talk f \<Longrightarrow> folder_talk (folder_tool_call round c f)"
  using folder_talk_assistant[of f "[PToolUse (cb_call_id c) (cb_name c) (cb_input c)]"]
    join_role_talk[of "fo_messages f" "[PToolUse (cb_call_id c) (cb_name c) (cb_input c)]" RoleAssistant]
  by (auto simp: folder_talk_def folder_tool_call_def Let_def join_role_def split: prod.splits)

text \<open>A user item says something: it has parts, or its speaker is named.\<close>

definition speaks :: "item \<Rightarrow> bool" where
  "speaks i = (case it_body i of BUser parts og \<Rightarrow> spoken parts og \<noteq> [] | _ \<Rightarrow> True)"

lemma folder_talk_item: "folder_talk f \<Longrightarrow> speaks i \<Longrightarrow> folder_talk (folder_item render f i)"
  by (cases "it_body i")
     (auto simp: folder_item_def speaks_def folder_note_def folder_text_def folder_reasoning_def
       folder_talk_user folder_talk_assistant folder_talk_tool_call split: option.splits)

lemma folder_talk_fold:
  "folder_talk f \<Longrightarrow> \<forall>i \<in> set items. speaks i \<Longrightarrow> folder_talk (foldl (folder_item render) f items)"
  by (induction items arbitrary: f) (simp_all add: folder_talk_item)

text \<open>
  When every user item says something, the messages sent to a provider are
  non-empty, alternate between the user and the assistant, and open with the user.
\<close>

theorem messages_alternate:
  assumes "\<forall>i \<in> set items. speaks i"
  shows "let ms = fold_items render items in
    (\<forall>m \<in> set ms. msg_parts m \<noteq> []) \<and> successively alternate ms
    \<and> (ms = [] \<or> msg_role (hd ms) = RoleUser)"
proof -
  let ?f = "folder_owed (foldl (folder_item render) folder_default items)"
  have "folder_talk folder_default"
    by (simp add: folder_talk_def folder_default_def)
  then have talk: "successively alternate (fo_messages ?f)" "\<forall>m \<in> set (fo_messages ?f). msg_parts m \<noteq> []"
    using folder_talk_owed[OF folder_talk_fold[OF _ assms, of folder_default render]]
    by (simp_all add: folder_talk_def)
  have all: "filter (\<lambda>m. msg_parts m \<noteq> []) (fo_messages ?f) = fo_messages ?f"
    using talk(2) by simp
  have role: "msg_role m = RoleUser \<or> msg_role m = RoleAssistant" for m :: message
    by (cases "msg_role m") simp_all
  show ?thesis
    using talk role[of "hd (fo_messages ?f)"]
    by (cases "fo_messages ?f")
       (auto simp: fold_items_def folder_finish_def Let_def all message_text_def alternate_def)
qed

theorem messages_alternate_witness:
  "let ms = fold_items (\<lambda>_. []) [sample_item ''a'' (BAssistant ''hi''), sample_item ''s'' (BInterruption ''stop'' None)]
   in successively alternate ms \<and> map msg_role ms = [RoleUser, RoleAssistant, RoleUser]"
  using messages_alternate[of "[sample_item ''a'' (BAssistant ''hi''), sample_item ''s'' (BInterruption ''stop'' None)]" "\<lambda>_. []"]
  by (simp add: speaks_def sample_item_def fold_items_def folder_item_def folder_text_def
      folder_note_def folder_user_def folder_assistant_def folder_owed_def folder_finish_def
      folder_default_def join_role_def message_text_def Let_def)

text \<open>
  The mark that says a line is the person's own is an ordinary speaker label: a
  correspondent whose principal is \<open>the person you work for\<close> gets the same one.
\<close>

lemma marker_not_reserved:
  "marker ((origin_surface ''telegram'')\<lparr>or_principal := Some ''the person you work for''\<rparr>)
     = Some THE_PERSON
   \<and> \<not> the_persons_own ((origin_surface ''telegram'')\<lparr>or_principal := Some ''the person you work for''\<rparr>)"
  by (simp add: marker_def speaker_def THE_PERSON_def the_persons_own_def origin_surface_def)

end
