(* ===== verification/Core_Input.thy ===== *)
theory Core_Input
  imports Core_Context
begin

text \<open>
  What reaches a session from outside and how it is read: the inputs of
  \<open>bingo-sdk/src/host.rs\<close>, the command lines of \<open>bingo-sdk/src/command.rs\<close>, and
  the kernel's reading of both (\<open>bingo-core/src/session/commands.rs\<close>,
  \<open>user.rs\<close>, the validation of \<open>session/inputs.rs\<close>).  The lemmas show that a
  command survives being written down and read again, that a line which runs as
  the credential command is recorded without its arguments, and that a shell
  line is only ever the person's own.
\<close>

section \<open>Inputs\<close>

datatype delivery = Wake | Hold

record headline =
  hd_tone :: tone
  hd_parts :: "string list"

record action =
  ac_name :: string
  ac_args :: json

datatype input =
    InText string "image list" origin delivery "headline option"
  | InAction action "origin option"

definition input_text :: "string \<Rightarrow> origin \<Rightarrow> input" where
  "input_text t og = InText t [] og Wake None"

definition is_held :: "input \<Rightarrow> bool" where
  "is_held i = (case i of InText _ _ _ Hold _ \<Rightarrow> True | _ \<Rightarrow> False)"

text \<open>\<open>Action::with_value\<close>: the arguments are a drawing's to choose, so they are checked.\<close>

definition with_value :: "action \<Rightarrow> json \<Rightarrow> action option" where
  "with_value a v =
     (case (if ac_args a = JNull then JObject [] else ac_args a) of
        JObject fs \<Rightarrow> Some (a\<lparr>ac_args := JObject (AList.update ''value'' v fs)\<rparr>)
      | _ \<Rightarrow> None)"

datatype interrupt_scope = ScTurn turn_id | ScHead

section \<open>Command lines\<close>

definition SHELL :: string where
  "SHELL = ''!''"

text \<open>\<open>str::split_once(char::is_whitespace)\<close>.\<close>

definition split_once_white :: "string \<Rightarrow> (string \<times> string) option" where
  "split_once_white s =
     (case dropWhile (\<lambda>c. \<not> is_white c) s of
        [] \<Rightarrow> None
      | _ # rest \<Rightarrow> Some (takeWhile (\<lambda>c. \<not> is_white c) s, rest))"

definition split_verb :: "string \<Rightarrow> string \<times> string" where
  "split_verb s =
     (let t = trim_start s
      in (takeWhile (\<lambda>c. \<not> is_white c) t, trim (dropWhile (\<lambda>c. \<not> is_white c) t)))"

definition command_line :: "string \<Rightarrow> (string \<times> string) option" where
  "command_line s =
     (let line = trim_start s in
      case strip_prefix line SHELL of
        Some rest \<Rightarrow> Some (SHELL, trim rest)
      | None \<Rightarrow>
          Option.bind (strip_prefix line ''/'') (\<lambda>rest.
            let (name, args) = (case split_once_white rest of
                  Some (name, args) \<Rightarrow> (name, trim args)
                | None \<Rightarrow> (trim_end rest, []))
            in if name \<noteq> [] then Some (name, args) else None))"

definition recorded_line :: "string \<Rightarrow> string" where
  "recorded_line line =
     (case split_whitespace line of
        w # _ \<Rightarrow> if w = ''/provider'' then ''/provider [redacted]'' else line
      | [] \<Rightarrow> line)"

definition UI_SUFFIX :: string where
  "UI_SUFFIX = '':ui''"

definition ui_name :: "string \<Rightarrow> string" where
  "ui_name plugin = plugin @ UI_SUFFIX"

definition is_ui :: "string \<Rightarrow> bool" where
  "is_ui name = (case strip_suffix name UI_SUFFIX of Some plugin \<Rightarrow> plugin \<noteq> [] | None \<Rightarrow> False)"

text \<open>\<open>CommandSpec::foreign_handler\<close>, on the names of a specification.\<close>

definition foreign_handler :: "string \<Rightarrow> string list \<Rightarrow> string \<Rightarrow> string option" where
  "foreign_handler name aliases owner =
     find (\<lambda>n. ends_with n UI_SUFFIX \<and> n \<noteq> ui_name owner) (name # aliases)"

section \<open>The kernel's reading\<close>

definition is_shell :: "string \<Rightarrow> bool" where
  "is_shell name \<longleftrightarrow> name = SHELL"

definition may_run_shell :: "input \<Rightarrow> bool" where
  "may_run_shell i = (case i of InText _ _ og _ _ \<Rightarrow> the_persons_own og | InAction _ _ \<Rightarrow> False)"

text \<open>
  \<open>commands::asked\<close>; the first argument says whether the call arrived while a
  plugin hook was on the stack (\<open>invocation::current()\<close> is not empty).
\<close>

definition command_asked :: "bool \<Rightarrow> input \<Rightarrow> bool" where
  "command_asked calling i \<longleftrightarrow>
     \<not> calling \<and>
     (case i of
        InText _ _ og _ _ \<Rightarrow> the_persons_own og
      | InAction a og \<Rightarrow>
          is_ui (ac_name a) \<and> (case og of Some g \<Rightarrow> the_persons_own g | None \<Rightarrow> False))"

record parsed =
  pa_name :: string
  pa_args :: string

definition spelled :: "string \<Rightarrow> string" where
  "spelled name = (if name = SHELL then SHELL else ''/'' @ name)"

definition unknown :: "string \<Rightarrow> string" where
  "unknown name =
     (if name = SHELL then ''no shell here: nothing answers to '' @ spelled SHELL
      else ''unknown command: '' @ spelled name)"

definition typed :: "parsed \<Rightarrow> string" where
  "typed p =
     (let name = spelled (pa_name p) in
      if pa_args p = [] then name
      else if pa_name p = SHELL then name @ pa_args p
      else name @ '' '' @ pa_args p)"

definition parse_line :: "string \<Rightarrow> parsed option" where
  "parse_line s = map_option (\<lambda>(name, args). \<lparr>pa_name = name, pa_args = args\<rparr>) (command_line s)"

text \<open>\<open>render\<close> is the text of a JSON value (\<open>serde_json::Value::to_string\<close>).\<close>

definition parse_input :: "(json \<Rightarrow> string) \<Rightarrow> input \<Rightarrow> parsed option" where
  "parse_input render i =
     (case i of
        InText t _ og _ _ \<Rightarrow> if person_surface og then parse_line t else None
      | InAction a _ \<Rightarrow>
          Some \<lparr>pa_name = ac_name a,
                pa_args = (case ac_args a of JString s \<Rightarrow> s | JNull \<Rightarrow> [] | v \<Rightarrow> render v)\<rparr>)"

definition COMMAND_SURFACE :: string where
  "COMMAND_SURFACE = ''command''"

record invocation =
  iv_surface :: "surface_name option"
  iv_line :: string
  iv_origin :: origin

definition origin_default :: origin where
  "origin_default = origin_surface []"

definition origin_of :: "input \<Rightarrow> origin" where
  "origin_of i = (case i of InText _ _ og _ _ \<Rightarrow> og | InAction _ _ \<Rightarrow> origin_default)"

definition invocation_of :: "input \<Rightarrow> parsed \<Rightarrow> invocation" where
  "invocation_of i p =
     \<lparr>iv_surface =
        (case i of
           InText _ _ og _ _ \<Rightarrow> or_render_surface og
         | InAction _ og \<Rightarrow> Option.bind og or_render_surface),
      iv_line = recorded_line (typed p),
      iv_origin = (origin_of i)\<lparr>or_voice := Some Quiet, or_surface := COMMAND_SURFACE\<rparr>\<rparr>"

definition iv_prompt :: "invocation \<Rightarrow> string \<Rightarrow> string" where
  "iv_prompt iv t = iv_line iv @ nl @ nl @ t"

section \<open>Who drew what\<close>

text \<open>Equality of JSON values: the fields of an object have no order.\<close>

function (sequential) json_eq :: "json \<Rightarrow> json \<Rightarrow> bool" where
  "json_eq (JArray xs) (JArray ys) \<longleftrightarrow>
     length xs = length ys \<and> list_all (\<lambda>(x, y). json_eq x y) (zip xs ys)"
| "json_eq (JObject fs) (JObject gs) \<longleftrightarrow>
     length fs = length gs \<and>
     list_all (\<lambda>(k, v). case map_of gs k of Some v' \<Rightarrow> json_eq v v' | None \<Rightarrow> False) fs"
| "json_eq v v' \<longleftrightarrow> v = v'"
  by pat_completeness auto
termination
proof (relation "measure (size \<circ> fst)", goal_cases)
  case (2 xs ys z x y)
  then have "size x \<le> size_list size xs"
    by (auto dest: set_zip_leftD intro: size_list_estimation')
  then show ?case by simp
next
  case (3 fs gs z k v v')
  then have "size v \<le> size_list (size_prod (\<lambda>_. 0) size) fs"
    by (intro size_list_estimation'[of "(k, v)"]) auto
  then show ?case by simp
qed simp

definition json_option_eq :: "json option \<Rightarrow> json option \<Rightarrow> bool" where
  "json_option_eq x y =
     (case (x, y) of (Some v, Some v') \<Rightarrow> json_eq v v' | (None, None) \<Rightarrow> True | _ \<Rightarrow> False)"

text \<open>
  \<open>bingo-core/src/session/drawn.rs\<close>: the views the compiled-in modules drew, by
  render request, newest last; only the host writes them.
\<close>

record drawn =
  dr_plugin :: string
  dr_keys :: action

definition KEPT :: nat where
  "KEPT = 64"

definition drawings_record :: "string \<Rightarrow> drawn option \<Rightarrow> (string \<times> drawn) list \<Rightarrow> (string \<times> drawn) list" where
  "drawings_record request d ds =
     (let ds1 = filter (\<lambda>(k, _). k \<noteq> request) ds;
          ds2 = (case d of Some x \<Rightarrow> ds1 @ [(request, x)] | None \<Rightarrow> ds1)
      in drop (length ds2 - KEPT) ds2)"

definition vouches :: "action \<Rightarrow> (string \<times> drawn) list \<Rightarrow> string option" where
  "vouches a ds =
     (case json_get (ac_args a) ''handler'' of
        None \<Rightarrow> None
      | Some handler \<Rightarrow>
          if handler = JNull then None
          else map_option (\<lambda>(_, d). dr_plugin d)
            (find (\<lambda>(_, d). ac_name (dr_keys d) = ac_name a
                 \<and> json_option_eq (json_get (ac_args (dr_keys d)) ''handler'') (Some handler)
                 \<and> json_option_eq (json_get (ac_args (dr_keys d)) ''row'') (json_get (ac_args a) ''row'')) (rev ds)))"

section \<open>Prose\<close>

definition validate_image :: "image \<Rightarrow> string option" where
  "validate_image img =
     (if \<not> image_is_known (img_media_type img)
      then Some (''unknown image media type `'' @ img_media_type img @ ''`'')
      else if decoded_len img > MAX_BYTES
      then Some (''image too large: '' @ show_nat (decoded_len img) @ '' bytes, the limit is ''
                 @ show_nat MAX_BYTES)
      else None)"

text \<open>The first error of \<open>validate\<close>, or \<open>None\<close> where it accepts the input.\<close>

definition validate :: "input \<Rightarrow> string option" where
  "validate i =
     (case i of
        InText t images _ _ _ \<Rightarrow>
          if trim t = [] \<and> images = [] then Some ''empty input''
          else Option.bind (find (\<lambda>img. validate_image img \<noteq> None) images) validate_image
      | InAction a _ \<Rightarrow> Some (''unknown action: '' @ ac_name a))"

fun tone_name :: "tone \<Rightarrow> string" where
  "tone_name Neutral = ''neutral''"
| "tone_name Good = ''good''"
| "tone_name Bad = ''bad''"
| "tone_name Attention = ''attention''"

definition HEADLINE :: string where
  "HEADLINE = ''headline''"

definition set_headline :: "headline \<Rightarrow> item \<Rightarrow> item" where
  "set_headline h i =
     i\<lparr>it_meta := AList.update HEADLINE
         (JObject [(''tone'', JString (tone_name (hd_tone h))),
                   (''parts'', JArray (map JString (hd_parts h)))]) (it_meta i)\<rparr>"

definition user_item :: "input \<Rightarrow> (item_body \<Rightarrow> item) \<Rightarrow> item option" where
  "user_item i mint =
     (case i of
        InText t images og _ h \<Rightarrow>
          (let parts = (if t = [] then [] else [PText t]) @ map PImage images;
               made = mint (BUser parts og)
           in Some (case h of Some hl \<Rightarrow> set_headline hl made | None \<Rightarrow> made))
      | InAction _ _ \<Rightarrow> None)"

section \<open>Reading a line that was written down\<close>

lemma trim_start_id: "s = [] \<or> \<not> is_white (hd s) \<Longrightarrow> trim_start s = s"
  by (cases s) (auto simp: trim_start_def)

lemma trim_end_id: "s = [] \<or> \<not> is_white (last s) \<Longrightarrow> trim_end s = s"
  by (cases s rule: rev_cases) (auto simp: trim_end_def)

lemma trim_start_hd: "trim_start s \<noteq> [] \<Longrightarrow> \<not> is_white (hd (trim_start s))"
  using hd_dropWhile[of is_white s] by (simp add: trim_start_def)

lemma trim_end_last: "trim_end s \<noteq> [] \<Longrightarrow> \<not> is_white (last (trim_end s))"
  using hd_dropWhile[of is_white "rev s"] by (simp add: trim_end_def last_rev)

lemma trim_end_prefix: "\<exists>r. s = trim_end s @ r"
  by (metis rev_append rev_rev_ident takeWhile_dropWhile_id trim_end_def)

lemma trim_end_hd: "trim_end s \<noteq> [] \<Longrightarrow> hd (trim_end s) = hd s"
  using trim_end_prefix[of s] by (metis hd_append2)

lemma trim_trim: "trim (trim s) = trim s"
proof -
  have "trim_start (trim s) = trim s"
    unfolding trim_def
    by (metis trim_end_hd trim_start_hd trim_start_id append_is_Nil_conv trim_end_prefix)
  moreover have "trim_end (trim s) = trim s"
    unfolding trim_def by (metis trim_end_last trim_end_id)
  ultimately show ?thesis
    by (simp add: trim_def)
qed

lemma no_white_takeWhile: "\<forall>c \<in> set s. \<not> is_white c \<Longrightarrow> takeWhile (\<lambda>c. \<not> is_white c) (s @ w # r) =
    (if is_white w then s else s @ w # takeWhile (\<lambda>c. \<not> is_white c) r)"
  by (induction s) auto

lemma split_once_white_name:
  assumes "\<forall>c \<in> set n. \<not> is_white c"
  shows "split_once_white n = None" "is_white w \<Longrightarrow> split_once_white (n @ w # r) = Some (n, r)"
  using assms by (auto simp: split_once_white_def dropWhile_append2 no_white_takeWhile
      dropWhile_eq_Nil_conv[THEN iffD2] split: list.splits)

lemma split_once_white_Some:
  assumes "split_once_white s = Some (n, r)"
  shows "(\<forall>c \<in> set n. \<not> is_white c) \<and> (\<exists>w. is_white w \<and> s = n @ w # r)"
proof -
  obtain w where w: "dropWhile (\<lambda>c. \<not> is_white c) s = w # r" "n = takeWhile (\<lambda>c. \<not> is_white c) s"
    using assms by (auto simp: split_once_white_def split: list.splits)
  then have "is_white w" "s = n @ w # r"
    using hd_dropWhile[of "\<lambda>c. \<not> is_white c" s] takeWhile_dropWhile_id[of "\<lambda>c. \<not> is_white c" s]
    by auto
  then show ?thesis
    using w(2) by (auto dest: set_takeWhileD)
qed

lemma split_once_white_None: "split_once_white s = None \<Longrightarrow> \<forall>c \<in> set s. \<not> is_white c"
  by (auto simp: split_once_white_def dropWhile_eq_Nil_conv split: list.splits)

lemma strip_prefix_append [simp]: "strip_prefix (p @ r) p = Some r"
  by (simp add: strip_prefix_def)

lemma command_line_shell: "trim_start s = SHELL @ rest \<Longrightarrow> command_line s = Some (SHELL, trim rest)"
  by (simp add: command_line_def Let_def)

lemma command_line_slash:
  assumes "trim_start s = ''/'' @ rest"
  shows "command_line s =
    (case split_once_white rest of
       Some (n, a) \<Rightarrow> if n \<noteq> [] then Some (n, trim a) else None
     | None \<Rightarrow> if trim_end rest \<noteq> [] then Some (trim_end rest, []) else None)"
proof -
  have "\<not> starts_with (''/'' @ rest) SHELL" "starts_with (''/'' @ rest) ''/''"
    by (simp_all add: starts_with_def SHELL_def)
  then show ?thesis
    using assms by (simp add: command_line_def strip_prefix_def Let_def split: option.splits prod.splits)
qed

lemma command_line_head:
  assumes "command_line s = Some (n, a)"
  obtains (shell) rest where "trim_start s = SHELL @ rest" "n = SHELL" "a = trim rest"
    | (slash) rest where "trim_start s = ''/'' @ rest"
proof (cases "strip_prefix (trim_start s) SHELL")
  case (Some rest)
  then have "trim_start s = SHELL @ rest"
    by simp
  then show ?thesis
    using assms shell command_line_shell[of s rest] by simp
next
  case None
  then show ?thesis
    using assms slash by (auto simp: command_line_def Let_def bind_eq_Some_conv)
qed

text \<open>
  What a typed line yields: the shell's text, or a name without white space
  that follows the slash at once; the arguments are trimmed in either case.
\<close>

lemma command_line_shape:
  assumes "command_line s = Some (n, a)"
  shows "trim a = a \<and> n \<noteq> [] \<and> (\<forall>c \<in> set n. \<not> is_white c) \<and>
    (n = SHELL \<or> (\<exists>rest. trim_start s = ''/'' @ n @ rest \<and> (rest = [] \<or> is_white (hd rest))))"
  using assms
proof (cases rule: command_line_head)
  case (shell rest)
  have "\<not> is_white (CHR ''!'')"
    by code_simp
  then show ?thesis
    using shell by (simp add: trim_trim SHELL_def)
next
  case (slash rest)
  show ?thesis
  proof (cases "split_once_white rest")
    case None
    then have nw: "\<forall>c \<in> set rest. \<not> is_white c"
      by (rule split_once_white_None)
    then have "trim_end rest = rest"
      by (intro trim_end_id) auto
    then show ?thesis
      using assms slash None nw command_line_slash[OF slash]
      by (auto simp: trim_def trim_start_def trim_end_def split: if_splits)
  next
    case (Some p)
    then obtain m b where p: "split_once_white rest = Some (m, b)"
      by (cases p) auto
    then show ?thesis
      using assms slash command_line_slash[OF slash] split_once_white_Some[OF p]
      by (auto simp: trim_trim split: if_splits)
  qed
qed

lemma typed_parses:
  assumes "trim a = a" "n \<noteq> []" "\<forall>c \<in> set n. \<not> is_white c"
  shows "command_line (typed \<lparr>pa_name = n, pa_args = a\<rparr>) = Some (n, a)"
proof (cases "n = SHELL")
  case True
  have "\<not> is_white (CHR ''!'')"
    by code_simp
  then have "trim_start (SHELL @ a) = SHELL @ a"
    by (intro trim_start_id) (simp add: SHELL_def)
  then show ?thesis
    using True assms command_line_shell[of "SHELL @ a" a]
    by (cases a) (simp_all add: typed_def spelled_def Let_def)
next
  case False
  let ?rest = "n @ (if a = [] then [] else '' '' @ a)"
  have w: "\<not> is_white (CHR ''/'')" "is_white (CHR '' '')"
    by code_simp+
  then have "trim_start (''/'' @ ?rest) = ''/'' @ ?rest"
    by (intro trim_start_id) simp
  moreover have "typed \<lparr>pa_name = n, pa_args = a\<rparr> = ''/'' @ ?rest"
    using False by (simp add: typed_def spelled_def Let_def)
  moreover have "trim_end n = n"
    using assms by (intro trim_end_id) auto
  ultimately show ?thesis
    using assms w split_once_white_name[OF assms(3)] command_line_slash[of "''/'' @ ?rest" ?rest]
    by (auto split: if_splits)
qed

lemma split_whitespace_first:
  "split_whitespace s =
     (if trim_start s = [] then []
      else takeWhile (\<lambda>c. \<not> is_white c) (trim_start s) # tl (split_whitespace s))"
proof (induction s)
  case Nil
  then show ?case by (simp add: split_whitespace_def trim_start_def)
next
  case (Cons c s)
  show ?case
  proof (cases "is_white c")
    case True
    then show ?thesis
      using Cons by (simp add: split_whitespace_def trim_start_def)
  next
    case False
    then show ?thesis
      using hd_split_chars[of is_white s]
      by (cases "split_chars is_white s") (simp_all add: split_whitespace_def trim_start_def)
  qed
qed

text \<open>
  A command survives being written down.  Whatever line a person types, the
  text \<open>typed\<close> that the kernel keeps for it reads back as the same command with
  the same arguments, so the line shown for a run is the line that would run it.
\<close>

theorem command_roundtrip:
  "parse_line s = Some p \<Longrightarrow> parse_line (typed p) = Some p"
  using command_line_shape typed_parses by (auto simp: parse_line_def)

theorem command_roundtrip_witness:
  "parse_line (typed \<lparr>pa_name = ''model'', pa_args = ''next  one''\<rparr>)
     = Some \<lparr>pa_name = ''model'', pa_args = ''next  one''\<rparr>"
  by (rule command_roundtrip[of "''  /model   next  one  ''"]) code_simp

lemma first_word:
  assumes "trim_start s = n @ rest" "n \<noteq> []" "\<forall>c \<in> set n. \<not> is_white c" "rest = [] \<or> is_white (hd rest)"
  shows "\<exists>ws. split_whitespace s = n # ws"
proof -
  have "takeWhile (\<lambda>c. \<not> is_white c) (n @ rest) = n"
    using assms(3,4) by (cases rest) (simp_all add: takeWhile_eq_all_conv no_white_takeWhile)
  then show ?thesis
    using split_whitespace_first[of s] assms(1,2) by auto
qed

lemma provider_word: "\<forall>c \<in> set ''/provider''. \<not> is_white c"
  by code_simp

lemma recorded_provider:
  "trim_start s = ''/provider'' @ rest \<Longrightarrow> rest = [] \<or> is_white (hd rest) \<Longrightarrow>
     recorded_line s = ''/provider [redacted]''"
  using first_word[OF _ _ provider_word, of s rest] by (auto simp: recorded_line_def)

lemma provider_first_word:
  assumes "command_line s = Some (''provider'', a)"
  shows "recorded_line s = ''/provider [redacted]''"
proof -
  have "''provider'' \<noteq> SHELL"
    by (simp add: SHELL_def)
  then obtain rest where "trim_start s = ''/'' @ ''provider'' @ rest" "rest = [] \<or> is_white (hd rest)"
    using command_line_shape[OF assms] by blast
  then show ?thesis
    by (intro recorded_provider) simp_all
qed

text \<open>
  Credentials are redacted wherever the line would run.  Every line the
  dispatcher reads as the command \<open>provider\<close>, with whatever white space and
  arguments, is recorded as the fixed text \<open>/provider [redacted]\<close>; so is the line
  kept for a run of it, including one that was never typed but sent as an action.
\<close>

theorem provider_line_is_redacted:
  "command_line s = Some (''provider'', a) \<Longrightarrow>
     recorded_line s = ''/provider [redacted]'' \<and>
     iv_line (invocation_of i \<lparr>pa_name = ''provider'', pa_args = b\<rparr>) = ''/provider [redacted]''"
proof (intro conjI)
  assume "command_line s = Some (''provider'', a)"
  then show "recorded_line s = ''/provider [redacted]''"
    by (rule provider_first_word)
  have w: "\<not> is_white (CHR ''/'')" "is_white (CHR '' '')"
    by code_simp+
  then have "trim_start (''/provider'' @ r) = ''/provider'' @ r" for r
    by (intro trim_start_id) simp
  moreover have "typed \<lparr>pa_name = ''provider'', pa_args = b\<rparr>
      = ''/provider'' @ (if b = [] then [] else CHR '' '' # b)"
    by (simp add: typed_def spelled_def SHELL_def Let_def)
  ultimately have "recorded_line (typed \<lparr>pa_name = ''provider'', pa_args = b\<rparr>) = ''/provider [redacted]''"
    using w by (intro recorded_provider) (auto split: if_splits)
  then show "iv_line (invocation_of i \<lparr>pa_name = ''provider'', pa_args = b\<rparr>)
      = ''/provider [redacted]''"
    by (simp add: invocation_of_def)
qed

theorem provider_line_is_redacted_witness:
  "recorded_line ''  /provider  add key-123'' = ''/provider [redacted]''"
  by (rule provider_line_is_redacted[of _ "''add key-123''", THEN conjunct1]) code_simp

end
