(* ===== verification/Core_Queue.thy ===== *)
theory Core_Queue
  imports Core_Input "HOL-Library.Multiset" "HOL-Library.Sublist"
begin

text \<open>
  The lines that arrived while a session was busy
  (\<open>bingo-core/src/session/queue.rs\<close>): a run of prose opens one turn, a command is
  one unit, a running turn is steered with prose only up to the first line that
  will not steer.  The locale \<open>waiting_line\<close> states what a queue owes its
  client, whichever way the head is taken, and proves that no line is lost,
  doubled or overtaken; the kernel's queue is interpreted in it.
\<close>

section \<open>The queue\<close>

definition PREVIEW_CHARS :: nat where
  "PREVIEW_CHARS = 80"

text \<open>\<open>Pending\<close>: the gate's verdict is kept, so rewritten prose stays prose.\<close>

datatype queued_line = QCommand input | QProse input

definition ql_input :: "queued_line \<Rightarrow> input" where
  "ql_input p = (case p of QCommand i \<Rightarrow> i | QProse i \<Rightarrow> i)"

definition ql_is_command :: "queued_line \<Rightarrow> bool" where
  "ql_is_command p = (case p of QCommand _ \<Rightarrow> True | QProse _ \<Rightarrow> False)"

definition ql_steerable :: "queued_line \<Rightarrow> bool" where
  "ql_steerable p \<longleftrightarrow> \<not> ql_is_command p \<and> \<not> is_held (ql_input p)"

record queue =
  qu_entries :: "(intent_id \<times> queued_line) list"
  qu_revision :: u64

definition queue_default :: queue where
  "queue_default = \<lparr>qu_entries = [], qu_revision = 0\<rparr>"

datatype queue_unit =
    UnitProse "(intent_id \<times> input) list"
  | UnitCommand intent_id input

definition unpack :: "intent_id \<times> queued_line \<Rightarrow> intent_id \<times> input" where
  "unpack e = (fst e, ql_input (snd e))"

definition queue_ready :: "queue \<Rightarrow> bool" where
  "queue_ready q \<longleftrightarrow>
     list_ex (\<lambda>(_, p). \<not> is_held (ql_input p) \<or> ql_is_command p) (qu_entries q)"

definition queue_push :: "intent_id \<Rightarrow> queued_line \<Rightarrow> queue \<Rightarrow> u32 \<times> queue" where
  "queue_push intent p q =
     (let es = qu_entries q @ [(intent, p)] in (of_nat (length es), q\<lparr>qu_entries := es\<rparr>))"

definition drain_all :: "queue \<Rightarrow> (intent_id \<times> input) list \<times> queue" where
  "drain_all q = (map unpack (qu_entries q), q\<lparr>qu_entries := []\<rparr>)"

definition take_run :: "(queued_line \<Rightarrow> bool) \<Rightarrow> queue \<Rightarrow> (intent_id \<times> input) list \<times> queue" where
  "take_run keep q =
     (let n = length (takeWhile (\<lambda>(_, p). keep p) (qu_entries q))
      in (map unpack (take n (qu_entries q)), q\<lparr>qu_entries := drop n (qu_entries q)\<rparr>))"

definition take_prose :: "queue \<Rightarrow> (intent_id \<times> input) list \<times> queue" where
  "take_prose q = take_run (\<lambda>p. \<not> ql_is_command p) q"

definition take_steers :: "queue \<Rightarrow> (intent_id \<times> input) list \<times> queue" where
  "take_steers q = take_run ql_steerable q"

definition queued :: "intent_id \<Rightarrow> queue \<Rightarrow> input option" where
  "queued intent q =
     map_option (\<lambda>(_, p). ql_input p) (find (\<lambda>(k, _). k = intent) (qu_entries q))"

definition queue_take :: "intent_id \<Rightarrow> queue \<Rightarrow> input option \<times> queue" where
  "queue_take intent q =
     (case position (\<lambda>(k, _). k = intent) (qu_entries q) of
        None \<Rightarrow> (None, q)
      | Some at \<Rightarrow>
          (Some (ql_input (snd (qu_entries q ! at))),
           q\<lparr>qu_entries := remove_at at (qu_entries q)\<rparr>))"

definition take_unit :: "queue \<Rightarrow> queue_unit option \<times> queue" where
  "take_unit q =
     (case qu_entries q of
        [] \<Rightarrow> (None, q)
      | (intent, p) # rest \<Rightarrow>
          if ql_is_command p
          then (Some (UnitCommand intent (ql_input p)), q\<lparr>qu_entries := rest\<rparr>)
          else (case take_prose q of (ps, q') \<Rightarrow> (Some (UnitProse ps), q')))"

definition preview :: "input \<Rightarrow> string" where
  "preview i =
     (case i of
        InText t images _ _ _ \<Rightarrow>
          if t = [] \<and> images \<noteq> [] then ''(an image)''
          else take PREVIEW_CHARS (recorded_line t)
      | InAction a _ \<Rightarrow> take PREVIEW_CHARS (recorded_line (ac_name a)))"

definition queue_entry_of :: "intent_id \<Rightarrow> queued_line \<Rightarrow> u32 \<Rightarrow> queue_entry" where
  "queue_entry_of intent p at =
     \<lparr>qe_intent = intent, qe_position = at, qe_preview = preview (ql_input p),
      qe_steerable = ql_steerable p, qe_origin = origin_of (ql_input p)\<rparr>"

text \<open>The rows \<open>changed\<close> shows, numbered from one.\<close>

definition queue_rows :: "queue \<Rightarrow> queue_entry list" where
  "queue_rows q =
     map (\<lambda>(n, intent, p). queue_entry_of intent p (of_nat n + 1))
       (enumerate 0 (qu_entries q))"

definition queue_changed_event :: "queue \<Rightarrow> event \<times> queue" where
  "queue_changed_event q =
     (let q' = q\<lparr>qu_revision := qu_revision q + 1\<rparr>
      in (EvQueueChanged (qu_revision q') (queue_rows q'), q'))"

section \<open>What a queue owes its client\<close>

datatype ('p, 'm, 'k) line_op = LinePush 'p | LineServe 'm | LineWithdraw 'k

text \<open>
  A run of operations: what was served from the head, what was withdrawn by
  name, and the queue afterwards.
\<close>

fun line_run ::
  "('p \<Rightarrow> 'q \<Rightarrow> 'q) \<Rightarrow> ('m \<Rightarrow> 'q \<Rightarrow> 'e list \<times> 'q) \<Rightarrow> ('k \<Rightarrow> 'q \<Rightarrow> 'e option \<times> 'q) \<Rightarrow>
   ('p, 'm, 'k) line_op list \<Rightarrow> 'q \<Rightarrow> 'e list \<times> 'e list \<times> 'q" where
  "line_run ps sv wd [] q = ([], [], q)"
| "line_run ps sv wd (LinePush p # ops) q = line_run ps sv wd ops (ps p q)"
| "line_run ps sv wd (LineServe m # ops) q =
     (case sv m q of (es, q') \<Rightarrow>
        (case line_run ps sv wd ops q' of (served, gone, q'') \<Rightarrow> (es @ served, gone, q'')))"
| "line_run ps sv wd (LineWithdraw k # ops) q =
     (case wd k q of (w, q') \<Rightarrow>
        (case line_run ps sv wd ops q' of (served, gone, q'') \<Rightarrow>
           (served, (case w of None \<Rightarrow> gone | Some e \<Rightarrow> e # gone), q'')))"

fun pushed :: "('p, 'm, 'k) line_op list \<Rightarrow> 'p list" where
  "pushed [] = []"
| "pushed (LinePush p # ops) = p # pushed ops"
| "pushed (LineServe m # ops) = pushed ops"
| "pushed (LineWithdraw k # ops) = pushed ops"

locale waiting_line =
  fixes waiting :: "'q \<Rightarrow> 'e list"
    and content :: "'p \<Rightarrow> 'e"
    and enter :: "'p \<Rightarrow> 'q \<Rightarrow> 'q"
    and serve :: "'m \<Rightarrow> 'q \<Rightarrow> 'e list \<times> 'q"
    and leave :: "'k \<Rightarrow> 'q \<Rightarrow> 'e option \<times> 'q"
  assumes waiting_enter: "waiting (enter p q) = waiting q @ [content p]"
    and serve_head: "serve m q = (es, q') \<Longrightarrow> waiting q = es @ waiting q'"
    and leave_none: "leave k q = (None, q') \<Longrightarrow> waiting q' = waiting q"
    and leave_some: "leave k q = (Some e, q') \<Longrightarrow>
      \<exists>xs ys. waiting q = xs @ e # ys \<and> waiting q' = xs @ ys"
begin

lemma leave_mset:
  "leave k q = (w, q') \<Longrightarrow> mset (waiting q) = mset (case w of None \<Rightarrow> [] | Some e \<Rightarrow> [e]) + mset (waiting q')"
  by (cases w) (auto dest: leave_none leave_some)

lemma leave_subseq: "leave k q = (w, q') \<Longrightarrow> subseq (waiting q') (waiting q)"
proof (cases w)
  case (Some e)
  assume "leave k q = (w, q')"
  then obtain xs ys where "waiting q = xs @ e # ys" "waiting q' = xs @ ys"
    using Some leave_some by blast
  moreover have "subseq (xs @ ys) (xs @ e # ys)"
    by (rule list_emb_append_mono) (simp_all add: list_emb_Cons)
  ultimately show ?thesis by simp
qed (simp add: leave_none)

lemma line_partition:
  "line_run enter serve leave ops q = (served, gone, q') \<Longrightarrow>
     mset served + mset gone + mset (waiting q') = mset (waiting q) + mset (map content (pushed ops))"
proof (induction ops arbitrary: q served gone)
  case (Cons op ops)
  show ?case
  proof (cases op)
    case (LinePush p)
    then show ?thesis
      using Cons.prems Cons.IH[of "enter p q"] by (simp add: waiting_enter)
  next
    case (LineServe m)
    obtain es q1 where m: "serve m q = (es, q1)"
      by fastforce
    then show ?thesis
      using Cons.prems LineServe Cons.IH[of q1] serve_head[OF m]
      by (auto simp: ac_simps split: prod.splits)
  next
    case (LineWithdraw k)
    obtain w q1 where w: "leave k q = (w, q1)"
      by fastforce
    then show ?thesis
      using Cons.prems LineWithdraw Cons.IH[of q1] leave_mset[OF w]
      by (auto split: prod.splits option.splits)
  qed
qed simp

lemma line_order:
  "line_run enter serve leave ops q = (served, gone, q') \<Longrightarrow>
     subseq (served @ waiting q') (waiting q @ map content (pushed ops))"
proof (induction ops arbitrary: q served gone)
  case (Cons op ops)
  show ?case
  proof (cases op)
    case (LinePush p)
    then show ?thesis
      using Cons.prems Cons.IH[of "enter p q"] by (simp add: waiting_enter)
  next
    case (LineServe m)
    obtain es q1 where m: "serve m q = (es, q1)"
      by fastforce
    then show ?thesis
      using Cons.prems LineServe Cons.IH[of q1] serve_head[OF m]
        list_emb_append_mono[of "(=)" es es] by (fastforce split: prod.splits)
  next
    case (LineWithdraw k)
    obtain w q1 where w: "leave k q = (w, q1)"
      by fastforce
    have "subseq (served @ waiting q') (waiting q1 @ map content (pushed ops))"
      using Cons.prems LineWithdraw w Cons.IH[of q1] by (auto split: prod.splits)
    moreover have "subseq (waiting q1 @ map content (pushed ops)) (waiting q @ map content (pushed ops))"
      using leave_subseq[OF w] by (intro list_emb_append_mono) simp_all
    ultimately show ?thesis
      using LineWithdraw by (auto intro: subseq_order.order_trans)
  qed
qed simp

end

section \<open>The kernel's queue keeps the contract\<close>

datatype serving = ServeProse | ServeSteers | ServeUnit | ServeAll

definition unit_lines :: "queue_unit \<Rightarrow> (intent_id \<times> input) list" where
  "unit_lines u = (case u of UnitProse ps \<Rightarrow> ps | UnitCommand intent i \<Rightarrow> [(intent, i)])"

definition queue_lines :: "queue \<Rightarrow> (intent_id \<times> input) list" where
  "queue_lines q = map unpack (qu_entries q)"

definition queue_enter :: "intent_id \<times> queued_line \<Rightarrow> queue \<Rightarrow> queue" where
  "queue_enter e q = snd (queue_push (fst e) (snd e) q)"

definition queue_serve :: "serving \<Rightarrow> queue \<Rightarrow> (intent_id \<times> input) list \<times> queue" where
  "queue_serve m q =
     (case m of
        ServeProse \<Rightarrow> take_prose q
      | ServeSteers \<Rightarrow> take_steers q
      | ServeUnit \<Rightarrow> (case take_unit q of (u, q') \<Rightarrow> (case u of None \<Rightarrow> [] | Some x \<Rightarrow> unit_lines x, q'))
      | ServeAll \<Rightarrow> drain_all q)"

definition queue_leave :: "intent_id \<Rightarrow> queue \<Rightarrow> (intent_id \<times> input) option \<times> queue" where
  "queue_leave k q = (case queue_take k q of (w, q') \<Rightarrow> (map_option (\<lambda>i. (k, i)) w, q'))"

lemma take_run_split:
  "take_run keep q = (es, q') \<Longrightarrow> queue_lines q = es @ queue_lines q'"
  by (auto simp: take_run_def queue_lines_def Let_def map_append[symmetric] simp del: map_append)

lemma take_run_shape:
  "take_run keep q = (map unpack (takeWhile (\<lambda>e. keep (snd e)) (qu_entries q)),
     q\<lparr>qu_entries := dropWhile (\<lambda>e. keep (snd e)) (qu_entries q)\<rparr>)"
  by (simp add: take_run_def Let_def takeWhile_eq_take[symmetric] dropWhile_eq_drop[symmetric] case_prod_unfold)

lemma take_unit_split:
  "take_unit q = (u, q') \<Longrightarrow>
     queue_lines q = (case u of None \<Rightarrow> [] | Some x \<Rightarrow> unit_lines x) @ queue_lines q'"
  by (auto simp: take_unit_def take_prose_def unit_lines_def queue_lines_def unpack_def
      split: list.splits if_splits prod.splits dest: take_run_split[unfolded queue_lines_def])

lemma queue_take_split:
  assumes "queue_take k q = (Some i, q')"
  shows "\<exists>xs ys. queue_lines q = xs @ (k, i) # ys \<and> queue_lines q' = xs @ ys"
proof -
  obtain n where n: "position (\<lambda>(k', _). k' = k) (qu_entries q) = Some n"
    using assms by (auto simp: queue_take_def split: option.splits)
  then have at: "n < length (qu_entries q)" "fst (qu_entries q ! n) = k"
    by (auto dest!: position_SomeD split: prod.splits)
  then have "qu_entries q = take n (qu_entries q) @ qu_entries q ! n # drop (Suc n) (qu_entries q)"
    by (simp add: id_take_nth_drop)
  then have "queue_lines q =
      map unpack (take n (qu_entries q)) @ unpack (qu_entries q ! n) # map unpack (drop (Suc n) (qu_entries q))"
    by (metis queue_lines_def list.simps(9) map_append)
  moreover have "unpack (qu_entries q ! n) = (k, i)" "queue_lines q' =
      map unpack (take n (qu_entries q)) @ map unpack (drop (Suc n) (qu_entries q))"
    using assms n at by (auto simp: queue_take_def queue_lines_def remove_at_def unpack_def)
  ultimately show ?thesis
    by metis
qed

interpretation kq: waiting_line queue_lines unpack queue_enter queue_serve queue_leave
proof unfold_locales
  show "queue_lines (queue_enter p q) = queue_lines q @ [unpack p]" for p q
    by (simp add: queue_lines_def queue_enter_def queue_push_def Let_def)
  show "queue_lines q = es @ queue_lines q'" if "queue_serve m q = (es, q')" for m q es q'
    using that take_unit_split[of q]
    by (auto simp: queue_serve_def take_prose_def take_steers_def drain_all_def queue_lines_def
        split: serving.splits prod.splits dest: take_run_split[unfolded queue_lines_def])
  show "queue_lines q' = queue_lines q" if "queue_leave k q = (None, q')" for k q q'
    using that by (auto simp: queue_leave_def queue_take_def split: option.splits prod.splits)
  show "\<exists>xs ys. queue_lines q = xs @ e # ys \<and> queue_lines q' = xs @ ys"
    if "queue_leave k q = (Some e, q')" for k q e q'
    using that queue_take_split by (auto simp: queue_leave_def split: prod.splits)
qed

text \<open>
  No queued line is lost, doubled or overtaken.  After any sequence of
  arrivals, withdrawals and takings of the head, whether for a turn that opens, a
  turn that is steered, the next unit of an idle session or a session that
  closes, the lines taken, the lines withdrawn and the lines still waiting are
  together exactly the ones that waited before or arrived since; and the taken
  lines followed by the waiting ones stand in their order of arrival.
\<close>

theorem queue_fifo:
  "case line_run queue_enter queue_serve queue_leave ops q of (served, gone, q') \<Rightarrow>
     mset served + mset gone + mset (queue_lines q') = mset (queue_lines q) + mset (map unpack (pushed ops)) \<and>
     subseq (served @ queue_lines q') (queue_lines q @ map unpack (pushed ops))"
  using kq.line_partition[of ops q] kq.line_order[of ops q] by (auto split: prod.splits)

section \<open>Units and steers\<close>

text \<open>
  What an idle session takes next: nothing only from an empty queue, one command
  alone, or all the prose up to the next command.
\<close>

lemma take_unit_cases:
  assumes "qu_entries q \<noteq> []"
  shows "\<exists>u q' es. take_unit q = (Some u, q') \<and> qu_entries q = es @ qu_entries q' \<and> es \<noteq> [] \<and>
    unit_lines u = map unpack es \<and>
    (if ql_is_command (snd (hd es)) then length es = 1
     else list_all (\<lambda>e. \<not> ql_is_command (snd e)) es \<and>
       (qu_entries q' = [] \<or> ql_is_command (snd (hd (qu_entries q')))))"
proof -
  obtain k p rest where q: "qu_entries q = (k, p) # rest"
    using assms by (cases "qu_entries q") auto
  show ?thesis
  proof (cases "ql_is_command p")
    case True
    then show ?thesis
      using q by (intro exI[of _ "UnitCommand k (ql_input p)"] exI[of _ "q\<lparr>qu_entries := rest\<rparr>"]
          exI[of _ "[(k, p)]"]) (simp add: take_unit_def unit_lines_def unpack_def)
  next
    case False
    let ?P = "\<lambda>e::intent_id \<times> queued_line. \<not> ql_is_command (snd e)"
    have "\<not> ?P (hd (dropWhile ?P rest))" if "dropWhile ?P rest \<noteq> []"
      using that by (rule hd_dropWhile)
    then show ?thesis
      using q False by (intro exI[of _ "UnitProse (map unpack (takeWhile ?P (qu_entries q)))"]
          exI[of _ "q\<lparr>qu_entries := dropWhile ?P (qu_entries q)\<rparr>"] exI[of _ "takeWhile ?P (qu_entries q)"])
        (auto simp: take_unit_def take_prose_def take_run_shape unit_lines_def list_all_iff
          dest: set_takeWhileD)
  qed
qed

text \<open>A running turn is steered with prose that did not ask to wait, and with all of it at the head.\<close>

lemma take_steers_cases:
  assumes "take_steers q = (ts, q')"
  shows "\<exists>es. qu_entries q = es @ qu_entries q' \<and> ts = map unpack es \<and>
    list_all (\<lambda>e. ql_steerable (snd e)) es \<and>
    (qu_entries q' = [] \<or> \<not> ql_steerable (snd (hd (qu_entries q'))))"
  using assms hd_dropWhile[of "\<lambda>e. ql_steerable (snd e)" "qu_entries q"]
  by (intro exI[of _ "takeWhile (\<lambda>e. ql_steerable (snd e)) (qu_entries q)"])
    (auto simp: take_steers_def take_run_shape list_all_iff dest: set_takeWhileD)

lemma preview_redacted:
  "command_line t = Some (''provider'', a) \<Longrightarrow> preview (InText t imgs og d h) = ''/provider [redacted]''"
  using provider_first_word[of t a]
  by (cases "t = []")
    (auto simp: preview_def PREVIEW_CHARS_def command_line_def trim_start_def strip_prefix_def
      starts_with_def SHELL_def)

end
