(* ===== verification/Sdk_Clock.thy ===== *)
theory Sdk_Clock
  imports Sdk_State "HOL-Library.Product_Lexorder"
begin

text \<open>
  Readings of a transcript (\<open>bingo-sdk/src/transcript/clock.rs\<close>,
  \<open>call.rs\<close>, \<open>turns.rs\<close>): the working time of a turn with the waits for a
  person taken out, the live state of a call, and the turns a client lists.

  Times are nanoseconds.  The bounds of \<open>jiff::Timestamp\<close> are parameters:
  \<open>ts_min\<close> is \<open>Timestamp::MIN\<close>, which no timestamp is below, and
  \<open>checked_add\<close> is the addition that fails out of range.
\<close>

section \<open>The clock of a turn\<close>

record turn_clock =
  ck_elapsed :: duration
  ck_next_second :: "timestamp option"

datatype turn_ends = EndsLive "timestamp option" | EndsOver

definition min_option :: "timestamp list \<Rightarrow> timestamp option" where
  "min_option xs = (if xs = [] then None else Some (Min (set xs)))"

definition max_option :: "timestamp list \<Rightarrow> timestamp option" where
  "max_option xs = (if xs = [] then None else Some (Max (set xs)))"

definition ends_of :: "session_state \<Rightarrow> turn_id \<Rightarrow> turn_ends" where
  "ends_of s turn =
     (if (case st_turn s of Some live \<Rightarrow> lt_id live = turn | None \<Rightarrow> False)
      then EndsLive (min_option
        (map in_opened_at (filter (\<lambda>a. in_turn a = Some turn) (st_interactions s))))
      else EndsOver)"

definition call_wait :: "item \<Rightarrow> (timestamp \<times> timestamp option) option" where
  "call_wait i =
     (case it_body i of
        BToolCall c \<Rightarrow>
          map_option (\<lambda>a. (a, case cb_began_at c of Some b \<Rightarrow> Some b | None \<Rightarrow> it_completed_at i))
            (cb_asked_at c)
      | _ \<Rightarrow> None)"

definition call_waiting :: "item \<Rightarrow> bool" where
  "call_waiting i = (case call_wait i of Some (_, until) \<Rightarrow> until = None | None \<Rightarrow> False)"

text \<open>The loop of \<open>waiting\<close>: sorted intervals, what is already counted, the total.\<close>

fun waiting_loop :: "timestamp \<Rightarrow> duration \<Rightarrow> (timestamp \<times> timestamp) list \<Rightarrow> duration" where
  "waiting_loop until acc [] = acc"
| "waiting_loop until acc ((a, b) # rest) =
     (let a' = max a until in
      if b > a' then waiting_loop b (acc + (b - a')) rest else waiting_loop until acc rest)"

definition waiting :: "timestamp \<Rightarrow> (timestamp \<times> timestamp) list \<Rightarrow> duration" where
  "waiting ts_min intervals = waiting_loop ts_min 0 (sort intervals)"

definition closed_wait :: "timestamp \<Rightarrow> timestamp \<Rightarrow> item \<Rightarrow> (timestamp \<times> timestamp) option" where
  "closed_wait start fin i =
     (case call_wait i of
        Some (asked_at, until) \<Rightarrow> Some (max asked_at start, min (unwrap_or until fin) fin)
      | None \<Rightarrow>
          map_option (\<lambda>a. (max a start, min (it_started_at i) fin))
            (case it_body i of
               BPermissionReceipt asked_at _ _ _ _ _ \<Rightarrow> asked_at
             | BQuestionAnswer asked_at _ _ _ _ \<Rightarrow> asked_at
             | BInterruption _ asked_at \<Rightarrow> asked_at
             | _ \<Rightarrow> None))"

definition closed_waits ::
  "item list \<Rightarrow> timestamp \<Rightarrow> timestamp \<Rightarrow> (timestamp \<times> timestamp) list" where
  "closed_waits items start fin = List.map_filter (closed_wait start fin) items"

text \<open>\<open>SignedDuration\<close> remainders take the sign of the dividend.\<close>

definition rust_rem :: "int \<Rightarrow> int \<Rightarrow> int" where
  "rust_rem a b = sgn a * (\<bar>a\<bar> mod \<bar>b\<bar>)"

definition next_second ::
  "(timestamp \<Rightarrow> duration \<Rightarrow> timestamp option) \<Rightarrow> timestamp \<Rightarrow> duration \<Rightarrow> timestamp option" where
  "next_second checked_add now elapsed =
     checked_add now (1000000000 - rust_rem elapsed 1000000000)"

definition deadline ::
  "(timestamp \<Rightarrow> duration \<Rightarrow> timestamp option) \<Rightarrow> bool \<Rightarrow> timestamp \<Rightarrow> duration \<Rightarrow> timestamp option" where
  "deadline checked_add ticking now elapsed =
     (if ticking then next_second checked_add now elapsed else None)"

definition open_asks :: "timestamp option \<Rightarrow> item list \<Rightarrow> timestamp list" where
  "open_asks asked_at items =
     option_list asked_at
     @ List.map_filter
         (\<lambda>i. Option.bind (call_wait i) (\<lambda>(a, until). if until = None then Some a else None)) items"

definition turn_end :: "turn_ends \<Rightarrow> item list \<Rightarrow> timestamp \<Rightarrow> timestamp \<Rightarrow> timestamp \<times> bool" where
  "turn_end ends items start now =
     (case ends of
        EndsLive asked_at \<Rightarrow>
          (let a = min_option (open_asks asked_at items) in (max (unwrap_or a now) start, a = None))
      | EndsOver \<Rightarrow>
          (max (unwrap_or (max_option (List.map_filter it_completed_at items)) start) start, False))"

definition clock_of ::
  "timestamp \<Rightarrow> (timestamp \<Rightarrow> duration \<Rightarrow> timestamp option) \<Rightarrow> item list \<Rightarrow> turn_ends \<Rightarrow> timestamp
   \<Rightarrow> turn_clock option" where
  "clock_of ts_min checked_add items ends now =
     (case items of
        [] \<Rightarrow> None
      | first # _ \<Rightarrow>
          (let start = it_started_at first;
               (fin, ticking) = turn_end ends items start now;
               elapsed = (fin - start) - waiting ts_min (closed_waits items start fin)
           in Some \<lparr>ck_elapsed = elapsed, ck_next_second = deadline checked_add ticking now elapsed\<rparr>))"

definition clock ::
  "timestamp \<Rightarrow> (timestamp \<Rightarrow> duration \<Rightarrow> timestamp option) \<Rightarrow> session_state \<Rightarrow> turn_id \<Rightarrow> timestamp
   \<Rightarrow> turn_clock option" where
  "clock ts_min checked_add s turn now =
     clock_of ts_min checked_add
       (filter (\<lambda>i. it_turn i = Some turn) (visible_items (st_transcript s))) (ends_of s turn) now"

section \<open>Live calls and turns\<close>

datatype live_call = LiveAsked | LiveRunning

definition live_call_of :: "item \<Rightarrow> interaction list \<Rightarrow> live_call option" where
  "live_call_of i interactions =
     (case it_body i of
        BToolCall _ \<Rightarrow>
          if (it_status i = StPending \<or> it_status i = StRunning)
             \<and> (call_waiting i \<or> list_ex (\<lambda>a. in_item a = Some (it_id i)) interactions)
          then Some LiveAsked
          else if it_status i = StRunning then Some LiveRunning else None
      | _ \<Rightarrow> None)"

definition HEADLINE_CHARS :: nat where
  "HEADLINE_CHARS = 200"

record turn_row =
  tw_id :: turn_id
  tw_headline :: "string option"
  tw_first :: nat
  tw_last :: nat

definition turn_label :: "turn_row \<Rightarrow> string" where
  "turn_label t = unwrap_or (tw_headline t) (tw_id t)"

definition turn_items :: "turn_row \<Rightarrow> nat" where
  "turn_items t = tw_last t - tw_first t + 1"

definition headline :: "string \<Rightarrow> string" where
  "headline a = take HEADLINE_CHARS (trim (unwrap_or (first_line a) []))"

definition map_last :: "('a \<Rightarrow> 'a) \<Rightarrow> 'a list \<Rightarrow> 'a list" where
  "map_last f xs = (if xs = [] then [] else butlast xs @ [f (last xs)])"

definition turns_step :: "turn_row list \<Rightarrow> nat \<times> item \<Rightarrow> turn_row list" where
  "turns_step out ati =
     (let (at, i) = ati;
          out1 = (case it_turn i of
              Some k \<Rightarrow>
                (let opened = (if out \<noteq> [] \<and> tw_id (last out) = k then out
                               else out @ [\<lparr>tw_id = k, tw_headline = None, tw_first = at, tw_last = at\<rparr>])
                 in case asked i of
                      Some a \<Rightarrow>
                        map_last (\<lambda>t. if tw_headline t = None
                          then t\<lparr>tw_headline := Some (headline a)\<rparr> else t) opened
                    | None \<Rightarrow> opened)
            | None \<Rightarrow> out)
      in map_last (\<lambda>t. t\<lparr>tw_last := at\<rparr>) out1)"

definition turns :: "transcript \<Rightarrow> turn_row list" where
  "turns t = foldl turns_step [] (List.enumerate 0 (visible_items t))"

definition turns_from :: "turn_row list \<Rightarrow> turn_id \<Rightarrow> turn_id list option" where
  "turns_from ts wanted =
     map_option (\<lambda>at. map tw_id (drop at ts)) (position (\<lambda>t. tw_id t = wanted) ts)"

definition turn_asked :: "turn_row \<Rightarrow> transcript \<Rightarrow> string option" where
  "turn_asked row t =
     (let items = visible_items t in
      if tw_last row < length items \<and> tw_first row \<le> Suc (tw_last row)
      then Option.bind
        (find (\<lambda>i. it_turn i = Some (tw_id row) \<and> asked i \<noteq> None)
          (drop (tw_first row) (take (Suc (tw_last row)) items))) asked
      else None)"

section \<open>The wait is the length of the union\<close>

text \<open>The nanoseconds covered by some interval.\<close>

definition covered :: "(timestamp \<times> timestamp) list \<Rightarrow> timestamp set" where
  "covered xs = (\<Union>(a, b) \<in> set xs. {a..<b})"

lemma covered_simps [simp]:
  "covered [] = {}" "covered ((a, b) # xs) = {a..<b} \<union> covered xs"
  by (simp_all add: covered_def)

lemma finite_covered [simp]: "finite (covered xs)"
  by (auto simp: covered_def)

lemma covered_ge: "\<forall>x \<in> set xs. a \<le> fst x \<Longrightarrow> t \<in> covered xs \<Longrightarrow> a \<le> t"
  by (auto simp: covered_def)

lemma waiting_loop_covered:
  "sorted_wrt (\<lambda>x y. fst x \<le> fst y) xs \<Longrightarrow>
     waiting_loop until acc xs = acc + int (card (covered xs \<inter> {until..}))"
proof (induction xs arbitrary: until acc)
  case (Cons x xs)
  obtain a b where x: "x = (a, b)" by fastforce
  let ?a = "max a until"
  have later: "t \<in> covered xs \<Longrightarrow> a \<le> t" for t
    using Cons.prems by (auto simp: x intro: covered_ge)
  show ?case
  proof (cases "b > ?a")
    case True
    have "covered (x # xs) \<inter> {until..} = {?a..<b} \<union> (covered xs \<inter> {b..})"
      using True later by (auto simp: x)
    moreover have "card ({?a..<b} \<union> (covered xs \<inter> {b..})) = card {?a..<b} + card (covered xs \<inter> {b..})"
      by (rule card_Un_disjoint) auto
    ultimately show ?thesis
      using Cons.IH[of b "acc + (b - ?a)"] Cons.prems True by (simp add: x Let_def)
  next
    case False
    then have "covered (x # xs) \<inter> {until..} = covered xs \<inter> {until..}"
      by (auto simp: x)
    then show ?thesis
      using Cons.IH[of until acc] Cons.prems False by (auto simp: x Let_def simp del: covered_simps)
  qed
qed simp

lemma sorted_fst: "sorted xs \<Longrightarrow> sorted_wrt (\<lambda>x y. fst x \<le> fst y) xs" for xs :: "(int \<times> int) list"
  by (rule sorted_wrt_mono_rel[of _ "(\<le>)"]) (auto simp: less_eq_prod_def)

lemma covered_sort [simp]: "covered (sort xs) = covered xs"
  by (simp add: covered_def)

lemma waiting_covered:
  assumes "\<forall>x \<in> set xs. ts_min \<le> fst x"
  shows "waiting ts_min xs = int (card (covered xs))"
proof -
  have "covered xs \<inter> {ts_min..} = covered xs"
    using covered_ge[OF assms] by auto
  then show ?thesis
    using waiting_loop_covered[of "sort xs" ts_min 0] by (simp add: waiting_def sorted_fst)
qed

lemma closed_wait_within:
  "closed_wait start fin i = Some x \<Longrightarrow> start \<le> fst x \<and> snd x \<le> fin"
  by (cases "call_wait i") (auto simp: closed_wait_def)

lemma closed_waits_within:
  "x \<in> set (closed_waits items start fin) \<Longrightarrow> start \<le> fst x \<and> snd x \<le> fin"
  by (force simp: closed_waits_def List.map_filter_def dest: closed_wait_within)

lemma turn_end_ge: "start \<le> fst (turn_end ends items start now)"
  by (auto simp: turn_end_def Let_def split: turn_ends.splits)

text \<open>
  The working time of a turn is its span minus the number of nanoseconds
  covered by at least one recorded wait, overlapping waits counted once; so it is
  never negative and never longer than the span.
\<close>

theorem clock_elapsed:
  assumes "ts_min \<le> it_started_at (hd items)"
    and "clock_of ts_min checked_add items ends now = Some c"
  shows "let start = it_started_at (hd items); fin = fst (turn_end ends items start now) in
    ck_elapsed c = (fin - start) - int (card (covered (closed_waits items start fin)))
    \<and> 0 \<le> ck_elapsed c \<and> ck_elapsed c \<le> fin - start"
proof -
  define start where "start = it_started_at (hd items)"
  define fin where "fin = fst (turn_end ends items start now)"
  let ?w = "closed_waits items start fin"
  have within: "covered ?w \<subseteq> {start..<fin}"
    using closed_waits_within[of _ items start fin] by (fastforce simp: covered_def)
  have "\<forall>x \<in> set ?w. ts_min \<le> fst x"
    using closed_waits_within assms(1) by (fastforce simp: start_def)
  then have "ck_elapsed c = (fin - start) - int (card (covered ?w))"
    using assms(2) by (auto simp: clock_of_def Let_def waiting_covered start_def fin_def
        split: list.splits prod.splits)
  moreover have "int (card (covered ?w)) \<le> fin - start"
    using card_mono[OF _ within] turn_end_ge[of start ends items now] by (simp add: fin_def)
  ultimately show ?thesis
    by (simp add: Let_def start_def[symmetric] fin_def[symmetric])
qed

definition sample_call :: item where
  "sample_call =
     (sample_item ''c'' (BToolCall
        \<lparr>cb_allowed_by = None, cb_asked_at = Some 2, cb_began_at = Some 5, cb_call_id = ''c'',
         cb_name = ''Bash'', cb_input = JNull, cb_output = None, cb_progress = None,
         cb_duration_ms = None, cb_quiet = False\<rparr>))\<lparr>it_completed_at := Some 10\<rparr>"

theorem clock_elapsed_witness:
  "ck_elapsed (the (clock_of (- 100) (\<lambda>t d. Some (t + d)) [sample_call] EndsOver 20)) = 7"
proof -
  let ?c = "the (clock_of (- 100) (\<lambda>t d. Some (t + d)) [sample_call] EndsOver 20)"
  have "clock_of (- 100) (\<lambda>t d. Some (t + d)) [sample_call] EndsOver 20 = Some ?c"
    by (simp add: clock_of_def Let_def split: prod.splits)
  from clock_elapsed[OF _ this]
  have "ck_elapsed ?c = 10 - int (card (covered (closed_waits [sample_call] 0 10)))"
    by (simp add: sample_call_def sample_item_def turn_end_def max_option_def unwrap_or_def
        map_filter_simps Let_def)
  also have "closed_waits [sample_call] 0 10 = [(2, 5)]"
    by (simp add: closed_waits_def closed_wait_def call_wait_def sample_call_def sample_item_def
        unwrap_or_def map_filter_simps)
  finally show ?thesis by simp
qed

section \<open>The turns of a transcript\<close>

definition row_span :: "turn_row \<Rightarrow> nat list" where
  "row_span r = [tw_first r ..< Suc (tw_last r)]"

text \<open>
  A row opens on an item of its turn and holds items of no other turn; the rows
  together cover an interval that ends at the last item, in order and without
  overlap.
\<close>

definition row_ok :: "item list \<Rightarrow> turn_row \<Rightarrow> bool" where
  "row_ok xs r \<longleftrightarrow>
     tw_first r \<le> tw_last r \<and> tw_last r < length xs
     \<and> it_turn (xs ! tw_first r) = Some (tw_id r)
     \<and> (\<forall>j. tw_first r \<le> j \<and> j \<le> tw_last r \<longrightarrow> it_turn (xs ! j) \<in> {None, Some (tw_id r)})"

definition rows_of :: "item list \<Rightarrow> turn_row list \<Rightarrow> bool" where
  "rows_of xs rows \<longleftrightarrow>
     concat (map row_span rows) = [(if rows = [] then length xs else tw_first (hd rows)) ..< length xs]
     \<and> (\<forall>r \<in> set rows. row_ok xs r)
     \<and> (rows = [] \<longrightarrow> (\<forall>i \<in> set xs. it_turn i = None))"

lemma row_ok_append: "row_ok xs r \<Longrightarrow> row_ok (xs @ [i]) r"
  by (simp add: row_ok_def nth_append)

lemma row_ok_extend:
  "row_ok xs r \<Longrightarrow> Suc (tw_last r) = length xs \<Longrightarrow> it_turn i = None \<or> it_turn i = Some (tw_id r) \<Longrightarrow>
     row_ok (xs @ [i]) (r\<lparr>tw_headline := h, tw_last := length xs\<rparr>)"
  by (auto simp: row_ok_def nth_append)

lemma map_last_snoc [simp]: "map_last f (xs @ [x]) = xs @ [f x]"
  by (simp add: map_last_def)

lemma map_last_Nil [simp]: "map_last f [] = []"
  by (simp add: map_last_def)

lemma turns_step_skip: "it_turn i = None \<Longrightarrow> turns_step [] (n, i) = []"
  by (simp add: turns_step_def)

lemma turns_step_extend:
  assumes "it_turn i = None \<or> it_turn i = Some (tw_id r)"
  shows "\<exists>h. turns_step (bs @ [r]) (n, i) = bs @ [r\<lparr>tw_headline := h, tw_last := n\<rparr>]"
proof -
  have "r\<lparr>tw_last := n\<rparr> = r\<lparr>tw_headline := tw_headline r, tw_last := n\<rparr>" by simp
  then show ?thesis
    using assms by (cases "asked i"; cases "tw_headline r"; auto simp: turns_step_def Let_def; metis)
qed

lemma turns_step_push:
  assumes "it_turn i = Some k" "out = [] \<or> tw_id (last out) \<noteq> k"
  shows "\<exists>h. turns_step out (n, i)
    = out @ [\<lparr>tw_id = k, tw_headline = h, tw_first = n, tw_last = n\<rparr>]"
  using assms by (cases "asked i") (auto simp: turns_step_def Let_def)

lemma rows_of_extend:
  assumes "rows_of xs (bs @ [r])" "it_turn i = None \<or> it_turn i = Some (tw_id r)"
  shows "rows_of (xs @ [i]) (bs @ [r\<lparr>tw_headline := h, tw_last := length xs\<rparr>])"
proof -
  let ?r = "r\<lparr>tw_headline := h, tw_last := length xs\<rparr>"
  have all: "concat (map row_span bs) @ row_span r = [tw_first (hd (bs @ [r])) ..< length xs]"
    and r: "tw_first r \<le> tw_last r" "tw_last r < length xs"
    using assms(1) by (simp_all add: rows_of_def row_ok_def)
  have first: "tw_first (hd (bs @ [r])) < length xs"
    by (rule ccontr) (use all r in \<open>auto simp: row_span_def\<close>)
  then have "last (concat (map row_span bs) @ row_span r) = length xs - 1"
    unfolding all by simp
  moreover have "last (concat (map row_span bs) @ row_span r) = tw_last r"
    using r by (simp add: row_span_def)
  ultimately have last: "Suc (tw_last r) = length xs"
    using r by simp
  then have span: "row_span ?r = row_span r @ [length xs]"
    using r by (simp add: row_span_def)
  have "tw_first (hd (bs @ [?r])) = tw_first (hd (bs @ [r]))"
    by (cases bs) simp_all
  then have "concat (map row_span (bs @ [?r]))
      = [tw_first (hd (bs @ [?r])) ..< length (xs @ [i])]"
    using all span first by (simp add: append.assoc[symmetric])
  then show ?thesis
    using assms last by (simp add: rows_of_def row_ok_append row_ok_extend)
qed

lemma rows_of_push:
  assumes "rows_of xs out" "it_turn i = Some k"
  shows "rows_of (xs @ [i]) (out @ [\<lparr>tw_id = k, tw_headline = h, tw_first = length xs, tw_last = length xs\<rparr>])"
proof -
  let ?new = "\<lparr>tw_id = k, tw_headline = h, tw_first = length xs, tw_last = length xs\<rparr>"
  have "tw_first (hd out) \<le> length xs" if "out \<noteq> []"
    using assms(1) that by (cases out) (auto simp: rows_of_def row_ok_def)
  then have "concat (map row_span (out @ [?new])) = [tw_first (hd (out @ [?new])) ..< length (xs @ [i])]"
    using assms(1) by (cases "out = []") (auto simp: rows_of_def row_span_def)
  moreover have "row_ok (xs @ [i]) ?new"
    using assms(2) by (auto simp: row_ok_def)
  ultimately show ?thesis
    using assms by (simp add: rows_of_def row_ok_append)
qed

lemma turns_rows: "rows_of xs (foldl turns_step [] (List.enumerate 0 xs))"
proof (induction xs rule: rev_induct)
  case Nil
  then show ?case by (simp add: rows_of_def)
next
  case (snoc i xs)
  let ?out = "foldl turns_step [] (List.enumerate 0 xs)"
  have step: "foldl turns_step [] (List.enumerate 0 (xs @ [i])) = turns_step ?out (length xs, i)"
    by (simp add: enumerate_append_eq)
  show ?case
  proof (cases "it_turn i = None \<and> ?out = []")
    case True
    then show ?thesis
      using snoc turns_step_skip[of i "length xs"] by (auto simp: step rows_of_def)
  next
    case False
    show ?thesis
    proof (cases "?out \<noteq> [] \<and> (it_turn i = None \<or> it_turn i = Some (tw_id (last ?out)))")
      case True
      then obtain bs r where "?out = bs @ [r]" by (metis rev_exhaust)
      then show ?thesis
        using True snoc turns_step_extend[of i r bs "length xs"] rows_of_extend[of xs bs r i]
        by (auto simp: step)
    next
      case push: False
      then obtain k where "it_turn i = Some k" "?out = [] \<or> tw_id (last ?out) \<noteq> k"
        using False by auto
      then show ?thesis
        using snoc turns_step_push[of i k ?out "length xs"] rows_of_push[of xs ?out i k]
        by (auto simp: step)
    qed
  qed
qed

text \<open>
  The turns listed for a transcript cover its visible items from the first
  item that belongs to a turn to the last, in order and without gap or overlap;
  a row opens on an item of its turn and holds no item of another turn.
\<close>

theorem turns_partition: "rows_of (visible_items t) (turns t)"
  unfolding turns_def by (rule turns_rows)

end
