(* ===== verification/Core_Actor.thy ===== *)
theory Core_Actor
  imports Core_Queue Sdk_Clock
begin

text \<open>
  The session actor (\<open>bingo-core/src/session.rs\<close> with its modules
  \<open>storage.rs\<close>, \<open>checkpoint.rs\<close>, \<open>running.rs\<close>, \<open>signals.rs\<close> and \<open>recovery.rs\<close>):
  the record of everything one session keeps, the one way an event becomes a
  frame, and what happens when the store refuses one.

  An operation of the actor takes it and gives it back beside its result, an
  error on the left where the source returns \<open>Err\<close>; \<open>and_then\<close> is the source's
  question mark.  What the actor reads from outside is collected in a \<open>world\<close>:
  the clock and its range, the minted identifiers, what the store answers, the order in which
  a hash map hands out its entries, what the policy says of itself, the wire form
  of answers and views, and the reading of the context between rounds.  What it
  sends is kept in the actor: the turns that are over and whose tokens the calls
  they let in still hold, the frames it fanned out, the replies it gave to
  those who asked, and the tasks it started, whose mail comes back as messages.
\<close>

section \<open>What a session runs on\<close>

record session_spec =
  sp_cwd :: string
  sp_key :: "string option"
  sp_parent :: "parent_link option"
  sp_title :: "string option"
  sp_driver :: driver
  sp_provider :: "string option"
  sp_model :: "string option"
  sp_model_scope :: "choice_scope option"
  sp_system_extra :: "string option"
  sp_tools :: "string list option"
  sp_thinking :: "effort option option"

text \<open>The model of a session; the endpoint is known by its name and by whether it holds the context.\<close>

record model_choice =
  mc_endpoint :: string
  mc_holds_context :: bool
  mc_id :: string
  mc_reasoning :: "effort option"

record turn_config =
  tc_keys :: "(string \<times> string) list"
  tc_spec :: session_spec
  tc_model :: "model_choice option"
  tc_policy :: string
  tc_hooks_empty :: bool
  tc_has_links :: bool

definition model_key :: "turn_config \<Rightarrow> (string \<times> string) option" where
  "model_key c = map_option (\<lambda>m. (mc_endpoint m, mc_id m)) (tc_model c)"

definition switched :: "turn_config \<Rightarrow> turn_config \<Rightarrow> bool" where
  "switched old new \<longleftrightarrow> model_key old \<noteq> model_key new"

definition stated :: "session_spec \<Rightarrow> model_choice option \<Rightarrow> session_summary \<Rightarrow> session_summary" where
  "stated spec choice became =
     became\<lparr>
       ss_choice :=
         \<lparr>sm_model = map_option mc_id choice,
          sm_model_scope = map_option (\<lambda>_. unwrap_or (sp_model_scope spec)
             (if sp_model spec \<noteq> None then ScopeSession else ScopeDefault)) choice,
          sm_effort = Option.bind choice mc_reasoning\<rparr>,
       ss_cwd := sp_cwd spec,
       ss_key := sp_key spec,
       ss_parent := sp_parent spec,
       ss_title := sp_title spec,
       ss_driver := sp_driver spec,
       ss_provider := map_option mc_endpoint choice,
       ss_system_extra := sp_system_extra spec,
       ss_tools := sp_tools spec\<rparr>"

section \<open>The parts of an actor\<close>

datatype turn_kind = KindRespond | KindCompact "string option"

text \<open>A tool as a turn offers it: its name, and whether a call with an input is quiet.\<close>

record offered_tool =
  ot_name :: string
  ot_quiet :: "json \<Rightarrow> bool"

text \<open>
  The turn in flight: the token that stops it, its door (whether a call may come
  in from outside, and whether the turn ended on its own), the tools it offers,
  and the earliest ask it was stopped at, which is written once.
\<close>

record running =
  rn_turn :: turn_id
  rn_cancelled :: bool
  rn_door :: bool
  rn_tools :: "offered_tool list"
  rn_completed :: bool
  rn_stopped_ask :: "timestamp option"
  rn_config :: turn_config

definition stopped_ask_set :: "timestamp option \<Rightarrow> running \<Rightarrow> running" where
  "stopped_ask_set at r =
     (case at of
        None \<Rightarrow> r
      | Some t \<Rightarrow> (case rn_stopped_ask r of None \<Rightarrow> r\<lparr>rn_stopped_ask := Some t\<rparr> | Some _ \<Rightarrow> r))"

definition running_finish :: "running \<Rightarrow> running" where
  "running_finish r =
     (if rn_cancelled r then r else r\<lparr>rn_completed := True\<rparr>)\<lparr>rn_cancelled := True\<rparr>"

record pending_ask =
  pe_interaction :: interaction
  pe_by_command :: bool

text \<open>The ask that settled a call, and the answer it got.\<close>

record gate_asked =
  ga_id :: interaction_id
  ga_opened_at :: timestamp
  ga_held :: bool

record gate_answered =
  gn_ask :: gate_asked
  gn_answer :: answer

datatype input_kind = InSubmit | InProse | InQueued | InDeliver delivery

record waiting_input =
  wt_calling :: bool
  wt_intent :: intent_id
  wt_input :: input
  wt_kind :: input_kind

record gate_flight =
  gf_intent :: intent_id
  gf_cancelled :: bool

record input_gate =
  ig_waiting :: "waiting_input list"
  ig_flight :: "gate_flight option"

definition gate_busy :: "input_gate \<Rightarrow> bool" where
  "gate_busy g \<longleftrightarrow> ig_flight g \<noteq> None \<or> ig_waiting g \<noteq> []"

record in_flight =
  fi_invocation :: invocation
  fi_cancelled :: bool
  fi_vouched :: "string option"
  fi_own :: bool

record commands =
  cm_host_alive :: bool
  cm_drawings :: "(string \<times> drawn) list"
  cm_inflight :: "(intent_id \<times> in_flight) list"
  cm_holding :: "intent_id option"

definition commands_vouched :: "input \<Rightarrow> commands \<Rightarrow> string option" where
  "commands_vouched i c = (case i of InAction a _ \<Rightarrow> vouches a (cm_drawings c) | InText _ _ _ _ _ \<Rightarrow> None)"

definition commands_busy :: "commands \<Rightarrow> bool" where
  "commands_busy c \<longleftrightarrow> cm_holding c \<noteq> None"

record finished_run =
  fu_invocation :: invocation
  fu_held :: bool
  fu_vouched :: "string option"

definition commands_finish :: "intent_id \<Rightarrow> commands \<Rightarrow> finished_run option \<times> commands" where
  "commands_finish intent c =
     (let held = (cm_holding c = Some intent);
          c1 = (if held then c\<lparr>cm_holding := None\<rparr> else c)
      in case map_of (cm_inflight c1) intent of
           None \<Rightarrow> (None, c1)
         | Some run \<Rightarrow>
             (Some \<lparr>fu_invocation = fi_invocation run, fu_held = held,
                    fu_vouched = (if fi_own run then fi_vouched run else None)\<rparr>,
              c1\<lparr>cm_inflight := AList.delete intent (cm_inflight c1)\<rparr>))"

definition commands_interrupt :: "commands \<Rightarrow> intent_id option \<times> commands" where
  "commands_interrupt c =
     (case cm_holding c of
        None \<Rightarrow> (None, c)
      | Some intent \<Rightarrow>
          (case map_of (cm_inflight c) intent of
             None \<Rightarrow> (None, c)
           | Some run \<Rightarrow>
               (Some intent, c\<lparr>cm_inflight := AList.update intent (run\<lparr>fi_cancelled := True\<rparr>)
                    (cm_inflight c)\<rparr>)))"

section \<open>The actor and its world\<close>

text \<open>One run the actor asks for; the command itself is known by its name.\<close>

record command_run =
  cr_intent :: intent_id
  cr_command :: string
  cr_args :: string
  cr_holds :: bool
  cr_asked :: bool
  cr_vouched :: "string option"

record completed_turn =
  ct_turn :: turn_id
  ct_status :: turn_status
  ct_usage :: usage
  ct_items :: "item list"
  ct_notices :: "item_body list"

datatype phase = PhaseStart | PhaseEnd

text \<open>What a call handed in from outside came to, and what a command came to.\<close>

record tool_outcome =
  tu_item :: item_id
  tu_call_id :: string
  tu_output :: tool_output
  tu_status :: item_status
  tu_duration_ms :: u64

datatype command_outcome =
    CoAcknowledged json
  | CoSurface action "string option"
  | CoAnswer answer
  | CoHandled bool
  | CoApplied "string option"
  | CoView view
  | CoPrompt string
  | CoRecord item_body

text \<open>
  What a client may ask of the past: a page, one item, a whole snapshot, a rewind.
  A stream is what it replays first, from memory or from the store between two
  sequence numbers, and the point of the fan-out from which it goes on live.
\<close>

record history_page =
  hp_before :: "item_id option"
  hp_limit :: nat
  hp_max_bytes :: "nat option"
  hp_generation :: "u64 option"

datatype replay_from =
    ReplayHeld "frame list"
  | ReplayStored seq seq

record frame_stream =
  fs_replay :: replay_from
  fs_live :: nat

datatype past_request =
    RqPage history_page
  | RqPin item_id u64
  | RqAttach session_state frame_stream
  | RqRewind turn_id

text \<open>The tasks an actor starts; what they find comes back as mail.\<close>

datatype task =
    TaskTurn turn_id turn_kind transcript
  | TaskCommand command_run
  | TaskGate waiting_input
  | TaskCheckpoint session_state
  | TaskRewrite event
  | TaskPast seq transcript past_request
  | TaskComplete turn_id turn_status usage "item list" string
  | TaskReady intent_id "kernel_error + command_outcome"
  | TaskServe turn_id item_id tool_call
  | TaskSideCall "turn_id option" model_choice
  | TaskAfterTurn turn_id "item list"
  | TaskSessionHooks phase

record actor =
  ka_id :: session_id
  ka_state :: session_state
  ka_journal :: "frame list"
  ka_checkpoint_seq :: seq
  ka_seq :: seq
  ka_store :: "frame list option"
  ka_config :: turn_config
  ka_running :: "running option"
  ka_queue :: queue
  ka_commands :: commands
  ka_gate :: input_gate
  ka_cancelled :: bool
  ka_pending :: "(interaction_id \<times> pending_ask) list"
  ka_closing :: "close_reason option"
  ka_progress_n :: u32
  ka_rx_closed :: bool
  ka_calling :: bool
  ka_clock :: nat
  ka_minted :: nat
  ka_ended :: "running list"
  ka_out :: "frame list"
  ka_observed :: "frame list option"
  ka_replies :: "(interaction_id \<times> (kernel_error + gate_answered)) list"
  ka_spawned :: "task list"

record world =
  wo_now :: "nat \<Rightarrow> timestamp"
  wo_checked_add :: "timestamp \<Rightarrow> duration \<Rightarrow> timestamp option"
  wo_mint :: "nat \<Rightarrow> string"
  wo_append :: "frame list \<Rightarrow> frame \<Rightarrow> kernel_error option"
  wo_order :: "(interaction_id \<times> pending_ask) list \<Rightarrow> (interaction_id \<times> pending_ask) list"
  wo_describe :: "nat \<Rightarrow> session_id \<Rightarrow> json"
  wo_json_answer :: "answer \<Rightarrow> json"
  wo_json_view :: "view \<Rightarrow> json"
  wo_json_item :: "item \<Rightarrow> string + string"
  wo_json_state :: "session_state \<Rightarrow> string + string"
  wo_replay :: "frame list \<Rightarrow> seq \<Rightarrow> kernel_error + frame list"
  wo_restated :: "turn_config \<Rightarrow> session_state \<Rightarrow> bool \<Rightarrow> context_usage option option"

type_synonym 'a result = "(kernel_error + 'a) \<times> actor"

definition and_then :: "('e + 'a) \<times> 's \<Rightarrow> ('a \<Rightarrow> 's \<Rightarrow> ('e + 'b) \<times> 's) \<Rightarrow> ('e + 'b) \<times> 's" where
  "and_then r k = (case r of (Inl e, a) \<Rightarrow> (Inl e, a) | (Inr x, a) \<Rightarrow> k x a)"

definition returns :: "'a \<Rightarrow> 's \<Rightarrow> ('e + 'a) \<times> 's" where
  "returns x a = (Inr x, a)"

text \<open>A \<open>for\<close> loop whose body may return early.\<close>

fun for_each :: "('x \<Rightarrow> 's \<Rightarrow> ('e + unit) \<times> 's) \<Rightarrow> 'x list \<Rightarrow> 's \<Rightarrow> ('e + unit) \<times> 's" where
  "for_each body [] a = returns () a"
| "for_each body (x # xs) a = and_then (body x a) (\<lambda>_ a. for_each body xs a)"

definition now :: "world \<Rightarrow> actor \<Rightarrow> timestamp \<times> actor" where
  "now w a = (wo_now w (ka_clock a), a\<lparr>ka_clock := Suc (ka_clock a)\<rparr>)"

definition mint :: "world \<Rightarrow> string \<Rightarrow> actor \<Rightarrow> string \<times> actor" where
  "mint w pre a = (pre @ ''_'' @ wo_mint w (ka_minted a), a\<lparr>ka_minted := Suc (ka_minted a)\<rparr>)"

definition start_task :: "task \<Rightarrow> actor \<Rightarrow> actor" where
  "start_task t a = a\<lparr>ka_spawned := ka_spawned a @ [t]\<rparr>"

section \<open>Reading the actor\<close>

definition actor_busy :: "actor \<Rightarrow> bool" where
  "actor_busy a \<longleftrightarrow> ka_running a \<noteq> None \<or> commands_busy (ka_commands a)"

definition answers :: "actor \<Rightarrow> bool" where
  "answers a \<longleftrightarrow> tc_model (ka_config a) \<noteq> None"

definition is_running :: "turn_id \<Rightarrow> actor \<Rightarrow> bool" where
  "is_running turn a = (case ka_running a of Some r \<Rightarrow> rn_turn r = turn | None \<Rightarrow> False)"

definition stamped_summary :: "actor \<Rightarrow> session_summary \<Rightarrow> session_summary" where
  "stamped_summary a s = s\<lparr>ss_busy := (ka_running a \<noteq> None), ss_asking := (ka_pending a \<noteq> [])\<rparr>"

definition held :: "actor \<Rightarrow> interaction \<Rightarrow> bool" where
  "held a i \<longleftrightarrow>
     (case in_kind i of KPermission _ _ _ _ _ _ \<Rightarrow> True | _ \<Rightarrow> False) \<and>
     (case Option.bind (in_item i) (get (st_transcript (ka_state a))) of
        Some it \<Rightarrow> call_waiting it | None \<Rightarrow> False)"

definition remember_stopped_ask :: "actor \<Rightarrow> actor" where
  "remember_stopped_ask a =
     (case ka_running a of
        None \<Rightarrow> a
      | Some r \<Rightarrow>
          (let asks = filter (\<lambda>(_, p). in_turn (pe_interaction p) = Some (rn_turn r)
                                \<and> \<not> held a (pe_interaction p)) (ka_pending a);
               at = min_option (map (\<lambda>(_, p). in_opened_at (pe_interaction p)) asks)
           in a\<lparr>ka_running := Some (stopped_ask_set at r)\<rparr>))"

section \<open>Publishing\<close>

text \<open>
  \<open>broadcast\<close>: the observers get every frame but the deltas, the reducer folds it,
  the subscribers are offered it.
\<close>

definition is_delta :: "event \<Rightarrow> bool" where
  "is_delta e = (case e of EvItemDelta _ _ _ _ \<Rightarrow> True | _ \<Rightarrow> False)"

definition broadcast :: "frame \<Rightarrow> actor \<Rightarrow> actor" where
  "broadcast f a =
     a\<lparr>ka_observed := (if is_delta (fr_event f) then ka_observed a
                       else map_option (\<lambda>seen. seen @ [f]) (ka_observed a)),
       ka_state := fst (state_apply (ka_state a) f),
       ka_out := ka_out a @ [f]\<rparr>"

definition next_frame :: "world \<Rightarrow> event \<Rightarrow> intent_id option \<Rightarrow> actor \<Rightarrow> frame \<times> actor" where
  "next_frame w ev cause a =
     (let a1 = a\<lparr>ka_seq := seq_next (ka_seq a)\<rparr>;
          (at, a2) = now w a1
      in (\<lparr>fr_seq = ka_seq a2, fr_ts = at, fr_session = ka_id a2, fr_cause = cause,
           fr_event = ev\<rparr>, a2))"

definition terminal_event :: "world \<Rightarrow> event \<Rightarrow> intent_id option \<Rightarrow> actor \<Rightarrow> actor" where
  "terminal_event w ev cause a = (case next_frame w ev cause a of (f, a1) \<Rightarrow> broadcast f a1)"

definition drain_pending :: "world \<Rightarrow> actor \<Rightarrow> (interaction_id \<times> pending_ask) list \<times> actor" where
  "drain_pending w a = (wo_order w (ka_pending a), a\<lparr>ka_pending := []\<rparr>)"

definition reply_to :: "interaction_id \<Rightarrow> kernel_error + gate_answered \<Rightarrow> actor \<Rightarrow> actor" where
  "reply_to k r a = a\<lparr>ka_replies := ka_replies a @ [(k, r)]\<rparr>"

text \<open>\<open>storage_failed\<close>: the live segment ends without pretending its tail is durable.\<close>

definition storage_failed :: "world \<Rightarrow> kernel_error \<Rightarrow> actor \<Rightarrow> actor" where
  "storage_failed w e a =
     (let a1 = remember_stopped_ask (a\<lparr>ka_rx_closed := True\<rparr>);
          a2 = a1\<lparr>ka_running := None\<rparr>;
          a3 = terminal_event w (EvNotice LvError ''STORAGE'' (ke_message e)) None a2;
          (lines, q) = drain_all (ka_queue a3);
          a4 = foldl (\<lambda>a (intent, _). terminal_event w (EvIntentAck intent (IoRejected e)) (Some intent) a)
                 (a3\<lparr>ka_queue := q\<rparr>) lines;
          (asks, a5) = drain_pending w a4;
          a6 = foldl (\<lambda>a (k, _). reply_to k (Inl e) a) a5 asks
      in terminal_event w (EvSessionClosed (CloseError (ke_message e))) None a6)"

text \<open>
  \<open>checkpoint::write\<close>: the state without its live signals and without the items
  only the journal still needs.
\<close>

definition checkpoint_write :: "actor \<Rightarrow> actor" where
  "checkpoint_write a =
     (if ka_store a = None then a
      else start_task (TaskCheckpoint ((ka_state a)\<lparr>st_signals := Mapping.empty,
             st_transcript := drop_before_cut (st_transcript (ka_state a))\<rparr>)) a)"

definition is_compacted :: "event \<Rightarrow> bool" where
  "is_compacted e = (case e of EvCompacted _ _ _ _ \<Rightarrow> True | _ \<Rightarrow> False)"

definition store_answer :: "world \<Rightarrow> frame \<Rightarrow> actor \<Rightarrow> kernel_error option" where
  "store_answer w f a = Option.bind (ka_store a) (\<lambda>held. wo_append w held f)"

definition keep_frame :: "frame \<Rightarrow> actor \<Rightarrow> actor" where
  "keep_frame f a =
     a\<lparr>ka_store := map_option (\<lambda>held. held @ [f]) (ka_store a), ka_journal := ka_journal a @ [f]\<rparr>"

definition publish :: "world \<Rightarrow> event \<Rightarrow> intent_id option \<Rightarrow> actor \<Rightarrow> seq result" where
  "publish w ev cause a =
     (case next_frame w ev cause a of (f, a1) \<Rightarrow>
        (case (if is_durable ev then store_answer w f a1 else None) of
           Some e \<Rightarrow> (Inl e, storage_failed w e a1)
         | None \<Rightarrow>
             (let a2 = (if is_durable ev then keep_frame f a1 else a1);
                  a3 = broadcast f a2;
                  a4 = (if is_compacted ev then checkpoint_write a3 else a3)
              in returns (ka_seq a4) a4)))"

definition tell :: "world \<Rightarrow> event \<Rightarrow> intent_id option \<Rightarrow> actor \<Rightarrow> unit result" where
  "tell w ev cause a = and_then (publish w ev cause a) (\<lambda>_ a. returns () a)"

definition checkpoint_acknowledge :: "seq \<Rightarrow> kernel_error option \<Rightarrow> actor \<Rightarrow> actor" where
  "checkpoint_acknowledge sq failed a =
     (if failed = None \<and> sq > ka_checkpoint_seq a
      then a\<lparr>ka_checkpoint_seq := sq,
             ka_journal := filter (\<lambda>f. fr_seq f > sq) (ka_journal a),
             ka_state := (ka_state a)\<lparr>st_transcript := drop_before_cut (st_transcript (ka_state a))\<rparr>\<rparr>
      else a)"

section \<open>The small publishers\<close>

definition publish_summary :: "world \<Rightarrow> session_summary \<Rightarrow> actor \<Rightarrow> unit result" where
  "publish_summary w summary a = tell w (EvSessionUpdated (stamped_summary a summary)) None a"

definition reject :: "world \<Rightarrow> intent_id \<Rightarrow> error_code \<Rightarrow> string \<Rightarrow> actor \<Rightarrow> unit result" where
  "reject w intent code message a =
     tell w (EvIntentAck intent (IoRejected (kernel_error_new code message))) (Some intent) a"

definition applied_ack :: "world \<Rightarrow> intent_id \<Rightarrow> json \<Rightarrow> actor \<Rightarrow> unit result" where
  "applied_ack w intent v a = tell w (EvIntentAck intent (IoApplied v)) (Some intent) a"

definition fresh_item ::
  "world \<Rightarrow> turn_id option \<Rightarrow> intent_id option \<Rightarrow> item_body \<Rightarrow> actor \<Rightarrow> item \<times> actor" where
  "fresh_item w turn intent body a =
     (let (at, a1) = now w a; (k, a2) = mint w ''itm'' a1
      in (\<lparr>it_id = k, it_turn = turn, it_round = 0, it_status = StCompleted, it_started_at = at,
           it_completed_at = Some at, it_intent = intent, it_body = body, it_meta = []\<rparr>, a2))"

definition config_eq :: "config_view \<Rightarrow> config_view \<Rightarrow> bool" where
  "config_eq c d \<longleftrightarrow>
     json_eq (cv_kernel c) (cv_kernel d) \<and>
     Mapping.keys (cv_plugins c) = Mapping.keys (cv_plugins d) \<and>
     (\<forall>k \<in> Mapping.keys (cv_plugins c).
        json_eq (the (Mapping.lookup (cv_plugins c) k)) (the (Mapping.lookup (cv_plugins d) k)))"

text \<open>\<open>refresh_config\<close>, with the text of an effort as the source writes it.\<close>

definition kernel_view :: "actor \<Rightarrow> json" where
  "kernel_view a =
     JObject ([(''thinking'', case Option.bind (tc_model (ka_config a)) mc_reasoning of
                  Some e \<Rightarrow> JString (effort_name e) | None \<Rightarrow> JNull),
               (''policy'', JString (tc_policy (ka_config a)))]
       @ (if tc_keys (ka_config a) = [] then []
          else [(''keys'', JObject (map (\<lambda>(k, v). (k, JString v)) (tc_keys (ka_config a))))]))"

definition refresh_config :: "world \<Rightarrow> actor \<Rightarrow> unit result" where
  "refresh_config w a =
     (let described = wo_describe w (ka_clock a) (ka_id a);
          plugins = (if is_null described then Mapping.empty
                     else Mapping.update (tc_policy (ka_config a)) described Mapping.empty);
          config = \<lparr>cv_kernel = kernel_view a, cv_plugins = plugins\<rparr>
      in if \<not> config_eq config (st_config (ka_state a))
         then (if tc_has_links (ka_config a)
               then returns () (if ka_observed a = None then a
                                else start_task (TaskRewrite (EvConfigChanged config)) a)
               else tell w (EvConfigChanged config) None a)
         else returns () a)"

definition extend_session :: "world \<Rightarrow> string \<Rightarrow> string \<Rightarrow> json \<Rightarrow> actor \<Rightarrow> unit result" where
  "extend_session w plugin kind payload a =
     (if tc_has_links (ka_config a)
      then returns () (if ka_observed a = None then a
                       else start_task (TaskRewrite (EvExtension plugin kind payload)) a)
      else tell w (EvExtension plugin kind payload) None a)"

definition recorded_receipt :: "item_body \<Rightarrow> actor \<Rightarrow> item option" where
  "recorded_receipt body a =
     (case body of
        BPermissionReceipt _ _ k _ _ _ \<Rightarrow>
          find (\<lambda>i. case it_body i of BPermissionReceipt _ _ k' _ _ _ \<Rightarrow> k' = k | _ \<Rightarrow> False)
            (visible_items (st_transcript (ka_state a)))
      | _ \<Rightarrow> None)"

definition is_receipt :: "item_body \<Rightarrow> bool" where
  "is_receipt b = (case b of BPermissionReceipt _ _ _ _ _ _ \<Rightarrow> True | _ \<Rightarrow> False)"

definition record_item :: "world \<Rightarrow> item \<Rightarrow> actor \<Rightarrow> item result" where
  "record_item w i a =
     and_then
       (case recorded_receipt (it_body i) a of
          Some recorded \<Rightarrow> returns recorded a
        | None \<Rightarrow> and_then (publish w (EvItemCompleted i) None a) (\<lambda>_ a. returns i a))
       (\<lambda>canonical a.
          if is_receipt (it_body i)
          then and_then (refresh_config w a) (\<lambda>_ a. returns canonical a)
          else returns canonical a)"

definition record_for :: "world \<Rightarrow> intent_id option \<Rightarrow> item_body \<Rightarrow> actor \<Rightarrow> item_id result" where
  "record_for w intent body a =
     (case fresh_item w (map_option rn_turn (ka_running a)) intent body a of (i, a1) \<Rightarrow>
        and_then (record_item w i a1) (\<lambda>i a. returns (it_id i) a))"

definition record_body :: "world \<Rightarrow> item_body \<Rightarrow> actor \<Rightarrow> item_id result" where
  "record_body w body a = record_for w None body a"

definition emit :: "world \<Rightarrow> turn_id \<Rightarrow> event \<Rightarrow> actor \<Rightarrow> unit result" where
  "emit w turn ev a =
     (if \<not> is_running turn a then returns () a
      else (case ev of
          EvItemCompleted i \<Rightarrow> and_then (record_item w i a) (\<lambda>_ a. returns () a)
        | _ \<Rightarrow> tell w ev None a))"

definition progress :: "world \<Rightarrow> item_id \<Rightarrow> string \<Rightarrow> actor \<Rightarrow> unit result" where
  "progress w i tail a =
     (let a1 = a\<lparr>ka_progress_n := ka_progress_n a + 1\<rparr>
      in tell w (EvItemDelta i (ka_progress_n a1) DeltaTail tail) None a1)"

definition restated :: "world \<Rightarrow> actor \<Rightarrow> session_summary \<times> actor" where
  "restated w a =
     (let (at, a1) = now w a
      in (stated (tc_spec (ka_config a1)) (tc_model (ka_config a1))
            ((st_summary (ka_state a1))\<lparr>ss_updated_at := at\<rparr>), a1))"

definition restate_context :: "world \<Rightarrow> bool \<Rightarrow> actor \<Rightarrow> unit result" where
  "restate_context w sw a =
     (case wo_restated w (ka_config a) (ka_state a) sw of
        Some cu \<Rightarrow> tell w (EvContextChanged cu) None a
      | None \<Rightarrow> returns () a)"

definition reconfigure :: "world \<Rightarrow> turn_config \<Rightarrow> actor \<Rightarrow> unit result" where
  "reconfigure w config a =
     (let sw = switched (ka_config a) config;
          (summary, a1) = restated w (a\<lparr>ka_config := config\<rparr>)
      in and_then (publish_summary w summary a1) (\<lambda>_ a.
         and_then (restate_context w sw a) (\<lambda>_ a. refresh_config w a)))"

end
