(* ===== verification/Core_Publish.thy ===== *)
theory Core_Publish
  imports Core_Actor
begin

text \<open>
  What publishing guarantees.  \<open>ordered\<close> is the invariant of the journal and of
  the frames on the wire; \<open>crashed\<close> is where a refused append leaves the actor;
  \<open>face\<close> is the part of the shared state that mirrors what the kernel holds
  itself, and \<open>view_ok\<close> says that the mirror is true.  \<open>good\<close> is the reading of
  an operation that may return early, with one rule per way of composing
  operations, so that the lemma about an operation follows its text.
\<close>

section \<open>The face of a state\<close>

type_synonym face = "turn_id option \<times> interaction list \<times> queue_entry list"

definition state_face :: "session_state \<Rightarrow> face" where
  "state_face s = (map_option lt_id (st_turn s), st_interactions s, st_queue s)"

abbreviation face :: "actor \<Rightarrow> face" where
  "face a \<equiv> state_face (ka_state a)"

definition turn_step :: "turn_id option \<Rightarrow> event \<Rightarrow> turn_id option" where
  "turn_step t e =
     (case e of
        EvTurnStarted t' _ _ \<Rightarrow> Some t'
      | EvTurnCompleted _ _ _ \<Rightarrow> None
      | EvSessionClosed _ \<Rightarrow> None
      | _ \<Rightarrow> t)"

definition queue_step :: "queue_entry list \<Rightarrow> event \<Rightarrow> queue_entry list" where
  "queue_step q e = (case e of EvQueueChanged _ es \<Rightarrow> es | _ \<Rightarrow> q)"

definition face_step :: "event \<Rightarrow> face \<Rightarrow> face" where
  "face_step e x =
     (case x of (t, asks, q) \<Rightarrow> (turn_step t e, interactions_step asks e, queue_step q e))"

text \<open>The events that leave the face alone; everything a turn publishes is one of them.\<close>

definition face_neutral :: "event \<Rightarrow> bool" where
  "face_neutral e =
     (case e of
        EvTurnStarted _ _ _ \<Rightarrow> False
      | EvTurnCompleted _ _ _ \<Rightarrow> False
      | EvSessionClosed _ \<Rightarrow> False
      | EvInteractionOpened _ \<Rightarrow> False
      | EvInteractionResolved _ _ _ \<Rightarrow> False
      | EvInteractionCancelled _ _ \<Rightarrow> False
      | EvQueueChanged _ _ \<Rightarrow> False
      | EvLagged _ _ \<Rightarrow> False
      | _ \<Rightarrow> True)"

lemma face_step_neutral: "face_neutral e \<Longrightarrow> face_step e x = x"
  by (cases e; cases x)
    (simp_all add: face_neutral_def face_step_def turn_step_def interactions_step_def queue_step_def)

text \<open>
  Turns do not overlap: one starts only while none is open, and what completes is
  the one that is open.  \<open>turn_walk\<close> follows a list of events and gives the turn
  open at its end, or nothing where the rule is broken.
\<close>

definition turn_allowed :: "turn_id option \<Rightarrow> event \<Rightarrow> bool" where
  "turn_allowed t e =
     (case e of EvTurnStarted _ _ _ \<Rightarrow> t = None | EvTurnCompleted k _ _ \<Rightarrow> t = Some k | _ \<Rightarrow> True)"

fun turn_walk :: "turn_id option \<Rightarrow> event list \<Rightarrow> turn_id option option" where
  "turn_walk t [] = Some t"
| "turn_walk t (e # es) = (if turn_allowed t e then turn_walk (turn_step t e) es else None)"

lemma turn_walk_snoc:
  "turn_walk t es = Some u \<Longrightarrow> turn_allowed u e \<Longrightarrow> turn_walk t (es @ [e]) = Some (turn_step u e)"
  by (induction es arbitrary: t) (auto split: if_splits)

lemma turn_walk_append:
  "turn_walk t (es @ fs) = Option.bind (turn_walk t es) (\<lambda>u. turn_walk u fs)"
  by (induction es arbitrary: t) auto

definition publishable :: "face \<Rightarrow> event \<Rightarrow> bool" where
  "publishable x e \<longleftrightarrow> \<not> is_lagged e \<and> turn_allowed (fst x) e"

lemma publishable_not_lagged: "publishable x e \<Longrightarrow> \<not> is_lagged e"
  by (simp add: publishable_def)

lemma face_neutral_publishable: "face_neutral e \<Longrightarrow> publishable x e"
  by (cases e) (simp_all add: face_neutral_def publishable_def turn_allowed_def is_lagged_def)

lemma publishable_events [simp]:
  "publishable x (EvInteractionOpened i)" "publishable x (EvInteractionResolved k an by)"
  "publishable x (EvInteractionCancelled k why)" "publishable x (EvQueueChanged n es)"
  "publishable x (EvSessionClosed r)" "publishable x (EvNotice lv code m)"
  "publishable x (EvIntentAck intent io)" "publishable (None, y) (EvTurnStarted turn ids og)"
  "publishable (Some turn, y) (EvTurnCompleted turn status u)"
  by (simp_all add: publishable_def turn_allowed_def is_lagged_def)

lemma dispatch_face:
  "map_option lt_id (st_turn (fst (dispatch s f ap))) = turn_step (map_option lt_id (st_turn s)) (fr_event f)"
  "st_queue (fst (dispatch s f ap)) = queue_step (st_queue s) (fr_event f)"
  by (cases "fr_event f"; auto simp: dispatch_def turn_step_def queue_step_def handler_defs
      option.map_comp comp_def split: option.splits if_splits)+

lemma prepared_queue [simp]: "st_queue (prepared s f) = st_queue s"
  by (simp add: prepared_def Let_def count_a_message_def split: option.splits event.splits)

lemma state_apply_face:
  "\<not> is_lagged (fr_event f) \<Longrightarrow> st_seq s < fr_seq f \<Longrightarrow>
     state_face (fst (state_apply s f)) = face_step (fr_event f) (state_face s)"
  by (simp add: state_apply_fresh state_face_def face_step_def dispatch_face dispatch_interactions)

lemma state_apply_seq:
  "\<not> is_lagged (fr_event f) \<Longrightarrow> st_seq s < fr_seq f \<Longrightarrow> st_seq (fst (state_apply s f)) = fr_seq f"
  by (simp add: state_apply_fresh)

section \<open>The order of frames\<close>

definition numbered :: "nat \<Rightarrow> frame list \<Rightarrow> bool" where
  "numbered n fs \<longleftrightarrow> sorted_wrt (<) (map fr_seq fs) \<and> (\<forall>f \<in> set fs. fr_seq f \<le> n)"

definition journal_ok :: "nat \<Rightarrow> nat \<Rightarrow> frame list \<Rightarrow> frame list option \<Rightarrow> bool" where
  "journal_ok n c journal store \<longleftrightarrow>
     numbered n journal \<and> (\<forall>f \<in> set journal. c < fr_seq f \<and> is_durable (fr_event f)) \<and>
     (\<forall>fs. store = Some fs \<longrightarrow> numbered n fs \<and> filter (\<lambda>f. c < fr_seq f) fs = journal)"

definition ordered :: "actor \<Rightarrow> bool" where
  "ordered a \<longleftrightarrow>
     st_seq (ka_state a) \<le> ka_seq a \<and> ka_checkpoint_seq a \<le> ka_seq a \<and>
     (\<forall>s. TaskCheckpoint s \<in> set (ka_spawned a) \<longrightarrow> st_seq s \<le> ka_seq a) \<and>
     numbered (ka_seq a) (ka_out a) \<and>
     (\<exists>t. turn_walk t (map fr_event (ka_out a)) = Some (fst (face a))) \<and>
     journal_ok (ka_seq a) (ka_checkpoint_seq a) (ka_journal a) (ka_store a)"

lemma numbered_mono: "numbered n fs \<Longrightarrow> n \<le> m \<Longrightarrow> numbered m fs"
  by (auto simp: numbered_def)

lemma numbered_snoc: "numbered n fs \<Longrightarrow> fr_seq f = Suc n \<Longrightarrow> numbered (Suc n) (fs @ [f])"
  by (auto simp: numbered_def sorted_wrt_append le_imp_less_Suc le_SucI)

lemma numbered_filter: "numbered n fs \<Longrightarrow> numbered n (filter P fs)"
  unfolding numbered_def by (induction fs) auto

lemma journal_ok_mono: "journal_ok n c j st \<Longrightarrow> n \<le> m \<Longrightarrow> journal_ok m c j st"
  using numbered_mono[of n _ m] unfolding journal_ok_def by blast

lemma journal_ok_snoc:
  assumes "journal_ok n c j st" "fr_seq f = Suc n" "is_durable (fr_event f)" "c \<le> n"
  shows "journal_ok (Suc n) c (j @ [f]) (map_option (\<lambda>fs. fs @ [f]) st)"
proof -
  have "numbered (Suc n) (j @ [f])"
    using assms by (simp add: journal_ok_def numbered_snoc)
  moreover have "numbered (Suc n) (fs @ [f]) \<and> filter (\<lambda>f. c < fr_seq f) (fs @ [f]) = j @ [f]"
    if "st = Some fs" for fs
    using assms that by (simp add: journal_ok_def numbered_snoc)
  ultimately show ?thesis
    using assms by (auto simp: journal_ok_def)
qed

lemma journal_ok_retain:
  assumes "journal_ok n c j st" "c \<le> d"
  shows "journal_ok n d (filter (\<lambda>f. d < fr_seq f) j) st"
proof -
  have "filter (\<lambda>f. d < fr_seq f) (filter (\<lambda>f. c < fr_seq f) fs) = filter (\<lambda>f. d < fr_seq f) fs" for fs
    using assms(2) by (induction fs) auto
  then have "filter (\<lambda>f. d < fr_seq f) fs = filter (\<lambda>f. d < fr_seq f) j" if "st = Some fs" for fs
    using assms(1) that by (metis journal_ok_def)
  then show ?thesis
    using assms(1) by (simp add: journal_ok_def numbered_filter)
qed

text \<open>What publishing an event does not touch.\<close>

definition core :: "actor \<Rightarrow> actor" where
  "core a = a\<lparr>ka_state := undefined, ka_journal := [], ka_checkpoint_seq := 0, ka_seq := 0, ka_store := None,
     ka_clock := 0, ka_out := [], ka_observed := None, ka_spawned := []\<rparr>"

lemma core_fields:
  assumes "core a' = core a"
  shows "ka_running a' = ka_running a" "ka_pending a' = ka_pending a" "ka_queue a' = ka_queue a"
    "ka_commands a' = ka_commands a" "ka_gate a' = ka_gate a" "ka_closing a' = ka_closing a"
    "ka_config a' = ka_config a" "ka_id a' = ka_id a" "ka_cancelled a' = ka_cancelled a"
    "ka_rx_closed a' = ka_rx_closed a" "ka_replies a' = ka_replies a" "ka_minted a' = ka_minted a"
    "ka_calling a' = ka_calling a" "ka_progress_n a' = ka_progress_n a"
  using arg_cong[OF assms, of ka_running] arg_cong[OF assms, of ka_pending]
    arg_cong[OF assms, of ka_queue] arg_cong[OF assms, of ka_commands]
    arg_cong[OF assms, of ka_gate] arg_cong[OF assms, of ka_closing]
    arg_cong[OF assms, of ka_config] arg_cong[OF assms, of ka_id]
    arg_cong[OF assms, of ka_cancelled] arg_cong[OF assms, of ka_rx_closed]
    arg_cong[OF assms, of ka_replies] arg_cong[OF assms, of ka_minted]
    arg_cong[OF assms, of ka_calling] arg_cong[OF assms, of ka_progress_n]
  by (simp_all add: core_def)

lemma next_frame_eq:
  "next_frame w ev cause a =
     (\<lparr>fr_seq = Suc (ka_seq a), fr_ts = wo_now w (ka_clock a), fr_session = ka_id a, fr_cause = cause,
       fr_event = ev\<rparr>, a\<lparr>ka_seq := Suc (ka_seq a), ka_clock := Suc (ka_clock a)\<rparr>)"
  by (simp add: next_frame_def now_def seq_next_def Let_def)

lemma walk_step:
  assumes "ordered a" "publishable (face a) (fr_event f)" "st_seq (ka_state a) < fr_seq f"
  shows "\<exists>t. turn_walk t (map fr_event (ka_out a @ [f])) = Some (fst (state_face (fst (state_apply (ka_state a) f))))"
proof -
  obtain t where "turn_walk t (map fr_event (ka_out a)) = Some (fst (face a))"
    using assms(1) by (auto simp: ordered_def)
  then have "turn_walk t (map fr_event (ka_out a) @ [fr_event f]) = Some (turn_step (fst (face a)) (fr_event f))"
    using assms(2) by (intro turn_walk_snoc) (simp_all add: publishable_def)
  moreover have "fst (face_step e x) = turn_step (fst x) e" for e x
    by (cases x) (simp add: face_step_def)
  ultimately show ?thesis
    using assms state_apply_face[of f "ka_state a"] by (auto simp: publishable_def)
qed

lemma ordered_terminal:
  assumes "ordered a" "publishable (face a) ev"
  shows "ordered (terminal_event w ev cause a)"
    and "face (terminal_event w ev cause a) = face_step ev (face a)"
    and "core (terminal_event w ev cause a) = core a"
proof -
  let ?f = "\<lparr>fr_seq = Suc (ka_seq a), fr_ts = wo_now w (ka_clock a), fr_session = ka_id a,
      fr_cause = cause, fr_event = ev\<rparr>"
  have fresh: "st_seq (ka_state a) < fr_seq ?f"
    using assms by (simp add: ordered_def)
  have "st_seq (fst (state_apply (ka_state a) ?f)) = Suc (ka_seq a)"
    using assms publishable_not_lagged state_apply_seq[OF _ fresh] by simp
  moreover have "\<exists>t. turn_walk t (map fr_event (ka_out a) @ [ev]) = Some (fst (state_face (fst (state_apply (ka_state a) ?f))))"
    using walk_step[OF assms(1), of ?f] assms(2) fresh by simp
  ultimately show "ordered (terminal_event w ev cause a)"
    using assms numbered_snoc[of "ka_seq a" "ka_out a" ?f]
      journal_ok_mono[of "ka_seq a" "ka_checkpoint_seq a" "ka_journal a" "ka_store a" "Suc (ka_seq a)"]
    by (auto simp: ordered_def terminal_event_def next_frame_eq broadcast_def le_SucI)
  show "face (terminal_event w ev cause a) = face_step ev (face a)"
    using assms publishable_not_lagged state_apply_face[OF _ fresh]
    by (simp add: terminal_event_def next_frame_eq broadcast_def)
  show "core (terminal_event w ev cause a) = core a"
    by (simp add: terminal_event_def next_frame_eq broadcast_def core_def)
qed

section \<open>Where a refused append leaves the actor\<close>

definition failed :: "actor \<Rightarrow> bool" where
  "failed a \<longleftrightarrow>
     ka_rx_closed a \<and> ka_running a = None \<and> ka_pending a = [] \<and> qu_entries (ka_queue a) = [] \<and>
     st_closed (ka_state a) \<and> st_turn (ka_state a) = None \<and> st_interactions (ka_state a) = []"

definition crashed :: "actor \<Rightarrow> bool" where
  "crashed a \<longleftrightarrow> ordered a \<and> failed a"

lemma remember_fields [simp]:
  "ka_state (remember_stopped_ask a) = ka_state a" "ka_seq (remember_stopped_ask a) = ka_seq a"
  "ka_out (remember_stopped_ask a) = ka_out a" "ka_journal (remember_stopped_ask a) = ka_journal a"
  "ka_store (remember_stopped_ask a) = ka_store a" "ka_spawned (remember_stopped_ask a) = ka_spawned a"
  "ka_checkpoint_seq (remember_stopped_ask a) = ka_checkpoint_seq a"
  "ka_pending (remember_stopped_ask a) = ka_pending a" "ka_queue (remember_stopped_ask a) = ka_queue a"
  "ka_rx_closed (remember_stopped_ask a) = ka_rx_closed a" "ka_closing (remember_stopped_ask a) = ka_closing a"
  "ka_commands (remember_stopped_ask a) = ka_commands a" "ka_gate (remember_stopped_ask a) = ka_gate a"
  "ka_config (remember_stopped_ask a) = ka_config a" "ka_replies (remember_stopped_ask a) = ka_replies a"
  by (simp_all add: remember_stopped_ask_def Let_def split: option.splits)

lemma remember_running:
  "map_option rn_turn (ka_running (remember_stopped_ask a)) = map_option rn_turn (ka_running a)"
  by (auto simp: remember_stopped_ask_def stopped_ask_set_def Let_def split: option.splits)

lemma ordered_cong:
  assumes "ordered a" "ka_state a' = ka_state a" "ka_seq a' = ka_seq a" "ka_out a' = ka_out a"
    "ka_journal a' = ka_journal a" "ka_store a' = ka_store a" "ka_spawned a' = ka_spawned a"
    "ka_checkpoint_seq a' = ka_checkpoint_seq a"
  shows "ordered a'"
  using assms by (simp add: ordered_def)

lemma foldl_keeps: "I a \<Longrightarrow> (\<And>a x. I a \<Longrightarrow> I (f a x)) \<Longrightarrow> I (foldl f a xs)"
  by (induction xs arbitrary: a) auto

lemma closed_terminal:
  "ordered a \<Longrightarrow> st_closed (ka_state (terminal_event w (EvSessionClosed r) cause a))"
  by (simp add: terminal_event_def next_frame_eq broadcast_def state_apply_fresh ordered_def
      dispatch_def session_closed_def is_lagged_def)

lemma storage_failed_crashed:
  assumes "ordered a"
  shows "crashed (storage_failed w e a)"
proof -
  define a2 where "a2 = (remember_stopped_ask (a\<lparr>ka_rx_closed := True\<rparr>))\<lparr>ka_running := None\<rparr>"
  define a3 where "a3 = terminal_event w (EvNotice LvError ''STORAGE'' (ke_message e)) None a2"
  define a4 where "a4 = foldl (\<lambda>a (intent, _). terminal_event w (EvIntentAck intent (IoRejected e)) (Some intent) a)
    (a3\<lparr>ka_queue := (ka_queue a3)\<lparr>qu_entries := []\<rparr>\<rparr>) (map unpack (qu_entries (ka_queue a3)))"
  define a6 where "a6 = foldl (\<lambda>a (k, _). reply_to k (Inl e) a) (a4\<lparr>ka_pending := []\<rparr>)
    (wo_order w (ka_pending a4))"
  let ?I = "\<lambda>a. ordered a \<and> ka_rx_closed a \<and> ka_running a = None \<and> qu_entries (ka_queue a) = []"
  have "ordered a2" "ka_rx_closed a2" "ka_running a2 = None"
    using assms by (auto simp: a2_def elim!: ordered_cong)
  then have a3: "ordered a3" "ka_rx_closed a3" "ka_running a3 = None"
    using ordered_terminal[of a2 "EvNotice LvError ''STORAGE'' (ke_message e)" w None]
      core_fields[of a3 a2] by (auto simp: a3_def is_lagged_def)
  have "?I a4"
    unfolding a4_def
  proof (rule foldl_keeps[where I = ?I])
    show "?I (a3\<lparr>ka_queue := (ka_queue a3)\<lparr>qu_entries := []\<rparr>\<rparr>)"
      using a3 by (auto elim!: ordered_cong)
    show "?I (case x of (intent, _) \<Rightarrow> terminal_event w (EvIntentAck intent (IoRejected e)) (Some intent) b)"
      if "?I b" for b x
      using that ordered_terminal[of b] core_fields[OF ordered_terminal(3)[of b]]
      by (cases x) (simp add: is_lagged_def)
  qed
  moreover have "?I a6 \<and> ka_pending a6 = []" if "?I a4"
    unfolding a6_def
    by (rule foldl_keeps) (use that in \<open>auto simp: reply_to_def elim!: ordered_cong\<close>)
  ultimately have a6: "?I a6" "ka_pending a6 = []"
    by blast+
  let ?a7 = "terminal_event w (EvSessionClosed (CloseError (ke_message e))) None a6"
  have "storage_failed w e a = ?a7"
    by (simp add: storage_failed_def drain_all_def drain_pending_def Let_def a2_def a3_def a4_def a6_def)
  moreover have "ordered ?a7" "face ?a7 = face_step (EvSessionClosed (CloseError (ke_message e))) (face a6)"
    "core ?a7 = core a6" "st_closed (ka_state ?a7)"
    using a6 ordered_terminal[of a6] closed_terminal by (auto simp: is_lagged_def)
  ultimately show ?thesis
    using a6 core_fields[of ?a7 a6]
    by (auto simp: crashed_def failed_def state_face_def face_step_def turn_step_def interactions_step_def)
qed

section \<open>Operations that may return early\<close>

text \<open>
  \<open>good E P r\<close>: an error leaves the actor in a state with \<open>E\<close>, a result \<open>x\<close> in one
  with \<open>P x\<close>.
\<close>

definition good :: "('s \<Rightarrow> bool) \<Rightarrow> ('a \<Rightarrow> 's \<Rightarrow> bool) \<Rightarrow> ('e + 'a) \<times> 's \<Rightarrow> bool" where
  "good E P r = (case r of (Inl _, a) \<Rightarrow> E a | (Inr x, a) \<Rightarrow> P x a)"

named_theorems good_intros \<open>one rule per way of composing operations\<close>

lemma good_returns [good_intros]: "P x a \<Longrightarrow> good E P (returns x a)"
  by (simp add: good_def returns_def)

lemma good_and_then [good_intros]:
  "good E Q r \<Longrightarrow> (\<And>x a. Q x a \<Longrightarrow> good E P (k x a)) \<Longrightarrow> good E P (and_then r k)"
  by (cases r; cases "fst r") (auto simp: good_def and_then_def)

lemma good_mono: "good E P r \<Longrightarrow> (\<And>a. E a \<Longrightarrow> E' a) \<Longrightarrow> (\<And>x a. P x a \<Longrightarrow> Q x a) \<Longrightarrow> good E' Q r"
  by (auto simp: good_def split: prod.splits sum.splits)

lemma good_for_each:
  "I a \<Longrightarrow> (\<And>x a. x \<in> set xs \<Longrightarrow> I a \<Longrightarrow> good E (\<lambda>_. I) (body x a)) \<Longrightarrow>
     good E (\<lambda>_. I) (for_each body xs a)"
proof (induction xs arbitrary: a)
  case (Cons x xs)
  have "good E (\<lambda>_. I) (body x a)"
    using Cons.prems by simp
  then show ?case
    using Cons.prems(2) by (auto intro!: good_and_then[where Q = "\<lambda>_. I"] Cons.IH)
qed (simp add: good_returns)

lemma good_snd: "good E (\<lambda>_. E) r \<Longrightarrow> E (snd r)"
  by (auto simp: good_def split: prod.splits sum.splits)

lemma ordered_checkpoint_write:
  assumes "ordered a"
  shows "ordered (checkpoint_write a)" "face (checkpoint_write a) = face a"
    "core (checkpoint_write a) = core a" "ka_state (checkpoint_write a) = ka_state a"
    "ka_seq (checkpoint_write a) = ka_seq a" "ka_out (checkpoint_write a) = ka_out a"
  using assms by (auto simp: checkpoint_write_def ordered_def start_task_def core_def)

lemma ordered_keep:
  assumes "ordered a" "is_durable ev"
    "fr_seq f = Suc (ka_seq a)" "fr_event f = ev"
  shows "ordered (keep_frame f (a\<lparr>ka_seq := Suc (ka_seq a), ka_clock := n\<rparr>))"
  using assms journal_ok_snoc[of "ka_seq a" "ka_checkpoint_seq a" "ka_journal a" "ka_store a" f]
    numbered_mono[of "ka_seq a" "ka_out a" "Suc (ka_seq a)"]
  by (auto simp: ordered_def keep_frame_def le_SucI)

lemma ordered_advance:
  assumes "ordered a"
  shows "ordered (a\<lparr>ka_seq := Suc (ka_seq a), ka_clock := n\<rparr>)"
  using assms journal_ok_mono[of "ka_seq a" "ka_checkpoint_seq a" "ka_journal a" "ka_store a" "Suc (ka_seq a)"]
    numbered_mono[of "ka_seq a" "ka_out a" "Suc (ka_seq a)"]
  by (auto simp: ordered_def le_SucI)

text \<open>Broadcasting a frame that carries the newest number and was not broadcast before.\<close>

lemma ordered_broadcast:
  assumes "ordered a" "fr_seq f = ka_seq a" "publishable (face a) (fr_event f)"
    "st_seq (ka_state a) < ka_seq a" "\<forall>g \<in> set (ka_out a). fr_seq g < ka_seq a"
  shows "ordered (broadcast f a)" "face (broadcast f a) = face_step (fr_event f) (face a)"
    "core (broadcast f a) = core a"
proof -
  have "numbered (ka_seq a) (ka_out a @ [f])"
    using assms by (auto simp: numbered_def ordered_def sorted_wrt_append)
  moreover have "st_seq (fst (state_apply (ka_state a) f)) = ka_seq a"
    using assms publishable_not_lagged state_apply_seq by simp
  moreover have "\<exists>t. turn_walk t (map fr_event (ka_out a) @ [fr_event f]) = Some (fst (state_face (fst (state_apply (ka_state a) f))))"
    using walk_step[OF assms(1) assms(3)] assms(2,4) by simp
  ultimately show "ordered (broadcast f a)"
    using assms by (auto simp: ordered_def broadcast_def)
  show "face (broadcast f a) = face_step (fr_event f) (face a)"
    using assms publishable_not_lagged state_apply_face[of f "ka_state a"] by (simp add: broadcast_def)
  show "core (broadcast f a) = core a"
    by (simp add: broadcast_def core_def)
qed

text \<open>
  The rule of publishing: the journal stays in order, the face takes the step of
  the event, nothing else of the actor moves, and the frame is the last on the wire.
\<close>

lemma good_publish:
  assumes "ordered a" "publishable (face a) ev" "\<And>b. crashed b \<Longrightarrow> E b"
    and "\<And>b f. ordered b \<Longrightarrow> face b = face_step ev (face a) \<Longrightarrow> core b = core a \<Longrightarrow>
      ka_out b = ka_out a @ [f] \<Longrightarrow> fr_event f = ev \<Longrightarrow> fr_cause f = cause \<Longrightarrow>
      fr_seq f = Suc (ka_seq a) \<Longrightarrow>
      ka_state b = fst (state_apply (ka_state a) f) \<Longrightarrow> ka_seq b = Suc (ka_seq a) \<Longrightarrow> P (ka_seq b) b"
  shows "good E P (publish w ev cause a)"
proof -
  define f where "f = \<lparr>fr_seq = Suc (ka_seq a), fr_ts = wo_now w (ka_clock a), fr_session = ka_id a,
      fr_cause = cause, fr_event = ev\<rparr>"
  define a1 where "a1 = a\<lparr>ka_seq := Suc (ka_seq a), ka_clock := Suc (ka_clock a)\<rparr>"
  define a2 where "a2 = (if is_durable ev then keep_frame f a1 else a1)"
  define a3 where "a3 = broadcast f a2"
  define a4 where "a4 = (if is_compacted ev then checkpoint_write a3 else a3)"
  have nf: "next_frame w ev cause a = (f, a1)"
    by (simp add: next_frame_eq f_def a1_def)
  have o1: "ordered a1"
    using assms(1) by (simp add: a1_def ordered_advance)
  have a2: "ordered a2" "ka_seq a2 = Suc (ka_seq a)" "ka_state a2 = ka_state a" "ka_out a2 = ka_out a"
    "core a2 = core a"
    using o1 assms(1) ordered_keep[of a ev f "Suc (ka_clock a)"]
    by (simp_all add: a2_def a1_def keep_frame_def core_def f_def)
  have "\<forall>g \<in> set (ka_out a). fr_seq g < Suc (ka_seq a)" "st_seq (ka_state a) < Suc (ka_seq a)"
    using assms(1) by (auto simp: ordered_def numbered_def less_Suc_eq_le)
  then have a3: "ordered a3" "face a3 = face_step ev (face a)" "core a3 = core a"
    using ordered_broadcast[of a2 f] a2 assms(2) by (simp_all add: a3_def f_def)
  have a3': "ka_out a3 = ka_out a @ [f]" "ka_state a3 = fst (state_apply (ka_state a) f)"
    "ka_seq a3 = Suc (ka_seq a)"
    using a2 by (simp_all add: a3_def broadcast_def)
  then have "P (ka_seq a4) a4"
    using assms(4)[of a4 f] a3 ordered_checkpoint_write[of a3] by (auto simp: a4_def f_def)
  moreover have "publish w ev cause a =
      (case (if is_durable ev then store_answer w f a1 else None) of
         Some e \<Rightarrow> (Inl e, storage_failed w e a1) | None \<Rightarrow> returns (ka_seq a4) a4)"
    by (simp add: publish_def nf a2_def a3_def a4_def Let_def split: option.split)
  ultimately show ?thesis
    using assms(3) storage_failed_crashed[OF o1]
    by (auto simp: good_def returns_def split: option.splits)
qed

lemma good_tell:
  assumes "ordered a" "publishable (face a) ev" "\<And>b. crashed b \<Longrightarrow> E b"
    and "\<And>b. ordered b \<Longrightarrow> face b = face_step ev (face a) \<Longrightarrow> core b = core a \<Longrightarrow> P () b"
  shows "good E P (tell w ev cause a)"
  unfolding tell_def
  by (rule good_and_then[OF good_publish[where P = "\<lambda>_. P ()"]]) (use assms in \<open>auto intro: good_returns\<close>)

section \<open>The mirror is true\<close>

text \<open>
  What every client is shown agrees with what the kernel holds: the turn that
  runs, the interactions that wait for an answer, the lines that wait their turn.
\<close>

definition asks_ok :: "(interaction_id \<times> pending_ask) list \<Rightarrow> interaction list \<Rightarrow> bool" where
  "asks_ok ps asks \<longleftrightarrow>
     distinct (map fst ps) \<and> (\<forall>k p. map_of ps k = Some p \<longrightarrow> in_id (pe_interaction p) = k) \<and>
     (\<forall>i. i \<in> set asks \<longleftrightarrow> (\<exists>p. map_of ps (in_id i) = Some p \<and> pe_interaction p = i))"

definition view_ok :: "actor \<Rightarrow> bool" where
  "view_ok a \<longleftrightarrow>
     map_option lt_id (st_turn (ka_state a)) = map_option rn_turn (ka_running a) \<and>
     asks_ok (ka_pending a) (st_interactions (ka_state a)) \<and>
     st_queue (ka_state a) = queue_rows (ka_queue a)"

definition live :: "actor \<Rightarrow> bool" where
  "live a \<longleftrightarrow> ordered a \<and> view_ok a"

text \<open>A segment that is over: closed, with nothing running and nothing waiting.\<close>

definition over :: "actor \<Rightarrow> bool" where
  "over a \<longleftrightarrow>
     ordered a \<and> st_closed (ka_state a) \<and> ka_running a = None \<and> qu_entries (ka_queue a) = [] \<and>
     st_turn (ka_state a) = None \<and> st_interactions (ka_state a) = []"

lemma over_crashed: "crashed a \<Longrightarrow> over a"
  by (simp add: crashed_def failed_def over_def)

definition sound :: "actor \<Rightarrow> bool" where
  "sound a \<longleftrightarrow> over a \<or> live a"

lemma sound_crashed [intro]: "crashed a \<Longrightarrow> sound a"
  by (simp add: sound_def over_crashed)

lemma live_ordered: "live a \<Longrightarrow> ordered a"
  by (simp add: live_def)

lemma view_ok_face:
  "view_ok a \<longleftrightarrow> (case face a of (t, asks, q) \<Rightarrow>
     t = map_option rn_turn (ka_running a) \<and> asks_ok (ka_pending a) asks \<and> q = queue_rows (ka_queue a))"
  by (simp add: view_ok_def state_face_def)

lemma live_core:
  "live a \<Longrightarrow> ordered b \<Longrightarrow> face b = face a \<Longrightarrow> core b = core a \<Longrightarrow> live b"
  using core_fields[of b a] by (simp add: live_def view_ok_face)

text \<open>
  What publishing an event that the mirror does not show leaves: the frames in
  order, the face as it was, and the rest of the actor too.
\<close>

definition steady :: "actor \<Rightarrow> actor \<Rightarrow> bool" where
  "steady a b \<longleftrightarrow> ordered b \<and> face b = face a \<and> core b = core a"

lemma steady_refl: "ordered a \<Longrightarrow> steady a a"
  by (simp add: steady_def)

lemma steady_trans: "steady a b \<Longrightarrow> steady b c \<Longrightarrow> steady a c"
  by (simp add: steady_def)

lemma steady_ordered: "steady a b \<Longrightarrow> ordered b"
  by (simp add: steady_def)

lemma steady_then [good_intros]:
  assumes "good crashed (\<lambda>_. steady a) r" "\<And>x b. steady a b \<Longrightarrow> good crashed (\<lambda>_. steady b) (k x b)"
  shows "good crashed (\<lambda>_. steady a) (and_then r k)"
  by (rule good_and_then[OF assms(1)]) (auto intro: good_mono[OF assms(2)] steady_trans)

lemma steady_for_each:
  assumes "ordered a" "\<And>x b. ordered b \<Longrightarrow> good crashed (\<lambda>_. steady b) (body x b)"
  shows "good crashed (\<lambda>_. steady a) (for_each body xs a)"
proof (rule good_for_each[where I = "steady a"])
  show "steady a a"
    using assms(1) by (rule steady_refl)
next
  fix x b
  assume b: "steady a b"
  show "good crashed (\<lambda>_. steady a) (body x b)"
    by (rule good_mono[OF assms(2)[OF steady_ordered[OF b]]]) (auto intro: steady_trans[OF b])
qed

lemma steady_tell [good_intros]:
  "ordered a \<Longrightarrow> face_neutral ev \<Longrightarrow> good crashed (\<lambda>_. steady a) (tell w ev cause a)"
  by (rule good_tell) (auto simp: steady_def face_neutral_publishable face_step_neutral)

lemma steady_publish [good_intros]:
  "ordered a \<Longrightarrow> face_neutral ev \<Longrightarrow> good crashed (\<lambda>_. steady a) (publish w ev cause a)"
  by (rule good_publish) (auto simp: steady_def face_neutral_publishable face_step_neutral)

lemma good_live:
  assumes "live a" "ordered a \<Longrightarrow> good crashed (\<lambda>_. steady a) r"
  shows "good crashed (\<lambda>_ b. live b \<and> core b = core a) r"
  by (rule good_mono[OF assms(2)[OF live_ordered[OF assms(1)]]])
    (use assms(1) in \<open>auto simp: steady_def intro: live_core\<close>)

lemma good_tell_neutral:
  "live a \<Longrightarrow> face_neutral ev \<Longrightarrow> good crashed (\<lambda>_ b. live b \<and> core b = core a) (tell w ev cause a)"
  by (erule good_live) (rule steady_tell)

lemma neutral_events [simp]:
  "face_neutral (EvSessionUpdated s)" "face_neutral (EvIntentAck k out)" "face_neutral (EvItemCompleted i)"
  "face_neutral (EvItemStarted i)" "face_neutral (EvItemUpdated i)" "face_neutral (EvItemDelta i' n dk t)"
  "face_neutral (EvConfigChanged c)" "face_neutral (EvExtension pl kd v)" "face_neutral (EvContextChanged cu)"
  "face_neutral (EvSignal g pl kd v)" "face_neutral (EvInvalidated rs)" "face_neutral (EvNotice lv code t)"
  "face_neutral (EvUsageCharged tu pl us)" "face_neutral (EvRewound gn tn ds fs)"
  "face_neutral (EvCompacted gn b k ks)"
  by (simp_all add: face_neutral_def)

text \<open>Steps that touch neither the journal nor what the mirror shows.\<close>

definition aside_eq :: "actor \<Rightarrow> actor \<Rightarrow> bool" where
  "aside_eq a b \<longleftrightarrow>
     ka_state b = ka_state a \<and> ka_seq b = ka_seq a \<and> ka_out b = ka_out a \<and> ka_journal b = ka_journal a \<and>
     ka_store b = ka_store a \<and> ka_checkpoint_seq b = ka_checkpoint_seq a \<and>
     (\<forall>s. TaskCheckpoint s \<in> set (ka_spawned b) \<longrightarrow> TaskCheckpoint s \<in> set (ka_spawned a)) \<and>
     map_option rn_turn (ka_running b) = map_option rn_turn (ka_running a) \<and>
     ka_pending b = ka_pending a \<and> qu_entries (ka_queue b) = qu_entries (ka_queue a)"

lemma live_aside: "live a \<Longrightarrow> aside_eq a b \<Longrightarrow> live b"
  by (auto simp: live_def ordered_def view_ok_def aside_eq_def queue_rows_def)

lemma ordered_aside: "ordered a \<Longrightarrow> aside_eq a b \<Longrightarrow> ordered b"
  by (auto simp: ordered_def aside_eq_def)

section \<open>The small publishers\<close>

lemma start_task_core [simp]: "core (start_task t a) = core a"
  by (simp add: start_task_def core_def)

lemma steady_start_task:
  "ordered a \<Longrightarrow> (\<And>s. t \<noteq> TaskCheckpoint s) \<Longrightarrow> steady a (start_task t a)"
  by (auto simp: steady_def start_task_def core_def ordered_def)

lemma live_start_task:
  "live a \<Longrightarrow> (\<And>s. t \<noteq> TaskCheckpoint s) \<Longrightarrow> live (start_task t a)"
  by (erule live_aside) (auto simp: aside_eq_def start_task_def)

lemma steady_publish_summary [good_intros]:
  "ordered a \<Longrightarrow> good crashed (\<lambda>_. steady a) (publish_summary w s a)"
  by (simp add: publish_summary_def steady_tell)

lemma steady_reject [good_intros]: "ordered a \<Longrightarrow> good crashed (\<lambda>_. steady a) (reject w k code m a)"
  by (simp add: reject_def steady_tell)

lemma steady_applied_ack [good_intros]: "ordered a \<Longrightarrow> good crashed (\<lambda>_. steady a) (applied_ack w k v a)"
  by (simp add: applied_ack_def steady_tell)

lemma steady_refresh_config [good_intros]:
  "ordered a \<Longrightarrow> good crashed (\<lambda>_. steady a) (refresh_config w a)"
  by (auto simp: refresh_config_def Let_def steady_refl intro!: good_returns steady_start_task steady_tell)

lemma steady_extend_session [good_intros]:
  "ordered a \<Longrightarrow> good crashed (\<lambda>_. steady a) (extend_session w pl kd v a)"
  by (auto simp: extend_session_def steady_refl intro!: good_returns steady_start_task steady_tell)

lemma steady_restate_context [good_intros]:
  "ordered a \<Longrightarrow> good crashed (\<lambda>_. steady a) (restate_context w sw a)"
  by (auto simp: restate_context_def steady_refl intro!: good_returns steady_tell split: option.split)

lemma steady_returns: "steady a b \<Longrightarrow> good crashed (\<lambda>_. steady b) (returns x b)"
  by (rule good_returns) (rule steady_refl[OF steady_ordered])

lemma steady_record_item [good_intros]:
  assumes "ordered a"
  shows "good crashed (\<lambda>_. steady a) (record_item w i a)"
proof -
  note refl = steady_refl[OF assms]
  have rec: "good crashed (\<lambda>_. steady a)
      (case recorded_receipt (it_body i) a of
         Some r \<Rightarrow> returns r a
       | None \<Rightarrow> and_then (publish w (EvItemCompleted i) None a) (\<lambda>_ a. returns i a))"
    by (auto split: option.split
        intro!: good_returns refl steady_then[OF steady_publish[OF assms]] steady_returns)
  have cont: "good crashed (\<lambda>_. steady b) (and_then (refresh_config w b) (\<lambda>_ a. returns x a))"
    if "steady a b" for b x
    using steady_ordered[OF that] by (blast intro: steady_then steady_refresh_config steady_returns)
  show ?thesis
    unfolding record_item_def
    by (rule steady_then[OF rec]) (use cont steady_returns in \<open>auto simp only: split: if_split\<close>)
qed

lemma good_publish_summary [good_intros]:
  "live a \<Longrightarrow> good crashed (\<lambda>_ b. live b \<and> core b = core a) (publish_summary w s a)"
  by (erule good_live) (rule steady_publish_summary)

lemma good_reject [good_intros]:
  "live a \<Longrightarrow> good crashed (\<lambda>_ b. live b \<and> core b = core a) (reject w k code m a)"
  by (erule good_live) (rule steady_reject)

lemma good_applied_ack [good_intros]:
  "live a \<Longrightarrow> good crashed (\<lambda>_ b. live b \<and> core b = core a) (applied_ack w k v a)"
  by (erule good_live) (rule steady_applied_ack)

lemma good_refresh_config [good_intros]:
  "live a \<Longrightarrow> good crashed (\<lambda>_ b. live b \<and> core b = core a) (refresh_config w a)"
  by (erule good_live) (rule steady_refresh_config)

lemma good_record_item [good_intros]:
  "live a \<Longrightarrow> good crashed (\<lambda>_ b. live b \<and> core b = core a) (record_item w i a)"
  by (erule good_live) (rule steady_record_item)

text \<open>Operations that also mint an identifier.\<close>

definition shell :: "actor \<Rightarrow> actor" where
  "shell a = (core a)\<lparr>ka_minted := 0\<rparr>"

lemma shell_core: "core b = core a \<Longrightarrow> shell b = shell a"
  by (simp add: shell_def)

lemma shell_sel [simp]:
  "ka_running (shell a) = ka_running a" "ka_pending (shell a) = ka_pending a" "ka_queue (shell a) = ka_queue a"
  "ka_commands (shell a) = ka_commands a" "ka_gate (shell a) = ka_gate a" "ka_closing (shell a) = ka_closing a"
  "ka_config (shell a) = ka_config a" "ka_cancelled (shell a) = ka_cancelled a"
  "ka_replies (shell a) = ka_replies a" "ka_rx_closed (shell a) = ka_rx_closed a" "ka_id (shell a) = ka_id a"
  "ka_ended (shell a) = ka_ended a"
  by (simp_all add: shell_def core_def)

lemma shell_fields:
  assumes "shell b = shell a"
  shows "ka_running b = ka_running a" "ka_pending b = ka_pending a" "ka_queue b = ka_queue a"
    "ka_commands b = ka_commands a" "ka_gate b = ka_gate a" "ka_closing b = ka_closing a"
    "ka_config b = ka_config a" "ka_cancelled b = ka_cancelled a" "ka_replies b = ka_replies a"
  by (metis assms shell_sel)+

definition still :: "actor \<Rightarrow> actor \<Rightarrow> bool" where
  "still a b \<longleftrightarrow> ordered b \<and> face b = face a \<and> shell b = shell a"

lemma still_steady: "steady a b \<Longrightarrow> still a b"
  unfolding steady_def still_def by (blast intro: shell_core)

lemma still_refl: "ordered a \<Longrightarrow> still a a"
  by (simp add: still_def)

lemma still_trans: "still a b \<Longrightarrow> still b c \<Longrightarrow> still a c"
  by (simp add: still_def)

lemma still_ordered: "still a b \<Longrightarrow> ordered b"
  by (simp add: still_def)

lemma live_still: "live a \<Longrightarrow> still a b \<Longrightarrow> live b"
  using shell_fields(1-3)[of b a] by (auto simp: still_def live_def view_ok_face)

lemma good_still: "good crashed (\<lambda>_. steady a) r \<Longrightarrow> good crashed (\<lambda>_. still a) r"
  by (erule good_mono) (auto intro: still_steady)

lemma still_then:
  assumes "good crashed (\<lambda>_. still a) r" "\<And>x b. still a b \<Longrightarrow> good crashed (\<lambda>_. still b) (k x b)"
  shows "good crashed (\<lambda>_. still a) (and_then r k)"
  by (rule good_and_then[OF assms(1)]) (auto intro: good_mono[OF assms(2)] still_trans)

lemma still_for_each:
  assumes "ordered a" "\<And>x b. ordered b \<Longrightarrow> good crashed (\<lambda>_. still b) (body x b)"
  shows "good crashed (\<lambda>_. still a) (for_each body xs a)"
proof (rule good_for_each[where I = "still a"])
  show "still a a"
    using assms(1) by (rule still_refl)
next
  fix x b
  assume b: "still a b"
  show "good crashed (\<lambda>_. still a) (body x b)"
    by (rule good_mono[OF assms(2)[OF still_ordered[OF b]]]) (auto intro: still_trans[OF b])
qed

lemma still_now: "ordered a \<Longrightarrow> now w a = (at, b) \<Longrightarrow> still a b"
  by (auto simp: now_def still_def shell_def core_def elim!: ordered_cong)

lemma still_mint: "ordered a \<Longrightarrow> mint w pre a = (k, b) \<Longrightarrow> still a b"
  by (auto simp: mint_def still_def shell_def core_def elim!: ordered_cong)

lemma still_fresh_item: "ordered a \<Longrightarrow> fresh_item w t k body a = (i, b) \<Longrightarrow> still a b"
  by (auto simp: fresh_item_def now_def mint_def still_def shell_def core_def Let_def elim!: ordered_cong)

lemma still_returns: "still a b \<Longrightarrow> good crashed (\<lambda>_. still b) (returns x b)"
  by (rule good_returns) (rule still_refl[OF still_ordered])

lemma still_from:
  "still a b \<Longrightarrow> good crashed (\<lambda>_. still b) r \<Longrightarrow> good crashed (\<lambda>_. still a) r"
  by (erule good_mono) (auto intro: still_trans)

lemma still_record_for [good_intros]:
  assumes "ordered a"
  shows "good crashed (\<lambda>_. still a) (record_for w k body a)"
proof -
  obtain i b where ib: "fresh_item w (map_option rn_turn (ka_running a)) k body a = (i, b)"
    by fastforce
  then have b: "still a b"
    using assms still_fresh_item by blast
  then have "good crashed (\<lambda>_. still b) (and_then (record_item w i b) (\<lambda>i a. returns (it_id i) a))"
    by (blast intro: still_then good_still steady_record_item still_ordered still_returns)
  then show ?thesis
    using still_from[OF b] by (simp add: record_for_def ib)
qed

lemma still_record_body [good_intros]: "ordered a \<Longrightarrow> good crashed (\<lambda>_. still a) (record_body w body a)"
  by (simp add: record_body_def still_record_for)

end
