(* ===== verification/Core_Interactions.thy ===== *)
theory Core_Interactions
  imports Core_Publish
begin

text \<open>
  Interactions (\<open>bingo-core/src/session/interactions.rs\<close> and
  \<open>interactions/receipt.rs\<close>): the actor opens one whenever something needs a
  person, holds the reply until an answer arrives, and cancels the rest.  Shown
  here: an answer is only taken where the interaction allows it, a plugin never
  answers a permission, a keystroke that was already under way does not approve,
  and a credential reaches nobody but the one who asked.
\<close>

section \<open>Opening\<close>

definition INTERACTION_GUARD_MS :: int where
  "INTERACTION_GUARD_MS = 400"

definition open_interaction ::
  "world \<Rightarrow> item_id option \<Rightarrow> interaction_kind \<Rightarrow> answer_spec list \<Rightarrow> actor \<Rightarrow> unit result" where
  "open_interaction w item kind specs a =
     (let turn = map_option rn_turn (ka_running a);
          by_command = commands_busy (ka_commands a);
          (at, a1) = now w a;
          (k, a2) = mint w ''int'' a1;
          i = \<lparr>in_id = k, in_session = ka_id a2, in_turn = turn, in_item = item, in_opened_at = at,
               in_guard_until = wo_checked_add w at (INTERACTION_GUARD_MS * 1000000),
               in_expires_at = None, in_kind = kind, in_answers = specs\<rparr>;
          a3 = a2\<lparr>ka_pending := AList.update k \<lparr>pe_interaction = i, pe_by_command = by_command\<rparr>
                 (ka_pending a2)\<rparr>
      in and_then (publish w (EvInteractionOpened i) None a3) (\<lambda>_ a.
           publish_summary w (st_summary (ka_state a)) a))"

section \<open>Answering\<close>

record answered =
  an_intent :: intent_id
  an_interaction :: interaction_id
  an_answer :: answer
  an_activation :: activation
  an_name :: string
  an_surface :: string
  an_plugin :: bool

fun answer_spec_debug :: "answer_spec \<Rightarrow> string" where
  "answer_spec_debug SpAllowChanged = ''AllowChanged''"
| "answer_spec_debug SpAllowOnce = ''AllowOnce''"
| "answer_spec_debug SpAllowSession = ''AllowSession''"
| "answer_spec_debug SpDeny = ''Deny''"
| "answer_spec_debug SpChoice = ''Choice''"
| "answer_spec_debug SpText = ''Text''"
| "answer_spec_debug SpConfirm = ''Confirm''"
| "answer_spec_debug SpCancel = ''Cancel''"
| "answer_spec_debug SpForm = ''Form''"

definition is_permission :: "interaction_kind \<Rightarrow> bool" where
  "is_permission k = (case k of KPermission _ _ _ _ _ _ \<Rightarrow> True | _ \<Rightarrow> False)"

definition declines :: "answer \<Rightarrow> bool" where
  "declines an = (case an of AnDeny _ \<Rightarrow> True | AnCancel \<Rightarrow> True | _ \<Rightarrow> False)"

text \<open>Why an answer cannot be taken, if it cannot; the clock is read last, and only where it counts.\<close>

definition refuse_answer ::
  "world \<Rightarrow> interaction_id \<Rightarrow> answer \<Rightarrow> activation \<Rightarrow> bool \<Rightarrow> actor \<Rightarrow>
   (error_code \<times> string) option \<times> actor" where
  "refuse_answer w k an act plugin a =
     (case map_of (ka_pending a) k of
        None \<Rightarrow> (Some (ErrInteractionClosed, ''no such open interaction''), a)
      | Some p \<Rightarrow>
          if plugin \<and> is_permission (in_kind (pe_interaction p))
          then (Some (ErrPermissionDenied, ''plugins cannot answer permission interactions''), a)
          else if answer_spec_of an \<notin> set (in_answers (pe_interaction p))
          then (Some (ErrInvalidInput,
                 answer_spec_debug (answer_spec_of an) @ '' is not an accepted answer here''), a)
          else if act = Keyboard \<and> \<not> declines an
          then (case in_guard_until (pe_interaction p) of
                  None \<Rightarrow> (None, a)
                | Some guard \<Rightarrow>
                    (case now w a of (at, a1) \<Rightarrow>
                       (if at < guard then Some (ErrNotReady, ''answered too soon after opening'')
                        else None, a1)))
          else (None, a))"

definition REDACTED :: string where
  "REDACTED = ''[redacted]''"

text \<open>\<open>recorded_answer\<close>: login text is a credential.\<close>

definition recorded_answer :: "interaction_kind \<Rightarrow> answer \<Rightarrow> answer" where
  "recorded_answer kind an =
     (case (kind, an) of (KLogin _ _, AnText _) \<Rightarrow> AnText REDACTED | _ \<Rightarrow> an)"

definition skipped_words :: string where
  "skipped_words = ''skipped '' @ [CHR 0xB7] @ '' it decides''"

definition answer_words :: "question \<Rightarrow> answer \<Rightarrow> string" where
  "answer_words q an =
     (case an of
        AnText t \<Rightarrow> t
      | AnChoice ids other \<Rightarrow>
          join_with '', ''
            (List.map_filter (\<lambda>k. map_option qo_label (find (\<lambda>opt. qo_id opt = k) (qu_options q))) ids
             @ option_list other)
      | AnCancel \<Rightarrow> skipped_words
      | _ \<Rightarrow> ''skipped'')"

definition receipt_answered :: "interaction \<Rightarrow> answer \<Rightarrow> bool \<Rightarrow> item_body option" where
  "receipt_answered i an kept =
     (case in_kind i of
        KPermission tool _ _ _ _ _ \<Rightarrow>
          (case an of
             AnDeny feedback \<Rightarrow>
               Some (BPermissionReceipt (if kept then None else Some (in_opened_at i)) (in_item i)
                       (in_id i) tool DkDeny feedback)
           | _ \<Rightarrow> None)
      | KQuestion q \<Rightarrow>
          Some (BQuestionAnswer (Some (in_opened_at i)) (in_item i) (in_id i) (qu_question q)
                  (answer_words q an))
      | KForm title qs \<Rightarrow>
          Some (BQuestionAnswer (Some (in_opened_at i)) (in_item i) (in_id i)
                  (unwrap_or title ''Form'')
                  (case an of
                     AnForm ans \<Rightarrow>
                       join_with ''; '' (map (\<lambda>(q, x). unwrap_or (qu_header q) (qu_question q) @ '': ''
                         @ answer_words q x) (zip qs ans))
                   | AnCancel \<Rightarrow> skipped_words
                   | _ \<Rightarrow> ''declined''))
      | _ \<Rightarrow> None)"

definition answer_receipt :: "world \<Rightarrow> interaction \<Rightarrow> answer \<Rightarrow> actor \<Rightarrow> item option \<times> actor" where
  "answer_receipt w i an a =
     (case receipt_answered i an (held a i) of
        None \<Rightarrow> (None, a)
      | Some body \<Rightarrow> (case fresh_item w (in_turn i) None body a of (it, a1) \<Rightarrow> (Some it, a1)))"

definition answer_ask :: "world \<Rightarrow> answered \<Rightarrow> actor \<Rightarrow> unit result" where
  "answer_ask w m a =
     (case refuse_answer w (an_interaction m) (an_answer m) (an_activation m) (an_plugin m) a of
        (Some (code, message), a1) \<Rightarrow> reject w (an_intent m) code message a1
      | (None, a1) \<Rightarrow>
          (case map_of (ka_pending a1) (an_interaction m) of
             None \<Rightarrow> returns () a1
           | Some p \<Rightarrow>
               (let i = pe_interaction p;
                    a2 = a1\<lparr>ka_pending := AList.delete (an_interaction m) (ka_pending a1)\<rparr>;
                    rec = recorded_answer (in_kind i) (an_answer m);
                    (receipt, a3) = answer_receipt w i rec a2;
                    a4 = reply_to (an_interaction m)
                      (Inr \<lparr>gn_ask = \<lparr>ga_id = in_id i, ga_opened_at = in_opened_at i, ga_held = held a3 i\<rparr>,
                            gn_answer = an_answer m\<rparr>) a3
                in and_then (publish w (EvInteractionResolved (an_interaction m) rec
                        (if an_plugin m then ByPlugin (an_name m) (an_surface m)
                         else ByClient (an_name m) (an_surface m))) (Some (an_intent m)) a4) (\<lambda>_ a.
                   and_then (case receipt of
                        Some it \<Rightarrow> and_then (record_item w it a) (\<lambda>_ a. returns () a)
                      | None \<Rightarrow> returns () a) (\<lambda>_ a.
                   and_then (applied_ack w (an_intent m) JNull a) (\<lambda>_ a.
                   publish_summary w (st_summary (ka_state a)) a))))))"

section \<open>Cancelling\<close>

fun cancel_reason_debug :: "cancel_reason \<Rightarrow> string" where
  "cancel_reason_debug CrTurnEnded = ''TurnEnded''"
| "cancel_reason_debug CrCommandEnded = ''CommandEnded''"
| "cancel_reason_debug CrInterrupted = ''Interrupted''"
| "cancel_reason_debug CrSessionClosed = ''SessionClosed''"
| "cancel_reason_debug CrExpired = ''Expired''"
| "cancel_reason_debug CrSuperseded = ''Superseded''"

definition cancel_one :: "world \<Rightarrow> cancel_reason \<Rightarrow> interaction_id \<Rightarrow> actor \<Rightarrow> unit result" where
  "cancel_one w why k a =
     tell w (EvInteractionCancelled k why) None
       (reply_to k (Inl (kernel_error_new ErrInteractionClosed (''cancelled: '' @ cancel_reason_debug why))) a)"

definition cancel_each ::
  "world \<Rightarrow> (interaction_id \<times> pending_ask) list \<Rightarrow> cancel_reason \<Rightarrow> actor \<Rightarrow> unit result" where
  "cancel_each w ps why a =
     and_then (for_each (\<lambda>(k, _). cancel_one w why k) ps a) (\<lambda>_ a.
       if ps \<noteq> [] then publish_summary w (st_summary (ka_state a)) a else returns () a)"

definition cancel_interactions :: "world \<Rightarrow> cancel_reason \<Rightarrow> actor \<Rightarrow> unit result" where
  "cancel_interactions w why a = (case drain_pending w a of (ps, a1) \<Rightarrow> cancel_each w ps why a1)"

definition cancel_command_interactions :: "world \<Rightarrow> actor \<Rightarrow> unit result" where
  "cancel_command_interactions w a =
     (let ps = filter (\<lambda>(_, p). pe_by_command p) (wo_order w (ka_pending a));
          a1 = a\<lparr>ka_pending := filter (\<lambda>(_, p). \<not> pe_by_command p) (ka_pending a)\<rparr>
      in cancel_each w ps CrCommandEnded a1)"

section \<open>Receipts\<close>

text \<open>
  \<open>Actor::receipt\<close>: the second component is what the asker is told; a store error
  stops the actor and tells nobody.
\<close>

definition receipt_of_turn :: "world \<Rightarrow> item \<Rightarrow> actor \<Rightarrow> (kernel_error + item) result" where
  "receipt_of_turn w i a =
     (if (case it_turn i of None \<Rightarrow> True | Some t \<Rightarrow> \<not> is_running t a)
      then returns (Inl (kernel_error_new ErrInterrupted (''the receipt'' @ [CHR 0x27] @ ''s turn has ended''))) a
      else (case record_item w i a of
          (Inl e, a1) \<Rightarrow> if ke_code e \<noteq> ErrInterrupted then (Inl e, a1) else returns (Inl e) a1
        | (Inr it, a1) \<Rightarrow> returns (Inr it) a1))"

section \<open>Opening, answering and cancelling keep the mirror true\<close>

text \<open>A world whose hash maps hand out each entry once.\<close>

definition fair_order :: "world \<Rightarrow> bool" where
  "fair_order w \<longleftrightarrow> (\<forall>ps. mset (wo_order w ps) = mset ps)"

lemma fair_order_set: "fair_order w \<Longrightarrow> set (wo_order w ps) = set ps"
  by (metis fair_order_def set_mset_mset)

lemma asks_ok_insert:
  assumes "asks_ok ps asks" "in_id i = k"
  shows "asks_ok (AList.update k \<lparr>pe_interaction = i, pe_by_command = b\<rparr> ps)
           (interactions_step asks (EvInteractionOpened i))"
proof -
  let ?p = "\<lparr>pe_interaction = i, pe_by_command = b\<rparr>"
  have keys: "map_of ps k' = Some p \<Longrightarrow> in_id (pe_interaction p) = k'" for k' p
    using assms(1) unfolding asks_ok_def by blast
  have mem: "j \<in> set asks \<longleftrightarrow> (\<exists>p. map_of ps (in_id j) = Some p \<and> pe_interaction p = j)" for j
    using assms(1) unfolding asks_ok_def by blast
  have "distinct (map fst (AList.update k ?p ps))"
    using assms(1) unfolding asks_ok_def by (blast intro: distinct_update)
  moreover have "in_id (pe_interaction p) = k'" if "map_of (AList.update k ?p ps) k' = Some p" for k' p
    using that keys[of k' p] assms(2) by (cases "k' = k") (auto simp: update_conv')
  moreover have "j \<in> set (interactions_step asks (EvInteractionOpened i)) \<longleftrightarrow>
      (\<exists>p. map_of (AList.update k ?p ps) (in_id j) = Some p \<and> pe_interaction p = j)" for j
    using mem[of j] assms(2) by (cases "in_id j = k") (auto simp: update_conv' interactions_step_def)
  ultimately show ?thesis
    unfolding asks_ok_def by blast
qed

lemma asks_ok_remove:
  assumes "asks_ok ps asks" "map_of ps' = (\<lambda>k. if k \<in> K then None else map_of ps k)"
    "distinct (map fst ps')"
  shows "asks_ok ps' (filter (\<lambda>i. in_id i \<notin> K) asks)"
  using assms by (auto simp: asks_ok_def)

lemma asks_ok_delete:
  assumes "asks_ok ps asks"
  shows "asks_ok (AList.delete k ps) (filter (\<lambda>i. in_id i \<noteq> k) asks)"
proof -
  have "map_of (AList.delete k ps) = (\<lambda>k'. if k' \<in> {k} then None else map_of ps k')"
    by (auto simp: delete_conv')
  moreover have "distinct (map fst (AList.delete k ps))"
    using assms by (simp add: asks_ok_def AList.delete_eq distinct_map_filter)
  ultimately show ?thesis
    using asks_ok_remove[OF assms, of "AList.delete k ps" "{k}"] by simp
qed

lemma good_open_interaction:
  assumes "live a"
  shows "good crashed (\<lambda>_. live) (open_interaction w item kind specs a)"
proof -
  define at where "at = wo_now w (ka_clock a)"
  define k where "k = ''int'' @ ''_'' @ wo_mint w (ka_minted a)"
  define i where "i = \<lparr>in_id = k, in_session = ka_id a, in_turn = map_option rn_turn (ka_running a),
    in_item = item, in_opened_at = at, in_guard_until = wo_checked_add w at (INTERACTION_GUARD_MS * 1000000),
    in_expires_at = None, in_kind = kind, in_answers = specs\<rparr>"
  define ps where "ps = AList.update k \<lparr>pe_interaction = i, pe_by_command = commands_busy (ka_commands a)\<rparr>
    (ka_pending a)"
  define a3 where "a3 = a\<lparr>ka_clock := Suc (ka_clock a), ka_minted := Suc (ka_minted a), ka_pending := ps\<rparr>"
  have "open_interaction w item kind specs a =
      and_then (publish w (EvInteractionOpened i) None a3) (\<lambda>_ a. publish_summary w (st_summary (ka_state a)) a)"
    by (simp add: open_interaction_def now_def mint_def Let_def a3_def ps_def i_def k_def at_def)
  moreover have "ordered a3"
    using assms by (auto simp: live_def a3_def elim!: ordered_cong)
  then have "good crashed (\<lambda>_. live) (publish w (EvInteractionOpened i) None a3)"
  proof (rule good_publish)
    fix b
    assume b: "ordered b" "face b = face_step (EvInteractionOpened i) (face a3)" "core b = core a3"
    have "asks_ok ps (interactions_step (st_interactions (ka_state a)) (EvInteractionOpened i))"
      unfolding ps_def using assms by (intro asks_ok_insert) (auto simp: live_def view_ok_def i_def)
    then show "live b"
      using b assms core_fields[OF b(3)]
      by (auto simp: live_def view_ok_def state_face_def face_step_def turn_step_def queue_step_def a3_def)
  qed (auto simp: is_lagged_def)
  ultimately show ?thesis
    by (auto intro!: good_and_then good_mono[OF good_publish_summary])
qed

lemma live_refuse:
  "live a \<Longrightarrow> refuse_answer w k an act pl a = (r, b) \<Longrightarrow>
     live b \<and> ka_pending b = ka_pending a \<and> ka_state b = ka_state a"
  using live_aside[of a b]
  by (auto simp: refuse_answer_def now_def aside_eq_def split: option.splits if_splits)

lemma answer_receipt_aside:
  "answer_receipt w i an a = (r, b) \<Longrightarrow> aside_eq a b"
  by (auto simp: answer_receipt_def fresh_item_def now_def mint_def aside_eq_def Let_def
      split: option.splits prod.splits)

lemma good_answer_ask:
  assumes "live a"
  shows "good crashed (\<lambda>_. live) (answer_ask w m a)"
proof -
  obtain r a1 where r: "refuse_answer w (an_interaction m) (an_answer m) (an_activation m) (an_plugin m) a = (r, a1)"
    by fastforce
  have a1: "live a1"
    using live_refuse[OF assms r] by simp
  show ?thesis
  proof (cases "r = None \<and> map_of (ka_pending a1) (an_interaction m) \<noteq> None")
    case False
    then show ?thesis
      using r a1 by (auto simp: answer_ask_def split: option.splits prod.splits
          intro!: good_returns good_mono[OF good_reject])
  next
    case True
    then obtain p where p: "map_of (ka_pending a1) (an_interaction m) = Some p" "r = None"
      by auto
    let ?k = "an_interaction m" and ?i = "pe_interaction p"
    let ?rec = "recorded_answer (in_kind ?i) (an_answer m)"
    define a2 where "a2 = a1\<lparr>ka_pending := AList.delete ?k (ka_pending a1)\<rparr>"
    obtain rc a3 where rc: "answer_receipt w ?i ?rec a2 = (rc, a3)"
      by fastforce
    define a4 where "a4 = reply_to ?k (Inr \<lparr>gn_ask = \<lparr>ga_id = in_id ?i, ga_opened_at = in_opened_at ?i,
      ga_held = held a3 ?i\<rparr>, gn_answer = an_answer m\<rparr>) a3"
    have "aside_eq a2 a4"
      using answer_receipt_aside[OF rc] by (simp add: a4_def reply_to_def aside_eq_def)
    moreover have "ordered a2"
      using a1 by (auto simp: live_def a2_def elim!: ordered_cong)
    ultimately have a4: "ordered a4" "face a4 = face a1" "ka_pending a4 = AList.delete ?k (ka_pending a1)"
      "map_option rn_turn (ka_running a4) = map_option rn_turn (ka_running a1)"
      "qu_entries (ka_queue a4) = qu_entries (ka_queue a1)"
      using ordered_aside[of a2 a4] by (auto simp: aside_eq_def a2_def)
    have pub: "good crashed (\<lambda>_. live) (publish w (EvInteractionResolved ?k ?rec by) c a4)" for c "by"
    proof (rule good_publish)
      fix b
      assume b: "ordered b" "face b = face_step (EvInteractionResolved ?k ?rec by) (face a4)" "core b = core a4"
      have "asks_ok (ka_pending a4) (filter (\<lambda>i. in_id i \<noteq> ?k) (st_interactions (ka_state a1)))"
        using a1 a4(3) asks_ok_delete by (auto simp: live_def view_ok_def)
      then show "live b"
        using b a1 a4 core_fields[OF b(3)]
        by (auto simp: live_def view_ok_def state_face_def face_step_def turn_step_def queue_step_def
            interactions_step_def queue_rows_def)
    qed (use a4 in \<open>auto simp: is_lagged_def\<close>)
    have rest: "good crashed (\<lambda>_. live)
        (and_then (case rc of Some it \<Rightarrow> and_then (record_item w it b) (\<lambda>_ a. returns () a)
                   | None \<Rightarrow> returns () b) (\<lambda>_ a.
         and_then (applied_ack w (an_intent m) JNull a) (\<lambda>_ a.
         publish_summary w (st_summary (ka_state a)) a)))" if "live b" for b
      by (rule good_and_then[where Q = "\<lambda>_. live"])
        (use that in \<open>auto split: option.split intro!: good_returns
          good_and_then[OF good_mono[OF good_record_item], where Q = "\<lambda>_. live"]
          good_and_then[OF good_mono[OF good_applied_ack], where Q = "\<lambda>_. live"]
          good_mono[OF good_publish_summary]\<close>)
    show ?thesis
      using p r rc by (auto simp: answer_ask_def Let_def a2_def[symmetric] a4_def[symmetric]
          intro!: good_and_then[OF pub] rest)
  qed
qed

text \<open>What is left alone by operations on interactions.\<close>

definition inner :: "actor \<Rightarrow> actor" where
  "inner a = (core a)\<lparr>ka_pending := [], ka_replies := []\<rparr>"

lemma inner_core: "core b = core a \<Longrightarrow> inner b = inner a"
  by (simp add: inner_def)

lemma inner_fields:
  assumes "inner b = inner a"
  shows "ka_running b = ka_running a" "ka_queue b = ka_queue a" "ka_commands b = ka_commands a"
    "ka_gate b = ka_gate a" "ka_closing b = ka_closing a" "ka_config b = ka_config a"
    "ka_rx_closed b = ka_rx_closed a" "ka_cancelled b = ka_cancelled a" "ka_id b = ka_id a"
  using arg_cong[OF assms, of ka_running] arg_cong[OF assms, of ka_queue]
    arg_cong[OF assms, of ka_commands] arg_cong[OF assms, of ka_gate]
    arg_cong[OF assms, of ka_closing] arg_cong[OF assms, of ka_config]
    arg_cong[OF assms, of ka_rx_closed] arg_cong[OF assms, of ka_cancelled]
    arg_cong[OF assms, of ka_id]
  by (simp_all add: inner_def core_def)

text \<open>The mirror while the asks \<open>ps\<close> are out of the table but not yet cancelled.\<close>

definition cancelling :: "(interaction_id \<times> pending_ask) list \<Rightarrow> actor \<Rightarrow> bool" where
  "cancelling ps a \<longleftrightarrow>
     ordered a \<and> (case face a of (t, asks, q) \<Rightarrow>
       t = map_option rn_turn (ka_running a) \<and> asks_ok (ka_pending a @ ps) asks \<and>
       q = queue_rows (ka_queue a))"

lemma cancelling_Nil: "cancelling [] a \<longleftrightarrow> live a"
  by (simp add: cancelling_def live_def view_ok_face)

lemma asks_ok_perm:
  assumes "asks_ok ps asks" "mset ps' = mset ps"
  shows "asks_ok ps' asks"
proof -
  have d: "distinct (map fst ps)"
    using assms(1) unfolding asks_ok_def by blast
  then have d': "distinct (map fst ps')"
    using assms(2) mset_eq_imp_distinct_iff[of "map fst ps'" "map fst ps"] by (simp add: mset_map)
  have "map_of ps' = map_of ps"
    using d d' assms(2) by (intro map_of_inject_set[THEN iffD2]) (auto dest: mset_eq_setD)
  then show ?thesis
    using assms(1) d' by (simp add: asks_ok_def)
qed

lemma asks_ok_drop:
  assumes "asks_ok (qs @ (k, p) # ps) asks"
  shows "asks_ok (qs @ ps) (filter (\<lambda>i. in_id i \<noteq> k) asks)"
proof -
  have d: "distinct (map fst (qs @ (k, p) # ps))"
    using assms unfolding asks_ok_def by blast
  then have "map_of qs k = None" "map_of ps k = None"
    by (auto simp: map_of_eq_None_iff)
  then have "map_of (qs @ ps) = (\<lambda>k'. if k' \<in> {k} then None else map_of (qs @ (k, p) # ps) k')"
    by (auto simp: fun_eq_iff map_add_def split: option.splits)
  then show ?thesis
    using asks_ok_remove[OF assms, of "qs @ ps" "{k}"] d by simp
qed

lemma good_cancel_one:
  assumes "cancelling ((k, p) # ps) a"
  shows "good crashed (\<lambda>_ b. cancelling ps b \<and> inner b = inner a) (cancel_one w why k a)"
proof -
  define a1 where "a1 = reply_to k (Inl (kernel_error_new ErrInteractionClosed
    (''cancelled: '' @ cancel_reason_debug why))) a"
  have a1: "ordered a1" "face a1 = face a" "inner a1 = inner a" "ka_pending a1 = ka_pending a"
    using assms by (auto simp: a1_def reply_to_def cancelling_def inner_def core_def elim!: ordered_cong)
  show ?thesis
    unfolding cancel_one_def a1_def[symmetric]
  proof (rule good_tell)
    fix b
    assume b: "ordered b" "face b = face_step (EvInteractionCancelled k why) (face a1)" "core b = core a1"
    have "asks_ok (ka_pending a @ ps) (filter (\<lambda>i. in_id i \<noteq> k) (st_interactions (ka_state a)))"
      using assms asks_ok_drop by (auto simp: cancelling_def state_face_def)
    then show "cancelling ps b \<and> inner b = inner a"
      using assms a1 b inner_core[OF b(3)] core_fields[OF b(3)] inner_fields[OF a1(3)]
      by (simp add: cancelling_def state_face_def face_step_def turn_step_def queue_step_def
          interactions_step_def)
  qed (use a1 in \<open>auto simp: is_lagged_def\<close>)
qed

lemma good_cancel_loop:
  "cancelling ps a \<Longrightarrow>
     good crashed (\<lambda>_ b. live b \<and> inner b = inner a) (for_each (\<lambda>(k, _). cancel_one w why k) ps a)"
proof (induction ps arbitrary: a)
  case Nil
  then show ?case
    by (auto simp: cancelling_Nil intro: good_returns)
next
  case (Cons x ps)
  obtain k p where x: "x = (k, p)"
    by fastforce
  show ?case
    using good_cancel_one[of k p ps a w why] Cons.prems unfolding x
    by (auto intro!: good_and_then[OF good_cancel_one[OF Cons.prems[unfolded x]]] good_mono[OF Cons.IH])
qed

lemma good_cancel_each:
  assumes "cancelling ps a"
  shows "good crashed (\<lambda>_ b. live b \<and> inner b = inner a) (cancel_each w ps why a)"
  unfolding cancel_each_def
  by (rule good_and_then[OF good_cancel_loop[OF assms]])
    (auto intro: good_returns intro!: good_mono[OF good_publish_summary] dest: inner_core)

lemma good_cancel_interactions:
  assumes "live a" "fair_order w"
  shows "good crashed (\<lambda>_ b. live b \<and> inner b = inner a) (cancel_interactions w why a)"
proof -
  have "cancelling (wo_order w (ka_pending a)) (a\<lparr>ka_pending := []\<rparr>)"
    using assms asks_ok_perm[of "ka_pending a" _ "wo_order w (ka_pending a)"]
    by (auto simp: live_def view_ok_face cancelling_def fair_order_def elim!: ordered_cong split: prod.splits)
  from good_cancel_each[OF this, of w why] show ?thesis
    by (simp add: cancel_interactions_def drain_pending_def inner_def core_def)
qed

lemma good_cancel_command_interactions:
  assumes "live a" "fair_order w"
  shows "good crashed (\<lambda>_ b. live b \<and> inner b = inner a) (cancel_command_interactions w a)"
proof -
  let ?P = "\<lambda>(_, p). pe_by_command p"
  let ?ps = "filter ?P (wo_order w (ka_pending a))" and ?qs = "filter (\<lambda>(_, p). \<not> pe_by_command p) (ka_pending a)"
  have "mset ?ps = mset (filter ?P (ka_pending a))"
    using assms(2) by (simp add: fair_order_def)
  then have "mset (?qs @ ?ps) = mset (ka_pending a)"
    using multiset_partition[of "mset (ka_pending a)" ?P] by (simp add: case_prod_unfold add.commute)
  then have "cancelling ?ps (a\<lparr>ka_pending := ?qs\<rparr>)"
    using assms asks_ok_perm[of "ka_pending a" _ "?qs @ ?ps"]
    by (auto simp: live_def view_ok_face cancelling_def elim!: ordered_cong split: prod.splits)
  from good_cancel_each[OF this, of w CrCommandEnded] show ?thesis
    by (simp add: cancel_command_interactions_def Let_def inner_def core_def)
qed

section \<open>Who gets an answer\<close>

text \<open>The answers that went out on the private reply channels.\<close>

fun granted_of :: "(interaction_id \<times> (kernel_error + gate_answered)) list \<Rightarrow> (interaction_id \<times> gate_answered) list" where
  "granted_of [] = []"
| "granted_of ((k, Inr g) # rs) = (k, g) # granted_of rs"
| "granted_of ((k, Inl e) # rs) = granted_of rs"

abbreviation granted :: "actor \<Rightarrow> (interaction_id \<times> gate_answered) list" where
  "granted a \<equiv> granted_of (ka_replies a)"

lemma granted_of_append [simp]: "granted_of (rs @ ss) = granted_of rs @ granted_of ss"
  by (induction rs rule: granted_of.induct) auto

lemma granted_of_mem: "(k, g) \<in> set (granted_of rs) \<longleftrightarrow> (k, Inr g) \<in> set rs"
  by (induction rs rule: granted_of.induct) auto

lemma granted_and_then:
  "granted (snd r) = G \<Longrightarrow> (\<And>x a. granted a = G \<Longrightarrow> granted (snd (k x a)) = G) \<Longrightarrow>
     granted (snd (and_then r k)) = G"
  by (cases r; cases "fst r") (auto simp: and_then_def)

lemma terminal_replies [simp]: "ka_replies (terminal_event w ev c a) = ka_replies a"
  by (simp add: terminal_event_def next_frame_eq broadcast_def)

lemma foldl_terminal_replies:
  "ka_replies (foldl (\<lambda>a (intent, _). terminal_event w (ev intent) (Some intent) a) b xs) = ka_replies b"
  by (induction xs arbitrary: b) (auto split: prod.splits)

lemma foldl_reply_granted: "granted (foldl (\<lambda>a (k, _). reply_to k (Inl e) a) b xs) = granted b"
  by (induction xs arbitrary: b) (auto simp: reply_to_def split: prod.splits)

lemma storage_failed_granted [simp]: "granted (storage_failed w e a) = granted a"
  by (simp add: storage_failed_def drain_all_def drain_pending_def Let_def
      foldl_terminal_replies foldl_reply_granted)

lemma checkpoint_write_replies [simp]: "ka_replies (checkpoint_write a) = ka_replies a"
  by (simp add: checkpoint_write_def start_task_def)

lemma publish_granted [simp]: "granted (snd (publish w ev c a)) = granted a"
  by (simp add: publish_def next_frame_eq returns_def keep_frame_def broadcast_def Let_def
      split: option.split)

lemma tell_granted [simp]: "granted (snd (tell w ev c a)) = granted a"
  by (auto simp: tell_def returns_def intro!: granted_and_then)

lemma small_granted [simp]:
  "granted (snd (publish_summary w s a)) = granted a"
  "granted (snd (reject w k code msg a)) = granted a"
  "granted (snd (applied_ack w k v a)) = granted a"
  "granted (snd (refresh_config w a)) = granted a"
  by (simp_all add: publish_summary_def reject_def applied_ack_def refresh_config_def Let_def returns_def
      start_task_def)

lemma record_item_granted [simp]: "granted (snd (record_item w i a)) = granted a"
  unfolding record_item_def
  by (rule granted_and_then) (auto simp: returns_def intro!: granted_and_then split: option.split)

lemma refuse_granted: "refuse_answer w k an act pl a = (r, b) \<Longrightarrow> granted b = granted a"
  by (auto simp: refuse_answer_def now_def split: option.splits if_splits)

lemma refuse_accepts:
  assumes "refuse_answer w k an act pl a = (None, b)"
  shows "\<exists>p. map_of (ka_pending a) k = Some p \<and> answer_spec_of an \<in> set (in_answers (pe_interaction p)) \<and>
    (pl \<longrightarrow> \<not> is_permission (in_kind (pe_interaction p))) \<and>
    (act = Keyboard \<and> \<not> declines an \<longrightarrow>
       (\<forall>t. in_guard_until (pe_interaction p) = Some t \<longrightarrow> t \<le> wo_now w (ka_clock a)))"
  using assms by (auto simp: refuse_answer_def now_def split: option.splits if_splits)

lemma answer_ask_granted:
  "set (granted (snd (answer_ask w m a))) \<subseteq>
     set (granted a) \<union> (if fst (refuse_answer w (an_interaction m) (an_answer m) (an_activation m) (an_plugin m) a) = None
                  then {g. fst g = an_interaction m \<and> gn_answer (snd g) = an_answer m} else {})"
proof -
  obtain r a1 where r: "refuse_answer w (an_interaction m) (an_answer m) (an_activation m) (an_plugin m) a = (r, a1)"
    by fastforce
  note g = refuse_granted[OF r]
  show ?thesis
  proof (cases "r = None \<and> map_of (ka_pending a1) (an_interaction m) \<noteq> None")
    case False
    then show ?thesis
      using r g by (auto simp: answer_ask_def returns_def split: option.splits prod.splits)
  next
    case True
    then obtain p where p: "map_of (ka_pending a1) (an_interaction m) = Some p" "r = None"
      by auto
    let ?i = "pe_interaction p"
    let ?rec = "recorded_answer (in_kind ?i) (an_answer m)"
    obtain rc a3 where rc: "answer_receipt w ?i ?rec
        (a1\<lparr>ka_pending := AList.delete (an_interaction m) (ka_pending a1)\<rparr>) = (rc, a3)"
      by fastforce
    have "granted a3 = granted a"
      using rc g by (auto simp: answer_receipt_def fresh_item_def now_def mint_def Let_def
          split: option.splits prod.splits)
    moreover define gr where "gr = \<lparr>gn_ask = \<lparr>ga_id = in_id ?i, ga_opened_at = in_opened_at ?i,
        ga_held = held a3 ?i\<rparr>, gn_answer = an_answer m\<rparr>"
    moreover define a4 where "a4 = reply_to (an_interaction m) (Inr gr) a3"
    ultimately have "granted a4 = granted a @ [(an_interaction m, gr)]"
      by (simp add: reply_to_def)
    moreover have "granted (snd (answer_ask w m a)) = granted a4"
      using r p rc by (auto simp: answer_ask_def Let_def a4_def gr_def returns_def
          intro!: granted_and_then split: option.split)
    ultimately show ?thesis
      using r p by (auto simp: gr_def)
  qed
qed

text \<open>
  C40: An answer is only taken where it may be.  If answering message \<open>m\<close> releases
  a reply that was not out before, then it is the reply to the interaction the
  message names, with the answer it gave; that interaction was open and accepts
  answers of that kind; a plugin did not answer a permission; and an approval by
  keyboard came at or after the end of the guard that follows the opening.
\<close>

theorem answer_is_guarded:
  assumes "(k, Inr g) \<in> set (ka_replies (snd (answer_ask w m a)))" "(k, Inr g) \<notin> set (ka_replies a)"
  shows "k = an_interaction m \<and> gn_answer g = an_answer m \<and>
    (\<exists>p. map_of (ka_pending a) k = Some p \<and>
       answer_spec_of (an_answer m) \<in> set (in_answers (pe_interaction p)) \<and>
       (an_plugin m \<longrightarrow> \<not> is_permission (in_kind (pe_interaction p))) \<and>
       (an_activation m = Keyboard \<and> \<not> declines (an_answer m) \<longrightarrow>
          (\<forall>t. in_guard_until (pe_interaction p) = Some t \<longrightarrow> t \<le> wo_now w (ka_clock a))))"
proof -
  obtain r b where r: "refuse_answer w (an_interaction m) (an_answer m) (an_activation m) (an_plugin m) a = (r, b)"
    by fastforce
  have "(k, g) \<in> set (granted (snd (answer_ask w m a)))" "(k, g) \<notin> set (granted a)"
    using assms by (auto simp: granted_of_mem)
  then have "r = None" "k = an_interaction m" "gn_answer g = an_answer m"
    using answer_ask_granted[of w m a] r by (auto split: if_splits)
  then show ?thesis
    using refuse_accepts r by blast
qed

section \<open>A credential stays private\<close>

text \<open>An actor without what went out on the private channels.\<close>

definition hush :: "actor \<Rightarrow> actor" where
  "hush a = a\<lparr>ka_replies := []\<rparr>"

definition quiet_eq :: "('e + 'a) \<times> actor \<Rightarrow> ('e + 'a) \<times> actor \<Rightarrow> bool" where
  "quiet_eq r s \<longleftrightarrow> fst r = fst s \<and> hush (snd r) = hush (snd s)"

lemma hush_eqE:
  assumes "hush a = hush b"
  obtains rs where "b = a\<lparr>ka_replies := rs\<rparr>"
proof -
  have "b = a\<lparr>ka_replies := ka_replies b\<rparr>"
    using assms by (cases a; cases b) (simp add: hush_def)
  then show ?thesis by (rule that)
qed

lemma hush_update [simp]: "hush (a\<lparr>ka_replies := rs\<rparr>) = hush a"
  by (simp add: hush_def)

lemma hush_reply [simp]: "hush (reply_to k r a) = hush a"
  by (simp add: hush_def reply_to_def)

lemma quiet_returns: "hush a = hush b \<Longrightarrow> quiet_eq (returns x a) (returns x b)"
  by (simp add: quiet_eq_def returns_def)

lemma and_then_returns [simp]: "and_then (returns x a) k = k x a"
  by (simp add: and_then_def returns_def)

lemma quiet_and_then:
  assumes "quiet_eq r s" "\<And>x a b. hush a = hush b \<Longrightarrow> quiet_eq (k x a) (k x b)"
  shows "quiet_eq (and_then r k) (and_then s k)"
proof -
  obtain x a y b where rs: "r = (x, a)" "s = (y, b)"
    by (cases r; cases s)
  show ?thesis
  proof (cases x)
    case (Inr v)
    then show ?thesis
      using assms(1) assms(2)[of a b v] rs by (auto simp: quiet_eq_def and_then_def)
  qed (use assms(1) rs in \<open>auto simp: quiet_eq_def and_then_def\<close>)
qed

lemma hush_fields:
  assumes "hush a = hush b"
  shows "ka_queue a = ka_queue b" "ka_pending a = ka_pending b" "ka_state a = ka_state b" "ka_store a = ka_store b"
    "ka_config a = ka_config b" "ka_clock a = ka_clock b" "ka_id a = ka_id b" "ka_observed a = ka_observed b"
    "ka_seq a = ka_seq b"
proof -
  obtain rs where "b = a\<lparr>ka_replies := rs\<rparr>"
    using assms by (rule hush_eqE)
  then show "ka_queue a = ka_queue b" "ka_pending a = ka_pending b" "ka_state a = ka_state b" "ka_store a = ka_store b"
    "ka_config a = ka_config b" "ka_clock a = ka_clock b" "ka_id a = ka_id b" "ka_observed a = ka_observed b"
    "ka_seq a = ka_seq b"
    by simp_all
qed

lemma hush_set1:
  assumes "hush a = hush b"
  shows "hush (a\<lparr>ka_rx_closed := x1\<rparr>) = hush (b\<lparr>ka_rx_closed := x1\<rparr>)"
    "hush (a\<lparr>ka_running := x2\<rparr>) = hush (b\<lparr>ka_running := x2\<rparr>)"
    "hush (a\<lparr>ka_queue := x3\<rparr>) = hush (b\<lparr>ka_queue := x3\<rparr>)"
    "hush (a\<lparr>ka_pending := x4\<rparr>) = hush (b\<lparr>ka_pending := x4\<rparr>)"
  using assms by (cases a; cases b; simp add: hush_def)+

lemma hush_set2:
  assumes "hush a = hush b"
  shows "hush (start_task tk a) = hush (start_task tk b)"
    "hush (broadcast f a) = hush (broadcast f b)"
    "hush (keep_frame f a) = hush (keep_frame f b)"
    "hush (checkpoint_write a) = hush (checkpoint_write b)"
  using assms by (cases a; cases b; simp add: hush_def start_task_def broadcast_def keep_frame_def checkpoint_write_def)+

lemma hush_set3:
  assumes "hush a = hush b"
  shows "hush (terminal_event w ev c a) = hush (terminal_event w ev c b)"
  using assms by (cases a; cases b; simp add: hush_def terminal_event_def next_frame_eq broadcast_def)

lemma hush_set4:
  assumes "hush a = hush b"
  shows "hush (remember_stopped_ask a) = hush (remember_stopped_ask b)"
  using assms by (cases a; cases b; simp add: hush_def remember_stopped_ask_def held_def Let_def split: option.split)

lemmas hush_set = hush_set1 hush_set2 hush_set3 hush_set4

lemma foldl_quiet:
  assumes "hush a = hush b" "\<And>a b x. hush a = hush b \<Longrightarrow> hush (f a x) = hush (f b x)"
  shows "hush (foldl f a xs) = hush (foldl f b xs)"
  using assms(1)
proof (induction xs arbitrary: a b)
  case (Cons x xs)
  show ?case
    using Cons.IH[OF assms(2)[OF Cons.prems, of x]] by simp
qed simp

lemma storage_failed_quiet:
  assumes "hush a = hush b"
  shows "hush (storage_failed w e a) = hush (storage_failed w e b)"
proof -
  let ?t = "\<lambda>a (intent, _). terminal_event w (EvIntentAck intent (IoRejected e)) (Some intent) a"
  let ?r = "\<lambda>a (k, _). reply_to k (Inl e) a"
  define f3 where "f3 a = terminal_event w (EvNotice LvError ''STORAGE'' (ke_message e)) None
    ((remember_stopped_ask (a\<lparr>ka_rx_closed := True\<rparr>))\<lparr>ka_running := None\<rparr>)" for a
  define f4 where "f4 a = foldl ?t ((f3 a)\<lparr>ka_queue := (ka_queue (f3 a))\<lparr>qu_entries := []\<rparr>\<rparr>)
    (map unpack (qu_entries (ka_queue (f3 a))))" for a
  define f6 where "f6 a = foldl ?r ((f4 a)\<lparr>ka_pending := []\<rparr>) (wo_order w (ka_pending (f4 a)))" for a
  have h3: "hush (f3 a) = hush (f3 b)"
    unfolding f3_def by (intro hush_set assms)
  have h4: "hush (f4 a) = hush (f4 b)"
    unfolding f4_def hush_fields(1)[OF h3]
    by (intro foldl_quiet hush_set1(3) h3) (simp only: case_prod_unfold, erule hush_set3)
  have h6: "hush (f6 a) = hush (f6 b)"
    unfolding f6_def hush_fields(2)[OF h4]
    by (intro foldl_quiet hush_set1(4) h4) (simp only: case_prod_unfold hush_reply)
  have "storage_failed w e a = terminal_event w (EvSessionClosed (CloseError (ke_message e))) None (f6 a)" for a
    by (simp add: storage_failed_def drain_all_def drain_pending_def f3_def f4_def f6_def Let_def)
  then show ?thesis
    using hush_set3[OF h6] by simp
qed

lemma quiet_publish:
  assumes "hush a = hush b"
  shows "quiet_eq (publish w ev c a) (publish w ev c b)"
proof -
  obtain f a1 where fa: "next_frame w ev c a = (f, a1)"
    by fastforce
  obtain g b1 where gb: "next_frame w ev c b = (g, b1)"
    by fastforce
  obtain rs where b: "b = a\<lparr>ka_replies := rs\<rparr>"
    using assms by (rule hush_eqE)
  have e: "g = f" "hush a1 = hush b1"
    using fa gb by (auto simp: b next_frame_eq hush_def)
  then have st: "store_answer w f a1 = store_answer w f b1"
    using hush_fields[OF e(2)] by (simp add: store_answer_def)
  define fin where "fin x = (let a2 = (if is_durable ev then keep_frame f x else x); a3 = broadcast f a2
    in if is_compacted ev then checkpoint_write a3 else a3)" for x
  have h: "hush (fin a1) = hush (fin b1)"
    unfolding fin_def Let_def
    by (cases "is_durable ev"; cases "is_compacted ev"; simp only: if_True if_False; intro hush_set e(2))
  have sq: "ka_seq (fin a1) = ka_seq (fin b1)"
    by (rule hush_fields(9)[OF h])
  have pub: "publish w ev c x = (case (if is_durable ev then store_answer w f x1 else None) of
      Some er \<Rightarrow> (Inl er, storage_failed w er x1) | None \<Rightarrow> returns (ka_seq (fin x1)) (fin x1))"
    if "next_frame w ev c x = (f, x1)" for x x1
    using that by (simp add: publish_def fin_def Let_def split: option.split)
  show ?thesis
  proof (cases "if is_durable ev then store_answer w f a1 else None")
    case None
    then show ?thesis
      using pub[OF fa] pub[OF gb[unfolded e(1)]] st h sq
      by (simp add: quiet_eq_def returns_def split: if_splits)
  next
    case (Some er)
    then show ?thesis
      using pub[OF fa] pub[OF gb[unfolded e(1)]] st storage_failed_quiet[OF e(2), of w er]
      by (auto simp: quiet_eq_def split: if_splits option.splits)
  qed
qed

lemma quiet_tell: "hush a = hush b \<Longrightarrow> quiet_eq (tell w ev c a) (tell w ev c b)"
  unfolding tell_def by (intro quiet_and_then quiet_publish quiet_returns)

lemma quiet_publish_summary:
  "hush a = hush b \<Longrightarrow> quiet_eq (publish_summary w s a) (publish_summary w s b)"
proof -
  assume h: "hush a = hush b"
  then obtain rs where "b = a\<lparr>ka_replies := rs\<rparr>"
    by (rule hush_eqE)
  then have "stamped_summary a s = stamped_summary b s"
    by (simp add: stamped_summary_def)
  then show ?thesis
    using quiet_tell[OF h] by (simp add: publish_summary_def)
qed

text \<open>
  A credential reaches nobody but the one who asked.  When text answers a login,
  everything but the private reply is the same whatever the text is: the frames
  on the wire, the journal, the store, the shared state, what hooks observe.
\<close>

theorem login_text_is_private:
  assumes "map_of (ka_pending a) (an_interaction m) = Some p"
    and "in_kind (pe_interaction p) = KLogin provider flow"
    and "an_answer m = AnText secret"
  shows "hush (snd (answer_ask w m a)) = hush (snd (answer_ask w (m\<lparr>an_answer := AnText other\<rparr>) a))"
proof -
  let ?m = "m\<lparr>an_answer := AnText other\<rparr>"
  obtain r a1 where r: "refuse_answer w (an_interaction m) (AnText secret) (an_activation m) (an_plugin m) a = (r, a1)"
    by fastforce
  then have r': "refuse_answer w (an_interaction m) (AnText other) (an_activation m) (an_plugin m) a = (r, a1)"
    by (simp add: refuse_answer_def answer_spec_of_def declines_def cong: option.case_cong if_cong)
  have pd: "ka_pending a1 = ka_pending a"
    using r by (auto simp: refuse_answer_def now_def split: option.splits if_splits)
  show ?thesis
  proof (cases r)
    case (Some x)
    then show ?thesis
      using r r' assms(3) by (cases x) (simp add: answer_ask_def)
  next
    case None
    let ?i = "pe_interaction p" and ?k = "an_interaction m"
    let ?rec = "AnText REDACTED"
    let ?a2 = "a1\<lparr>ka_pending := AList.delete ?k (ka_pending a1)\<rparr>"
    define body where "body x = and_then (publish w (EvInteractionResolved ?k ?rec
        (if an_plugin m then ByPlugin (an_name m) (an_surface m) else ByClient (an_name m) (an_surface m)))
        (Some (an_intent m)) x) (\<lambda>_ a. and_then (applied_ack w (an_intent m) JNull a) (\<lambda>_ a.
        publish_summary w (st_summary (ka_state a)) a))" for x
    have ps: "quiet_eq (publish_summary w (st_summary (ka_state x)) x) (publish_summary w (st_summary (ka_state y)) y)"
      if "hush x = hush y" for x y
      unfolding hush_fields(3)[OF that] by (rule quiet_publish_summary[OF that])
    have q: "quiet_eq (body x) (body y)" if "hush x = hush y" for x y
      unfolding body_def applied_ack_def
      by (rule quiet_and_then[OF quiet_publish[OF that]], rule quiet_and_then[OF quiet_tell], assumption,
          rule ps)
    have "answer_ask w m a = body (reply_to ?k (Inr \<lparr>gn_ask = \<lparr>ga_id = in_id ?i,
        ga_opened_at = in_opened_at ?i, ga_held = held ?a2 ?i\<rparr>, gn_answer = AnText secret\<rparr>) ?a2)"
      using assms r None pd by (simp add: answer_ask_def recorded_answer_def answer_receipt_def receipt_answered_def
          Let_def body_def)
    moreover have "answer_ask w ?m a = body (reply_to ?k (Inr \<lparr>gn_ask = \<lparr>ga_id = in_id ?i,
        ga_opened_at = in_opened_at ?i, ga_held = held ?a2 ?i\<rparr>, gn_answer = AnText other\<rparr>) ?a2)"
      using assms r' None pd by (simp add: answer_ask_def recorded_answer_def answer_receipt_def receipt_answered_def
          Let_def body_def)
    ultimately show ?thesis
      using q[unfolded quiet_eq_def] by (metis hush_reply)
  qed
qed

section \<open>A concrete session\<close>

definition sample_world :: world where
  "sample_world =
     \<lparr>wo_now = (\<lambda>n. int n * 1000000000), wo_checked_add = (\<lambda>t d. Some (t + d)), wo_mint = show_nat,
      wo_append = (\<lambda>_ _. None), wo_order = (\<lambda>ps. ps), wo_describe = (\<lambda>_ _. JNull),
      wo_json_answer = (\<lambda>_. JNull), wo_json_view = (\<lambda>_. JNull),
      wo_json_item = (\<lambda>i. case it_body i of BAssistant s \<Rightarrow> Inr s | _ \<Rightarrow> Inr ''{}''),
      wo_json_state = (\<lambda>_. Inr ''{}''), wo_replay = (\<lambda>held since. Inr (filter (\<lambda>f. since < fr_seq f) held)),
      wo_restated = (\<lambda>_ _ _. None)\<rparr>"

definition sample_spec :: session_spec where
  "sample_spec =
     \<lparr>sp_cwd = ''/work'', sp_key = None, sp_parent = None, sp_title = None, sp_driver = DriverModel,
      sp_provider = None, sp_model = None, sp_model_scope = None, sp_system_extra = None, sp_tools = None,
      sp_thinking = None\<rparr>"

definition sample_config :: turn_config where
  "sample_config =
     \<lparr>tc_keys = [], tc_spec = sample_spec,
      tc_model = Some \<lparr>mc_endpoint = ''acme'', mc_holds_context = False, mc_id = ''m1'', mc_reasoning = None\<rparr>,
      tc_policy = ''permissions'', tc_hooks_empty = True, tc_has_links = False\<rparr>"

definition sample_actor :: actor where
  "sample_actor =
     \<lparr>ka_id = ''ses_1'', ka_state = state_new sample_summary, ka_journal = [], ka_checkpoint_seq = 0,
      ka_seq = 0, ka_store = Some [], ka_config = sample_config, ka_running = None, ka_queue = queue_default,
      ka_commands = \<lparr>cm_host_alive = True, cm_drawings = [], cm_inflight = [], cm_holding = None\<rparr>,
      ka_gate = \<lparr>ig_waiting = [], ig_flight = None\<rparr>, ka_cancelled = False, ka_pending = [],
      ka_closing = None, ka_progress_n = 0, ka_rx_closed = False, ka_calling = False, ka_clock = 0,
      ka_minted = 0, ka_ended = [], ka_out = [], ka_observed = None, ka_replies = [], ka_spawned = []\<rparr>"

definition sample_login :: actor where
  "sample_login =
     snd (open_interaction sample_world None (KLogin ''acme'' FlowPaste) [SpText, SpCancel] sample_actor)"

definition sample_answer :: answered where
  "sample_answer =
     \<lparr>an_intent = ''req_1'', an_interaction = ''int_0'', an_answer = AnText ''key-123'',
      an_activation = Keyboard, an_name = ''me'', an_surface = ''tui'', an_plugin = False\<rparr>"

theorem answer_is_guarded_witness:
  "\<exists>p. map_of (ka_pending sample_login) ''int_0'' = Some p \<and>
     (\<forall>t. in_guard_until (pe_interaction p) = Some t \<longrightarrow> t \<le> wo_now sample_world (ka_clock sample_login))"
proof -
  let ?g = "\<lparr>gn_ask = \<lparr>ga_id = ''int_0'', ga_opened_at = 0, ga_held = False\<rparr>, gn_answer = AnText ''key-123''\<rparr>"
  have "(''int_0'', Inr ?g) \<in> set (ka_replies (snd (answer_ask sample_world sample_answer sample_login)))"
    "(''int_0'', Inr ?g) \<notin> set (ka_replies sample_login)"
    "an_activation sample_answer = Keyboard" "\<not> declines (an_answer sample_answer)"
    by code_simp+
  then show ?thesis
    using answer_is_guarded[of "''int_0''" ?g sample_world sample_answer sample_login] by blast
qed

theorem login_text_is_private_witness:
  "hush (snd (answer_ask sample_world sample_answer sample_login))
     = hush (snd (answer_ask sample_world (sample_answer\<lparr>an_answer := AnText ''other''\<rparr>) sample_login))"
proof -
  have "map_option (\<lambda>p. in_kind (pe_interaction p))
      (map_of (ka_pending sample_login) (an_interaction sample_answer)) = Some (KLogin ''acme'' FlowPaste)"
    by code_simp
  then obtain p where "map_of (ka_pending sample_login) (an_interaction sample_answer) = Some p"
      "in_kind (pe_interaction p) = KLogin ''acme'' FlowPaste"
    by (auto simp: map_option_eq_Some)
  moreover have "an_answer sample_answer = AnText ''key-123''"
    by code_simp
  ultimately show ?thesis
    using login_text_is_private by blast
qed

end
