(* ===== verification/Core_Session.thy ===== *)
theory Core_Session
  imports Core_Interactions
begin

text \<open>
  The life of a session: what reaches the actor and what it becomes
  (\<open>bingo-core/src/session/inputs.rs\<close>, \<open>gate.rs\<close>, \<open>catalogue.rs\<close>,
  \<open>running.rs\<close>, \<open>recovery.rs\<close>, \<open>signals.rs\<close>), the opening and closing of a segment
  and the dispatch of its mail (\<open>session.rs\<close>), and the return from a journal
  (\<open>spawn.rs\<close>).
\<close>

section \<open>The input gate\<close>

text \<open>A command of the table: its name and whether a run may start beside a turn.\<close>

record command =
  cd_name :: string
  cd_instant :: "string \<Rightarrow> session_state \<Rightarrow> bool"

datatype gate_verdict =
    VProse input
  | VCommand input parsed command bool
  | VRejected kernel_error
  | VRedirected session_id "kernel_error option"
  | VDelivered input delivery

definition start_gate :: "actor \<Rightarrow> actor" where
  "start_gate a =
     (if ig_flight (ka_gate a) \<noteq> None \<or> ka_closing a \<noteq> None \<or> st_closed (ka_state a) then a
      else (case ig_waiting (ka_gate a) of
          [] \<Rightarrow> a
        | x # rest \<Rightarrow>
            start_task (TaskGate x)
              (a\<lparr>ka_gate := \<lparr>ig_waiting = rest,
                  ig_flight = Some \<lparr>gf_intent = wt_intent x, gf_cancelled = ka_cancelled a\<rparr>\<rparr>\<rparr>)))"

definition gate_input :: "intent_id \<Rightarrow> input \<Rightarrow> input_kind \<Rightarrow> actor \<Rightarrow> actor" where
  "gate_input intent i kind a =
     (let x = \<lparr>wt_calling = ka_calling a, wt_intent = intent, wt_input = i, wt_kind = kind\<rparr>;
          g = ka_gate a;
          g' = (if kind = InQueued \<or> kind = InProse then g\<lparr>ig_waiting := x # ig_waiting g\<rparr>
                else g\<lparr>ig_waiting := ig_waiting g @ [x]\<rparr>)
      in start_gate (a\<lparr>ka_gate := g'\<rparr>))"

definition gate_interrupt :: "input_gate \<Rightarrow> intent_id option \<times> input_gate" where
  "gate_interrupt g =
     (case ig_flight g of
        None \<Rightarrow> (None, g)
      | Some f \<Rightarrow> (Some (gf_intent f), g\<lparr>ig_flight := Some (f\<lparr>gf_cancelled := True\<rparr>)\<rparr>))"

definition gate_finish :: "intent_id \<Rightarrow> input_gate \<Rightarrow> bool option \<times> input_gate" where
  "gate_finish intent g =
     (case ig_flight g of
        Some f \<Rightarrow>
          if gf_intent f = intent then (Some (gf_cancelled f), g\<lparr>ig_flight := None\<rparr>) else (None, g)
      | None \<Rightarrow> (None, g))"

definition gate_drain :: "input_gate \<Rightarrow> intent_id list \<times> input_gate" where
  "gate_drain g =
     ((case ig_flight g of Some f \<Rightarrow> [gf_intent f] | None \<Rightarrow> []) @ map wt_intent (ig_waiting g),
      \<lparr>ig_waiting = [], ig_flight = None\<rparr>)"

definition commands_interrupted :: kernel_error where
  "commands_interrupted = kernel_error_new ErrInterrupted ''stopped by the person''"

text \<open>
  \<open>evaluate\<close> runs on a task of its own.  What the hooks make of an input and what
  another session answers to a redirect are its parameters; the commands are a list
  of the names each answers to beside the command, the kernel's own table first and
  then each source's in order.
\<close>

datatype submit_result = SubAccepted input | SubRejected kernel_error | SubRedirect session_id input

record gate_services =
  gs_render :: "json \<Rightarrow> string"
  gs_table :: "(string list \<times> command) list"
  gs_receive :: "input \<Rightarrow> kernel_error + input"
  gs_submit :: "input \<Rightarrow> kernel_error + submit_result"
  gs_deliver :: "session_id \<Rightarrow> input \<Rightarrow> kernel_error option"

definition lookup_find :: "gate_services \<Rightarrow> string \<Rightarrow> command option" where
  "lookup_find gs name = map_option snd (find (\<lambda>(names, _). name \<in> set names) (gs_table gs))"

definition find_command :: "gate_services \<Rightarrow> input \<Rightarrow> parsed \<Rightarrow> bool \<Rightarrow> gate_verdict" where
  "find_command gs i p was_queued =
     (if is_shell (pa_name p) \<and> \<not> may_run_shell i
      then VRejected (kernel_error_new ErrPermissionDenied
             (''a shell line is the person'' @ [CHR 0x27] @ ''s own: nobody else may run one''))
      else (case lookup_find gs (pa_name p) of
          Some cmd \<Rightarrow> VCommand i p cmd was_queued
        | None \<Rightarrow> VRejected (kernel_error_new ErrInvalidInput (unknown (pa_name p)))))"

definition submit_hooks :: "gate_services \<Rightarrow> input \<Rightarrow> gate_verdict" where
  "submit_hooks gs i =
     (case gs_submit gs i of
        Inr (SubAccepted j) \<Rightarrow> VProse j
      | Inr (SubRejected e) \<Rightarrow> VRejected e
      | Inl e \<Rightarrow> VRejected e
      | Inr (SubRedirect to_ j) \<Rightarrow> VRedirected to_ (gs_deliver gs to_ j))"

definition gate_evaluate :: "gate_services \<Rightarrow> waiting_input \<Rightarrow> gate_verdict" where
  "gate_evaluate gs x =
     (case wt_kind x of
        InDeliver d \<Rightarrow>
          (case gs_receive gs (wt_input x) of Inr i \<Rightarrow> VDelivered i d | Inl e \<Rightarrow> VRejected e)
      | kind \<Rightarrow>
          (case (if kind = InProse then None else parse_input (gs_render gs) (wt_input x)) of
             Some p \<Rightarrow> find_command gs (wt_input x) p (kind = InQueued)
           | None \<Rightarrow>
               (case validate (wt_input x) of
                  Some message \<Rightarrow> VRejected (kernel_error_new ErrInvalidInput message)
                | None \<Rightarrow> submit_hooks gs (wt_input x))))"

section \<open>The queue and the opening of a turn\<close>

text \<open>Every client is told what waits now.\<close>

definition announce_queue :: "world \<Rightarrow> actor \<Rightarrow> unit result" where
  "announce_queue w a =
     (case queue_changed_event (ka_queue a) of (ev, q) \<Rightarrow> tell w ev None (a\<lparr>ka_queue := q\<rparr>))"

definition queue_moved ::
  "world \<Rightarrow> (intent_id \<times> input) list \<Rightarrow> actor \<Rightarrow> (intent_id \<times> input) list result" where
  "queue_moved w taken a =
     (if taken \<noteq> []
      then and_then (announce_queue w a) (\<lambda>_ a. returns taken a)
      else returns taken a)"

definition take_queue :: "world \<Rightarrow> actor \<Rightarrow> (intent_id \<times> input) list result" where
  "take_queue w a =
     (case take_prose (ka_queue a) of (taken, q) \<Rightarrow> queue_moved w taken (a\<lparr>ka_queue := q\<rparr>))"

definition take_steering :: "world \<Rightarrow> actor \<Rightarrow> (intent_id \<times> input) list result" where
  "take_steering w a =
     (case take_steers (ka_queue a) of (taken, q) \<Rightarrow> queue_moved w taken (a\<lparr>ka_queue := q\<rparr>))"

definition absorb :: "world \<Rightarrow> turn_id \<Rightarrow> actor \<Rightarrow> (intent_id \<times> input) list result" where
  "absorb w turn a = (if is_running turn a then take_steering w a else returns [] a)"

definition enqueue :: "world \<Rightarrow> intent_id \<Rightarrow> queued_line \<Rightarrow> actor \<Rightarrow> unit result" where
  "enqueue w intent p a =
     (case queue_push intent p (ka_queue a) of (at, q) \<Rightarrow>
        and_then (announce_queue w (a\<lparr>ka_queue := q\<rparr>)) (\<lambda>_ a.
          tell w (EvIntentAck intent (IoQueued at)) (Some intent) a))"

definition journal_prose ::
  "world \<Rightarrow> turn_id option \<Rightarrow> intent_id \<Rightarrow> input \<Rightarrow> actor \<Rightarrow> item_id option result" where
  "journal_prose w turn intent i a =
     (case i of
        InAction _ _ \<Rightarrow> returns None a
      | InText _ _ _ _ _ \<Rightarrow>
          (case fresh_item w turn (Some intent) (BUnknown []) a of (blank, a1) \<Rightarrow>
             (case user_item i (\<lambda>body. blank\<lparr>it_body := body\<rparr>) of
                None \<Rightarrow> returns None a1
              | Some it \<Rightarrow>
                  and_then (publish w (EvItemCompleted it) (Some intent) a1)
                    (\<lambda>_ a. returns (Some (it_id it)) a))))"

fun record_inputs ::
  "world \<Rightarrow> turn_id \<Rightarrow> (intent_id \<times> input) list \<Rightarrow> actor \<Rightarrow> (item_id list \<times> intent_id list) result" where
  "record_inputs w turn [] a = returns ([], []) a"
| "record_inputs w turn ((intent, i) # rest) a =
     and_then (journal_prose w (Some turn) intent i a) (\<lambda>made a.
       and_then (record_inputs w turn rest a) (\<lambda>(ids, acks) a.
         returns (case made of Some k \<Rightarrow> (k # ids, intent # acks) | None \<Rightarrow> (ids, acks)) a))"

definition ack_turn_started :: "world \<Rightarrow> turn_id \<Rightarrow> intent_id list \<Rightarrow> actor \<Rightarrow> unit result" where
  "ack_turn_started w turn intents a =
     for_each (\<lambda>intent. tell w (EvIntentAck intent (IoTurnStarted turn)) (Some intent)) intents a"

definition start_turn ::
  "world \<Rightarrow> (intent_id \<times> input) list \<Rightarrow> turn_origin \<Rightarrow> turn_kind \<Rightarrow> actor \<Rightarrow> unit result" where
  "start_turn w inputs og kind a =
     (case mint w ''trn'' a of (turn, a1) \<Rightarrow>
        and_then (record_inputs w turn inputs a1) (\<lambda>(ids, acks) a.
        and_then (tell w (EvTurnStarted turn ids og) None a) (\<lambda>_ a.
        and_then (ack_turn_started w turn acks a) (\<lambda>_ a.
          returns () ((start_task (TaskTurn turn kind (st_transcript (ka_state a))) a)
            \<lparr>ka_running := Some \<lparr>rn_turn = turn, rn_cancelled = False, rn_door = False, rn_tools = [], rn_completed = False,
               rn_stopped_ask = None, rn_config = ka_config a\<rparr>\<rparr>)))))"

definition drain_queue :: "world \<Rightarrow> actor \<Rightarrow> unit result" where
  "drain_queue w a =
     (if actor_busy a \<or> gate_busy (ka_gate a) then returns () a
      else (case take_unit (ka_queue a) of
          (None, _) \<Rightarrow> returns () a
        | (Some u, q) \<Rightarrow>
            and_then
              (case u of
                 UnitProse inputs \<Rightarrow> start_turn w inputs OrQueue KindRespond (a\<lparr>ka_queue := q\<rparr>)
               | UnitCommand intent i \<Rightarrow> returns () (gate_input intent i InQueued (a\<lparr>ka_queue := q\<rparr>)))
              (\<lambda>_ a. announce_queue w a)))"

section \<open>What an input becomes\<close>

definition closing_down :: "actor \<Rightarrow> bool" where
  "closing_down a \<longleftrightarrow> st_closed (ka_state a) \<or> ka_closing a \<noteq> None"

definition submit :: "world \<Rightarrow> intent_id \<Rightarrow> input \<Rightarrow> actor \<Rightarrow> unit result" where
  "submit w intent i a =
     (if closing_down a then reject w intent ErrSessionClosed ''the session is closed'' a
      else returns () (gate_input intent i InSubmit a))"

definition log_input :: "world \<Rightarrow> intent_id \<Rightarrow> input \<Rightarrow> actor \<Rightarrow> unit result" where
  "log_input w intent i a =
     and_then (journal_prose w None intent i a) (\<lambda>made a.
       case made of
         None \<Rightarrow> reject w intent ErrInvalidInput ''a log records text'' a
       | Some k \<Rightarrow> applied_ack w intent (JObject [(''item'', JString k)]) a)"

text \<open>Prose held in an idle session's queue goes first, in order.\<close>

definition held_then :: "world \<Rightarrow> intent_id \<Rightarrow> input \<Rightarrow> actor \<Rightarrow> (intent_id \<times> input) list result" where
  "held_then w intent i a =
     and_then (take_queue w a) (\<lambda>inputs a. returns (inputs @ [(intent, i)]) a)"

definition submit_prose :: "world \<Rightarrow> intent_id \<Rightarrow> input \<Rightarrow> actor \<Rightarrow> unit result" where
  "submit_prose w intent i a =
     (if \<not> answers a then log_input w intent i a
      else if actor_busy a \<or> queue_ready (ka_queue a) then enqueue w intent (QProse i) a
      else and_then (held_then w intent i a) (\<lambda>inputs a. start_turn w inputs OrSubmit KindRespond a))"

definition stamped_input :: "input \<Rightarrow> delivery \<Rightarrow> input" where
  "stamped_input i d =
     (case i of InText t imgs og _ h \<Rightarrow> InText t imgs og d h | InAction _ _ \<Rightarrow> i)"

definition deliver_ready :: "world \<Rightarrow> intent_id \<Rightarrow> input \<Rightarrow> delivery \<Rightarrow> actor \<Rightarrow> unit result" where
  "deliver_ready w intent i0 d a =
     (let i = stamped_input i0 d in
      if closing_down a then reject w intent ErrSessionClosed ''the session is closed'' a
      else (case i of
          InAction _ _ \<Rightarrow> reject w intent ErrInvalidInput ''a peer delivers text'' a
        | InText _ _ _ _ _ \<Rightarrow>
            (case validate i of
               Some message \<Rightarrow> reject w intent ErrInvalidInput message a
             | None \<Rightarrow>
                 if \<not> answers a then log_input w intent i a
                 else if actor_busy a \<or> queue_ready (ka_queue a) \<or> is_held i
                 then enqueue w intent (QProse i) a
                 else and_then (held_then w intent i a)
                        (\<lambda>inputs a. start_turn w inputs OrPeer KindRespond a))))"

definition deliver :: "world \<Rightarrow> intent_id \<Rightarrow> input \<Rightarrow> delivery \<Rightarrow> actor \<Rightarrow> unit result" where
  "deliver w intent i d a =
     (if gate_busy (ka_gate a) \<or> tc_has_links (ka_config a)
      then returns () (gate_input intent i (InDeliver d) a)
      else deliver_ready w intent i d a)"

definition commands_spawn ::
  "command_run \<Rightarrow> invocation \<Rightarrow> actor \<Rightarrow> (kernel_error option) \<times> actor" where
  "commands_spawn run iv a =
     (let c = ka_commands a in
      if \<not> cm_host_alive c then (Some (kernel_error_new ErrSessionClosed ''the host is gone''), a)
      else
        (let c1 = c\<lparr>cm_inflight := AList.update (cr_intent run)
                  \<lparr>fi_invocation = iv, fi_cancelled = ka_cancelled a, fi_vouched = cr_vouched run, fi_own = False\<rparr>
                  (cm_inflight c)\<rparr>;
             c2 = (if cr_holds run then c1\<lparr>cm_holding := Some (cr_intent run)\<rparr> else c1)
         in (None, start_task (TaskCommand run) (a\<lparr>ka_commands := c2\<rparr>))))"

definition run_command :: "world \<Rightarrow> command_run \<Rightarrow> invocation \<Rightarrow> actor \<Rightarrow> unit result" where
  "run_command w run iv a =
     (case commands_spawn run iv a of
        (Some e, a1) \<Rightarrow> reject w (cr_intent run) (ke_code e) (ke_message e) a1
      | (None, a1) \<Rightarrow> returns () a1)"

definition submit_command ::
  "world \<Rightarrow> intent_id \<Rightarrow> input \<Rightarrow> parsed \<Rightarrow> command \<Rightarrow> bool \<Rightarrow> actor \<Rightarrow> unit result" where
  "submit_command w intent i p cmd was_queued a =
     (let instant = cd_instant cmd (pa_args p) (ka_state a) in
      if \<not> instant \<and> \<not> was_queued \<and> (actor_busy a \<or> queue_ready (ka_queue a))
      then enqueue w intent (QCommand i) a
      else run_command w
        \<lparr>cr_intent = intent, cr_command = cd_name cmd, cr_args = pa_args p, cr_holds = \<not> instant,
         cr_asked = command_asked (ka_calling a) i, cr_vouched = commands_vouched i (ka_commands a)\<rparr>
        (invocation_of i p) a)"

definition apply_gate :: "world \<Rightarrow> intent_id \<Rightarrow> gate_verdict \<Rightarrow> actor \<Rightarrow> unit result" where
  "apply_gate w intent v a =
     (case v of
        VProse i \<Rightarrow> submit_prose w intent i a
      | VCommand i p cmd was_queued \<Rightarrow> submit_command w intent i p cmd was_queued a
      | VRejected e \<Rightarrow> reject w intent (ke_code e) (ke_message e) a
      | VRedirected to_ r \<Rightarrow>
          (case r of
             None \<Rightarrow> applied_ack w intent (JObject [(''redirected'', JString to_)]) a
           | Some e \<Rightarrow> reject w intent (ke_code e) (ke_message e) a)
      | VDelivered i d \<Rightarrow> deliver_ready w intent i d a)"

definition gated :: "world \<Rightarrow> intent_id \<Rightarrow> gate_verdict \<Rightarrow> actor \<Rightarrow> unit result" where
  "gated w intent v0 a =
     (case gate_finish intent (ka_gate a) of
        (None, _) \<Rightarrow> returns () a
      | (Some cancelled, g) \<Rightarrow>
          (let v = (if cancelled then VRejected commands_interrupted else v0);
               held_delivery = (case v of VDelivered _ Hold \<Rightarrow> True | _ \<Rightarrow> False)
           in and_then (apply_gate w intent v (a\<lparr>ka_gate := g\<rparr>)) (\<lambda>_ a.
                let a1 = start_gate a in
                if held_delivery \<and> \<not> queue_ready (ka_queue a1) then returns () a1
                else drain_queue w a1)))"

end
