(* ===== verification/Core_Past.thy ===== *)
theory Core_Past
  imports Core_Session
begin

text \<open>
  Reading a session (\<open>bingo-core/src/session/history.rs\<close>, \<open>past.rs\<close> and the
  attachments of \<open>session.rs\<close>): pages of a transcript under a limit and a byte
  budget, single items pinned by their id, snapshots with the stream that follows
  them, and what has to be read back from the store because the actor released it.
  Shown here: following the cursors of the pages visits every item of a transcript
  once, a bounded page and a bounded snapshot keep to their budget, and a client
  that catches up is given exactly the durable frames it missed.
\<close>

section \<open>Pages\<close>

record oversized_item =
  ov_id :: item_id
  ov_total_bytes :: nat
  ov_checksum :: string

record history_chunk =
  hc_items :: "item list"
  hc_next :: "item_id option"
  hc_generation :: u64
  hc_oversized :: "oversized_item option"

definition hex_digit :: "nat \<Rightarrow> char" where
  "hex_digit n = (''0123456789abcdef'' ! n)"

definition hex16 :: "u64 \<Rightarrow> string" where
  "hex16 h = map (\<lambda>i. hex_digit (unat (take_bit 4 (drop_bit (4 * (15 - i)) h)))) [0..<16]"

definition fnv1a64 :: "string \<Rightarrow> string" where
  "fnv1a64 bytes =
     hex16 (foldl (\<lambda>h b. xor h (of_nat (of_char b)) * 0x100000001b3) 0xcbf29ce484222325 bytes)"

definition check_generation :: "transcript \<Rightarrow> u64 option \<Rightarrow> kernel_error option" where
  "check_generation t generation =
     (case generation of
        Some g \<Rightarrow> if g \<noteq> tr_generation t then Some (kernel_error_new ErrStaleGeneration ''history changed'') else None
      | None \<Rightarrow> None)"

text \<open>
  \<open>serde_json::to_vec\<close> of an item is a parameter: the text of the error where it has
  none, the bytes otherwise.  Byte counts stay far below the width of \<open>usize\<close>, so
  they are natural numbers.
\<close>

type_synonym item_json = "item \<Rightarrow> string + string"

definition cannot_serialize :: "string \<Rightarrow> kernel_error" where
  "cannot_serialize e = kernel_error_new ErrInternal (''item cannot serialize: '' @ e)"

text \<open>How far back a page reaches: the loop over \<open>start\<close> of \<open>bounded_history\<close>.\<close>

fun bounded_start :: "item_json \<Rightarrow> item list \<Rightarrow> nat \<Rightarrow> nat \<Rightarrow> nat \<Rightarrow> nat \<Rightarrow> nat \<Rightarrow> kernel_error + nat" where
  "bounded_start json xs fin limit max_bytes 0 used = Inr 0"
| "bounded_start json xs fin limit max_bytes (Suc s) used =
     (if fin - Suc s < limit
      then (case json (xs ! s) of
          Inl e \<Rightarrow> Inl (cannot_serialize e)
        | Inr raw \<Rightarrow>
            if used + (length raw + 1) > max_bytes then Inr (Suc s)
            else bounded_start json xs fin limit max_bytes s (used + (length raw + 1)))
      else Inr (Suc s))"

definition bounded_history ::
  "item_json \<Rightarrow> transcript \<Rightarrow> nat \<Rightarrow> nat \<Rightarrow> nat \<Rightarrow> kernel_error + history_chunk" where
  "bounded_history json t fin limit max_bytes =
     (let xs = visible_items t in
      case bounded_start json xs fin limit max_bytes fin 256 of
        Inl e \<Rightarrow> Inl e
      | Inr start \<Rightarrow>
          (let part = take (fin - start) (drop start xs) in
           case (if part = [] \<and> start > 0
                 then (case json (xs ! (start - 1)) of
                     Inl e \<Rightarrow> Inl (cannot_serialize e)
                   | Inr raw \<Rightarrow> Inr (Some \<lparr>ov_id = it_id (xs ! (start - 1)), ov_total_bytes = length raw,
                                         ov_checksum = fnv1a64 raw\<rparr>))
                 else Inr None) of
             Inl e \<Rightarrow> Inl e
           | Inr oversized \<Rightarrow>
               Inr \<lparr>hc_items = part,
                    hc_next = (if start > 0
                      then (case part of i # _ \<Rightarrow> Some (it_id i) | [] \<Rightarrow> map_option ov_id oversized)
                      else None),
                    hc_generation = tr_generation t, hc_oversized = oversized\<rparr>))"

definition page_end :: "transcript \<Rightarrow> history_page \<Rightarrow> kernel_error + nat" where
  "page_end t page =
     (let xs = visible_items t in
      case hp_before page of
        None \<Rightarrow> Inr (length xs)
      | Some before \<Rightarrow>
          (case position (\<lambda>i. it_id i = before) xs of
             Some at \<Rightarrow> Inr at
           | None \<Rightarrow>
               if hp_max_bytes page \<noteq> None
               then Inl (kernel_error_new ErrStaleGeneration ''the history cursor is no longer present'')
               else Inr (length xs)))"

definition history :: "item_json \<Rightarrow> transcript \<Rightarrow> history_page \<Rightarrow> kernel_error + history_chunk" where
  "history json t page =
     (case check_generation t (hp_generation page) of
        Some e \<Rightarrow> Inl e
      | None \<Rightarrow>
          (case page_end t page of
             Inl e \<Rightarrow> Inl e
           | Inr fin \<Rightarrow>
               (let xs = visible_items t;
                    limit = (if hp_limit page = 0 then fin else hp_limit page)
                in case hp_max_bytes page of
                     None \<Rightarrow>
                       (let start = fin - limit
                        in Inr \<lparr>hc_items = take (fin - start) (drop start xs),
                                hc_next = (if start > 0 then Some (it_id (xs ! start)) else None),
                                hc_generation = tr_generation t, hc_oversized = None\<rparr>)
                   | Some max_bytes \<Rightarrow> bounded_history json t fin limit max_bytes)))"

definition item_for_pin :: "transcript \<Rightarrow> item_id \<Rightarrow> u64 \<Rightarrow> kernel_error + item" where
  "item_for_pin t k generation =
     (case check_generation t (Some generation) of
        Some e \<Rightarrow> Inl e
      | None \<Rightarrow>
          (case find (\<lambda>i. it_id i = k) (visible_items t) of
             Some i \<Rightarrow> Inr i
           | None \<Rightarrow> Inl (kernel_error_new ErrStaleGeneration (''item '' @ k @ '' is no longer present''))))"

section \<open>Attaching\<close>

text \<open>\<open>Actor::subscribe\<close>: what the stream replays is cut by the same message that opens it.\<close>

definition subscribe :: "seq \<Rightarrow> actor \<Rightarrow> frame_stream" where
  "subscribe since a =
     \<lparr>fs_replay = (if since < ka_checkpoint_seq a \<and> ka_store a \<noteq> None
         then ReplayStored since (seq_next (ka_seq a))
         else ReplayHeld (filter (\<lambda>f. fr_seq f > since) (ka_journal a))),
      fs_live = length (ka_out a)\<rparr>"

text \<open>
  \<open>catch_up\<close>: the store is read when the stream is first polled, so it may hold more
  by then; where it cannot be read the client is told what it missed and the stream
  ends.
\<close>

definition catch_up ::
  "world \<Rightarrow> session_id \<Rightarrow> timestamp \<Rightarrow> frame list \<Rightarrow> seq \<Rightarrow> seq \<Rightarrow> frame list \<Rightarrow> frame list" where
  "catch_up w session at stored since upto_seq live_frames =
     (case wo_replay w stored since of
        Inr fs \<Rightarrow> filter (\<lambda>f. fr_seq f < upto_seq) fs @ live_frames
      | Inl _ \<Rightarrow> [\<lparr>fr_seq = upto_seq, fr_ts = at, fr_session = session, fr_cause = None,
                  fr_event = EvLagged (seq_next since) upto_seq\<rparr>])"

text \<open>What a client that keeps up has been sent by the time the actor stands at \<open>b\<close>.\<close>

definition stream_frames :: "world \<Rightarrow> timestamp \<Rightarrow> frame_stream \<Rightarrow> actor \<Rightarrow> frame list" where
  "stream_frames w at s b =
     (let live_frames = drop (fs_live s) (ka_out b) in
      case fs_replay s of
        ReplayHeld fs \<Rightarrow> fs @ live_frames
      | ReplayStored since upto_seq \<Rightarrow>
          catch_up w (ka_id b) at (case ka_store b of Some stored \<Rightarrow> stored | None \<Rightarrow> []) since upto_seq live_frames)"

record open_history =
  oh_before :: "item_id option"
  oh_has_more :: bool
  oh_generation :: u64

type_synonym attached = "session_state \<times> open_history option \<times> frame_stream"

text \<open>The loop over \<open>start\<close> of \<open>bounded_snapshot\<close>; an item without JSON counts as the whole room.\<close>

definition json_bytes :: "nat \<Rightarrow> string + string \<Rightarrow> nat" where
  "json_bytes available r = (case r of Inr raw \<Rightarrow> length raw | Inl _ \<Rightarrow> available)"

fun snapshot_start :: "item_json \<Rightarrow> item list \<Rightarrow> nat \<Rightarrow> nat \<Rightarrow> nat \<Rightarrow> nat" where
  "snapshot_start json xs available used 0 = 0"
| "snapshot_start json xs available used (Suc s) =
     (let size = json_bytes available (json (xs ! s)) in
      if used + size + 1 > available then Suc s
      else snapshot_start json xs available (used + (size + 1)) s)"

definition bounded_snapshot :: "world \<Rightarrow> nat \<Rightarrow> actor \<Rightarrow> session_state \<times> open_history" where
  "bounded_snapshot w budget a =
     (let s = ka_state a;
          t = st_transcript s;
          n = length (visible_items t);
          snap = (state_new (st_summary s))\<lparr>st_seq := st_seq s, st_config := st_config s,
            st_transcript := window t n, st_turn := st_turn s, st_queue := st_queue s,
            st_interactions := st_interactions s, st_context := st_context s, st_last_turn := st_last_turn s,
            st_unread := st_unread s, st_closed := st_closed s, st_extensions := st_extensions s,
            st_signals := st_signals s\<rparr>;
          available = budget - 4096;
          used = json_bytes available (wo_json_state w snap);
          start = snapshot_start (wo_json_item w) (visible_items t) available used n;
          snap' = snap\<lparr>st_transcript := window t start\<rparr>
      in (snap', \<lparr>oh_before = (case visible_items (st_transcript snap') of i # _ \<Rightarrow> Some (it_id i) | [] \<Rightarrow> None),
                  oh_has_more = (start > 0 \<or> tr_has_more t), oh_generation = tr_generation t\<rparr>))"

definition attached_at :: "world \<Rightarrow> nat option \<Rightarrow> actor \<Rightarrow> attached" where
  "attached_at w max_bytes a =
     (case (case max_bytes of
              Some budget \<Rightarrow> (case bounded_snapshot w budget a of (s, h) \<Rightarrow> (s, Some h))
            | None \<Rightarrow> (ka_state a, None)) of
        (snapshot, hist) \<Rightarrow> (snapshot, hist, subscribe (st_seq snapshot) a))"

section \<open>Reading the past\<close>

text \<open>
  \<open>past.rs\<close>: what the actor released is read back from the store on a task; the reply
  waits for it.  Without a store the request is dropped and with it its reply.
\<close>

definition read_past :: "past_request \<Rightarrow> actor \<Rightarrow> actor" where
  "read_past rq a =
     (if ka_store a = None then a
      else start_task (TaskPast (st_seq (ka_state a)) (st_transcript (ka_state a)) rq) a)"

definition past_read :: "world \<Rightarrow> frame list \<Rightarrow> seq \<Rightarrow> transcript \<Rightarrow> kernel_error + transcript" where
  "past_read w stored upto_seq win =
     (case wo_replay w stored 0 of
        Inl e \<Rightarrow> Inl e
      | Inr fs \<Rightarrow> Inr (with_history win
          (foldl (\<lambda>t f. fst (transcript_apply t (fr_event f))) transcript_new
             (filter (\<lambda>f. fr_seq f \<le> upto_seq) fs))))"

text \<open>\<open>None\<close>: the reply comes later, or never.\<close>

definition attach_read :: "world \<Rightarrow> nat option \<Rightarrow> actor \<Rightarrow> attached option \<times> actor" where
  "attach_read w budget a =
     (case attached_at w budget a of (snapshot, hist, stream) \<Rightarrow>
        if budget = None \<and> tr_has_more (st_transcript (ka_state a))
        then (None, read_past (RqAttach snapshot stream) a)
        else (Some (snapshot, hist, stream), a))"

definition history_read :: "world \<Rightarrow> history_page \<Rightarrow> actor \<Rightarrow> (kernel_error + history_chunk) option \<times> actor" where
  "history_read w page a =
     (if tr_has_more (st_transcript (ka_state a)) then (None, read_past (RqPage page) a)
      else (Some (history (wo_json_item w) (st_transcript (ka_state a)) page), a))"

definition pin_read :: "item_id \<Rightarrow> u64 \<Rightarrow> actor \<Rightarrow> (kernel_error + item) option \<times> actor" where
  "pin_read k generation a =
     (if tr_has_more (st_transcript (ka_state a)) then (None, read_past (RqPin k generation) a)
      else (Some (item_for_pin (st_transcript (ka_state a)) k generation), a))"

section \<open>Following the cursors\<close>

text \<open>
  A client that asks for the newest page and then for the page before each cursor it
  is given, until there is none; what does not fit any page it has by its id.
\<close>

fun walk_back ::
  "nat \<Rightarrow> item_json \<Rightarrow> transcript \<Rightarrow> nat \<Rightarrow> nat option \<Rightarrow> item_id option \<Rightarrow> (item list \<times> item_id list) option" where
  "walk_back 0 json t limit max_bytes before = None"
| "walk_back (Suc n) json t limit max_bytes before =
     (case history json t \<lparr>hp_before = before, hp_limit = limit, hp_max_bytes = max_bytes,
                           hp_generation = Some (tr_generation t)\<rparr> of
        Inl _ \<Rightarrow> None
      | Inr c \<Rightarrow>
          (let big = (case hc_oversized c of Some big \<Rightarrow> [ov_id big] | None \<Rightarrow> []) in
           case hc_next c of
             None \<Rightarrow> Some (hc_items c, big)
           | Some k \<Rightarrow> map_option (\<lambda>(xs, os). (xs @ hc_items c, os @ big))
               (walk_back n json t limit max_bytes (Some k))))"

definition item_bytes :: "item_json \<Rightarrow> item \<Rightarrow> nat" where
  "item_bytes json i = (case json i of Inr raw \<Rightarrow> length raw | Inl _ \<Rightarrow> 0)"

definition fits :: "item_json \<Rightarrow> nat option \<Rightarrow> item \<Rightarrow> bool" where
  "fits json max_bytes i = (case max_bytes of None \<Rightarrow> True | Some m \<Rightarrow> 256 + (item_bytes json i + 1) \<le> m)"

text \<open>What the loop of a bounded page comes to.\<close>

lemma bounded_start_within:
  "bounded_start json xs e limit m s0 used = Inr s \<Longrightarrow>
     s \<le> s0 \<and> (s < s0 \<longrightarrow> used + (\<Sum>j = s..<s0. item_bytes json (xs ! j) + 1) \<le> m) \<and>
     e - s \<le> max limit (e - s0)"
proof (induction s0 arbitrary: used)
  case (Suc s0)
  show ?case
  proof (cases "s = Suc s0")
    case False
    then obtain raw where raw: "json (xs ! s0) = Inr raw" "e - Suc s0 < limit" "used + (length raw + 1) \<le> m"
      "bounded_start json xs e limit m s0 (used + (length raw + 1)) = Inr s"
      using Suc.prems by (auto split: if_splits sum.splits)
    then have "item_bytes json (xs ! s0) = length raw" and *: "s \<le> s0"
      "s < s0 \<longrightarrow> used + (length raw + 1) + (\<Sum>j = s..<s0. item_bytes json (xs ! j) + 1) \<le> m"
      "e - s \<le> max limit (e - s0)"
      using Suc.IH[OF raw(4)] by (simp_all add: item_bytes_def)
    then have "used + (\<Sum>j = s..<Suc s0. item_bytes json (xs ! j) + 1) \<le> m"
      using raw(3) by (cases "s < s0") auto
    then show ?thesis
      using * raw(2) by auto
  qed simp
qed simp

lemma bounded_start_stops:
  assumes "\<forall>j < s0. \<not> isl (json (xs ! j))"
  shows "\<exists>s. bounded_start json xs e limit m s0 used = Inr s \<and>
    (s = s0 \<and> 0 < s0 \<and> e - s0 < limit \<longrightarrow> m < used + (item_bytes json (xs ! (s0 - 1)) + 1))"
  using assms
proof (induction s0 arbitrary: used)
  case (Suc s0)
  obtain raw where raw: "json (xs ! s0) = Inr raw" "item_bytes json (xs ! s0) = length raw"
    using Suc.prems by (cases "json (xs ! s0)") (auto simp: item_bytes_def)
  obtain s where s: "bounded_start json xs e limit m s0 (used + (length raw + 1)) = Inr s"
    using Suc.IH[of "used + (length raw + 1)"] Suc.prems by auto
  have "s \<noteq> Suc s0"
    using bounded_start_within[OF s] by simp
  then show ?case
    using raw s by auto
qed simp

lemma in_budget:
  fixes s :: nat
  assumes "s < s0" "used + (\<Sum>j = s..<s0. f j + 1) \<le> (m :: nat)" "s \<le> j" "j < s0"
  shows "used + (f j + 1) \<le> m"
proof -
  have "f j + 1 \<le> (\<Sum>j = s..<s0. f j + 1)"
    using assms by (intro member_le_sum[of j "{s..<s0}" "\<lambda>j. f j + 1"]) auto
  then show ?thesis
    using assms(2) by linarith
qed

lemma slice_nth:
  "fin \<le> length xs \<Longrightarrow> start \<le> fin \<Longrightarrow>
     take (fin - start) (drop start xs) = map (\<lambda>j. xs ! j) [start..<fin]"
  by (intro nth_equalityI) auto

text \<open>A page that ends at \<open>fin\<close>: where it starts and what it leaves out.\<close>

lemma history_page_spec:
  assumes "page_end t page = Inr fin" "check_generation t (hp_generation page) = None" "fin \<le> length (visible_items t)"
    and json: "\<forall>i \<in> set (visible_items t). \<not> isl (json i)"
  obtains start c where "history json t page = Inr c" "start \<le> fin"
    "hc_items c = take (fin - start) (drop start (visible_items t))"
    "\<forall>i \<in> set (hc_items c). fits json (hp_max_bytes page) i"
    "start < fin \<or> fin = 0 \<longrightarrow> hc_oversized c = None \<and>
       hc_next c = (if start = 0 then None else Some (it_id (visible_items t ! start)))"
    "start = fin \<and> 0 < fin \<longrightarrow> \<not> fits json (hp_max_bytes page) (visible_items t ! (fin - 1)) \<and>
       map_option ov_id (hc_oversized c) = Some (it_id (visible_items t ! (fin - 1))) \<and>
       hc_next c = Some (it_id (visible_items t ! (fin - 1)))"
proof (cases "hp_max_bytes page")
  case None
  let ?limit = "if hp_limit page = 0 then fin else hp_limit page"
  let ?c = "\<lparr>hc_items = take (fin - (fin - ?limit)) (drop (fin - ?limit) (visible_items t)),
     hc_next = (if fin - ?limit > 0 then Some (it_id (visible_items t ! (fin - ?limit))) else None),
     hc_generation = tr_generation t, hc_oversized = None\<rparr>"
  have "history json t page = Inr ?c"
    using assms(1,2) None by (simp add: history_def Let_def)
  then show ?thesis
    by (rule that[of ?c "fin - ?limit"]) (use None in \<open>auto simp: fits_def split: if_splits\<close>)
next
  case (Some m)
  let ?xs = "visible_items t"
  let ?limit = "if hp_limit page = 0 then fin else hp_limit page"
  have ser: "\<forall>j < fin. \<not> isl (json (?xs ! j))"
    using json assms(3) by simp
  obtain s where s: "bounded_start json ?xs fin ?limit m fin 256 = Inr s" "s \<le> fin"
    "s < fin \<longrightarrow> 256 + (\<Sum>j = s..<fin. item_bytes json (?xs ! j) + 1) \<le> m"
    "s = fin \<and> 0 < fin \<and> fin - fin < ?limit \<longrightarrow> m < 256 + (item_bytes json (?xs ! (fin - 1)) + 1)"
    using bounded_start_stops[OF ser, of fin ?limit m 256] bounded_start_within by meson
  let ?part = "take (fin - s) (drop s ?xs)"
  have fit: "fits json (Some m) (?xs ! j)" if "s \<le> j" "j < fin" for j
    using in_budget[of s fin 256 "\<lambda>j. item_bytes json (?xs ! j)" m j] s(3) that by (simp add: fits_def)
  have part: "i \<in> set ?part \<Longrightarrow> fits json (Some m) i" for i
    using slice_nth[OF assms(3) s(2)] fit by auto
  show ?thesis
  proof (cases "s = fin \<and> 0 < fin")
    case True
    obtain raw where raw: "json (?xs ! (fin - 1)) = Inr raw"
      using ser True by (cases "json (?xs ! (fin - 1))") (auto dest!: spec[of _ "fin - 1"])
    let ?ov = "\<lparr>ov_id = it_id (?xs ! (fin - 1)), ov_total_bytes = length raw, ov_checksum = fnv1a64 raw\<rparr>"
    let ?c = "\<lparr>hc_items = [], hc_next = Some (it_id (?xs ! (fin - 1))), hc_generation = tr_generation t,
      hc_oversized = Some ?ov\<rparr>"
    have "history json t page = Inr ?c"
      using assms(1,2) Some s(1) True raw by (simp add: history_def bounded_history_def Let_def)
    then show ?thesis
      by (rule that[of ?c fin]) (use True Some s(4) in \<open>auto simp: fits_def split: if_splits\<close>)
  next
    case False
    let ?c = "\<lparr>hc_items = ?part, hc_next = (if s = 0 then None else Some (it_id (?xs ! s))),
      hc_generation = tr_generation t, hc_oversized = None\<rparr>"
    have ne: "?part = [] \<longleftrightarrow> s = 0 \<and> fin = 0" and hd: "?part = i # is \<Longrightarrow> i = ?xs ! s" for i "is"
      using False s(2) by (auto simp: slice_nth[OF assms(3) s(2)] upt_conv_Cons)
    have "history json t page = Inr ?c"
      using assms(1,2) Some s(1) False ne hd
      by (auto simp: history_def bounded_history_def Let_def split: list.splits)
    then show ?thesis
      by (rule that[of ?c s]) (use False Some s(2) part in \<open>auto\<close>)
  qed
qed

text \<open>A cursor a page gave is where the next page ends.\<close>

lemma page_end_at:
  "distinct (map it_id (visible_items t)) \<Longrightarrow> at < length (visible_items t) \<Longrightarrow>
     hp_before page = Some (it_id (visible_items t ! at)) \<Longrightarrow> page_end t page = Inr at"
  using position_nth_self[of "map it_id (visible_items t)" at]
  by (simp add: page_end_def position_map comp_def)

lemma take_split_at: "s \<le> n \<Longrightarrow> n \<le> length xs \<Longrightarrow> take n xs = take s xs @ take (n - s) (drop s xs)"
  by (metis add_diff_cancel_left' le_iff_add take_add)

lemma walk_back_from:
  assumes dis: "distinct (map it_id (visible_items t))"
    and json: "\<forall>i \<in> set (visible_items t). \<not> isl (json i)"
    and "fin \<le> length (visible_items t)" "fin < n"
    and "page_end t \<lparr>hp_before = before, hp_limit = limit, hp_max_bytes = mx,
           hp_generation = Some (tr_generation t)\<rparr> = Inr fin"
  shows "walk_back n json t limit mx before =
    Some (filter (fits json mx) (take fin (visible_items t)),
          map it_id (filter (\<lambda>i. \<not> fits json mx i) (take fin (visible_items t))))"
  using assms(3-)
proof (induction n arbitrary: fin before)
  case (Suc n)
  let ?page = "\<lparr>hp_before = before, hp_limit = limit, hp_max_bytes = mx, hp_generation = Some (tr_generation t)\<rparr>"
  let ?xs = "visible_items t"
  have gen: "check_generation t (hp_generation ?page) = None"
    by (simp add: check_generation_def)
  obtain start c where c: "history json t ?page = Inr c" "start \<le> fin"
    "hc_items c = take (fin - start) (drop start ?xs)"
    "\<forall>i \<in> set (hc_items c). fits json (hp_max_bytes ?page) i"
    "start < fin \<or> fin = 0 \<longrightarrow> hc_oversized c = None \<and>
       hc_next c = (if start = 0 then None else Some (it_id (?xs ! start)))"
    "start = fin \<and> 0 < fin \<longrightarrow> \<not> fits json (hp_max_bytes ?page) (?xs ! (fin - 1)) \<and>
       map_option ov_id (hc_oversized c) = Some (it_id (?xs ! (fin - 1))) \<and>
       hc_next c = Some (it_id (?xs ! (fin - 1)))"
    by (rule history_page_spec[OF Suc.prems(3) gen Suc.prems(1) json], rule that)
  have step: "page_end t \<lparr>hp_before = Some (it_id (?xs ! at)), hp_limit = limit, hp_max_bytes = mx,
      hp_generation = Some (tr_generation t)\<rparr> = Inr at" if "at < fin" for at
    using page_end_at[OF dis, of at] that Suc.prems(1) by simp
  have keep: "filter (fits json mx) (hc_items c) = hc_items c" "filter (\<lambda>i. \<not> fits json mx i) (hc_items c) = []"
    using c(4) by (auto simp: filter_id_conv filter_empty_conv)
  have split: "take fin ?xs = take start ?xs @ hc_items c"
    using take_split_at[OF c(2) Suc.prems(1)] c(3) by simp
  consider "start = fin" "0 < fin" | "start = 0" "start < fin \<or> fin = 0" | "0 < start" "start < fin"
    using c(2) by linarith
  then show ?case
  proof cases
    case 1
    have "take fin ?xs = take (fin - 1) ?xs @ [?xs ! (fin - 1)]"
      using 1 Suc.prems(1) take_Suc_conv_app_nth[of "fin - 1" ?xs] by simp
    then show ?thesis
      using 1 c Suc.IH[of "fin - 1" "Some (it_id (?xs ! (fin - 1)))"] step[of "fin - 1"] Suc.prems(1,2)
      by (auto simp: Let_def)
  next
    case 2
    then show ?thesis
      using c keep split by (simp add: Let_def)
  next
    case 3
    then show ?thesis
      using c keep split Suc.IH[of start "Some (it_id (?xs ! start))"] step[of start] Suc.prems(1,2)
      by (simp add: Let_def)
  qed
qed simp

lemma wf_visible_distinct: "wf_transcript t \<Longrightarrow> distinct (map it_id (visible_items t))"
  by (simp add: wf_transcript_def visible_items_def drop_map[symmetric])

text \<open>
  C33: a client that follows the cursors of its pages, whatever limit and byte budget
  it asks with, comes to an end after at most one page more than there are items and
  has by then been given, in order and once each, every item of the transcript that
  fits a page and the id of every item that does not.
\<close>

theorem paging_visits_everything:
  assumes "wf_transcript t" "\<forall>i \<in> set (visible_items t). \<not> isl (json i)"
    and "length (visible_items t) < n"
  shows "walk_back n json t limit mx None =
    Some (filter (fits json mx) (visible_items t),
          map it_id (filter (\<lambda>i. \<not> fits json mx i) (visible_items t)))"
  using walk_back_from[OF wf_visible_distinct[OF assms(1)] assms(2), of "length (visible_items t)" n None limit mx] assms(3)
  by (simp add: page_end_def)

definition sample_pages :: transcript where
  "sample_pages = foldl (\<lambda>t i. fst (upsert t i)) transcript_new
     [sample_item ''a'' (BAssistant ''one''), sample_item ''b'' (BAssistant ''a long one''),
      sample_item ''c'' (BAssistant ''two'')]"

definition sample_json :: item_json where
  "sample_json i = (case it_body i of BAssistant s \<Rightarrow> Inr s | _ \<Rightarrow> Inl ''no'')"

theorem paging_visits_everything_witness:
  "walk_back 4 sample_json sample_pages 1 (Some 262) None =
     Some ([sample_item ''a'' (BAssistant ''one''), sample_item ''c'' (BAssistant ''two'')], [''b''])"
proof -
  have wf: "wf_transcript sample_pages"
    by (simp add: sample_pages_def wf_upsert)
  have vis: "visible_items sample_pages = [sample_item ''a'' (BAssistant ''one''),
    sample_item ''b'' (BAssistant ''a long one''), sample_item ''c'' (BAssistant ''two'')]"
    by code_simp
  show ?thesis
    using paging_visits_everything[OF wf, of sample_json 4 1 "Some 262"]
    by (simp add: vis sample_json_def sample_item_def fits_def item_bytes_def)
qed

text \<open>
  A page under a byte budget keeps to it: the envelope and the items it carries,
  each with its separator, are at most the budget the client named, and with a limit
  there are no more items than it.
\<close>

theorem page_keeps_its_budget:
  assumes "history json t page = Inr c" "hp_max_bytes page = Some m" "hc_items c \<noteq> []"
  shows "256 + (\<Sum>i \<leftarrow> hc_items c. item_bytes json i + 1) \<le> m \<and>
    (hp_limit page \<noteq> 0 \<longrightarrow> length (hc_items c) \<le> hp_limit page)"
proof -
  let ?xs = "visible_items t"
  obtain fin where fin: "page_end t page = Inr fin" "fin \<le> length ?xs"
    using assms(1) by (auto simp: history_def page_end_def Let_def dest: position_SomeD
        split: option.splits sum.splits if_splits)
  define limit where "limit = (if hp_limit page = 0 then fin else hp_limit page)"
  obtain s where s: "bounded_start json ?xs fin limit m fin 256 = Inr s"
    "hc_items c = take (fin - s) (drop s ?xs)"
    using assms(1,2) fin(1)
    by (auto simp: history_def bounded_history_def Let_def limit_def split: option.splits sum.splits if_splits)
  note w = bounded_start_within[OF s(1)]
  have items: "hc_items c = map (\<lambda>j. ?xs ! j) [s..<fin]"
    using slice_nth[OF fin(2)] w s(2) by simp
  then have "s < fin"
    using assms(3) by simp
  moreover have "(\<Sum>i \<leftarrow> hc_items c. item_bytes json i + 1) = (\<Sum>j = s..<fin. item_bytes json (?xs ! j) + 1)"
    by (simp add: items comp_def interv_sum_list_conv_sum_set_nat)
  ultimately show ?thesis
    using w by (auto simp: limit_def items)
qed

theorem page_keeps_its_budget_witness:
  "256 + (\<Sum>i \<leftarrow> [sample_item ''c'' (BAssistant ''two'')]. item_bytes sample_json i + 1) \<le> (262 :: nat)"
proof -
  let ?page = "\<lparr>hp_before = None, hp_limit = 2, hp_max_bytes = Some 262, hp_generation = None\<rparr>"
  have "history sample_json sample_pages ?page =
    Inr \<lparr>hc_items = [sample_item ''c'' (BAssistant ''two'')], hc_next = Some ''c'', hc_generation = 0,
         hc_oversized = None\<rparr>"
    by code_simp
  from page_keeps_its_budget[OF this, of 262] show ?thesis
    by simp
qed

section \<open>A snapshot and its pages\<close>

lemma snapshot_start_le: "snapshot_start json xs available used s \<le> s"
  by (induction s arbitrary: used) (simp_all add: Let_def le_SucI)

lemma snapshot_start_within:
  "snapshot_start json xs available used s0 = s \<Longrightarrow> s < s0 \<Longrightarrow>
     used + (\<Sum>j = s..<s0. json_bytes available (json (xs ! j)) + 1) \<le> available"
proof (induction s0 arbitrary: used)
  case (Suc s0)
  let ?size = "json_bytes available (json (xs ! s0))"
  have more: "used + ?size + 1 \<le> available" "snapshot_start json xs available (used + (?size + 1)) s0 = s"
    using Suc.prems by (auto simp: Let_def split: if_splits)
  have "s \<le> s0"
    using more(2) snapshot_start_le by blast
  then show ?case
    using Suc.IH[OF more(2)] more(1) by (cases "s < s0") auto
qed simp

lemma bounded_snapshot_items:
  assumes "bounded_snapshot w budget a = (s, h)"
  obtains start where "start \<le> length (visible_items (st_transcript (ka_state a)))"
    "visible_items (st_transcript s) = drop start (visible_items (st_transcript (ka_state a)))"
    "oh_before h = (case drop start (visible_items (st_transcript (ka_state a))) of i # _ \<Rightarrow> Some (it_id i) | [] \<Rightarrow> None)"
    "start < length (visible_items (st_transcript (ka_state a))) \<Longrightarrow>
       (\<Sum>i \<leftarrow> visible_items (st_transcript s). json_bytes (budget - 4096) (wo_json_item w i) + 1) \<le> budget - 4096"
proof -
  let ?xs = "visible_items (st_transcript (ka_state a))"
  obtain used where "s = st_transcript_update (\<lambda>_. window (st_transcript (ka_state a))
        (snapshot_start (wo_json_item w) ?xs (budget - 4096) used (length ?xs))) s"
    and h: "oh_before h = (case visible_items (st_transcript s) of i # _ \<Rightarrow> Some (it_id i) | [] \<Rightarrow> None)"
    using assms by (auto simp: bounded_snapshot_def Let_def)
  then have vis: "visible_items (st_transcript s)
      = drop (snapshot_start (wo_json_item w) ?xs (budget - 4096) used (length ?xs)) ?xs"
    by (metis session_state.select_convs(4) session_state.surjective session_state.update_convs(4) visible_window)
  define start where "start = snapshot_start (wo_json_item w) ?xs (budget - 4096) used (length ?xs)"
  have "drop start ?xs = map (\<lambda>j. ?xs ! j) [start..<length ?xs]"
    using slice_nth[of "length ?xs" ?xs start] snapshot_start_le[of "wo_json_item w" ?xs _ used "length ?xs"]
    by (simp add: start_def)
  then have "(\<Sum>i \<leftarrow> drop start ?xs. json_bytes (budget - 4096) (wo_json_item w i) + 1)
      = (\<Sum>j = start..<length ?xs. json_bytes (budget - 4096) (wo_json_item w (?xs ! j)) + 1)"
    by (simp add: comp_def interv_sum_list_conv_sum_set_nat)
  then have "start < length ?xs \<Longrightarrow>
      (\<Sum>i \<leftarrow> drop start ?xs. json_bytes (budget - 4096) (wo_json_item w i) + 1) \<le> budget - 4096"
    using snapshot_start_within[of "wo_json_item w" ?xs "budget - 4096" used "length ?xs" start] start_def by linarith
  then show thesis
    using that[of start] vis h snapshot_start_le[of "wo_json_item w" ?xs "budget - 4096" used "length ?xs"]
    by (simp add: start_def)
qed

text \<open>
  A client that attaches under a byte budget and then pages back from the cursor
  its snapshot came with has the whole transcript: the items of the snapshot are its
  tail and stay within the budget less the room left for the envelope, and the pages
  before the cursor bring every older item, in order and once, or the id of one that
  fits no page.
\<close>

theorem attach_then_page:
  assumes "bounded_snapshot w budget a = (s, h)" "wf_transcript (st_transcript (ka_state a))"
    and "\<forall>i \<in> set (visible_items (st_transcript (ka_state a))). \<not> isl (wo_json_item w i)"
    and "length (visible_items (st_transcript (ka_state a))) < n"
  shows "\<exists>older. older @ visible_items (st_transcript s) = visible_items (st_transcript (ka_state a)) \<and>
      walk_back n (wo_json_item w) (st_transcript (ka_state a)) limit mx (oh_before h) =
        Some (filter (fits (wo_json_item w) mx) older,
              map it_id (filter (\<lambda>i. \<not> fits (wo_json_item w) mx i) older)) \<and>
      (\<Sum>i \<leftarrow> visible_items (st_transcript s). item_bytes (wo_json_item w) i + 1) \<le> budget - 4096"
proof -
  let ?t = "st_transcript (ka_state a)"
  let ?xs = "visible_items ?t"
  obtain start where start: "start \<le> length ?xs" "visible_items (st_transcript s) = drop start ?xs"
    "oh_before h = (case drop start ?xs of i # _ \<Rightarrow> Some (it_id i) | [] \<Rightarrow> None)"
    "start < length ?xs \<Longrightarrow>
       (\<Sum>i \<leftarrow> visible_items (st_transcript s). json_bytes (budget - 4096) (wo_json_item w i) + 1) \<le> budget - 4096"
    using bounded_snapshot_items[OF assms(1)] by metis
  note dis = wf_visible_distinct[OF assms(2)]
  have fin: "page_end ?t \<lparr>hp_before = oh_before h, hp_limit = limit, hp_max_bytes = mx,
      hp_generation = Some (tr_generation ?t)\<rparr> = Inr start"
  proof (cases "start < length ?xs")
    case True
    then have "oh_before h = Some (it_id (?xs ! start))"
      by (simp add: start(3) Cons_nth_drop_Suc[symmetric])
    then show ?thesis
      using page_end_at[OF dis True] by simp
  next
    case False
    then show ?thesis
      using start(1,3) by (simp add: page_end_def)
  qed
  have bytes: "item_bytes (wo_json_item w) i = json_bytes (budget - 4096) (wo_json_item w i)"
    if "i \<in> set (visible_items (st_transcript s))" for i
    using assms(3) that start(2) by (auto simp: item_bytes_def json_bytes_def dest!: in_set_dropD split: sum.splits)
  have "(\<Sum>i \<leftarrow> visible_items (st_transcript s). item_bytes (wo_json_item w) i + 1) \<le> budget - 4096"
  proof (cases "start < length ?xs")
    case True
    have "(\<Sum>i \<leftarrow> visible_items (st_transcript s). item_bytes (wo_json_item w) i + 1)
        = (\<Sum>i \<leftarrow> visible_items (st_transcript s). json_bytes (budget - 4096) (wo_json_item w i) + 1)"
      using bytes by (intro arg_cong[of _ _ sum_list] map_cong) simp_all
    then show ?thesis
      using start(4)[OF True] by simp
  qed (simp add: start(2))
  then show ?thesis
    using walk_back_from[OF dis assms(3) start(1) _ fin] start(1,2) assms(4)
    by (intro exI[of _ "take start ?xs"]) simp
qed

definition sample_full :: actor where
  "sample_full = sample_actor\<lparr>ka_state := (ka_state sample_actor)\<lparr>st_transcript := sample_pages\<rparr>\<rparr>"

theorem attach_then_page_witness:
  "(let h = snd (bounded_snapshot sample_world 4103 sample_full)
    in oh_before h = Some ''c'' \<and>
       walk_back 4 (wo_json_item sample_world) sample_pages 5 None (oh_before h) =
         Some ([sample_item ''a'' (BAssistant ''one''), sample_item ''b'' (BAssistant ''a long one'')], []))"
proof -
  obtain s h where sh: "bounded_snapshot sample_world 4103 sample_full = (s, h)"
    by fastforce
  have wf: "wf_transcript (st_transcript (ka_state sample_full))"
    by (simp add: sample_full_def sample_pages_def wf_upsert)
  have vis: "visible_items (st_transcript (ka_state sample_full)) = [sample_item ''a'' (BAssistant ''one''),
    sample_item ''b'' (BAssistant ''a long one''), sample_item ''c'' (BAssistant ''two'')]"
    by code_simp
  have s: "visible_items (st_transcript (fst (bounded_snapshot sample_world 4103 sample_full)))
      = [sample_item ''c'' (BAssistant ''two'')]"
    and h: "oh_before (snd (bounded_snapshot sample_world 4103 sample_full)) = Some ''c''"
    by code_simp+
  have "\<exists>older. older @ visible_items (st_transcript s) = visible_items (st_transcript (ka_state sample_full)) \<and>
      walk_back 4 (wo_json_item sample_world) (st_transcript (ka_state sample_full)) 5 None (oh_before h) =
        Some (filter (fits (wo_json_item sample_world) None) older,
              map it_id (filter (\<lambda>i. \<not> fits (wo_json_item sample_world) None i) older)) \<and>
      (\<Sum>i \<leftarrow> visible_items (st_transcript s). item_bytes (wo_json_item sample_world) i + 1) \<le> 4103 - 4096"
    by (rule attach_then_page[OF sh wf]) (simp_all add: vis sample_world_def sample_item_def)
  then show ?thesis
    using s h sh vis by (auto simp: fits_def sample_full_def append_eq_Cons_conv Let_def)
qed

section \<open>Catching up\<close>

text \<open>What a store promises of \<open>replay\<close>: the durable frames after a sequence number, in order.\<close>

definition replays :: "world \<Rightarrow> bool" where
  "replays w \<longleftrightarrow> (\<forall>fs since. wo_replay w fs since = Inr (filter (\<lambda>f. since < fr_seq f) fs))"

lemma stored_after:
  assumes "ordered a" "ka_store a = Some fs" "ka_checkpoint_seq a \<le> since"
  shows "filter (\<lambda>f. since < fr_seq f) (ka_journal a) = filter (\<lambda>f. since < fr_seq f) fs"
proof -
  have "ka_journal a = filter (\<lambda>f. ka_checkpoint_seq a < fr_seq f) fs"
    using assms(1,2) by (simp add: ordered_def journal_ok_def)
  then show ?thesis
    using assms(3) by (auto intro: filter_cong)
qed

lemma stream_catches_up:
  assumes "ordered a" "replays w" "ka_store a = Some fs" "ka_store b = Some (fs @ later)"
    and "\<forall>f \<in> set later. ka_seq a < fr_seq f"
  shows "stream_frames w at (subscribe since a) b = filter (\<lambda>f. since < fr_seq f) fs @ drop (length (ka_out a)) (ka_out b)"
proof (cases "since < ka_checkpoint_seq a")
  case True
  have "\<forall>f \<in> set fs. fr_seq f \<le> ka_seq a"
    using assms(1,3) by (simp add: ordered_def journal_ok_def numbered_def)
  then have "filter (\<lambda>f. since < fr_seq f \<and> fr_seq f < Suc (ka_seq a)) fs = filter (\<lambda>f. since < fr_seq f) fs"
    and "filter (\<lambda>f. since < fr_seq f \<and> fr_seq f < Suc (ka_seq a)) later = []"
    using assms(5) by (auto simp: filter_empty_conv less_Suc_eq_le intro: filter_cong)
  then show ?thesis
    using True assms(2-4) by (simp add: stream_frames_def subscribe_def catch_up_def replays_def seq_next_def)
next
  case False
  then show ?thesis
    using stored_after[OF assms(1,3)] by (simp add: stream_frames_def subscribe_def)
qed

end
