(* ===== verification/Core_Life.thy ===== *)
theory Core_Life
  imports Core_Past
begin

text \<open>
  The life of a session around its inputs: commands that finish, interrupts,
  withdrawn lines, calls handed into a running turn, the end of a turn, closing,
  rewinding, compacting, plugin signals, the head of a segment, the dispatch of the
  actor's mail (\<open>session.rs\<close>, \<open>inputs.rs\<close>, \<open>catalogue.rs\<close>, \<open>complete.rs\<close>,
  \<open>running.rs\<close>, \<open>recovery.rs\<close>, \<open>signals.rs\<close>) and the start of an actor, fresh or
  from its journal (\<open>spawn.rs\<close>).
\<close>

section \<open>Commands that finish\<close>

definition json_action :: "action \<Rightarrow> json" where
  "json_action c = JObject [(''name'', JString (ac_name c)), (''args'', ac_args c)]"

text \<open>A field added to an object under construction, where there is one.\<close>

definition with_field :: "string \<Rightarrow> string option \<Rightarrow> (string \<times> json) list \<Rightarrow> (string \<times> json) list" where
  "with_field k v fs = fs @ (case v of Some s \<Rightarrow> [(k, JString s)] | None \<Rightarrow> [])"

definition recorded :: "world \<Rightarrow> intent_id \<Rightarrow> item_body \<Rightarrow> actor \<Rightarrow> unit result" where
  "recorded w intent body a =
     and_then (record_for w (Some intent) body a) (\<lambda>k a.
       applied_ack w intent (JObject (with_field ''message'' (receipt body) [(''item'', JString k)])) a)"

definition command_acked ::
  "world \<Rightarrow> intent_id \<Rightarrow> finished_run \<Rightarrow> kernel_error + command_outcome \<Rightarrow> actor \<Rightarrow> unit result" where
  "command_acked w intent run oc a =
     (case oc of
        Inr (CoAcknowledged v) \<Rightarrow> applied_ack w intent v a
      | Inr (CoSurface c fallback) \<Rightarrow>
          applied_ack w intent (JObject (with_field ''drawnBy'' (fu_vouched run)
            (with_field ''message'' fallback
              [(''handled'', JBool True), (''surface'', json_action c)]))) a
      | Inr (CoAnswer an) \<Rightarrow>
          applied_ack w intent (JObject [(''handled'', JBool True), (''answer'', wo_json_answer w an)]) a
      | Inr (CoHandled h) \<Rightarrow> applied_ack w intent (JObject [(''handled'', JBool h)]) a
      | Inr (CoApplied message) \<Rightarrow> applied_ack w intent (JObject (with_field ''message'' message [])) a
      | Inr (CoView v) \<Rightarrow> applied_ack w intent (JObject [(''view'', wo_json_view w v)]) a
      | Inr (CoRecord body) \<Rightarrow> recorded w intent body a
      | Inr (CoPrompt t) \<Rightarrow>
          returns () (gate_input intent
            (input_text (iv_prompt (fu_invocation run) t) (iv_origin (fu_invocation run))) InProse a)
      | Inl e \<Rightarrow> reject w intent (ke_code e) (ke_message e) a)"

definition command_finished ::
  "world \<Rightarrow> intent_id \<Rightarrow> kernel_error + command_outcome \<Rightarrow> actor \<Rightarrow> unit result" where
  "command_finished w intent oc a =
     (case commands_finish intent (ka_commands a) of
        (None, c) \<Rightarrow> returns () (a\<lparr>ka_commands := c\<rparr>)
      | (Some run, c) \<Rightarrow>
          and_then (if fu_held run then cancel_command_interactions w (a\<lparr>ka_commands := c\<rparr>)
                    else returns () (a\<lparr>ka_commands := c\<rparr>)) (\<lambda>_ a.
          and_then (command_acked w intent run oc a) (\<lambda>_ a.
          and_then (refresh_config w a) (\<lambda>_ a. drain_queue w a))))"

text \<open>
  \<open>settled\<close>: a supervised run as the outcome its ack reports, and whether the
  outcome is the command's own.  The run gave nothing (it was dropped), panicked, or
  returned.
\<close>

definition settled ::
  "(string + (kernel_error + (command_outcome \<times> bool))) option \<Rightarrow> bool \<Rightarrow> bool \<Rightarrow>
   (kernel_error + command_outcome) \<times> bool" where
  "settled returned cancelled own =
     (if cancelled then (Inl commands_interrupted, own)
      else (case returned of
          Some (Inr (Inr (oc, mine))) \<Rightarrow> (Inr oc, mine)
        | Some (Inr (Inl e)) \<Rightarrow> (Inl e, own)
        | Some (Inl panic) \<Rightarrow> (Inl (kernel_error_new ErrInternal (''the command panicked: '' @ panic)), own)
        | None \<Rightarrow> (Inl commands_interrupted, own)))"

text \<open>The run's task writes its flag and then mails the outcome.\<close>

definition settle_run :: "intent_id \<Rightarrow> bool \<Rightarrow> actor \<Rightarrow> actor" where
  "settle_run intent own a =
     (let c = ka_commands a in
      a\<lparr>ka_commands := c\<lparr>cm_inflight :=
          map (\<lambda>(k, f). (k, if k = intent then f\<lparr>fi_own := own\<rparr> else f)) (cm_inflight c)\<rparr>\<rparr>)"

section \<open>Interrupts and withdrawn lines\<close>

definition cancel_running :: "actor \<Rightarrow> actor" where
  "cancel_running a = a\<lparr>ka_running := map_option (\<lambda>r. r\<lparr>rn_cancelled := True\<rparr>) (ka_running a)\<rparr>"

definition interrupt :: "world \<Rightarrow> intent_id \<Rightarrow> interrupt_scope \<Rightarrow> actor \<Rightarrow> unit result" where
  "interrupt w intent sc a =
     (case ka_running a of
        None \<Rightarrow>
          (case (if sc = ScHead then commands_interrupt (ka_commands a) else (None, ka_commands a)) of
             (Some command, c) \<Rightarrow>
               and_then (cancel_command_interactions w (a\<lparr>ka_commands := c\<rparr>)) (\<lambda>_ a.
                 applied_ack w intent (JObject [(''command'', JString command)]) a)
           | (None, _) \<Rightarrow>
               (case (if sc = ScHead then gate_interrupt (ka_gate a) else (None, ka_gate a)) of
                  (Some k, g) \<Rightarrow>
                    applied_ack w intent (JObject [(''input'', JString k)]) (a\<lparr>ka_gate := g\<rparr>)
                | (None, _) \<Rightarrow> reject w intent ErrNotReady ''no turn is running'' a))
      | Some r \<Rightarrow>
          (if (case sc of ScTurn t \<Rightarrow> t \<noteq> rn_turn r | ScHead \<Rightarrow> False)
           then reject w intent ErrNotReady ''that turn is not running'' a
           else and_then (cancel_interactions w CrInterrupted (cancel_running (remember_stopped_ask a)))
             (\<lambda>_ a. applied_ack w intent (JObject [(''turn'', JString (rn_turn r))]) a)))"

definition gone :: "intent_id \<Rightarrow> kernel_error" where
  "gone intent = kernel_error_new ErrNotFound (''no line of '' @ intent @ '' is waiting in this queue'')"

definition take_back :: "world \<Rightarrow> intent_id \<Rightarrow> actor \<Rightarrow> (input option) result" where
  "take_back w intent a =
     (case queue_take intent (ka_queue a) of
        (None, _) \<Rightarrow> returns None a
      | (Some i, q) \<Rightarrow>
          and_then (announce_queue w (a\<lparr>ka_queue := q\<rparr>)) (\<lambda>_ a. returns (Some i) a))"

definition withdraw :: "world \<Rightarrow> intent_id \<Rightarrow> string \<Rightarrow> actor \<Rightarrow> input result" where
  "withdraw w intent surface a =
     (case map_option origin_of (queued intent (ka_queue a)) of
        None \<Rightarrow> (Inl (gone intent), a)
      | Some og \<Rightarrow>
          if or_surface og \<noteq> surface
          then (Inl (kernel_error_new ErrPermissionDenied
                  (''that line is '' @ or_surface og @ [CHR 0x27] @ ''s to take back'')), a)
          else and_then (take_back w intent a) (\<lambda>taken a.
                 case taken of Some i \<Rightarrow> returns i a | None \<Rightarrow> (Inl (gone intent), a)))"

section \<open>Calls handed into the running turn\<close>

definition turn_offers :: "turn_id \<Rightarrow> offered_tool list \<Rightarrow> actor \<Rightarrow> actor" where
  "turn_offers turn tools a =
     (case ka_running a of
        Some r \<Rightarrow> if rn_turn r = turn then a\<lparr>ka_running := Some (r\<lparr>rn_tools := tools\<rparr>)\<rparr> else a
      | None \<Rightarrow> a)"

text \<open>The turn's own task opens and shuts its door.\<close>

definition door_set :: "turn_id \<Rightarrow> bool \<Rightarrow> actor \<Rightarrow> actor" where
  "door_set turn opened a =
     (case ka_running a of
        Some r \<Rightarrow> if rn_turn r = turn then a\<lparr>ka_running := Some (r\<lparr>rn_door := opened\<rparr>)\<rparr> else a
      | None \<Rightarrow> a)"

definition serving :: "string \<Rightarrow> actor \<Rightarrow> kernel_error + (turn_id \<times> offered_tool)" where
  "serving name a =
     (case Option.bind (ka_running a) (\<lambda>r. if rn_door r then Some r else None) of
        None \<Rightarrow> Inl (kernel_error_new ErrNotReady ''no turn is in flight in this session'')
      | Some r \<Rightarrow>
          (case find (\<lambda>t. ot_name t = name) (rn_tools r) of
             Some t \<Rightarrow> Inr (rn_turn r, t)
           | None \<Rightarrow> Inl (kernel_error_new ErrToolNotFound
                      (''the running turn was not offered a tool called '' @ name))))"

definition open_call :: "world \<Rightarrow> turn_id \<Rightarrow> tool_call \<Rightarrow> bool \<Rightarrow> actor \<Rightarrow> item_id result" where
  "open_call w turn call quiet a =
     (case fresh_item w (Some turn) None
        (BToolCall \<lparr>cb_allowed_by = None, cb_asked_at = None, cb_began_at = None,
           cb_call_id = tc_call_id call, cb_name = tc_name call, cb_input = tc_input call, cb_output = None,
           cb_progress = None, cb_duration_ms = None, cb_quiet = quiet\<rparr>) a of (i, a1) \<Rightarrow>
        (let i' = mark_external (i\<lparr>it_status := StPending, it_completed_at := None\<rparr>)
         in and_then (tell w (EvItemStarted i') None a1) (\<lambda>_ a. returns (it_id i') a)))"

text \<open>The second component is the refusal the caller is sent at once, if there is one.\<close>

definition invoke :: "world \<Rightarrow> tool_call \<Rightarrow> actor \<Rightarrow> (kernel_error option) result" where
  "invoke w call a =
     (case serving (tc_name call) a of
        Inl refusal \<Rightarrow> returns (Some refusal) a
      | Inr (turn, tool) \<Rightarrow>
          and_then (open_call w turn call (ot_quiet tool (tc_input call)) a) (\<lambda>k a.
            returns None (start_task (TaskServe turn k call) a)))"

definition call_asked :: "world \<Rightarrow> item_id \<Rightarrow> actor \<Rightarrow> unit result" where
  "call_asked w k a =
     (case get (st_transcript (ka_state a)) k of
        Some i \<Rightarrow>
          (case it_body i of
             BToolCall c \<Rightarrow>
               if cb_asked_at c = None
               then (case now w a of (at, a1) \<Rightarrow>
                       tell w (EvItemUpdated (i\<lparr>it_body := BToolCall (c\<lparr>cb_asked_at := Some at\<rparr>)\<rparr>)) None a1)
               else returns () a
           | _ \<Rightarrow> returns () a)
      | None \<Rightarrow> returns () a)"

definition call_allowed :: "world \<Rightarrow> item_id \<Rightarrow> json \<Rightarrow> actor \<Rightarrow> unit result" where
  "call_allowed w k inp a =
     (case get (st_transcript (ka_state a)) k of
        None \<Rightarrow> returns () a
      | Some i \<Rightarrow>
          (case it_body i of
             BToolCall c \<Rightarrow>
               (case now w a of (at, a1) \<Rightarrow>
                  tell w (EvItemUpdated (i\<lparr>it_status := StRunning,
                     it_body := BToolCall (c\<lparr>cb_began_at := Some at, cb_input := inp\<rparr>)\<rparr>)) None a1)
           | _ \<Rightarrow> tell w (EvItemUpdated (i\<lparr>it_status := StRunning\<rparr>)) None a))"

definition call_finished :: "world \<Rightarrow> tool_outcome \<Rightarrow> actor \<Rightarrow> unit result" where
  "call_finished w out a =
     (case get (st_transcript (ka_state a)) (tu_item out) of
        None \<Rightarrow> returns () a
      | Some i \<Rightarrow>
          (case now w a of (at, a1) \<Rightarrow>
             (let i1 = i\<lparr>it_status := tu_status out, it_completed_at := Some at\<rparr>;
                  i2 = (case it_body i1 of
                      BToolCall c \<Rightarrow> i1\<lparr>it_body := BToolCall (c\<lparr>cb_output := Some (tu_output out),
                        cb_duration_ms := Some (tu_duration_ms out), cb_progress := None\<rparr>)\<rparr>
                    | _ \<Rightarrow> i1)
              in tell w (EvItemCompleted i2) None a1)))"

section \<open>The end of a turn\<close>

text \<open>\<open>recovery.rs\<close>: what a lost or dropped turn left open is closed.\<close>

definition interrupt_items :: "item list \<Rightarrow> timestamp \<Rightarrow> event list" where
  "interrupt_items xs at =
     map (\<lambda>i. EvItemCompleted (i\<lparr>it_status := StInterrupted, it_completed_at := Some at\<rparr>)) xs"

definition recovery_frames ::
  "interaction list \<Rightarrow> live_turn option \<Rightarrow> transcript \<Rightarrow> timestamp \<Rightarrow> event list" where
  "recovery_frames asks turn t at =
     map (\<lambda>i. EvInteractionCancelled (in_id i) CrSessionClosed) asks @
     (case turn of
        None \<Rightarrow> []
      | Some lt \<Rightarrow>
          interrupt_items (open_items t (lt_id lt)) at @
          [EvTurnCompleted (lt_id lt)
             (TsFailed (kernel_error_new ErrTurnLost ''the process ended during this turn'')) (lt_usage lt)])"

definition publish_each :: "world \<Rightarrow> event list \<Rightarrow> actor \<Rightarrow> unit result" where
  "publish_each w evs a = for_each (\<lambda>ev. tell w ev None) evs a"

definition INTERRUPTED_MARKER :: string where
  "INTERRUPTED_MARKER = ''[Request interrupted by user]''"

datatype ended =
    EndReturned turn_status "item list"
  | EndPanicked string
  | EndDropped

definition close_dropped_turn :: "world \<Rightarrow> turn_id \<Rightarrow> actor \<Rightarrow> (turn_status \<times> item list) result" where
  "close_dropped_turn w turn a =
     (case now w a of (at, a1) \<Rightarrow>
        and_then (publish_each w (interrupt_items (open_items (st_transcript (ka_state a1)) turn) at) a1) (\<lambda>_ a.
          (let asked_at = Option.bind (ka_running a) (\<lambda>r. if rn_turn r = turn then rn_stopped_ask r else None)
           in (case fresh_item w (Some turn) None (BInterruption INTERRUPTED_MARKER asked_at) a of (i, a2) \<Rightarrow>
                 and_then (tell w (EvItemCompleted i) None a2) (\<lambda>_ a.
                   returns (TsInterrupted IrUserCancel,
                     filter (\<lambda>i. it_turn i = Some turn) (visible_items (st_transcript (ka_state a)))) a)))))"

text \<open>
  \<open>catalogue::complete\<close>: the end of a turn waits for the hooks, on a task; the
  answer they are shown is what the assistant said in this turn.
\<close>

definition completion_answer :: "turn_id \<Rightarrow> item list \<Rightarrow> string" where
  "completion_answer turn xs =
     join_with nl (List.map_filter (\<lambda>i. case it_body i of BAssistant t \<Rightarrow> Some t | _ \<Rightarrow> None)
       (filter (\<lambda>i. it_turn i = Some turn) xs))"

definition complete_turn :: "turn_id \<Rightarrow> turn_status \<Rightarrow> item list \<Rightarrow> actor \<Rightarrow> actor" where
  "complete_turn turn status xs a =
     start_task (TaskComplete turn status
       (case st_turn (ka_state a) of Some lt \<Rightarrow> lt_usage lt | None \<Rightarrow> usage_default) xs
       (completion_answer turn xs)) a"

definition turn_finished :: "world \<Rightarrow> turn_id \<Rightarrow> ended \<Rightarrow> actor \<Rightarrow> unit result" where
  "turn_finished w turn how a =
     (if \<not> is_running turn a then returns () a
      else and_then (cancel_interactions w CrTurnEnded (remember_stopped_ask a)) (\<lambda>_ a.
        and_then
          (case how of
             EndReturned status xs \<Rightarrow> returns (status, xs) a
           | EndDropped \<Rightarrow> close_dropped_turn w turn a
           | EndPanicked panic \<Rightarrow>
               returns (TsFailed (kernel_error_new ErrTurnLost (''the turn loop panicked: '' @ panic)), []) a)
          (\<lambda>(status, xs) a. returns () (complete_turn turn status xs a))))"

definition after_turn :: "turn_id \<Rightarrow> item list \<Rightarrow> actor \<Rightarrow> actor" where
  "after_turn turn xs a =
     (if tc_hooks_empty (ka_config a) then a else start_task (TaskAfterTurn turn xs) a)"

section \<open>Closing\<close>

datatype flow = Continue | Stop

definition session_hooks :: "phase \<Rightarrow> actor \<Rightarrow> actor" where
  "session_hooks ph a =
     (if tc_hooks_empty (ka_config a) then a else start_task (TaskSessionHooks ph) a)"

definition close_gate :: "world \<Rightarrow> actor \<Rightarrow> unit result" where
  "close_gate w a =
     (case gate_drain (ka_gate a) of (intents, g) \<Rightarrow>
        for_each (\<lambda>intent. reject w intent ErrSessionClosed ''the session is closed'') intents
          (a\<lparr>ka_gate := g\<rparr>))"

definition finish_close :: "world \<Rightarrow> close_reason \<Rightarrow> actor \<Rightarrow> flow result" where
  "finish_close w why a =
     (case drain_all (ka_queue a) of (taken, q) \<Rightarrow>
        and_then (for_each (\<lambda>(intent, _). reject w intent ErrSessionClosed ''the session is closed'') taken
                    (a\<lparr>ka_queue := q\<rparr>)) (\<lambda>_ a.
        and_then (tell w (EvSessionClosed why) None a) (\<lambda>_ a.
          returns Stop (session_hooks PhaseEnd
            (if why = CloseClient \<or> why = CloseShutdown then checkpoint_write a else a)))))"

definition close_session :: "world \<Rightarrow> close_reason \<Rightarrow> actor \<Rightarrow> flow result" where
  "close_session w why a =
     (if st_closed (ka_state a) then returns Stop a
      else
        (let a1 = (cancel_running (remember_stopped_ask a))\<lparr>ka_cancelled := True\<rparr>
         in and_then (close_gate w a1) (\<lambda>_ a.
            and_then (cancel_interactions w CrSessionClosed a) (\<lambda>_ a.
              if ka_running a \<noteq> None then returns Continue (a\<lparr>ka_closing := Some why\<rparr>)
              else finish_close w why a))))"

text \<open>\<open>catalogue::finished\<close>: the hooks have had their word and the turn is over.\<close>

definition completion_ready :: "world \<Rightarrow> completed_turn \<Rightarrow> actor \<Rightarrow> flow result" where
  "completion_ready w ct a =
     (case ka_running a of
        None \<Rightarrow> returns Continue a
      | Some r \<Rightarrow>
          if rn_turn r \<noteq> ct_turn ct then returns Continue a
          else
            (let sw = switched (rn_config r) (ka_config a)
             in and_then (tell w (EvTurnCompleted (ct_turn ct) (ct_status ct) (ct_usage ct)) None
                     (a\<lparr>ka_running := None, ka_ended := ka_ended a @ [running_finish r]\<rparr>)) (\<lambda>_ a.
                and_then (if sw then restate_context w True a else returns () a) (\<lambda>_ a.
                and_then (for_each (\<lambda>body a. and_then (record_body w body a) (\<lambda>_ a. returns () a))
                     (ct_notices ct) a) (\<lambda>_ a.
                and_then (refresh_config w a) (\<lambda>_ a.
                  (let a1 = after_turn (ct_turn ct) (ct_items ct) a
                   in case ka_closing a1 of
                        Some why \<Rightarrow> finish_close w why (a1\<lparr>ka_closing := None\<rparr>)
                      | None \<Rightarrow> and_then (drain_queue w a1) (\<lambda>_ a. returns Continue a))))))))"

section \<open>Rewinding and compacting\<close>

text \<open>\<open>rewind.rs\<close>: that turn's first item and everything after it.\<close>

definition rewind_dropped :: "item list \<Rightarrow> turn_id \<Rightarrow> item_id list option" where
  "rewind_dropped xs to_turn =
     map_option (\<lambda>at. map it_id (drop at xs)) (position (\<lambda>i. it_turn i = Some to_turn) xs)"

definition rewind :: "world \<Rightarrow> transcript \<Rightarrow> turn_id \<Rightarrow> actor \<Rightarrow> u32 result" where
  "rewind w t to_turn a =
     (if ka_running a \<noteq> None then (Inl (kernel_error_new ErrNotReady ''a turn is running''), a)
      else (case rewind_dropped (visible_items t) to_turn of
          None \<Rightarrow> (Inl (kernel_error_new ErrInvalidInput (''this session has no turn '' @ to_turn)), a)
        | Some ids \<Rightarrow>
            (let count = word_of_nat (length ids)
             in and_then (record_body w (BRewind to_turn count) a) (\<lambda>_ a.
                and_then (publish w (EvRewound (tr_generation (st_transcript (ka_state a)) + 1) to_turn ids [])
                     None a) (\<lambda>_ a.
                  returns count a)))))"

definition compact_session :: "world \<Rightarrow> string option \<Rightarrow> actor \<Rightarrow> unit result" where
  "compact_session w instructions a =
     (case tc_model (ka_config a) of
        None \<Rightarrow> (Inl (kernel_error_new ErrInvalidInput ''a log session has nothing to compact''), a)
      | Some m \<Rightarrow>
          if mc_holds_context m
          then (Inl (kernel_error_new ErrInvalidInput
                  (''`'' @ mc_endpoint m @ ''` holds this context and compacts it itself; bingo does not'')), a)
          else if ka_running a \<noteq> None then (Inl (kernel_error_new ErrNotReady ''a turn is running''), a)
          else start_turn w [] OrAuto (KindCompact instructions) a)"

section \<open>Plugin signals and side calls\<close>

definition signal_owner :: "string \<Rightarrow> string \<Rightarrow> session_state \<Rightarrow> item_id option" where
  "signal_owner plugin kind s =
     Option.bind (Mapping.lookup (st_signals s) plugin)
       (\<lambda>kinds. Option.bind (Mapping.lookup kinds kind) ls_generation)"

definition signal_publish ::
  "world \<Rightarrow> string \<Rightarrow> string \<Rightarrow> json \<Rightarrow> item_id option \<Rightarrow> actor \<Rightarrow> unit result" where
  "signal_publish w plugin kind payload generation a =
     (if is_null payload
         \<and> (case generation of Some g \<Rightarrow> signal_owner plugin kind (ka_state a) \<noteq> Some g | None \<Rightarrow> False)
      then returns () a
      else tell w (EvSignal generation plugin kind payload) None a)"

definition handoff :: "world \<Rightarrow> string \<Rightarrow> item_id \<Rightarrow> item_id \<Rightarrow> actor \<Rightarrow> unit result" where
  "handoff w plugin from_item into a =
     (let kinds = unwrap_or (Mapping.lookup (st_signals (ka_state a)) plugin) Mapping.empty;
          owned = filter (\<lambda>(_, s). ls_generation s = Some from_item)
            (map (\<lambda>k. (k, the (Mapping.lookup kinds k))) (Mapping.ordered_keys kinds))
      in for_each (\<lambda>(kind, s). signal_publish w plugin kind (ls_payload s) (Some into)) owned a)"

definition completion_model :: "turn_id option \<Rightarrow> actor \<Rightarrow> kernel_error + model_choice" where
  "completion_model turn a =
     (case (case turn of
              Some t \<Rightarrow>
                (case ka_running a of
                   Some r \<Rightarrow> if rn_turn r = t then Inr (rn_config r)
                             else Inl (kernel_error_new ErrNotReady ''the requested turn is not running'')
                 | None \<Rightarrow> Inl (kernel_error_new ErrNotReady ''the requested turn is not running''))
            | None \<Rightarrow> Inr (ka_config a)) of
        Inl e \<Rightarrow> Inl e
      | Inr c \<Rightarrow>
          (case tc_model c of
             Some m \<Rightarrow> Inr m
           | None \<Rightarrow> Inl (kernel_error_new ErrProviderUnavailable ''the session has no model'')))"

definition side_complete :: "turn_id option \<Rightarrow> actor \<Rightarrow> kernel_error option \<times> actor" where
  "side_complete turn a =
     (case completion_model turn a of
        Inl e \<Rightarrow> (Some e, a)
      | Inr m \<Rightarrow> (None, start_task (TaskSideCall turn m) a))"

definition side_charge :: "world \<Rightarrow> turn_id option \<Rightarrow> string \<Rightarrow> usage \<Rightarrow> actor \<Rightarrow> unit result" where
  "side_charge w turn plugin u a =
     tell w (EvUsageCharged (case turn of Some t \<Rightarrow> if is_running t a then Some t else None | None \<Rightarrow> None)
       plugin u) None a"

section \<open>The head of a segment\<close>

definition observe_journal :: "actor \<Rightarrow> actor" where
  "observe_journal a = (if tc_hooks_empty (ka_config a) then a else a\<lparr>ka_observed := Some []\<rparr>)"

text \<open>A two-level table in the order a \<open>BTreeMap\<close> walks it.\<close>

definition by_plugin_rows :: "'v by_plugin \<Rightarrow> (string \<times> string \<times> 'v) list" where
  "by_plugin_rows t =
     concat (map (\<lambda>p. let kinds = unwrap_or (Mapping.lookup t p) Mapping.empty
                      in map (\<lambda>k. (p, k, the (Mapping.lookup kinds k))) (Mapping.ordered_keys kinds))
       (Mapping.ordered_keys t))"

definition restate_extensions :: "world \<Rightarrow> actor \<Rightarrow> unit result" where
  "restate_extensions w a =
     for_each (\<lambda>(plugin, kind, payload). extend_session w plugin kind payload)
       (by_plugin_rows (st_extensions (ka_state a))) a"

definition open_session :: "world \<Rightarrow> actor \<Rightarrow> unit result" where
  "open_session w a =
     (case restated w a of (summary, a1) \<Rightarrow>
        and_then (publish_summary w summary (observe_journal a1)) (\<lambda>_ a.
        and_then (restate_context w False a) (\<lambda>_ a.
        and_then (restate_extensions w a) (\<lambda>_ a.
        and_then (refresh_config w a) (\<lambda>_ a.
          (case now w a of (at, a1) \<Rightarrow>
             publish_each w (recovery_frames (st_interactions (ka_state a1)) (st_turn (ka_state a1))
               (st_transcript (ka_state a1)) at) a1))))))"

section \<open>The mail\<close>

text \<open>
  A reply channel becomes the \<open>told\<close> beside the result.  \<open>MReserveDelete\<close> carries what the caller decides
  once it has been let in, \<open>MCalling\<close> the hooks on whose stack a message was sent.
\<close>

datatype msg =
    MReserveDelete bool
  | MCalling msg
  | MCatalogueEvent event
  | MCompletionReady completed_turn
  | MComplete "turn_id option"
  | MCharge "turn_id option" string usage
  | MCheckpointed seq "kernel_error option"
  | MGated intent_id gate_verdict
  | MSubmit intent_id input
  | MDeliver intent_id input delivery
  | MExtend string string json
  | MInvalidated "string list"
  | MSignal "item_id option" string string json
  | MTransferSignals string item_id item_id
  | MInterrupt intent_id interrupt_scope
  | MWithdraw intent_id string
  | MAnswer answered
  | MPastLoaded seq u64 "kernel_error + transcript" past_request
  | MAttach "nat option"
  | MTailEvents
  | MEventsSince seq
  | MHistory history_page
  | MItemForPin item_id u64
  | MSummary
  | MEmit turn_id event
  | MAsk "item_id option" interaction_kind "answer_spec list"
  | MAbsorb turn_id
  | MTurnFinished turn_id ended
  | MReceipt item
  | MRecord item_body
  | MProgress item_id string
  | MCommandFinished intent_id "kernel_error + command_outcome"
  | MCommandReady intent_id "kernel_error + command_outcome"
  | MReconfigure turn_config
  | MOffered turn_id "offered_tool list"
  | MInvoke tool_call
  | MCallAsked item_id
  | MCallAllowed item_id json
  | MCallFinished tool_outcome
  | MRewind turn_id
  | MCompact "string option"
  | MClose close_reason

datatype told =
    ToldNothing
  | ToldSummary session_summary
  | ToldRefused kernel_error
  | ToldDone
  | ToldInput input
  | ToldInputs "(intent_id \<times> input) list"
  | ToldItem item
  | ToldId item_id
  | ToldCount u32
  | ToldAttached attached
  | ToldTail seq frame_stream
  | ToldStream frame_stream
  | ToldChunk history_chunk

type_synonym handled = "flow \<times> told"

definition flow_of :: "actor \<Rightarrow> flow" where
  "flow_of a = (if st_closed (ka_state a) then Stop else Continue)"

text \<open>A handler without a reply; one with a reply on which \<open>Err\<close> stops the actor; one whose \<open>Err\<close> is the reply.\<close>

definition quietly :: "unit result \<Rightarrow> handled result" where
  "quietly r = and_then r (\<lambda>_ a. returns (flow_of a, ToldNothing) a)"

definition telling :: "('x \<Rightarrow> told) \<Rightarrow> 'x result \<Rightarrow> handled result" where
  "telling f r = and_then r (\<lambda>x a. returns (flow_of a, f x) a)"

definition replying :: "('x \<Rightarrow> told) \<Rightarrow> 'x result \<Rightarrow> handled result" where
  "replying f r =
     (case r of
        (Inl e, a) \<Rightarrow> returns (flow_of a, ToldRefused e) a
      | (Inr x, a) \<Rightarrow> returns (flow_of a, f x) a)"

definition reserve_delete :: "world \<Rightarrow> bool \<Rightarrow> actor \<Rightarrow> handled result" where
  "reserve_delete w commit a =
     (if busy (ka_state a) \<or> ka_running a \<noteq> None
      then returns (Continue, ToldRefused (kernel_error_new ErrNotReady
             ''session is busy; wait for its turn to finish'')) a
      else if commit then and_then (close_session w CloseDeleted a) (\<lambda>f a. returns (f, ToldDone) a)
      else returns (Continue, ToldDone) a)"

definition catalogue_event :: "world \<Rightarrow> event \<Rightarrow> actor \<Rightarrow> unit result" where
  "catalogue_event w ev a =
     (if (case ev of EvConfigChanged c \<Rightarrow> config_eq c (st_config (ka_state a)) | _ \<Rightarrow> False)
      then returns () a else tell w ev None a)"

text \<open>\<open>catalogue::command_finished\<close>: behind the writes where there are links.\<close>

definition command_reported ::
  "world \<Rightarrow> intent_id \<Rightarrow> kernel_error + command_outcome \<Rightarrow> actor \<Rightarrow> unit result" where
  "command_reported w intent oc a =
     (if tc_has_links (ka_config a) \<and> ka_observed a \<noteq> None then returns () (start_task (TaskReady intent oc) a)
      else command_finished w intent oc a)"

text \<open>A read that is answered at once or, by a later message, once the store has been read.\<close>

definition answering :: "('x \<Rightarrow> told) \<Rightarrow> 'x option \<times> actor \<Rightarrow> handled result" where
  "answering f r = (case r of (x, a) \<Rightarrow> returns (flow_of a, case x of Some y \<Rightarrow> f y | None \<Rightarrow> ToldNothing) a)"

definition told_or :: "('x \<Rightarrow> told) \<Rightarrow> kernel_error + 'x \<Rightarrow> told" where
  "told_or f r = (case r of Inl e \<Rightarrow> ToldRefused e | Inr x \<Rightarrow> f x)"

definition rewind_read :: "world \<Rightarrow> turn_id \<Rightarrow> actor \<Rightarrow> handled result" where
  "rewind_read w turn a =
     (if tr_has_more (st_transcript (ka_state a))
      then (let b = read_past (RqRewind turn) a in returns (flow_of b, ToldNothing) b)
      else replying ToldCount (rewind w (st_transcript (ka_state a)) turn a))"

text \<open>What the store gave back, for the request that waited for it.\<close>

definition past_loaded ::
  "world \<Rightarrow> seq \<Rightarrow> u64 \<Rightarrow> kernel_error + transcript \<Rightarrow> past_request \<Rightarrow> actor \<Rightarrow> handled result" where
  "past_loaded w upto_seq generation loaded rq a =
     (case rq of
        RqAttach snapshot stream \<Rightarrow>
          returns (flow_of a, case loaded of
              Inr t \<Rightarrow> ToldAttached (snapshot\<lparr>st_transcript := t\<rparr>, None, stream)
            | Inl _ \<Rightarrow> ToldNothing) a
      | _ \<Rightarrow>
          (let checked = (case check_generation (st_transcript (ka_state a)) (Some generation) of
                 Some e \<Rightarrow> Inl e | None \<Rightarrow> loaded)
           in case rq of
                RqPage page \<Rightarrow>
                  returns (flow_of a, told_or ToldChunk
                    (case checked of Inl e \<Rightarrow> Inl e | Inr t \<Rightarrow> history (wo_json_item w) t page)) a
              | RqPin k g \<Rightarrow>
                  returns (flow_of a, told_or ToldItem
                    (case checked of Inl e \<Rightarrow> Inl e | Inr t \<Rightarrow> item_for_pin t k g)) a
              | RqRewind turn \<Rightarrow>
                  (case checked of
                     Inr t \<Rightarrow>
                       if upto_seq = st_seq (ka_state a) then replying ToldCount (rewind w t turn a)
                       else returns (flow_of a, ToldRefused
                              (kernel_error_new ErrStaleGeneration ''history changed during rewind'')) a
                   | Inl e \<Rightarrow> returns (flow_of a, ToldRefused e) a)
              | RqAttach _ _ \<Rightarrow> returns (flow_of a, ToldNothing) a))"

definition dispatch_mail :: "world \<Rightarrow> msg \<Rightarrow> actor \<Rightarrow> handled result" where
  "dispatch_mail w m a =
     (case m of
        MCalling _ \<Rightarrow> (Inl (kernel_error_new ErrInternal ''nested operation envelope''), a)
      | MCatalogueEvent ev \<Rightarrow> quietly (catalogue_event w ev a)
      | MCompletionReady ct \<Rightarrow> and_then (completion_ready w ct a) (\<lambda>f a. returns (f, ToldNothing) a)
      | MSubmit intent i \<Rightarrow> quietly (submit w intent i a)
      | MGated intent v \<Rightarrow> quietly (gated w intent v a)
      | MDeliver intent i d \<Rightarrow> quietly (deliver w intent i d a)
      | MExtend plugin kind payload \<Rightarrow> quietly (extend_session w plugin kind payload a)
      | MInvalidated rs \<Rightarrow> quietly (tell w (EvInvalidated rs) None a)
      | MSignal generation plugin kind payload \<Rightarrow> quietly (signal_publish w plugin kind payload generation a)
      | MTransferSignals plugin x y \<Rightarrow> replying (\<lambda>_. ToldDone) (handoff w plugin x y a)
      | MInterrupt intent sc \<Rightarrow> quietly (interrupt w intent sc a)
      | MWithdraw intent surface \<Rightarrow> replying ToldInput (withdraw w intent surface a)
      | MAnswer an \<Rightarrow> quietly (answer_ask w an a)
      | MCheckpointed sq e \<Rightarrow> quietly (returns () (checkpoint_acknowledge sq e a))
      | MPastLoaded upto_seq generation loaded rq \<Rightarrow> past_loaded w upto_seq generation loaded rq a
      | MAttach max_bytes \<Rightarrow> answering ToldAttached (attach_read w max_bytes a)
      | MTailEvents \<Rightarrow>
          returns (flow_of a, ToldTail (st_seq (ka_state a)) (subscribe (st_seq (ka_state a)) a)) a
      | MEventsSince since \<Rightarrow> returns (flow_of a, ToldStream (subscribe since a)) a
      | MHistory page \<Rightarrow> answering (told_or ToldChunk) (history_read w page a)
      | MItemForPin k generation \<Rightarrow> answering (told_or ToldItem) (pin_read k generation a)
      | MSummary \<Rightarrow> returns (flow_of a, ToldSummary (stamped_summary a (st_summary (ka_state a)))) a
      | MEmit turn ev \<Rightarrow> quietly (emit w turn ev a)
      | MAsk k kind specs \<Rightarrow> quietly (open_interaction w k kind specs a)
      | MAbsorb turn \<Rightarrow> telling ToldInputs (absorb w turn a)
      | MTurnFinished turn how \<Rightarrow> and_then (turn_finished w turn how a) (\<lambda>_ a. returns (Continue, ToldNothing) a)
      | MReceipt i \<Rightarrow> telling (\<lambda>r. case r of Inl e \<Rightarrow> ToldRefused e | Inr it \<Rightarrow> ToldItem it) (receipt_of_turn w i a)
      | MRecord body \<Rightarrow> telling ToldId (record_body w body a)
      | MProgress k t \<Rightarrow> quietly (progress w k t a)
      | MCommandFinished intent oc \<Rightarrow> quietly (command_reported w intent oc a)
      | MCommandReady intent oc \<Rightarrow> quietly (command_finished w intent oc a)
      | MReconfigure c \<Rightarrow> quietly (reconfigure w c a)
      | MOffered turn tools \<Rightarrow> quietly (returns () (turn_offers turn tools a))
      | MComplete turn \<Rightarrow>
          (case side_complete turn a of (r, a1) \<Rightarrow>
             returns (flow_of a1, case r of Some e \<Rightarrow> ToldRefused e | None \<Rightarrow> ToldNothing) a1)
      | MCharge turn plugin u \<Rightarrow> replying (\<lambda>_. ToldDone) (side_charge w turn plugin u a)
      | MInvoke call \<Rightarrow>
          telling (\<lambda>r. case r of Some e \<Rightarrow> ToldRefused e | None \<Rightarrow> ToldNothing) (invoke w call a)
      | MCallAsked k \<Rightarrow> quietly (call_asked w k a)
      | MCallAllowed k inp \<Rightarrow> quietly (call_allowed w k inp a)
      | MCallFinished out \<Rightarrow> quietly (call_finished w out a)
      | MRewind turn \<Rightarrow> rewind_read w turn a
      | MCompact instructions \<Rightarrow> replying (\<lambda>_. ToldDone) (compact_session w instructions a)
      | MReserveDelete commit \<Rightarrow> reserve_delete w commit a
      | MClose why \<Rightarrow> and_then (close_session w why a) (\<lambda>f a. returns (f, ToldNothing) a))"

text \<open>\<open>Actor::handle\<close>: the hooks of the sender are in scope for the one message; an error stops the actor.\<close>

definition handle_mail :: "world \<Rightarrow> msg \<Rightarrow> actor \<Rightarrow> handled \<times> actor" where
  "handle_mail w m a =
     (case (case m of MCalling m' \<Rightarrow> dispatch_mail w m' (a\<lparr>ka_calling := True\<rparr>)
                    | _ \<Rightarrow> dispatch_mail w m (a\<lparr>ka_calling := False\<rparr>)) of
        (Inl _, b) \<Rightarrow> ((Stop, ToldNothing), b)
      | (Inr h, b) \<Rightarrow> (h, b))"

section \<open>The run of an actor\<close>

fun msg_reads :: "msg \<Rightarrow> bool" where
  "msg_reads (MCalling m) = msg_reads m"
| "msg_reads MSummary = True"
| "msg_reads _ = False"

text \<open>While the start hooks run, summaries are answered and everything else is held.\<close>

fun serve_start :: "world \<Rightarrow> msg list \<Rightarrow> actor \<Rightarrow> msg list \<times> actor" where
  "serve_start w [] a = ([], a)"
| "serve_start w (m # ms) a =
     (if msg_reads m then serve_start w ms (snd (handle_mail w m a))
      else (case serve_start w ms a of (kept, b) \<Rightarrow> (m # kept, b)))"

fun serve :: "world \<Rightarrow> msg list \<Rightarrow> actor \<Rightarrow> flow \<times> actor" where
  "serve w [] a = (Continue, a)"
| "serve w (m # ms) a =
     (case handle_mail w m a of
        ((Continue, _), b) \<Rightarrow> serve w ms b
      | ((Stop, _), b) \<Rightarrow> (Stop, b))"

definition leave :: "actor \<Rightarrow> actor" where
  "leave a = (remember_stopped_ask a)\<lparr>ka_running := None, ka_cancelled := True, ka_rx_closed := True,
     ka_observed := None\<rparr>"

text \<open>The first checkpoint of a journal that never had one is asked for before the session opens.\<close>

definition before_open :: "actor \<Rightarrow> actor" where
  "before_open a = (if ka_seq a > 0 \<and> ka_checkpoint_seq a = 0 then checkpoint_write a else a)"

definition run_actor :: "world \<Rightarrow> msg list \<Rightarrow> msg list \<Rightarrow> actor \<Rightarrow> actor" where
  "run_actor w during after a =
     (case open_session w (before_open a) of
        (Inl _, b) \<Rightarrow> leave b
      | (Inr _, b) \<Rightarrow> (case serve_start w during b of (kept, c) \<Rightarrow> leave (snd (serve w (kept @ after) c))))"

section \<open>Starting an actor\<close>

definition head_summary :: "frame list \<Rightarrow> kernel_error + session_summary" where
  "head_summary fs =
     (case fs of
        f # _ \<Rightarrow> (case fr_event f of
            EvSessionUpdated s \<Rightarrow> Inr s
          | _ \<Rightarrow> Inl (kernel_error_new ErrStorage
                  (''the journal does not start with the session'' @ [CHR 0x27] @ ''s summary'')))
      | [] \<Rightarrow> Inl (kernel_error_new ErrStorage
                  (''the journal does not start with the session'' @ [CHR 0x27] @ ''s summary'')))"

definition replayed :: "frame list \<Rightarrow> kernel_error + session_state" where
  "replayed fs =
     (case head_summary fs of Inl e \<Rightarrow> Inl e | Inr s \<Rightarrow> Inr (state_fold (state_new s) fs))"

record resumed =
  re_state :: "session_state option"
  re_tail :: "frame list"

definition fold_resumed :: "resumed \<Rightarrow> kernel_error + session_state" where
  "fold_resumed r =
     (case re_state r of
        Some s \<Rightarrow> Inr (state_fold s (re_tail r))
      | None \<Rightarrow> (case head_summary (re_tail r) of
            Inl e \<Rightarrow> Inl e
          | Inr s \<Rightarrow> Inr (state_fold (state_new s) (re_tail r))))"

text \<open>What a host hands a new actor: its configuration, its commands and, in the model, where clock and minter stand.\<close>

definition spawn_with ::
  "session_state \<Rightarrow> frame list \<Rightarrow> seq \<Rightarrow> frame list option \<Rightarrow> turn_config \<Rightarrow> (string \<times> drawn) list \<Rightarrow>
   nat \<Rightarrow> nat \<Rightarrow> actor" where
  "spawn_with s journal cp store config drawings ticks minted =
     \<lparr>ka_id = ss_id (st_summary s), ka_state = s, ka_journal = journal, ka_checkpoint_seq = cp,
      ka_seq = st_seq s, ka_store = store, ka_config = config, ka_running = None, ka_queue = queue_default,
      ka_commands = \<lparr>cm_host_alive = True, cm_drawings = drawings, cm_inflight = [], cm_holding = None\<rparr>,
      ka_gate = \<lparr>ig_waiting = [], ig_flight = None\<rparr>, ka_cancelled = False, ka_pending = [],
      ka_closing = None, ka_progress_n = 0, ka_rx_closed = False, ka_calling = False, ka_clock = ticks,
      ka_minted = minted, ka_ended = [], ka_out = [], ka_observed = None, ka_replies = [], ka_spawned = []\<rparr>"

definition spawn ::
  "session_summary \<Rightarrow> frame list option \<Rightarrow> turn_config \<Rightarrow> (string \<times> drawn) list \<Rightarrow> nat \<Rightarrow> nat \<Rightarrow> actor" where
  "spawn summary store config drawings ticks minted =
     spawn_with (state_new summary) [] 0 store config drawings ticks minted"

definition resume_checkpoint ::
  "resumed \<Rightarrow> frame list option \<Rightarrow> turn_config \<Rightarrow> (string \<times> drawn) list \<Rightarrow> nat \<Rightarrow> nat \<Rightarrow>
   kernel_error + actor" where
  "resume_checkpoint r store config drawings ticks minted =
     (let cp = (case re_state r of Some s \<Rightarrow> st_seq s | None \<Rightarrow> 0)
      in case fold_resumed r of
           Inl e \<Rightarrow> Inl e
         | Inr s \<Rightarrow>
             (let s1 = (if cp > 0 then s\<lparr>st_transcript := drop_before_cut (st_transcript s)\<rparr> else s)
              in Inr (spawn_with (s1\<lparr>st_signals := Mapping.empty\<rparr>) (re_tail r) cp store config drawings
                        ticks minted)))"

definition resume ::
  "frame list \<Rightarrow> frame list option \<Rightarrow> turn_config \<Rightarrow> (string \<times> drawn) list \<Rightarrow> nat \<Rightarrow> nat \<Rightarrow>
   kernel_error + actor" where
  "resume fs store config drawings ticks minted =
     resume_checkpoint \<lparr>re_state = None, re_tail = fs\<rparr> store config drawings ticks minted"

end
