(* ===== verification/Core_Mirror.thy ===== *)
theory Core_Mirror
  imports Core_Life
begin

text \<open>
  The mirror of a session stays true.  Every message an actor handles, in any
  order and whatever the store answers, leaves it in a state where what the clients
  were shown is what the kernel holds; the lemmas follow the text of the operations
  of \<open>Core_Session\<close> and \<open>Core_Life\<close>, one each, over the rules of \<open>Core_Publish\<close>.
\<close>

section \<open>The queue\<close>

text \<open>Everything the mirror shows is true but, perhaps, the rows of the queue.\<close>

definition unannounced :: "actor \<Rightarrow> bool" where
  "unannounced a \<longleftrightarrow>
     ordered a \<and> fst (face a) = map_option rn_turn (ka_running a) \<and> asks_ok (ka_pending a) (fst (snd (face a)))"

lemma live_iff: "live a \<longleftrightarrow> unannounced a \<and> snd (snd (face a)) = queue_rows (ka_queue a)"
  by (auto simp: live_def unannounced_def view_ok_face split: prod.splits)

lemma unannounced_queue: "unannounced (a\<lparr>ka_queue := q\<rparr>) \<longleftrightarrow> unannounced a"
  by (auto simp: unannounced_def elim!: ordered_cong)

lemma live_unannounced: "live a \<Longrightarrow> unannounced a"
  by (simp add: live_iff)

lemma unannounced_ordered: "unannounced a \<Longrightarrow> ordered a"
  by (simp add: unannounced_def)

lemma unannounced_still: "unannounced a \<Longrightarrow> still a b \<Longrightarrow> unannounced b"
  using shell_fields(1,2)[of b a] by (auto simp: still_def unannounced_def)

lemma good_announce:
  assumes "unannounced a"
  shows "good crashed (\<lambda>_ b. live b \<and> core (b\<lparr>ka_queue := q\<rparr>) = core (a\<lparr>ka_queue := q\<rparr>)
           \<and> qu_entries (ka_queue b) = qu_entries (ka_queue a)) (announce_queue w a)"
proof -
  define q' where "q' = (ka_queue a)\<lparr>qu_revision := qu_revision (ka_queue a) + 1\<rparr>"
  define a1 where "a1 = a\<lparr>ka_queue := q'\<rparr>"
  have eq: "announce_queue w a = tell w (EvQueueChanged (qu_revision q') (queue_rows q')) None a1"
    by (simp add: announce_queue_def queue_changed_event_def Let_def q'_def a1_def)
  have a1: "unannounced a1"
    using assms by (simp add: a1_def unannounced_queue)
  show ?thesis
    unfolding eq
  proof (rule good_tell)
    fix b
    assume b: "ordered b" "face b = face_step (EvQueueChanged (qu_revision q') (queue_rows q')) (face a1)"
      "core b = core a1"
    have "live b"
      using b a1 core_fields(1-3)[OF b(3)]
      by (cases "face a1") (auto simp: live_iff unannounced_def face_step_def turn_step_def
          interactions_step_def queue_step_def a1_def)
    moreover have "core (b\<lparr>ka_queue := q\<rparr>) = (core b)\<lparr>ka_queue := q\<rparr>"
      by (simp add: core_def)
    then have "core (b\<lparr>ka_queue := q\<rparr>) = core (a\<lparr>ka_queue := q\<rparr>)"
      unfolding b(3) by (simp add: core_def a1_def)
    ultimately show "live b \<and> core (b\<lparr>ka_queue := q\<rparr>) = core (a\<lparr>ka_queue := q\<rparr>)
        \<and> qu_entries (ka_queue b) = qu_entries (ka_queue a)"
      using core_fields(3)[OF b(3)] by (simp add: a1_def q'_def)
  qed (use a1 in \<open>auto simp: unannounced_def\<close>)
qed

text \<open>What an operation on the queue leaves alone.\<close>

definition flank :: "actor \<Rightarrow> actor" where
  "flank a = (shell a)\<lparr>ka_queue := queue_default\<rparr>"

lemma flank_sel [simp]:
  "ka_running (flank a) = ka_running a" "ka_pending (flank a) = ka_pending a"
  "ka_commands (flank a) = ka_commands a" "ka_gate (flank a) = ka_gate a" "ka_closing (flank a) = ka_closing a"
  "ka_config (flank a) = ka_config a" "ka_cancelled (flank a) = ka_cancelled a"
  by (simp_all add: flank_def)

lemma flank_fields:
  assumes "flank b = flank a"
  shows "ka_running b = ka_running a" "ka_pending b = ka_pending a" "ka_commands b = ka_commands a"
    "ka_gate b = ka_gate a" "ka_closing b = ka_closing a" "ka_config b = ka_config a"
  by (metis assms flank_sel)+

lemma flank_shell: "shell b = shell a \<Longrightarrow> flank b = flank a"
  by (simp add: flank_def)

lemma flank_queue [simp]: "flank (a\<lparr>ka_queue := q\<rparr>) = flank a"
  by (simp add: flank_def shell_def core_def)

lemma good_announce_flank:
  assumes "unannounced a"
  shows "good crashed (\<lambda>_ b. live b \<and> flank b = flank a \<and> qu_entries (ka_queue b) = qu_entries (ka_queue a))
           (announce_queue w a)"
proof (rule good_mono[OF good_announce[OF assms, of queue_default]])
  fix b
  assume b: "live b \<and> core (b\<lparr>ka_queue := queue_default\<rparr>) = core (a\<lparr>ka_queue := queue_default\<rparr>)
    \<and> qu_entries (ka_queue b) = qu_entries (ka_queue a)"
  have "flank c = shell (c\<lparr>ka_queue := queue_default\<rparr>)" for c
    by (simp add: flank_def shell_def core_def)
  then show "live b \<and> flank b = flank a \<and> qu_entries (ka_queue b) = qu_entries (ka_queue a)"
    using b by (simp add: shell_def)
qed

lemma take_run_nil: "take_run keep q = ([], q') \<Longrightarrow> q' = q"
  by (cases q) (auto simp: take_run_def Let_def)

lemma good_queue_moved:
  assumes "live a" "taken = [] \<Longrightarrow> q = ka_queue a"
  shows "good crashed (\<lambda>r b. r = taken \<and> live b \<and> flank b = flank a) (queue_moved w taken (a\<lparr>ka_queue := q\<rparr>))"
proof (cases "taken = []")
  case True
  then show ?thesis
    using assms by (auto simp: queue_moved_def intro!: good_returns)
next
  case False
  have u: "unannounced (a\<lparr>ka_queue := q\<rparr>)"
    using assms(1) by (simp add: unannounced_queue live_unannounced)
  show ?thesis
    using False by (auto simp: queue_moved_def intro!: good_and_then[OF good_announce_flank[OF u]] good_returns)
qed

lemma good_take_queue:
  "live a \<Longrightarrow> good crashed (\<lambda>_ b. live b \<and> flank b = flank a) (take_queue w a)"
  by (auto simp: take_queue_def take_prose_def split: prod.split dest: take_run_nil
      intro!: good_mono[OF good_queue_moved])

lemma good_take_steering:
  "live a \<Longrightarrow> good crashed (\<lambda>_ b. live b \<and> flank b = flank a) (take_steering w a)"
  by (auto simp: take_steering_def take_steers_def split: prod.split dest: take_run_nil
      intro!: good_mono[OF good_queue_moved])

lemma good_absorb: "live a \<Longrightarrow> good crashed (\<lambda>_. live) (absorb w turn a)"
  by (auto simp: absorb_def intro: good_returns good_mono[OF good_take_steering])

lemma good_enqueue: "live a \<Longrightarrow> good crashed (\<lambda>_. live) (enqueue w intent p a)"
  unfolding enqueue_def
  by (auto simp: unannounced_queue live_unannounced split: prod.split
      intro!: good_and_then[OF good_announce_flank] good_mono[OF good_tell_neutral])

section \<open>Opening a turn\<close>

lemma aside_start_gate: "aside_eq a (start_gate a)"
  by (auto simp: start_gate_def aside_eq_def start_task_def split: list.splits)

lemma aside_trans: "aside_eq a b \<Longrightarrow> aside_eq b c \<Longrightarrow> aside_eq a c"
  by (auto simp: aside_eq_def)

lemma aside_gate_input: "aside_eq a (gate_input intent i kind a)"
proof -
  have "aside_eq a (a\<lparr>ka_gate := g\<rparr>)" for g
    by (simp add: aside_eq_def)
  then show ?thesis
    unfolding gate_input_def Let_def by (blast intro: aside_trans aside_start_gate)
qed

lemma live_gate_input: "live a \<Longrightarrow> live (gate_input intent i kind a)"
  by (erule live_aside) (rule aside_gate_input)

lemma live_start_gate: "live a \<Longrightarrow> live (start_gate a)"
  by (erule live_aside) (rule aside_start_gate)

lemma unannounced_aside: "unannounced a \<Longrightarrow> aside_eq a b \<Longrightarrow> unannounced b"
  using ordered_aside[of a b] by (auto simp: unannounced_def aside_eq_def)

lemma still_journal_prose:
  assumes "ordered a"
  shows "good crashed (\<lambda>_. still a) (journal_prose w turn intent i a)"
proof (cases i)
  case (InText t imgs og d h)
  obtain blank a1 where f: "fresh_item w turn (Some intent) (BUnknown []) a = (blank, a1)"
    by fastforce
  then have a1: "still a a1"
    using assms still_fresh_item by blast
  then have "good crashed (\<lambda>_. still a1) (and_then (publish w (EvItemCompleted it) (Some intent) a1)
      (\<lambda>_ a. returns (Some (it_id it)) a))" for it
    by (blast intro: still_then good_still steady_publish still_ordered still_returns neutral_events)
  then show ?thesis
    using InText f a1 by (auto simp: journal_prose_def intro: good_returns still_from[OF a1] split: option.split)
qed (use assms in \<open>auto simp: journal_prose_def still_refl intro: good_returns\<close>)

lemma still_record_inputs:
  "ordered a \<Longrightarrow> good crashed (\<lambda>_. still a) (record_inputs w turn xs a)"
proof (induction xs arbitrary: a)
  case Nil
  then show ?case
    by (simp add: good_returns still_refl)
next
  case (Cons x xs)
  obtain intent i where x: "x = (intent, i)"
    by fastforce
  have "good crashed (\<lambda>_. still b) (and_then (record_inputs w turn xs b) (\<lambda>(ids, acks) a.
      returns (case made of Some k \<Rightarrow> (k # ids, intent # acks) | None \<Rightarrow> (ids, acks)) a))"
    if "still a b" for b made
    using Cons.IH[OF still_ordered[OF that]] by (rule still_then) (auto intro: still_returns)
  then show ?case
    unfolding x record_inputs.simps by (rule still_then[OF still_journal_prose[OF Cons.prems]])
qed

lemma steady_ack_turn_started:
  "ordered a \<Longrightarrow> good crashed (\<lambda>_. steady a) (ack_turn_started w turn acks a)"
  unfolding ack_turn_started_def by (rule steady_for_each) (auto intro: steady_tell)

text \<open>The turn that opens is the one the mirror shows, and nothing else moves.\<close>

lemma good_start_turn:
  assumes "unannounced a" "ka_running a = None"
  shows "good crashed (\<lambda>_ b. unannounced b \<and> snd (face b) = snd (face a) \<and> ka_queue b = ka_queue a)
           (start_turn w inputs og kind a)"
proof -
  obtain turn a1 where m: "mint w ''trn'' a = (turn, a1)"
    by fastforce
  have a1: "still a a1"
    using assms still_mint[OF _ m] by (simp add: unannounced_def)
  have f: "fst (face a) = None"
    using assms by (simp add: unannounced_def)
  let ?open = "\<lambda>b. ordered b \<and> face b = (Some turn, snd (face a)) \<and> shell b = shell a"
  have opened: "good crashed (\<lambda>_. ?open) (tell w (EvTurnStarted turn ids og) None b)" if "still a b" for b ids
  proof (rule good_tell)
    fix c
    assume "ordered c" "face c = face_step (EvTurnStarted turn ids og) (face b)" "core c = core b"
    then show "?open c"
      using that shell_core[of c b]
      by (cases "face a") (auto simp: still_def face_step_def turn_step_def interactions_step_def queue_step_def)
  qed (use that f in \<open>auto simp: still_def publishable_def turn_allowed_def is_lagged_def\<close>)
  have acked: "good crashed (\<lambda>_. ?open) (ack_turn_started w turn acks b)" if "?open b" for b acks
    by (rule good_mono[OF steady_ack_turn_started]) (use that in \<open>auto simp: steady_def dest: shell_core\<close>)
  let ?Q = "\<lambda>b. unannounced b \<and> snd (face b) = snd (face a) \<and> ka_queue b = ka_queue a"
  have fin: "?Q ((start_task (TaskTurn turn kind t) b)\<lparr>ka_running := Some r\<rparr>)"
    if "?open b" "rn_turn r = turn" for b r t
  proof -
    define c where "c = start_task (TaskTurn turn kind t) b"
    have c: "ordered c" "face c = (Some turn, snd (face a))" "ka_pending c = ka_pending a" "ka_queue c = ka_queue a"
      using that(1) steady_start_task[of b "TaskTurn turn kind t"] shell_fields(2,3)[of b a]
      by (auto simp: c_def start_task_def steady_def)
    then have "ordered (c\<lparr>ka_running := Some r\<rparr>)"
      by (auto elim!: ordered_cong)
    then show ?thesis
      using c assms(1) that(2) unfolding c_def[symmetric] by (simp add: unannounced_def)
  qed
  have tail: "good crashed (\<lambda>_. ?Q)
      (and_then (tell w (EvTurnStarted turn ids og) None b) (\<lambda>_ a.
       and_then (ack_turn_started w turn acks a) (\<lambda>_ a.
         returns () ((start_task (TaskTurn turn kind (st_transcript (ka_state a))) a)
            \<lparr>ka_running := Some \<lparr>rn_turn = turn, rn_cancelled = False, rn_door = False, rn_tools = [],
               rn_completed = False, rn_stopped_ask = None, rn_config = ka_config a\<rparr>\<rparr>))))"
    if "still a b" for b ids acks
    by (rule good_and_then[OF opened[OF that]], rule good_and_then[OF acked], assumption)
      (rule good_returns, rule fin, simp_all)
  have "good crashed (\<lambda>_. still a) (record_inputs w turn inputs a1)"
    using still_record_inputs still_ordered[OF a1] still_from[OF a1] by blast
  then show ?thesis
    unfolding start_turn_def m prod.case by (rule good_and_then) (auto split: prod.split simp: tail)
qed

lemma good_start_turn_live:
  "live a \<Longrightarrow> ka_running a = None \<Longrightarrow> good crashed (\<lambda>_. live) (start_turn w inputs og kind a)"
  by (rule good_mono[OF good_start_turn]) (auto simp: live_iff)

lemma good_drain_queue: 
  assumes "live a"
  shows "good crashed (\<lambda>_. live) (drain_queue w a)"
proof -
  have "good crashed (\<lambda>_. live) (and_then
      (case u of UnitProse inputs \<Rightarrow> start_turn w inputs OrQueue KindRespond (a\<lparr>ka_queue := q\<rparr>)
       | UnitCommand intent i \<Rightarrow> returns () (gate_input intent i InQueued (a\<lparr>ka_queue := q\<rparr>)))
      (\<lambda>_ a. announce_queue w a))" if "ka_running a = None" for u q
  proof (rule good_and_then[where Q = "\<lambda>_. unannounced"])
    have u: "unannounced (a\<lparr>ka_queue := q\<rparr>)"
      using assms by (simp add: unannounced_queue live_unannounced)
    then show "good crashed (\<lambda>_. unannounced)
      (case u of UnitProse inputs \<Rightarrow> start_turn w inputs OrQueue KindRespond (a\<lparr>ka_queue := q\<rparr>)
       | UnitCommand intent i \<Rightarrow> returns () (gate_input intent i InQueued (a\<lparr>ka_queue := q\<rparr>)))"
      using that by (auto split: queue_unit.split
          intro!: good_returns unannounced_aside[OF u aside_gate_input] good_mono[OF good_start_turn[OF u]])
  qed (auto intro!: good_mono[OF good_announce_flank])
  then show ?thesis
    using assms by (auto simp: drain_queue_def actor_busy_def intro!: good_returns
        split: prod.split option.split)
qed

section \<open>What an input becomes\<close>

lemma good_live_still:
  assumes "live a" "ordered a \<Longrightarrow> good crashed (\<lambda>_. still a) r"
  shows "good crashed (\<lambda>_. live) r"
  by (rule good_mono[OF assms(2)[OF live_ordered[OF assms(1)]]]) (use assms(1) in \<open>auto intro: live_still\<close>)

lemma good_live_steady:
  assumes "live a" "ordered a \<Longrightarrow> good crashed (\<lambda>_. steady a) r"
  shows "good crashed (\<lambda>_. live) r"
  by (rule good_mono[OF good_live[OF assms]]) auto

lemma good_live_reject: "live a \<Longrightarrow> good crashed (\<lambda>_. live) (reject w intent code m a)"
  by (erule good_live_steady) (rule steady_reject)

lemma good_live_applied: "live a \<Longrightarrow> good crashed (\<lambda>_. live) (applied_ack w intent v a)"
  by (erule good_live_steady) (rule steady_applied_ack)

lemma good_live_refresh: "live a \<Longrightarrow> good crashed (\<lambda>_. live) (refresh_config w a)"
  by (erule good_live_steady) (rule steady_refresh_config)

lemmas good_live_small = good_live_reject good_live_applied good_live_refresh

lemma good_submit: "live a \<Longrightarrow> good crashed (\<lambda>_. live) (submit w intent i a)"
  by (auto simp: submit_def intro!: good_live_reject good_returns live_gate_input)

lemma good_log_input:
  assumes "live a"
  shows "good crashed (\<lambda>_. live) (log_input w intent i a)"
  unfolding log_input_def
  by (rule good_and_then[OF good_live_still[OF assms still_journal_prose]])
    (auto split: option.split intro!: good_live_small)

lemma good_held_then:
  assumes "live a"
  shows "good crashed (\<lambda>_ b. live b \<and> flank b = flank a) (held_then w intent i a)"
  unfolding held_then_def by (rule good_and_then[OF good_take_queue[OF assms]]) (auto intro: good_returns)

lemma good_held_turn:
  assumes "live a" "\<not> actor_busy a"
  shows "good crashed (\<lambda>_. live) (and_then (held_then w intent i a) (\<lambda>inputs a. start_turn w inputs og kind a))"
proof (rule good_and_then[OF good_held_then[OF assms(1)]])
  fix inputs b
  assume b: "live b \<and> flank b = flank a"
  then have "ka_running b = None"
    using assms(2) flank_fields(1)[of b a] by (simp add: actor_busy_def)
  then show "good crashed (\<lambda>_. live) (start_turn w inputs og kind b)"
    using b by (blast intro: good_start_turn_live)
qed

lemma good_submit_prose: "live a \<Longrightarrow> good crashed (\<lambda>_. live) (submit_prose w intent i a)"
  by (auto simp: submit_prose_def intro: good_log_input good_enqueue good_held_turn)

lemma good_deliver_ready: "live a \<Longrightarrow> good crashed (\<lambda>_. live) (deliver_ready w intent i d a)"
  by (auto simp: deliver_ready_def Let_def split: input.split option.split
      intro: good_log_input good_enqueue good_held_turn good_live_reject)

lemma good_deliver: "live a \<Longrightarrow> good crashed (\<lambda>_. live) (deliver w intent i d a)"
  by (auto simp: deliver_def intro: good_returns live_gate_input good_deliver_ready)

lemma live_commands: "live a \<Longrightarrow> live (a\<lparr>ka_commands := c\<rparr>)"
  by (erule live_aside) (simp add: aside_eq_def)

lemma live_gate: "live a \<Longrightarrow> live (a\<lparr>ka_gate := g\<rparr>)"
  by (erule live_aside) (simp add: aside_eq_def)

lemma good_run_command: "live a \<Longrightarrow> good crashed (\<lambda>_. live) (run_command w run iv a)"
  by (auto simp: run_command_def commands_spawn_def Let_def
      intro!: good_live_reject good_returns live_start_task live_commands)

lemma good_submit_command: "live a \<Longrightarrow> good crashed (\<lambda>_. live) (submit_command w intent i p cmd was a)"
  by (auto simp: submit_command_def Let_def intro: good_enqueue good_run_command)

lemma good_apply_gate: "live a \<Longrightarrow> good crashed (\<lambda>_. live) (apply_gate w intent v a)"
  by (auto simp: apply_gate_def split: gate_verdict.split option.split
      intro: good_submit_prose good_submit_command good_deliver_ready good_live_small)

lemma good_gated:
  assumes "live a"
  shows "good crashed (\<lambda>_. live) (gated w intent v a)"
proof -
  have "good crashed (\<lambda>_. live) (and_then (apply_gate w intent v' (a\<lparr>ka_gate := g\<rparr>)) (\<lambda>_ a.
      let a1 = start_gate a in if h \<and> \<not> queue_ready (ka_queue a1) then returns () a1 else drain_queue w a1))"
    for v' g h
    by (rule good_and_then[OF good_apply_gate[OF live_gate[OF assms]]])
      (auto simp: Let_def intro!: good_returns good_drain_queue live_start_gate)
  then show ?thesis
    using assms by (auto simp: gated_def Let_def intro!: good_returns split: prod.split option.split)
qed

section \<open>Commands, interrupts, withdrawals and calls\<close>

lemma good_recorded:
  assumes "live a"
  shows "good crashed (\<lambda>_. live) (recorded w intent body a)"
  unfolding recorded_def
  by (rule good_and_then[OF good_live_still[OF assms still_record_for]]) (auto intro: good_live_applied)

lemma good_command_acked: "live a \<Longrightarrow> good crashed (\<lambda>_. live) (command_acked w intent run oc a)"
  by (auto simp: command_acked_def split: sum.split command_outcome.split
      intro: good_live_small good_recorded good_returns live_gate_input)

lemma good_cancel_asks:
  "live a \<Longrightarrow> fair_order w \<Longrightarrow> good crashed (\<lambda>_. live) (cancel_interactions w why a)"
  "live a \<Longrightarrow> fair_order w \<Longrightarrow> good crashed (\<lambda>_. live) (cancel_command_interactions w a)"
  by (auto intro: good_mono[OF good_cancel_interactions] good_mono[OF good_cancel_command_interactions])

lemma good_command_finished:
  assumes "live a" "fair_order w"
  shows "good crashed (\<lambda>_. live) (command_finished w intent oc a)"
proof -
  have "good crashed (\<lambda>_. live)
      (and_then (if h then cancel_command_interactions w (a\<lparr>ka_commands := c\<rparr>)
                 else returns () (a\<lparr>ka_commands := c\<rparr>)) (\<lambda>_ a.
       and_then (command_acked w intent run oc a) (\<lambda>_ a.
       and_then (refresh_config w a) (\<lambda>_ a. drain_queue w a))))" for h c run
    by (rule good_and_then[where Q = "\<lambda>_. live"])
      (use assms in \<open>auto intro!: good_returns live_commands good_cancel_asks
        good_and_then[OF good_command_acked] good_and_then[OF good_live_refresh] good_drain_queue\<close>)
  then show ?thesis
    using assms live_commands by (auto simp: command_finished_def intro!: good_returns split: prod.split option.split)
qed

lemma aside_cancel_running: "aside_eq a (cancel_running a)"
  by (auto simp: cancel_running_def aside_eq_def option.map_comp comp_def)

lemma aside_remember: "aside_eq a (remember_stopped_ask a)"
  by (simp add: aside_eq_def remember_running)

lemma good_interrupt:
  assumes "live a" "fair_order w"
  shows "good crashed (\<lambda>_. live) (interrupt w intent sc a)"
proof -
  have "live (cancel_running (remember_stopped_ask a))"
    using assms(1) by (blast intro: live_aside aside_trans aside_remember aside_cancel_running)
  then show ?thesis
    using assms by (auto simp: interrupt_def split: option.split prod.split interrupt_scope.split
        intro!: good_and_then[OF good_cancel_asks(1)] good_and_then[OF good_cancel_asks(2)] good_live_small
        live_commands live_gate)
qed

text \<open>Operations whose error is a refusal: the actor is none the worse for it.\<close>

lemma good_sound: "good crashed (\<lambda>_. live) r \<Longrightarrow> good sound (\<lambda>_. live) r"
  by (erule good_mono) auto

lemma good_refused: "live a \<Longrightarrow> good sound P (Inl e, a)"
  by (simp add: good_def sound_def)

lemma good_take_back:
  assumes "live a"
  shows "good crashed (\<lambda>_. live) (take_back w intent a)"
proof -
  have "good crashed (\<lambda>_. live) (and_then (announce_queue w (a\<lparr>ka_queue := q\<rparr>)) (\<lambda>_ a. returns (Some i) a))"
    for q i
  proof (rule good_and_then[OF good_announce_flank])
    show "unannounced (a\<lparr>ka_queue := q\<rparr>)"
      using assms by (simp add: unannounced_queue live_unannounced)
  qed (auto intro: good_returns)
  then show ?thesis
    using assms by (auto simp: take_back_def intro!: good_returns split: prod.split option.split)
qed

lemma good_withdraw:
  assumes "live a"
  shows "good sound (\<lambda>_. live) (withdraw w intent surface a)"
proof -
  have "good sound (\<lambda>_. live) (and_then (take_back w intent a) (\<lambda>taken a.
      case taken of Some i \<Rightarrow> returns i a | None \<Rightarrow> (Inl (gone intent), a)))"
    by (rule good_and_then[OF good_sound[OF good_take_back[OF assms]]])
      (auto split: option.split intro: good_returns good_refused)
  then show ?thesis
    using assms by (auto simp: withdraw_def split: option.split intro: good_refused)
qed

lemma live_turn_offers: "live a \<Longrightarrow> live (turn_offers turn tools a)"
  by (erule live_aside) (auto simp: turn_offers_def aside_eq_def split: option.split)

lemma live_door_set: "live a \<Longrightarrow> live (door_set turn opened a)"
  by (erule live_aside) (auto simp: door_set_def aside_eq_def split: option.split)

lemma live_settle_run: "live a \<Longrightarrow> live (settle_run intent own a)"
  by (erule live_aside) (auto simp: settle_run_def aside_eq_def Let_def)

lemma still_open_call:
  assumes "ordered a"
  shows "good crashed (\<lambda>_. still a) (open_call w turn call quiet a)"
proof -
  have "good crashed (\<lambda>_. still a) (case fresh_item w (Some turn) None body a of (i, a1) \<Rightarrow>
      and_then (tell w (EvItemStarted (f i)) None a1) (\<lambda>_ a. returns (g i) a))" for body f g
  proof (cases "fresh_item w (Some turn) None body a")
    case (Pair i b)
    then have b: "still a b"
      using assms still_fresh_item by blast
    then have "good crashed (\<lambda>_. still b) (and_then (tell w (EvItemStarted (f i)) None b) (\<lambda>_ a. returns (g i) a))"
      by (blast intro: still_then good_still steady_tell still_ordered still_returns neutral_events)
    then show ?thesis
      using Pair still_from[OF b] by simp
  qed
  then show ?thesis
    by (simp add: open_call_def Let_def)
qed

lemma good_invoke: "live a \<Longrightarrow> good crashed (\<lambda>_. live) (invoke w call a)"
  by (auto simp: invoke_def split: sum.split
      intro!: good_returns good_and_then[OF good_live_still[OF _ still_open_call]] live_start_task)

lemma good_now_tell:
  assumes "live a" "\<And>at. face_neutral (ev at)"
  shows "good crashed (\<lambda>_. live) (case now w a of (at, a1) \<Rightarrow> tell w (ev at) None a1)"
proof (cases "now w a")
  case (Pair at b)
  then have "live b"
    using assms(1) still_now[OF live_ordered[OF assms(1)] Pair] live_still by blast
  then show ?thesis
    using Pair assms(2) good_live_steady[OF _ steady_tell] by auto
qed

lemma good_calls:
  assumes "live a"
  shows "good crashed (\<lambda>_. live) (call_asked w k a)" "good crashed (\<lambda>_. live) (call_allowed w k inp a)"
    "good crashed (\<lambda>_. live) (call_finished w out a)"
proof -
  note rules = good_now_tell[OF assms] good_returns good_live_steady[OF assms steady_tell]
  show "good crashed (\<lambda>_. live) (call_asked w k a)"
    using assms by (auto simp: call_asked_def split: option.split item_body.split intro: rules)
  show "good crashed (\<lambda>_. live) (call_allowed w k inp a)"
    using assms by (auto simp: call_allowed_def split: option.split item_body.split intro: rules)
  show "good crashed (\<lambda>_. live) (call_finished w out a)"
    using assms by (auto simp: call_finished_def Let_def split: option.split intro: rules)
qed

section \<open>The end of a turn and of a session\<close>

lemma neutral_interrupt_items: "ev \<in> set (interrupt_items xs at) \<Longrightarrow> face_neutral ev"
  by (auto simp: interrupt_items_def)

lemma steady_each:
  "ordered a \<Longrightarrow> \<forall>ev \<in> set evs. face_neutral ev \<Longrightarrow> good crashed (\<lambda>_. steady a) (publish_each w evs a)"
proof (unfold publish_each_def, induction evs arbitrary: a)
  case (Cons ev evs)
  then have "good crashed (\<lambda>_. steady a) (tell w ev None a)"
    by (simp add: steady_tell)
  then show ?case
    using Cons by (auto intro: steady_then steady_ordered)
qed (simp add: good_returns steady_refl)

lemma still_close_dropped_turn:
  assumes "ordered a"
  shows "good crashed (\<lambda>_. still a) (close_dropped_turn w turn a)"
proof (cases "now w a")
  case (Pair at a1)
  then have a1: "still a a1"
    using assms still_now by blast
  have mark: "good crashed (\<lambda>_. still b) (case fresh_item w (Some turn) None body b of (i, a2) \<Rightarrow>
      and_then (tell w (EvItemCompleted i) None a2) (\<lambda>_ a. returns (f a) a))" if "ordered b" for b body f
  proof (cases "fresh_item w (Some turn) None body b")
    case (Pair i c)
    then have c: "still b c"
      using that still_fresh_item by blast
    then have "good crashed (\<lambda>_. still c) (and_then (tell w (EvItemCompleted i) None c) (\<lambda>_ a. returns (f a) a))"
      by (blast intro: still_then good_still steady_tell still_ordered still_returns neutral_events)
    then show ?thesis
      using Pair still_from[OF c] by simp
  qed
  have items: "good crashed (\<lambda>_. still a1) (publish_each w (interrupt_items xs at) a1)" for xs
    using still_ordered[OF a1] by (blast intro: good_still steady_each neutral_interrupt_items)
  show ?thesis
    unfolding close_dropped_turn_def Pair prod.case Let_def
    by (rule still_from[OF a1], rule still_then[OF items], rule mark, rule still_ordered)
qed

lemma live_complete_turn: "live a \<Longrightarrow> live (complete_turn turn status xs a)"
  by (simp add: complete_turn_def live_start_task)

lemma good_turn_finished:
  assumes "live a" "fair_order w"
  shows "good crashed (\<lambda>_. live) (turn_finished w turn how a)"
proof -
  have "live (remember_stopped_ask a)"
    using assms(1) by (blast intro: live_aside aside_remember)
  moreover have "good crashed (\<lambda>_. live)
      (and_then (case how of EndReturned status xs \<Rightarrow> returns (status, xs) b
         | EndDropped \<Rightarrow> close_dropped_turn w turn b
         | EndPanicked panic \<Rightarrow>
             returns (TsFailed (kernel_error_new ErrTurnLost (''the turn loop panicked: '' @ panic)), []) b)
       (\<lambda>(status, xs) a. returns () (complete_turn turn status xs a)))" if "live b" for b
    by (rule good_and_then[where Q = "\<lambda>_. live"])
      (use that in \<open>auto split: ended.split intro: good_returns live_complete_turn
        good_live_still[OF _ still_close_dropped_turn]\<close>)
  ultimately show ?thesis
    using assms unfolding turn_finished_def
    by (auto intro!: good_returns good_and_then[OF good_cancel_asks(1)])
qed

lemma over_still: "over a \<Longrightarrow> aside_eq a b \<Longrightarrow> ka_running b = None \<Longrightarrow> over b"
  using ordered_aside[of a b] by (auto simp: over_def aside_eq_def)

lemma close_gate_good:
  assumes "live a"
  shows "good crashed (\<lambda>_. live) (close_gate w a)"
proof -
  have "good crashed (\<lambda>_. steady b)
      (for_each (\<lambda>intent. reject w intent ErrSessionClosed ''the session is closed'') xs b)" if "ordered b" for b xs
    using that by (rule steady_for_each) (rule steady_reject)
  then show ?thesis
    using live_gate[OF assms] unfolding close_gate_def by (auto split: prod.split intro: good_live_steady)
qed

text \<open>A session that is let go of ends closed, with its queue refused line by line.\<close>

lemma good_tell_closed:
  assumes "ordered a" "ka_running a = None" "qu_entries (ka_queue a) = []"
  shows "good crashed (\<lambda>_. over) (tell w (EvSessionClosed why) None a)"
  unfolding tell_def
proof (rule good_and_then[OF good_publish[where P = "\<lambda>_. over"]])
  fix b f
  assume b: "ordered b" "face b = face_step (EvSessionClosed why) (face a)" "core b = core a"
    "fr_event f = EvSessionClosed why" "fr_seq f = Suc (ka_seq a)" "ka_state b = fst (state_apply (ka_state a) f)"
  have "st_seq (ka_state a) < fr_seq f"
    using assms(1) b(5) by (simp add: ordered_def)
  then have "st_closed (ka_state b)"
    using b(4,6) by (simp add: state_apply_fresh dispatch_def session_closed_def is_lagged_def)
  then show "over b"
    using b(1,2) core_fields(1,3)[OF b(3)] assms(2,3)
    by (auto simp: over_def state_face_def face_step_def turn_step_def interactions_step_def)
qed (use assms in \<open>auto intro: good_returns over_crashed\<close>)

lemma over_tasks:
  assumes "over a"
  shows "over (checkpoint_write a)" "over (session_hooks ph a)"
proof -
  have "over (start_task t a)" if "ordered (start_task t a)" for t
    using assms that by (simp add: over_def start_task_def)
  then show "over (checkpoint_write a)" "over (session_hooks ph a)"
    using assms ordered_checkpoint_write(1)[of a] steady_start_task[of a "TaskSessionHooks ph"]
    by (auto simp: checkpoint_write_def session_hooks_def over_def steady_def split: if_splits)
qed

lemma good_finish_close:
  assumes "ordered a" "ka_running a = None"
  shows "good crashed (\<lambda>f b. f = Stop \<and> over b) (finish_close w why a)"
proof -
  define a1 where "a1 = a\<lparr>ka_queue := (ka_queue a)\<lparr>qu_entries := []\<rparr>\<rparr>"
  have o1: "ordered a1"
    using assms(1) by (auto simp: a1_def elim!: ordered_cong)
  have rejects: "good crashed (\<lambda>_. steady a1)
      (for_each (\<lambda>(intent, _). reject w intent ErrSessionClosed ''the session is closed'') xs a1)" for xs
    using o1 by (rule steady_for_each) (auto intro: steady_reject)
  have closed: "good crashed (\<lambda>_. over) (tell w (EvSessionClosed why) None b)" if "steady a1 b" for b
    using that core_fields(1,3)[of b a1] assms(2)
    by (intro good_tell_closed) (simp_all add: steady_def a1_def)
  show ?thesis
    unfolding finish_close_def drain_all_def prod.case a1_def[symmetric]
    by (rule good_and_then[OF rejects], rule good_and_then[OF closed])
      (auto intro!: good_returns over_tasks)
qed

text \<open>An actor that goes on mirrors itself truly; one that stops is over, or does so still.\<close>

definition flow_ok :: "flow \<Rightarrow> actor \<Rightarrow> bool" where
  "flow_ok f b \<longleftrightarrow> (case f of Continue \<Rightarrow> live b | Stop \<Rightarrow> sound b)"

lemma flow_ok_simps [simp]: "flow_ok Continue b = live b" "flow_ok Stop b = sound b"
  by (simp_all add: flow_ok_def)

lemma sound_over: "over b \<Longrightarrow> sound b"
  by (simp add: sound_def)

lemma good_close_session:
  assumes "live a" "fair_order w"
  shows "good crashed flow_ok (close_session w why a)"
proof -
  let ?a1 = "(cancel_running (remember_stopped_ask a))\<lparr>ka_cancelled := True\<rparr>"
  have "aside_eq (cancel_running (remember_stopped_ask a)) ?a1"
    by (simp add: aside_eq_def)
  then have a1: "live ?a1"
    using assms(1) by (blast intro: live_aside aside_trans aside_remember aside_cancel_running)
  have "good crashed flow_ok
      (and_then (cancel_interactions w CrSessionClosed b) (\<lambda>_ a.
         if ka_running a \<noteq> None then returns Continue (a\<lparr>ka_closing := Some why\<rparr>) else finish_close w why a))"
    if "live b" for b
  proof (rule good_and_then[OF good_cancel_asks(1)[OF that assms(2)]])
    fix x c
    assume c: "live c"
    have "live (c\<lparr>ka_closing := Some why\<rparr>)"
      using c by (rule live_aside) (simp add: aside_eq_def)
    then show "good crashed flow_ok
        (if ka_running c \<noteq> None then returns Continue (c\<lparr>ka_closing := Some why\<rparr>) else finish_close w why c)"
      using c by (auto intro!: good_returns good_mono[OF good_finish_close] intro: sound_over simp: live_ordered)
  qed
  then show ?thesis
    using assms(1) unfolding close_session_def Let_def
    by (cases "st_closed (ka_state a)")
      (auto simp only: if_True if_False flow_ok_simps sound_def intro!: good_returns
        good_and_then[OF close_gate_good[OF a1]])
qed

lemma good_completion_ready:
  assumes "live a"
  shows "good crashed flow_ok (completion_ready w ct a)"
proof -
  have fin: "good crashed flow_ok
      (let a1 = after_turn turn xs b in case ka_closing a1 of
         Some why \<Rightarrow> finish_close w why (a1\<lparr>ka_closing := None\<rparr>)
       | None \<Rightarrow> and_then (drain_queue w a1) (\<lambda>_ a. returns Continue a))"
    if b: "live b" "ka_running b = None" for b turn xs
  proof -
    define c where "c = after_turn turn xs b"
    have c: "live c" "ka_running c = None"
      using b by (auto simp: c_def after_turn_def intro: live_start_task) (simp add: start_task_def)
    have "ordered (c\<lparr>ka_closing := None\<rparr>)"
      using live_ordered[OF c(1)] by (auto elim!: ordered_cong)
    then show ?thesis
      using c unfolding Let_def c_def[symmetric]
      by (auto split: option.split intro!: good_mono[OF good_finish_close] good_and_then[OF good_drain_queue]
          good_returns intro: sound_over)
  qed
  have rest: "good crashed flow_ok
      (and_then (if sw then restate_context w True b else returns () b) (\<lambda>_ a.
       and_then (for_each (\<lambda>body a. and_then (record_body w body a) (\<lambda>_ a. returns () a)) (ct_notices ct) a) (\<lambda>_ a.
       and_then (refresh_config w a) (\<lambda>_ a.
         (let a1 = after_turn (ct_turn ct) (ct_items ct) a
          in case ka_closing a1 of
               Some why \<Rightarrow> finish_close w why (a1\<lparr>ka_closing := None\<rparr>)
             | None \<Rightarrow> and_then (drain_queue w a1) (\<lambda>_ a. returns Continue a))))))"
    if b: "live b" "ka_running b = None" for b sw
  proof -
    have s1: "good crashed (\<lambda>_. still b) (if sw then restate_context w True b else returns () b)"
      using live_ordered[OF b(1)] by (auto intro: good_still steady_restate_context good_returns still_refl)
    have s2: "good crashed (\<lambda>_. still c)
        (for_each (\<lambda>body a. and_then (record_body w body a) (\<lambda>_ a. returns () a)) (ct_notices ct) c)"
      if "ordered c" for c
      using that by (rule still_for_each) (blast intro: still_then still_record_body still_returns)
    have s3: "good crashed (\<lambda>_. still c) (refresh_config w c)" if "ordered c" for c
      using that by (blast intro: good_still steady_refresh_config)
    have idle: "live c \<and> ka_running c = None" if "still b c" for c
      using live_still[OF b(1) that] b(2) that shell_fields(1)[of c b] by (simp add: still_def)
    show ?thesis
      apply (rule good_and_then[OF s1])
      apply (rule good_and_then[OF still_from[OF _ s2]], assumption, erule still_ordered)
      apply (rule good_and_then[OF still_from[OF _ s3]], assumption, erule still_ordered)
      apply (rule fin)
       apply (use idle in blast)+
      done
  qed
  show ?thesis
  proof (cases "is_running (ct_turn ct) a")
    case True
    then obtain r where r: "ka_running a = Some r" "rn_turn r = ct_turn ct"
      by (auto simp: is_running_def split: option.splits)
    define a1 where "a1 = a\<lparr>ka_running := None, ka_ended := ka_ended a @ [running_finish r]\<rparr>"
    have a1: "ordered a1" "face a1 = face a"
      using live_ordered[OF assms] by (auto simp: a1_def elim!: ordered_cong)
    have f: "fst (face a1) = Some (ct_turn ct)"
      using assms r by (simp add: a1_def live_iff unannounced_def)
    let ?ev = "EvTurnCompleted (ct_turn ct) (ct_status ct) (ct_usage ct)"
    have "good crashed (\<lambda>_ b. live b \<and> ka_running b = None) (tell w ?ev None a1)"
    proof (rule good_tell)
      fix b
      assume b: "ordered b" "face b = face_step ?ev (face a1)" "core b = core a1"
      then show "live b \<and> ka_running b = None"
        using assms core_fields(1-3)[OF b(3)] a1
        by (cases "face a") (auto simp: live_iff unannounced_def face_step_def turn_step_def
            interactions_step_def queue_step_def a1_def)
    qed (use a1 f in \<open>auto simp: publishable_def turn_allowed_def is_lagged_def\<close>)
    then show ?thesis
      using r unfolding completion_ready_def a1_def
      by (auto simp: Let_def[of "switched (rn_config r) (ka_config a)"] intro!: good_and_then rest)
  next
    case False
    then show ?thesis
      using assms by (auto simp: completion_ready_def is_running_def intro!: good_returns split: option.splits)
  qed
qed

section \<open>The rest of the mail\<close>

lemma good_rewind:
  assumes "live a"
  shows "good sound (\<lambda>_. live) (rewind w t to_turn a)"
proof -
  have "good crashed (\<lambda>_. still a) (and_then (record_body w body a) (\<lambda>_ a.
      and_then (publish w (EvRewound (g a) to_turn ids []) None a) (\<lambda>_ a. returns n a)))" for body g ids n
    using live_ordered[OF assms]
    by (blast intro: still_then still_record_body good_still steady_publish neutral_events still_ordered still_returns)
  from good_sound[OF good_live_still[OF assms this]] show ?thesis
    using assms by (auto simp: rewind_def Let_def split: option.split intro: good_refused)
qed

lemma good_compact_session:
  "live a \<Longrightarrow> good sound (\<lambda>_. live) (compact_session w instructions a)"
  by (auto simp: compact_session_def split: option.split
      intro: good_refused intro!: good_sound[OF good_start_turn_live])

lemma steady_signal_publish:
  "ordered a \<Longrightarrow> good crashed (\<lambda>_. steady a) (signal_publish w plugin kind payload generation a)"
  by (auto simp: signal_publish_def steady_refl intro!: good_returns steady_tell)

lemma steady_handoff: "ordered a \<Longrightarrow> good crashed (\<lambda>_. steady a) (handoff w plugin x y a)"
  unfolding handoff_def Let_def by (rule steady_for_each) (auto intro: steady_signal_publish)

lemma good_progress: "live a \<Longrightarrow> good crashed (\<lambda>_. live) (progress w i t a)"
proof -
  assume "live a"
  then have "live (a\<lparr>ka_progress_n := ka_progress_n a + 1\<rparr>)"
    by (rule live_aside) (simp add: aside_eq_def)
  then show ?thesis
    unfolding progress_def Let_def by (rule good_live_steady) (simp add: steady_tell)
qed

lemma steady_emit: "ordered a \<Longrightarrow> face_neutral ev \<Longrightarrow> good crashed (\<lambda>_. steady a) (emit w turn ev a)"
proof -
  assume a: "ordered a" "face_neutral ev"
  have "good crashed (\<lambda>_. steady a) (and_then (record_item w i a) (\<lambda>_ a. returns () a))" for i
    using a(1) by (blast intro: steady_then steady_record_item steady_returns)
  then show ?thesis
    using a steady_tell[OF a] by (auto simp: emit_def steady_refl good_returns split: event.split)
qed

lemma good_receipt_of_turn:
  assumes "live a"
  shows "good sound (\<lambda>_. sound) (receipt_of_turn w i a)"
proof -
  have "good crashed (\<lambda>_. live) (record_item w i a)"
    using assms by (rule good_live_steady) (rule steady_record_item)
  then show ?thesis
    using assms by (cases "record_item w i a"; cases "fst (record_item w i a)")
      (auto simp: receipt_of_turn_def good_def returns_def sound_def dest: over_crashed)
qed

lemma good_reconfigure:
  assumes "live a"
  shows "good crashed (\<lambda>_. live) (reconfigure w config a)"
proof -
  have "good crashed (\<lambda>_. live) (and_then (publish_summary w s b) (\<lambda>_ a.
      and_then (restate_context w sw a) (\<lambda>_ a. refresh_config w a)))" if "live b" for b s sw
    using that by (rule good_live_steady)
      (blast intro: steady_then steady_publish_summary steady_restate_context steady_refresh_config steady_ordered)
  moreover have "live b" if "restated w (a\<lparr>ka_config := config\<rparr>) = (s, b)" for s b
    using that assms by (auto simp: restated_def now_def Let_def aside_eq_def intro: live_aside[of a])
  ultimately show ?thesis
    by (auto simp: reconfigure_def Let_def split: prod.split)
qed

text \<open>A checkpoint that was acknowledged covers only frames that are out.\<close>

lemma live_checkpoint_acknowledge:
  assumes "live a" "TaskCheckpoint s \<in> set (ka_spawned a)"
  shows "live (checkpoint_acknowledge (st_seq s) e a)"
proof -
  have s: "st_seq s \<le> ka_seq a"
    using assms by (auto simp: live_def ordered_def)
  let ?b = "a\<lparr>ka_checkpoint_seq := st_seq s, ka_journal := filter (\<lambda>f. st_seq s < fr_seq f) (ka_journal a),
    ka_state := (ka_state a)\<lparr>st_transcript := drop_before_cut (st_transcript (ka_state a))\<rparr>\<rparr>"
  have "face ?b = face a"
    by (simp add: state_face_def)
  moreover have "ordered ?b" if "ka_checkpoint_seq a < st_seq s"
    using assms(1) s that journal_ok_retain[of "ka_seq a" "ka_checkpoint_seq a" "ka_journal a" "ka_store a" "st_seq s"]
    by (simp add: live_def ordered_def state_face_def)
  ultimately show ?thesis
    using assms(1) by (auto simp: checkpoint_acknowledge_def live_iff unannounced_def)
qed

section \<open>Every message keeps the mirror true\<close>

text \<open>
  What the senders of the mail promise: the turn loop and the catalogue publish only
  events that are theirs to publish, and the store acknowledges only checkpoints it
  was given.
\<close>

fun mail_ok :: "actor \<Rightarrow> msg \<Rightarrow> bool" where
  "mail_ok a (MCalling m) = mail_ok a m"
| "mail_ok a (MEmit turn ev) = face_neutral ev"
| "mail_ok a (MCatalogueEvent ev) = face_neutral ev"
| "mail_ok a (MCheckpointed sq e) = (\<exists>s. TaskCheckpoint s \<in> set (ka_spawned a) \<and> st_seq s = sq)"
| "mail_ok a m = True"

lemma flow_ok_sound: "sound b \<Longrightarrow> flow_ok (flow_of b) b"
  by (auto simp: flow_of_def sound_def over_def)

lemma live_sound: "live b \<Longrightarrow> sound b"
  by (simp add: sound_def)

lemma good_pair: "flow_ok f a \<Longrightarrow> good sound (\<lambda>h. flow_ok (fst h)) (returns (f, t) a)"
  by (simp add: good_def returns_def)

lemma good_wrapped:
  assumes "good sound (\<lambda>_. sound) r"
  shows "good sound (\<lambda>h. flow_ok (fst h)) (telling f r)" "good sound (\<lambda>h. flow_ok (fst h)) (replying f r)"
  using assms by (auto simp: telling_def replying_def good_def and_then_def returns_def flow_ok_sound
      split: prod.splits sum.splits)

lemma good_quietly: "good sound (\<lambda>_. sound) r \<Longrightarrow> good sound (\<lambda>h. flow_ok (fst h)) (quietly r)"
  using good_wrapped(1)[of r "\<lambda>_. ToldNothing"] by (simp add: quietly_def telling_def)

lemma good_flowing:
  "good crashed flow_ok r \<Longrightarrow> good sound (\<lambda>h. flow_ok (fst h)) (and_then r (\<lambda>f a. returns (f, t) a))"
  by (rule good_and_then[of sound flow_ok]) (auto intro: good_pair elim!: good_mono)

text \<open>One operation at a time, as the dispatch hands them the mail.\<close>

lemma sound_from_live: "good crashed (\<lambda>_. live) r \<Longrightarrow> good sound (\<lambda>_. sound) r"
  by (erule good_mono) (auto intro: live_sound)

lemma sound_from_refusal: "good sound (\<lambda>_. live) r \<Longrightarrow> good sound (\<lambda>_. sound) r"
  by (erule good_mono) (auto intro: live_sound)

lemma sound_from_steady: "live a \<Longrightarrow> (ordered a \<Longrightarrow> good crashed (\<lambda>_. steady a) r) \<Longrightarrow> good sound (\<lambda>_. sound) r"
  by (rule sound_from_live) (rule good_live_steady)

lemma sound_from_still: "live a \<Longrightarrow> (ordered a \<Longrightarrow> good crashed (\<lambda>_. still a) r) \<Longrightarrow> good sound (\<lambda>_. sound) r"
  by (rule sound_from_live) (rule good_live_still)

lemmas sound_ops =
  good_submit[THEN sound_from_live] good_gated[THEN sound_from_live] good_deliver[THEN sound_from_live]
  good_interrupt[THEN sound_from_live] good_answer_ask[THEN sound_from_live]
  good_open_interaction[THEN sound_from_live] good_absorb[THEN sound_from_live]
  good_progress[THEN sound_from_live] good_command_finished[THEN sound_from_live]
  good_reconfigure[THEN sound_from_live] good_calls[THEN sound_from_live] good_invoke[THEN sound_from_live]
  good_withdraw[THEN sound_from_refusal] good_rewind[THEN sound_from_refusal]
  good_compact_session[THEN sound_from_refusal] good_receipt_of_turn
  sound_from_steady[OF _ steady_extend_session] sound_from_steady[OF _ steady_signal_publish]
  sound_from_steady[OF _ steady_handoff] sound_from_steady[OF _ steady_emit]
  sound_from_still[OF _ still_record_body] sound_from_steady[OF _ steady_tell]

lemma good_reserve_delete:
  "live a \<Longrightarrow> fair_order w \<Longrightarrow> good sound (\<lambda>h. flow_ok (fst h)) (reserve_delete w commit a)"
  by (auto simp: reserve_delete_def intro!: good_pair good_flowing good_close_session)

lemma sound_catalogue_event:
  "live a \<Longrightarrow> face_neutral ev \<Longrightarrow> good sound (\<lambda>_. sound) (catalogue_event w ev a)"
  by (auto simp: catalogue_event_def intro!: sound_ops good_returns live_sound)

lemma sound_command_reported:
  "live a \<Longrightarrow> fair_order w \<Longrightarrow> good sound (\<lambda>_. sound) (command_reported w intent oc a)"
  by (auto simp: command_reported_def intro!: sound_ops good_returns live_sound live_start_task)

lemma sound_side_charge: "live a \<Longrightarrow> good sound (\<lambda>_. sound) (side_charge w turn plugin u a)"
  by (auto simp: side_charge_def intro!: sound_ops)

lemma live_read_past: "live a \<Longrightarrow> live (read_past rq a)"
  by (simp add: read_past_def live_start_task)

lemma good_told: "live a \<Longrightarrow> good sound (\<lambda>h. flow_ok (fst h)) (returns (flow_of a, t) a)"
  by (simp add: good_pair flow_ok_sound live_sound)

lemma good_answering: "live (snd r) \<Longrightarrow> good sound (\<lambda>h. flow_ok (fst h)) (answering f r)"
  by (cases r) (simp add: answering_def good_told)

lemma good_reads:
  "live a \<Longrightarrow> live (snd (attach_read w max_bytes a))"
  "live a \<Longrightarrow> live (snd (history_read w page a))"
  "live a \<Longrightarrow> live (snd (pin_read k generation a))"
  by (simp_all add: attach_read_def history_read_def pin_read_def live_read_past split: prod.split)

lemma good_rewind_read: "live a \<Longrightarrow> good sound (\<lambda>h. flow_ok (fst h)) (rewind_read w turn a)"
  by (simp add: rewind_read_def Let_def good_told live_read_past good_wrapped sound_ops)

lemma good_past_loaded:
  "live a \<Longrightarrow> good sound (\<lambda>h. flow_ok (fst h)) (past_loaded w n g loaded rq a)"
  by (cases rq) (simp_all add: past_loaded_def Let_def good_told good_wrapped sound_ops split: sum.split)

lemma good_dispatch:
  assumes "live a" "fair_order w" "mail_ok a m"
  shows "good sound (\<lambda>h. flow_ok (fst h)) (dispatch_mail w m a)"
proof (cases m)
  case (MCheckpointed sq e)
  then show ?thesis
    using assms by (auto simp: dispatch_mail_def intro!: good_quietly good_returns live_sound
        live_checkpoint_acknowledge)
next
  case (MComplete turn)
  then show ?thesis
    using assms by (auto simp: dispatch_mail_def side_complete_def split: sum.split
        intro!: good_pair flow_ok_sound live_sound live_start_task)
next
  case (MTurnFinished turn how)
  then show ?thesis
    using assms good_turn_finished[of a w turn how]
    by (auto simp: dispatch_mail_def intro!: good_and_then[OF good_sound[OF good_turn_finished]] good_pair)
next
  case (MCalling m')
  then show ?thesis
    using assms by (simp add: dispatch_mail_def good_refused)
next
  case (MOffered turn tools)
  then show ?thesis
    using assms by (simp add: dispatch_mail_def good_quietly good_returns live_sound live_turn_offers)
next
  case MSummary
  then show ?thesis
    using assms by (simp add: dispatch_mail_def good_pair flow_ok_sound live_sound)
qed (use assms in \<open>simp_all add: dispatch_mail_def good_quietly good_wrapped sound_ops sound_catalogue_event
    sound_command_reported sound_side_charge good_flowing good_close_session good_completion_ready
    good_reserve_delete good_told good_answering good_reads good_rewind_read good_past_loaded\<close>)

lemma live_calling: "live (a\<lparr>ka_calling := c\<rparr>) \<longleftrightarrow> live a"
  by (auto elim!: live_aside simp: aside_eq_def)

lemma mail_ok_calling: "mail_ok (a\<lparr>ka_calling := c\<rparr>) m \<longleftrightarrow> mail_ok a m"
  by (induction m) auto

lemma handle_mail_ok:
  assumes "live a" "fair_order w" "mail_ok a m" "handle_mail w m a = ((f, t), b)"
  shows "flow_ok f b"
proof -
  obtain m' c where eq: "handle_mail w m a = (case dispatch_mail w m' (a\<lparr>ka_calling := c\<rparr>) of
      (Inl _, b) \<Rightarrow> ((Stop, ToldNothing), b) | (Inr h, b) \<Rightarrow> (h, b))" and ok: "mail_ok a m'"
    using assms(3) by (cases m) (auto simp: handle_mail_def)
  have "good sound (\<lambda>h. flow_ok (fst h)) (dispatch_mail w m' (a\<lparr>ka_calling := c\<rparr>))"
    using assms(1,2) ok by (intro good_dispatch) (simp_all add: live_calling mail_ok_calling)
  then show ?thesis
    using assms(4) unfolding eq by (auto simp: good_def split: prod.splits sum.splits)
qed

section \<open>The head of a segment\<close>

text \<open>
  An actor as it is seated: nothing runs and nobody waits for an answer; what its
  journal left open is still on the face, but no queued line is.
\<close>

definition seated :: "actor \<Rightarrow> bool" where
  "seated a \<longleftrightarrow>
     ordered a \<and> ka_running a = None \<and> ka_pending a = [] \<and> st_queue (ka_state a) = queue_rows (ka_queue a)"

lemma and_then_assoc: "and_then (and_then r k) l = and_then r (\<lambda>x a. and_then (k x a) l)"
  by (auto simp: and_then_def split: prod.splits sum.splits)

lemma for_each_append:
  "for_each body (xs @ ys) a = and_then (for_each body xs a) (\<lambda>_ a. for_each body ys a)"
proof (induction xs arbitrary: a)
  case (Cons x xs)
  have "for_each body (xs @ ys) = (\<lambda>a. and_then (for_each body xs a) (\<lambda>_ a. for_each body ys a))"
    by (rule ext) (rule Cons.IH)
  then show ?case
    by (simp add: and_then_assoc)
qed (simp add: and_then_def returns_def)

lemma good_cancel_lost:
  "ordered a \<Longrightarrow> good crashed (\<lambda>_ b. ordered b \<and> core b = core a \<and>
       face b = (fst (face a), filter (\<lambda>i. in_id i \<notin> in_id ` set asks) (fst (snd (face a))), snd (snd (face a))))
     (publish_each w (map (\<lambda>i. EvInteractionCancelled (in_id i) CrSessionClosed) asks) a)"
proof (unfold publish_each_def, induction asks arbitrary: a)
  case Nil
  then show ?case
    by (simp add: good_returns)
next
  case (Cons i asks)
  let ?ev = "EvInteractionCancelled (in_id i) CrSessionClosed"
  have first: "good crashed (\<lambda>_ b. ordered b \<and> core b = core a \<and> face b = face_step ?ev (face a)) (tell w ?ev None a)"
    using Cons.prems by (rule good_tell) auto
  show ?case
    unfolding list.map for_each.simps
  proof (rule good_and_then[OF first])
    fix x b
    assume b: "ordered b \<and> core b = core a \<and> face b = face_step ?ev (face a)"
    then have "face b = (fst (face a), filter (\<lambda>j. in_id j \<noteq> in_id i) (fst (snd (face a))), snd (snd (face a)))"
      by (cases "face a") (simp add: face_step_def turn_step_def interactions_step_def queue_step_def)
    then show "good crashed (\<lambda>_ b. ordered b \<and> core b = core a \<and>
        face b = (fst (face a), filter (\<lambda>j. in_id j \<notin> in_id ` set (i # asks)) (fst (snd (face a))), snd (snd (face a))))
        (for_each (\<lambda>ev. tell w ev None) (map (\<lambda>i. EvInteractionCancelled (in_id i) CrSessionClosed) asks) b)"
      using Cons.IH[of b] b by (auto elim!: good_mono simp: conj_commute intro: filter_cong)
  qed
qed

lemma good_recovery:
  assumes "ordered a" "ka_running a = None" "ka_pending a = []" "st_queue (ka_state a) = queue_rows (ka_queue a)"
  shows "good crashed (\<lambda>_. live) (publish_each w (recovery_frames (st_interactions (ka_state a)) (st_turn (ka_state a))
           (st_transcript (ka_state a)) at) a)"
proof -
  let ?asks = "st_interactions (ka_state a)" and ?turn = "st_turn (ka_state a)"
  let ?clean = "\<lambda>b. ordered b \<and> core b = core a \<and> face b = (map_option lt_id ?turn, [], st_queue (ka_state a))"
  have asks: "good crashed (\<lambda>_. ?clean)
      (publish_each w (map (\<lambda>i. EvInteractionCancelled (in_id i) CrSessionClosed) ?asks) a)"
    using good_cancel_lost[OF assms(1), where asks = ?asks and w = w] by (rule good_mono) (auto simp: state_face_def filter_empty_conv)
  have live: "live b" if "ordered b" "core b = core a" "face b = (None, [], st_queue (ka_state a))" for b
    using that assms core_fields(1-3)[of b a] by (simp add: live_iff unannounced_def asks_ok_def)
  show ?thesis
  proof (cases ?turn)
    case None
    then show ?thesis
      using asks live by (auto simp: recovery_frames_def elim!: good_mono)
  next
    case (Some lt)
    let ?ev = "EvTurnCompleted (lt_id lt)
      (TsFailed (kernel_error_new ErrTurnLost ''the process ended during this turn'')) (lt_usage lt)"
    have fin: "good crashed (\<lambda>_. live) (tell w ?ev None b)" if b: "?clean b" for b
    proof (rule good_tell)
      fix c
      assume c: "ordered c" "face c = face_step ?ev (face b)" "core c = core b"
      then have "face c = (None, [], st_queue (ka_state a))"
        using b by (simp add: face_step_def turn_step_def interactions_step_def queue_step_def)
      then show "live c"
        using live c b by simp
    qed (use b Some in \<open>auto simp: publishable_def turn_allowed_def is_lagged_def\<close>)
    have items: "good crashed (\<lambda>_. ?clean) (publish_each w (interrupt_items xs at) b)" if b: "?clean b" for b xs
      by (rule good_mono[OF steady_each])
        (use b neutral_interrupt_items in \<open>auto simp: steady_def\<close>)
    have fin': "good crashed (\<lambda>_. live) (for_each (\<lambda>ev. tell w ev None) [?ev] b)" if "?clean b" for b
      unfolding for_each.simps by (rule good_and_then[OF fin[OF that]]) (simp add: good_returns)
    show ?thesis
      unfolding Some recovery_frames_def option.case publish_each_def for_each_append
      by (rule good_and_then[OF asks[unfolded publish_each_def]],
          rule good_and_then[OF items[unfolded publish_each_def]], assumption, rule fin')
  qed
qed

lemma still_restate_extensions: "ordered a \<Longrightarrow> good crashed (\<lambda>_. still a) (restate_extensions w a)"
  unfolding restate_extensions_def by (rule still_for_each) (auto intro: good_still steady_extend_session)

lemma good_open_session:
  assumes "seated a"
  shows "good crashed (\<lambda>_. live) (open_session w a)"
proof -
  obtain s a1 where r: "restated w a = (s, a1)"
    by fastforce
  define a2 where "a2 = observe_journal a1"
  have a2: "ordered a2" "ka_running a2 = None" "ka_pending a2 = []" "ka_state a2 = ka_state a" "ka_queue a2 = ka_queue a"
    using assms r by (auto simp: a2_def restated_def now_def observe_journal_def seated_def Let_def elim!: ordered_cong)
  have q2: "snd (snd (face a2)) = queue_rows (ka_queue a2)"
    using assms a2 by (simp add: seated_def state_face_def)
  have rec: "good crashed (\<lambda>_. live) (case now w b of (at, a1) \<Rightarrow>
      publish_each w (recovery_frames (st_interactions (ka_state a1)) (st_turn (ka_state a1))
        (st_transcript (ka_state a1)) at) a1)" if "still a2 b" for b
  proof (cases "now w b")
    case (Pair at c)
    have c: "still a2 c"
      using that still_now[OF still_ordered[OF that] Pair] still_trans by blast
    then have "ordered c" "ka_running c = None" "ka_pending c = []" "st_queue (ka_state c) = queue_rows (ka_queue c)"
      using a2 q2 shell_fields(1-3)[of c a2] by (simp_all add: still_def state_face_def)
    then show ?thesis
      unfolding Pair prod.case by (rule good_recovery)
  qed
  note steps = good_still[OF steady_publish_summary] good_still[OF steady_restate_context]
    still_restate_extensions good_still[OF steady_refresh_config]
  have "good crashed (\<lambda>_. live)
      (and_then (publish_summary w s a2) (\<lambda>_ a.
       and_then (restate_context w False a) (\<lambda>_ a.
       and_then (restate_extensions w a) (\<lambda>_ a.
       and_then (refresh_config w a) (\<lambda>_ a. case now w a of (at, a1) \<Rightarrow>
         publish_each w (recovery_frames (st_interactions (ka_state a1)) (st_turn (ka_state a1))
           (st_transcript (ka_state a1)) at) a1)))))"
    apply (rule good_and_then[OF steps(1)[OF a2(1)]])
    apply (rule good_and_then[OF still_from[OF _ steps(2)]], assumption, erule still_ordered)
    apply (rule good_and_then[OF still_from[OF _ steps(3)]], assumption, erule still_ordered)
    apply (rule good_and_then[OF still_from[OF _ steps(4)]], assumption, erule still_ordered)
    apply (erule rec)
    done
  then show ?thesis
    unfolding open_session_def r prod.case a2_def .
qed

section \<open>Everything an actor can come to\<close>

inductive reaches :: "world \<Rightarrow> actor \<Rightarrow> flow \<Rightarrow> actor \<Rightarrow> bool" for w a0 where
  reaches_open: "open_session w (before_open a0) = (Inr (), b) \<Longrightarrow> reaches w a0 Continue b"
| reaches_failed: "open_session w (before_open a0) = (Inl e, b) \<Longrightarrow> reaches w a0 Stop b"
| reaches_mail:
    "reaches w a0 Continue a \<Longrightarrow> mail_ok a m \<Longrightarrow> handle_mail w m a = ((f, t), b) \<Longrightarrow> reaches w a0 f b"
| reaches_door: "reaches w a0 Continue a \<Longrightarrow> reaches w a0 Continue (door_set turn opened a)"
| reaches_settled: "reaches w a0 Continue a \<Longrightarrow> reaches w a0 Continue (settle_run intent own a)"

lemma seated_before_open: "seated a \<Longrightarrow> seated (before_open a)"
  using ordered_checkpoint_write(1,4)[of a]
  by (auto simp: seated_def before_open_def checkpoint_write_def start_task_def split: if_splits)

lemma reaches_flow_ok:
  assumes "reaches w a0 f a" "fair_order w" "seated a0"
  shows "flow_ok f a"
  using assms(1)
proof (induction rule: reaches.induct)
  case (reaches_open b)
  then show ?case
    using good_open_session[OF seated_before_open[OF assms(3)], of w] by (simp add: good_def)
next
  case (reaches_failed e b)
  then show ?case
    using good_open_session[OF seated_before_open[OF assms(3)], of w] by (auto simp: good_def)
next
  case (reaches_mail a m f t b)
  then show ?case
    using handle_mail_ok assms(2) by (metis flow_ok_simps(1))
qed (simp_all add: live_door_set live_settle_run)

lemma reaches_ordered:
  assumes "reaches w a0 f a" "fair_order w" "seated a0"
  shows "ordered a"
  using reaches_flow_ok[OF assms] by (cases f) (auto simp: live_ordered sound_def over_def)

section \<open>What it comes to\<close>

lemma seated_spawn: "seated (spawn summary (Some []) config drawings ticks minted)"
  by (auto simp: seated_def spawn_def spawn_with_def ordered_def state_new_def state_face_def numbered_def
      journal_ok_def queue_rows_def queue_default_def)


text \<open>
  C2: The frames of a session are in order.  Whatever arrives and whether or not the
  store fails, the numbers of the frames sent out rise strictly, so do those of the
  frames stored, and the journal the actor holds in memory is exactly the stored
  frames after its checkpoint, all of them durable.
\<close>

theorem frames_in_order:
  assumes "fair_order w" "seated a0" "reaches w a0 f a"
  shows "sorted_wrt (<) (map fr_seq (ka_out a)) \<and>
    (\<forall>fr \<in> set (ka_journal a). is_durable (fr_event fr)) \<and>
    (\<forall>fs. ka_store a = Some fs \<longrightarrow> sorted_wrt (<) (map fr_seq fs) \<and>
       ka_journal a = filter (\<lambda>fr. ka_checkpoint_seq a < fr_seq fr) fs)"
  using reaches_ordered[OF assms(3,1,2)] by (auto simp: ordered_def journal_ok_def numbered_def)


section \<open>A refused append\<close>

lemma terminal_out:
  "map fr_event (ka_out (terminal_event w ev cause a)) = map fr_event (ka_out a) @ [ev]"
  "ka_queue (terminal_event w ev cause a) = ka_queue a" "ka_pending (terminal_event w ev cause a) = ka_pending a"
  "ka_replies (terminal_event w ev cause a) = ka_replies a" "ka_store (terminal_event w ev cause a) = ka_store a"
  "ka_journal (terminal_event w ev cause a) = ka_journal a" "ka_running (terminal_event w ev cause a) = ka_running a"
  "ka_rx_closed (terminal_event w ev cause a) = ka_rx_closed a"
  by (simp_all add: terminal_event_def next_frame_eq broadcast_def)

lemma terminal_acks:
  fixes w :: world and e :: kernel_error and ls :: "(intent_id \<times> input) list"
  defines "step \<equiv> \<lambda>a (intent, _::input). terminal_event w (EvIntentAck intent (IoRejected e)) (Some intent) a"
  shows "map fr_event (ka_out (foldl step a ls)) = map fr_event (ka_out a)
      @ map (\<lambda>(k, _). EvIntentAck k (IoRejected e)) ls"
    "ka_queue (foldl step a ls) = ka_queue a" "ka_pending (foldl step a ls) = ka_pending a"
    "ka_replies (foldl step a ls) = ka_replies a" "ka_store (foldl step a ls) = ka_store a"
    "ka_journal (foldl step a ls) = ka_journal a" "ka_running (foldl step a ls) = ka_running a"
    "ka_rx_closed (foldl step a ls) = ka_rx_closed a"
  by (induction ls arbitrary: a) (auto simp: step_def terminal_out)

lemma unpacked_intents: "map (\<lambda>(k, _). g k) (map unpack xs) = map (\<lambda>(k, _). g k) xs"
  by (auto simp: unpack_def)

lemma reply_all:
  fixes r :: "kernel_error + gate_answered" and ps :: "(interaction_id \<times> pending_ask) list"
  defines "step \<equiv> \<lambda>a (k, _::pending_ask). reply_to k r a"
  shows "ka_replies (foldl step a ps) = ka_replies a @ map (\<lambda>(k, _). (k, r)) ps"
    "ka_out (foldl step a ps) = ka_out a" "ka_store (foldl step a ps) = ka_store a"
    "ka_journal (foldl step a ps) = ka_journal a" "ka_queue (foldl step a ps) = ka_queue a"
    "ka_pending (foldl step a ps) = ka_pending a" "ka_running (foldl step a ps) = ka_running a"
    "ka_rx_closed (foldl step a ps) = ka_rx_closed a"
  by (induction ps arbitrary: a) (auto simp: step_def reply_to_def)

text \<open>
  C4: A store that refuses a frame ends the session and nobody is left waiting.  The
  refused frame reaches neither the journal nor the store nor any client; what goes
  out instead is a notice, a refusal for every queued line and the closing of the
  session, in this order; everyone who waits for an answer is told the error; no turn
  runs and no more mail is taken.
\<close>

theorem refused_append:
  assumes "publish w ev cause a = (Inl e, b)"
  shows "map fr_event (ka_out b) = map fr_event (ka_out a) @ [EvNotice LvError ''STORAGE'' (ke_message e)]
      @ map (\<lambda>(k, _). EvIntentAck k (IoRejected e)) (qu_entries (ka_queue a))
      @ [EvSessionClosed (CloseError (ke_message e))] \<and>
    ka_replies b = ka_replies a @ map (\<lambda>(k, _). (k, Inl e)) (wo_order w (ka_pending a)) \<and>
    ka_store b = ka_store a \<and> ka_journal b = ka_journal a \<and> ka_running b = None \<and> ka_pending b = [] \<and>
    qu_entries (ka_queue b) = [] \<and> ka_rx_closed b"
proof -
  have "b = storage_failed w e (snd (next_frame w ev cause a))"
    using assms by (auto simp: publish_def Let_def returns_def next_frame_eq split: option.splits if_splits)
  then show ?thesis
    by (simp add: storage_failed_def drain_all_def drain_pending_def next_frame_eq Let_def terminal_out
        terminal_acks reply_all unpacked_intents del: map_map)
qed

section \<open>A concrete session\<close>

text \<open>A session is started, opens, is left a line that asks to wait, and is closed.\<close>

definition sample_start :: actor where
  "sample_start = spawn sample_summary (Some []) sample_config [] 0 0"

definition sample_opened :: actor where
  "sample_opened = snd (open_session sample_world (before_open sample_start))"

definition sample_line :: input where
  "sample_line = input_text ''look at the build'' (origin_default\<lparr>or_surface := ''tui''\<rparr>)"

definition sample_held :: actor where
  "sample_held = snd (handle_mail sample_world (MDeliver ''req_2'' sample_line Hold) sample_opened)"

definition sample_closed :: actor where
  "sample_closed = snd (handle_mail sample_world (MClose CloseClient) sample_held)"

lemma sample_fair: "fair_order sample_world"
  by (simp add: fair_order_def sample_world_def)

lemma sample_seated: "seated sample_start"
  by (simp add: sample_start_def seated_spawn)

lemma sample_reaches_opened: "reaches sample_world sample_start Continue sample_opened"
proof (rule reaches_open)
  have "fst (open_session sample_world (before_open sample_start)) = Inr ()"
    by code_simp
  then show "open_session sample_world (before_open sample_start) = (Inr (), sample_opened)"
    by (simp add: sample_opened_def prod_eq_iff)
qed

lemma sample_reaches_held: "reaches sample_world sample_start Continue sample_held"
proof (rule reaches_mail[OF sample_reaches_opened])
  have "fst (fst (handle_mail sample_world (MDeliver ''req_2'' sample_line Hold) sample_opened)) = Continue"
    by code_simp
  then show "handle_mail sample_world (MDeliver ''req_2'' sample_line Hold) sample_opened
      = ((Continue, snd (fst (handle_mail sample_world (MDeliver ''req_2'' sample_line Hold) sample_opened))), sample_held)"
    by (simp add: sample_held_def prod_eq_iff)
qed simp


theorem frames_in_order_witness:
  "sorted_wrt (<) (map fr_seq (ka_out sample_held)) \<and> length (ka_out sample_held) = 4"
proof -
  have "length (ka_out sample_held) = 4"
    by code_simp
  then show ?thesis
    using frames_in_order[OF sample_fair sample_seated sample_reaches_held] by simp
qed


definition full_disk :: world where
  "full_disk = sample_world\<lparr>wo_append := (\<lambda>_ _. Some (kernel_error_new ErrStorage ''disk full''))\<rparr>"

theorem refused_append_witness:
  "case publish full_disk (EvContextChanged None) None sample_held of
     (Inl e, b) \<Rightarrow> ka_journal b = ka_journal sample_held \<and> ka_rx_closed b
   | (Inr _, _) \<Rightarrow> False"
proof -
  have "isl (fst (publish full_disk (EvContextChanged None) None sample_held))"
    by code_simp
  then obtain e b where "publish full_disk (EvContextChanged None) None sample_held = (Inl e, b)"
    by (cases "publish full_disk (EvContextChanged None) None sample_held") (auto simp: isl_def)
  from this refused_append[OF this] show ?thesis
    by simp
qed

text \<open>
  A line that waited when its session closed is refused, and no queue holds it
  again; but its row stays in the journal.  Resumed from that journal, the session
  opens with an empty queue and still shows the row of a line that is not waiting.
\<close>

theorem stale_queue_row:
  "case resume (unwrap_or (ka_store sample_closed) []) (ka_store sample_closed) sample_config [] 100 100 of
     Inl _ \<Rightarrow> False
   | Inr a \<Rightarrow> (let b = snd (open_session sample_world (before_open a))
       in qu_entries (ka_queue b) = [] \<and> map qe_intent (st_queue (ka_state b)) = [''req_2''] \<and>
          EvIntentAck ''req_2'' (IoRejected (kernel_error_new ErrSessionClosed ''the session is closed''))
            \<in> set (map fr_event (unwrap_or (ka_store sample_closed) [])))"
  by code_simp

end
