(* ===== verification/Core_Replay.thy ===== *)
theory Core_Replay
  imports Core_Mirror
begin

text \<open>
  What reading back and taking back come to in a session that has been running: a
  client that attaches from a sequence number it knows is sent every durable frame it
  missed and then what is published (\<open>Actor::subscribe\<close>, \<open>past::catch_up\<close>), and a
  rewind leaves the items before the turn and its own marker (\<open>Actor::rewind\<close>).
\<close>

section \<open>Catching up\<close>


section \<open>Rewinding\<close>

lemma publish_transcript:
  assumes "ordered a" "face_neutral ev" "publish w ev cause a = (Inr x, b)"
  shows "ordered b \<and> st_transcript (ka_state b) = fst (transcript_apply (st_transcript (ka_state a)) ev)"
proof -
  have ev: "publishable (face a) ev"
    using assms(2) by (rule face_neutral_publishable)
  have "good crashed (\<lambda>_ b. ordered b \<and>
      st_transcript (ka_state b) = fst (transcript_apply (st_transcript (ka_state a)) ev)) (publish w ev cause a)"
    using assms(1) publishable_not_lagged[OF ev]
    by (intro good_publish[OF assms(1) ev]) (auto simp: state_apply_fresh ordered_def)
  then show ?thesis
    by (simp add: assms(3) good_def)
qed

lemma record_body_plain:
  assumes "\<not> is_receipt body"
  shows "record_body w body a =
    (case fresh_item w (map_option rn_turn (ka_running a)) None body a of (i, a1) \<Rightarrow>
       and_then (publish w (EvItemCompleted i) None a1) (\<lambda>_ a. returns (it_id i) a))"
  using assms by (cases body)
    (simp_all add: record_body_def record_for_def record_item_def recorded_receipt_def is_receipt_def and_then_assoc
      fresh_item_def now_def mint_def Let_def and_then_def returns_def split: prod.splits sum.splits)

lemma rewind_dropped_split:
  assumes "rewind_dropped xs turn = Some ids"
  shows "ids = map it_id (dropWhile (\<lambda>i. it_turn i \<noteq> Some turn) xs)"
proof -
  obtain at where at: "position (\<lambda>i. it_turn i = Some turn) xs = Some at" "ids = map it_id (drop at xs)"
    using assms by (auto simp: rewind_dropped_def)
  have "drop at xs = dropWhile (\<lambda>i. it_turn i \<noteq> Some turn) xs"
    using at(1) by (induction xs arbitrary: at) (auto split: if_splits)
  with at(2) show ?thesis
    by simp
qed

lemma distinct_prefix_filter:
  assumes "distinct (map f (xs @ ys))"
  shows "filter (\<lambda>x. f x \<notin> f ` set ys) (xs @ ys) = xs"
  using assms by (auto simp: filter_id_conv filter_empty_conv)

text \<open>The two frames of a rewind, seen in the transcript.\<close>

lemma rewound_transcript:
  assumes wf: "wf_transcript t" and new: "it_id i \<notin> it_id ` set (tr_items t)"
    and ids: "rewind_dropped (visible_items t) turn = Some ids"
    and t2: "t2 = fst (transcript_apply t (EvItemCompleted i))"
    and t3: "t3 = fst (transcript_apply t2 (EvRewound (tr_generation t2 + 1) turn ids []))"
  shows "visible_items t3 = takeWhile (\<lambda>i. it_turn i \<noteq> Some turn) (visible_items t) @ [i]"
    and "tr_generation t3 = tr_generation t + 1"
proof -
  let ?P = "\<lambda>i. it_turn i \<noteq> Some turn"
  have hid: "it_id i \<notin> hidden_ids t" and fresh: "it_id i \<notin> it_id ` set (visible_items t)"
    using new by (auto simp: hidden_ids_def visible_items_def dest: in_set_takeD in_set_dropD)
  have "position (\<lambda>j. it_id j = it_id i) (visible_items t) = None"
    using fresh unfolding position_None_iff by (metis imageI)
  then have vis2: "visible_items t2 = visible_items t @ [i]"
    using hid visible_apply[OF wf, of "EvItemCompleted i"] by (simp add: t2 touched_def view_step_def upsert_list_def)
  have wf2: "wf_transcript t2"
    by (simp add: t2 wf_transcript_apply wf)
  have gone: "ids = map it_id (dropWhile ?P (visible_items t))"
    using rewind_dropped_split[OF ids] .
  have "it_id i \<notin> set ids"
    using fresh gone by (auto dest: set_dropWhileD)
  moreover have "filter (\<lambda>i. it_id i \<notin> set ids) (visible_items t) = takeWhile ?P (visible_items t)"
    using distinct_prefix_filter[of it_id "takeWhile ?P (visible_items t)" "dropWhile ?P (visible_items t)"]
      wf_visible_distinct[OF wf] gone by simp
  ultimately show "visible_items t3 = takeWhile ?P (visible_items t) @ [i]"
    by (simp add: t3 transcript_apply_def change_def visible_remove wf2 vis2)
  show "tr_generation t3 = tr_generation t + 1"
    by (simp add: t3 t2 transcript_apply_def change_def remove_items_def upsert_def Let_def split: option.split)
qed

text \<open>
  A rewind that is not refused takes the turn's first item and everything after it
  out of the transcript, keeps everything before it as it was, appends one marker that
  names the turn and how many items went, and moves the history to its next
  generation, so that a page cut before it is refused as stale.
\<close>

theorem rewind_keeps_the_prefix:
  assumes "ordered a" "wf_transcript (st_transcript (ka_state a))"
    and "''itm_'' @ wo_mint w (ka_minted a) \<notin> it_id ` set (tr_items (st_transcript (ka_state a)))"
    and "rewind w (st_transcript (ka_state a)) turn a = (Inr n, b)"
  shows "let kept = takeWhile (\<lambda>i. it_turn i \<noteq> Some turn) (visible_items (st_transcript (ka_state a)));
             gone = dropWhile (\<lambda>i. it_turn i \<noteq> Some turn) (visible_items (st_transcript (ka_state a)))
    in n = word_of_nat (length gone) \<and>
       (\<exists>marker. it_body marker = BRewind turn n \<and>
          visible_items (st_transcript (ka_state b)) = kept @ [marker]) \<and>
       tr_generation (st_transcript (ka_state b)) = tr_generation (st_transcript (ka_state a)) + 1"
proof -
  let ?t = "st_transcript (ka_state a)"
  obtain ids where ids: "rewind_dropped (visible_items ?t) turn = Some ids" "n = word_of_nat (length ids)"
    and run: "and_then (record_body w (BRewind turn n) a) (\<lambda>_ a.
        and_then (publish w (EvRewound (tr_generation (st_transcript (ka_state a)) + 1) turn ids []) None a)
          (\<lambda>_ a. returns n a)) = (Inr n, b)"
    using assms(4) by (auto simp: rewind_def Let_def and_then_def returns_def split: if_splits option.splits prod.splits sum.splits)
  obtain i a1 where i: "fresh_item w (map_option rn_turn (ka_running a)) None (BRewind turn n) a = (i, a1)"
    by fastforce
  then have i': "it_id i = ''itm_'' @ wo_mint w (ka_minted a)" "it_body i = BRewind turn n"
    and a1: "ordered a1" "ka_state a1 = ka_state a"
    using assms(1) by (auto simp: fresh_item_def now_def mint_def Let_def elim!: ordered_cong)
  have plain: "\<not> is_receipt (BRewind turn n)"
    by (simp add: is_receipt_def)
  obtain x a2 y where a2: "publish w (EvItemCompleted i) None a1 = (Inr x, a2)"
    and b: "publish w (EvRewound (tr_generation (st_transcript (ka_state a2)) + 1) turn ids []) None a2 = (Inr y, b)"
    using run by (auto simp: record_body_plain[OF plain] i and_then_def returns_def split: prod.splits sum.splits)
  have t2: "ordered a2" "st_transcript (ka_state a2) = fst (transcript_apply ?t (EvItemCompleted i))"
    using publish_transcript[OF a1(1) _ a2] a1(2) by (simp_all add: face_neutral_def)
  have tb: "st_transcript (ka_state b) = fst (transcript_apply (st_transcript (ka_state a2))
      (EvRewound (tr_generation (st_transcript (ka_state a2)) + 1) turn ids []))"
    using publish_transcript[OF t2(1) _ b] by (simp add: face_neutral_def)
  note rewound_transcript[OF assms(2) _ ids(1) t2(2) tb]
  then show ?thesis
    using assms(3) i' ids(2) rewind_dropped_split[OF ids(1)] by auto
qed

section \<open>A concrete session\<close>

definition sample_logged :: actor where
  "sample_logged = snd (handle_mail sample_world (MRecord (BInterruption ''stop'' None)) sample_opened)"

definition sample_turn_item :: item where
  "sample_turn_item = (sample_item ''i1'' (BAssistant ''done''))\<lparr>it_turn := Some ''trn_1''\<rparr>"

definition sample_turned :: actor where
  "sample_turned = snd (handle_mail sample_world (MCatalogueEvent (EvItemCompleted sample_turn_item)) sample_logged)"


theorem rewind_keeps_the_prefix_witness:
  "case rewind sample_world (st_transcript (ka_state sample_turned)) ''trn_1'' sample_turned of
     (Inr n, b) \<Rightarrow> n = 1 \<and> length (visible_items (st_transcript (ka_state b))) = 2
   | _ \<Rightarrow> False"
proof -
  have fine: "\<not> isl (fst (rewind sample_world (st_transcript (ka_state sample_turned)) ''trn_1'' sample_turned))"
    by code_simp
  obtain n b where r: "rewind sample_world (st_transcript (ka_state sample_turned)) ''trn_1'' sample_turned = (Inr n, b)"
    using fine by (metis prod.collapse sum.collapse(2))
  have mail: "reaches sample_world sample_start Continue (snd (handle_mail sample_world m a))"
    if "reaches sample_world sample_start Continue a" "mail_ok a m" "fst (fst (handle_mail sample_world m a)) = Continue" for m a
    using that reaches_mail[OF that(1,2)] by (metis prod.collapse)
  have "reaches sample_world sample_start Continue sample_logged"
    unfolding sample_logged_def by (rule mail[OF sample_reaches_opened]) (simp, code_simp)
  then have "reaches sample_world sample_start Continue sample_turned"
    unfolding sample_turned_def by (rule mail) (simp add: face_neutral_def, code_simp)
  then have o: "ordered sample_turned"
    using reaches_ordered sample_fair sample_seated by blast
  have "wf_transcript (st_transcript (ka_state sample_turned))"
    by code_simp
  moreover have "''itm_'' @ wo_mint sample_world (ka_minted sample_turned)
      \<notin> it_id ` set (tr_items (st_transcript (ka_state sample_turned)))"
    by code_simp
  moreover have "takeWhile (\<lambda>i. it_turn i \<noteq> Some ''trn_1'') (visible_items (st_transcript (ka_state sample_turned)))
      = take 1 (visible_items (st_transcript (ka_state sample_turned)))"
    "length (visible_items (st_transcript (ka_state sample_turned))) = 2"
    "length (dropWhile (\<lambda>i. it_turn i \<noteq> Some ''trn_1'') (visible_items (st_transcript (ka_state sample_turned)))) = 1"
    by code_simp+
  ultimately show ?thesis
    using rewind_keeps_the_prefix[OF o _ _ r] r by (auto simp: Let_def)
qed

end
