(* ===== verification/Core_Subscribers.thy ===== *)
theory Core_Subscribers
  imports Core_Actor
begin

text \<open>
  The fan-out side of the actor (\<open>bingo-core/src/session/subscribers.rs\<close>): one bounded
  channel per subscriber, and the \<open>Lagged\<close> marker a subscriber gets instead of the
  frames it was too slow for.  The actor offers frames on its own thread while the
  client polls on another, so the three steps a poll takes (try the channel, read the
  lag, wait) are steps of their own here and frames may come between any two of them.
\<close>

section \<open>The two ends of a subscription\<close>

definition SUBSCRIBER_CAPACITY :: nat where
  "SUBSCRIBER_CAPACITY = 256"

text \<open>The channel and the lag, as both ends share them, and whether each end is still there.\<close>

record subscriber =
  sb_chan :: "frame list"
  sb_lag :: "(seq \<times> seq) option"
  sb_tx :: bool
  sb_rx :: bool

definition subscriber_new :: subscriber where
  "subscriber_new = \<lparr>sb_chan = [], sb_lag = None, sb_tx = True, sb_rx = True\<rparr>"

datatype try_send = SendOk subscriber | SendFull | SendClosed

definition try_send :: "frame \<Rightarrow> subscriber \<Rightarrow> try_send" where
  "try_send f s =
     (if \<not> sb_rx s then SendClosed
      else if length (sb_chan s) \<ge> SUBSCRIBER_CAPACITY then SendFull
      else SendOk (s\<lparr>sb_chan := sb_chan s @ [f]\<rparr>))"

text \<open>The body of \<open>retain_mut\<close>: the subscriber after a frame, and whether it is kept.\<close>

definition offer :: "frame \<Rightarrow> subscriber \<Rightarrow> subscriber \<times> bool" where
  "offer f s =
     (case sb_lag s of
        Some (gap, _) \<Rightarrow> (s\<lparr>sb_lag := Some (gap, fr_seq f)\<rparr>, sb_rx s)
      | None \<Rightarrow>
          (case try_send f s of
             SendOk s' \<Rightarrow> (s', True)
           | SendFull \<Rightarrow> (s\<lparr>sb_lag := Some (fr_seq f, fr_seq f)\<rparr>, True)
           | SendClosed \<Rightarrow> (s, False)))"

text \<open>Dropping the sender is what the client sees of not being kept.\<close>

definition offered_to :: "frame \<Rightarrow> subscriber \<Rightarrow> subscriber" where
  "offered_to f s = (case offer f s of (s', kept) \<Rightarrow> s'\<lparr>sb_tx := kept\<rparr>)"

definition fanout :: "frame \<Rightarrow> subscriber list \<Rightarrow> subscriber list" where
  "fanout f subs = filter sb_tx (map (offered_to f) subs)"

definition subscribers_add :: "frame list \<Rightarrow> subscriber list \<Rightarrow> (frame list \<times> subscriber) \<times> subscriber list" where
  "subscribers_add replay subs = ((replay, subscriber_new), subs @ [subscriber_new])"

text \<open>\<open>live\<close>: where the client's stream stands between its steps.\<close>

datatype stream_phase = Polling | Checking | Waiting | StreamEnded

definition lag_marker :: "session_id \<Rightarrow> timestamp \<Rightarrow> seq \<Rightarrow> seq \<Rightarrow> frame" where
  "lag_marker session at gap_start gap_end =
     \<lparr>fr_seq = gap_end, fr_ts = at, fr_session = session, fr_cause = None, fr_event = EvLagged gap_start gap_end\<rparr>"

definition live_step ::
  "session_id \<Rightarrow> timestamp \<Rightarrow> stream_phase \<Rightarrow> subscriber \<Rightarrow> frame option \<times> stream_phase \<times> subscriber" where
  "live_step session at ph s =
     (case ph of
        Polling \<Rightarrow>
          (case sb_chan s of
             f # rest \<Rightarrow> (Some f, Polling, s\<lparr>sb_chan := rest\<rparr>)
           | [] \<Rightarrow> if sb_tx s then (None, Checking, s) else (None, StreamEnded, s\<lparr>sb_rx := False\<rparr>))
      | Checking \<Rightarrow>
          (case sb_lag s of
             Some (gap_start, gap_end) \<Rightarrow>
               (Some (lag_marker session at gap_start gap_end), StreamEnded, s\<lparr>sb_lag := None, sb_rx := False\<rparr>)
           | None \<Rightarrow> (None, Waiting, s))
      | Waiting \<Rightarrow>
          (case sb_chan s of
             f # rest \<Rightarrow> (Some f, Polling, s\<lparr>sb_chan := rest\<rparr>)
           | [] \<Rightarrow> if sb_tx s then (None, Waiting, s) else (None, StreamEnded, s\<lparr>sb_rx := False\<rparr>))
      | StreamEnded \<Rightarrow> (None, StreamEnded, s))"

section \<open>A client beside the actor\<close>

text \<open>
  What may happen to one subscription, in any order: a frame is offered, the client
  takes one step, the client goes away, the actor forgets its subscribers (\<open>clear\<close>).
  \<open>wa_offered\<close> and \<open>wa_got\<close> record what was offered while the actor kept the
  subscription and what the client was given.
\<close>

datatype watch_step = Fan frame | Poll timestamp | HangUp | Clear

record watch =
  wa_sub :: subscriber
  wa_phase :: stream_phase
  wa_offered :: "frame list"
  wa_got :: "frame list"

definition watch_new :: watch where
  "watch_new = \<lparr>wa_sub = subscriber_new, wa_phase = Polling, wa_offered = [], wa_got = []\<rparr>"

definition watch_do :: "session_id \<Rightarrow> watch_step \<Rightarrow> watch \<Rightarrow> watch" where
  "watch_do session st x =
     (case st of
        Fan f \<Rightarrow>
          (if sb_tx (wa_sub x) then x\<lparr>wa_sub := offered_to f (wa_sub x), wa_offered := wa_offered x @ [f]\<rparr> else x)
      | Poll at \<Rightarrow>
          (case live_step session at (wa_phase x) (wa_sub x) of (out, ph, s) \<Rightarrow>
             x\<lparr>wa_sub := s, wa_phase := ph, wa_got := wa_got x @ (case out of Some f \<Rightarrow> [f] | None \<Rightarrow> [])\<rparr>)
      | HangUp \<Rightarrow> x\<lparr>wa_sub := (wa_sub x)\<lparr>sb_rx := False\<rparr>, wa_phase := StreamEnded\<rparr>
      | Clear \<Rightarrow> x\<lparr>wa_sub := (wa_sub x)\<lparr>sb_tx := False\<rparr>\<rparr>)"

definition watch_from :: "session_id \<Rightarrow> watch \<Rightarrow> watch_step list \<Rightarrow> watch" where
  "watch_from session x sts = foldl (\<lambda>x st. watch_do session st x) x sts"

definition watch_run :: "session_id \<Rightarrow> watch_step list \<Rightarrow> watch" where
  "watch_run session sts = watch_from session watch_new sts"

text \<open>No frame was offered between an empty channel and the look at the lag.\<close>

definition undisturbed :: "session_id \<Rightarrow> watch_step list \<Rightarrow> bool" where
  "undisturbed session sts \<longleftrightarrow>
     (\<forall>n < length sts. (case sts ! n of Fan _ \<Rightarrow> True | _ \<Rightarrow> False) \<longrightarrow>
        wa_phase (watch_run session (take n sts)) \<noteq> Checking)"

section \<open>What a client is given\<close>

text \<open>What \<open>wa_got\<close> is of \<open>wa_offered\<close>, once the stream has ended and before.\<close>

definition given :: "session_id \<Rightarrow> bool \<Rightarrow> frame list \<Rightarrow> frame list \<Rightarrow> bool" where
  "given session calm offered got \<longleftrightarrow>
     (\<exists>delivered rest. offered = delivered @ rest \<and>
        (got = delivered \<or>
         (\<exists>skipped missed more_frames at. rest = skipped @ missed @ more_frames \<and> missed \<noteq> [] \<and>
            length skipped \<le> SUBSCRIBER_CAPACITY \<and> (calm \<longrightarrow> skipped = []) \<and>
            got = delivered @ [lag_marker session at (fr_seq (hd missed)) (fr_seq (last missed))])))"

definition behind :: "subscriber \<Rightarrow> frame list \<Rightarrow> bool" where
  "behind s owed \<longleftrightarrow>
     (case sb_lag s of
        None \<Rightarrow> owed = sb_chan s
      | Some (gap_start, gap_end) \<Rightarrow>
          (\<exists>missed. missed \<noteq> [] \<and> owed = sb_chan s @ missed \<and>
             gap_start = fr_seq (hd missed) \<and> gap_end = fr_seq (last missed)))"

definition watch_ok :: "session_id \<Rightarrow> bool \<Rightarrow> watch \<Rightarrow> bool" where
  "watch_ok session calm x \<longleftrightarrow>
     (let s = wa_sub x in
      if wa_phase x = StreamEnded then \<not> sb_rx s \<and> given session calm (wa_offered x) (wa_got x)
      else sb_rx s \<and> (\<exists>owed. wa_offered x = wa_got x @ owed \<and> behind s owed) \<and>
           length (sb_chan s) \<le> SUBSCRIBER_CAPACITY \<and>
           (wa_phase x = Checking \<and> calm \<longrightarrow> sb_chan s = []) \<and>
           (wa_phase x = Waiting \<and> sb_lag s \<noteq> None \<longrightarrow> sb_chan s \<noteq> []))"

lemma given_prefix [simp]: "given session calm (got @ rest) got" "given session calm got got"
  by (auto simp: given_def)

lemma given_more: "given session calm offered got \<Longrightarrow> given session calm (offered @ fs) got"
  unfolding given_def by (metis append.assoc)

lemma given_calm: "given session calm offered got \<Longrightarrow> (calm' \<longrightarrow> calm) \<Longrightarrow> given session calm' offered got"
  unfolding given_def by metis

lemma given_marker:
  assumes "missed \<noteq> []" "length skipped \<le> SUBSCRIBER_CAPACITY" "calm \<longrightarrow> skipped = []"
  shows "given session calm (got @ skipped @ missed)
    (got @ [lag_marker session at (fr_seq (hd missed)) (fr_seq (last missed))])"
  using assms unfolding given_def by (metis append_Nil2)

lemma watch_ok_new: "watch_ok session calm watch_new"
  by (simp add: watch_ok_def watch_new_def subscriber_new_def behind_def)

lemma behind_offer:
  assumes "behind s owed" "sb_rx s" "length (sb_chan s) \<le> SUBSCRIBER_CAPACITY"
  shows "behind (offered_to f s) (owed @ [f]) \<and> sb_rx (offered_to f s) \<and>
    length (sb_chan (offered_to f s)) \<le> SUBSCRIBER_CAPACITY \<and>
    (sb_lag (offered_to f s) \<noteq> None \<longrightarrow> sb_lag s \<noteq> None \<and> sb_chan (offered_to f s) = sb_chan s
        \<or> sb_chan (offered_to f s) \<noteq> [])"
proof (cases "sb_lag s")
  case None
  then show ?thesis
    using assms by (auto simp: behind_def offered_to_def offer_def try_send_def SUBSCRIBER_CAPACITY_def)
next
  case (Some g)
  obtain gap_start gap_end where g: "g = (gap_start, gap_end)"
    by fastforce
  obtain missed where "missed \<noteq> []" "owed = sb_chan s @ missed" "gap_start = fr_seq (hd missed)"
    using assms(1) Some by (auto simp: behind_def g)
  then have "behind (offered_to f s) (owed @ [f])"
    using Some g assms(2) by (auto simp: behind_def offered_to_def offer_def intro!: exI[of _ "missed @ [f]"])
  then show ?thesis
    using Some g assms by (simp add: offered_to_def offer_def)
qed

lemma watch_ok_fan:
  assumes "watch_ok session calm x" "calm' \<longrightarrow> calm \<and> wa_phase x \<noteq> Checking"
  shows "watch_ok session calm' (watch_do session (Fan f) x)"
proof (cases "wa_phase x = StreamEnded")
  case True
  then have "\<not> sb_rx (offered_to f (wa_sub x))"
    using assms(1) by (auto simp: watch_ok_def Let_def offered_to_def offer_def try_send_def split: option.splits)
  then show ?thesis
    using True assms by (auto simp: watch_ok_def watch_do_def Let_def intro: given_more given_calm)
next
  case False
  then obtain owed where owed: "wa_offered x = wa_got x @ owed" "behind (wa_sub x) owed"
    using assms(1) by (auto simp: watch_ok_def Let_def)
  have rx: "sb_rx (wa_sub x)" "length (sb_chan (wa_sub x)) \<le> SUBSCRIBER_CAPACITY"
    using assms(1) False by (simp_all add: watch_ok_def Let_def)
  note after = behind_offer[OF owed(2) rx, of f]
  show ?thesis
  proof (cases "sb_tx (wa_sub x)")
    case True
    have "\<exists>o'. wa_offered x @ [f] = wa_got x @ o' \<and> behind (offered_to f (wa_sub x)) o'"
      using after owed(1) by (intro exI[of _ "owed @ [f]"]) simp
    then show ?thesis
      using True False assms after by (auto simp: watch_ok_def watch_do_def Let_def)
  next
    case False
    then show ?thesis
      using assms by (auto simp: watch_ok_def watch_do_def Let_def intro: given_calm)
  qed
qed

lemma watch_ok_poll:
  assumes "watch_ok session calm x"
  shows "watch_ok session calm (watch_do session (Poll at) x)"
proof (cases "wa_phase x")
  case StreamEnded
  then show ?thesis
    using assms by (simp add: watch_ok_def watch_do_def live_step_def Let_def)
next
  case Checking
  then obtain owed where owed: "wa_offered x = wa_got x @ owed" "behind (wa_sub x) owed"
    using assms by (auto simp: watch_ok_def Let_def)
  show ?thesis
  proof (cases "sb_lag (wa_sub x)")
    case None
    then show ?thesis
      using assms Checking by (simp add: watch_ok_def watch_do_def live_step_def Let_def)
  next
    case (Some g)
    obtain gap_start gap_end where g: "g = (gap_start, gap_end)"
      by fastforce
    obtain missed where m: "missed \<noteq> []" "owed = sb_chan (wa_sub x) @ missed"
      "gap_start = fr_seq (hd missed)" "gap_end = fr_seq (last missed)"
      using owed(2) Some by (auto simp: behind_def g)
    have "given session calm (wa_got x @ sb_chan (wa_sub x) @ missed)
        (wa_got x @ [lag_marker session at gap_start gap_end])"
      unfolding m(3,4) by (rule given_marker) (use m assms Checking in \<open>auto simp: watch_ok_def Let_def\<close>)
    then show ?thesis
      using Checking Some g m(2) owed(1) by (simp add: watch_ok_def watch_do_def live_step_def Let_def)
  qed
next
  case Polling
  then show ?thesis
    using assms by (cases "sb_chan (wa_sub x)")
      (auto simp: watch_ok_def watch_do_def live_step_def Let_def behind_def intro: given_prefix split: option.splits)
next
  case Waiting
  then show ?thesis
    using assms by (cases "sb_chan (wa_sub x)")
      (auto simp: watch_ok_def watch_do_def live_step_def Let_def behind_def intro: given_prefix split: option.splits)
qed

lemma watch_ok_rest:
  "watch_ok session calm x \<Longrightarrow> watch_ok session calm (watch_do session HangUp x)"
  "watch_ok session calm x \<Longrightarrow> watch_ok session calm (watch_do session Clear x)"
  by (auto simp: watch_ok_def watch_do_def Let_def behind_def intro: given_prefix given_calm split: option.splits if_splits)

lemma watch_run_snoc: "watch_run session (sts @ [st]) = watch_do session st (watch_run session sts)"
  by (simp add: watch_run_def watch_from_def)

lemma undisturbed_snoc:
  "undisturbed session (sts @ [st]) \<Longrightarrow>
     undisturbed session sts \<and> ((case st of Fan _ \<Rightarrow> True | _ \<Rightarrow> False) \<longrightarrow> wa_phase (watch_run session sts) \<noteq> Checking)"
  unfolding undisturbed_def
  by (auto simp: nth_append dest!: spec[of _ "length sts"] split: watch_step.splits)

lemma watch_run_ok: "watch_ok session (undisturbed session sts) (watch_run session sts)"
proof (induction sts rule: rev_induct)
  case Nil
  then show ?case
    using watch_ok_new by (simp add: watch_run_def watch_from_def)
next
  case (snoc st sts)
  note calm = undisturbed_snoc[of session sts st]
  have weaken: "watch_ok session c x \<Longrightarrow> (c' \<longrightarrow> c) \<Longrightarrow> watch_ok session c' x" for c c' x
    by (auto simp: watch_ok_def Let_def intro: given_calm split: if_splits)
  show ?case
    unfolding watch_run_snoc
    by (cases st; simp; rule watch_ok_fan watch_ok_poll watch_ok_rest weaken)
      (use snoc.IH calm weaken in auto)
qed

text \<open>
  C32: However the offers of the actor and the steps of a client interleave, what the
  client is given is the beginning of what was offered to it, in order and without a
  hole, and then at most one marker, which is the last thing its stream gives and
  names the first and the last frame of a run that was kept from it.  Where no frame
  was offered between the client's look at its empty channel and its look at the lag,
  that run starts right where its frames stopped; otherwise at most a channel's worth
  of frames lies between, unannounced.
\<close>

theorem client_gets_a_prefix:
  "let x = watch_run session sts in
   \<exists>delivered rest. wa_offered x = delivered @ rest \<and>
     (wa_got x = delivered \<or>
      (\<exists>skipped missed more_frames at. rest = skipped @ missed @ more_frames \<and> missed \<noteq> [] \<and>
         length skipped \<le> SUBSCRIBER_CAPACITY \<and> (undisturbed session sts \<longrightarrow> skipped = []) \<and>
         wa_got x = delivered @ [lag_marker session at (fr_seq (hd missed)) (fr_seq (last missed))] \<and>
         wa_phase x = StreamEnded))"
proof -
  define x where "x = watch_run session sts"
  have ok: "watch_ok session (undisturbed session sts) x"
    unfolding x_def by (rule watch_run_ok)
  show ?thesis
  proof (cases "wa_phase x = StreamEnded")
    case True
    then have "given session (undisturbed session sts) (wa_offered x) (wa_got x)"
      using ok by (simp add: watch_ok_def Let_def)
    then show ?thesis
      using True unfolding x_def[symmetric] Let_def given_def by blast
  next
    case False
    then obtain owed where "wa_offered x = wa_got x @ owed"
      using ok by (auto simp: watch_ok_def Let_def)
    then show ?thesis
      unfolding x_def[symmetric] Let_def by blast
  qed
qed

text \<open>Polling on, with nothing else happening.\<close>

definition polls :: "nat \<Rightarrow> timestamp \<Rightarrow> watch_step list" where
  "polls n at = replicate n (Poll at)"

lemma watch_from_append: "watch_from session x (xs @ ys) = watch_from session (watch_from session x xs) ys"
  by (simp add: watch_from_def)

lemma polls_run:
  "watch_from session x (polls 0 at) = x"
  "watch_from session x (polls (Suc n) at) = watch_from session (watch_do session (Poll at) x) (polls n at)"
  by (simp_all add: polls_def watch_from_def)

lemma polls_add: "watch_from session x (polls (m + n) at) = watch_from session (watch_from session x (polls m at)) (polls n at)"
  by (simp add: polls_def replicate_add watch_from_append)

text \<open>A client that polls or waits takes what its channel holds.\<close>

lemma poll_takes:
  "wa_phase x \<in> {Polling, Waiting} \<Longrightarrow> sb_chan (wa_sub x) = f # rest \<Longrightarrow>
     watch_do session (Poll at) x = x\<lparr>wa_sub := (wa_sub x)\<lparr>sb_chan := rest\<rparr>, wa_phase := Polling, wa_got := wa_got x @ [f]\<rparr>"
  by (auto simp: watch_do_def live_step_def)

lemma drained:
  assumes "wa_phase x \<in> {Polling, Waiting}" "sb_chan (wa_sub x) = f # rest"
  shows "watch_from session x (polls (length (sb_chan (wa_sub x))) at)
    = x\<lparr>wa_sub := (wa_sub x)\<lparr>sb_chan := []\<rparr>, wa_phase := Polling, wa_got := wa_got x @ sb_chan (wa_sub x)\<rparr>"
  using assms
proof (induction rest arbitrary: x f)
  case Nil
  then show ?case
    by (simp add: polls_run poll_takes)
next
  case (Cons g rest)
  then show ?case
    using Cons.IH[of "watch_do session (Poll at) x" g] by (simp add: polls_run poll_takes)
qed

text \<open>Once drained, a client that lagged reads its marker in two steps and one that did not has everything.\<close>

lemma lag_told:
  assumes "wa_phase x = Polling" "sb_chan (wa_sub x) = []" "sb_tx (wa_sub x)" "sb_lag (wa_sub x) = Some (gap_start, gap_end)"
  shows "watch_from session x (polls 2 at) = x\<lparr>wa_sub := (wa_sub x)\<lparr>sb_lag := None, sb_rx := False\<rparr>,
    wa_phase := StreamEnded, wa_got := wa_got x @ [lag_marker session at gap_start gap_end]\<rparr>"
  using assms by (simp add: numeral_2_eq_2 polls_run watch_do_def live_step_def)

lemma all_delivered:
  assumes "watch_ok session calm x" "wa_phase x \<noteq> StreamEnded" "sb_lag (wa_sub x) = None"
  shows "\<exists>n \<le> length (sb_chan (wa_sub x)) + 3. wa_got (watch_from session x (polls n at)) = wa_offered x"
proof -
  have all: "wa_offered x = wa_got x @ sb_chan (wa_sub x)"
    using assms by (auto simp: watch_ok_def behind_def Let_def)
  let ?n = "length (sb_chan (wa_sub x))"
  have n: "?n \<le> ?n + 3" "Suc ?n \<le> ?n + 3"
    by simp_all
  show ?thesis
  proof (cases "sb_chan (wa_sub x)")
    case Nil
    then show ?thesis
      using all by (intro exI[of _ 0]) (simp add: polls_run)
  next
    case (Cons f rest)
    show ?thesis
    proof (cases "wa_phase x = Checking")
      case True
      then have "watch_do session (Poll at) x = x\<lparr>wa_phase := Waiting\<rparr>"
        using assms(3) by (simp add: watch_do_def live_step_def)
      then have "wa_got (watch_from session x (polls (Suc ?n) at)) = wa_offered x"
        using all drained[of "x\<lparr>wa_phase := Waiting\<rparr>" f rest session at] Cons by (simp add: polls_run)
      then show ?thesis
        using n(2) by blast
    next
      case False
      then have "wa_phase x \<in> {Polling, Waiting}"
        using assms(2) by (cases "wa_phase x") auto
      then have "wa_got (watch_from session x (polls ?n at)) = wa_offered x"
        using all drained[OF _ Cons, of session at] by simp
      then show ?thesis
        using n(1) by blast
    qed
  qed
qed

lemma gap_told:
  assumes "watch_ok session calm x" "wa_phase x \<noteq> StreamEnded" "sb_lag (wa_sub x) = Some (gap_start, gap_end)"
    and "sb_tx (wa_sub x)"
  shows "\<exists>n \<le> length (sb_chan (wa_sub x)) + 3. let y = watch_from session x (polls n at) in
    wa_phase y = StreamEnded \<and> wa_got y \<noteq> [] \<and> last (wa_got y) = lag_marker session at gap_start gap_end"
proof (cases "wa_phase x = Checking")
  case True
  then show ?thesis
    using assms(3) by (intro exI[of _ 1]) (simp add: polls_run watch_do_def live_step_def)
next
  case False
  then have ph: "wa_phase x \<in> {Polling, Waiting}"
    using assms(2) by (cases "wa_phase x") auto
  let ?n = "length (sb_chan (wa_sub x))"
  let ?y = "x\<lparr>wa_sub := (wa_sub x)\<lparr>sb_chan := []\<rparr>, wa_phase := Polling, wa_got := wa_got x @ sb_chan (wa_sub x)\<rparr>"
  have "watch_from session x (polls ?n at) = ?y"
  proof (cases "sb_chan (wa_sub x)")
    case Nil
    then have "wa_phase x = Polling"
      using assms(1,3) ph by (auto simp: watch_ok_def Let_def)
    then show ?thesis
      using Nil by (simp add: polls_run)
  next
    case (Cons f rest)
    then show ?thesis
      using drained[OF ph Cons] by simp
  qed
  then show ?thesis
    using assms(3,4) lag_told[of ?y gap_start gap_end session at] polls_add[of session x ?n 2 at]
    by (intro exI[of _ "?n + 2"]) (simp add: Let_def)
qed

text \<open>
  A client never waits behind a gap.  While the actor keeps the subscription, a
  client that takes as many steps as its channel holds frames, and three more, has
  been given everything that was offered to it if it did not fall behind, and
  otherwise the marker of its gap, with which the stream ends.
\<close>

theorem client_hears_of_its_gap:
  assumes "x = watch_run session sts" "wa_phase x \<noteq> StreamEnded" "sb_tx (wa_sub x)"
  shows "\<exists>n \<le> length (sb_chan (wa_sub x)) + 3. let y = watch_from session x (polls n at) in
    (case sb_lag (wa_sub x) of
       None \<Rightarrow> wa_got y = wa_offered x
     | Some (gap_start, gap_end) \<Rightarrow>
         wa_phase y = StreamEnded \<and> wa_got y \<noteq> [] \<and> last (wa_got y) = lag_marker session at gap_start gap_end)"
proof (cases "sb_lag (wa_sub x)")
  case None
  then show ?thesis
    using all_delivered[OF watch_run_ok, of session sts at] assms by (simp add: Let_def)
next
  case (Some g)
  then show ?thesis
    using gap_told[OF watch_run_ok, of session sts "fst g" "snd g" at] assms by (simp add: split_beta)
qed

section \<open>Where the marker is lost\<close>

text \<open>A client that does not poll: its channel fills and the rest is its gap.\<close>

lemma fans_fill:
  "watch_run session (map Fan fs) =
     \<lparr>wa_sub = \<lparr>sb_chan = take SUBSCRIBER_CAPACITY fs,
        sb_lag = (if length fs \<le> SUBSCRIBER_CAPACITY then None
                  else Some (fr_seq (fs ! SUBSCRIBER_CAPACITY), fr_seq (last fs))), sb_tx = True, sb_rx = True\<rparr>,
      wa_phase = Polling, wa_offered = fs, wa_got = []\<rparr>"
proof (induction fs rule: rev_induct)
  case Nil
  then show ?case
    by (simp add: watch_run_def watch_from_def watch_new_def subscriber_new_def)
next
  case (snoc f fs)
  consider "length fs < SUBSCRIBER_CAPACITY" | "length fs = SUBSCRIBER_CAPACITY" | "length fs > SUBSCRIBER_CAPACITY"
    by linarith
  then show ?case
    by cases (simp_all add: snoc.IH watch_run_snoc watch_do_def offered_to_def offer_def try_send_def nth_append
        min_def)
qed

text \<open>
  When the actor forgets its subscribers, as it does when it stops, a client that
  had fallen behind is not told: it drains its channel and its stream then ends, with
  the frames after it, the close of the session among them, neither delivered nor
  marked as missed.
\<close>

theorem silent_end_of_a_laggard:
  assumes "length fs > SUBSCRIBER_CAPACITY"
  shows "let x = watch_run session (map Fan fs @ [Clear] @ polls (Suc SUBSCRIBER_CAPACITY) at) in
    wa_offered x = fs \<and> wa_got x = take SUBSCRIBER_CAPACITY fs \<and> wa_phase x = StreamEnded"
proof -
  let ?s = "\<lparr>sb_chan = take SUBSCRIBER_CAPACITY fs, sb_lag = Some (fr_seq (fs ! SUBSCRIBER_CAPACITY), fr_seq (last fs)),
    sb_tx = False, sb_rx = True\<rparr>"
  let ?x = "\<lparr>wa_sub = ?s, wa_phase = Polling, wa_offered = fs, wa_got = []\<rparr>"
  have x: "watch_run session (map Fan fs @ [Clear]) = ?x"
    using assms by (simp add: watch_run_snoc[of _ "map Fan fs"] fans_fill watch_do_def)
  obtain f rest where chan: "sb_chan (wa_sub ?x) = f # rest" "length (sb_chan (wa_sub ?x)) = SUBSCRIBER_CAPACITY"
    using assms by (cases fs) (simp_all add: SUBSCRIBER_CAPACITY_def)
  have "watch_run session (map Fan fs @ [Clear] @ polls (Suc SUBSCRIBER_CAPACITY) at)
      = watch_from session (watch_from session ?x (polls SUBSCRIBER_CAPACITY at)) (polls 1 at)"
    unfolding x[symmetric] watch_run_def
    by (simp add: watch_from_append[symmetric] polls_def replicate_append_same[symmetric])
  then show ?thesis
    using drained[OF _ chan(1), of session at] chan(2)
    by (simp add: Let_def polls_run watch_do_def live_step_def)
qed

section \<open>A concrete client\<close>

definition sample_frames :: "frame list" where
  "sample_frames = map (\<lambda>n. \<lparr>fr_seq = n, fr_ts = 0, fr_session = ''ses_1'', fr_cause = None,
     fr_event = EvContextChanged None\<rparr>) [1..<300]"

theorem client_hears_of_its_gap_witness:
  "\<exists>n. wa_got (watch_from ''ses_1'' (watch_run ''ses_1'' (map Fan sample_frames)) (polls n 7)) \<noteq> [] \<and>
     last (wa_got (watch_from ''ses_1'' (watch_run ''ses_1'' (map Fan sample_frames)) (polls n 7)))
       = lag_marker ''ses_1'' 7 257 299"
proof -
  have n: "length sample_frames = 299" "fr_seq (sample_frames ! 256) = 257" "fr_seq (last sample_frames) = 299"
    by (simp_all add: sample_frames_def last_map)
  show ?thesis
    using client_hears_of_its_gap[OF refl, of "''ses_1''" "map Fan sample_frames" 7]
    by (auto simp: fans_fill n SUBSCRIBER_CAPACITY_def Let_def)
qed

theorem client_gets_a_prefix_witness:
  "\<exists>delivered rest. wa_offered (watch_run ''ses_1'' [Fan (sample_frames ! 0), Poll 7]) = delivered @ rest \<and>
     wa_got (watch_run ''ses_1'' [Fan (sample_frames ! 0), Poll 7]) = delivered"
proof -
  have "wa_phase (watch_run ''ses_1'' [Fan (sample_frames ! 0), Poll 7]) \<noteq> StreamEnded"
    by (simp add: watch_run_def watch_from_def watch_new_def subscriber_new_def watch_do_def offered_to_def offer_def
        try_send_def SUBSCRIBER_CAPACITY_def live_step_def)
  then show ?thesis
    using client_gets_a_prefix[of "''ses_1''" "[Fan (sample_frames ! 0), Poll 7]"] by (auto simp: Let_def)
qed

theorem silent_end_of_a_laggard_witness:
  "wa_got (watch_run ''ses_1'' (map Fan sample_frames @ [Clear] @ polls 257 7)) = take 256 sample_frames"
  using silent_end_of_a_laggard[of sample_frames "''ses_1''" 7]
  by (simp add: Let_def SUBSCRIBER_CAPACITY_def sample_frames_def)

end
