(* ===== verification/Core_Chain.thy ===== *)
theory Core_Chain
  imports Core_Input
begin

text \<open>
  The interceptor chain of the kernel (\<open>bingo-core/src/chain/mod.rs\<close>, \<open>tier.rs\<close>,
  \<open>ordering.rs\<close>, and the two tool points of \<open>chain/tool.rs\<close>): plugins stand around a
  kernel operation, each handed its input and a continuation it may call once, each
  held to the tier of trust its plugin was granted.  Shown here, once in a locale and
  then for the permission check and for the run of a tool: what links below a tier
  can make of the kernel's own answer.
\<close>

section \<open>Authority\<close>

datatype tier = TierTighten | TierRewrite | TierFull

instantiation tier :: linorder
begin

definition tier_rank :: "tier \<Rightarrow> nat" where
  "tier_rank t = (case t of TierTighten \<Rightarrow> 0 | TierRewrite \<Rightarrow> 1 | TierFull \<Rightarrow> 2)"

definition less_eq_tier :: "tier \<Rightarrow> tier \<Rightarrow> bool" where
  "s \<le> t \<longleftrightarrow> tier_rank s \<le> tier_rank t"

definition less_tier :: "tier \<Rightarrow> tier \<Rightarrow> bool" where
  "s < t \<longleftrightarrow> tier_rank s < tier_rank t"

instance
  by standard (auto simp: less_eq_tier_def less_tier_def tier_rank_def split: tier.splits)

end

lemma tier_below_full: "t < TierFull \<longleftrightarrow> t \<noteq> TierFull"
  by (cases t) (simp_all add: less_tier_def tier_rank_def)

datatype act = ActObserve | ActRewrite | ActAnswer | ActAllow

record acts =
  at_deny :: bool
  at_rewrite :: bool
  at_answer :: bool

record entry =
  en_name :: string
  en_acts :: acts

definition WRAP :: acts where
  "WRAP = \<lparr>at_deny = True, at_rewrite = True, at_answer = True\<rparr>"

definition PASS :: acts where
  "PASS = \<lparr>at_deny = True, at_rewrite = True, at_answer = False\<rparr>"

definition TOOL_CHECK :: entry where
  "TOOL_CHECK = \<lparr>en_name = ''tool.check'', en_acts = PASS\<rparr>"

definition TOOL_CALL :: entry where
  "TOOL_CALL = \<lparr>en_name = ''tool.call'', en_acts = WRAP\<rparr>"

definition PROMPT_SUBMIT :: entry where
  "PROMPT_SUBMIT = \<lparr>en_name = ''prompt.submit'', en_acts = PASS\<rparr>"

definition PLUGIN_REGISTER :: entry where
  "PLUGIN_REGISTER = \<lparr>en_name = ''plugin.register'', en_acts = WRAP\<rparr>"

text \<open>Entries are equal when their names are.\<close>

definition entry_is :: "entry \<Rightarrow> entry \<Rightarrow> bool" where
  "entry_is e f \<longleftrightarrow> en_name e = en_name f"

definition decision_rank :: "decision \<Rightarrow> nat" where
  "decision_rank d = (case d of Allow _ \<Rightarrow> 0 | Ask _ _ \<Rightarrow> 1 | Deny _ \<Rightarrow> 2)"

definition decision_tightens :: "decision \<Rightarrow> decision \<Rightarrow> bool" where
  "decision_tightens before after \<longleftrightarrow> decision_rank after \<ge> decision_rank before"

definition admits :: "tier \<Rightarrow> entry \<Rightarrow> act \<Rightarrow> bool" where
  "admits t e a =
     (case (t, a) of
        (_, ActObserve) \<Rightarrow> True
      | (TierFull, _) \<Rightarrow> True
      | (_, ActAllow) \<Rightarrow> False
      | (TierTighten, _) \<Rightarrow> list_ex (entry_is e) [PROMPT_SUBMIT, TOOL_CHECK, PLUGIN_REGISTER]
      | (TierRewrite, ActRewrite) \<Rightarrow> at_rewrite (en_acts e)
      | (TierRewrite, ActAnswer) \<Rightarrow> at_answer (en_acts e))"

section \<open>Links\<close>

text \<open>
  What a link does with the input it is handed: it answers on its own, or it goes on
  with an input, possibly another, and answers once it has seen what came back (a
  continuation can be called once).  A deadline that passes is an answer too.
\<close>

datatype ('i, 'o) link_move =
    LinkAnswers "kernel_error + 'o"
  | LinkContinues 'i "kernel_error + 'o \<Rightarrow> kernel_error + 'o"

datatype placement = PlaceOuter | PlaceBuiltin

record ('i, 'o) link =
  lk_id :: string
  lk_external :: "string option"
  lk_placement :: placement
  lk_tier :: tier
  lk_matches :: "entry \<Rightarrow> 'i \<Rightarrow> bool"
  lk_does :: "'i \<Rightarrow> ('i, 'o) link_move"

text \<open>One point of the kernel at which links stand: the trait \<open>Point\<close>.\<close>

record ('i, 'o) point =
  pt_entry :: entry
  pt_same_input :: "'i \<Rightarrow> 'i \<Rightarrow> bool"
  pt_same_output :: "'o \<Rightarrow> 'o \<Rightarrow> bool"
  pt_pinned :: "'i \<Rightarrow> 'i \<Rightarrow> bool"
  pt_accepts :: "tier \<Rightarrow> 'o option \<Rightarrow> 'o \<Rightarrow> bool"
  pt_needs_baseline :: "tier \<Rightarrow> 'o \<Rightarrow> bool"
  pt_tool :: "'i \<Rightarrow> string option"

definition link_rank :: "('i, 'o) link \<Rightarrow> nat" where
  "link_rank l =
     (case lk_external l of
        Some _ \<Rightarrow> 0
      | None \<Rightarrow> (case lk_placement l of PlaceOuter \<Rightarrow> 1 | PlaceBuiltin \<Rightarrow> 2))"

definition ordered_links :: "('i, 'o) link list \<Rightarrow> ('i, 'o) link list" where
  "ordered_links ls = sort_key link_rank ls"

definition skipped_notice :: "('i, 'o) link \<Rightarrow> entry \<Rightarrow> string \<Rightarrow> item_body" where
  "skipped_notice l e why =
     BNotice LvWarn ''INTERCEPTOR_SKIPPED''
       (unwrap_or (lk_external l) (lk_id l) @ '' ('' @ en_name e @ ''): '' @ why)"

definition receipt_notice :: "('i, 'o) link \<Rightarrow> string option \<Rightarrow> item_body" where
  "receipt_notice l tool =
     BNotice LvInfo ''INTERCEPTOR_RECEIPT''
       (lk_id l @ '' answered or rewrote '' @ unwrap_or tool ''tool.call'')"

type_synonym 'o chained = "(kernel_error + 'o) \<times> item_body list"

text \<open>\<open>Hop::accepted\<close>: whether the answer stands, and what is reported of it.\<close>

definition hop_accepted ::
  "('i, 'o) point \<Rightarrow> ('i, 'o) link \<Rightarrow> 'i \<Rightarrow> kernel_error + 'o \<Rightarrow> (kernel_error + 'o) option \<Rightarrow> bool \<Rightarrow>
   bool \<times> item_body list" where
  "hop_accepted p l x answer baseline rewritten =
     (let e = pt_entry p;
          before = (case baseline of Some (Inr b) \<Rightarrow> Some b | _ \<Rightarrow> None)
      in case answer of
           Inr out \<Rightarrow>
             if \<not> pt_accepts p (lk_tier l) before out
             then (False, [skipped_notice l e ''answer exceeds its trust tier''])
             else (True,
               if \<not> rewritten \<and> entry_is e TOOL_CALL
                  \<and> \<not> (case before of Some b \<Rightarrow> pt_same_output p b out | None \<Rightarrow> False)
               then [receipt_notice l (pt_tool p x)] else [])
         | Inl err \<Rightarrow>
             if baseline = Some (Inl err) then (True, [])
             else if ke_code err = ErrPermissionDenied \<and> at_deny (en_acts e) \<and> baseline = None then (True, [])
             else (False, [skipped_notice l e (ke_message err)]))"

text \<open>\<open>invoke\<close>: one link, with the rest of the chain as \<open>rest\<close>, which is run at most once.\<close>

definition hop ::
  "('i, 'o) point \<Rightarrow> ('i, 'o) link \<Rightarrow> ('i \<Rightarrow> 'o chained) \<Rightarrow> 'i \<Rightarrow> 'o chained" where
  "hop p l rest x =
     (let e = pt_entry p;
          (answer, called, invalid, rewritten, ns1) =
            (case lk_does l x of
               LinkAnswers r \<Rightarrow> (r, None, False, False, [])
             | LinkContinues y f \<Rightarrow>
                 (let changed = (\<not> pt_same_input p y x);
                      invalid = (\<not> pt_pinned p x y \<or> (changed \<and> \<not> admits (lk_tier l) e ActRewrite));
                      (r, ns) = rest (if invalid then x else y)
                  in (f r, Some r, invalid, changed \<and> \<not> invalid,
                      (if invalid then [skipped_notice l e ''input rewrite exceeds its authority''] else []) @ ns)));
          (baseline, ns2) =
            (case called of
               Some r \<Rightarrow> (Some r, [])
             | None \<Rightarrow>
                 if (case answer of Inr out \<Rightarrow> pt_needs_baseline p (lk_tier l) out | Inl _ \<Rightarrow> False)
                 then (case rest x of (r, ns) \<Rightarrow> (Some r, ns)) else (None, []));
          ns3 = (if rewritten \<and> entry_is e TOOL_CALL then [receipt_notice l (pt_tool p x)] else []);
          (stands, ns4) = (if invalid then (False, []) else hop_accepted p l x answer baseline rewritten)
      in if stands then (answer, ns1 @ ns2 @ ns3 @ ns4)
         else (case baseline of
             Some r \<Rightarrow> (r, ns1 @ ns2 @ ns3 @ ns4)
           | None \<Rightarrow> (case rest x of (r, ns) \<Rightarrow> (r, ns1 @ ns2 @ ns3 @ ns4 @ ns))))"

fun run_at :: "('i, 'o) point \<Rightarrow> ('i, 'o) link list \<Rightarrow> ('i \<Rightarrow> kernel_error + 'o) \<Rightarrow> 'i \<Rightarrow> 'o chained" where
  "run_at p [] kern x = (kern x, [])"
| "run_at p (l # ls) kern x =
     (if \<not> lk_matches l (pt_entry p) x then run_at p ls kern x
      else hop p l (run_at p ls kern) x)"

section \<open>The two points of a tool call\<close>

record check_result =
  cr_call :: tool_call
  cr_decision :: decision

definition call_eq :: "tool_call \<Rightarrow> tool_call \<Rightarrow> bool" where
  "call_eq c d \<longleftrightarrow> tc_call_id c = tc_call_id d \<and> tc_name c = tc_name d \<and> json_eq (tc_input c) (tc_input d)"

definition call_pinned :: "tool_call \<Rightarrow> tool_call \<Rightarrow> bool" where
  "call_pinned before after \<longleftrightarrow> tc_name before = tc_name after \<and> tc_call_id before = tc_call_id after"

definition denies :: "decision \<Rightarrow> bool" where
  "denies d = (case d of Deny _ \<Rightarrow> True | _ \<Rightarrow> False)"

definition check_accepts :: "tier \<Rightarrow> check_result option \<Rightarrow> check_result \<Rightarrow> bool" where
  "check_accepts t before after \<longleftrightarrow>
     t = TierFull \<or> (before = None \<and> denies (cr_decision after)) \<or>
     (case before of
        Some b \<Rightarrow> call_eq (cr_call b) (cr_call after) \<and> decision_tightens (cr_decision b) (cr_decision after)
      | None \<Rightarrow> False)"

definition check_point :: "(tool_call, check_result) point" where
  "check_point =
     \<lparr>pt_entry = TOOL_CHECK, pt_same_input = call_eq,
      pt_same_output = (\<lambda>r s. call_eq (cr_call r) (cr_call s) \<and> cr_decision r = cr_decision s),
      pt_pinned = call_pinned, pt_accepts = check_accepts,
      pt_needs_baseline = (\<lambda>t out. t \<noteq> TierFull \<and> \<not> denies (cr_decision out)),
      pt_tool = (\<lambda>c. Some (tc_name c))\<rparr>"

text \<open>The default of \<open>Point::accepts\<close>, at the run of a tool.\<close>

definition accepts_by_tier :: "entry \<Rightarrow> ('o \<Rightarrow> 'o \<Rightarrow> bool) \<Rightarrow> tier \<Rightarrow> 'o option \<Rightarrow> 'o \<Rightarrow> bool" where
  "accepts_by_tier e same t before after =
     (case before of
        Some b \<Rightarrow> same b after \<or> admits t e ActRewrite
      | None \<Rightarrow> admits t e ActAnswer)"

definition call_point :: "(tool_call, tool_output) point" where
  "call_point =
     \<lparr>pt_entry = TOOL_CALL, pt_same_input = call_eq, pt_same_output = (=), pt_pinned = call_pinned,
      pt_accepts = accepts_by_tier TOOL_CALL (=), pt_needs_baseline = (\<lambda>_ _. False),
      pt_tool = (\<lambda>c. Some (tc_name c))\<rparr>"

section \<open>Links below a tier\<close>

text \<open>
  What a point promises of links whose tier is \<open>weak\<close>: the inputs they may hand on are
  related to theirs by \<open>keeps\<close>, the answers they may give are \<open>le\<close> the answer that
  came back, and without one only an answer that is \<open>worst\<close> stands.
\<close>

locale held_links =
  fixes p :: "('i, 'o) point"
    and weak :: "tier \<Rightarrow> bool"
    and keeps :: "'i \<Rightarrow> 'i \<Rightarrow> bool"
    and le :: "'o \<Rightarrow> 'o \<Rightarrow> bool"
    and worst :: "'o \<Rightarrow> bool"
  assumes keeps_refl: "keeps x x"
    and keeps_trans: "keeps x y \<Longrightarrow> keeps y z \<Longrightarrow> keeps x z"
    and le_refl: "le r r"
    and le_trans: "le r s \<Longrightarrow> le s u \<Longrightarrow> le r u"
    and worst_le: "worst r \<Longrightarrow> le r s \<Longrightarrow> worst s"
    and rewrite_keeps: "weak t \<Longrightarrow> pt_pinned p x y \<Longrightarrow>
      pt_same_input p y x \<or> admits t (pt_entry p) ActRewrite \<Longrightarrow> keeps x y"
    and accepts_le: "weak t \<Longrightarrow> pt_accepts p t (Some b) out \<Longrightarrow> le b out"
    and accepts_alone: "weak t \<Longrightarrow> pt_accepts p t None out \<Longrightarrow> worst out"
begin

definition from_kernel :: "('i \<Rightarrow> kernel_error + 'o) \<Rightarrow> 'i \<Rightarrow> 'o \<Rightarrow> bool" where
  "from_kernel k x out \<longleftrightarrow> worst out \<or> (\<exists>y b. keeps x y \<and> k y = Inr b \<and> le b out)"

lemma from_kernel_le: "from_kernel k x b \<Longrightarrow> le b out \<Longrightarrow> from_kernel k x out"
  unfolding from_kernel_def using worst_le le_trans by blast

lemma from_kernel_keeps: "keeps x y \<Longrightarrow> from_kernel k y out \<Longrightarrow> from_kernel k x out"
  unfolding from_kernel_def using keeps_trans by blast

lemma accepted_from:
  assumes "weak (lk_tier l)" "fst (hop_accepted p l x (Inr out) baseline rewritten)"
    and "\<And>b. baseline = Some (Inr b) \<Longrightarrow> from_kernel k x b"
  shows "from_kernel k x out"
proof (cases "case baseline of Some (Inr b) \<Rightarrow> Some b | _ \<Rightarrow> None")
  case None
  then have "worst out"
    using assms(1,2) accepts_alone by (auto simp: hop_accepted_def Let_def split: if_splits)
  then show ?thesis
    by (simp add: from_kernel_def)
next
  case (Some b)
  then have "baseline = Some (Inr b)"
    by (auto split: option.splits sum.splits)
  moreover have "le b out"
    using assms(1,2) Some accepts_le by (auto simp: hop_accepted_def Let_def split: if_splits)
  ultimately show ?thesis
    using assms(3) from_kernel_le by blast
qed

lemma hop_from:
  assumes "weak (lk_tier l)" "\<And>y b. fst (rest y) = Inr b \<Longrightarrow> from_kernel k y b"
    and "fst (hop p l rest x) = Inr out"
  shows "from_kernel k x out"
proof (cases "lk_does l x")
  case (LinkAnswers r)
  define needs where "needs = (case r of Inr o' \<Rightarrow> pt_needs_baseline p (lk_tier l) o' | Inl _ \<Rightarrow> False)"
  define baseline where "baseline = (if needs then Some (fst (rest x)) else None)"
  have base: "\<And>b. baseline = Some (Inr b) \<Longrightarrow> from_kernel k x b"
    using assms(2) by (simp add: baseline_def split: if_splits)
  have "fst (hop p l rest x) = (if fst (hop_accepted p l x r baseline False) then r
      else case baseline of Some b \<Rightarrow> b | None \<Rightarrow> fst (rest x))"
    using LinkAnswers by (simp add: hop_def Let_def needs_def baseline_def split_beta split: option.splits prod.splits)
  then show ?thesis
    using assms base accepted_from[OF assms(1), of x out baseline False k]
    by (auto split: if_splits option.splits)
next
  case (LinkContinues y f)
  define changed where "changed = (\<not> pt_same_input p y x)"
  define invalid where "invalid = (\<not> pt_pinned p x y \<or> (changed \<and> \<not> admits (lk_tier l) (pt_entry p) ActRewrite))"
  define r where "r = fst (rest (if invalid then x else y))"
  have base: "from_kernel k x b" if "r = Inr b" for b
  proof (cases invalid)
    case False
    then have "keeps x y"
      using rewrite_keeps[OF assms(1)] by (auto simp: invalid_def changed_def)
    then show ?thesis
      using False that assms(2) from_kernel_keeps by (simp add: r_def)
  qed (use that assms(2) in \<open>simp add: r_def\<close>)
  have "fst (hop p l rest x) = (if \<not> invalid \<and> fst (hop_accepted p l x (f r) (Some r) (changed \<and> \<not> invalid)) then f r else r)"
    unfolding changed_def invalid_def r_def using LinkContinues by (simp add: hop_def Let_def split_beta)
  then show ?thesis
    using assms(3) base accepted_from[OF assms(1), of x out "Some r" "changed \<and> \<not> invalid" k]
    by (auto split: if_splits)
qed

lemma run_from:
  "\<forall>l \<in> set ls. weak (lk_tier l) \<Longrightarrow> fst (run_at p ls k x) = Inr out \<Longrightarrow> from_kernel k x out"
proof (induction ls arbitrary: x out)
  case Nil
  then show ?case
    using keeps_refl le_refl by (auto simp: from_kernel_def)
next
  case (Cons l ls)
  then show ?case
    using hop_from[of l "run_at p ls k" k x out] by (auto split: if_splits)
qed

end

text \<open>JSON values are equal up to the order of fields; the equality is transitive.\<close>

lemma json_eq_trans: "json_eq a b \<Longrightarrow> json_eq b c \<Longrightarrow> json_eq a c"
proof (induction a b arbitrary: c rule: json_eq.induct)
  case (1 xs ys)
  then obtain zs where c: "c = JArray zs"
    by (cases c) auto
  have "json_eq (xs ! i) (zs ! i)" if i: "i < length xs" for i
  proof -
    have "(xs ! i, ys ! i) \<in> set (zip xs ys)" "json_eq (xs ! i) (ys ! i)" "json_eq (ys ! i) (zs ! i)"
      using 1(2,3) i unfolding c by (auto simp: list_all_length set_zip)
    then show ?thesis
      using 1(1) by blast
  qed
  then show ?case
    using 1 unfolding c by (simp add: list_all_length)
next
  case (2 fs gs)
  then obtain hs where c: "c = JObject hs"
    by (cases c) auto
  have "\<exists>v''. map_of hs k = Some v'' \<and> json_eq v v''" if kv: "(k, v) \<in> set fs" for k v
  proof -
    obtain v' where v': "map_of gs k = Some v'" "json_eq v v'"
      using 2(2) kv by (auto simp: list_all_iff split: option.splits)
    then obtain v'' where "map_of hs k = Some v''" "json_eq v' v''"
      using 2(3) map_of_SomeD[OF v'(1)] unfolding c by (auto simp: list_all_iff split: option.splits)
    then show ?thesis
      using 2(1)[OF kv refl v'(1) v'(2)] by blast
  qed
  then show ?case
    using 2(2,3) unfolding c by (fastforce simp: list_all_iff split: option.splits)
qed auto

definition same_call :: "tool_call \<Rightarrow> tool_call \<Rightarrow> bool" where
  "same_call c d \<longleftrightarrow> c = d \<or> call_eq c d"

lemma call_eq_trans: "call_eq c d \<Longrightarrow> call_eq d e \<Longrightarrow> call_eq c e"
  using json_eq_trans by (auto simp: call_eq_def)

lemma same_call_trans: "same_call c d \<Longrightarrow> same_call d e \<Longrightarrow> same_call c e"
  using call_eq_trans by (auto simp: same_call_def)

interpretation checks: held_links check_point "\<lambda>t. t < TierFull" call_pinned
  "\<lambda>r s. same_call (cr_call r) (cr_call s) \<and> decision_tightens (cr_decision r) (cr_decision s)"
  "\<lambda>r. denies (cr_decision r)"
proof (unfold_locales, goal_cases)
  case (4 r s u)
  then show ?case
    using same_call_trans by (auto simp: decision_tightens_def)
next
  case (5 r s)
  then show ?case
    by (auto simp: denies_def decision_tightens_def decision_rank_def split: decision.splits)
qed (auto simp: call_pinned_def same_call_def check_point_def check_accepts_def tier_below_full
      decision_tightens_def)

interpretation calls: held_links call_point "\<lambda>t. t = TierTighten" "\<lambda>x y. same_call y x" "(=)" "\<lambda>_. False"
  by unfold_locales
    (auto simp: same_call_def call_point_def accepts_by_tier_def admits_def TOOL_CALL_def PROMPT_SUBMIT_def
      TOOL_CHECK_def PLUGIN_REGISTER_def entry_is_def WRAP_def PASS_def dest: call_eq_trans)

section \<open>What untrusted plugins can do\<close>

text \<open>
  C7: plugins below full trust can only tighten a permission check.  However many of
  them stand around it, in whatever order, and whatever each does with the call it is
  handed: the answer that comes out is a denial, or it is at most as permissive as the
  answer the kernel itself gave, about the very call that comes out, to a call with the
  name and the id of the one that went in.
\<close>

theorem untrusted_links_only_tighten:
  assumes "\<forall>l \<in> set ls. lk_tier l < TierFull"
    and "fst (run_at check_point ls kern call) = Inr r"
  shows "denies (cr_decision r) \<or>
    (\<exists>asked b. kern asked = Inr b \<and> tc_name asked = tc_name call \<and> tc_call_id asked = tc_call_id call
       \<and> same_call (cr_call b) (cr_call r) \<and> decision_rank (cr_decision b) \<le> decision_rank (cr_decision r))"
proof (cases "denies (cr_decision r)")
  case False
  then obtain y b where "call_pinned call y" "kern y = Inr b" "same_call (cr_call b) (cr_call r)"
      "decision_tightens (cr_decision b) (cr_decision r)"
    using checks.run_from[OF assms] by (auto simp: checks.from_kernel_def)
  then show ?thesis
    unfolding call_pinned_def decision_tightens_def by (intro disjI2 exI[of _ y] exI[of _ b]) simp
qed simp

text \<open>
  A plugin that may only tighten cannot touch the run of a tool: whatever comes
  back from a call is the tool's own output on the call that was checked, up to the
  order of fields in its input.
\<close>

lemma tighten_links_leave_the_run:
  assumes "\<forall>l \<in> set ls. lk_tier l = TierTighten"
    and "fst (run_at call_point ls run call) = Inr output"
  shows "\<exists>c. same_call c call \<and> run c = Inr output"
  using calls.run_from[OF assms] by (auto simp: calls.from_kernel_def)

subsection \<open>Witnesses\<close>

text \<open>A link that lets everything pass, at a tier.\<close>

definition permissive_link :: "tier \<Rightarrow> (tool_call, check_result) link" where
  "permissive_link t =
     \<lparr>lk_id = ''yes'', lk_external = None, lk_placement = PlaceOuter, lk_tier = t, lk_matches = (\<lambda>_ _. True),
      lk_does = (\<lambda>c. LinkContinues c (\<lambda>_. Inr \<lparr>cr_call = c, cr_decision = Allow ReDefault\<rparr>))\<rparr>"

definition asking_kernel :: "tool_call \<Rightarrow> kernel_error + check_result" where
  "asking_kernel c = Inr \<lparr>cr_call = c, cr_decision = Ask ReDefault None\<rparr>"

definition sample_call :: tool_call where
  "sample_call = \<lparr>tc_call_id = ''c'', tc_name = ''Bash'', tc_input = JObject [(''command'', JString ''ls'')]\<rparr>"

theorem untrusted_links_only_tighten_witness:
  "denies (Ask ReDefault None) \<or>
    (\<exists>asked b. asking_kernel asked = Inr b \<and> tc_name asked = tc_name sample_call \<and> tc_call_id asked = tc_call_id sample_call
       \<and> same_call (cr_call b) sample_call \<and> decision_rank (cr_decision b) \<le> decision_rank (Ask ReDefault None))"
proof -
  have "fst (run_at check_point [permissive_link TierRewrite, permissive_link TierTighten] asking_kernel sample_call)
      = Inr \<lparr>cr_call = sample_call, cr_decision = Ask ReDefault None\<rparr>"
    by code_simp
  moreover have "\<forall>l \<in> set [permissive_link TierRewrite, permissive_link TierTighten]. lk_tier l < TierFull"
    by code_simp
  ultimately show ?thesis
    using untrusted_links_only_tighten
      [of "[permissive_link TierRewrite, permissive_link TierTighten]" asking_kernel sample_call]
    by simp
qed

end
