(* ===== verification/Perm_Path.thy ===== *)
theory Perm_Path
  imports Sdk_Event
begin

text \<open>
  The texts a permission rule is read against: lexical path normalisation
  (\<open>bingo-permissions/src/path.rs\<close>), the host of a URL (\<open>url.rs\<close>) and the
  commands inside a shell line (\<open>split.rs\<close>).

  The grammar itself (\<open>tree_sitter\<close>) is not part of the sources: the parser
  is a parameter that gives a syntax tree with byte ranges and says whether the
  tree has an error.
\<close>

section \<open>Paths\<close>

definition SENSITIVE :: "string list" where
  "SENSITIVE = [''.git'', ''.claude'', ''.vscode'', ''.idea'']"

definition expand_home :: "string \<Rightarrow> string option \<Rightarrow> string" where
  "expand_home raw home =
     (case home of
        None \<Rightarrow> raw
      | Some h \<Rightarrow>
          if raw = ''~'' then h
          else (case strip_prefix raw ''~/'' of Some rest \<Rightarrow> path_push h rest | None \<Rightarrow> raw))"

definition absolutize :: "string \<Rightarrow> string \<Rightarrow> string" where
  "absolutize raw cwd = (if is_absolute raw then raw else path_push cwd raw)"

definition collapse_step :: "string \<Rightarrow> component \<Rightarrow> string" where
  "collapse_step out c =
     (case c of CurDir \<Rightarrow> out | ParentDir \<Rightarrow> path_pop out | _ \<Rightarrow> path_push out (as_os_str c))"

definition collapse :: "string \<Rightarrow> string" where
  "collapse p = foldl collapse_step [] (components p)"

definition keep_trailing_separator :: "string \<Rightarrow> string \<Rightarrow> string" where
  "keep_trailing_separator normalized raw =
     (if ends_with raw [slash] \<and> \<not> ends_with normalized [slash]
      then normalized @ [slash] else normalized)"

definition path_normalize :: "string \<Rightarrow> string \<Rightarrow> string option \<Rightarrow> string" where
  "path_normalize raw cwd home =
     keep_trailing_separator (collapse (absolutize (expand_home raw home) cwd)) raw"

definition is_within :: "string \<Rightarrow> string \<Rightarrow> bool" where
  "is_within target root =
     (let r = trim_end_matches slash root in
      if r = [] then starts_with target [slash]
      else target = r
        \<or> (case strip_prefix target r of Some rest \<Rightarrow> starts_with rest [slash] | None \<Rightarrow> False))"

definition is_sensitive :: "string \<Rightarrow> bool" where
  "is_sensitive normalized \<longleftrightarrow>
     list_ex (\<lambda>c. case c of Normal name \<Rightarrow> name \<in> set SENSITIVE | _ \<Rightarrow> False) (components normalized)"

section \<open>Hosts\<close>

definition strip_port :: "string \<Rightarrow> string option" where
  "strip_port host =
     (case split_once '':'' host of
        Some (h, port) \<Rightarrow> if port \<noteq> [] \<and> list_all is_ascii_digit port then Some h else None
      | None \<Rightarrow> Some host)"

definition is_hostname :: "string \<Rightarrow> bool" where
  "is_hostname host \<longleftrightarrow>
     host \<noteq> [] \<and> \<not> starts_with host ''.'' \<and> \<not> ends_with host ''.''
     \<and> list_all (\<lambda>c. is_ascii_alphanumeric c \<or> c = CHR ''.'' \<or> c = CHR ''-'' \<or> c = CHR ''_'') host"

definition url_host :: "string \<Rightarrow> string option" where
  "url_host url =
     Option.bind (split_once ''://'' url) (\<lambda>(_, rest).
       let authority =
             hd (split_chars (\<lambda>c. c = CHR ''/'' \<or> c = CHR ''?'' \<or> c = CHR 0x23 \<or> c = CHR 0x5C) rest);
           host = (case rsplit_once_char (CHR ''@'') authority of Some (_, h) \<Rightarrow> h | None \<Rightarrow> authority)
       in Option.bind (strip_port host) (\<lambda>h. if is_hostname h then Some h else None))"

section \<open>The commands inside a shell line\<close>

text \<open>
  A syntax node: its kind, its byte range, the index of the child in the field
  \<open>body\<close> (if any) and its children.
\<close>

datatype node = Node (nd_kind: string) (nd_start: nat) (nd_end: nat) (nd_body: "nat option")
  (nd_children: "node list")

type_synonym parser = "string \<Rightarrow> (node \<times> bool) option"

record split =
  sl_parts :: "string list"
  sl_parsed :: bool

definition COMMAND_KINDS :: "string list" where
  "COMMAND_KINDS = [''command'', ''declaration_command'', ''unset_command'', ''test_command'']"

text \<open>A node in the queue, with its parent and its place among the siblings.\<close>

type_synonym placed = "(node \<times> nat) option \<times> node"

definition span :: "placed \<Rightarrow> node" where
  "span pn =
     (case pn of
        (None, n) \<Rightarrow> n
      | (Some (parent, at), n) \<Rightarrow>
          if nd_kind parent = ''redirected_statement'' \<and> nd_body parent = Some at then parent else n)"

definition push_text :: "node \<Rightarrow> string \<Rightarrow> string list \<Rightarrow> string list" where
  "push_text n source out =
     (if nd_start n \<le> nd_end n \<and> nd_end n \<le> length source
      then (let text = trim (take (nd_end n - nd_start n) (drop (nd_start n) source))
            in if text = [] then out else out @ [text])
      else out)"

definition placed_children :: "node \<Rightarrow> placed list" where
  "placed_children n = map (\<lambda>(at, c). (Some (n, at), c)) (List.enumerate 0 (nd_children n))"

lemma size_nd_children:
  "sum_list (map (\<lambda>pn. Suc (size (snd pn))) (placed_children n)) \<le> size n"
proof (cases n)
  case (Node k a b bd cs)
  have "map (\<lambda>x. f (snd x)) (List.enumerate m xs) = map f xs" for f :: "node \<Rightarrow> nat" and m xs
    by (induction xs arbitrary: m) simp_all
  then have "map (\<lambda>pn. Suc (size (snd pn))) (placed_children n) = map (\<lambda>c. Suc (size c)) cs"
    by (simp add: Node placed_children_def comp_def case_prod_beta)
  moreover have "sum_list (map (\<lambda>c. Suc (size c)) cs) \<le> size_list size cs"
    by (induction cs) auto
  ultimately show ?thesis
    by (simp add: Node)
qed

text \<open>Breadth first and iterative, like the source; it ends because the queue shrinks.\<close>

function collect_loop :: "placed list \<Rightarrow> string \<Rightarrow> string list \<Rightarrow> string list" where
  "collect_loop [] source out = out"
| "collect_loop (pn # queue) source out =
     collect_loop (queue @ placed_children (snd pn)) source
       (if nd_kind (snd pn) \<in> set COMMAND_KINDS then push_text (span pn) source out else out)"
  by pat_completeness auto
termination
proof (relation "measure (\<lambda>(q, _, _). sum_list (map (\<lambda>pn. Suc (size (snd pn))) q))")
  fix pn :: placed and queue source out
  show "((queue @ placed_children (snd pn), source,
      if nd_kind (snd pn) \<in> set COMMAND_KINDS then push_text (span pn) source out else out),
     pn # queue, source, out) \<in> measure (\<lambda>(q, _, _). sum_list (map (\<lambda>pn. Suc (size (snd pn))) q))"
    using size_nd_children[of "snd pn"] by simp
qed simp

definition collect :: "node \<Rightarrow> string \<Rightarrow> string list" where
  "collect root source = collect_loop [(None, root)] source []"

definition split_command :: "parser \<Rightarrow> string \<Rightarrow> split" where
  "split_command parse command =
     (case parse command of
        None \<Rightarrow> \<lparr>sl_parts = [], sl_parsed = False\<rparr>
      | Some (root, has_error) \<Rightarrow>
          \<lparr>sl_parts = collect root command, sl_parsed = (\<not> has_error)\<rparr>)"

definition is_simple :: "split \<Rightarrow> bool" where
  "is_simple s \<longleftrightarrow> sl_parsed s \<and> length (sl_parts s) = 1"

definition split_head :: "split \<Rightarrow> string option" where
  "split_head s =
     (case sl_parts s of
        [one] \<Rightarrow>
          if sl_parsed s
          then (case split_whitespace one of [] \<Rightarrow> None | w # _ \<Rightarrow> Some w) else None
      | _ \<Rightarrow> None)"

section \<open>Normalisation\<close>

text \<open>A path component as the operating system names one.\<close>

definition good_word :: "string \<Rightarrow> bool" where
  "good_word w \<longleftrightarrow> w \<noteq> [] \<and> slash \<notin> set w \<and> w \<noteq> ''.'' \<and> w \<noteq> ''..''"

definition canon :: "string list \<Rightarrow> string" where
  "canon ws = slash # join_with [slash] ws"

lemma join_with_snoc: "ws \<noteq> [] \<Longrightarrow> join_with sep (ws @ [w]) = join_with sep ws @ sep @ w"
  by (induction sep ws rule: join_with.induct) auto

lemma split_chars_none: "\<forall>c \<in> set w. \<not> P c \<Longrightarrow> split_chars P w = [w]"
  by (induction w) auto

lemma split_chars_append_sep:
  "\<forall>c \<in> set w. \<not> P c \<Longrightarrow> P d \<Longrightarrow> split_chars P (w @ d # rest) = w # split_chars P rest"
  by (induction w) auto

lemma split_join:
  "ws \<noteq> [] \<Longrightarrow> \<forall>w \<in> set ws. slash \<notin> set w \<Longrightarrow>
     split_chars (\<lambda>c. c = slash) (join_with [slash] ws) = ws"
proof (induction "[slash]" ws rule: join_with.induct)
  case (3 x y ys)
  then have "\<forall>c \<in> set x. c \<noteq> slash" by auto
  then show ?case
    using 3 split_chars_append_sep[of x "\<lambda>c. c = slash" slash "join_with [slash] (y # ys)"] by simp
qed (auto intro: split_chars_none)

lemma is_absolute_canon [simp]: "is_absolute (canon ws)"
  by (simp add: is_absolute_def canon_def starts_with_def)

lemma component_good: "good_word w \<Longrightarrow> component_of w = Normal w"
  by (simp add: good_word_def component_of_def)

lemma components_canon_tail:
  assumes "\<forall>w \<in> set ws. good_word w" "tail = [] \<or> (tail = [slash] \<and> ws \<noteq> [])"
  shows "components (canon ws @ tail) = RootDir # map Normal ws"
proof -
  have "filter (\<lambda>w. w \<noteq> [] \<and> w \<noteq> ''.'') (split_chars (\<lambda>c. c = slash) (canon ws @ tail)) = ws"
  proof (cases "ws = []")
    case True
    then show ?thesis using assms(2) by (simp add: canon_def)
  next
    case False
    have noslash: "\<forall>w \<in> set ws. slash \<notin> set w"
      using assms(1) by (simp add: good_word_def)
    have "join_with [slash] (ws @ [[]]) = join_with [slash] ws @ [slash]"
      using False by (simp add: join_with_snoc)
    moreover have "split_chars (\<lambda>c. c = slash) (join_with [slash] (ws @ [[]])) = ws @ [[]]"
      by (rule split_join) (use noslash in auto)
    ultimately have "split_chars (\<lambda>c. c = slash) (canon ws @ tail) = [] # ws @ (if tail = [] then [] else [[]])"
      using assms(2) False split_join[OF False noslash] by (auto simp: canon_def)
    moreover have "filter (\<lambda>w. w \<noteq> [] \<and> w \<noteq> ''.'') ws = ws"
      using assms(1) by (auto simp: good_word_def intro!: filter_True)
    ultimately show ?thesis by simp
  qed
  moreover have "map component_of ws = map Normal ws"
    using assms(1) by (auto simp: component_good)
  moreover have "is_absolute (canon ws @ tail)"
    by (simp add: is_absolute_def canon_def starts_with_def)
  ultimately show ?thesis
    by (simp add: components_def Let_def)
qed

lemma components_canon: "\<forall>w \<in> set ws. good_word w \<Longrightarrow> components (canon ws) = RootDir # map Normal ws"
  using components_canon_tail[of ws "[]"] by simp

lemma last_canon: "\<forall>w \<in> set ws. good_word w \<Longrightarrow> last (canon ws) = slash \<longleftrightarrow> ws = []"
proof (cases ws rule: rev_cases)
  case (snoc vs w)
  assume "\<forall>w \<in> set ws. good_word w"
  then have "w \<noteq> []" "slash \<notin> set w" by (auto simp: snoc good_word_def)
  then have "last w \<noteq> slash" by (metis last_in_set)
  then show ?thesis
    using snoc \<open>w \<noteq> []\<close> by (cases "vs = []") (auto simp: canon_def join_with_snoc)
qed (simp add: canon_def)

lemma push_canon:
  assumes "\<forall>w \<in> set ws. good_word w" "good_word w"
  shows "path_push (canon ws) w = canon (ws @ [w])"
proof -
  have "\<not> is_absolute w"
    using assms(2) by (cases w) (auto simp: is_absolute_def starts_with_def good_word_def)
  then show ?thesis
    using last_canon[OF assms(1)] by (cases "ws = []") (auto simp: path_push_def canon_def join_with_snoc)
qed

lemma path_of_canon:
  "\<forall>w \<in> set ws. good_word w \<Longrightarrow> path_of (RootDir # map Normal ws) = canon ws"
proof (induction ws rule: rev_induct)
  case (snoc w ws)
  then show ?case
    using push_canon[of ws w] by (simp add: path_of_def as_os_str_def)
qed (simp add: path_of_def as_os_str_def path_push_def is_absolute_def starts_with_def canon_def)

lemma pop_canon: "\<forall>w \<in> set ws. good_word w \<Longrightarrow> path_pop (canon ws) = canon (butlast ws)"
proof (cases ws rule: rev_cases)
  case Nil
  then show ?thesis by (simp add: path_pop_def path_parent_def components_canon)
next
  case (snoc vs w)
  assume good: "\<forall>w \<in> set ws. good_word w"
  then have "butlast (components (canon ws)) = RootDir # map Normal vs" "last (components (canon ws)) \<noteq> RootDir"
    using snoc by (simp_all add: components_canon)
  then show ?thesis
    using good snoc path_of_canon[of vs] by (simp add: path_pop_def path_parent_def Let_def components_canon)
qed

text \<open>What collapsing does to the list of components.\<close>

fun words_step :: "string list \<Rightarrow> component \<Rightarrow> string list" where
  "words_step ws (Normal w) = ws @ [w]"
| "words_step ws ParentDir = butlast ws"
| "words_step ws CurDir = ws"
| "words_step ws RootDir = []"

lemma split_chars_words: "\<forall>w \<in> set (split_chars P s). \<forall>c \<in> set w. \<not> P c"
  by (induction s) (auto split: list.splits)

definition body_component :: "component \<Rightarrow> bool" where
  "body_component c = (case c of Normal w \<Rightarrow> good_word w | ParentDir \<Rightarrow> True | _ \<Rightarrow> False)"

lemma components_absolute:
  assumes "is_absolute p"
  shows "\<exists>body. components p = RootDir # body \<and> list_all body_component body"
proof -
  let ?ws = "filter (\<lambda>w. w \<noteq> [] \<and> w \<noteq> ''.'') (split_chars (\<lambda>c. c = slash) p)"
  have "body_component (component_of w)" if "w \<in> set ?ws" for w
    using that split_chars_words[of "\<lambda>c. c = slash" p]
    by (auto simp: body_component_def component_of_def good_word_def)
  then have "list_all body_component (map component_of ?ws)"
    by (simp add: list_all_iff del: set_filter)
  then show ?thesis
    using assms by (auto simp: components_def Let_def)
qed

lemma collapse_body:
  assumes "list_all body_component body" "\<forall>w \<in> set ws. good_word w"
  shows "foldl collapse_step (canon ws) body = canon (foldl words_step ws body)
    \<and> (\<forall>w \<in> set (foldl words_step ws body). good_word w)"
  using assms
proof (induction body arbitrary: ws)
  case (Cons c body)
  have "collapse_step (canon ws) c = canon (words_step ws c) \<and> (\<forall>w \<in> set (words_step ws c). good_word w)"
    using Cons.prems push_canon[of ws] pop_canon[of ws]
    by (cases c) (auto simp: collapse_step_def body_component_def as_os_str_def dest: in_set_butlastD)
  then show ?case
    using Cons.IH[of "words_step ws c"] Cons.prems by auto
qed simp

lemma collapse_absolute:
  assumes "is_absolute p"
  shows "\<exists>ws. collapse p = canon ws \<and> (\<forall>w \<in> set ws. good_word w)"
proof -
  obtain body where "components p = RootDir # body" "list_all body_component body"
    using components_absolute[OF assms] by auto
  moreover have "collapse_step [] RootDir = canon []"
    by (simp add: collapse_step_def as_os_str_def path_push_def is_absolute_def starts_with_def canon_def)
  ultimately show ?thesis
    using collapse_body[of body "[]"] by (auto simp: collapse_def)
qed

lemma collapse_canon_tail:
  assumes "\<forall>w \<in> set ws. good_word w" "tail = [] \<or> (tail = [slash] \<and> ws \<noteq> [])"
  shows "collapse (canon ws @ tail) = canon ws"
proof -
  have "collapse_step [] RootDir = canon []"
    by (simp add: collapse_step_def as_os_str_def path_push_def is_absolute_def starts_with_def canon_def)
  moreover have "foldl words_step vs (map Normal ws) = vs @ ws" for vs
    by (induction ws arbitrary: vs) simp_all
  moreover have "list_all body_component (map Normal ws)"
    using assms(1) by (simp add: list_all_iff body_component_def)
  ultimately show ?thesis
    using collapse_body[of "map Normal ws" "[]"]
    by (simp add: collapse_def components_canon_tail[OF assms])
qed

lemma absolutize_absolute: "is_absolute cwd \<Longrightarrow> is_absolute (absolutize raw cwd)"
  by (auto simp: absolutize_def is_absolute_def path_push_def starts_with_iff)

text \<open>Every normalised path is canonical, up to a separator at the end.\<close>

lemma normalize_canon:
  assumes "is_absolute cwd"
  shows "\<exists>ws tail. path_normalize raw cwd home = canon ws @ tail \<and> (\<forall>w \<in> set ws. good_word w)
    \<and> (tail = [] \<or> (tail = [slash] \<and> ws \<noteq> []))"
proof -
  obtain ws where ws: "collapse (absolutize (expand_home raw home) cwd) = canon ws" "\<forall>w \<in> set ws. good_word w"
    using collapse_absolute[OF absolutize_absolute[OF assms]] by blast
  have ends: "ws \<noteq> []" if "\<not> ends_with (canon ws) [slash]"
    using that by (auto simp: canon_def ends_with_def)
  let ?tail = "if ends_with raw [slash] \<and> \<not> ends_with (canon ws) [slash] then [slash] else []"
  have "path_normalize raw cwd home = canon ws @ ?tail"
    by (simp add: path_normalize_def keep_trailing_separator_def ws(1))
  moreover have "?tail = [] \<or> (?tail = [slash] \<and> ws \<noteq> [])"
    using ends by simp
  ultimately show ?thesis
    using ws(2) by blast
qed

lemma ends_with_single: "s \<noteq> [] \<Longrightarrow> ends_with s [c] \<longleftrightarrow> last s = c"
  by (cases s rule: rev_cases) (auto simp: ends_with_iff)

lemma expand_home_absolute: "expand_home (slash # p) home = slash # p"
  by (auto simp: expand_home_def strip_prefix_def starts_with_def split: option.splits)

lemma normalize_fixpoint:
  assumes "\<forall>w \<in> set ws. good_word w" "tail = [] \<or> (tail = [slash] \<and> ws \<noteq> [])"
  shows "path_normalize (canon ws @ tail) cwd home = canon ws @ tail"
proof -
  have "is_absolute (canon ws @ tail)" "expand_home (canon ws @ tail) home = canon ws @ tail"
    by (simp_all add: canon_def is_absolute_def starts_with_def expand_home_absolute)
  moreover have "ends_with (canon ws) [slash] \<longleftrightarrow> ws = []"
    using last_canon[OF assms(1)] ends_with_single[of "canon ws"] by (simp add: canon_def)
  moreover have "ends_with (canon ws @ [slash]) [slash]"
    by (simp add: ends_with_iff)
  ultimately show ?thesis
    using collapse_canon_tail[OF assms] assms(2)
    by (auto simp: path_normalize_def absolutize_def keep_trailing_separator_def)
qed

lemma split_chars_sep:
  "P d \<Longrightarrow> split_chars P (a @ d # b) = split_chars P a @ split_chars P b"
proof (induction a)
  case (Cons c a)
  then show ?case
    by (cases "split_chars P a") (auto split: list.splits)
qed simp

lemma components_append:
  "components (canon rs @ slash # rest)
    = components (canon rs)
      @ map component_of (filter (\<lambda>w. w \<noteq> [] \<and> w \<noteq> ''.'') (split_chars (\<lambda>c. c = slash) rest))"
proof -
  have "is_absolute (canon rs @ slash # rest)"
    by (simp add: is_absolute_def canon_def starts_with_def)
  then show ?thesis
    by (simp add: components_def Let_def split_chars_sep)
qed

lemma join_with_append:
  "rs \<noteq> [] \<Longrightarrow> us \<noteq> [] \<Longrightarrow> join_with sep (rs @ us) = join_with sep rs @ sep @ join_with sep us"
proof (induction sep rs rule: join_with.induct)
  case (2 sep x)
  then show ?case by (cases us) simp_all
qed simp_all

lemma trim_canon:
  assumes "\<forall>w \<in> set rs. good_word w" "tl' = [] \<or> (tl' = [slash] \<and> rs \<noteq> [])"
  shows "trim_end_matches slash (canon rs @ tl') = (if rs = [] then [] else canon rs)"
proof (cases "rs = []")
  case True
  then show ?thesis using assms(2) by (simp add: trim_end_matches_def canon_def)
next
  case False
  have "dropWhile (\<lambda>x. x = slash) (rev (canon rs)) = rev (canon rs)"
    using last_canon[OF assms(1)] False by (simp add: dropWhile_eq_self_iff hd_rev)
  then show ?thesis
    using assms(2) False by (auto simp: trim_end_matches_def)
qed

lemma strip_prefix_then:
  "(case strip_prefix s p of Some rest \<Rightarrow> starts_with rest [c] | None \<Rightarrow> False)
    \<longleftrightarrow> (\<exists>rest. s = p @ c # rest)"
  by (auto simp: strip_prefix_def starts_with_iff)

text \<open>
  Being inside a directory is a matter of whole components: \<open>/srcs\<close> is not
  inside \<open>/src\<close>.
\<close>

lemma is_within_canon:
  assumes ts: "\<forall>w \<in> set ts. good_word w" "tail = [] \<or> (tail = [slash] \<and> ts \<noteq> [])"
    and rs: "\<forall>w \<in> set rs. good_word w" "tl' = [] \<or> (tl' = [slash] \<and> rs \<noteq> [])"
  shows "is_within (canon ts @ tail) (canon rs @ tl') \<longleftrightarrow> take (length rs) ts = rs"
proof (cases "rs = []")
  case True
  then show ?thesis
    using trim_canon[OF rs] by (simp add: is_within_def canon_def starts_with_def)
next
  case False
  have unfold: "is_within (canon ts @ tail) (canon rs @ tl') \<longleftrightarrow>
      canon ts @ tail = canon rs \<or> (\<exists>rest. canon ts @ tail = canon rs @ slash # rest)"
    using trim_canon[OF rs] False
    unfolding is_within_def Let_def strip_prefix_then by (simp add: canon_def)
  have comps: "components (canon ts @ tail) = RootDir # map Normal ts"
      "components (canon rs) = RootDir # map Normal rs"
    using components_canon_tail[OF ts] components_canon[OF rs(1)] by simp_all
  have inj: "take (length rs) ts = rs" if "map Normal ts = map Normal rs @ more" for more
  proof -
    have "map Normal (take (length rs) ts) = map Normal rs"
      using that by (simp add: take_map[symmetric])
    then show ?thesis
      by (simp add: inj_map_eq_map inj_def)
  qed
  show ?thesis
  proof
    assume "is_within (canon ts @ tail) (canon rs @ tl')"
    then show "take (length rs) ts = rs"
      unfolding unfold
    proof
      assume "canon ts @ tail = canon rs"
      then show ?thesis using comps inj[of "[]"] by simp
    next
      assume "\<exists>rest. canon ts @ tail = canon rs @ slash # rest"
      then obtain rest where "canon ts @ tail = canon rs @ slash # rest" by blast
      then have "RootDir # map Normal ts = (RootDir # map Normal rs)
          @ map component_of (filter (\<lambda>w. w \<noteq> [] \<and> w \<noteq> ''.'') (split_chars (\<lambda>c. c = slash) rest))"
        using comps components_append[of rs rest] by metis
      then show ?thesis
        using inj by simp
    qed
  next
    assume "take (length rs) ts = rs"
    then obtain us where us: "ts = rs @ us" by (metis append_take_drop_id)
    then have "canon ts = canon rs @ (if us = [] then [] else slash # join_with [slash] us)"
      using False join_with_append[of rs us "[slash]"] by (simp add: canon_def)
    then show "is_within (canon ts @ tail) (canon rs @ tl')"
      unfolding unfold using ts(2) by auto
  qed
qed

lemma within_components:
  assumes "is_absolute cwd"
  shows "is_within (path_normalize p cwd home) (path_normalize r cwd home) \<longleftrightarrow>
    take (length (components (path_normalize r cwd home))) (components (path_normalize p cwd home))
      = components (path_normalize r cwd home)"
proof -
  obtain ts tail where t: "path_normalize p cwd home = canon ts @ tail" "\<forall>w \<in> set ts. good_word w"
      "tail = [] \<or> (tail = [slash] \<and> ts \<noteq> [])"
    using normalize_canon[OF assms] by blast
  obtain rs tl' where r: "path_normalize r cwd home = canon rs @ tl'" "\<forall>w \<in> set rs. good_word w"
      "tl' = [] \<or> (tl' = [slash] \<and> rs \<noteq> [])"
    using normalize_canon[OF assms] by blast
  have "take (length rs) ts = rs \<longleftrightarrow> take (length rs) (map Normal ts) = map Normal rs"
    by (simp add: take_map inj_map_eq_map inj_def)
  then show ?thesis
    unfolding t(1) r(1) is_within_canon[OF t(2,3) r(2,3)]
    by (simp add: components_canon_tail[OF t(2,3)] components_canon_tail[OF r(2,3)])
qed

text \<open>
  With an absolute working directory, normalising a path twice changes
  nothing, whatever the path and the home directory.
\<close>

theorem normalize_idempotent:
  assumes "is_absolute cwd"
  shows "path_normalize (path_normalize raw cwd home) cwd home = path_normalize raw cwd home"
  using normalize_canon[OF assms, of raw home] normalize_fixpoint by metis

theorem normalize_idempotent_witness:
  "path_normalize (path_normalize ''~/a/../b//c/'' ''/w'' (Some ''/h'')) ''/w'' (Some ''/h'')
   = path_normalize ''~/a/../b//c/'' ''/w'' (Some ''/h'')"
  by (rule normalize_idempotent) (simp add: is_absolute_def starts_with_def)

section \<open>Hosts are plain names\<close>

lemma url_host_is_hostname: "url_host u = Some h \<Longrightarrow> is_hostname h"
  by (auto simp: url_host_def Let_def bind_eq_Some_conv split: if_splits prod.splits)

end
