(* ===== verification/Perm_Rule.thy ===== *)
theory Perm_Rule
  imports Perm_Path
begin

text \<open>
  The rule table (\<open>bingo-permissions/src/rule.rs\<close>), the rule a prompt offers
  for the session (\<open>scope.rs\<close>) and the warnings on destructive commands
  (\<open>caution.rs\<close>).

  Third-party readings are fields of \<open>grammar\<close>: the shell parser, the word
  splitter (\<open>shlex::split\<close>) and the glob matcher (\<open>globset\<close>: a pattern that
  does not build gives none).
\<close>

record grammar =
  gr_parse :: parser
  gr_shlex :: "string \<Rightarrow> string list option"
  gr_glob :: "string \<Rightarrow> (string \<Rightarrow> bool) option"

section \<open>Rules\<close>

datatype match_mode = MatchAny | MatchAll

record call =
  cl_name :: string
  cl_subjects :: "subject list"

record match_context =
  mc_cwd :: string
  mc_home :: "string option"

datatype tool_pattern = PatExact string | PatServer string

datatype content = Literal string | Prefix string | Domain string

record rule =
  ru_raw :: string
  ru_tool :: tool_pattern
  ru_content :: "content option"

record rules =
  rl_allow :: "rule list"
  rl_deny :: "rule list"
  rl_ask :: "rule list"

definition tool_pattern_parse :: "string \<Rightarrow> tool_pattern option" where
  "tool_pattern_parse name =
     (if name = [] then None
      else if starts_with name ''mcp__'' \<and> length (split_str ''__'' name) = 2
           then Some (PatServer name)
      else Some (PatExact name))"

definition tool_pattern_matches :: "tool_pattern \<Rightarrow> string \<Rightarrow> bool" where
  "tool_pattern_matches p name =
     (case p of
        PatExact want \<Rightarrow> want = name
      | PatServer server \<Rightarrow>
          name = server
          \<or> (case strip_prefix name server of Some rest \<Rightarrow> starts_with rest ''__'' | None \<Rightarrow> False))"

definition content_parse :: "string \<Rightarrow> content option" where
  "content_parse inner =
     (let text = trim inner in
      case strip_prefix text ''domain:'' of
        Some host \<Rightarrow> Some (Domain (trim_end_matches (CHR ''*'') host))
      | None \<Rightarrow>
          (let (text1, explicit1) =
                 (case strip_prefix text ''prefix:'' of Some t \<Rightarrow> (t, True) | None \<Rightarrow> (text, False));
               (text2, explicit2) =
                 (case strip_suffix text1 '':*'' of Some t \<Rightarrow> (t, True) | None \<Rightarrow> (text1, explicit1))
           in if text2 = [] \<or> text2 = ''*'' then None
              else Some (if explicit2 then Prefix text2 else Literal text2)))"

definition rule_parse :: "string \<Rightarrow> rule option" where
  "rule_parse raw =
     (let text = trim raw;
          parsed = (case split_once ''('' text of
              Some (name, rest) \<Rightarrow>
                map_option (\<lambda>inner. (trim name, content_parse inner)) (strip_suffix rest '')'')
            | None \<Rightarrow> Some (text, None))
      in Option.bind parsed (\<lambda>(name, content).
           map_option (\<lambda>tool. \<lparr>ru_raw = text, ru_tool = tool, ru_content = content\<rparr>)
             (tool_pattern_parse name)))"

definition content_text :: "content \<Rightarrow> string" where
  "content_text c = (case c of Literal t \<Rightarrow> t | Prefix t \<Rightarrow> t | Domain t \<Rightarrow> t)"

section \<open>Matching\<close>

definition host_is :: "string \<Rightarrow> string \<Rightarrow> bool" where
  "host_is url want \<longleftrightarrow>
     want \<noteq> []
     \<and> (case url_host url of Some h \<Rightarrow> eq_ignore_ascii_case h want | None \<Rightarrow> False)"

definition words_start_with :: "grammar \<Rightarrow> string \<Rightarrow> string \<Rightarrow> bool" where
  "words_start_with g unit content =
     (case (gr_shlex g unit, gr_shlex g content) of
        (Some us, Some cs) \<Rightarrow> length cs \<le> length us \<and> list_all (\<lambda>(w, want). w = want) (zip us cs)
      | _ \<Rightarrow> False)"

definition unit_covered :: "grammar \<Rightarrow> string \<Rightarrow> string \<Rightarrow> match_mode \<Rightarrow> bool" where
  "unit_covered g unit content mode =
     (let text = starts_with unit content; words = words_start_with g unit content
      in case mode of MatchAny \<Rightarrow> text \<or> words | MatchAll \<Rightarrow> text \<and> words)"

definition command_covered :: "grammar \<Rightarrow> string \<Rightarrow> string \<Rightarrow> match_mode \<Rightarrow> bool" where
  "command_covered g command content mode =
     (let s = split_command (gr_parse g) command in
      case mode of
        MatchAll \<Rightarrow>
          sl_parsed s \<and> sl_parts s \<noteq> [] \<and> list_all (\<lambda>part. unit_covered g part content mode) (sl_parts s)
      | MatchAny \<Rightarrow>
          list_ex (\<lambda>part. unit_covered g part content mode) (sl_parts s)
          \<or> unit_covered g (trim command) content mode)"

definition compile_glob :: "grammar \<Rightarrow> string \<Rightarrow> (string \<Rightarrow> bool) option" where
  "compile_glob g pattern =
     (if list_ex (\<lambda>c. c = CHR ''*'' \<or> c = CHR ''?'' \<or> c = CHR ''['' \<or> c = CHR ''{'') pattern
      then gr_glob g pattern else None)"

definition path_covered :: "grammar \<Rightarrow> string \<Rightarrow> content \<Rightarrow> match_context \<Rightarrow> bool" where
  "path_covered g target content cx =
     (let target' = path_normalize target (mc_cwd cx) (mc_home cx);
          pattern = path_normalize (content_text content) (mc_cwd cx) (mc_home cx)
      in case (content, compile_glob g pattern) of
           (Literal _, Some glob) \<Rightarrow> glob target'
         | _ \<Rightarrow> starts_with target' pattern)"

definition covers :: "grammar \<Rightarrow> content \<Rightarrow> subject \<Rightarrow> match_mode \<Rightarrow> match_context \<Rightarrow> bool" where
  "covers g content s mode cx =
     (case (content, s) of
        (Domain host, SubjUrl url) \<Rightarrow> host_is url host
      | (Domain _, _) \<Rightarrow> False
      | (_, SubjCommand command) \<Rightarrow> command_covered g command (content_text content) mode
      | (_, SubjPath path) \<Rightarrow> path_covered g path content cx
      | (_, SubjUrl url) \<Rightarrow> starts_with url (content_text content)
      | (Literal text, SubjName name) \<Rightarrow> name = text
      | (Prefix text, SubjName name) \<Rightarrow> starts_with name text)"

definition unreadable :: "grammar \<Rightarrow> subject \<Rightarrow> bool" where
  "unreadable g s =
     (case s of SubjCommand command \<Rightarrow> \<not> sl_parsed (split_command (gr_parse g) command) | _ \<Rightarrow> False)"

definition rule_matches :: "grammar \<Rightarrow> rule \<Rightarrow> call \<Rightarrow> match_mode \<Rightarrow> match_context \<Rightarrow> bool" where
  "rule_matches g r c mode cx =
     (if \<not> tool_pattern_matches (ru_tool r) (cl_name c) then False
      else if mode = MatchAll \<and> list_ex (unreadable g) (cl_subjects c) then False
      else (case ru_content r of
          None \<Rightarrow> True
        | Some content \<Rightarrow>
            (case mode of
               MatchAny \<Rightarrow> list_ex (\<lambda>s. covers g content s mode cx) (cl_subjects c)
             | MatchAll \<Rightarrow>
                 cl_subjects c \<noteq> [] \<and> list_all (\<lambda>s. covers g content s mode cx) (cl_subjects c))))"

definition first_match :: "grammar \<Rightarrow> rule list \<Rightarrow> call \<Rightarrow> match_mode \<Rightarrow> match_context \<Rightarrow> rule option" where
  "first_match g table c mode cx = find (\<lambda>r. rule_matches g r c mode cx) table"

section \<open>The rule a prompt offers\<close>

definition command_rule :: "grammar \<Rightarrow> string \<Rightarrow> string \<Rightarrow> string option" where
  "command_rule g tool command =
     (let s = split_command (gr_parse g) command in
      if is_simple s then map_option (\<lambda>h. tool @ ''('' @ h @ '':*)'') (split_head s) else None)"

definition path_rule :: "string \<Rightarrow> string \<Rightarrow> string \<Rightarrow> string option \<Rightarrow> string option" where
  "path_rule tool target cwd home =
     Option.bind (path_parent (path_normalize target cwd home)) (\<lambda>parent.
     Option.bind (path_parent parent) (\<lambda>_.
       let dir = (if ends_with parent [slash] then parent else parent @ [slash])
       in Some (tool @ ''('' @ dir @ '')'')))"

definition url_rule :: "string \<Rightarrow> string \<Rightarrow> string option" where
  "url_rule tool url = map_option (\<lambda>h. tool @ ''(domain:'' @ h @ '')'') (url_host url)"

definition narrowest :: "grammar \<Rightarrow> call \<Rightarrow> string \<Rightarrow> string option \<Rightarrow> string option" where
  "narrowest g c cwd home =
     (case cl_subjects c of
        [] \<Rightarrow> Some (cl_name c)
      | [only] \<Rightarrow>
          (case only of
             SubjCommand command \<Rightarrow> command_rule g (cl_name c) command
           | SubjPath path \<Rightarrow> path_rule (cl_name c) path cwd home
           | SubjUrl url \<Rightarrow> url_rule (cl_name c) url
           | SubjName name \<Rightarrow> Some (cl_name c @ ''('' @ name @ '')''))
      | _ \<Rightarrow> None)"

section \<open>Warnings\<close>

text \<open>
  Skip the wrappers \<open>sudo\<close>, \<open>env\<close> and \<open>command\<close> and their flags; none
  when a flag that takes a value has nothing after it.
\<close>

fun skip_flags :: "string list \<Rightarrow> string list option" where
  "skip_flags [] = Some []"
| "skip_flags (w # ws) =
     (if starts_with w ''-''
      then (if w \<in> {''-u'', ''-g'', ''--user'', ''--group''}
            then (case ws of [] \<Rightarrow> None | _ # ws' \<Rightarrow> skip_flags ws')
            else skip_flags ws)
      else Some (w # ws))"

lemma length_skip_flags: "skip_flags ws = Some vs \<Longrightarrow> length vs \<le> length ws"
  by (induction ws rule: skip_flags.induct) (auto split: if_splits list.splits)

function skip_wrappers :: "string list \<Rightarrow> string list option" where
  "skip_wrappers [] = Some []"
| "skip_wrappers (w # ws) =
     (if w \<in> {''sudo'', ''env'', ''command''}
      then (case skip_flags ws of None \<Rightarrow> None | Some vs \<Rightarrow> skip_wrappers vs)
      else Some (w # ws))"
  by pat_completeness auto
termination
  by (relation "measure length") (auto dest: length_skip_flags)

definition simple_caution :: "string \<Rightarrow> (string \<times> string) option" where
  "simple_caution command =
     Option.bind
       (skip_wrappers (map (trim_matches [CHR 0x27, CHR 0x22]) (split_whitespace command))) (\<lambda>words.
       case words of
         [] \<Rightarrow> None
       | first # rest \<Rightarrow>
           (let head = last (split_chars (\<lambda>c. c = CHR ''/'') first) in
            if head = ''rm'' \<and> list_ex (\<lambda>w. w = ''--recursive''
                 \<or> (starts_with w ''-'' \<and> \<not> starts_with w ''--''
                    \<and> (CHR ''r'' \<in> set w \<or> CHR ''R'' \<in> set w))) rest
            then Some (''delete recursively'', ''permanently removes files'')
            else if head = ''git'' \<and> ''reset'' \<in> set words \<and> ''--hard'' \<in> set words
            then Some (''hard-reset'', ''discards uncommitted changes'')
            else if head = ''git'' \<and> ''push'' \<in> set words
                 \<and> list_ex (\<lambda>w. w = ''-f'' \<or> starts_with w ''--force'') words
            then Some (''force-push'', ''rewrites remote history'')
            else if head = ''git'' \<and> ''clean'' \<in> set words
                 \<and> list_ex (\<lambda>w. starts_with w ''-'' \<and> CHR ''f'' \<in> set w) words
            then Some (''clean'', ''removes untracked files'')
            else if head = ''dd'' then Some (''overwrite'', ''irreversibly overwrites data'')
            else if head = ''mkfs'' then Some (''format'', ''erases the filesystem'')
            else if head = ''shred'' then Some (''shred'', ''irreversibly overwrites data'')
            else None))"

definition find_map :: "('a \<Rightarrow> 'b option) \<Rightarrow> 'a list \<Rightarrow> 'b option" where
  "find_map f xs = (case List.map_filter f xs of [] \<Rightarrow> None | y # _ \<Rightarrow> Some y)"

definition command_caution :: "grammar \<Rightarrow> string \<Rightarrow> caution option" where
  "command_caution g command =
     map_option (\<lambda>(act, why). \<lparr>ca_reason = why, ca_act = Some act\<rparr>)
       (find_map simple_caution (sl_parts (split_command (gr_parse g) command)))"

definition subjects_caution :: "grammar \<Rightarrow> subject list \<Rightarrow> caution option" where
  "subjects_caution g subjects =
     find_map (\<lambda>s. case s of SubjCommand command \<Rightarrow> command_caution g command | _ \<Rightarrow> None) subjects"

section \<open>The narrow reading is inside the broad one\<close>

lemma unit_covered_broad: "unit_covered g u c MatchAll \<Longrightarrow> unit_covered g u c MatchAny"
  by (simp add: unit_covered_def Let_def)

lemma command_covered_broad:
  "command_covered g cmd c MatchAll \<Longrightarrow> command_covered g cmd c MatchAny"
  by (cases "sl_parts (split_command (gr_parse g) cmd)")
     (auto simp: command_covered_def Let_def intro: unit_covered_broad)

lemma covers_broad: "covers g c s MatchAll cx \<Longrightarrow> covers g c s MatchAny cx"
  by (auto simp: covers_def intro: command_covered_broad split: content.splits subject.splits)

lemma rule_matches_broad:
  assumes "rule_matches g r c MatchAll cx"
  shows "rule_matches g r c MatchAny cx"
  using assms
  by (cases "cl_subjects c")
     (auto simp: rule_matches_def intro: covers_broad split: if_splits option.splits)

lemma unreadable_no_narrow:
  "s \<in> set (cl_subjects c) \<Longrightarrow> unreadable g s \<Longrightarrow> \<not> rule_matches g r c MatchAll cx"
  by (auto simp: rule_matches_def list_ex_iff)

end
