(* ===== verification/Perm_Decide.thy ===== *)
theory Perm_Decide
  imports Perm_Rule
begin

text \<open>
  The five modes (\<open>bingo-permissions/src/mode.rs\<close>) and the policy ladder
  (\<open>decide.rs\<close>): one definition per step, composed in the order of the source.
\<close>

section \<open>Modes\<close>

datatype mode = ModeDefault | ModeAcceptEdits | ModePlan | ModeBypassPermissions | ModeDontAsk

definition mode_all :: "mode list" where
  "mode_all = [ModeDefault, ModeAcceptEdits, ModePlan, ModeBypassPermissions, ModeDontAsk]"

definition mode_cycle :: "mode \<Rightarrow> mode list" where
  "mode_cycle m =
     (let modes = [ModeDefault, ModeAcceptEdits, ModePlan, ModeBypassPermissions]
      in if m \<in> set modes then modes else modes @ [m])"

fun mode_label :: "mode \<Rightarrow> string" where
  "mode_label ModeDefault = ''default''"
| "mode_label ModeAcceptEdits = ''accept edits''"
| "mode_label ModePlan = ''plan''"
| "mode_label ModeBypassPermissions = ''bypass''"
| "mode_label ModeDontAsk = ''don'' @ [CHR 0x27] @ ''t ask''"

fun mode_as_str :: "mode \<Rightarrow> string" where
  "mode_as_str ModeDefault = ''default''"
| "mode_as_str ModeAcceptEdits = ''acceptEdits''"
| "mode_as_str ModePlan = ''plan''"
| "mode_as_str ModeBypassPermissions = ''bypassPermissions''"
| "mode_as_str ModeDontAsk = ''dontAsk''"

definition mode_from_str :: "string \<Rightarrow> mode option" where
  "mode_from_str s =
     (if s = ''default'' then Some ModeDefault
      else if s = ''acceptEdits'' then Some ModeAcceptEdits
      else if s = ''plan'' then Some ModePlan
      else if s = ''bypassPermissions'' then Some ModeBypassPermissions
      else if s = ''dontAsk'' then Some ModeDontAsk
      else None)"

definition tightens :: "mode \<Rightarrow> mode \<Rightarrow> bool" where
  "tightens m before \<longleftrightarrow>
     m = before
     \<or> (case before of
          ModeBypassPermissions \<Rightarrow> m \<in> {ModeAcceptEdits, ModeDefault, ModePlan, ModeDontAsk}
        | ModeAcceptEdits \<Rightarrow> m \<in> {ModeDefault, ModePlan, ModeDontAsk}
        | ModeDefault \<Rightarrow> m \<in> {ModePlan, ModeDontAsk}
        | _ \<Rightarrow> False)"

definition mode_stance :: "mode \<Rightarrow> stance" where
  "mode_stance m =
     (case m of ModeBypassPermissions \<Rightarrow> StanceAllow | ModeDontAsk \<Rightarrow> StanceRefuse | _ \<Rightarrow> StanceAsk)"

section \<open>The request\<close>

record request =
  rq_call :: call
  rq_traits :: tool_traits
  rq_confirm :: "string option"
  rq_mode :: mode
  rq_cwd :: string
  rq_home :: "string option"
  rq_extra_dirs :: "string list"

definition rq_context :: "request \<Rightarrow> match_context" where
  "rq_context req = \<lparr>mc_cwd = rq_cwd req, mc_home = rq_home req\<rparr>"

definition rq_paths :: "request \<Rightarrow> string list" where
  "rq_paths req =
     List.map_filter (\<lambda>s. case s of SubjPath p \<Rightarrow> Some (path_normalize p (rq_cwd req) (rq_home req)) | _ \<Rightarrow> None)
       (cl_subjects (rq_call req))"

definition rq_roots :: "request \<Rightarrow> string list" where
  "rq_roots req =
     path_normalize (rq_cwd req) (rq_cwd req) (rq_home req)
       # map (\<lambda>d. path_normalize d (rq_cwd req) (rq_home req)) (rq_extra_dirs req)"

section \<open>The steps\<close>

definition trusted_read_only :: "tool_traits \<Rightarrow> bool" where
  "trusted_read_only t \<longleftrightarrow> tt_trusted t \<and> tt_read_only t"

definition edits_within_reach :: "request \<Rightarrow> bool" where
  "edits_within_reach req \<longleftrightarrow>
     tt_trusted (rq_traits req) \<and> tt_edit (rq_traits req)
     \<and> rq_paths req \<noteq> []
     \<and> list_all (\<lambda>target. list_ex (is_within target) (rq_roots req)) (rq_paths req)"

definition step_confirm :: "request \<Rightarrow> decision option" where
  "step_confirm req = map_option (\<lambda>detail. Ask (ReConfirm detail) None) (rq_confirm req)"

definition step_deny_rules :: "grammar \<Rightarrow> request \<Rightarrow> rules \<Rightarrow> decision option" where
  "step_deny_rules g req rs =
     map_option (\<lambda>r. Deny (ReRule (ru_raw r) (Some SrcSettings)))
       (first_match g (rl_deny rs) (rq_call req) MatchAny (rq_context req))"

definition step_sensitive_path :: "request \<Rightarrow> decision option" where
  "step_sensitive_path req =
     (if \<not> (tt_edit (rq_traits req) \<or> tt_destructive (rq_traits req)) then None
      else map_option (\<lambda>target. Ask (ReSafety (''writing into a sensitive path: '' @ target)) None)
             (find is_sensitive (rq_paths req)))"

definition step_ask_rules :: "grammar \<Rightarrow> request \<Rightarrow> rules \<Rightarrow> decision option" where
  "step_ask_rules g req rs =
     map_option (\<lambda>r. Ask (ReRule (ru_raw r) (Some SrcSettings)) None)
       (first_match g (rl_ask rs) (rq_call req) MatchAny (rq_context req))"

definition step_read_only :: "request \<Rightarrow> decision option" where
  "step_read_only req = (if trusted_read_only (rq_traits req) then Some (Allow ReReadOnly) else None)"

definition step_allow_rules :: "grammar \<Rightarrow> request \<Rightarrow> rule list \<Rightarrow> rule_source \<Rightarrow> decision option" where
  "step_allow_rules g req table source =
     map_option (\<lambda>r. Allow (ReRule (ru_raw r) (Some source)))
       (first_match g table (rq_call req) MatchAll (rq_context req))"

definition step_bypass :: "request \<Rightarrow> decision option" where
  "step_bypass req =
     (if rq_mode req = ModeBypassPermissions then Some (Allow (ReMode (mode_as_str (rq_mode req))))
      else None)"

definition trait_default :: "request \<Rightarrow> decision" where
  "trait_default req =
     (if trusted_read_only (rq_traits req) then Allow ReReadOnly else Ask ReDefault None)"

definition accept_edits_default :: "request \<Rightarrow> decision" where
  "accept_edits_default req =
     (if edits_within_reach req then Allow (ReMode (mode_as_str ModeAcceptEdits))
      else trait_default req)"

definition step_mode_default :: "request \<Rightarrow> decision" where
  "step_mode_default req =
     (case rq_mode req of ModeAcceptEdits \<Rightarrow> accept_edits_default req | _ \<Rightarrow> trait_default req)"

definition or_else :: "'a option \<Rightarrow> 'a option \<Rightarrow> 'a option" where
  "or_else a b = (case a of Some x \<Rightarrow> Some x | None \<Rightarrow> b)"

definition steps :: "grammar \<Rightarrow> request \<Rightarrow> rules \<Rightarrow> rule list \<Rightarrow> decision" where
  "steps g req rs session =
     unwrap_or
       (or_else (step_confirm req)
       (or_else (step_deny_rules g req rs)
       (or_else (step_sensitive_path req)
       (or_else (step_ask_rules g req rs)
       (or_else (step_read_only req)
       (or_else (step_allow_rules g req session SrcSession)
       (or_else (step_bypass req)
         (step_allow_rules g req (rl_allow rs) SrcSettings))))))))
       (step_mode_default req)"

definition is_allow :: "decision \<Rightarrow> bool" where
  "is_allow d = (case d of Allow _ \<Rightarrow> True | _ \<Rightarrow> False)"

definition is_ask :: "decision \<Rightarrow> bool" where
  "is_ask d = (case d of Ask _ _ \<Rightarrow> True | _ \<Rightarrow> False)"

definition is_deny :: "decision \<Rightarrow> bool" where
  "is_deny d = (case d of Deny _ \<Rightarrow> True | _ \<Rightarrow> False)"

definition silencing_rule :: "grammar \<Rightarrow> request \<Rightarrow> rules \<Rightarrow> string option" where
  "silencing_rule g req rs =
     (if tt_destructive (rq_traits req) \<or> subjects_caution g (cl_subjects (rq_call req)) \<noteq> None then None
      else Option.bind (narrowest g (rq_call req) (rq_cwd req) (rq_home req)) (\<lambda>candidate.
             Option.bind (rule_parse candidate) (\<lambda>r.
               if is_allow (steps g req (rs\<lparr>rl_allow := rl_allow rs @ [r]\<rparr>) [])
               then Some candidate else None)))"

definition with_scope :: "grammar \<Rightarrow> request \<Rightarrow> rules \<Rightarrow> decision \<Rightarrow> decision" where
  "with_scope g req rs d =
     (case d of Ask why _ \<Rightarrow> Ask why (silencing_rule g req rs) | _ \<Rightarrow> d)"

definition refuse :: "mode \<Rightarrow> decision \<Rightarrow> decision" where
  "refuse m d = (case d of Deny why \<Rightarrow> Deny why | _ \<Rightarrow> Deny (ReMode (mode_as_str m)))"

definition limit_by_mode :: "request \<Rightarrow> decision \<Rightarrow> decision" where
  "limit_by_mode req d =
     (if rq_mode req = ModePlan \<and> \<not> trusted_read_only (rq_traits req) then refuse ModePlan d
      else if rq_mode req = ModeDontAsk \<and> is_ask d then refuse ModeDontAsk d
      else d)"

definition decide_with_session :: "grammar \<Rightarrow> request \<Rightarrow> rules \<Rightarrow> rule list \<Rightarrow> decision" where
  "decide_with_session g req rs session =
     limit_by_mode req (with_scope g req rs (steps g req rs session))"

definition decide :: "grammar \<Rightarrow> request \<Rightarrow> rules \<Rightarrow> decision" where
  "decide g req rs = decide_with_session g req rs []"

section \<open>The ladder\<close>

lemma or_else_simps [simp, ladder_simps]:
  "or_else (Some x) b = Some x" "or_else None b = b"
  by (simp_all add: or_else_def)

lemma or_else_None [simp]: "or_else a b = None \<longleftrightarrow> a = None \<and> b = None"
  by (simp add: or_else_def split: option.splits)

lemma unwrap_or_simps [simp]: "unwrap_or (Some x) d = x" "unwrap_or None d = d"
  by (simp_all add: unwrap_or_def)

lemma decision_kind_excl: "is_ask d \<Longrightarrow> is_allow d \<Longrightarrow> False" "is_deny d \<Longrightarrow> is_allow d \<Longrightarrow> False"
  by (cases d; simp add: is_allow_def is_deny_def is_ask_def)+

lemma kind_simps [simp, ladder_simps]:
  "is_allow (Allow r)" "\<not> is_allow (Deny r)" "\<not> is_allow (Ask r sc)"
  "is_ask (Ask r sc)" "\<not> is_ask (Allow r)" "\<not> is_ask (Deny r)"
  "is_deny (Deny r)" "\<not> is_deny (Allow r)" "\<not> is_deny (Ask r sc)"
  by (simp_all add: is_allow_def is_ask_def is_deny_def)

lemma is_allow_refuse [simp]: "\<not> is_allow (refuse m d)" "is_deny (refuse m d)"
  by (simp_all add: refuse_def split: decision.splits)

lemma with_scope_kind [simp]:
  "is_allow (with_scope g req rs d) = is_allow d"
  "is_ask (with_scope g req rs d) = is_ask d"
  "is_deny (with_scope g req rs d) = is_deny d"
  by (simp_all add: with_scope_def split: decision.splits)

lemma request_mode [simp]:
  "rq_paths (req\<lparr>rq_mode := m\<rparr>) = rq_paths req"
  "rq_context (req\<lparr>rq_mode := m\<rparr>) = rq_context req"
  "rq_roots (req\<lparr>rq_mode := m\<rparr>) = rq_roots req"
  by (simp_all add: rq_paths_def rq_context_def rq_roots_def cong: subject.case_cong)

text \<open>What stands before every automatic allow.\<close>

definition guarded :: "grammar \<Rightarrow> request \<Rightarrow> rules \<Rightarrow> bool" where
  "guarded g req rs \<longleftrightarrow>
     rq_confirm req \<noteq> None
     \<or> (\<exists>r \<in> set (rl_deny rs). rule_matches g r (rq_call req) MatchAny (rq_context req))
     \<or> ((tt_edit (rq_traits req) \<or> tt_destructive (rq_traits req))
        \<and> (\<exists>p \<in> set (rq_paths req). is_sensitive p))
     \<or> (\<exists>r \<in> set (rl_ask rs). rule_matches g r (rq_call req) MatchAny (rq_context req))"

lemma find_None_ball: "find P xs = None \<longleftrightarrow> (\<forall>x \<in> set xs. \<not> P x)"
  by (auto simp: find_None_iff)

lemma guarded_iff:
  "guarded g req rs \<longleftrightarrow>
     step_confirm req \<noteq> None \<or> step_deny_rules g req rs \<noteq> None
     \<or> step_sensitive_path req \<noteq> None \<or> step_ask_rules g req rs \<noteq> None"
  by (auto simp: guarded_def step_confirm_def step_deny_rules_def step_sensitive_path_def
      step_ask_rules_def first_match_def find_None_ball dest: find_Some_in_set)

lemma guard_steps_kind:
  "step_confirm req = Some d \<Longrightarrow> is_ask d"
  "step_deny_rules g req rs = Some d \<Longrightarrow> is_deny d"
  "step_sensitive_path req = Some d \<Longrightarrow> is_ask d"
  "step_ask_rules g req rs = Some d \<Longrightarrow> is_ask d"
  by (auto simp: step_confirm_def step_deny_rules_def step_sensitive_path_def step_ask_rules_def
      split: if_splits)

lemma guard_steps_not_allow:
  "guarded g req rs \<Longrightarrow> \<not> is_allow (steps g req rs session)"
  unfolding guarded_iff steps_def
  by (cases "step_confirm req"; cases "step_deny_rules g req rs"; cases "step_sensitive_path req";
      cases "step_ask_rules g req rs")
     (auto dest!: guard_steps_kind dest: decision_kind_excl)

text \<open>Past the guards, the rest of the ladder.\<close>

lemma unguarded_steps:
  "\<not> guarded g req rs \<Longrightarrow>
     steps g req rs session =
       (if trusted_read_only (rq_traits req) then Allow ReReadOnly
        else case step_allow_rules g req session SrcSession of
            Some d \<Rightarrow> d
          | None \<Rightarrow>
              if rq_mode req = ModeBypassPermissions then Allow (ReMode (mode_as_str (rq_mode req)))
              else unwrap_or (step_allow_rules g req (rl_allow rs) SrcSettings) (step_mode_default req))"
  by (auto simp: guarded_iff steps_def step_read_only_def step_bypass_def or_else_def
      split: option.splits)

lemma limit_not_allow: "\<not> is_allow d \<Longrightarrow> \<not> is_allow (limit_by_mode req d)"
  by (simp add: limit_by_mode_def)

lemma limit_allow_iff:
  "is_allow (limit_by_mode req d) \<longleftrightarrow>
     is_allow d \<and> (rq_mode req = ModePlan \<longrightarrow> trusted_read_only (rq_traits req))"
  by (auto simp: limit_by_mode_def dest: decision_kind_excl)

lemma decide_allow_iff:
  "is_allow (decide_with_session g req rs session) \<longleftrightarrow>
     is_allow (steps g req rs session)
     \<and> (rq_mode req = ModePlan \<longrightarrow> trusted_read_only (rq_traits req))"
  by (simp add: decide_with_session_def limit_allow_iff)

text \<open>
  C38: what only a person may decide is never allowed without one.  A call whose
  tool asks for confirmation, that a deny or an ask rule names, or that writes
  into a sensitive directory is not allowed in any mode and by no set of allow or
  session rules; and one a deny rule names is denied unless the tool's own
  confirmation asks first.
\<close>

theorem no_silent_allow:
  assumes "guarded g req rs"
  shows "\<not> is_allow (decide_with_session g (req\<lparr>rq_mode := m\<rparr>) (rs\<lparr>rl_allow := allow\<rparr>) session)
    \<and> ((\<exists>r \<in> set (rl_deny rs). rule_matches g r (rq_call req) MatchAny (rq_context req))
       \<and> rq_confirm req = None
       \<longrightarrow> is_deny (decide_with_session g (req\<lparr>rq_mode := m\<rparr>) (rs\<lparr>rl_allow := allow\<rparr>) session))"
proof -
  let ?req = "req\<lparr>rq_mode := m\<rparr>" and ?rs = "rs\<lparr>rl_allow := allow\<rparr>"
  have same: "guarded g ?req ?rs = guarded g req rs"
    by (simp add: guarded_def)
  have "is_deny (decide_with_session g ?req ?rs session)"
    if "\<exists>r \<in> set (rl_deny rs). rule_matches g r (rq_call req) MatchAny (rq_context req)"
      "rq_confirm req = None"
  proof -
    have "step_confirm ?req = None" "step_deny_rules g ?req ?rs \<noteq> None"
      using that by (auto simp: step_confirm_def step_deny_rules_def first_match_def find_None_ball)
    then obtain d where d: "step_confirm ?req = None" "step_deny_rules g ?req ?rs = Some d"
      by auto
    then have "steps g ?req ?rs session = d" "is_deny d"
      using guard_steps_kind(2)[OF d(2)] by (simp_all add: steps_def)
    then show ?thesis
      by (auto simp: decide_with_session_def limit_by_mode_def)
  qed
  then show ?thesis
    using assms guard_steps_not_allow[of g ?req ?rs session] same by (auto simp: decide_allow_iff)
qed

text \<open>
  Two modes bound whatever the ladder said: in plan mode nothing that is not
  trusted read-only runs or even asks, and when nobody can answer nothing asks.
\<close>

theorem mode_ceilings:
  "(rq_mode req = ModePlan \<and> \<not> trusted_read_only (rq_traits req)
      \<longrightarrow> is_deny (decide_with_session g req rs session))
   \<and> (rq_mode req = ModeDontAsk \<longrightarrow> \<not> is_ask (decide_with_session g req rs session))"
proof -
  have "\<not> is_ask (refuse m d)" for m d
    by (simp add: refuse_def split: decision.splits)
  then show ?thesis
    by (auto simp: decide_with_session_def limit_by_mode_def)
qed

section \<open>Tightening a mode\<close>

lemma tightens_refl [simp]: "tightens m m"
  by (simp add: tightens_def)

lemma tightens_trans: "tightens a b \<Longrightarrow> tightens b c \<Longrightarrow> tightens a c"
  by (cases a; cases b; cases c) (simp_all add: tightens_def)

lemma tightens_antisym: "tightens a b \<Longrightarrow> tightens b a \<Longrightarrow> a = b"
  by (cases a; cases b) (simp_all add: tightens_def)

lemma guarded_mode [simp]: "guarded g (req\<lparr>rq_mode := m\<rparr>) rs = guarded g req rs"
  by (simp add: guarded_def)

lemma step_allow_mode [simp]:
  "step_allow_rules g (req\<lparr>rq_mode := m\<rparr>) t src = step_allow_rules g req t src"
  by (simp add: step_allow_rules_def)

lemma step_allow_kind: "step_allow_rules g req t src = Some d \<Longrightarrow> is_allow d"
  by (auto simp: step_allow_rules_def)

lemma trait_default_mode [simp]: "trait_default (req\<lparr>rq_mode := m\<rparr>) = trait_default req"
  by (simp add: trait_default_def)

lemma tighter_allows:
  assumes "tightens m before"
    and "is_allow (decide_with_session g (req\<lparr>rq_mode := m\<rparr>) rs session)"
  shows "is_allow (decide_with_session g (req\<lparr>rq_mode := before\<rparr>) rs session)"
proof -
  have open_call: "\<not> guarded g req rs"
    using assms(2) guard_steps_not_allow[of g "req\<lparr>rq_mode := m\<rparr>" rs session]
    by (auto simp: decide_allow_iff)
  show ?thesis
    using assms unguarded_steps[of g "req\<lparr>rq_mode := m\<rparr>" rs session]
      unguarded_steps[of g "req\<lparr>rq_mode := before\<rparr>" rs session] open_call
    by (cases m; cases before; cases "step_allow_rules g req (rl_allow rs) SrcSettings")
       (auto simp: decide_allow_iff tightens_def step_mode_default_def accept_edits_default_def
         dest: step_allow_kind split: option.splits if_splits)
qed

text \<open>
  The order in which an unasked command may move a session's mode is the
  order of permissiveness: if a mode tightens another, every call allowed in the
  tighter mode is allowed in the other.
\<close>

theorem tighter_mode_allows_less:
  assumes "tightens m before"
    and "is_allow (decide_with_session g (req\<lparr>rq_mode := m\<rparr>) rs session)"
  shows "is_allow (decide_with_session g (req\<lparr>rq_mode := before\<rparr>) rs session)"
  by (rule tighter_allows[OF assms])

section \<open>The offer to allow for the session\<close>

lemma step_allow_append:
  "step_allow_rules g req (t @ [r]) src =
     (case step_allow_rules g req t src of
        Some d \<Rightarrow> Some d
      | None \<Rightarrow>
          if rule_matches g r (rq_call req) MatchAll (rq_context req)
          then Some (Allow (ReRule (ru_raw r) (Some src))) else None)"
  by (auto simp: step_allow_rules_def first_match_def find_append split: option.splits)

lemma guarded_allow [simp]: "guarded g req (rs\<lparr>rl_allow := t\<rparr>) = guarded g req rs"
  by (simp add: guarded_def)

lemma step_allow_member:
  "r \<in> set t \<Longrightarrow> rule_matches g r (rq_call req) MatchAll (rq_context req) \<Longrightarrow>
     step_allow_rules g req t src \<noteq> None"
  by (auto simp: step_allow_rules_def first_match_def find_None_ball)

lemma asked_steps:
  assumes "is_ask (steps g req rs session)" "\<not> guarded g req rs"
  shows "\<not> trusted_read_only (rq_traits req) \<and> rq_mode req \<noteq> ModeBypassPermissions
    \<and> step_allow_rules g req session SrcSession = None
    \<and> step_allow_rules g req (rl_allow rs) SrcSettings = None \<and> is_ask (step_mode_default req)"
  using assms unguarded_steps[OF assms(2), of session]
  by (cases "step_allow_rules g req (rl_allow rs) SrcSettings")
     (auto dest!: step_allow_kind dest: decision_kind_excl split: option.splits if_splits)

lemma silencing_rule_matches:
  assumes "silencing_rule g req rs = Some sc" "is_ask (steps g req rs session)"
  shows "\<exists>r. rule_parse sc = Some r \<and> rule_matches g r (rq_call req) MatchAll (rq_context req)
    \<and> \<not> guarded g req rs"
proof -
  obtain r where r: "rule_parse sc = Some r"
      "is_allow (steps g req (rs\<lparr>rl_allow := rl_allow rs @ [r]\<rparr>) [])"
    using assms(1) by (auto simp: silencing_rule_def bind_eq_Some_conv split: if_splits)
  then have free: "\<not> guarded g req rs"
    using guard_steps_not_allow[of g req "rs\<lparr>rl_allow := rl_allow rs @ [r]\<rparr>" "[]"] by auto
  then have asked: "step_allow_rules g req (rl_allow rs) SrcSettings = None"
      "\<not> trusted_read_only (rq_traits req)" "rq_mode req \<noteq> ModeBypassPermissions"
      "is_ask (step_mode_default req)"
    using asked_steps[OF assms(2)] by auto
  moreover have "step_allow_rules g req [] SrcSession = None"
    by (simp add: step_allow_rules_def first_match_def)
  ultimately have "rule_matches g r (rq_call req) MatchAll (rq_context req)"
    using r(2) free unguarded_steps[of g req "rs\<lparr>rl_allow := rl_allow rs @ [r]\<rparr>" "[]"]
    by (auto simp: step_allow_append dest: decision_kind_excl split: if_splits)
  then show ?thesis using r(1) free by auto
qed

lemma scope_honoured:
  assumes "decide_with_session g req rs session = Ask why (Some sc)"
  shows "\<exists>r. rule_parse sc = Some r
    \<and> (\<forall>session'. r \<in> set session' \<longrightarrow> is_allow (decide_with_session g req rs session'))"
proof -
  have ask: "is_ask (decide_with_session g req rs session)"
    using assms by simp
  have norefuse: "\<not> is_ask (refuse m d)" for m d
    by (simp add: refuse_def split: decision.splits)
  have lim: "rq_mode req = ModePlan \<longrightarrow> trusted_read_only (rq_traits req)"
    and kept: "decide_with_session g req rs session = with_scope g req rs (steps g req rs session)"
    using ask norefuse by (auto simp: decide_with_session_def limit_by_mode_def split: if_splits)
  have "is_ask (steps g req rs session)"
    using ask kept by simp
  moreover from this have "silencing_rule g req rs = Some sc"
    using assms kept by (auto simp: with_scope_def is_ask_def split: decision.splits)
  ultimately obtain r where r: "rule_parse sc = Some r"
      "rule_matches g r (rq_call req) MatchAll (rq_context req)" "\<not> guarded g req rs"
    using silencing_rule_matches by blast
  have "is_allow (decide_with_session g req rs session')" if "r \<in> set session'" for session'
    using step_allow_member[OF that r(2), of SrcSession] unguarded_steps[OF r(3), of session'] lim
    by (auto simp: decide_allow_iff dest: step_allow_kind)
  then show ?thesis using r(1) by blast
qed

text \<open>
  An offer to allow for the session is kept: when a prompt offers a rule, the
  rule is one the grammar reads, and with it among the session's rules the same
  call is allowed, whatever other rules the session has.
\<close>

theorem offered_scope_silences:
  assumes "decide_with_session g req rs session = Ask why (Some sc)"
  shows "\<exists>r. rule_parse sc = Some r
    \<and> (\<forall>session'. r \<in> set session' \<longrightarrow> is_allow (decide_with_session g req rs session'))"
  by (rule scope_honoured[OF assms])

section \<open>Edits in reach\<close>

text \<open>
  In accept-edits mode, a call that is allowed because of the mode is a
  trusted edit that names at least one path, and each path it names lies, by
  whole components, inside the working directory or an additional directory, and
  is in no sensitive directory.
\<close>

theorem accepted_edit_in_reach:
  assumes "decide_with_session g req rs session = Allow (ReMode (mode_as_str ModeAcceptEdits))"
    and "is_absolute (rq_cwd req)"
  shows "tt_trusted (rq_traits req) \<and> tt_edit (rq_traits req) \<and> rq_paths req \<noteq> []
    \<and> (\<forall>p \<in> set (rq_paths req). \<not> is_sensitive p
         \<and> (\<exists>root \<in> set (rq_roots req).
              take (length (components root)) (components p) = components root))"
proof -
  have allowed: "is_allow (steps g req rs session)"
    using assms(1) decide_allow_iff[of g req rs session] by simp
  then have free: "\<not> guarded g req rs"
    using guard_steps_not_allow by blast
  have "steps g req rs session = Allow (ReMode (mode_as_str ModeAcceptEdits))"
    using assms(1) allowed
    by (auto simp: decide_with_session_def limit_by_mode_def with_scope_def is_allow_def refuse_def
        split: decision.splits if_splits)
  then have reach: "edits_within_reach req"
    using unguarded_steps[OF free, of session]
    by (cases "step_allow_rules g req session SrcSession";
        cases "step_allow_rules g req (rl_allow rs) SrcSettings"; cases "rq_mode req")
       (auto simp: step_allow_rules_def step_mode_default_def accept_edits_default_def trait_default_def
         split: if_splits)
  have "\<exists>root \<in> set (rq_roots req). take (length (components root)) (components p) = components root"
    if p: "p \<in> set (rq_paths req)" for p
  proof -
    obtain root where root: "root \<in> set (rq_roots req)" "is_within p root"
      using reach p by (auto simp: edits_within_reach_def list_all_iff list_ex_iff)
    obtain q where q: "p = path_normalize q (rq_cwd req) (rq_home req)"
      using p by (auto simp: rq_paths_def List.map_filter_def split: subject.splits)
    obtain d where d: "root = path_normalize d (rq_cwd req) (rq_home req)"
      using root(1) by (auto simp: rq_roots_def)
    have "take (length (components root)) (components p) = components root"
      using root(2) within_components[OF assms(2)] by (simp add: q d)
    then show ?thesis using root(1) by blast
  qed
  moreover have "\<forall>p \<in> set (rq_paths req). \<not> is_sensitive p"
    using free reach by (auto simp: guarded_def edits_within_reach_def)
  ultimately show ?thesis
    using reach by (auto simp: edits_within_reach_def)
qed

section \<open>Witnesses\<close>

definition sample_grammar :: grammar where
  "sample_grammar =
     \<lparr>gr_parse = \<lambda>c. Some (Node ''command'' 0 (length c) None [], False),
      gr_shlex = \<lambda>s. Some (split_whitespace s), gr_glob = \<lambda>_. None\<rparr>"

definition sample_rules :: rules where
  "sample_rules = \<lparr>rl_allow = [], rl_deny = [], rl_ask = []\<rparr>"

definition sample_request :: "string \<Rightarrow> subject list \<Rightarrow> tool_traits \<Rightarrow> mode \<Rightarrow> request" where
  "sample_request name subjects traits m =
     \<lparr>rq_call = \<lparr>cl_name = name, cl_subjects = subjects\<rparr>, rq_traits = traits, rq_confirm = None,
      rq_mode = m, rq_cwd = ''/w'', rq_home = Some ''/h'', rq_extra_dirs = []\<rparr>"

theorem no_silent_allow_witness:
  "\<not> is_allow (decide_with_session sample_grammar
     ((sample_request ''Write'' [SubjPath ''/w/.git/config''] traits_edit ModePlan)\<lparr>rq_mode := ModeBypassPermissions\<rparr>)
     (sample_rules\<lparr>rl_allow := []\<rparr>) [])"
proof -
  have "guarded sample_grammar
      (sample_request ''Write'' [SubjPath ''/w/.git/config''] traits_edit ModePlan) sample_rules"
    by (code_simp)
  from no_silent_allow[OF this] show ?thesis by blast
qed

theorem mode_ceilings_witness:
  "is_deny (decide_with_session sample_grammar
     (sample_request ''Write'' [SubjPath ''/w/a''] traits_edit ModePlan) sample_rules [])"
  using mode_ceilings[of "sample_request ''Write'' [SubjPath ''/w/a''] traits_edit ModePlan"
      sample_grammar sample_rules "[]"]
  by (simp add: sample_request_def trusted_read_only_def traits_edit_def traits_default_def)

theorem tighter_mode_allows_less_witness:
  "is_allow (decide_with_session sample_grammar
     ((sample_request ''Read'' [] traits_read_only ModePlan)\<lparr>rq_mode := ModeBypassPermissions\<rparr>) sample_rules [])"
proof (rule tighter_mode_allows_less)
  show "tightens ModePlan ModeBypassPermissions" by code_simp
  show "is_allow (decide_with_session sample_grammar
     ((sample_request ''Read'' [] traits_read_only ModePlan)\<lparr>rq_mode := ModePlan\<rparr>) sample_rules [])"
    by code_simp
qed

theorem offered_scope_silences_witness:
  "\<exists>r. rule_parse ''Publish'' = Some r
     \<and> is_allow (decide_with_session sample_grammar
         (sample_request ''Publish'' [] traits_default ModeDefault) sample_rules [r])"
proof -
  have "decide_with_session sample_grammar
      (sample_request ''Publish'' [] traits_default ModeDefault) sample_rules []
      = Ask ReDefault (Some ''Publish'')"
    by code_simp
  from offered_scope_silences[OF this] show ?thesis by auto
qed

theorem accepted_edit_in_reach_witness:
  "rq_paths (sample_request ''Write'' [SubjPath ''b/../a''] traits_edit ModeAcceptEdits) \<noteq> []"
proof -
  have "decide_with_session sample_grammar
      (sample_request ''Write'' [SubjPath ''b/../a''] traits_edit ModeAcceptEdits) sample_rules []
      = Allow (ReMode (mode_as_str ModeAcceptEdits))"
    by code_simp
  moreover have "is_absolute (rq_cwd (sample_request ''Write'' [SubjPath ''b/../a''] traits_edit ModeAcceptEdits))"
    by code_simp
  ultimately show ?thesis
    using accepted_edit_in_reach by blast
qed

end
