(* ===== verification/Perm_Session.thy ===== *)
theory Perm_Session
  imports Perm_Decide
begin

text \<open>
  What a person decided for one session (\<open>bingo-permissions/src/session.rs\<close>),
  the policy the gate asks (\<open>PermissionsPolicy\<close> of \<open>lib.rs\<close>) and the
  \<open>/permission\<close> command (\<open>command.rs\<close>).

  The table stands behind a mutex; \<open>sn_poisoned\<close> says that a panic broke it,
  after which every access takes the branch the source takes on a failed lock.
\<close>

section \<open>The table of answers\<close>

record decided =
  dc_rules :: "rule list"
  dc_mode :: "mode option"

definition decided_default :: decided where
  "decided_default = \<lparr>dc_rules = [], dc_mode = None\<rparr>"

record sessions =
  sn_poisoned :: bool
  sn_by_session :: "(session_id, decided) mapping"

definition sessions_default :: sessions where
  "sessions_default = \<lparr>sn_poisoned = False, sn_by_session = Mapping.empty\<rparr>"

definition sn_entry :: "sessions \<Rightarrow> session_id \<Rightarrow> decided" where
  "sn_entry ss s = unwrap_or (Mapping.lookup (sn_by_session ss) s) decided_default"

definition sn_put :: "sessions \<Rightarrow> session_id \<Rightarrow> decided \<Rightarrow> sessions" where
  "sn_put ss s d = ss\<lparr>sn_by_session := Mapping.update s d (sn_by_session ss)\<rparr>"

definition install :: "sessions \<Rightarrow> session_id \<Rightarrow> string \<Rightarrow> sessions \<times> bool" where
  "install ss s raw =
     (case rule_parse raw of
        None \<Rightarrow> (ss, False)
      | Some r \<Rightarrow>
          if sn_poisoned ss then (ss, False)
          else (let d = sn_entry ss s;
                    rs = (if r \<in> set (dc_rules d) then dc_rules d else dc_rules d @ [r])
                in (sn_put ss s (d\<lparr>dc_rules := rs\<rparr>), True)))"

definition forget :: "sessions \<Rightarrow> session_id \<Rightarrow> string \<Rightarrow> sessions \<times> bool" where
  "forget ss s raw =
     (if sn_poisoned ss then (ss, False)
      else (case Mapping.lookup (sn_by_session ss) s of
          None \<Rightarrow> (ss, False)
        | Some d \<Rightarrow>
            (let rs = filter (\<lambda>r. ru_raw r \<noteq> raw) (dc_rules d)
             in (sn_put ss s (d\<lparr>dc_rules := rs\<rparr>), length (dc_rules d) \<noteq> length rs))))"

definition sn_read :: "sessions \<Rightarrow> session_id \<Rightarrow> decided option" where
  "sn_read ss s = (if sn_poisoned ss then None else Mapping.lookup (sn_by_session ss) s)"

definition session_rules :: "sessions \<Rightarrow> session_id \<Rightarrow> rule list" where
  "session_rules ss s = unwrap_or (map_option dc_rules (sn_read ss s)) []"

definition session_mode :: "sessions \<Rightarrow> session_id \<Rightarrow> mode option" where
  "session_mode ss s = Option.bind (sn_read ss s) dc_mode"

definition choose_mode :: "sessions \<Rightarrow> session_id \<Rightarrow> mode \<Rightarrow> sessions" where
  "choose_mode ss s m =
     (if sn_poisoned ss then ss else sn_put ss s ((sn_entry ss s)\<lparr>dc_mode := Some m\<rparr>))"

text \<open>
  The entry is made (empty) even when the change is refused, as
  \<open>entry().or_default()\<close> does.
\<close>

definition change_mode ::
  "sessions \<Rightarrow> session_id \<Rightarrow> mode \<Rightarrow> mode \<Rightarrow> bool \<Rightarrow> sessions \<times> bool" where
  "change_mode ss s configured m asked_for =
     (if sn_poisoned ss then (ss, False)
      else (let d = sn_entry ss s in
        if \<not> asked_for \<and> \<not> tightens m (unwrap_or (dc_mode d) configured)
        then (sn_put ss s d, False)
        else (sn_put ss s (d\<lparr>dc_mode := Some m\<rparr>), True)))"

section \<open>The policy\<close>

record permissions =
  pm_default_mode :: "mode option"
  pm_allow :: "string list"
  pm_deny :: "string list"
  pm_ask :: "string list"
  pm_additional_directories :: "string list"

record policy =
  po_mode :: mode
  po_rules :: rules
  po_extra_dirs :: "string list"
  po_home :: "string option"
  po_sessions :: sessions

record policy_input =
  pi_call :: tool_call
  pi_subjects :: "subject list"
  pi_traits :: tool_traits
  pi_confirm :: "string option"
  pi_session :: session_id
  pi_cwd :: string

text \<open>A line the grammar cannot read stops the plugin; the error carries the line.\<close>

fun parse_table :: "string list \<Rightarrow> string + rule list" where
  "parse_table [] = Inr []"
| "parse_table (line # rest) =
     (case rule_parse line of
        None \<Rightarrow> Inl (''unreadable permission rule: '' @ line)
      | Some r \<Rightarrow> (case parse_table rest of Inl e \<Rightarrow> Inl e | Inr rs \<Rightarrow> Inr (r # rs)))"

definition policy_new :: "permissions \<Rightarrow> string option \<Rightarrow> string + policy" where
  "policy_new settings home =
     (case parse_table (pm_allow settings) of
        Inl e \<Rightarrow> Inl e
      | Inr allow \<Rightarrow>
          (case parse_table (pm_deny settings) of
             Inl e \<Rightarrow> Inl e
           | Inr deny \<Rightarrow>
               (case parse_table (pm_ask settings) of
                  Inl e \<Rightarrow> Inl e
                | Inr ask \<Rightarrow> Inr
                    \<lparr>po_mode = unwrap_or (pm_default_mode settings) ModeDefault,
                     po_rules = \<lparr>rl_allow = allow, rl_deny = deny, rl_ask = ask\<rparr>,
                     po_extra_dirs = pm_additional_directories settings, po_home = home,
                     po_sessions = sessions_default\<rparr>)))"

definition mode_for :: "policy \<Rightarrow> session_id \<Rightarrow> mode" where
  "mode_for p s = unwrap_or (session_mode (po_sessions p) s) (po_mode p)"

definition policy_request :: "policy \<Rightarrow> policy_input \<Rightarrow> request" where
  "policy_request p i =
     \<lparr>rq_call = \<lparr>cl_name = tc_name (pi_call i), cl_subjects = pi_subjects i\<rparr>,
      rq_traits = pi_traits i, rq_confirm = pi_confirm i, rq_mode = mode_for p (pi_session i),
      rq_cwd = pi_cwd i, rq_home = po_home p, rq_extra_dirs = po_extra_dirs p\<rparr>"

definition policy_decide :: "grammar \<Rightarrow> policy \<Rightarrow> policy_input \<Rightarrow> decision" where
  "policy_decide g p i =
     decide_with_session g (policy_request p i) (po_rules p)
       (session_rules (po_sessions p) (pi_session i))"

definition policy_caution :: "grammar \<Rightarrow> policy_input \<Rightarrow> caution option" where
  "policy_caution g i = subjects_caution g (pi_subjects i)"

definition policy_stance :: "policy \<Rightarrow> session_id \<Rightarrow> stance" where
  "policy_stance p s = mode_stance (mode_for p s)"

definition is_json_string :: "json \<Rightarrow> string \<Rightarrow> bool" where
  "is_json_string v k = (case json_get v k of Some (JString _) \<Rightarrow> True | _ \<Rightarrow> False)"

definition allows_replacement :: "policy_input \<Rightarrow> bool" where
  "allows_replacement i \<longleftrightarrow>
     tt_trusted (pi_traits i)
     \<and> ((tc_name (pi_call i) = ''Bash'' \<and> is_json_string (tc_input (pi_call i)) ''command'')
        \<or> (tc_name (pi_call i) = ''Edit'' \<and> is_json_string (tc_input (pi_call i)) ''new_string''))"

definition on_verdict :: "policy \<Rightarrow> policy_input \<Rightarrow> verdict \<Rightarrow> policy" where
  "on_verdict p i v =
     (case v of
        VerdictAllow (Some raw) \<Rightarrow>
          p\<lparr>po_sessions := fst (install (po_sessions p) (pi_session i) raw)\<rparr>
      | _ \<Rightarrow> p)"

section \<open>The command\<close>

datatype permission_outcome = OutcomeSurface | OutcomeApplied string

definition permission_run ::
  "policy \<Rightarrow> session_id \<Rightarrow> string \<Rightarrow> bool \<Rightarrow> policy \<times> (kernel_error + permission_outcome)" where
  "permission_run p s args asked_for =
     (let asked = trim args in
      if asked = [] then (p, Inr OutcomeSurface)
      else (case strip_prefix asked ''forget '' of
          Some rest \<Rightarrow>
            (let raw = trim rest; (ss, gone) = forget (po_sessions p) s raw;
                 p' = p\<lparr>po_sessions := ss\<rparr>
             in if \<not> gone
                then (p', Inl (kernel_error_new ErrInvalidInput (''no session rule: '' @ raw)))
                else (p', Inr (OutcomeApplied (''forgot: '' @ raw @ [CHR 0x20, CHR 0xB7, CHR 0x20] @ ''asks again''))))
        | None \<Rightarrow>
            (case mode_from_str asked of
               None \<Rightarrow> (p, Inl (kernel_error_new ErrInvalidInput
                  (''unknown permission mode: '' @ asked
                   @ '' (expected default|acceptEdits|plan|bypassPermissions|dontAsk)'')))
             | Some m \<Rightarrow>
                 (let (ss, changed) = change_mode (po_sessions p) s (po_mode p) m asked_for;
                      p' = p\<lparr>po_sessions := ss\<rparr>
                  in if \<not> changed
                     then (p', Inl (kernel_error_new ErrPermissionDenied
                       (''only the person'' @ [CHR 0x27] @ ''s own command may widen the permission mode'')))
                     else (p', Inr (OutcomeApplied
                       (''permission mode: '' @ mode_label (mode_for p' s))))))))"

section \<open>The contract of the table\<close>

text \<open>
  What the policy relies on: an installed rule is among the session's rules, no
  answer of one session is heard in another, and an unasked change of mode only
  tightens the mode in force.
\<close>

locale answer_table =
  fixes put :: "'st \<Rightarrow> 'k \<Rightarrow> string \<Rightarrow> 'st \<times> bool"
    and table :: "'st \<Rightarrow> 'k \<Rightarrow> rule list"
    and chosen :: "'st \<Rightarrow> 'k \<Rightarrow> mode option"
    and move :: "'st \<Rightarrow> 'k \<Rightarrow> mode \<Rightarrow> mode \<Rightarrow> bool \<Rightarrow> 'st \<times> bool"
  assumes put_installs:
      "snd (put st k raw) \<Longrightarrow> \<exists>r. rule_parse raw = Some r \<and> r \<in> set (table (fst (put st k raw)) k)"
    and put_others: "k' \<noteq> k \<Longrightarrow> table (fst (put st k raw)) k' = table st k'"
    and put_mode: "chosen (fst (put st k raw)) k' = chosen st k'"
    and move_table: "table (fst (move st k conf m a)) k' = table st k'"
    and move_others: "k' \<noteq> k \<Longrightarrow> chosen (fst (move st k conf m a)) k' = chosen st k'"
    and move_unasked:
      "tightens (unwrap_or (chosen (fst (move st k conf m False)) k) conf)
         (unwrap_or (chosen st k) conf)"
begin

lemma move_unasked_any:
  "tightens (unwrap_or (chosen (fst (move st k conf m False)) k') conf) (unwrap_or (chosen st k') conf)"
  using move_unasked move_others by (cases "k' = k") simp_all

lemma moves_unasked:
  "tightens
     (unwrap_or (chosen (foldl (\<lambda>st (k, m). fst (move st k conf m False)) st kms) k') conf)
     (unwrap_or (chosen st k') conf)"
proof (induction kms arbitrary: st)
  case (Cons km kms)
  obtain k m where "km = (k, m)" by fastforce
  then show ?case
    using Cons[of "fst (move st k conf m False)"] move_unasked_any[of st k conf m k']
    by (auto intro: tightens_trans)
qed simp

end

lemma sn_read_put [simp]:
  "sn_read (sn_put ss s d) k =
     (if sn_poisoned ss then None else if k = s then Some d else Mapping.lookup (sn_by_session ss) k)"
  by (simp add: sn_read_def sn_put_def)

lemma sn_read_entry: "\<not> sn_poisoned ss \<Longrightarrow>
    unwrap_or (map_option dc_rules (sn_read ss s)) [] = dc_rules (sn_entry ss s)
    \<and> Option.bind (sn_read ss s) dc_mode = dc_mode (sn_entry ss s)"
  by (cases "Mapping.lookup (sn_by_session ss) s")
     (simp_all add: sn_read_def sn_entry_def decided_default_def)

interpretation answers: answer_table install session_rules session_mode change_mode
proof
  fix st :: sessions and k k' raw conf m and a :: bool
  show "snd (install st k raw) \<Longrightarrow>
      \<exists>r. rule_parse raw = Some r \<and> r \<in> set (session_rules (fst (install st k raw)) k)"
    by (auto simp: install_def Let_def session_rules_def split: option.splits if_splits)
  show "k' \<noteq> k \<Longrightarrow> session_rules (fst (install st k raw)) k' = session_rules st k'"
    by (auto simp: install_def Let_def session_rules_def sn_read_def[of st] split: option.splits if_splits)
  show "session_mode (fst (install st k raw)) k' = session_mode st k'"
    using sn_read_entry[of st k]
    by (auto simp: install_def Let_def session_mode_def sn_read_def[of st] split: option.splits if_splits)
  show "session_rules (fst (change_mode st k conf m a)) k' = session_rules st k'"
    using sn_read_entry[of st k]
    by (auto simp: change_mode_def Let_def session_rules_def sn_read_def[of st] split: if_splits)
  show "k' \<noteq> k \<Longrightarrow> session_mode (fst (change_mode st k conf m a)) k' = session_mode st k'"
    by (auto simp: change_mode_def Let_def session_mode_def sn_read_def[of st] split: if_splits)
  show "tightens (unwrap_or (session_mode (fst (change_mode st k conf m False)) k) conf)
      (unwrap_or (session_mode st k) conf)"
    using sn_read_entry[of st k]
    by (auto simp: change_mode_def Let_def session_mode_def sn_read_def[of st] split: if_splits)
qed

section \<open>What a verdict does\<close>

text \<open>
  Accepting the rule a prompt offered silences that prompt for the session:
  the next time the same call is asked about it is allowed; and no other session
  hears of it.
\<close>

theorem accepted_scope_is_kept:
  assumes "policy_decide g p i = Ask why (Some sc)" "\<not> sn_poisoned (po_sessions p)"
  shows "is_allow (policy_decide g (on_verdict p i (VerdictAllow (Some sc))) i)
    \<and> (pi_session j \<noteq> pi_session i \<longrightarrow>
         policy_decide g (on_verdict p i (VerdictAllow (Some sc))) j = policy_decide g p j)"
proof -
  let ?p = "on_verdict p i (VerdictAllow (Some sc))"
  let ?ss = "fst (install (po_sessions p) (pi_session i) sc)"
  obtain r where r: "rule_parse sc = Some r"
      "\<forall>session'. r \<in> set session' \<longrightarrow>
         is_allow (decide_with_session g (policy_request p i) (po_rules p) session')"
    using scope_honoured assms(1) unfolding policy_decide_def by blast
  have ok: "snd (install (po_sessions p) (pi_session i) sc)"
    using r(1) assms(2) by (simp add: install_def Let_def)
  then have mem: "r \<in> set (session_rules ?ss (pi_session i))"
    using answers.put_installs[OF ok] r(1) by auto
  have same: "policy_request ?p k = policy_request p k" for k
    by (simp add: policy_request_def mode_for_def on_verdict_def answers.put_mode)
  then show ?thesis
    using r(2) mem
    by (auto simp: policy_decide_def on_verdict_def answers.put_others)
qed

section \<open>Commands that are not the person's own\<close>

lemma session_rules_mono:
  assumes "set s1 \<subseteq> set s2" "is_allow (decide_with_session g req rs s1)"
  shows "is_allow (decide_with_session g req rs s2)"
proof -
  have free: "\<not> guarded g req rs"
    using assms(2) guard_steps_not_allow[of g req rs s1] by (auto simp: decide_allow_iff)
  have hit: "step_allow_rules g req s2 SrcSession \<noteq> None" if "step_allow_rules g req s1 SrcSession \<noteq> None"
    using that assms(1) by (auto simp: step_allow_rules_def first_match_def find_None_ball)
  show ?thesis
    using assms(2) unguarded_steps[OF free, of s1] unguarded_steps[OF free, of s2] hit
    by (cases "step_allow_rules g req s1 SrcSession"; cases "step_allow_rules g req s2 SrcSession")
       (auto simp: decide_allow_iff dest: step_allow_kind split: if_splits)
qed

text \<open>One policy grants no more than another, to any session.\<close>

definition stricter :: "policy \<Rightarrow> policy \<Rightarrow> bool" where
  "stricter p' p \<longleftrightarrow>
     po_mode p' = po_mode p \<and> po_rules p' = po_rules p \<and> po_extra_dirs p' = po_extra_dirs p
     \<and> po_home p' = po_home p
     \<and> (\<forall>k. set (session_rules (po_sessions p') k) \<subseteq> set (session_rules (po_sessions p) k)
          \<and> tightens (mode_for p' k) (mode_for p k))"

lemma stricter_refl [simp]: "stricter p p"
  by (simp add: stricter_def)

lemma stricter_trans: "stricter a b \<Longrightarrow> stricter b c \<Longrightarrow> stricter a c"
  by (auto simp: stricter_def intro: tightens_trans)

lemma stricter_allow:
  assumes "stricter p' p" "is_allow (policy_decide g p' i)"
  shows "is_allow (policy_decide g p i)"
proof -
  let ?k = "pi_session i"
  have req: "policy_request p' i = (policy_request p i)\<lparr>rq_mode := mode_for p' ?k\<rparr>"
    using assms(1) by (simp add: policy_request_def stricter_def)
  have "is_allow (decide_with_session g ((policy_request p i)\<lparr>rq_mode := mode_for p' ?k\<rparr>) (po_rules p)
      (session_rules (po_sessions p) ?k))"
  proof (rule session_rules_mono)
    show "set (session_rules (po_sessions p') ?k) \<subseteq> set (session_rules (po_sessions p) ?k)"
      using assms(1) by (simp add: stricter_def)
    show "is_allow (decide_with_session g ((policy_request p i)\<lparr>rq_mode := mode_for p' ?k\<rparr>) (po_rules p)
        (session_rules (po_sessions p') ?k))"
      using assms unfolding policy_decide_def req by (simp add: stricter_def)
  qed
  then have "is_allow (decide_with_session g ((policy_request p i)\<lparr>rq_mode := mode_for p ?k\<rparr>) (po_rules p)
      (session_rules (po_sessions p) ?k))"
    by (rule tighter_allows[rotated]) (use assms(1) in \<open>simp add: stricter_def\<close>)
  then show ?thesis
    by (simp add: policy_decide_def policy_request_def)
qed

lemma forget_stricter:
  "stricter (p\<lparr>po_sessions := fst (forget (po_sessions p) s raw)\<rparr>) p"
  by (auto simp: stricter_def forget_def Let_def session_rules_def mode_for_def session_mode_def
      sn_read_def[of "po_sessions p"] unwrap_or_def split: option.splits if_splits)

lemma change_stricter:
  "stricter (p\<lparr>po_sessions := fst (change_mode (po_sessions p) s (po_mode p) m False)\<rparr>) p"
  by (simp add: stricter_def mode_for_def answers.move_table answers.move_unasked_any)

lemma permission_run_stricter: "stricter (fst (permission_run p s args False)) p"
  using forget_stricter[of p s] change_stricter[of p s]
  by (auto simp: permission_run_def Let_def split: option.splits prod.splits)
     (metis fst_conv)+

text \<open>
  C39: no sequence of \<open>/permission\<close> lines that are not the person's own, whoever
  sends them and to whichever sessions, makes the policy allow a call it did not
  allow before.
\<close>

theorem unasked_commands_never_widen:
  assumes "is_allow (policy_decide g
    (foldl (\<lambda>p (s, args). fst (permission_run p s args False)) p said) i)"
  shows "is_allow (policy_decide g p i)"
proof -
  have "stricter (foldl (\<lambda>p (s, args). fst (permission_run p s args False)) p ls) p" for ls
  proof (induction ls arbitrary: p)
    case (Cons l ls)
    obtain s args where "l = (s, args)" by fastforce
    then show ?case
      using Cons[of "fst (permission_run p s args False)"] permission_run_stricter[of p s args]
      by (auto intro: stricter_trans)
  qed simp
  then show ?thesis
    using stricter_allow assms by blast
qed

section \<open>Witnesses\<close>

definition sample_policy :: policy where
  "sample_policy =
     \<lparr>po_mode = ModeDefault, po_rules = sample_rules, po_extra_dirs = [], po_home = None,
      po_sessions = sessions_default\<rparr>"

definition sample_input :: "string \<Rightarrow> string \<Rightarrow> tool_traits \<Rightarrow> policy_input" where
  "sample_input name s traits =
     \<lparr>pi_call = \<lparr>tc_call_id = ''c'', tc_name = name, tc_input = JNull\<rparr>, pi_subjects = [],
      pi_traits = traits, pi_confirm = None, pi_session = s, pi_cwd = ''/w''\<rparr>"

theorem accepted_scope_is_kept_witness:
  "is_allow (policy_decide sample_grammar
     (on_verdict sample_policy (sample_input ''Publish'' ''s'' traits_default) (VerdictAllow (Some ''Publish'')))
     (sample_input ''Publish'' ''s'' traits_default))"
proof -
  have "policy_decide sample_grammar sample_policy (sample_input ''Publish'' ''s'' traits_default)
      = Ask ReDefault (Some ''Publish'')"
    by code_simp
  moreover have "\<not> sn_poisoned (po_sessions sample_policy)"
    by code_simp
  ultimately show ?thesis
    using accepted_scope_is_kept by blast
qed

theorem unasked_commands_never_widen_witness:
  "is_allow (policy_decide sample_grammar sample_policy (sample_input ''Read'' ''s'' traits_read_only))"
proof (rule unasked_commands_never_widen)
  show "is_allow (policy_decide sample_grammar
      (foldl (\<lambda>p (s, args). fst (permission_run p s args False)) sample_policy [(''s'', ''plan''), (''t'', ''dontAsk'')])
      (sample_input ''Read'' ''s'' traits_read_only))"
    by code_simp
qed

end
