(* ===== verification/Core_Gate.thy ===== *)
theory Core_Gate
  imports Core_Chain Core_Actor Perm_Session
begin

text \<open>
  The permission gate of a tool call (\<open>bingo-core/src/gate.rs\<close>, \<open>gate/prompt.rs\<close>, and
  \<open>check_kernel\<close> of \<open>chain/tool.rs\<close>): the hooks, then the one policy, then a person
  when the answer is to ask.  The links around the check are those of \<open>Core_Chain\<close>.
  A person may change the input of a call; what comes of it is checked again, as often
  as they do, so the loop may go on for ever and its result is an option.
\<close>

section \<open>Interfaces\<close>

text \<open>What the gate asks of a tool, a hook, the policy and the person.\<close>

record gate_tool =
  gt_name :: string
  gt_traits :: "json \<Rightarrow> tool_traits"
  gt_subjects :: "json \<Rightarrow> string \<Rightarrow> subject list"
  gt_confirm :: "json \<Rightarrow> string option"
  gt_preview :: "json \<Rightarrow> string \<Rightarrow> Sdk_Event.preview option"

datatype hook_point = HpSubmit | HpBeforeTool | HpAfterTool | HpStop | HpTurn | HpCompact | HpSession | HpEvent

record hook_matcher =
  hm_points :: "hook_point list"
  hm_tool :: "string option"

datatype hook_outcome =
    HkContinue
  | HkDeny string
  | HkAsk string
  | HkBlock string
  | HkRedirect session_id

record gate_hook =
  gh_id :: string
  gh_matcher :: hook_matcher
  gh_before :: "tool_call \<Rightarrow> hook_outcome \<times> tool_call"

record gate_policy =
  gp_decide :: "policy_input \<Rightarrow> decision"
  gp_caution :: "policy_input \<Rightarrow> caution option"
  gp_replaces :: "policy_input \<Rightarrow> bool"

text \<open>
  What a gate is given.  Hooks, links and policy may change while a person thinks, so
  they are indexed by the round of checking; the person answers the asks in order.
\<close>

record gate_input =
  gi_session :: session_id
  gi_cwd :: string
  gi_item :: item_id
  gi_call :: tool_call
  gi_tool :: "gate_tool option"
  gi_policy :: "nat \<Rightarrow> gate_policy"
  gi_hooks :: "nat \<Rightarrow> gate_hook list"
  gi_links :: "nat \<Rightarrow> (tool_call, check_result) link list"

type_synonym gate_person = "nat \<Rightarrow> interaction_kind \<Rightarrow> answer_spec list \<Rightarrow> kernel_error + gate_answered"

section \<open>With no policy\<close>

definition default_policy :: gate_policy where
  "default_policy =
     \<lparr>gp_decide = (\<lambda>i. if tt_trusted (pi_traits i) \<and> tt_read_only (pi_traits i) \<and> pi_confirm i = None
         then Allow ReReadOnly else Ask ReDefault None),
      gp_caution = (\<lambda>_. None), gp_replaces = (\<lambda>_. False)\<rparr>"

section \<open>The check\<close>

definition hook_applies :: "hook_matcher \<Rightarrow> hook_point \<Rightarrow> string option \<Rightarrow> bool" where
  "hook_applies mt pnt tool =
     (if hm_points mt \<noteq> [] \<and> pnt \<notin> set (hm_points mt) then False
      else (case (hm_tool mt, tool) of
          (None, _) \<Rightarrow> True
        | (Some _, None) \<Rightarrow> False
        | (Some pattern, Some name) \<Rightarrow>
            (case strip_suffix ''*'' pattern of
               Some start \<Rightarrow> starts_with start name
             | None \<Rightarrow> pattern = name)))"

datatype hook_verdict = HvContinue | HvAsk string | HvRefused string

text \<open>The hooks that claim the call, chosen by its name before any of them ran; the first that objects decides.\<close>

fun run_hooks :: "gate_hook list \<Rightarrow> tool_call \<Rightarrow> hook_verdict \<times> tool_call" where
  "run_hooks [] call = (HvContinue, call)"
| "run_hooks (h # hs) call =
     (case gh_before h call of
        (HkDeny r, c) \<Rightarrow> (HvRefused (''Denied by hook '' @ gh_id h @ '': '' @ r), c)
      | (HkBlock r, c) \<Rightarrow> (HvRefused (''Denied by hook '' @ gh_id h @ '': '' @ r), c)
      | (HkAsk r, c) \<Rightarrow> (HvAsk r, c)
      | (HkContinue, c) \<Rightarrow> run_hooks hs c
      | (HkRedirect _, c) \<Rightarrow> run_hooks hs c)"

definition policy_question :: "gate_input \<Rightarrow> gate_tool \<Rightarrow> tool_call \<Rightarrow> string option \<Rightarrow> policy_input" where
  "policy_question g tool call confirm =
     \<lparr>pi_call = call, pi_subjects = gt_subjects tool (tc_input call) (gi_cwd g),
      pi_traits = gt_traits tool (tc_input call), pi_confirm = confirm, pi_session = gi_session g,
      pi_cwd = gi_cwd g\<rparr>"

definition check_kernel :: "gate_input \<Rightarrow> nat \<Rightarrow> tool_call \<Rightarrow> kernel_error + check_result" where
  "check_kernel g n call =
     (case run_hooks (filter (\<lambda>h. hook_applies (gh_matcher h) HpBeforeTool (Some (tc_name call))) (gi_hooks g n)) call of
        (HvRefused m, c) \<Rightarrow> Inr \<lparr>cr_call = c, cr_decision = Deny (ReHook m)\<rparr>
      | (hv, c) \<Rightarrow>
          (let forced = (case hv of HvAsk r \<Rightarrow> Some r | _ \<Rightarrow> None) in
           case gi_tool g of
             None \<Rightarrow> Inr \<lparr>cr_call = c, cr_decision = Deny ReDefault\<rparr>
           | Some tool \<Rightarrow>
               (let confirm = (case gt_confirm tool (tc_input c) of Some d \<Rightarrow> Some d | None \<Rightarrow> forced);
                    d = gp_decide (gi_policy g n) (policy_question g tool c confirm)
                in Inr \<lparr>cr_call = c, cr_decision =
                     (case (d, confirm) of
                        (Deny r, _) \<Rightarrow> Deny r
                      | (Ask _ scope, Some detail) \<Rightarrow> Ask (ReConfirm detail) scope
                      | (Allow _, Some detail) \<Rightarrow> Ask (ReConfirm detail) None
                      | (d', None) \<Rightarrow> d')\<rparr>)))"

section \<open>What a check comes to\<close>

datatype gate = GateAllowed | GateDenied string

record gated =
  gd_allowed_by :: "reason option"
  gd_notices :: "item_body list"
  gd_call :: tool_call
  gd_traits :: tool_traits
  gd_gate :: gate
  gd_receipt :: "item_body option"

definition gated_allowed :: "tool_call \<Rightarrow> tool_traits \<Rightarrow> reason \<Rightarrow> gated" where
  "gated_allowed call traits r =
     \<lparr>gd_allowed_by = (case r of ReMode _ \<Rightarrow> Some r | ReRule _ _ \<Rightarrow> Some r | ReHook _ \<Rightarrow> Some r | _ \<Rightarrow> None),
      gd_notices = [], gd_call = call, gd_traits = traits, gd_gate = GateAllowed, gd_receipt = None\<rparr>"

definition gated_denied :: "tool_call \<Rightarrow> tool_traits \<Rightarrow> string \<Rightarrow> gated" where
  "gated_denied call traits message =
     \<lparr>gd_allowed_by = None, gd_notices = [], gd_call = call, gd_traits = traits,
      gd_gate = GateDenied message, gd_receipt = None\<rparr>"

definition receipt_for :: "item_id \<Rightarrow> tool_call \<Rightarrow> decision_kind \<Rightarrow> string option \<Rightarrow> gate_asked \<Rightarrow> item_body" where
  "receipt_for item call d feedback prior =
     BPermissionReceipt (if ga_held prior then None else Some (ga_opened_at prior)) (Some item) (ga_id prior)
       (tc_name call) d feedback"

record gate_waiting =
  gw_tool :: gate_tool
  gw_call :: tool_call
  gw_traits :: tool_traits
  gw_scope :: "string option"
  gw_reason :: reason
  gw_blocked :: "string option"
  gw_notices :: "item_body list"

datatype gate_decided = Settled gated | AskFirst gate_waiting

definition describe_reason :: "reason \<Rightarrow> string" where
  "describe_reason r =
     (case r of
        ReRule rule _ \<Rightarrow> ''rule '' @ rule
      | ReMode m \<Rightarrow> ''mode '' @ m
      | ReHook h \<Rightarrow> ''hook '' @ h
      | ReSafety d \<Rightarrow> ''safety: '' @ d
      | ReReadOnly \<Rightarrow> ''read-only''
      | ReConfirm d \<Rightarrow> d
      | ReDefault \<Rightarrow> ''default'')"

definition tool_not_found :: "string \<Rightarrow> string" where
  "tool_not_found name = ''tool not found: '' @ name"

definition resolve_check :: "gate_input \<Rightarrow> bool \<Rightarrow> check_result \<Rightarrow> gate_decided" where
  "resolve_check g changed r =
     (let call = cr_call r in
      case gi_tool g of
        None \<Rightarrow>
          Settled (gated_denied call traits_default
            (case cr_decision r of Deny (ReHook h) \<Rightarrow> h | _ \<Rightarrow> tool_not_found (tc_name call)))
      | Some tool \<Rightarrow>
          (let traits = gt_traits tool (tc_input call);
               waits = (\<lambda>scope why blocked. AskFirst \<lparr>gw_tool = tool, gw_call = call, gw_traits = traits,
                 gw_scope = scope, gw_reason = why, gw_blocked = blocked, gw_notices = []\<rparr>)
           in case cr_decision r of
                Allow why \<Rightarrow>
                  Settled ((gated_allowed call traits why)\<lparr>gd_allowed_by :=
                    (if changed then None else gd_allowed_by (gated_allowed call traits why))\<rparr>)
              | Deny why \<Rightarrow>
                  (let message = (case why of ReHook h \<Rightarrow> h
                       | _ \<Rightarrow> ''Permission denied ('' @ describe_reason why @ '')'')
                   in if \<not> changed then Settled (gated_denied call traits message)
                      else waits None why (Some message))
              | Ask why scope \<Rightarrow> waits scope why None))"

definition gate_check :: "gate_input \<Rightarrow> nat \<Rightarrow> tool_call \<Rightarrow> bool \<Rightarrow> gate_decided" where
  "gate_check g n call changed =
     (case run_at check_point (gi_links g n) (check_kernel g n) call of
        (r, notices) \<Rightarrow>
          (case (case r of
              Inr checked \<Rightarrow> resolve_check g changed checked
            | Inl e \<Rightarrow> Settled (gated_denied call traits_default (ke_message e))) of
             Settled gd \<Rightarrow> Settled (gd\<lparr>gd_notices := notices\<rparr>)
           | AskFirst w \<Rightarrow> AskFirst (w\<lparr>gw_notices := notices\<rparr>)))"

section \<open>Asking\<close>

definition subject_text :: "subject \<Rightarrow> string" where
  "subject_text s = (case s of SubjPath p \<Rightarrow> p | SubjCommand c \<Rightarrow> c | SubjUrl u \<Rightarrow> u | SubjName n \<Rightarrow> n)"

text \<open>The JSON text of an input is a parameter.\<close>

definition summarize :: "(json \<Rightarrow> string) \<Rightarrow> tool_call \<Rightarrow> subject list \<Rightarrow> string" where
  "summarize jtext call subjects =
     (let target = (if subjects = [] then jtext (tc_input call) else join_with '' '' (map subject_text subjects))
      in tc_name call @ '' '' @ take 120 (join_with '' '' (split_whitespace target)))"

definition gate_answers :: "bool \<Rightarrow> bool \<Rightarrow> bool \<Rightarrow> answer_spec list" where
  "gate_answers editable scoped blocked =
     (if blocked then [] else [SpAllowOnce]) @ (if scoped then [SpAllowSession] else []) @ [SpDeny]
     @ (if editable then [SpAllowChanged] else [])"

datatype gate_reply =
    ReplyChanged json
  | ReplyDecided gate decision_kind "string option"

definition reply_denied :: "string option \<Rightarrow> gate_reply" where
  "reply_denied feedback =
     ReplyDecided (GateDenied (''Permission denied by the user''
       @ (case feedback of Some f \<Rightarrow> '': '' @ f | None \<Rightarrow> []))) DkDeny feedback"

text \<open>What is shown to the person.\<close>

definition ask_caution :: "gate_policy \<Rightarrow> policy_input \<Rightarrow> caution option" where
  "ask_caution pol i =
     (case gp_caution pol i of
        Some c \<Rightarrow> Some c
      | None \<Rightarrow> if tt_destructive (pi_traits i)
               then Some \<lparr>ca_reason = ''this call can irreversibly destroy data'', ca_act = None\<rparr> else None)"

definition ask_kind ::
  "(json \<Rightarrow> string) \<Rightarrow> gate_tool \<Rightarrow> policy_input \<Rightarrow> string option \<Rightarrow> string option \<Rightarrow> caution option \<Rightarrow> interaction_kind" where
  "ask_kind jtext tool i scope blocked caution =
     KPermission (tc_name (pi_call i)) (tc_input (pi_call i))
       (case blocked of Some b \<Rightarrow> b
        | None \<Rightarrow> (case pi_confirm i of Some c \<Rightarrow> c | None \<Rightarrow> summarize jtext (pi_call i) (pi_subjects i)))
       (gt_preview tool (tc_input (pi_call i)) (pi_cwd i)) scope
       (case blocked of Some b \<Rightarrow> Some \<lparr>ca_reason = b, ca_act = None\<rparr> | None \<Rightarrow> caution)"

text \<open>
  \<open>ask_person\<close>; the last component is the verdict the policy is told, if there is one.
\<close>

definition ask_person ::
  "(json \<Rightarrow> string) \<Rightarrow> gate_person \<Rightarrow> nat \<Rightarrow> gate_policy \<Rightarrow> gate_tool \<Rightarrow> policy_input \<Rightarrow>
   string option \<Rightarrow> string option \<Rightarrow> (kernel_error + gate_reply \<times> gate_asked) \<times> verdict option" where
  "ask_person jtext person n pol tool i scope blocked =
     (let caution = ask_caution pol i;
          scope' = (if caution = None \<and> blocked = None then scope else None);
          answers = gate_answers (gp_replaces pol i) (scope' \<noteq> None) (blocked \<noteq> None)
      in case person n (ask_kind jtext tool i scope' blocked caution) answers of
           Inl e \<Rightarrow> (Inl e, None)
         | Inr an \<Rightarrow>
             (let ask = gn_ask an; said = gn_answer an in
              if answer_spec_of said \<notin> set answers then (Inr (reply_denied None, ask), None)
              else (case said of
                  AnAllowChanged v \<Rightarrow> (Inr (ReplyChanged v, ask), None)
                | AnAllowOnce \<Rightarrow> (Inr (ReplyDecided GateAllowed DkAllow None, ask), None)
                | AnAllowSession requested \<Rightarrow>
                    if scope' = Some requested
                    then (Inr (ReplyDecided GateAllowed DkAllowSession None, ask), Some (VerdictAllow scope'))
                    else (Inr (reply_denied None, ask), None)
                | AnDeny feedback \<Rightarrow> (Inr (reply_denied feedback, ask), Some (VerdictDeny feedback))
                | _ \<Rightarrow> (Inr (reply_denied None, ask), None))))"

text \<open>\<open>resolve_reply\<close>: settled, or the call as the person changed it; and the ask that counts.\<close>

definition resolve_reply ::
  "tool_call \<Rightarrow> tool_traits \<Rightarrow> item_id \<Rightarrow> kernel_error + gate_reply \<times> gate_asked \<Rightarrow> gate_asked option \<Rightarrow>
   (gated + tool_call) \<times> gate_asked option" where
  "resolve_reply call traits item response prior =
     (case response of
        Inl _ \<Rightarrow> (Inl (gated_denied call traits ''Permission interaction closed''), prior)
      | Inr (reply, current0) \<Rightarrow>
          (let current = (case prior of Some first \<Rightarrow> current0\<lparr>ga_opened_at := ga_opened_at first\<rparr> | None \<Rightarrow> current0)
           in case reply of
                ReplyChanged v \<Rightarrow> (Inr (call\<lparr>tc_input := v\<rparr>), Some current)
              | ReplyDecided gate d feedback \<Rightarrow>
                  (Inl \<lparr>gd_allowed_by = None, gd_notices = [], gd_call = call, gd_traits = traits, gd_gate = gate,
                        gd_receipt = Some (receipt_for item call d feedback current)\<rparr>, Some current)))"

definition ask_waiting ::
  "(json \<Rightarrow> string) \<Rightarrow> gate_person \<Rightarrow> nat \<Rightarrow> gate_input \<Rightarrow> gate_waiting \<Rightarrow> gate_asked option \<Rightarrow>
   (gated + tool_call) \<times> gate_asked option \<times> verdict option" where
  "ask_waiting jtext person n g w prior =
     (let tool = gw_tool w; call = gw_call w;
          confirm = (case gw_reason w of ReConfirm d \<Rightarrow> Some d | _ \<Rightarrow> gt_confirm tool (tc_input call));
          i = \<lparr>pi_call = call, pi_subjects = gt_subjects tool (tc_input call) (gi_cwd g), pi_traits = gw_traits w,
               pi_confirm = confirm, pi_session = gi_session g, pi_cwd = gi_cwd g\<rparr>;
          (response, told) = ask_person jtext person n (gi_policy g n) tool i (gw_scope w) (gw_blocked w);
          (r, prior_next) = resolve_reply call (gw_traits w) (gi_item g) response prior
      in (r, prior_next, told))"

definition changed_decision :: "item_body option \<Rightarrow> decision_kind" where
  "changed_decision r =
     (case r of Some (BPermissionReceipt _ _ _ _ DkAllowSession _) \<Rightarrow> DkAllowChangedSession | _ \<Rightarrow> DkAllowChanged)"

text \<open>The end of \<open>ask\<close>: a call that was changed and allowed is receipted as such.\<close>

definition settle_asked ::
  "gate_input \<Rightarrow> bool \<Rightarrow> gate_asked option \<Rightarrow> item_body list \<Rightarrow> gated \<Rightarrow> gated" where
  "settle_asked g changed prior notices gd =
     (let gd1 = (case (changed \<and> gd_gate gd = GateAllowed, prior) of
            (True, Some a) \<Rightarrow> gd\<lparr>gd_receipt := Some (receipt_for (gi_item g) (gd_call gd)
                 (changed_decision (gd_receipt gd)) None a)\<rparr>
          | _ \<Rightarrow> gd)
      in gd1\<lparr>gd_notices := notices @ gd_notices gd\<rparr>)"

text \<open>The loop of \<open>ask\<close>, in round \<open>n\<close> of checking; the verdicts told to the policy come with the result.\<close>

partial_function (option) gate_ask ::
  "(json \<Rightarrow> string) \<Rightarrow> gate_person \<Rightarrow> gate_input \<Rightarrow> nat \<Rightarrow> bool \<Rightarrow> gate_asked option \<Rightarrow> item_body list \<Rightarrow>
   gate_decided \<Rightarrow> (gated \<times> verdict option) option" where
  "gate_ask jtext person g n changed prior notices decided =
     (case decided of
        Settled gd \<Rightarrow> Some (settle_asked g changed prior notices gd, None)
      | AskFirst w \<Rightarrow>
          (case ask_waiting jtext person n g w prior of
             (r, prior_next, told) \<Rightarrow>
               (case r of
                  Inl gd \<Rightarrow> Some (settle_asked g changed prior_next (notices @ gw_notices w) gd, told)
                | Inr call \<Rightarrow>
                    gate_ask jtext person g (Suc n) True prior_next (notices @ gw_notices w)
                      (gate_check g (Suc n) call True))))"

declare gate_ask.simps [code]

definition gate_call :: "(json \<Rightarrow> string) \<Rightarrow> gate_person \<Rightarrow> gate_input \<Rightarrow> (gated \<times> verdict option) option" where
  "gate_call jtext person g = gate_ask jtext person g 0 False None [] (gate_check g 0 (gi_call g) False)"

section \<open>What the policy said\<close>

text \<open>The policy was asked about a call the gate takes for this one, and did not deny it.\<close>

definition policy_stood :: "gate_input \<Rightarrow> nat \<Rightarrow> gate_tool \<Rightarrow> tool_call \<Rightarrow> bool \<Rightarrow> bool" where
  "policy_stood g n tool call allowed \<longleftrightarrow>
     (\<exists>c confirm. same_call c call
        \<and> \<not> denies (gp_decide (gi_policy g n) (policy_question g tool c confirm))
        \<and> (allowed \<longrightarrow> confirm = None \<and> gt_confirm tool (tc_input c) = None
             \<and> is_allow (gp_decide (gi_policy g n) (policy_question g tool c None))))"

lemma check_kernel_stood:
  assumes "check_kernel g n x = Inr r" "\<not> denies (cr_decision r)"
  obtains tool where "gi_tool g = Some tool" "policy_stood g n tool (cr_call r) (is_allow (cr_decision r))"
proof -
  obtain hv c where h: "run_hooks (filter (\<lambda>h. hook_applies (gh_matcher h) HpBeforeTool (Some (tc_name x))) (gi_hooks g n)) x
      = (hv, c)"
    by force
  then obtain tool where tool: "gi_tool g = Some tool"
    using assms by (auto simp: check_kernel_def denies_def Let_def split: hook_verdict.splits option.splits)
  define forced where "forced = (case hv of HvAsk m \<Rightarrow> Some m | _ \<Rightarrow> None)"
  define confirm where "confirm = (case gt_confirm tool (tc_input c) of Some d \<Rightarrow> Some d | None \<Rightarrow> forced)"
  define d where "d = gp_decide (gi_policy g n) (policy_question g tool c confirm)"
  have "\<forall>m. hv \<noteq> HvRefused m"
    using assms h by (auto simp: check_kernel_def denies_def)
  then have r: "cr_call r = c"
    "cr_decision r = (case (d, confirm) of (Deny r, _) \<Rightarrow> Deny r
       | (Ask _ scope, Some detail) \<Rightarrow> Ask (ReConfirm detail) scope
       | (Allow _, Some detail) \<Rightarrow> Ask (ReConfirm detail) None
       | (d', None) \<Rightarrow> d')"
    using assms(1) h tool unfolding d_def confirm_def forced_def
    by (auto simp: check_kernel_def Let_def split: hook_verdict.splits)
  have "\<not> denies d"
    using assms(2) r(2) by (auto simp: denies_def split: decision.splits option.splits)
  moreover have "confirm = None \<and> is_allow d" if "is_allow (cr_decision r)"
    using that r(2) by (auto split: decision.splits option.splits)
  moreover have "gt_confirm tool (tc_input c) = None" if "confirm = None"
    using that by (auto simp: confirm_def split: option.splits)
  ultimately have "policy_stood g n tool (cr_call r) (is_allow (cr_decision r))"
    unfolding policy_stood_def r(1) d_def by (intro exI[of _ c] exI[of _ confirm]) (auto simp: same_call_def)
  with tool show thesis
    by (rule that)
qed

lemma policy_stood_same: "policy_stood g n tool c a \<Longrightarrow> same_call c d \<Longrightarrow> (b \<Longrightarrow> a) \<Longrightarrow> policy_stood g n tool d b"
  unfolding policy_stood_def using same_call_trans by blast

lemma checked_stood:
  assumes "\<forall>l \<in> set (gi_links g n). lk_tier l < TierFull"
    and "fst (run_at check_point (gi_links g n) (check_kernel g n) x) = Inr r" "\<not> denies (cr_decision r)"
  obtains tool where "gi_tool g = Some tool" "policy_stood g n tool (cr_call r) (is_allow (cr_decision r))"
proof -
  obtain y b where b: "check_kernel g n y = Inr b" "same_call (cr_call b) (cr_call r)"
      "decision_tightens (cr_decision b) (cr_decision r)"
    using checks.run_from[OF assms(1,2)] assms(3) by (auto simp: checks.from_kernel_def)
  then have nd: "\<not> denies (cr_decision b)" and al: "is_allow (cr_decision r) \<Longrightarrow> is_allow (cr_decision b)"
    using assms(3) by (auto simp: denies_def decision_tightens_def decision_rank_def is_allow_def split: decision.splits)
  show thesis
    using check_kernel_stood[OF b(1) nd] policy_stood_same[OF _ b(2) al] that by metis
qed

section \<open>What passes the gate\<close>

text \<open>A person was shown this very call, name and input, and said yes to it.\<close>

definition person_agreed :: "gate_person \<Rightarrow> nat \<Rightarrow> tool_call \<Rightarrow> bool" where
  "person_agreed person n call \<longleftrightarrow>
     (\<exists>summary preview scope caution answers an.
        person n (KPermission (tc_name call) (tc_input call) summary preview scope caution) answers = Inr an
        \<and> (gn_answer an = AnAllowOnce \<or> (\<exists>s. scope = Some s \<and> gn_answer an = AnAllowSession s)))"

definition gate_earned :: "gate_person \<Rightarrow> gate_input \<Rightarrow> gated \<Rightarrow> bool" where
  "gate_earned person g gd \<longleftrightarrow>
     (\<exists>tool n. gi_tool g = Some tool \<and> gd_traits gd = gt_traits tool (tc_input (gd_call gd))
        \<and> (policy_stood g n tool (gd_call gd) True
           \<or> policy_stood g n tool (gd_call gd) False \<and> person_agreed person n (gd_call gd))
        \<and> (gd_receipt gd = None \<longrightarrow> policy_stood g 0 tool (gd_call gd) True))"

definition decided_stood :: "gate_input \<Rightarrow> nat \<Rightarrow> gate_decided \<Rightarrow> bool" where
  "decided_stood g n d =
     (case d of
        Settled gd \<Rightarrow> gd_gate gd = GateAllowed \<longrightarrow>
          (\<exists>tool. gi_tool g = Some tool \<and> gd_traits gd = gt_traits tool (tc_input (gd_call gd))
             \<and> policy_stood g n tool (gd_call gd) True)
      | AskFirst w \<Rightarrow> gi_tool g = Some (gw_tool w) \<and> gw_traits w = gt_traits (gw_tool w) (tc_input (gw_call w))
          \<and> (gw_blocked w = None \<longrightarrow> policy_stood g n (gw_tool w) (gw_call w) False))"

lemma resolve_check_stood:
  assumes "\<not> denies (cr_decision r) \<Longrightarrow>
      \<exists>tool. gi_tool g = Some tool \<and> policy_stood g n tool (cr_call r) (is_allow (cr_decision r))"
  shows "decided_stood g n (resolve_check g changed r)"
  using assms
  by (cases "gi_tool g"; cases "cr_decision r")
    (auto simp: resolve_check_def decided_stood_def gated_allowed_def gated_denied_def Let_def denies_def is_allow_def
      split: if_splits)

lemma gate_check_stood:
  assumes "\<forall>l \<in> set (gi_links g n). lk_tier l < TierFull"
  shows "decided_stood g n (gate_check g n call changed)"
proof -
  obtain r ns where run: "run_at check_point (gi_links g n) (check_kernel g n) call = (r, ns)"
    by force
  have "decided_stood g n (case r of Inr c \<Rightarrow> resolve_check g changed c
      | Inl e \<Rightarrow> Settled (gated_denied call traits_default (ke_message e)))"
  proof (cases r)
    case (Inr c)
    then have "decided_stood g n (resolve_check g changed c)"
      using checked_stood[OF assms, of call c] run by (intro resolve_check_stood) fastforce
    then show ?thesis
      by (simp add: Inr)
  qed (simp add: decided_stood_def gated_denied_def)
  then show ?thesis
    using run by (auto simp: gate_check_def decided_stood_def split: gate_decided.splits)
qed

lemma ask_person_agreed:
  assumes "ask_person jtext person n pol tool i scope blocked = (Inr (ReplyDecided GateAllowed d fb, a), told)"
  shows "person_agreed person n (pi_call i) \<and> blocked = None"
proof -
  obtain an where an: "person n (ask_kind jtext tool i (if ask_caution pol i = None \<and> blocked = None then scope else None)
        blocked (ask_caution pol i))
      (gate_answers (gp_replaces pol i) ((if ask_caution pol i = None \<and> blocked = None then scope else None) \<noteq> None)
        (blocked \<noteq> None)) = Inr an"
    using assms by (auto simp: ask_person_def Let_def split: sum.splits)
  have "gn_answer an = AnAllowOnce \<and> blocked = None
     \<or> (\<exists>s. (if ask_caution pol i = None \<and> blocked = None then scope else None) = Some s \<and> gn_answer an = AnAllowSession s)"
    using assms an by (auto simp: ask_person_def Let_def reply_denied_def gate_answers_def answer_spec_of_def
        split: answer.splits if_splits)
  then show ?thesis
    using an unfolding person_agreed_def ask_kind_def by (auto split: if_splits) metis+
qed

lemma ask_waiting_earned:
  assumes "decided_stood g n (AskFirst w)" "ask_waiting jtext person n g w prior = (Inl gd, prior_next, told)"
    and "gd_gate gd = GateAllowed"
  shows "gate_earned person g gd"
proof -
  define i where "i = \<lparr>pi_call = gw_call w, pi_subjects = gt_subjects (gw_tool w) (tc_input (gw_call w)) (gi_cwd g),
      pi_traits = gw_traits w,
      pi_confirm = (case gw_reason w of ReConfirm d \<Rightarrow> Some d | _ \<Rightarrow> gt_confirm (gw_tool w) (tc_input (gw_call w))),
      pi_session = gi_session g, pi_cwd = gi_cwd g\<rparr>"
  obtain response v where ask: "ask_person jtext person n (gi_policy g n) (gw_tool w) i (gw_scope w) (gw_blocked w) = (response, v)"
    by force
  then have r: "fst (resolve_reply (gw_call w) (gw_traits w) (gi_item g) response prior) = Inl gd"
    using assms(2) by (auto simp: ask_waiting_def Let_def i_def split: prod.splits)
  then obtain d fb a where "response = Inr (ReplyDecided GateAllowed d fb, a)"
    and gd: "gd_call gd = gw_call w" "gd_traits gd = gw_traits w"
    using assms(3) by (auto simp: resolve_reply_def gated_denied_def Let_def split: sum.splits prod.splits gate_reply.splits)
  then have "person_agreed person n (gw_call w)" "gw_blocked w = None"
    using ask_person_agreed[of jtext person n "gi_policy g n" "gw_tool w" i "gw_scope w" "gw_blocked w" d fb a v] ask
    by (simp_all add: i_def)
  moreover have "gd_receipt gd \<noteq> None"
    using r assms(3) by (auto simp: resolve_reply_def gated_denied_def Let_def
        split: sum.splits prod.splits gate_reply.splits)
  ultimately show ?thesis
    using assms(1) gd by (auto simp: decided_stood_def gate_earned_def)
qed

lemma settle_asked_simps [simp]:
  "gd_gate (settle_asked g changed prior ns gd) = gd_gate gd"
  "gd_call (settle_asked g changed prior ns gd) = gd_call gd"
  "gd_traits (settle_asked g changed prior ns gd) = gd_traits gd"
  by (simp_all add: settle_asked_def Let_def split: bool.splits option.splits)

lemma settle_asked_receipt:
  "gd_receipt (settle_asked g changed prior ns gd) = None \<Longrightarrow> gd_gate gd = GateAllowed \<Longrightarrow> gd_receipt gd = None \<and> (changed \<longrightarrow> prior = None)"
  by (auto simp: settle_asked_def Let_def split: bool.splits option.splits)

lemma ask_waiting_prior:
  "ask_waiting jtext person n g w prior = (Inr call, prior_next, told) \<Longrightarrow> prior_next \<noteq> None"
  "ask_waiting jtext person n g w prior = (Inl gd, prior_next, told) \<Longrightarrow> gd_gate gd = GateAllowed \<Longrightarrow> gd_receipt gd \<noteq> None"
  by (auto simp: ask_waiting_def resolve_reply_def gated_denied_def Let_def
      split: prod.splits sum.splits gate_reply.splits)

lemma gate_earned_settle:
  "gate_earned person g gd \<Longrightarrow> gd_gate gd = GateAllowed \<Longrightarrow> gate_earned person g (settle_asked g changed prior ns gd)"
  unfolding gate_earned_def using settle_asked_receipt[of g changed prior ns gd] by auto

lemma gate_earned_settled:
  assumes "decided_stood g n (Settled gd)" "gd_gate gd = GateAllowed" "n \<noteq> 0 \<longrightarrow> changed \<and> prior \<noteq> None"
  shows "gate_earned person g (settle_asked g changed prior ns gd)"
proof (cases "n = 0")
  case False
  then have "gd_receipt (settle_asked g changed prior ns gd) \<noteq> None"
    using assms(2,3) settle_asked_receipt[of g changed prior ns gd] by blast
  then show ?thesis
    using assms(1,2) by (auto simp: gate_earned_def decided_stood_def)
qed (use assms(1,2) in \<open>auto simp: gate_earned_def decided_stood_def\<close>)

lemma gate_ask_earned:
  assumes "gate_ask jtext person g n changed prior notices decided = Some res"
    and "\<forall>k. \<forall>l \<in> set (gi_links g k). lk_tier l < TierFull"
    and "n \<noteq> 0 \<longrightarrow> changed \<and> prior \<noteq> None" "decided_stood g n decided" "gd_gate (fst res) = GateAllowed"
  shows "gate_earned person g (fst res)"
  using assms
proof (induction rule: gate_ask.raw_induct[rotated 1, consumes 1])
  case (1 gate_ask jtext person g n changed prior notices decided res)
  show ?case
  proof (cases decided)
    case (Settled gd)
    then show ?thesis
      using 1 gate_earned_settled by auto
  next
    case (AskFirst w)
    obtain r prior_next told where w: "ask_waiting jtext person n g w prior = (r, prior_next, told)"
      by (metis prod_cases3)
    show ?thesis
    proof (cases r)
      case (Inl gd)
      then show ?thesis
        using 1 AskFirst w ask_waiting_earned[of g n w jtext person prior gd] gate_earned_settle by auto
    next
      case (Inr call)
      then have "gate_ask jtext person g (Suc n) True prior_next (notices @ gw_notices w) (gate_check g (Suc n) call True) = Some res"
        "prior_next \<noteq> None"
        using 1(2) AskFirst w ask_waiting_prior(1)[of jtext person n g w prior call] by auto
      then show ?thesis
        using 1(1,3,6) gate_check_stood[of g "Suc n" call True] by blast
    qed
  qed
qed

section \<open>Rounds of asking\<close>

text \<open>A person who, offered to change the call, decides it.\<close>

definition decides_at :: "gate_person \<Rightarrow> nat \<Rightarrow> bool" where
  "decides_at person n \<longleftrightarrow>
     (\<forall>kind answers an v. person n kind answers = Inr an \<and> SpAllowChanged \<in> set answers \<longrightarrow> gn_answer an \<noteq> AnAllowChanged v)"

lemma decided_not_changed:
  assumes "decides_at person n"
  shows "fst (ask_person jtext person n pol tool i scope blocked) \<noteq> Inr (ReplyChanged v, a)"
proof -
  define scope' where "scope' = (if ask_caution pol i = None \<and> blocked = None then scope else None)"
  define answers where "answers = gate_answers (gp_replaces pol i) (scope' \<noteq> None) (blocked \<noteq> None)"
  define res where "res = person n (ask_kind jtext tool i scope' blocked (ask_caution pol i)) answers"
  have keeps: "gn_answer an \<noteq> AnAllowChanged x" if "res = Inr an" "SpAllowChanged \<in> set answers" for an x
    using assms that unfolding res_def decides_at_def by blast
  show ?thesis
  proof (cases res)
    case (Inl e)
    then show ?thesis
      unfolding res_def answers_def scope'_def by (simp add: ask_person_def)
  next
    case (Inr an)
    note shown = keeps[OF Inr] Inr[unfolded res_def answers_def scope'_def]
    show ?thesis
      using shown unfolding answers_def scope'_def
      by (cases "gn_answer an") (simp_all add: ask_person_def Let_def reply_denied_def answer_spec_of_def)
  qed
qed

lemma resolve_reply_changed:
  "fst (resolve_reply call traits item response prior) = Inr c \<Longrightarrow> \<exists>v a. response = Inr (ReplyChanged v, a)"
  by (auto simp: resolve_reply_def Let_def split: sum.splits prod.splits gate_reply.splits)

lemma decided_ends:
  assumes "decides_at person n"
  shows "fst (ask_waiting jtext person n g w prior) \<noteq> Inr c"
proof
  assume "fst (ask_waiting jtext person n g w prior) = Inr c"
  then obtain i where "fst (resolve_reply (gw_call w) (gw_traits w) (gi_item g)
      (fst (ask_person jtext person n (gi_policy g n) (gw_tool w) i (gw_scope w) (gw_blocked w))) prior) = Inr c"
    unfolding ask_waiting_def Let_def by (simp add: split_beta)
  then show False
    using resolve_reply_changed decided_not_changed[OF assms] by blast
qed

lemma gate_ask_returns:
  assumes "\<forall>m \<ge> N. decides_at person m"
  shows "gate_ask jtext person g n changed prior notices decided \<noteq> None"
proof (induction "N - n" arbitrary: n changed prior notices decided)
  case 0
  then have d: "decides_at person n"
    using assms by simp
  show ?case
  proof (cases decided)
    case (AskFirst w)
    obtain gd where "fst (ask_waiting jtext person n g w prior) = Inl gd"
      using decided_ends[OF d, of jtext g w prior] by (cases "fst (ask_waiting jtext person n g w prior)") auto
    then show ?thesis
      by (subst gate_ask.simps) (simp add: AskFirst split_beta)
  qed (subst gate_ask.simps, simp)
next
  case (Suc k)
  have next_round: "gate_ask jtext person g (Suc n) c p ns d \<noteq> None" for c p ns d
    using Suc(1)[of "Suc n"] Suc(2) by simp
  show ?case
    by (subst gate_ask.simps)
      (simp add: next_round split_beta split: gate_decided.split sum.split del: not_None_eq)
qed

section \<open>The gate\<close>


text \<open>
  C6: in plan mode nothing but trusted, read-only calls passes the gate, whatever the
  hooks, the plugins below full trust and even the person say, and however often the
  rules change while the person thinks.
\<close>

theorem plan_mode_holds_at_the_gate:
  assumes "gate_call jtext person g = Some (gd, told)" "gd_gate gd = GateAllowed"
    and "\<forall>n. \<forall>l \<in> set (gi_links g n). lk_tier l < TierFull"
    and "\<forall>n. gp_decide (gi_policy g n) = policy_decide gr (p n)"
    and "\<forall>n. mode_for (p n) (gi_session g) = ModePlan"
  shows "\<exists>tool c. gi_tool g = Some tool \<and> same_call c (gd_call gd) \<and> trusted_read_only (gt_traits tool (tc_input c))"
proof -
  have deny: "denies (policy_decide gr (p n) (policy_question g tool c confirm))"
    if "\<not> trusted_read_only (gt_traits tool (tc_input c))" for n tool c confirm
    using that assms(5) by (simp add: policy_decide_def decide_with_session_def limit_by_mode_def
        policy_request_def policy_question_def refuse_def denies_def split: decision.split)
  obtain tool n where "gi_tool g = Some tool" "policy_stood g n tool (gd_call gd) False"
    using gate_ask_earned[OF assms(1)[unfolded gate_call_def] assms(3)] gate_check_stood[of g 0] assms(2,3)
    by (auto simp: gate_earned_def policy_stood_def)
  then show ?thesis
    using deny assms(4) unfolding policy_stood_def by metis
qed

text \<open>
  C8: the gate answers, provided the person does not go on changing the call for ever:
  if from some round on every ask that offers a change is answered otherwise (or not at
  all), the gate returns.
\<close>

theorem gate_returns:
  assumes "\<forall>m \<ge> N. decides_at person m"
  shows "\<exists>gd told. gate_call jtext person g = Some (gd, told)"
  using gate_ask_returns[OF assms, of jtext g 0 False None "[]" "gate_check g 0 (gi_call g) False"]
  by (auto simp: gate_call_def)

subsection \<open>Witnesses\<close>

definition sample_tool :: gate_tool where
  "sample_tool =
     \<lparr>gt_name = ''Bash'', gt_traits = (\<lambda>i. if json_get i ''command'' = Some (JString ''ls'') then traits_read_only
        else traits_default\<lparr>tt_trusted := True\<rparr>),
      gt_subjects = (\<lambda>_ _. []), gt_confirm = (\<lambda>_. None), gt_preview = (\<lambda>_ _. None)\<rparr>"

definition sample_gate :: "string \<Rightarrow> mode \<Rightarrow> gate_input" where
  "sample_gate command m =
     \<lparr>gi_session = ''s'', gi_cwd = ''/w'', gi_item = ''i'',
      gi_call = \<lparr>tc_call_id = ''c'', tc_name = ''Bash'', tc_input = JObject [(''command'', JString command)]\<rparr>,
      gi_tool = Some sample_tool,
      gi_policy = (\<lambda>_. \<lparr>gp_decide = policy_decide sample_grammar (sample_policy\<lparr>po_mode := m\<rparr>),
        gp_caution = policy_caution sample_grammar, gp_replaces = allows_replacement\<rparr>),
      gi_hooks = (\<lambda>_. []), gi_links = (\<lambda>_. [permissive_link TierRewrite])\<rparr>"

text \<open>A person who changes what they are first shown, and agrees to the rest.\<close>

definition sample_person :: gate_person where
  "sample_person n kind offered =
     Inr \<lparr>gn_ask = \<lparr>ga_id = ''q'', ga_opened_at = 7, ga_held = False\<rparr>,
          gn_answer = (if n = 0 then AnAllowChanged (JObject [(''command'', JString ''make'')]) else AnAllowOnce)\<rparr>"


theorem plan_mode_holds_at_the_gate_witness:
  "\<exists>tool c. gi_tool (sample_gate ''ls'' ModePlan) = Some tool \<and> same_call c (gi_call (sample_gate ''ls'' ModePlan))
     \<and> trusted_read_only (gt_traits tool (tc_input c))"
proof -
  define res where "res = gate_call (\<lambda>_. []) sample_person (sample_gate ''ls'' ModePlan)"
  have "map_option (\<lambda>r. (gd_gate (fst r), gd_call (fst r))) res
      = Some (GateAllowed, gi_call (sample_gate ''ls'' ModePlan))"
    unfolding res_def by code_simp
  then obtain gd told where gd: "res = Some (gd, told)" "gd_gate gd = GateAllowed"
      "gd_call gd = gi_call (sample_gate ''ls'' ModePlan)"
    by auto
  have links: "\<forall>n. \<forall>l \<in> set (gi_links (sample_gate ''ls'' ModePlan) n). lk_tier l < TierFull"
    by (simp add: sample_gate_def permissive_link_def tier_below_full)
  have pol: "\<forall>n. gp_decide (gi_policy (sample_gate ''ls'' ModePlan) n) = policy_decide sample_grammar (sample_policy\<lparr>po_mode := ModePlan\<rparr>)"
    by (simp add: sample_gate_def)
  have "mode_for (sample_policy\<lparr>po_mode := ModePlan\<rparr>) (gi_session (sample_gate ''ls'' ModePlan)) = ModePlan"
    by code_simp
  then have "\<forall>n::nat. mode_for (sample_policy\<lparr>po_mode := ModePlan\<rparr>) (gi_session (sample_gate ''ls'' ModePlan)) = ModePlan"
    by simp
  from plan_mode_holds_at_the_gate[OF gd(1)[unfolded res_def] gd(2) links pol this] show ?thesis
    using gd(3) by simp
qed

theorem gate_returns_witness:
  "\<exists>gd told. gate_call (\<lambda>_. []) sample_person (sample_gate ''rm'' ModeDefault) = Some (gd, told)"
  by (rule gate_returns[of 1]) (simp add: decides_at_def sample_person_def)

end
