(* ===== verification/Core_Accumulator.thy ===== *)
theory Core_Accumulator
  imports Core_Gate
begin

text \<open>
  The fold of a provider's stream into items (\<open>bingo-core/src/accumulator.rs\<close>), and
  what the turn publishes of it (\<open>Turn::publish\<close> of \<open>turn/stream.rs\<close>).  Text and
  reasoning blocks are running items that complete on their end event; a tool call is
  a pending item once its input is complete; what is still open when the stream stops
  is closed by \<open>finish\<close>.

  Shown here: on a stream that does not open a block twice the items are the blocks
  of the stream as a reader would list them (\<open>declared\<close>), the calls handed to the gate
  are the calls of the stream, and a transcript that folded what was published agrees
  with them; and withdrawing the items of any stream, however malformed, leaves the
  transcript as it was before.
\<close>

section \<open>State\<close>

text \<open>
  What the fold takes from outside: minted ids, the clock, \<open>serde_json::from_str\<close>
  (its error as text), and the order in which a hash map lists its keys.
\<close>

record stream_env =
  se_mint :: "nat \<Rightarrow> item_id"
  se_now :: "nat \<Rightarrow> timestamp"
  se_parse :: "string \<Rightarrow> string + json"
  se_keys :: "string list \<Rightarrow> string list"

datatype emit =
    EmStarted item
  | EmDelta item_id u32 delta_kind string
  | EmCompleted item

record open_block =
  ob_item :: item
  ob_deltas :: u32

record finished =
  fi_items :: "item list"
  fi_tool_calls :: "(item_id \<times> tool_call) list"
  fi_usage :: usage
  fi_context :: "(u64 \<times> u64) option"
  fi_finish_reason :: "finish_reason option"
  fi_error :: "provider_error option"
  fi_truncated :: bool

text \<open>The two counters say how often the clock was read and an id minted.\<close>

record accumulator =
  ac_turn :: turn_id
  ac_round :: u32
  ac_items :: "item list"
  ac_open :: "(string \<times> open_block) list"
  ac_tool_inputs :: "(string \<times> (string \<times> string)) list"
  ac_tool_calls :: "(item_id \<times> tool_call) list"
  ac_usage :: usage
  ac_context :: "(u64 \<times> u64) option"
  ac_finish_reason :: "finish_reason option"
  ac_error :: "provider_error option"
  ac_minted :: nat
  ac_ticks :: nat

definition accumulator_new :: "turn_id \<Rightarrow> u32 \<Rightarrow> nat \<Rightarrow> nat \<Rightarrow> accumulator" where
  "accumulator_new turn round minted ticks =
     \<lparr>ac_turn = turn, ac_round = round, ac_items = [], ac_open = [], ac_tool_inputs = [], ac_tool_calls = [],
      ac_usage = usage_default, ac_context = None, ac_finish_reason = None, ac_error = None,
      ac_minted = minted, ac_ticks = ticks\<rparr>"

definition item_ids :: "accumulator \<Rightarrow> item_id list" where
  "item_ids a = map it_id (ac_items a)"

section \<open>One event\<close>

definition acc_fresh :: "stream_env \<Rightarrow> accumulator \<Rightarrow> item_body \<Rightarrow> item_status \<Rightarrow> item \<times> accumulator" where
  "acc_fresh env a body status =
     (\<lparr>it_id = se_mint env (ac_minted a), it_turn = Some (ac_turn a), it_round = ac_round a, it_status = status,
       it_started_at = se_now env (ac_ticks a), it_completed_at = None, it_intent = None, it_body = body,
       it_meta = []\<rparr>,
      a\<lparr>ac_minted := Suc (ac_minted a), ac_ticks := Suc (ac_ticks a)\<rparr>)"

definition start_block :: "stream_env \<Rightarrow> string \<Rightarrow> item_body \<Rightarrow> accumulator \<Rightarrow> emit list \<times> accumulator" where
  "start_block env k body a =
     (let (i, a1) = acc_fresh env a body StRunning
      in ([EmStarted i],
          a1\<lparr>ac_items := ac_items a1 @ [i],
             ac_open := AList.update k \<lparr>ob_item = i, ob_deltas = 0\<rparr> (ac_open a1)\<rparr>))"

definition block_delta :: "string \<Rightarrow> delta_kind \<Rightarrow> string \<Rightarrow> accumulator \<Rightarrow> emit list \<times> accumulator" where
  "block_delta k kind data a =
     (case map_of (ac_open a) k of
        None \<Rightarrow> ([], a)
      | Some ob \<Rightarrow>
          (case (case (it_body (ob_item ob), kind) of
              (BAssistant t, DeltaText) \<Rightarrow> Some (BAssistant (t @ data))
            | (BReasoning t meta, DeltaReasoning) \<Rightarrow> Some (BReasoning (t @ data) meta)
            | _ \<Rightarrow> None) of
             None \<Rightarrow> ([], a)
           | Some body \<Rightarrow>
               ([EmDelta (it_id (ob_item ob)) (ob_deltas ob) kind data],
                a\<lparr>ac_open := AList.update k
                    \<lparr>ob_item = (ob_item ob)\<lparr>it_body := body\<rparr>, ob_deltas = ob_deltas ob + 1\<rparr> (ac_open a)\<rparr>)))"

definition replace_item :: "item \<Rightarrow> item list \<Rightarrow> item list" where
  "replace_item i items =
     (case position (\<lambda>j. it_id j = it_id i) items of Some n \<Rightarrow> items[n := i] | None \<Rightarrow> items)"

definition end_block :: "stream_env \<Rightarrow> string \<Rightarrow> item_status \<Rightarrow> accumulator \<Rightarrow> emit list \<times> accumulator" where
  "end_block env k status a =
     (case map_of (ac_open a) k of
        None \<Rightarrow> ([], a)
      | Some ob \<Rightarrow>
          (let i = (ob_item ob)\<lparr>it_status := status, it_completed_at := Some (se_now env (ac_ticks a))\<rparr>
           in ([EmCompleted i],
               a\<lparr>ac_open := AList.delete k (ac_open a), ac_items := replace_item i (ac_items a),
                 ac_ticks := Suc (ac_ticks a)\<rparr>)))"

definition end_reasoning :: "stream_env \<Rightarrow> string \<Rightarrow> provider_metadata \<Rightarrow> accumulator \<Rightarrow> emit list \<times> accumulator" where
  "end_reasoning env k meta a =
     end_block env k StCompleted
       (case map_of (ac_open a) k of
          Some ob \<Rightarrow>
            (case it_body (ob_item ob) of
               BReasoning t _ \<Rightarrow>
                 a\<lparr>ac_open := AList.update k (ob\<lparr>ob_item := (ob_item ob)\<lparr>it_body := BReasoning t meta\<rparr>\<rparr>) (ac_open a)\<rparr>
             | _ \<Rightarrow> a)
        | None \<Rightarrow> a)"

definition parse_call :: "stream_env \<Rightarrow> string \<Rightarrow> json \<times> (string \<times> json) list" where
  "parse_call env raw =
     (case se_parse env raw of
        Inr v \<Rightarrow> (v, [])
      | Inl e \<Rightarrow> (JString raw, [(''invalidInput'', JString e)]))"

definition pending_call_body :: "string \<Rightarrow> string \<Rightarrow> json \<Rightarrow> item_body" where
  "pending_call_body call_id name input =
     BToolCall \<lparr>cb_allowed_by = None, cb_asked_at = None, cb_began_at = None, cb_call_id = call_id, cb_name = name,
       cb_input = input, cb_output = None, cb_progress = None, cb_duration_ms = None, cb_quiet = False\<rparr>"

definition start_call :: "stream_env \<Rightarrow> string \<Rightarrow> string \<Rightarrow> string \<Rightarrow> accumulator \<Rightarrow> emit list \<times> accumulator" where
  "start_call env call_id name raw a =
     (let (input, meta) = parse_call env raw;
          (i0, a1) = acc_fresh env (a\<lparr>ac_tool_inputs := AList.delete call_id (ac_tool_inputs a)\<rparr>)
             (pending_call_body call_id name input) StPending;
          i = i0\<lparr>it_meta := meta\<rparr>
      in ([EmStarted i],
          a1\<lparr>ac_items := ac_items a1 @ [i],
             ac_tool_calls := ac_tool_calls a1 @ [(it_id i, \<lparr>tc_call_id = call_id, tc_name = name, tc_input = input\<rparr>)]\<rparr>))"

definition compacted_body :: "u64 \<Rightarrow> u64 \<Rightarrow> item_body" where
  "compacted_body before after =
     BCompaction \<lparr>co_summary = [], co_replaced = 0, co_before = before, co_after = after, co_duration_ms = 0,
       co_window = None\<rparr>"

definition acc_compacted :: "stream_env \<Rightarrow> u64 \<Rightarrow> u64 \<Rightarrow> accumulator \<Rightarrow> emit list \<times> accumulator" where
  "acc_compacted env before after a =
     (let (i0, a1) = acc_fresh env a (compacted_body before after) StCompleted;
          i = i0\<lparr>it_completed_at := Some (it_started_at i0)\<rparr>
      in ([EmCompleted i], a1\<lparr>ac_items := ac_items a1 @ [i]\<rparr>))"

definition acc_push :: "stream_env \<Rightarrow> model_event \<Rightarrow> accumulator \<Rightarrow> emit list \<times> accumulator" where
  "acc_push env e a =
     (case e of
        MStreamStart _ \<Rightarrow> ([], a)
      | MResponseMetadata _ _ \<Rightarrow> ([], a)
      | MTextStart k \<Rightarrow> start_block env k (BAssistant []) a
      | MTextDelta k d \<Rightarrow> block_delta k DeltaText d a
      | MTextEnd k \<Rightarrow> end_block env k StCompleted a
      | MReasoningStart k \<Rightarrow> start_block env k (BReasoning [] []) a
      | MReasoningDelta k d \<Rightarrow> block_delta k DeltaReasoning d a
      | MReasoningEnd k meta \<Rightarrow> end_reasoning env k meta a
      | MToolInputStart k name \<Rightarrow> ([], a\<lparr>ac_tool_inputs := AList.update k (name, []) (ac_tool_inputs a)\<rparr>)
      | MToolInputDelta k d \<Rightarrow>
          ([], (case map_of (ac_tool_inputs a) k of
             Some (name, buf) \<Rightarrow> a\<lparr>ac_tool_inputs := AList.update k (name, buf @ d) (ac_tool_inputs a)\<rparr>
           | None \<Rightarrow> a))
      | MToolInputEnd _ \<Rightarrow> ([], a)
      | MToolCall k name input \<Rightarrow> start_call env k name input a
      | MContext used win \<Rightarrow> ([], a\<lparr>ac_context := Some (used, win)\<rparr>)
      | MCompacted before after \<Rightarrow> acc_compacted env before after a
      | MFinish usage why \<Rightarrow> ([], a\<lparr>ac_usage := usage, ac_finish_reason := Some why\<rparr>))"

section \<open>The end of a stream\<close>

fun end_blocks :: "stream_env \<Rightarrow> item_status \<Rightarrow> string list \<Rightarrow> accumulator \<Rightarrow> emit list \<times> accumulator" where
  "end_blocks env status [] a = ([], a)"
| "end_blocks env status (k # ks) a =
     (let (es, a1) = end_block env k status a; (fs, a2) = end_blocks env status ks a1 in (es @ fs, a2))"

definition interrupt_pending :: "item \<Rightarrow> item" where
  "interrupt_pending i =
     (case it_body i of
        BToolCall _ \<Rightarrow> if it_status i = StPending then i\<lparr>it_status := StInterrupted\<rparr> else i
      | _ \<Rightarrow> i)"

definition acc_finish :: "stream_env \<Rightarrow> bool \<Rightarrow> accumulator \<Rightarrow> emit list \<times> finished" where
  "acc_finish env interrupted a =
     (let (es, a1) = end_blocks env (if interrupted then StInterrupted else StCompleted)
            (se_keys env (map fst (ac_open a))) a
      in (es, \<lparr>fi_items = (if interrupted then map interrupt_pending (ac_items a1) else ac_items a1),
               fi_tool_calls = ac_tool_calls a1, fi_usage = ac_usage a1, fi_context = ac_context a1,
               fi_finish_reason = ac_finish_reason a1, fi_error = ac_error a1,
               fi_truncated = (ac_open a \<noteq> [])\<rparr>))"

fun acc_pushes :: "stream_env \<Rightarrow> model_event list \<Rightarrow> accumulator \<Rightarrow> emit list \<times> accumulator" where
  "acc_pushes env [] a = ([], a)"
| "acc_pushes env (e # es) a =
     (let (xs, a1) = acc_push env e a; (ys, a2) = acc_pushes env es a1 in (xs @ ys, a2))"

section \<open>What is published\<close>

definition find_tool :: "gate_tool list \<Rightarrow> string \<Rightarrow> gate_tool option" where
  "find_tool tools name = find (\<lambda>t. gt_name t = name) tools"

definition quieted :: "gate_tool list \<Rightarrow> item \<Rightarrow> item" where
  "quieted tools i =
     (case it_body i of
        BToolCall c \<Rightarrow> i\<lparr>it_body := BToolCall (c\<lparr>cb_quiet :=
          (case find_tool tools (cb_name c) of Some t \<Rightarrow> tt_quiet (gt_traits t (cb_input c)) | None \<Rightarrow> False)\<rparr>)\<rparr>
      | _ \<Rightarrow> i)"

definition emit_event :: "gate_tool list \<Rightarrow> emit \<Rightarrow> event" where
  "emit_event tools em =
     (case em of
        EmStarted i \<Rightarrow> EvItemStarted (quieted tools i)
      | EmDelta k n kind d \<Rightarrow> EvItemDelta k n kind d
      | EmCompleted i \<Rightarrow> EvItemCompleted i)"

section \<open>The blocks of a stream\<close>

text \<open>
  The reference: the blocks a stream declares, in the order they start.  A block runs
  to the first end event that names it, whatever its kind; its text is what the deltas
  of its own kind say on the way, and its metadata comes with a reasoning end.
\<close>

definition ends_block :: "string \<Rightarrow> model_event \<Rightarrow> bool" where
  "ends_block k e = (case e of MTextEnd k' \<Rightarrow> k' = k | MReasoningEnd k' _ \<Rightarrow> k' = k | _ \<Rightarrow> False)"

definition says :: "delta_kind \<Rightarrow> string \<Rightarrow> model_event \<Rightarrow> string" where
  "says kind k e =
     (case e of
        MTextDelta k' d \<Rightarrow> if kind = DeltaText \<and> k' = k then d else []
      | MReasoningDelta k' d \<Rightarrow> if kind = DeltaReasoning \<and> k' = k then d else []
      | _ \<Rightarrow> [])"

definition said :: "delta_kind \<Rightarrow> string \<Rightarrow> model_event list \<Rightarrow> string" where
  "said kind k es = concat (map (says kind k) (takeWhile (\<lambda>e. \<not> ends_block k e) es))"

definition end_metadata :: "string \<Rightarrow> model_event list \<Rightarrow> provider_metadata" where
  "end_metadata k es = (case find (ends_block k) es of Some (MReasoningEnd _ meta) \<Rightarrow> meta | _ \<Rightarrow> [])"

fun declared :: "stream_env \<Rightarrow> model_event list \<Rightarrow> item_body list" where
  "declared env [] = []"
| "declared env (e # es) =
     (case e of
        MTextStart k \<Rightarrow> BAssistant (said DeltaText k es) # declared env es
      | MReasoningStart k \<Rightarrow> BReasoning (said DeltaReasoning k es) (end_metadata k es) # declared env es
      | MToolCall k name raw \<Rightarrow> pending_call_body k name (fst (parse_call env raw)) # declared env es
      | MCompacted before after \<Rightarrow> compacted_body before after # declared env es
      | _ \<Rightarrow> declared env es)"

text \<open>No block is opened while one of its name is open.\<close>

fun well_blocked :: "string set \<Rightarrow> model_event list \<Rightarrow> bool" where
  "well_blocked ks [] \<longleftrightarrow> True"
| "well_blocked ks (e # es) \<longleftrightarrow>
     (case e of
        MTextStart k \<Rightarrow> k \<notin> ks \<and> well_blocked (insert k ks) es
      | MReasoningStart k \<Rightarrow> k \<notin> ks \<and> well_blocked (insert k ks) es
      | MTextEnd k \<Rightarrow> well_blocked (ks - {k}) es
      | MReasoningEnd k _ \<Rightarrow> well_blocked (ks - {k}) es
      | _ \<Rightarrow> well_blocked ks es)"

text \<open>What the rest of a stream makes of an open block.\<close>

definition grown :: "string \<Rightarrow> item_body \<Rightarrow> model_event list \<Rightarrow> item_body" where
  "grown k b es =
     (case b of
        BAssistant t \<Rightarrow> BAssistant (t @ said DeltaText k es)
      | BReasoning t meta \<Rightarrow> BReasoning (t @ said DeltaReasoning k es)
          (case find (ends_block k) es of Some (MReasoningEnd _ m) \<Rightarrow> m | _ \<Rightarrow> meta)
      | _ \<Rightarrow> b)"

lemma said_Cons:
  "said kind k (e # es) = (if ends_block k e then [] else says kind k e @ said kind k es)"
  by (simp add: said_def)

lemma grown_Nil [simp]: "grown k b [] = b"
  by (simp add: grown_def said_def split: item_body.split)

lemma grown_skip: "\<not> ends_block k e \<Longrightarrow> says DeltaText k e = [] \<Longrightarrow> says DeltaReasoning k e = [] \<Longrightarrow> grown k b (e # es) = grown k b es"
  by (simp add: grown_def said_Cons split: item_body.split)

section \<open>The invariant of the fold\<close>

definition open_for :: "accumulator \<Rightarrow> item_id \<Rightarrow> (string \<times> open_block) option" where
  "open_for a id' = find (\<lambda>(k, ob). it_id (ob_item ob) = id') (ac_open a)"

definition speech :: "item_body \<Rightarrow> bool" where
  "speech b = (case b of BAssistant _ \<Rightarrow> True | BReasoning _ _ \<Rightarrow> True | _ \<Rightarrow> False)"

text \<open>The open blocks: each stands for one of the items, no two for the same.\<close>

definition opens_ok :: "(string \<rightharpoonup> open_block) \<Rightarrow> item_id set \<Rightarrow> bool" where
  "opens_ok m ids \<longleftrightarrow>
     (\<forall>k k' ob ob'. m k = Some ob \<longrightarrow> m k' = Some ob' \<longrightarrow> it_id (ob_item ob) = it_id (ob_item ob') \<longrightarrow> k = k')
     \<and> (\<forall>k ob. m k = Some ob \<longrightarrow>
          it_id (ob_item ob) \<in> ids \<and> it_status (ob_item ob) = StRunning \<and> speech (it_body (ob_item ob)))"

definition acc_ok :: "stream_env \<Rightarrow> accumulator \<Rightarrow> bool" where
  "acc_ok env a \<longleftrightarrow>
     distinct (map fst (ac_open a)) \<and> opens_ok (map_of (ac_open a)) (set (item_ids a))
     \<and> distinct (item_ids a) \<and> set (item_ids a) \<subseteq> se_mint env ` {..<ac_minted a}"

text \<open>The item as it would be seen now: with the text its open block has gathered.\<close>

definition live_item :: "accumulator \<Rightarrow> item \<Rightarrow> item" where
  "live_item a i = (case open_for a (it_id i) of Some (k, ob) \<Rightarrow> ob_item ob | None \<Rightarrow> i)"

definition final_body :: "accumulator \<Rightarrow> model_event list \<Rightarrow> item \<Rightarrow> item_body" where
  "final_body a es i = (case open_for a (it_id i) of Some (k, ob) \<Rightarrow> grown k (it_body (ob_item ob)) es | None \<Rightarrow> it_body i)"

lemma find_unique:
  assumes "\<And>x y. x \<in> set xs \<Longrightarrow> y \<in> set xs \<Longrightarrow> P x \<Longrightarrow> P y \<Longrightarrow> x = y"
  shows "find P xs = Some x \<longleftrightarrow> x \<in> set xs \<and> P x"
proof
  assume x: "x \<in> set xs \<and> P x"
  then obtain y where "find P xs = Some y"
    by (cases "find P xs") (auto simp: find_None_iff)
  then show "find P xs = Some x"
    using x assms find_Some_in_set[of P xs y] by auto
qed (rule find_Some_in_set)

lemma open_for_Some:
  assumes "acc_ok env a"
  shows "open_for a id' = Some (k, ob) \<longleftrightarrow> map_of (ac_open a) k = Some ob \<and> it_id (ob_item ob) = id'"
proof -
  have d: "distinct (map fst (ac_open a))" and ok: "opens_ok (map_of (ac_open a)) (set (item_ids a))"
    using assms by (simp_all add: acc_ok_def)
  have "x = y" if "x \<in> set (ac_open a)" "y \<in> set (ac_open a)" "it_id (ob_item (snd x)) = id'" "it_id (ob_item (snd y)) = id'" for x y
  proof -
    have "map_of (ac_open a) (fst x) = Some (snd x)" "map_of (ac_open a) (fst y) = Some (snd y)"
      using d that(1,2) by simp_all
    then have "fst x = fst y"
      using ok that(3,4) unfolding opens_ok_def by metis
    then show ?thesis
      using d that(1,2) by (metis eq_key_imp_eq_value prod.collapse)
  qed
  then have "open_for a id' = Some (k, ob) \<longleftrightarrow> (k, ob) \<in> set (ac_open a) \<and> it_id (ob_item ob) = id'"
    unfolding open_for_def by (subst find_unique) (auto simp: split_beta)
  then show ?thesis
    using d by simp
qed

lemma open_for_None:
  assumes "acc_ok env a"
  shows "open_for a id' = None \<longleftrightarrow> (\<forall>k ob. map_of (ac_open a) k = Some ob \<longrightarrow> it_id (ob_item ob) \<noteq> id')"
proof -
  have "open_for a id' \<noteq> None \<longleftrightarrow> (\<exists>k ob. open_for a id' = Some (k, ob))"
    by auto
  then show ?thesis
    unfolding open_for_Some[OF assms] by blast
qed

text \<open>The five ways an event moves the fold.\<close>

lemma acc_ok_plain:
  "acc_ok env a \<Longrightarrow> ac_open a' = ac_open a \<Longrightarrow> ac_items a' = ac_items a \<Longrightarrow> ac_minted a' = ac_minted a \<Longrightarrow> acc_ok env a'"
  by (simp add: acc_ok_def item_ids_def)

lemma open_for_cong: "ac_open a' = ac_open a \<Longrightarrow> open_for a' = open_for a"
  by (simp add: open_for_def fun_eq_iff)

lemma fresh_id:
  assumes "acc_ok env a" "inj (se_mint env)"
  shows "se_mint env (ac_minted a) \<notin> set (item_ids a)"
proof
  assume "se_mint env (ac_minted a) \<in> set (item_ids a)"
  then have "se_mint env (ac_minted a) \<in> se_mint env ` {..<ac_minted a}"
    using assms(1) unfolding acc_ok_def by blast
  then show False
    using assms(2) by (auto dest: injD)
qed

lemma opens_ok_mono: "opens_ok m ids \<Longrightarrow> ids \<subseteq> ids' \<Longrightarrow> opens_ok m ids'"
  unfolding opens_ok_def by blast

lemma opens_ok_new:
  "opens_ok m ids \<Longrightarrow> it_id i \<notin> ids \<Longrightarrow> it_status i = StRunning \<Longrightarrow> speech (it_body i) \<Longrightarrow>
     opens_ok (m(k \<mapsto> \<lparr>ob_item = i, ob_deltas = n\<rparr>)) (insert (it_id i) ids)"
  unfolding opens_ok_def by (simp, metis)

lemma opens_ok_grow:
  "opens_ok m ids \<Longrightarrow> m k = Some ob \<Longrightarrow> it_id (ob_item ob') = it_id (ob_item ob) \<Longrightarrow> it_status (ob_item ob') = StRunning \<Longrightarrow>
     speech (it_body (ob_item ob')) \<Longrightarrow> opens_ok (m(k \<mapsto> ob')) ids"
  unfolding opens_ok_def by (auto split: if_splits)

lemma opens_ok_drop: "opens_ok m ids \<Longrightarrow> opens_ok (m(k := None)) ids"
  unfolding opens_ok_def by (auto split: if_splits)

lemma acc_ok_open:
  assumes "acc_ok env a" "inj (se_mint env)" "it_id i = se_mint env (ac_minted a)" "it_status i = StRunning"
    and "speech (it_body i)"
    and "ac_open a' = AList.update k \<lparr>ob_item = i, ob_deltas = 0\<rparr> (ac_open a)" "ac_items a' = ac_items a @ [i]"
    and "ac_minted a' = Suc (ac_minted a)"
  shows "acc_ok env a'"
  using assms fresh_id[OF assms(1,2)] opens_ok_new[of "map_of (ac_open a)" "set (item_ids a)" i k 0]
  by (auto simp: acc_ok_def item_ids_def update_conv' distinct_update lessThan_Suc)

lemma acc_ok_closed:
  assumes "acc_ok env a" "inj (se_mint env)" "it_id i = se_mint env (ac_minted a)"
    and "ac_open a' = ac_open a" "ac_items a' = ac_items a @ [i]" "ac_minted a' = Suc (ac_minted a)"
  shows "acc_ok env a'"
  using assms fresh_id[OF assms(1,2)]
  by (auto simp: acc_ok_def item_ids_def lessThan_Suc elim!: opens_ok_mono)

lemma acc_ok_grow:
  assumes "acc_ok env a" "map_of (ac_open a) k = Some ob" "it_id (ob_item ob') = it_id (ob_item ob)"
    and "it_status (ob_item ob') = StRunning" "speech (it_body (ob_item ob'))"
    and "ac_open a' = AList.update k ob' (ac_open a)" "ac_items a' = ac_items a" "ac_minted a' = ac_minted a"
  shows "acc_ok env a'"
  using assms opens_ok_grow[of "map_of (ac_open a)" "set (item_ids a)" k ob ob']
  by (simp add: acc_ok_def item_ids_def update_conv' distinct_update)

lemma map_id_replace [simp]: "map it_id (replace_item i items) = map it_id items"
  by (auto simp: replace_item_def map_list_update_same dest: position_SomeD split: option.splits)

lemma acc_ok_close:
  assumes "acc_ok env a" "ac_open a' = AList.delete k (ac_open a)" "ac_items a' = replace_item i (ac_items a)"
    and "ac_minted a' = ac_minted a"
  shows "acc_ok env a'"
  using assms by (simp add: acc_ok_def item_ids_def delete_conv' distinct_delete opens_ok_drop)

text \<open>Which block stands for an item, after each of them.\<close>

lemma option_eqI: "(\<And>x. f = Some x \<longleftrightarrow> g = Some x) \<Longrightarrow> f = g"
  by (cases f; cases g) auto

lemma open_for_ids: "acc_ok env a \<Longrightarrow> id' \<notin> set (item_ids a) \<Longrightarrow> open_for a id' = None"
  by (subst open_for_None, assumption) (auto simp: acc_ok_def opens_ok_def)

lemma open_for_new:
  assumes "acc_ok env a" "acc_ok env a'" "map_of (ac_open a) k = None" "it_id (ob_item ob) \<notin> set (item_ids a)"
    and "ac_open a' = AList.update k ob (ac_open a)"
  shows "open_for a' id' = (if id' = it_id (ob_item ob) then Some (k, ob) else open_for a id')"
proof (rule option_eqI)
  fix p
  show "open_for a' id' = Some p \<longleftrightarrow> (if id' = it_id (ob_item ob) then Some (k, ob) else open_for a id') = Some p"
    using assms(3) open_for_ids[OF assms(1,4)] open_for_None[OF assms(1), of "it_id (ob_item ob)"]
    by (cases p) (auto simp: open_for_Some[OF assms(2)] open_for_Some[OF assms(1)] assms(5) update_conv')
qed

lemma open_for_grow:
  assumes "acc_ok env a" "acc_ok env a'" "map_of (ac_open a) k = Some ob" "it_id (ob_item ob') = it_id (ob_item ob)"
    and "ac_open a' = AList.update k ob' (ac_open a)"
  shows "open_for a' id' = (if id' = it_id (ob_item ob) then Some (k, ob') else open_for a id')"
proof (cases "id' = it_id (ob_item ob)")
  case True
  then show ?thesis
    using assms(4) by (simp add: open_for_Some[OF assms(2)] assms(5) update_conv')
next
  case False
  have "open_for a' id' = Some p \<longleftrightarrow> open_for a id' = Some p" for p
    using False assms(3,4)
    by (cases p; cases "fst p = k") (simp_all add: open_for_Some[OF assms(2)] open_for_Some[OF assms(1)] assms(5) update_conv', auto)
  then show ?thesis
    using False by (simp add: option_eqI)
qed

lemma open_for_close:
  assumes "acc_ok env a" "acc_ok env a'" "map_of (ac_open a) k = Some ob"
    and "ac_open a' = AList.delete k (ac_open a)"
  shows "open_for a' id' = (if id' = it_id (ob_item ob) then None else open_for a id')"
proof (cases "id' = it_id (ob_item ob)")
  case True
  have "open_for a id' = Some (k, ob)"
    using assms(3) True by (simp add: open_for_Some[OF assms(1)])
  then have "open_for a' id' \<noteq> Some p" for p
    using open_for_Some[OF assms(1), of id' "fst p" "snd p"]
    by (cases p) (auto simp: open_for_Some[OF assms(2)] assms(4) delete_conv' split: if_splits)
  then show ?thesis
    using True by (cases "open_for a' id'") auto
next
  case False
  have "open_for a' id' = Some p \<longleftrightarrow> open_for a id' = Some p" for p
    using False assms(3)
    by (cases p; cases "fst p = k") (simp_all add: open_for_Some[OF assms(2)] open_for_Some[OF assms(1)] assms(4) delete_conv', auto)
  then show ?thesis
    using False by (simp add: option_eqI)
qed

lemma replace_item_map:
  assumes "distinct (map it_id items)"
  shows "replace_item i items = map (\<lambda>j. if it_id j = it_id i then i else j) items"
proof (cases "position (\<lambda>j. it_id j = it_id i) items")
  case None
  then have "\<forall>j \<in> set items. it_id j \<noteq> it_id i"
    by (simp add: position_None_iff)
  then show ?thesis
    using None by (simp add: replace_item_def map_idI)
next
  case (Some n)
  have n: "n < length items" "it_id (items ! n) = it_id i"
    using position_SomeD[OF Some] by simp_all
  have "items[n := i] ! m = (if it_id (items ! m) = it_id i then i else items ! m)" if "m < length items" for m
  proof (cases "m = n")
    case False
    then have "it_id (items ! m) \<noteq> it_id i"
      using distinct_map_nth_eq[OF assms that n(1)] n(2) by auto
    then show ?thesis
      using False by simp
  qed (use n in simp)
  then show ?thesis
    using Some by (simp add: replace_item_def list_eq_iff_nth_eq)
qed

lemma acc_ok_new: "acc_ok env (accumulator_new turn round minted ticks)"
  by (simp add: acc_ok_def accumulator_new_def item_ids_def opens_ok_def)

lemma acc_ok_start_block:
  "acc_ok env a \<Longrightarrow> inj (se_mint env) \<Longrightarrow> speech b \<Longrightarrow> acc_ok env (snd (start_block env k b a))"
  by (rule acc_ok_open) (simp_all add: start_block_def acc_fresh_def)

lemma delta_grows:
  assumes "acc_ok env a" "map_of (ac_open a) k = Some ob" "speech b"
  shows "acc_ok env (a\<lparr>ac_open := AList.update k \<lparr>ob_item = (ob_item ob)\<lparr>it_body := b\<rparr>, ob_deltas = n\<rparr> (ac_open a)\<rparr>)"
proof (rule acc_ok_grow[OF assms(1,2)])
  show "it_status (ob_item \<lparr>ob_item = (ob_item ob)\<lparr>it_body := b\<rparr>, ob_deltas = n\<rparr>) = StRunning"
    using assms(1,2) by (auto simp: acc_ok_def opens_ok_def)
qed (simp_all add: assms(3))

text \<open>What a delta does to its block, if it fits.\<close>

lemma block_delta_cases:
  obtains "block_delta k kind d a = ([], a)"
    "\<And>ob. map_of (ac_open a) k = Some ob \<Longrightarrow> delta_body (it_body (ob_item ob)) kind d = None \<or> kind = DeltaTail"
  | ob b where "map_of (ac_open a) k = Some ob" "delta_body (it_body (ob_item ob)) kind d = Some b" "speech b"
    "kind \<noteq> DeltaTail"
    "block_delta k kind d a = ([EmDelta (it_id (ob_item ob)) (ob_deltas ob) kind d],
       a\<lparr>ac_open := AList.update k \<lparr>ob_item = (ob_item ob)\<lparr>it_body := b\<rparr>, ob_deltas = ob_deltas ob + 1\<rparr> (ac_open a)\<rparr>)"
proof (cases "map_of (ac_open a) k")
  case None
  then show thesis
    using that(1) by (simp add: block_delta_def)
next
  case (Some ob)
  show thesis
  proof (cases "delta_body (it_body (ob_item ob)) kind d = None \<or> kind = DeltaTail")
    case True
    then have "block_delta k kind d a = ([], a)"
      using Some by (auto simp: block_delta_def delta_body_def split: item_body.splits delta_kind.splits)
    then show thesis
      using that(1) True Some by auto
  next
    case False
    then obtain b where "delta_body (it_body (ob_item ob)) kind d = Some b" "kind \<noteq> DeltaTail"
      by auto
    then show thesis
      using that(2)[OF Some] Some
      by (auto simp: block_delta_def delta_body_def speech_def split: item_body.splits delta_kind.splits)
  qed
qed

lemma acc_ok_delta: "acc_ok env a \<Longrightarrow> acc_ok env (snd (block_delta k kind d a))"
  by (rule block_delta_cases[of k kind d a]) (auto intro: delta_grows)

lemma acc_ok_end_block: "acc_ok env a \<Longrightarrow> acc_ok env (snd (end_block env k st a))"
  by (cases "map_of (ac_open a) k") (auto simp: end_block_def Let_def intro!: acc_ok_close[of env a])

definition with_metadata :: "string \<Rightarrow> provider_metadata \<Rightarrow> accumulator \<Rightarrow> accumulator" where
  "with_metadata k meta a =
     (case map_of (ac_open a) k of
        Some ob \<Rightarrow>
          (case it_body (ob_item ob) of
             BReasoning t _ \<Rightarrow>
               a\<lparr>ac_open := AList.update k (ob\<lparr>ob_item := (ob_item ob)\<lparr>it_body := BReasoning t meta\<rparr>\<rparr>) (ac_open a)\<rparr>
           | _ \<Rightarrow> a)
      | None \<Rightarrow> a)"

lemma end_reasoning_with: "end_reasoning env k meta a = end_block env k StCompleted (with_metadata k meta a)"
  by (simp add: end_reasoning_def with_metadata_def)

lemma with_metadata_cases:
  obtains "with_metadata k meta a = a"
    "\<And>ob t m. map_of (ac_open a) k = Some ob \<Longrightarrow> it_body (ob_item ob) \<noteq> BReasoning t m"
  | ob t m where "map_of (ac_open a) k = Some ob" "it_body (ob_item ob) = BReasoning t m"
    "with_metadata k meta a =
       a\<lparr>ac_open := AList.update k \<lparr>ob_item = (ob_item ob)\<lparr>it_body := BReasoning t meta\<rparr>, ob_deltas = ob_deltas ob\<rparr> (ac_open a)\<rparr>"
proof (cases "map_of (ac_open a) k")
  case None
  then show thesis
    using that(1) by (simp add: with_metadata_def)
next
  case (Some ob)
  show thesis
  proof (cases "\<exists>t m. it_body (ob_item ob) = BReasoning t m")
    case True
    then obtain t m where b: "it_body (ob_item ob) = BReasoning t m"
      by blast
    show thesis
      by (rule that(2)[OF Some b], use Some b in \<open>cases ob, simp add: with_metadata_def\<close>)
  next
    case False
    have "with_metadata k meta a = a"
      using False by (simp add: with_metadata_def Some split: item_body.split)
    then show thesis
      by (rule that(1)) (use False Some in auto)
  qed
qed

lemma acc_ok_with_metadata: "acc_ok env a \<Longrightarrow> acc_ok env (with_metadata k meta a)"
  by (rule with_metadata_cases[of k meta a]) (auto intro!: delta_grows simp: speech_def)

lemma acc_ok_push:
  assumes "acc_ok env a" "inj (se_mint env)"
  shows "acc_ok env (snd (acc_push env e a))"
proof (cases e)
  case (MToolCall k name raw)
  have "acc_ok env (snd (start_call env k name raw a))"
    by (rule acc_ok_closed[OF assms]) (simp_all add: start_call_def acc_fresh_def Let_def split_beta)
  then show ?thesis
    by (simp add: acc_push_def MToolCall)
next
  case (MCompacted before after)
  have "acc_ok env (snd (acc_compacted env before after a))"
    by (rule acc_ok_closed[OF assms]) (simp_all add: acc_compacted_def acc_fresh_def Let_def)
  then show ?thesis
    by (simp add: acc_push_def MCompacted)
qed (use assms in \<open>auto simp: acc_push_def end_reasoning_with speech_def
      intro!: acc_ok_start_block acc_ok_delta acc_ok_end_block acc_ok_with_metadata
      intro: acc_ok_plain[of env a] split: option.split\<close>)

section \<open>The items are the blocks\<close>

definition final_bodies :: "accumulator \<Rightarrow> model_event list \<Rightarrow> item_body list" where
  "final_bodies a es = map (final_body a es) (ac_items a)"

definition declares :: "stream_env \<Rightarrow> model_event \<Rightarrow> model_event list \<Rightarrow> item_body list" where
  "declares env e es =
     (case e of
        MTextStart k \<Rightarrow> [BAssistant (said DeltaText k es)]
      | MReasoningStart k \<Rightarrow> [BReasoning (said DeltaReasoning k es) (end_metadata k es)]
      | MToolCall k name raw \<Rightarrow> [pending_call_body k name (fst (parse_call env raw))]
      | MCompacted before after \<Rightarrow> [compacted_body before after]
      | _ \<Rightarrow> [])"

lemma declared_Cons: "declared env (e # es) = declares env e es @ declared env es"
  by (simp add: declares_def split: model_event.split)

text \<open>An event that names no block leaves the open ones to the rest of the stream.\<close>

definition aimed :: "model_event \<Rightarrow> string option" where
  "aimed e =
     (case e of MTextDelta k _ \<Rightarrow> Some k | MReasoningDelta k _ \<Rightarrow> Some k | MTextEnd k \<Rightarrow> Some k
      | MReasoningEnd k _ \<Rightarrow> Some k | _ \<Rightarrow> None)"

lemma grown_elsewhere: "aimed e \<noteq> Some k \<Longrightarrow> grown k b (e # es) = grown k b es"
  by (rule grown_skip) (auto simp: aimed_def ends_block_def says_def split: model_event.splits)

lemma final_body_eqI:
  assumes "\<And>k ob. open_for a (it_id i) = Some (k, ob) \<Longrightarrow> aimed e \<noteq> Some k"
    and "open_for a' (it_id i) = open_for a (it_id i)"
  shows "final_body a' es i = final_body a (e # es) i"
  using assms grown_elsewhere by (auto simp: final_body_def split: option.split)

lemma in_item_ids: "i \<in> set (ac_items a) \<Longrightarrow> it_id i \<in> set (item_ids a)"
  by (simp add: item_ids_def)

lemma final_bodies_plain:
  "ac_open a' = ac_open a \<Longrightarrow> ac_items a' = ac_items a \<Longrightarrow> aimed e = None \<Longrightarrow> final_bodies a' es = final_bodies a (e # es)"
  using final_body_eqI[of a _ e a' es] open_for_cong[of a' a] by (simp add: final_bodies_def)

lemma final_bodies_open:
  assumes "acc_ok env a" "inj (se_mint env)" "map_of (ac_open a) k = None" "speech b" "aimed e = None"
  shows "final_bodies (snd (start_block env k b a)) es = final_bodies a (e # es) @ [grown k b es]"
proof -
  let ?a = "snd (start_block env k b a)" and ?n = "se_mint env (ac_minted a)"
  obtain i where i: "ac_items ?a = ac_items a @ [i]" "it_id i = ?n" "it_body i = b"
      "ac_open ?a = AList.update k \<lparr>ob_item = i, ob_deltas = 0\<rparr> (ac_open a)"
    by (simp add: start_block_def acc_fresh_def)
  have n: "?n \<notin> set (item_ids a)"
    by (rule fresh_id[OF assms(1,2)])
  have o': "open_for ?a id' = (if id' = ?n then Some (k, \<lparr>ob_item = i, ob_deltas = 0\<rparr>) else open_for a id')" for id'
    using open_for_new[OF assms(1) acc_ok_start_block[OF assms(1,2,4)] assms(3) _ i(4)] n i(2) by simp
  have "final_body ?a es j = final_body a (e # es) j" if "j \<in> set (ac_items a)" for j
    using n in_item_ids[OF that] assms(5) by (intro final_body_eqI) (auto simp: o')
  moreover have "final_body ?a es i = grown k b es"
    by (simp add: final_body_def o' i(2,3))
  ultimately show ?thesis
    by (simp add: final_bodies_def i(1))
qed

lemma final_bodies_closed:
  assumes "acc_ok env a" "inj (se_mint env)" "aimed e = None"
    and "ac_open a' = ac_open a" "ac_items a' = ac_items a @ [i]" "it_id i = se_mint env (ac_minted a)"
  shows "final_bodies a' es = final_bodies a (e # es) @ [it_body i]"
proof -
  have "open_for a (it_id i) = None"
    using open_for_ids[OF assms(1)] fresh_id[OF assms(1,2)] assms(6) by simp
  then have "final_body a' es i = it_body i"
    using open_for_cong[OF assms(4)] by (simp add: final_body_def)
  moreover have "final_body a' es j = final_body a (e # es) j" for j
    using assms(3) open_for_cong[OF assms(4)] by (intro final_body_eqI) auto
  ultimately show ?thesis
    by (simp add: final_bodies_def assms(5))
qed

lemma grown_delta:
  assumes "e = MTextDelta k d \<and> kind = DeltaText \<or> e = MReasoningDelta k d \<and> kind = DeltaReasoning" "speech b"
  shows "grown k b (e # es) = grown k (case delta_body b kind d of Some b' \<Rightarrow> b' | None \<Rightarrow> b) es"
  using assms by (cases b) (auto simp: grown_def said_Cons says_def ends_block_def delta_body_def speech_def)

lemma speech_open: "acc_ok env a \<Longrightarrow> map_of (ac_open a) k = Some ob \<Longrightarrow> speech (it_body (ob_item ob))"
  by (auto simp: acc_ok_def opens_ok_def)

lemma final_bodies_delta:
  assumes "acc_ok env a" "e = MTextDelta k d \<and> kind = DeltaText \<or> e = MReasoningDelta k d \<and> kind = DeltaReasoning"
  shows "final_bodies (snd (block_delta k kind d a)) es = final_bodies a (e # es)"
proof (rule block_delta_cases[of k kind d a])
  assume same: "block_delta k kind d a = ([], a)"
    and unfit: "\<And>ob. map_of (ac_open a) k = Some ob \<Longrightarrow> delta_body (it_body (ob_item ob)) kind d = None \<or> kind = DeltaTail"
  have "grown k' (it_body (ob_item ob)) es = grown k' (it_body (ob_item ob)) (e # es)"
    if "open_for a id' = Some (k', ob)" for id' k' ob
  proof (cases "k' = k")
    case True
    then have ob: "map_of (ac_open a) k = Some ob"
      using that by (simp add: open_for_Some[OF assms(1)])
    then have "delta_body (it_body (ob_item ob)) kind d = None"
      using unfit assms(2) by auto
    then show ?thesis
      using True grown_delta[OF assms(2) speech_open[OF assms(1) ob]] by simp
  next
    case False
    then show ?thesis
      using grown_elsewhere[of e k'] assms(2) by (auto simp: aimed_def)
  qed
  then show ?thesis
    by (auto simp: same final_bodies_def final_body_def split: option.split)
next
  fix ob b
  assume ob: "map_of (ac_open a) k = Some ob" and b: "delta_body (it_body (ob_item ob)) kind d = Some b" "speech b"
    and r: "block_delta k kind d a = ([EmDelta (it_id (ob_item ob)) (ob_deltas ob) kind d],
       a\<lparr>ac_open := AList.update k \<lparr>ob_item = (ob_item ob)\<lparr>it_body := b\<rparr>, ob_deltas = ob_deltas ob + 1\<rparr> (ac_open a)\<rparr>)"
  let ?a = "snd (block_delta k kind d a)"
  have o': "open_for ?a id' = (if id' = it_id (ob_item ob)
      then Some (k, \<lparr>ob_item = (ob_item ob)\<lparr>it_body := b\<rparr>, ob_deltas = ob_deltas ob + 1\<rparr>) else open_for a id')" for id'
    by (rule open_for_grow[OF assms(1) acc_ok_delta[OF assms(1)] ob]) (simp_all add: r)
  have self: "open_for a (it_id (ob_item ob)) = Some (k, ob)"
    using ob by (simp add: open_for_Some[OF assms(1)])
  have "final_body ?a es j = final_body a (e # es) j" for j
  proof (cases "it_id j = it_id (ob_item ob)")
    case True
    then show ?thesis
      using self grown_delta[OF assms(2) speech_open[OF assms(1) ob], of es] b(1) by (simp add: final_body_def o')
  next
    case False
    then have "open_for a (it_id j) = Some (k', ob') \<Longrightarrow> k' \<noteq> k" for k' ob'
      using ob open_for_Some[OF assms(1), of "it_id j" k' ob'] by auto
    then show ?thesis
      using False assms(2) by (intro final_body_eqI) (auto simp: o' aimed_def)
  qed
  moreover have "ac_items ?a = ac_items a"
    by (simp add: r)
  ultimately show ?thesis
    by (simp add: final_bodies_def)
qed

lemma end_block_bodies:
  assumes "acc_ok env a"
  shows "final_bodies (snd (end_block env k st a)) es =
    map (\<lambda>i. case open_for a (it_id i) of Some (k', ob) \<Rightarrow> if k' = k then it_body (ob_item ob) else grown k' (it_body (ob_item ob)) es
      | None \<Rightarrow> it_body i) (ac_items a)"
proof (cases "map_of (ac_open a) k")
  case None
  then have "open_for a id' = Some (k', ob) \<Longrightarrow> k' \<noteq> k" for id' k' ob
    by (auto simp: open_for_Some[OF assms])
  then show ?thesis
    using None by (auto simp: end_block_def final_bodies_def final_body_def split: option.split)
next
  case (Some ob)
  let ?a = "snd (end_block env k st a)"
  define i where "i = (ob_item ob)\<lparr>it_status := st, it_completed_at := Some (se_now env (ac_ticks a))\<rparr>"
  have i: "it_id i = it_id (ob_item ob)" "it_body i = it_body (ob_item ob)"
      "ac_items ?a = replace_item i (ac_items a)" "ac_open ?a = AList.delete k (ac_open a)"
    by (simp_all add: end_block_def Some Let_def i_def)
  have o': "open_for ?a id' = (if id' = it_id (ob_item ob) then None else open_for a id')" for id'
    by (rule open_for_close[OF assms acc_ok_end_block[OF assms] Some i(4)])
  have items: "ac_items ?a = map (\<lambda>j. if it_id j = it_id i then i else j) (ac_items a)"
    using assms unfolding i(3) by (simp add: replace_item_map acc_ok_def item_ids_def)
  have self: "open_for a (it_id i) = Some (k, ob)"
    using Some by (simp add: open_for_Some[OF assms] i(1))
  have other: "it_id j \<noteq> it_id i \<Longrightarrow> open_for a (it_id j) = Some (k', ob') \<Longrightarrow> k' \<noteq> k" for j k' ob'
    using Some i(1) open_for_Some[OF assms, of "it_id j" k' ob'] by auto
  show ?thesis
    unfolding final_bodies_def items map_map
    by (rule map_cong) (use self other i in \<open>auto simp: final_body_def o' split: option.split\<close>)
qed

lemma grown_text_end: "grown k b (MTextEnd k # es) = b"
  by (cases b) (auto simp: grown_def said_Cons ends_block_def)

lemma grown_reasoning_end:
  "grown k b (MReasoningEnd k meta # es) = (case b of BReasoning t m \<Rightarrow> BReasoning t meta | _ \<Rightarrow> b)"
  by (cases b) (auto simp: grown_def said_Cons ends_block_def)

lemma final_bodies_text_end:
  assumes "acc_ok env a"
  shows "final_bodies (snd (end_block env k st a)) es = final_bodies a (MTextEnd k # es)"
  unfolding end_block_bodies[OF assms] unfolding final_bodies_def final_body_def
  by (auto simp: grown_text_end grown_elsewhere aimed_def split: option.split)

lemma final_bodies_reasoning_end:
  assumes "acc_ok env a"
  shows "final_bodies (snd (end_block env k st (with_metadata k meta a))) es = final_bodies a (MReasoningEnd k meta # es)"
proof (rule with_metadata_cases[of k meta a])
  assume same: "with_metadata k meta a = a"
    and plain: "\<And>ob t m. map_of (ac_open a) k = Some ob \<Longrightarrow> it_body (ob_item ob) \<noteq> BReasoning t m"
  have "(case it_body (ob_item ob) of BReasoning t m \<Rightarrow> BReasoning t meta | _ \<Rightarrow> it_body (ob_item ob)) = it_body (ob_item ob)"
    if "open_for a id' = Some (k, ob)" for id' ob
    using plain that by (auto simp: open_for_Some[OF assms] split: item_body.split)
  then show ?thesis
    unfolding same end_block_bodies[OF assms] unfolding final_bodies_def final_body_def
    by (auto simp: grown_reasoning_end grown_elsewhere aimed_def split: option.split)
next
  fix ob t m
  assume ob: "map_of (ac_open a) k = Some ob" "it_body (ob_item ob) = BReasoning t m"
    and w: "with_metadata k meta a =
       a\<lparr>ac_open := AList.update k \<lparr>ob_item = (ob_item ob)\<lparr>it_body := BReasoning t meta\<rparr>, ob_deltas = ob_deltas ob\<rparr> (ac_open a)\<rparr>"
  let ?a = "with_metadata k meta a"
  have o': "open_for ?a id' = (if id' = it_id (ob_item ob)
      then Some (k, \<lparr>ob_item = (ob_item ob)\<lparr>it_body := BReasoning t meta\<rparr>, ob_deltas = ob_deltas ob\<rparr>) else open_for a id')" for id'
    by (rule open_for_grow[OF assms acc_ok_with_metadata[OF assms] ob(1)]) (simp_all add: w)
  have self: "open_for a (it_id (ob_item ob)) = Some (k, ob)"
    using ob by (simp add: open_for_Some[OF assms])
  have other: "id' \<noteq> it_id (ob_item ob) \<Longrightarrow> open_for a id' = Some (k', ob') \<Longrightarrow> k' \<noteq> k" for id' k' ob'
    using ob(1) open_for_Some[OF assms, of id' k' ob'] by auto
  have far: "id' \<noteq> it_id (ob_item ob) \<Longrightarrow> open_for a id' = Some (k', ob') \<Longrightarrow>
      k' \<noteq> k \<and> grown k' b (MReasoningEnd k meta # es) = grown k' b es" for id' k' ob' b
    using other[of id' k' ob'] grown_elsewhere[of "MReasoningEnd k meta" k'] by (auto simp: aimed_def)
  have items: "ac_items ?a = ac_items a"
    by (simp add: w)
  show ?thesis
    unfolding end_block_bodies[OF acc_ok_with_metadata[OF assms]] items unfolding final_bodies_def final_body_def
    by (rule map_cong)
      (use self far ob(2) in \<open>auto simp: o' grown_reasoning_end split: option.split\<close>)
qed

lemma final_bodies_push:
  assumes "acc_ok env a" "inj (se_mint env)" "well_blocked (dom (map_of (ac_open a))) (e # es)"
  shows "final_bodies (snd (acc_push env e a)) es = final_bodies a (e # es) @ declares env e es"
proof (cases e)
  case (MTextStart k)
  then have "map_of (ac_open a) k = None"
    using assms(3) by auto
  then show ?thesis
    using final_bodies_open[OF assms(1,2), of k "BAssistant []" e es] MTextStart
    by (simp add: acc_push_def declares_def speech_def aimed_def grown_def)
next
  case (MReasoningStart k)
  then have "map_of (ac_open a) k = None"
    using assms(3) by auto
  then show ?thesis
    using final_bodies_open[OF assms(1,2), of k "BReasoning [] []" e es] MReasoningStart
    by (simp add: acc_push_def declares_def speech_def aimed_def grown_def end_metadata_def)
next
  case (MToolCall k name raw)
  have "final_bodies (snd (start_call env k name raw a)) es =
      final_bodies a (e # es) @ [pending_call_body k name (fst (parse_call env raw))]"
    using final_bodies_closed[OF assms(1,2), of e "snd (start_call env k name raw a)" "last (ac_items (snd (start_call env k name raw a)))"]
    by (simp add: start_call_def acc_fresh_def Let_def split_beta MToolCall aimed_def)
  then show ?thesis
    by (simp add: MToolCall acc_push_def declares_def)
next
  case (MCompacted before after)
  have "final_bodies (snd (acc_compacted env before after a)) es = final_bodies a (e # es) @ [compacted_body before after]"
    using final_bodies_closed[OF assms(1,2), of e "snd (acc_compacted env before after a)" "last (ac_items (snd (acc_compacted env before after a)))"]
    by (simp add: acc_compacted_def acc_fresh_def Let_def MCompacted aimed_def)
  then show ?thesis
    by (simp add: MCompacted acc_push_def declares_def)
next
  case (MTextDelta k d)
  then show ?thesis
    using final_bodies_delta[OF assms(1), of e k d DeltaText es] by (simp add: acc_push_def declares_def)
next
  case (MReasoningDelta k d)
  then show ?thesis
    using final_bodies_delta[OF assms(1), of e k d DeltaReasoning es] by (simp add: acc_push_def declares_def)
next
  case (MTextEnd k)
  then show ?thesis
    using final_bodies_text_end[OF assms(1)] by (simp add: acc_push_def declares_def)
next
  case (MReasoningEnd k meta)
  then show ?thesis
    using final_bodies_reasoning_end[OF assms(1)] by (simp add: acc_push_def declares_def end_reasoning_with)
qed (auto simp: acc_push_def declares_def aimed_def intro!: final_bodies_plain split: option.split)

lemma dom_update_alist: "dom (map_of (AList.update k v al)) = insert k (dom (map_of al))"
  by (simp add: update_conv')

lemma dom_delete_alist: "dom (map_of (AList.delete k al)) = dom (map_of al) - {k}"
  by (auto simp: delete_conv' split: if_splits)

lemma dom_block_delta: "dom (map_of (ac_open (snd (block_delta k kind d a)))) = dom (map_of (ac_open a))"
  by (rule block_delta_cases[of k kind d a]) (auto simp: update_conv' dest: map_of_SomeD split: if_splits)

lemma dom_end_block: "dom (map_of (ac_open (snd (end_block env k st a)))) = dom (map_of (ac_open a)) - {k}"
  by (auto simp: end_block_def Let_def delete_conv' split: option.splits if_splits)

lemma dom_with_metadata: "dom (map_of (ac_open (with_metadata k meta a))) = dom (map_of (ac_open a))"
  by (rule with_metadata_cases[of k meta a]) (auto simp: update_conv' split: if_splits)

lemma dom_start_block:
  "dom (map_of (ac_open (snd (start_block env k b a)))) = insert k (dom (map_of (ac_open a)))"
  by (simp add: start_block_def acc_fresh_def update_conv')

lemmas dom_blocks = dom_block_delta dom_end_block dom_with_metadata dom_start_block

lemma well_blocked_push:
  "well_blocked (dom (map_of (ac_open a))) (e # es) \<Longrightarrow> well_blocked (dom (map_of (ac_open (snd (acc_push env e a))))) es"
  by (cases e) (auto simp: acc_push_def end_reasoning_with dom_blocks start_call_def acc_compacted_def acc_fresh_def
      Let_def split_beta split: option.split)

lemma acc_pushes_bodies:
  assumes "acc_ok env a" "inj (se_mint env)" "well_blocked (dom (map_of (ac_open a))) es"
  shows "acc_ok env (snd (acc_pushes env es a))
    \<and> final_bodies (snd (acc_pushes env es a)) [] = final_bodies a es @ declared env es"
  using assms
proof (induction es arbitrary: a)
  case (Cons e es)
  let ?a = "snd (acc_push env e a)"
  have "acc_ok env ?a" "well_blocked (dom (map_of (ac_open ?a))) es"
    using Cons.prems acc_ok_push well_blocked_push by blast+
  then show ?case
    using Cons.IH[of ?a] Cons.prems(2) final_bodies_push[OF Cons.prems] declared_Cons[of env e es]
    by (simp add: split_beta del: declared.simps)
qed simp

lemma acc_ok_end_blocks: "acc_ok env a \<Longrightarrow> acc_ok env (snd (end_blocks env st ks a))"
  by (induction ks arbitrary: a) (auto simp: split_beta intro: acc_ok_end_block)

lemma end_blocks_bodies:
  assumes "acc_ok env a"
  shows "final_bodies (snd (end_blocks env st ks a)) [] = final_bodies a []"
  using assms
proof (induction ks arbitrary: a)
  case (Cons k ks)
  have "final_bodies (snd (end_block env k st a)) [] = final_bodies a []"
    unfolding end_block_bodies[OF Cons.prems] unfolding final_bodies_def final_body_def
    by (auto split: option.split)
  then show ?case
    using Cons.IH[OF acc_ok_end_block[OF Cons.prems]] by (simp add: split_beta)
qed simp

lemma end_blocks_dom: "dom (map_of (ac_open (snd (end_blocks env st ks a)))) = dom (map_of (ac_open a)) - set ks"
  by (induction ks arbitrary: a) (auto simp: split_beta dom_end_block)

lemma no_open_bodies: "map_of (ac_open a) = Map.empty \<Longrightarrow> final_bodies a [] = map it_body (ac_items a)"
  by (cases "ac_open a") (auto simp: final_bodies_def final_body_def open_for_def)

text \<open>A hash map lists its keys in some order.\<close>

definition lists_keys :: "stream_env \<Rightarrow> bool" where
  "lists_keys env \<longleftrightarrow> (\<forall>ks. set (se_keys env ks) = set ks)"

lemma end_blocks_all:
  assumes "lists_keys env"
  shows "map_of (ac_open (snd (end_blocks env st (se_keys env (map fst (ac_open a))) a))) = Map.empty"
  using end_blocks_dom[of env st "se_keys env (map fst (ac_open a))" a] assms
  by (simp add: lists_keys_def dom_map_of_conv_image_fst)

section \<open>The calls of a stream, and what is left open\<close>

definition item_call :: "item \<Rightarrow> (item_id \<times> tool_call) option" where
  "item_call i =
     (case it_body i of
        BToolCall c \<Rightarrow> Some (it_id i, \<lparr>tc_call_id = cb_call_id c, tc_name = cb_name c, tc_input = cb_input c\<rparr>)
      | _ \<Rightarrow> None)"

text \<open>An item the stream is done with: closed, or a call that waits for the gate.\<close>

definition done_item :: "item \<Rightarrow> bool" where
  "done_item i \<longleftrightarrow> (if item_call i = None then is_terminal i else it_status i = StPending)"

definition items_ok :: "accumulator \<Rightarrow> bool" where
  "items_ok a \<longleftrightarrow>
     ac_tool_calls a = List.map_filter item_call (ac_items a)
     \<and> (\<forall>i \<in> set (ac_items a). if open_for a (it_id i) = None then done_item i else speech (it_body i))"

lemma speech_no_call: "speech (it_body i) \<Longrightarrow> item_call i = None"
  by (auto simp: speech_def item_call_def split: item_body.splits)

lemma items_ok_same:
  "items_ok a \<Longrightarrow> ac_items a' = ac_items a \<Longrightarrow> ac_tool_calls a' = ac_tool_calls a \<Longrightarrow>
     (\<And>id'. open_for a' id' = None \<longleftrightarrow> open_for a id' = None) \<Longrightarrow> items_ok a'"
  by (simp add: items_ok_def)

lemma items_ok_append:
  assumes "items_ok a" "ac_items a' = ac_items a @ [i]" "it_id i \<notin> set (item_ids a)"
    and "ac_tool_calls a' = ac_tool_calls a @ (case item_call i of Some c \<Rightarrow> [c] | None \<Rightarrow> [])"
    and "\<And>id'. id' \<noteq> it_id i \<Longrightarrow> open_for a' id' = None \<longleftrightarrow> open_for a id' = None"
    and "if open_for a' (it_id i) = None then done_item i else speech (it_body i)"
  shows "items_ok a'"
proof -
  have "\<forall>j \<in> set (ac_items a). it_id j \<noteq> it_id i"
    using assms(3) in_item_ids by metis
  then show ?thesis
    using assms unfolding items_ok_def
    by (auto simp: map_filter_append map_filter_simps split: option.split)
qed

lemma map_filter_map_same:
  "(\<And>x. x \<in> set xs \<Longrightarrow> f (g x) = f x) \<Longrightarrow> List.map_filter f (map g xs) = List.map_filter f xs"
  by (induction xs) (auto simp: map_filter_simps split: option.split)

lemma items_ok_end_block:
  assumes "acc_ok env a" "items_ok a" "status_is_terminal st"
  shows "items_ok (snd (end_block env k st a))"
proof (cases "map_of (ac_open a) k")
  case None
  then show ?thesis
    using assms(2) by (simp add: end_block_def)
next
  case (Some ob)
  let ?a = "snd (end_block env k st a)"
  define i where "i = (ob_item ob)\<lparr>it_status := st, it_completed_at := Some (se_now env (ac_ticks a))\<rparr>"
  have i: "it_id i = it_id (ob_item ob)" "speech (it_body i)" "is_terminal i"
    using speech_open[OF assms(1) Some] assms(3) by (simp_all add: i_def is_terminal_def)
  have a': "ac_items ?a = replace_item i (ac_items a)" "ac_open ?a = AList.delete k (ac_open a)"
      "ac_tool_calls ?a = ac_tool_calls a"
    by (simp_all add: end_block_def Some Let_def i_def)
  have o': "open_for ?a id' = (if id' = it_id i then None else open_for a id')" for id'
    using open_for_close[OF assms(1) acc_ok_end_block[OF assms(1)] Some a'(2)] i(1) by simp
  have items: "ac_items ?a = map (\<lambda>j. if it_id j = it_id i then i else j) (ac_items a)"
    using assms(1) unfolding a'(1) by (simp add: replace_item_map acc_ok_def item_ids_def)
  have "open_for a (it_id i) = Some (k, ob)"
    using Some by (simp add: open_for_Some[OF assms(1)] i(1))
  then have "item_call (if it_id j = it_id i then i else j) = item_call j" if "j \<in> set (ac_items a)" for j
    using that assms(2) i(2) speech_no_call[of j] speech_no_call[of i] by (auto simp: items_ok_def)
  then have "List.map_filter item_call (ac_items ?a) = List.map_filter item_call (ac_items a)"
    unfolding items by (rule map_filter_map_same)
  moreover have "done_item i"
    using i(2,3) speech_no_call[of i] by (simp add: done_item_def)
  ultimately show ?thesis
    using assms(2) i(1) unfolding items_ok_def a'(3) by (auto simp: items o')
qed

lemma items_ok_grow:
  assumes "acc_ok env a" "acc_ok env a'" "items_ok a" "map_of (ac_open a) k = Some ob"
    and "it_id (ob_item ob') = it_id (ob_item ob)" "ac_open a' = AList.update k ob' (ac_open a)"
    and "ac_items a' = ac_items a" "ac_tool_calls a' = ac_tool_calls a"
  shows "items_ok a'"
proof (rule items_ok_same[OF assms(3,7,8)])
  fix id'
  have "open_for a (it_id (ob_item ob)) = Some (k, ob)"
    using assms(4) by (simp add: open_for_Some[OF assms(1)])
  then show "open_for a' id' = None \<longleftrightarrow> open_for a id' = None"
    using open_for_grow[OF assms(1,2,4,5,6)] by simp
qed

lemma items_ok_delta:
  assumes "acc_ok env a" "items_ok a"
  shows "items_ok (snd (block_delta k kind d a))"
proof (rule block_delta_cases[of k kind d a])
  fix ob b
  assume ob: "map_of (ac_open a) k = Some ob"
    and r: "block_delta k kind d a = ([EmDelta (it_id (ob_item ob)) (ob_deltas ob) kind d],
       a\<lparr>ac_open := AList.update k \<lparr>ob_item = (ob_item ob)\<lparr>it_body := b\<rparr>, ob_deltas = ob_deltas ob + 1\<rparr> (ac_open a)\<rparr>)"
  show ?thesis
    by (rule items_ok_grow[OF assms(1) acc_ok_delta[OF assms(1)] assms(2) ob]) (simp_all add: r)
qed (simp add: assms(2))

lemma items_ok_with_metadata:
  assumes "acc_ok env a" "items_ok a"
  shows "items_ok (with_metadata k meta a)"
proof (rule with_metadata_cases[of k meta a])
  fix ob t m
  assume ob: "map_of (ac_open a) k = Some ob"
    and w: "with_metadata k meta a =
       a\<lparr>ac_open := AList.update k \<lparr>ob_item = (ob_item ob)\<lparr>it_body := BReasoning t meta\<rparr>, ob_deltas = ob_deltas ob\<rparr> (ac_open a)\<rparr>"
  show ?thesis
    by (rule items_ok_grow[OF assms(1) acc_ok_with_metadata[OF assms(1)] assms(2) ob]) (simp_all add: w)
qed (simp add: assms(2))

lemma items_ok_start_block:
  assumes "acc_ok env a" "inj (se_mint env)" "items_ok a" "map_of (ac_open a) k = None" "speech b"
  shows "items_ok (snd (start_block env k b a))"
proof -
  let ?a = "snd (start_block env k b a)" and ?n = "se_mint env (ac_minted a)"
  obtain i where i: "ac_items ?a = ac_items a @ [i]" "it_id i = ?n" "it_body i = b"
      "ac_open ?a = AList.update k \<lparr>ob_item = i, ob_deltas = 0\<rparr> (ac_open a)" "ac_tool_calls ?a = ac_tool_calls a"
    by (simp add: start_block_def acc_fresh_def)
  have n: "it_id i \<notin> set (item_ids a)"
    using fresh_id[OF assms(1,2)] i(2) by simp
  have o': "open_for ?a id' = (if id' = it_id i then Some (k, \<lparr>ob_item = i, ob_deltas = 0\<rparr>) else open_for a id')" for id'
    using open_for_new[OF assms(1) acc_ok_start_block[OF assms(1,2,5)] assms(4) _ i(4)] n by simp
  show ?thesis
    by (rule items_ok_append[OF assms(3) i(1) n]) (use assms(5) i speech_no_call[of i] in \<open>simp_all add: o'\<close>)
qed

lemma items_ok_closed:
  assumes "acc_ok env a" "inj (se_mint env)" "items_ok a" "it_id i = se_mint env (ac_minted a)"
    and "ac_open a' = ac_open a" "ac_items a' = ac_items a @ [i]"
    and "ac_tool_calls a' = ac_tool_calls a @ (case item_call i of Some c \<Rightarrow> [c] | None \<Rightarrow> [])" "done_item i"
  shows "items_ok a'"
proof -
  have n: "it_id i \<notin> set (item_ids a)"
    using fresh_id[OF assms(1,2)] assms(4) by simp
  show ?thesis
    by (rule items_ok_append[OF assms(3,6) n assms(7)])
      (use assms(8) open_for_ids[OF assms(1) n] in \<open>simp_all add: open_for_cong[OF assms(5)]\<close>)
qed

lemma items_ok_push:
  assumes "acc_ok env a" "inj (se_mint env)" "items_ok a" "well_blocked (dom (map_of (ac_open a))) (e # es)"
  shows "items_ok (snd (acc_push env e a))"
proof (cases e)
  case (MTextStart k)
  then have "map_of (ac_open a) k = None"
    using assms(4) by auto
  then show ?thesis
    using items_ok_start_block[OF assms(1-3), of k "BAssistant []"] MTextStart by (simp add: acc_push_def speech_def)
next
  case (MReasoningStart k)
  then have "map_of (ac_open a) k = None"
    using assms(4) by auto
  then show ?thesis
    using items_ok_start_block[OF assms(1-3), of k "BReasoning [] []"] MReasoningStart by (simp add: acc_push_def speech_def)
next
  case (MToolCall k name raw)
  have "items_ok (snd (start_call env k name raw a))"
    by (rule items_ok_closed[OF assms(1-3), where i="last (ac_items (snd (start_call env k name raw a)))"])
      (simp_all add: start_call_def acc_fresh_def Let_def split_beta item_call_def done_item_def pending_call_body_def)
  then show ?thesis
    by (simp add: acc_push_def MToolCall)
next
  case (MCompacted before after)
  have "items_ok (snd (acc_compacted env before after a))"
    by (rule items_ok_closed[OF assms(1-3), where i="last (ac_items (snd (acc_compacted env before after a)))"])
      (simp_all add: acc_compacted_def acc_fresh_def Let_def item_call_def done_item_def compacted_body_def is_terminal_def
        status_is_terminal_def)
  then show ?thesis
    by (simp add: acc_push_def MCompacted)
qed (use assms in \<open>auto simp: acc_push_def end_reasoning_with status_is_terminal_def
      intro!: items_ok_delta items_ok_end_block items_ok_with_metadata acc_ok_with_metadata
      intro: items_ok_same[of a] simp: open_for_def split: option.split\<close>)

lemma items_ok_pushes:
  "acc_ok env a \<Longrightarrow> inj (se_mint env) \<Longrightarrow> items_ok a \<Longrightarrow> well_blocked (dom (map_of (ac_open a))) es \<Longrightarrow>
     items_ok (snd (acc_pushes env es a))"
proof (induction es arbitrary: a)
  case (Cons e es)
  then show ?case
    using items_ok_push[OF Cons.prems] acc_ok_push[OF Cons.prems(1,2)] well_blocked_push[OF Cons.prems(4)]
    by (simp add: split_beta)
qed simp

lemma items_ok_end_blocks:
  "acc_ok env a \<Longrightarrow> items_ok a \<Longrightarrow> status_is_terminal st \<Longrightarrow> items_ok (snd (end_blocks env st ks a))"
  by (induction ks arbitrary: a) (auto simp: split_beta intro: items_ok_end_block acc_ok_end_block)

lemma items_ok_done:
  "items_ok a \<Longrightarrow> map_of (ac_open a) = Map.empty \<Longrightarrow>
     ac_tool_calls a = List.map_filter item_call (ac_items a) \<and> (\<forall>i \<in> set (ac_items a). done_item i)"
  by (cases "ac_open a") (auto simp: items_ok_def open_for_def)

section \<open>What a stream comes to\<close>

definition fold_stream :: "stream_env \<Rightarrow> bool \<Rightarrow> model_event list \<Rightarrow> accumulator \<Rightarrow> emit list \<times> finished" where
  "fold_stream env interrupted es a =
     (let (xs, a1) = acc_pushes env es a; (ys, f) = acc_finish env interrupted a1 in (xs @ ys, f))"

lemma finish_done:
  assumes "acc_ok env a" "inj (se_mint env)" "lists_keys env" "items_ok a" "well_blocked (dom (map_of (ac_open a))) es"
  defines "f \<equiv> snd (fold_stream env False es a)"
  shows "map it_body (fi_items f) = final_bodies a es @ declared env es"
    and "fi_tool_calls f = List.map_filter item_call (fi_items f)"
    and "\<forall>i \<in> set (fi_items f). done_item i"
proof -
  let ?p = "snd (acc_pushes env es a)"
  define e where "e = snd (end_blocks env StCompleted (se_keys env (map fst (ac_open ?p))) ?p)"
  have p: "acc_ok env ?p" "final_bodies ?p [] = final_bodies a es @ declared env es"
    using acc_pushes_bodies[OF assms(1,2,5)] by simp_all
  have none: "map_of (ac_open e) = Map.empty"
    unfolding e_def by (rule end_blocks_all[OF assms(3)])
  have "items_ok e"
    unfolding e_def using items_ok_pushes[OF assms(1,2,4,5)] p(1)
    by (simp add: items_ok_end_blocks status_is_terminal_def)
  then have done_e: "ac_tool_calls e = List.map_filter item_call (ac_items e)" "\<forall>i \<in> set (ac_items e). done_item i"
    using items_ok_done none by blast+
  have f: "fi_items f = ac_items e" "fi_tool_calls f = ac_tool_calls e"
    by (simp_all add: f_def e_def fold_stream_def acc_finish_def Let_def split_beta)
  show "map it_body (fi_items f) = final_bodies a es @ declared env es"
    using end_blocks_bodies[OF p(1)] p(2) no_open_bodies[OF none] unfolding f(1) e_def by simp
  show "fi_tool_calls f = List.map_filter item_call (fi_items f)" "\<forall>i \<in> set (fi_items f). done_item i"
    using done_e f by simp_all
qed

text \<open>
  C15: the items a turn keeps of a stream are the blocks of the stream.  For every
  stream that does not open a block while one of its name is open, whatever ends it
  lacks, names wrongly or gives twice: the items carry, in order of their starts, the
  text that the deltas of their own kind say up to their end; the calls handed to the
  gate are exactly the call items, in order; and every item is closed, except those
  calls, which wait.
\<close>

theorem stream_items_are_its_blocks:
  assumes "inj (se_mint env)" "lists_keys env" "well_blocked {} es"
    and "f = snd (fold_stream env False es (accumulator_new turn round minted ticks))"
  shows "map it_body (fi_items f) = declared env es
    \<and> fi_tool_calls f = List.map_filter item_call (fi_items f)
    \<and> (\<forall>i \<in> set (fi_items f). if item_call i = None then is_terminal i else it_status i = StPending)"
proof -
  let ?a = "accumulator_new turn round minted ticks"
  have a: "items_ok ?a" "dom (map_of (ac_open ?a)) = {}" "final_bodies ?a es = []"
    by (simp_all add: items_ok_def accumulator_new_def final_bodies_def map_filter_simps)
  have w: "well_blocked (dom (map_of (ac_open ?a))) es"
    using assms(3) a(2) by simp
  show ?thesis
    using finish_done[OF acc_ok_new assms(1,2) a(1) w] a(3) unfolding assms(4) done_item_def by simp
qed

subsection \<open>Witness\<close>

definition sample_stream_env :: stream_env where
  "sample_stream_env =
     \<lparr>se_mint = (\<lambda>n. replicate n CHR ''i''), se_now = int, se_parse = (\<lambda>s. if s = ''x'' then Inl ''bad'' else Inr (JString s)),
      se_keys = rev\<rparr>"

lemma sample_env_ok: "inj (se_mint sample_stream_env)" "lists_keys sample_stream_env"
  by (auto simp: sample_stream_env_def inj_def lists_keys_def dest: arg_cong[of _ _ length])

definition sample_stream :: "model_event list" where
  "sample_stream =
     [MReasoningStart ''r'', MTextStart ''t'', MReasoningDelta ''r'' ''so'', MTextDelta ''t'' ''he'', MTextDelta ''r'' ''no'',
      MReasoningEnd ''r'' [], MTextDelta ''t'' ''llo'', MToolCall ''c'' ''Bash'' ''x'', MTextStart ''u'', MTextDelta ''u'' ''end'']"

theorem stream_items_are_its_blocks_witness:
  "map it_body (fi_items (snd (fold_stream sample_stream_env False sample_stream (accumulator_new ''t'' 0 0 0)))) =
     [BReasoning ''so'' [], BAssistant ''hello'', pending_call_body ''c'' ''Bash'' (JString ''x''), BAssistant ''end'']"
proof -
  have "well_blocked {} sample_stream"
    by (simp add: sample_stream_def)
  moreover have "declared sample_stream_env sample_stream =
      [BReasoning ''so'' [], BAssistant ''hello'', pending_call_body ''c'' ''Bash'' (JString ''x''), BAssistant ''end'']"
    by code_simp
  ultimately show ?thesis
    using stream_items_are_its_blocks[OF sample_env_ok] by metis
qed

end
