(* ===== verification/Core_Stream.thy ===== *)
theory Core_Stream
  imports Core_Accumulator
begin

text \<open>
  The streaming leg of a round (\<open>bingo-core/src/turn/stream.rs\<close>): what a transcript
  that folds the published events of a stream comes to, and what is left of it when
  the stream failed and its items are withdrawn before a retry.
\<close>

section \<open>Withdrawing\<close>

lemma items_upsert: "wf_transcript t \<Longrightarrow> tr_items (fst (upsert t i)) = upsert_list (tr_items t) i"
  using positions_upsert_list[of "tr_items t" i]
  by (auto simp: wf_transcript_def upsert_def Let_def split: option.splits)

text \<open>
  An event about an item that will be withdrawn makes no difference to what is left:
  the two transcripts agree on everything but items and order entries of that id.
\<close>

definition withdrawn :: "item_id set \<Rightarrow> transcript \<Rightarrow> transcript" where
  "withdrawn gone t =
     (let items = filter (\<lambda>i. it_id i \<notin> gone) (tr_items t) in
      t\<lparr>tr_hidden := length (filter (\<lambda>i. it_id i \<notin> gone) (take (tr_hidden t) (tr_items t))),
        tr_items := items, tr_positions := positions items,
        tr_model_order := filter (\<lambda>k. k \<notin> gone) (tr_model_order t), tr_model_ids := tr_model_ids t - gone,
        tr_revision := 0\<rparr>)"

lemma remove_withdrawn:
  assumes "wf_transcript t"
  shows "(remove_items t dropped)\<lparr>tr_revision := 0\<rparr> = withdrawn (set dropped) t"
proof -
  have "tr_hidden t - length (filter (\<lambda>i. it_id i \<in> set dropped) (take (tr_hidden t) (tr_items t)))
      = length (filter (\<lambda>i. it_id i \<notin> set dropped) (take (tr_hidden t) (tr_items t)))"
    using assms sum_length_filter_compl[of "\<lambda>i. it_id i \<in> set dropped" "take (tr_hidden t) (tr_items t)"]
    by (simp add: wf_transcript_def)
  then show ?thesis
    by (simp add: remove_items_def withdrawn_def Let_def)
qed

lemma filter_update:
  "n < length xs \<Longrightarrow> \<not> P (xs ! n) \<Longrightarrow> \<not> P x \<Longrightarrow> filter P (xs[n := x]) = filter P xs"
  by (induction xs arbitrary: n) (auto simp: nth_Cons split: nat.splits)

lemma filter_take_update:
  "n < length xs \<Longrightarrow> \<not> P (xs ! n) \<Longrightarrow> \<not> P x \<Longrightarrow> filter P (take m (xs[n := x])) = filter P (take m xs)"
proof (cases "n < m")
  case True
  assume "n < length xs" "\<not> P (xs ! n)" "\<not> P x"
  then show ?thesis
    using True filter_update[of n "take m xs" P x] by (simp add: take_update_swap)
qed simp

lemma withdrawn_replace:
  assumes "n < length (tr_items t)" "it_id (tr_items t ! n) = it_id i" "it_id i \<in> gone"
  shows "withdrawn gone (t\<lparr>tr_items := (tr_items t)[n := i]\<rparr>) = withdrawn gone t"
  using assms filter_update[of n "tr_items t" "\<lambda>i. it_id i \<notin> gone" i]
    filter_take_update[of n "tr_items t" "\<lambda>i. it_id i \<notin> gone" i "tr_hidden t"]
  by (simp add: withdrawn_def Let_def)

lemma withdrawn_upsert:
  assumes "wf_transcript t" "it_id i \<in> gone"
  shows "withdrawn gone (fst (upsert t i)) = withdrawn gone t"
proof -
  define t1 where "t1 = (case Mapping.lookup (tr_positions t) (it_id i) of
      Some n \<Rightarrow> t\<lparr>tr_items := (tr_items t)[n := i]\<rparr>
    | None \<Rightarrow> t\<lparr>tr_positions := Mapping.update (it_id i) (length (tr_items t)) (tr_positions t), tr_items := tr_items t @ [i]\<rparr>)"
  have "tr_hidden t \<le> length (tr_items t)"
    using assms(1) by (simp add: wf_transcript_def)
  then have "withdrawn gone t1 = withdrawn gone t"
    using assms(2) withdrawn_replace[of _ t i gone] position_in_range[OF assms(1), of "it_id i"]
    by (auto simp: t1_def withdrawn_def Let_def split: option.split)
  moreover have "withdrawn gone (fst (upsert t i)) = withdrawn gone t1"
    using assms(2) by (auto simp: upsert_def t1_def[symmetric] Let_def withdrawn_def)
  ultimately show ?thesis
    by simp
qed

lemma withdrawn_delta:
  assumes "wf_transcript t" "k \<in> gone"
  shows "withdrawn gone (fst (delta t k kind d)) = withdrawn gone t"
proof (cases "Mapping.lookup (tr_positions t) k")
  case (Some n)
  have n: "n < length (tr_items t)" "it_id (tr_items t ! n) = k"
    using position_in_range[OF assms(1) Some] by simp_all
  show ?thesis
    using assms(2) n withdrawn_replace[OF n(1), of "(tr_items t ! n)\<lparr>it_body := b\<rparr>" gone for b]
    by (auto simp: delta_def Some split: option.split)
qed (simp add: delta_def)

lemma withdrawn_revision [simp]: "withdrawn gone (t\<lparr>tr_revision := r\<rparr>) = withdrawn gone t"
  by (simp add: withdrawn_def Let_def)

text \<open>The ids an emitted event is about.\<close>

definition emit_id :: "emit \<Rightarrow> item_id" where
  "emit_id em = (case em of EmStarted i \<Rightarrow> it_id i | EmDelta k _ _ _ \<Rightarrow> k | EmCompleted i \<Rightarrow> it_id i)"

lemma quieted_id [simp]: "it_id (quieted tools i) = it_id i"
  by (simp add: quieted_def split: item_body.split)

lemma withdrawn_emit:
  "wf_transcript t \<Longrightarrow> emit_id em \<in> gone \<Longrightarrow>
     withdrawn gone (fst (transcript_apply t (emit_event tools em))) = withdrawn gone t"
  by (cases em) (auto simp: transcript_apply_def change_def emit_event_def emit_id_def split_beta
      withdrawn_upsert withdrawn_delta)

lemma withdrawn_emits:
  "wf_transcript t \<Longrightarrow> emit_id ` set ems \<subseteq> gone \<Longrightarrow>
     withdrawn gone (transcript_fold t (map (emit_event tools) ems)) = withdrawn gone t"
proof (induction ems arbitrary: t)
  case (Cons em ems)
  then show ?case
    using Cons.IH[OF wf_transcript_apply[OF Cons.prems(1)]] by (simp add: withdrawn_emit)
qed simp

lemma wf_fold: "wf_transcript t \<Longrightarrow> wf_transcript (transcript_fold t es)"
  by (induction es arbitrary: t) (simp_all add: wf_transcript_apply)

lemma fold_append: "transcript_fold t (es @ fs) = transcript_fold (transcript_fold t es) fs"
  by (simp add: transcript_fold_def)

lemma withdrawn_nothing:
  assumes "wf_transcript t" "\<forall>i \<in> set (tr_items t). it_id i \<notin> gone"
  shows "withdrawn gone t = t\<lparr>tr_revision := 0\<rparr>"
proof -
  have "set (take (tr_hidden t) (tr_items t)) \<subseteq> set (tr_items t)"
    by (rule set_take_subset)
  then have "filter (\<lambda>i. it_id i \<notin> gone) (take (tr_hidden t) (tr_items t)) = take (tr_hidden t) (tr_items t)"
    using assms(2) by (intro filter_True) blast
  moreover have "set (tr_model_order t) \<inter> gone = {}"
    using assms unfolding wf_transcript_def by blast
  moreover have "filter (\<lambda>i. it_id i \<notin> gone) (tr_items t) = tr_items t"
    using assms(2) by (simp add: filter_True)
  ultimately show ?thesis
    using assms(1) by (auto simp: withdrawn_def wf_transcript_def Let_def min_absorb2 Diff_triv intro!: transcript.equality filter_True)
qed

text \<open>Everything published of a stream is about one of its items.\<close>

lemma open_ids: "acc_ok env a \<Longrightarrow> map_of (ac_open a) k = Some ob \<Longrightarrow> it_id (ob_item ob) \<in> set (item_ids a)"
  by (auto simp: acc_ok_def opens_ok_def)

definition about_items :: "accumulator \<Rightarrow> emit list \<times> accumulator \<Rightarrow> bool" where
  "about_items a r \<longleftrightarrow> emit_id ` set (fst r) \<subseteq> set (item_ids (snd r)) \<and> set (item_ids a) \<subseteq> set (item_ids (snd r))"

lemma about_delta: "acc_ok env a \<Longrightarrow> about_items a (block_delta k kind d a)"
  by (rule block_delta_cases[of k kind d a])
    (auto simp: about_items_def emit_id_def item_ids_def[of "ac_open_update _ _"] dest: open_ids simp flip: item_ids_def)

lemma about_end_block: "acc_ok env a \<Longrightarrow> about_items a (end_block env k st a)"
  using open_ids[of env a k]
  by (auto simp: about_items_def end_block_def emit_id_def Let_def item_ids_def simp flip: set_map split: option.split)

lemma item_ids_with_metadata: "item_ids (with_metadata k meta a) = item_ids a"
  by (rule with_metadata_cases[of k meta a]) (simp_all add: item_ids_def)

lemma about_push:
  assumes "acc_ok env a"
  shows "about_items a (acc_push env e a)"
proof (cases e)
  case (MReasoningEnd k meta)
  then show ?thesis
    using about_end_block[OF acc_ok_with_metadata[OF assms], of k meta k StCompleted]
    by (simp add: acc_push_def end_reasoning_with about_items_def item_ids_with_metadata)
qed (use assms in \<open>auto simp: acc_push_def about_delta about_end_block,
    auto simp: about_items_def start_block_def acc_fresh_def emit_id_def item_ids_def start_call_def acc_compacted_def Let_def
      split_beta split: option.split\<close>)

lemma about_then:
  "about_items a (xs, a1) \<Longrightarrow> about_items a1 (ys, a2) \<Longrightarrow> about_items a (xs @ ys, a2)"
  by (auto simp: about_items_def)

lemma about_pushes: "acc_ok env a \<Longrightarrow> inj (se_mint env) \<Longrightarrow> about_items a (acc_pushes env es a)"
proof (induction es arbitrary: a)
  case (Cons e es)
  obtain xs a1 where e: "acc_push env e a = (xs, a1)"
    by force
  obtain ys a2 where es: "acc_pushes env es a1 = (ys, a2)"
    by force
  have "about_items a (xs, a1)" "about_items a1 (ys, a2)"
    using about_push[OF Cons.prems(1), of e] Cons.IH[of a1] acc_ok_push[OF Cons.prems, of e] Cons.prems(2) e es by simp_all
  then show ?case
    using about_then e es by simp
qed (simp add: about_items_def)

lemma about_end_blocks: "acc_ok env a \<Longrightarrow> about_items a (end_blocks env st ks a)"
proof (induction ks arbitrary: a)
  case (Cons k ks)
  obtain xs a1 where e: "end_block env k st a = (xs, a1)"
    by force
  obtain ys a2 where es: "end_blocks env st ks a1 = (ys, a2)"
    by force
  have "about_items a (xs, a1)" "about_items a1 (ys, a2)"
    using about_end_block[OF Cons.prems, of k st] Cons.IH[of a1] acc_ok_end_block[OF Cons.prems, of k st] e es by simp_all
  then show ?case
    using about_then e es by simp
qed (simp add: about_items_def)

lemma end_blocks_ids: "item_ids (snd (end_blocks env st ks a)) = item_ids a"
proof (induction ks arbitrary: a)
  case (Cons k ks)
  have "item_ids (snd (end_block env k st a)) = item_ids a"
    by (simp add: end_block_def item_ids_def Let_def split: option.split)
  then show ?case
    using Cons.IH by (simp add: split_beta)
qed simp

lemma acc_ok_pushes: "acc_ok env a \<Longrightarrow> inj (se_mint env) \<Longrightarrow> acc_ok env (snd (acc_pushes env es a))"
  by (induction es arbitrary: a) (simp_all add: split_beta acc_ok_push)

lemma stream_about_items:
  assumes "acc_ok env a" "inj (se_mint env)"
  shows "emit_id ` set (fst (fold_stream env interrupted es a)) \<subseteq> set (item_ids (snd (acc_pushes env es a)))"
proof -
  let ?p = "snd (acc_pushes env es a)"
  have p: "acc_ok env ?p"
    by (rule acc_ok_pushes[OF assms])
  show ?thesis
    using about_pushes[OF assms, of es]
      about_end_blocks[OF p, of "if interrupted then StInterrupted else StCompleted" "se_keys env (map fst (ac_open ?p))"]
    by (auto simp: fold_stream_def acc_finish_def Let_def split_beta about_items_def end_blocks_ids)
qed

text \<open>The items of a stream are minted while it runs.\<close>

lemma push_mints:
  "set (item_ids (snd (acc_push env e a))) \<subseteq> set (item_ids a) \<union> se_mint env ` {ac_minted a..}
     \<and> ac_minted a \<le> ac_minted (snd (acc_push env e a))"
proof (cases e)
  case (MReasoningEnd k meta)
  have "ac_minted (with_metadata k meta a) = ac_minted a"
    by (rule with_metadata_cases[of k meta a]) simp_all
  then show ?thesis
    using MReasoningEnd item_ids_with_metadata[of k meta a]
    by (auto simp: acc_push_def end_reasoning_with end_block_def item_ids_def Let_def simp flip: set_map split: option.split)
qed (auto simp: acc_push_def end_block_def block_delta_def start_block_def acc_fresh_def item_ids_def start_call_def
    acc_compacted_def Let_def split_beta simp flip: set_map split: option.split)

lemma pushes_mint:
  "set (item_ids (snd (acc_pushes env es a))) \<subseteq> set (item_ids a) \<union> se_mint env ` {ac_minted a..}"
proof (induction es arbitrary: a)
  case (Cons e es)
  have "{ac_minted (snd (acc_push env e a))..} \<subseteq> {ac_minted a..}"
    using push_mints[of env e a] by auto
  then show ?case
    using Cons.IH[of "snd (acc_push env e a)"] push_mints[of env e a] by (auto simp: split_beta)
qed simp

text \<open>
  A stream that failed leaves no trace.  Whatever a provider sent, well formed or
  not, and wherever it broke off: once the retry is announced with the items of the
  accumulator as dropped, the transcript that folded everything published of the
  stream is the transcript of before it, items, order and window alike.
\<close>

theorem failed_stream_leaves_no_trace:
  assumes "wf_transcript t" "inj (se_mint env)" "\<forall>n \<ge> minted. se_mint env n \<notin> it_id ` set (tr_items t)"
    and "a = accumulator_new turn round minted ticks"
    and "published = map (emit_event tools) (fst (fold_stream env interrupted es a))"
    and "dropped = item_ids (snd (acc_pushes env es a))"
  shows "transcript_eq (transcript_fold t (published @ [EvTurnRetrying turn attempt mx delay_ms dropped why])) t"
proof -
  have ok: "acc_ok env a"
    unfolding assms(4) by (rule acc_ok_new)
  have "emit_id ` set (fst (fold_stream env interrupted es a)) \<subseteq> set dropped"
    unfolding assms(6) by (rule stream_about_items[OF ok assms(2)])
  then have "withdrawn (set dropped) (transcript_fold t published) = withdrawn (set dropped) t"
    unfolding assms(5) by (rule withdrawn_emits[OF assms(1)])
  moreover have mints: "set dropped \<subseteq> se_mint env ` {minted..}"
    using pushes_mint[of env es a] by (simp add: assms(4,6) accumulator_new_def item_ids_def)
  have "it_id i \<notin> set dropped" if "i \<in> set (tr_items t)" for i
  proof
    assume "it_id i \<in> set dropped"
    then obtain n where "n \<ge> minted" "it_id i = se_mint env n"
      using mints by auto
    then show False
      using assms(3) that by force
  qed
  then have "withdrawn (set dropped) t = t\<lparr>tr_revision := 0\<rparr>"
    by (intro withdrawn_nothing[OF assms(1)] ballI)
  moreover have "(remove_items (transcript_fold t published) dropped)\<lparr>tr_revision := 0\<rparr>
      = withdrawn (set dropped) (transcript_fold t published)"
    by (rule remove_withdrawn[OF wf_fold[OF assms(1)]])
  ultimately show ?thesis
    by (simp add: fold_append transcript_apply_def change_def transcript_eq_def)
qed

subsection \<open>Witness\<close>

definition sample_transcript :: transcript where
  "sample_transcript = from_items [\<lparr>it_id = ''u'', it_turn = None, it_round = 0, it_status = StCompleted, it_started_at = 0,
     it_completed_at = Some 0, it_intent = None, it_body = BAssistant ''before'', it_meta = []\<rparr>]"

lemma sample_apart: "\<forall>n \<ge> 0. se_mint sample_stream_env n \<notin> it_id ` set (tr_items sample_transcript)"
proof -
  have "map it_id (tr_items sample_transcript) = [''u'']"
    by code_simp
  then have "it_id ` set (tr_items sample_transcript) = {''u''}"
    by (metis list.set(1) list.set(2) set_map)
  moreover have "replicate n CHR ''i'' \<noteq> ''u''" for n
    by (cases n) simp_all
  ultimately show ?thesis
    by (simp add: sample_stream_env_def)
qed

theorem failed_stream_leaves_no_trace_witness:
  "transcript_eq (transcript_fold sample_transcript
     (map (emit_event []) (fst (fold_stream sample_stream_env False (sample_stream @ sample_stream) (accumulator_new ''t'' 0 0 0)))
      @ [EvTurnRetrying ''t'' 1 3 500
           (item_ids (snd (acc_pushes sample_stream_env (sample_stream @ sample_stream) (accumulator_new ''t'' 0 0 0)))) ''reset'']))
     sample_transcript"
proof (rule failed_stream_leaves_no_trace[OF _ sample_env_ok(1) sample_apart refl refl refl])
  show "wf_transcript sample_transcript"
    unfolding sample_transcript_def by (rule wf_from_items)
qed

section \<open>What clients read of a stream\<close>

lemma id_new: "k \<notin> it_id ` set xs \<Longrightarrow> j \<in> set xs \<Longrightarrow> it_id j \<noteq> k"
  by (auto simp: image_iff)

lemma upsert_list_new:
  assumes "it_id i \<notin> it_id ` set xs"
  shows "upsert_list xs i = xs @ [i]"
proof -
  have "position (\<lambda>j. it_id j = it_id i) xs = None"
    using id_new[OF assms] by (simp add: position_None_iff)
  then show ?thesis
    by (simp add: upsert_list_def)
qed

lemma upsert_list_old:
  assumes "distinct (map it_id xs)" "it_id i \<in> it_id ` set xs"
  shows "upsert_list xs i = map (\<lambda>j. if it_id j = it_id i then i else j) xs"
proof -
  obtain n where "position (\<lambda>j. it_id j = it_id i) xs = Some n"
    using assms(2) by (cases "position (\<lambda>j. it_id j = it_id i) xs") (auto simp: position_None_iff)
  then show ?thesis
    using replace_item_map[OF assms(1), of i] by (simp add: upsert_list_def replace_item_def)
qed

lemma items_delta:
  assumes "wf_transcript t" "j \<in> set (tr_items t)" "it_id j = k" "\<not> is_terminal j" "delta_body (it_body j) kind d = Some b"
  shows "tr_items (fst (delta t k kind d)) = map (\<lambda>i. if it_id i = k then j\<lparr>it_body := b\<rparr> else i) (tr_items t)"
proof -
  have d: "distinct (map it_id (tr_items t))"
    using assms(1) by (simp add: wf_transcript_def)
  obtain n where n: "position (\<lambda>i. it_id i = k) (tr_items t) = Some n"
    using assms(2,3) by (cases "position (\<lambda>i. it_id i = k) (tr_items t)") (auto simp: position_None_iff)
  obtain m where m: "m < length (tr_items t)" "tr_items t ! m = j"
    using assms(2) by (auto simp: in_set_conv_nth)
  have "m = n"
    using position_SomeD[OF n] m assms(3) distinct_map_nth_eq[OF d, of n m] by simp
  then have "tr_items (fst (delta t k kind d)) = (tr_items t)[n := j\<lparr>it_body := b\<rparr>]"
    using n m assms(4,5) by (simp add: delta_def wf_lookup[OF assms(1)])
  also have "\<dots> = replace_item (j\<lparr>it_body := b\<rparr>) (tr_items t)"
    using n assms(3) by (simp add: replace_item_def)
  finally show ?thesis
    using replace_item_map[OF d] assms(3) by simp
qed

lemma live_item_id [simp]: "acc_ok env a \<Longrightarrow> it_id (live_item a i) = it_id i"
  by (auto simp: live_item_def open_for_Some split: option.split)

definition shown :: "gate_tool list \<Rightarrow> transcript \<Rightarrow> accumulator \<Rightarrow> transcript \<Rightarrow> bool" where
  "shown tools t0 a t \<longleftrightarrow>
     wf_transcript t \<and> tr_items t = tr_items t0 @ map (\<lambda>i. quieted tools (live_item a i)) (ac_items a)"

lemma quieted_speech: "speech (it_body i) \<Longrightarrow> quieted tools i = i"
  by (auto simp: quieted_def speech_def split: item_body.splits)

text \<open>One published event, on the items a stream has put at the end of the transcript.\<close>

lemma shown_start:
  assumes "shown tools t0 a t" "it_id i \<notin> it_id ` set (tr_items t)" "ac_items a' = ac_items a @ [i]"
    and "\<And>j. j \<in> set (ac_items a) \<Longrightarrow> live_item a' j = live_item a j" "live_item a' i = i"
    and "e = EvItemStarted (quieted tools i) \<or> e = EvItemCompleted (quieted tools i)"
  shows "shown tools t0 a' (fst (transcript_apply t e))"
proof -
  have wf: "wf_transcript t"
    using assms(1) by (simp add: shown_def)
  have "tr_items (fst (transcript_apply t e)) = upsert_list (tr_items t) (quieted tools i)"
    using assms(6) by (auto simp: transcript_apply_def change_def split_beta items_upsert[OF wf])
  then have "tr_items (fst (transcript_apply t e)) = tr_items t @ [quieted tools i]"
    using assms(2) by (simp add: upsert_list_new)
  then show ?thesis
    using assms(1,3,4,5) wf_transcript_apply[OF wf] by (simp add: shown_def)
qed

lemma shown_map:
  assumes "shown tools t0 a t" "wf_transcript t'" "it_id i \<notin> it_id ` set (tr_items t0)" "acc_ok env a"
    and "tr_items t' = map (\<lambda>j. if it_id j = it_id i then i else j) (tr_items t)"
    and "map (\<lambda>j. quieted tools (live_item a' j)) (ac_items a') =
       map (\<lambda>j. if it_id j = it_id i then i else quieted tools (live_item a j)) (ac_items a)"
  shows "shown tools t0 a' t'"
proof -
  have "map (\<lambda>j. if it_id j = it_id i then i else j) (tr_items t0) = tr_items t0"
    using id_new[OF assms(3)] by (intro map_idI) simp
  then show ?thesis
    using assms(1,2,5,6) by (simp add: shown_def comp_def live_item_id[OF assms(4)])
qed

lemma shown_ids:
  assumes "shown tools t0 a t" "acc_ok env a"
  shows "it_id ` set (tr_items t) = it_id ` set (tr_items t0) \<union> set (item_ids a)"
  using assms(1) live_item_id[OF assms(2)] by (auto simp: shown_def item_ids_def image_Un image_image)

lemma live_open: "open_for a (it_id i) = Some (k, ob) \<Longrightarrow> live_item a i = ob_item ob"
  and live_closed: "open_for a (it_id i) = None \<Longrightarrow> live_item a i = i"
  by (simp_all add: live_item_def)

text \<open>The ids the stream mints are new to the transcript.\<close>

definition minted_apart :: "stream_env \<Rightarrow> transcript \<Rightarrow> accumulator \<Rightarrow> bool" where
  "minted_apart env t0 a \<longleftrightarrow>
     (\<forall>n \<ge> ac_minted a. se_mint env n \<notin> it_id ` set (tr_items t0)) \<and> set (item_ids a) \<inter> it_id ` set (tr_items t0) = {}"

lemma apart_mono:
  fixes m :: nat
  assumes "\<forall>n \<ge> m. f n \<notin> T" "S \<inter> T = {}" "S' \<subseteq> S \<union> f ` {m..}" "m \<le> m'"
  shows "(\<forall>n \<ge> m'. f n \<notin> T) \<and> S' \<inter> T = {}"
proof -
  have "f ` {m..} \<inter> T = {}"
    using assms(1) by auto
  then have "S' \<inter> T = {}"
    using assms(2,3) by blast
  moreover have "\<forall>n \<ge> m'. f n \<notin> T"
    using assms(1,4) by simp
  ultimately show ?thesis
    by simp
qed

lemma minted_apart_push:
  assumes "minted_apart env t0 a"
  shows "minted_apart env t0 (snd (acc_push env e a))"
  using assms push_mints[of env e a] unfolding minted_apart_def
  by (intro apart_mono[of "ac_minted a" "se_mint env" _ "set (item_ids a)"]) simp_all

lemma shown_start_block:
  assumes "shown tools t0 a t" "acc_ok env a" "inj (se_mint env)" "minted_apart env t0 a"
    and "map_of (ac_open a) k = None" "speech b"
  shows "shown tools t0 (snd (start_block env k b a)) (transcript_fold t (map (emit_event tools) (fst (start_block env k b a))))"
proof -
  let ?a = "snd (start_block env k b a)" and ?n = "se_mint env (ac_minted a)"
  define i where "i = fst (acc_fresh env a b StRunning)"
  have i: "ac_items ?a = ac_items a @ [i]" "it_id i = ?n" "it_body i = b" "fst (start_block env k b a) = [EmStarted i]"
      "ac_open ?a = AList.update k \<lparr>ob_item = i, ob_deltas = 0\<rparr> (ac_open a)"
    by (simp_all add: start_block_def acc_fresh_def i_def)
  have n: "it_id i \<notin> set (item_ids a)"
    using fresh_id[OF assms(2,3)] i(2) by simp
  have o': "open_for ?a id' = (if id' = it_id i then Some (k, \<lparr>ob_item = i, ob_deltas = 0\<rparr>) else open_for a id')" for id'
    using open_for_new[OF assms(2) acc_ok_start_block[OF assms(2,3,6)] assms(5) _ i(5)] n by simp
  have new: "it_id i \<notin> it_id ` set (tr_items t)"
    using n assms(4) i(2) by (simp add: shown_ids[OF assms(1,2)] minted_apart_def)
  have "shown tools t0 ?a (fst (transcript_apply t (EvItemStarted (quieted tools i))))"
  proof (rule shown_start[OF assms(1) new i(1)])
    show "live_item ?a j = live_item a j" if "j \<in> set (ac_items a)" for j
      using n in_item_ids[OF that] by (auto simp: live_item_def o')
  qed (simp_all add: live_item_def o')
  then show ?thesis
    by (simp add: i(4) emit_event_def)
qed

lemma shown_closed:
  assumes "shown tools t0 a t" "acc_ok env a" "inj (se_mint env)" "minted_apart env t0 a"
    and "ac_open a' = ac_open a" "ac_items a' = ac_items a @ [i]" "it_id i = se_mint env (ac_minted a)"
    and "ems = [EmStarted i] \<or> ems = [EmCompleted i] \<and> quieted tools i = i"
  shows "shown tools t0 a' (transcript_fold t (map (emit_event tools) ems))"
proof -
  have n: "it_id i \<notin> set (item_ids a)"
    using fresh_id[OF assms(2,3)] assms(7) by simp
  have new: "it_id i \<notin> it_id ` set (tr_items t)"
    using n assms(4,7) by (simp add: shown_ids[OF assms(1,2)] minted_apart_def)
  have "live_item a' j = live_item a j" for j
    using open_for_cong[OF assms(5)] by (simp add: live_item_def)
  moreover have "live_item a i = i"
    using open_for_ids[OF assms(2) n] by (rule live_closed)
  ultimately show ?thesis
    using shown_start[OF assms(1) new assms(6)] assms(8) by (auto simp: emit_event_def)
qed

lemma shown_delta:
  assumes "shown tools t0 a t" "acc_ok env a" "minted_apart env t0 a"
  shows "shown tools t0 (snd (block_delta k kind d a)) (transcript_fold t (map (emit_event tools) (fst (block_delta k kind d a))))"
proof (rule block_delta_cases[of k kind d a])
  fix ob b
  assume ob: "map_of (ac_open a) k = Some ob" and b: "delta_body (it_body (ob_item ob)) kind d = Some b" "speech b"
    and r: "block_delta k kind d a = ([EmDelta (it_id (ob_item ob)) (ob_deltas ob) kind d],
       a\<lparr>ac_open := AList.update k \<lparr>ob_item = (ob_item ob)\<lparr>it_body := b\<rparr>, ob_deltas = ob_deltas ob + 1\<rparr> (ac_open a)\<rparr>)"
  let ?a = "snd (block_delta k kind d a)" and ?i = "(ob_item ob)\<lparr>it_body := b\<rparr>"
  have wf: "wf_transcript t"
    using assms(1) by (simp add: shown_def)
  have o': "open_for ?a id' = (if id' = it_id (ob_item ob)
      then Some (k, \<lparr>ob_item = ?i, ob_deltas = ob_deltas ob + 1\<rparr>) else open_for a id')" for id'
    by (rule open_for_grow[OF assms(2) acc_ok_delta[OF assms(2)] ob]) (simp_all add: r)
  have run: "it_status (ob_item ob) = StRunning" "speech (it_body (ob_item ob))" "it_id (ob_item ob) \<in> set (item_ids a)"
    using assms(2) ob by (auto simp: acc_ok_def opens_ok_def)
  obtain j where j: "j \<in> set (ac_items a)" "it_id j = it_id (ob_item ob)"
    using run(3) by (auto simp: item_ids_def)
  have "open_for a (it_id j) = Some (k, ob)"
    using ob j(2) by (simp add: open_for_Some[OF assms(2)])
  then have "quieted tools (live_item a j) = ob_item ob"
    using run(2) by (simp add: live_open quieted_speech)
  then have here: "ob_item ob \<in> set (tr_items t)"
    using assms(1) j(1) by (force simp: shown_def)
  have items: "tr_items (fst (transcript_apply t (EvItemDelta (it_id (ob_item ob)) n kind d))) =
      map (\<lambda>i. if it_id i = it_id ?i then ?i else i) (tr_items t)" for n
    using items_delta[OF wf here refl _ b(1)] run(1)
    by (simp add: transcript_apply_def change_def split_beta is_terminal_def status_is_terminal_def)
  have apart: "it_id ?i \<notin> it_id ` set (tr_items t0)"
    using run(3) assms(3) by (auto simp: minted_apart_def)
  have "shown tools t0 ?a (fst (transcript_apply t (EvItemDelta (it_id (ob_item ob)) n kind d)))" for n
  proof (rule shown_map[OF assms(1) wf_transcript_apply[OF wf] apart assms(2) items])
    show "map (\<lambda>j. quieted tools (live_item ?a j)) (ac_items ?a) =
        map (\<lambda>j. if it_id j = it_id ?i then ?i else quieted tools (live_item a j)) (ac_items a)"
      using b(2) by (simp add: r, simp add: live_item_def o'[unfolded r snd_conv] quieted_speech)
  qed
  then show ?thesis
    by (simp add: r emit_event_def)
qed (simp add: assms(1))

text \<open>Closing a block, whose item may have changed since it was last shown.\<close>

lemma shown_end_block:
  assumes "shown tools t0 a t" "acc_ok env a" "acc_ok env a1" "minted_apart env t0 a"
    and "ac_items a1 = ac_items a" "\<And>j. it_id j \<noteq> it_id (ob_item ob) \<Longrightarrow> live_item a1 j = live_item a j"
    and "map_of (ac_open a1) k = Some ob"
  shows "shown tools t0 (snd (end_block env k st a1)) (transcript_fold t (map (emit_event tools) (fst (end_block env k st a1))))"
proof -
  let ?a = "snd (end_block env k st a1)"
  define i where "i = (ob_item ob)\<lparr>it_status := st, it_completed_at := Some (se_now env (ac_ticks a1))\<rparr>"
  have i: "it_id i = it_id (ob_item ob)" "speech (it_body i)" "fst (end_block env k st a1) = [EmCompleted i]"
      "ac_items ?a = replace_item i (ac_items a)" "ac_open ?a = AList.delete k (ac_open a1)"
    using speech_open[OF assms(3,7)] assms(5) by (simp_all add: end_block_def assms(7) Let_def i_def)
  have wf: "wf_transcript t" and d: "distinct (map it_id (ac_items a))"
    using assms(1,2) by (simp_all add: shown_def acc_ok_def item_ids_def)
  have o': "open_for ?a id' = (if id' = it_id i then None else open_for a1 id')" for id'
    using open_for_close[OF assms(3) acc_ok_end_block[OF assms(3)] assms(7) i(5)] i(1) by simp
  have mem: "it_id i \<in> set (item_ids a)"
    using open_ids[OF assms(3,7)] i(1) assms(5) by (simp add: item_ids_def)
  have "it_id i \<in> it_id ` set (tr_items t)"
    using mem by (simp add: shown_ids[OF assms(1,2)])
  then have items: "tr_items (fst (transcript_apply t (EvItemCompleted i))) = map (\<lambda>j. if it_id j = it_id i then i else j) (tr_items t)"
    using wf upsert_list_old[of "tr_items t" i]
    by (simp add: transcript_apply_def change_def split_beta items_upsert wf_transcript_def)
  have apart: "it_id i \<notin> it_id ` set (tr_items t0)"
    using mem assms(4) by (auto simp: minted_apart_def)
  have "shown tools t0 ?a (fst (transcript_apply t (EvItemCompleted i)))"
  proof (rule shown_map[OF assms(1) wf_transcript_apply[OF wf] apart assms(2) items])
    have "live_item ?a j = live_item a j" if "it_id j \<noteq> it_id i" for j
      using that assms(6)[of j] i(1) by (simp add: live_item_def o')
    moreover have "live_item ?a i = i"
      by (simp add: live_item_def o')
    ultimately show "map (\<lambda>j. quieted tools (live_item ?a j)) (ac_items ?a) =
        map (\<lambda>j. if it_id j = it_id i then i else quieted tools (live_item a j)) (ac_items a)"
      using quieted_speech[OF i(2)] unfolding i(4) replace_item_map[OF d] by simp
  qed
  then show ?thesis
    by (simp add: i(3) emit_event_def)
qed

lemma shown_end:
  assumes "shown tools t0 a t" "acc_ok env a" "minted_apart env t0 a"
  shows "shown tools t0 (snd (end_block env k st a)) (transcript_fold t (map (emit_event tools) (fst (end_block env k st a))))"
proof (cases "map_of (ac_open a) k")
  case None
  then show ?thesis
    using assms(1) by (simp add: end_block_def)
next
  case (Some ob)
  show ?thesis
    by (rule shown_end_block[OF assms(1,2,2,3) refl refl Some])
qed

lemma shown_end_reasoning:
  assumes "shown tools t0 a t" "acc_ok env a" "minted_apart env t0 a"
  shows "shown tools t0 (snd (end_reasoning env k meta a)) (transcript_fold t (map (emit_event tools) (fst (end_reasoning env k meta a))))"
  unfolding end_reasoning_with
proof (rule with_metadata_cases[of k meta a])
  fix ob t' m
  assume ob: "map_of (ac_open a) k = Some ob"
    and w: "with_metadata k meta a =
       a\<lparr>ac_open := AList.update k \<lparr>ob_item = (ob_item ob)\<lparr>it_body := BReasoning t' meta\<rparr>, ob_deltas = ob_deltas ob\<rparr> (ac_open a)\<rparr>"
  let ?a = "with_metadata k meta a" and ?ob = "\<lparr>ob_item = (ob_item ob)\<lparr>it_body := BReasoning t' meta\<rparr>, ob_deltas = ob_deltas ob\<rparr>"
  have o': "open_for ?a id' = (if id' = it_id (ob_item ob) then Some (k, ?ob) else open_for a id')" for id'
    by (rule open_for_grow[OF assms(2) acc_ok_with_metadata[OF assms(2)] ob]) (simp_all add: w)
  show "shown tools t0 (snd (end_block env k StCompleted ?a)) (transcript_fold t (map (emit_event tools) (fst (end_block env k StCompleted ?a))))"
  proof (rule shown_end_block[OF assms(1,2) acc_ok_with_metadata[OF assms(2)] assms(3)])
    show "map_of (ac_open ?a) k = Some ?ob"
      by (simp add: w update_conv')
    show "live_item ?a j = live_item a j" if "it_id j \<noteq> it_id (ob_item ?ob)" for j
      using that by (simp add: live_item_def o')
  qed (simp add: w)
qed (use shown_end[OF assms] in simp)

lemma shown_push:
  assumes "shown tools t0 a t" "acc_ok env a" "inj (se_mint env)" "minted_apart env t0 a"
    and "well_blocked (dom (map_of (ac_open a))) (e # es)"
  shows "shown tools t0 (snd (acc_push env e a)) (transcript_fold t (map (emit_event tools) (fst (acc_push env e a))))"
proof (cases e)
  case (MTextStart k)
  then have "map_of (ac_open a) k = None"
    using assms(5) by auto
  then show ?thesis
    using shown_start_block[OF assms(1-4), of k "BAssistant []"] MTextStart by (simp add: acc_push_def speech_def)
next
  case (MReasoningStart k)
  then have "map_of (ac_open a) k = None"
    using assms(5) by auto
  then show ?thesis
    using shown_start_block[OF assms(1-4), of k "BReasoning [] []"] MReasoningStart by (simp add: acc_push_def speech_def)
next
  case (MToolCall k name raw)
  have "shown tools t0 (snd (start_call env k name raw a)) (transcript_fold t (map (emit_event tools) (fst (start_call env k name raw a))))"
    by (rule shown_closed[OF assms(1-4), where i="last (ac_items (snd (start_call env k name raw a)))"])
      (simp_all add: start_call_def acc_fresh_def Let_def split_beta)
  then show ?thesis
    by (simp add: acc_push_def MToolCall)
next
  case (MCompacted before after)
  have "shown tools t0 (snd (acc_compacted env before after a)) (transcript_fold t (map (emit_event tools) (fst (acc_compacted env before after a))))"
    by (rule shown_closed[OF assms(1-4), where i="last (ac_items (snd (acc_compacted env before after a)))"])
      (simp_all add: acc_compacted_def acc_fresh_def Let_def quieted_def compacted_body_def)
  then show ?thesis
    by (simp add: acc_push_def MCompacted)
next
  case (MToolInputDelta k d)
  then show ?thesis
    using assms(1) by (auto simp: acc_push_def shown_def live_item_def open_for_def split: option.split)
qed (use assms in \<open>auto simp: acc_push_def shown_delta shown_end shown_end_reasoning,
    auto simp: shown_def live_item_def open_for_def\<close>)

lemma shown_pushes:
  assumes "shown tools t0 a t" "acc_ok env a" "inj (se_mint env)" "minted_apart env t0 a"
    and "well_blocked (dom (map_of (ac_open a))) es"
  shows "shown tools t0 (snd (acc_pushes env es a)) (transcript_fold t (map (emit_event tools) (fst (acc_pushes env es a))))
    \<and> minted_apart env t0 (snd (acc_pushes env es a))"
  using assms
proof (induction es arbitrary: a t)
  case (Cons e es)
  let ?a = "snd (acc_push env e a)" and ?t = "transcript_fold t (map (emit_event tools) (fst (acc_push env e a)))"
  have "shown tools t0 ?a ?t"
    by (rule shown_push[OF Cons.prems])
  then show ?case
    using Cons.IH[of ?a ?t] acc_ok_push[OF Cons.prems(2,3)] Cons.prems(3) minted_apart_push[OF Cons.prems(4)]
      well_blocked_push[OF Cons.prems(5)]
    by (simp add: split_beta fold_append)
qed simp

lemma shown_end_blocks:
  assumes "shown tools t0 a t" "acc_ok env a" "minted_apart env t0 a"
  shows "shown tools t0 (snd (end_blocks env st ks a)) (transcript_fold t (map (emit_event tools) (fst (end_blocks env st ks a))))"
  using assms
proof (induction ks arbitrary: a t)
  case (Cons k ks)
  let ?a = "snd (end_block env k st a)"
  have "minted_apart env t0 ?a"
    using Cons.prems(3) by (auto simp: minted_apart_def end_block_def item_ids_def Let_def simp flip: set_map split: option.split)
  then show ?case
    using Cons.IH[OF shown_end[OF Cons.prems] acc_ok_end_block[OF Cons.prems(2)]]
    by (simp add: split_beta fold_append)
qed simp

text \<open>
  C16: clients read what the turn keeps.  When a stream that does not open a block twice
  has ended, by itself or stopped, the transcript that folded what was published of it
  holds, after what it held before, exactly the items of the stream with their final
  texts, the calls with the quiet mark of their tool.  When it was stopped there is one
  difference: the turn's own copy marks the waiting calls as interrupted and the
  transcript does not.
\<close>

theorem clients_read_what_the_turn_keeps:
  assumes "wf_transcript t" "inj (se_mint env)" "lists_keys env" "well_blocked {} es"
    and "\<forall>n \<ge> minted. se_mint env n \<notin> it_id ` set (tr_items t)"
    and "(ems, f) = fold_stream env interrupted es (accumulator_new turn round minted ticks)"
  shows "\<exists>kept. tr_items (transcript_fold t (map (emit_event tools) ems)) = tr_items t @ map (quieted tools) kept
    \<and> fi_items f = (if interrupted then map interrupt_pending kept else kept)"
proof -
  let ?a = "accumulator_new turn round minted ticks" and ?st = "if interrupted then StInterrupted else StCompleted"
  let ?p = "snd (acc_pushes env es ?a)"
  define e where "e = snd (end_blocks env ?st (se_keys env (map fst (ac_open ?p))) ?p)"
  have start: "shown tools t ?a t" "minted_apart env t ?a" "dom (map_of (ac_open ?a)) = {}"
    using assms(1,5) by (simp_all add: shown_def minted_apart_def accumulator_new_def item_ids_def)
  have w: "well_blocked (dom (map_of (ac_open ?a))) es"
    using assms(4) start(3) by simp
  have p: "acc_ok env ?p"
    by (rule acc_ok_pushes[OF acc_ok_new assms(2)])
  have "shown tools t e (transcript_fold t (map (emit_event tools) ems))"
    using shown_pushes[OF start(1) acc_ok_new assms(2) start(2) w] shown_end_blocks[OF _ p, of tools t _ ?st] assms(6)
    by (simp add: e_def fold_stream_def acc_finish_def Let_def split_beta fold_append)
  moreover have "map_of (ac_open e) = Map.empty"
    unfolding e_def by (rule end_blocks_all[OF assms(3)])
  then have "live_item e i = i" for i
    by (cases "ac_open e") (auto simp: live_item_def open_for_def)
  ultimately have "tr_items (transcript_fold t (map (emit_event tools) ems)) = tr_items t @ map (quieted tools) (ac_items e)"
    by (simp add: shown_def)
  moreover have "fi_items f = (if interrupted then map interrupt_pending (ac_items e) else ac_items e)"
    using assms(6) by (simp add: e_def fold_stream_def acc_finish_def Let_def split_beta)
  ultimately show ?thesis
    by blast
qed

text \<open>
  A call of a stopped stream stays open for ever.  The person stops a turn while its
  stream is going on, after a complete tool call: nothing published closes the call,
  the turn ends, and its item is left pending in every transcript, although the turn's
  own copy has it as interrupted.
\<close>

theorem stopped_call_stays_pending:
  "let r = fold_stream sample_stream_env True sample_stream (accumulator_new ''t'' 0 0 0);
       t = transcript_fold sample_transcript (map (emit_event []) (fst r))
   in List.map_filter (\<lambda>i. map_option (\<lambda>_. it_status i) (item_call i)) (tr_items t) = [StPending]
      \<and> List.map_filter (\<lambda>i. map_option (\<lambda>_. it_status i) (item_call i)) (fi_items (snd r)) = [StInterrupted]"
  by code_simp

theorem clients_read_what_the_turn_keeps_witness:
  "\<exists>kept. tr_items (transcript_fold sample_transcript (map (emit_event [])
       (fst (fold_stream sample_stream_env True sample_stream (accumulator_new ''t'' 0 0 0)))))
     = tr_items sample_transcript @ map (quieted []) kept"
proof -
  have "\<forall>n \<ge> 0. se_mint sample_stream_env n \<notin> it_id ` set (tr_items sample_transcript)"
    by (rule sample_apart)
  moreover have "well_blocked {} sample_stream"
    by (simp add: sample_stream_def)
  moreover have "wf_transcript sample_transcript"
    unfolding sample_transcript_def by (rule wf_from_items)
  ultimately show ?thesis
    using clients_read_what_the_turn_keeps[of sample_transcript sample_stream_env sample_stream 0 _ _ True "''t''" 0 0 "[]"]
      sample_env_ok by (metis prod.collapse)
qed

end
