(* ===== verification/Core_Round.thy ===== *)
theory Core_Round
  imports Core_Stream
begin

text \<open>
  One round of tool calls (\<open>bingo-core/src/round.rs\<close>, \<open>turn/round.rs\<close> and
  \<open>executor.rs\<close>): the calls of a response are reached in order, gated, and run; calls
  that are safe to run together do, and their results land as they come.  Tasks, the
  person's stop and the answers of tools interleave freely, so the walk is a relation
  \<open>round_step\<close> between states; the phases are the awaits of \<open>walk_calls\<close>.

  Shown here: how many calls run and which together, that only what passed the gate
  runs, that every call comes to exactly one outcome in the order of the calls, and
  that the walk neither gets stuck nor goes on for ever.
\<close>

section \<open>The executor\<close>

definition MAX_CONCURRENCY :: nat where
  "MAX_CONCURRENCY = 10"

definition MAX_RESULT_CHARS :: nat where
  "MAX_RESULT_CHARS = 50000"

definition TOOL_INTERRUPTED_MARKER :: string where
  "TOOL_INTERRUPTED_MARKER = ''[Request interrupted by user for tool use]''"

record pending_call =
  pc_item :: item_id
  pc_call :: tool_call
  pc_tool :: "gate_tool option"
  pc_traits :: tool_traits
  pc_gate :: gate

datatype tool_error = TeInvalidInput string | TeFailed string | TeCancelled

definition tool_error_text :: "tool_error \<Rightarrow> string" where
  "tool_error_text e =
     (case e of TeInvalidInput m \<Rightarrow> ''invalid input: '' @ m | TeFailed m \<Rightarrow> m | TeCancelled \<Rightarrow> ''cancelled'')"

definition interrupted_outcome :: "pending_call \<Rightarrow> tool_outcome" where
  "interrupted_outcome pc =
     \<lparr>tu_item = pc_item pc, tu_call_id = tc_call_id (pc_call pc),
      tu_output = tool_output_error TOOL_INTERRUPTED_MARKER, tu_status = StInterrupted, tu_duration_ms = 0\<rparr>"

text \<open>Only texts count against the limit; the first text over it is cut and says so.\<close>

definition truncated_note :: "nat \<Rightarrow> string" where
  "truncated_note n = CHR 0x0A # ''[truncated: '' @ show_nat n @ '' more characters]''"

fun clip_parts :: "nat \<Rightarrow> content_part list \<Rightarrow> content_part list" where
  "clip_parts budget [] = []"
| "clip_parts budget (p # ps) =
     (case p of
        PText t \<Rightarrow>
          if length t > budget then PText (take budget t @ truncated_note (length t - budget)) # clip_parts 0 ps
          else PText t # clip_parts (budget - length t) ps
      | _ \<Rightarrow> p # clip_parts budget ps)"

definition clip :: "tool_output \<Rightarrow> tool_output" where
  "clip out = out\<lparr>to_parts := clip_parts MAX_RESULT_CHARS (to_parts out)\<rparr>"

text \<open>The run of a tool through the chain; what the tool answers to an input is a parameter.\<close>

definition dispatched ::
  "(tool_call, tool_output) link list \<Rightarrow> (json \<Rightarrow> tool_error + tool_output) \<Rightarrow> tool_call \<Rightarrow> tool_error + tool_output" where
  "dispatched ls tool_says call =
     (let kern = (\<lambda>c. case tool_says (tc_input c) of
            Inr out \<Rightarrow> Inr out
          | Inl TeCancelled \<Rightarrow> Inl (kernel_error_new ErrInterrupted ''cancelled'')
          | Inl e \<Rightarrow> Inl (kernel_error_new ErrInternal (tool_error_text e)))
      in case fst (run_at call_point ls kern call) of
           Inr out \<Rightarrow> Inr out
         | Inl e \<Rightarrow> Inl (if ke_code e = ErrInterrupted then TeCancelled else TeFailed (ke_message e)))"

text \<open>\<open>run_one\<close>, given what the dispatch came to and how long it took; \<open>stopped\<close> when the turn was cancelled first.\<close>

definition run_one :: "pending_call \<Rightarrow> bool \<Rightarrow> tool_error + tool_output \<Rightarrow> u64 \<Rightarrow> tool_outcome" where
  "run_one pc stopped res took =
     (let finish = (\<lambda>out st. \<lparr>tu_item = pc_item pc, tu_call_id = tc_call_id (pc_call pc), tu_output = out,
            tu_status = st, tu_duration_ms = took\<rparr>)
      in case pc_gate pc of
           GateDenied m \<Rightarrow> finish (tool_output_error m) StFailed
         | GateAllowed \<Rightarrow>
             (case pc_tool pc of
                None \<Rightarrow> finish (tool_output_error (tool_not_found (tc_name (pc_call pc)))) StFailed
              | Some _ \<Rightarrow>
                  (case (if stopped then Inl TeCancelled else res) of
                     Inr out \<Rightarrow>
                       (let out' = (if tt_result_limit (pc_traits pc) = LimitGlobal then clip out else out)
                        in finish out' (if to_is_error out' then StFailed else StCompleted))
                   | Inl TeCancelled \<Rightarrow> finish (tool_output_error TOOL_INTERRUPTED_MARKER) StInterrupted
                   | Inl e \<Rightarrow> finish (tool_output_error (tool_error_text e)) StFailed)))"

text \<open>A denied call and one of an unknown tool are over at their first poll.\<close>

definition ready_at_once :: "pending_call \<Rightarrow> bool" where
  "ready_at_once pc \<longleftrightarrow> pc_gate pc \<noteq> GateAllowed \<or> pc_tool pc = None"

section \<open>The next action\<close>

record flight =
  fl_count :: nat
  fl_all_safe :: bool

datatype round_decision = RdAllowed bool | RdDenied | RdAsk

datatype round_action = RaStart | RaWait | RaDeny | RaAsk | RaDone

definition round_next :: "flight \<Rightarrow> round_decision option \<Rightarrow> round_action" where
  "round_next fl d =
     (case d of
        Some RdDenied \<Rightarrow> RaDeny
      | Some (RdAllowed safe) \<Rightarrow>
          if safe \<and> fl_all_safe fl \<and> fl_count fl < MAX_CONCURRENCY then RaStart
          else if \<not> safe \<and> fl_count fl = 0 then RaStart
          else RaWait
      | Some RdAsk \<Rightarrow> if fl_count fl = 0 then RaAsk else RaWait
      | None \<Rightarrow> if fl_count fl = 0 then RaDone else RaWait)"

definition decided_action :: "gate_decided \<Rightarrow> round_decision" where
  "decided_action d =
     (case d of
        Settled gd \<Rightarrow>
          (case gd_gate gd of GateAllowed \<Rightarrow> RdAllowed (tt_concurrency_safe (gd_traits gd)) | GateDenied _ \<Rightarrow> RdDenied)
      | AskFirst _ \<Rightarrow> RdAsk)"

definition flight_state :: "pending_call list \<Rightarrow> flight" where
  "flight_state fs =
     \<lparr>fl_count = length fs, fl_all_safe = list_all (\<lambda>pc. tt_concurrency_safe (pc_traits pc)) fs\<rparr>"

section \<open>The walk\<close>

text \<open>
  What a round is given.  Hooks, policy, links and the person are asked anew for every
  call, so they are indexed by its item.
\<close>

record round_config =
  rc_session :: session_id
  rc_cwd :: string
  rc_turn :: turn_id
  rc_number :: u32
  rc_tools :: "gate_tool list"
  rc_policy :: "item_id \<Rightarrow> nat \<Rightarrow> gate_policy"
  rc_hooks :: "item_id \<Rightarrow> nat \<Rightarrow> gate_hook list"
  rc_links :: "item_id \<Rightarrow> nat \<Rightarrow> (tool_call, check_result) link list"
  rc_person :: "item_id \<Rightarrow> gate_person"
  rc_json :: "json \<Rightarrow> string"

definition round_gate :: "round_config \<Rightarrow> item_id \<Rightarrow> tool_call \<Rightarrow> gate_input" where
  "round_gate cfg item call =
     \<lparr>gi_session = rc_session cfg, gi_cwd = rc_cwd cfg, gi_item = item, gi_call = call,
      gi_tool = find_tool (rc_tools cfg) (tc_name call), gi_policy = rc_policy cfg item,
      gi_hooks = rc_hooks cfg item, gi_links = rc_links cfg item\<rparr>"

datatype round_phase =
    PhReach
  | PhDecide item_id tool_call
  | PhSettle item_id tool_call gate_decided
  | PhAsk item_id tool_call gate_decided
  | PhAdmit item_id tool_call gated
  | PhDrain
  | PhOver

text \<open>\<open>ro_ran\<close> remembers which calls were started, for the statements below.\<close>

record round_state =
  ro_todo :: "(item_id \<times> tool_call) list"
  ro_phase :: round_phase
  ro_flight :: "pending_call list"
  ro_outcomes :: "tool_outcome list"
  ro_transcript :: transcript
  ro_cancelled :: bool
  ro_ran :: "(item_id \<times> tool_call \<times> gated) list"

definition round_start :: "(item_id \<times> tool_call) list \<Rightarrow> transcript \<Rightarrow> round_state" where
  "round_start calls t =
     \<lparr>ro_todo = calls, ro_phase = PhReach, ro_flight = [], ro_outcomes = [], ro_transcript = t,
      ro_cancelled = False, ro_ran = []\<rparr>"

text \<open>\<open>emit_and_fold\<close>, the transcript's half of it.\<close>

definition folded :: "event \<Rightarrow> transcript \<Rightarrow> transcript" where
  "folded e t = fst (transcript_apply t e)"

definition landed_item :: "tool_outcome \<Rightarrow> timestamp \<Rightarrow> item \<Rightarrow> item" where
  "landed_item out at i =
     (let i1 = i\<lparr>it_status := tu_status out, it_completed_at := Some at\<rparr> in
      case it_body i of
        BToolCall c \<Rightarrow> i1\<lparr>it_body := BToolCall (c\<lparr>cb_output := Some (tu_output out), cb_duration_ms := Some (tu_duration_ms out),
          cb_progress := None\<rparr>)\<rparr>
      | _ \<Rightarrow> i1)"

definition land :: "timestamp \<Rightarrow> tool_outcome \<Rightarrow> round_state \<Rightarrow> round_state" where
  "land at out s =
     s\<lparr>ro_transcript := (case get (ro_transcript s) (tu_item out) of
           Some i \<Rightarrow> folded (EvItemCompleted (landed_item out at i)) (ro_transcript s)
         | None \<Rightarrow> ro_transcript s),
       ro_outcomes := ro_outcomes s @ [out]\<rparr>"

definition mark_asked :: "timestamp \<Rightarrow> item_id \<Rightarrow> transcript \<Rightarrow> transcript" where
  "mark_asked at item t =
     (case get t item of
        Some i \<Rightarrow>
          (case it_body i of
             BToolCall c \<Rightarrow> folded (EvItemUpdated (i\<lparr>it_body := BToolCall (c\<lparr>cb_asked_at := Some at\<rparr>)\<rparr>)) t
           | _ \<Rightarrow> t)
      | None \<Rightarrow> t)"

definition gated_item :: "timestamp \<Rightarrow> gated \<Rightarrow> item \<Rightarrow> item" where
  "gated_item at gd i =
     (case it_body i of
        BToolCall c \<Rightarrow>
          (let allowed = (gd_gate gd = GateAllowed);
               c1 = (if allowed then c\<lparr>cb_began_at := Some at\<rparr> else c)
           in i\<lparr>it_status := (if allowed then StRunning else it_status i),
                it_body := BToolCall (c1\<lparr>cb_input := tc_input (gd_call gd), cb_allowed_by := gd_allowed_by gd\<rparr>)\<rparr>)
      | _ \<Rightarrow> i)"

definition mark_gated :: "timestamp \<Rightarrow> item_id \<Rightarrow> gated \<Rightarrow> transcript \<Rightarrow> transcript" where
  "mark_gated at item gd t =
     (case get t item of
        Some i \<Rightarrow>
          if gd_gate gd = GateAllowed
             \<or> (case it_body i of BToolCall c \<Rightarrow> \<not> json_eq (cb_input c) (tc_input (gd_call gd)) | _ \<Rightarrow> False)
          then folded (EvItemUpdated (gated_item at gd i)) t else t
      | None \<Rightarrow> t)"

text \<open>\<open>mint\<close> of \<open>turn.rs\<close>, with the id and the time it is given.\<close>

definition minted_item :: "item_id \<Rightarrow> timestamp \<Rightarrow> turn_id \<Rightarrow> u32 \<Rightarrow> item_body \<Rightarrow> item_status \<Rightarrow> item" where
  "minted_item k at turn round body st =
     \<lparr>it_id = k, it_turn = Some turn, it_round = round, it_status = st, it_started_at = at,
      it_completed_at = (if status_is_terminal st then Some at else None), it_intent = None, it_body = body, it_meta = []\<rparr>"

text \<open>Notices and receipts: every one a new completed item.\<close>

fun record_all :: "round_config \<Rightarrow> (item_id \<times> timestamp) list \<Rightarrow> item_body list \<Rightarrow> transcript \<Rightarrow> transcript" where
  "record_all cfg ((k, at) # ks) (b # bs) t =
     record_all cfg ks bs (folded (EvItemCompleted (minted_item k at (rc_turn cfg) (rc_number cfg) b StCompleted)) t)"
| "record_all cfg _ _ t = t"

definition pending_of :: "round_config \<Rightarrow> item_id \<Rightarrow> tool_call \<Rightarrow> gated \<Rightarrow> pending_call" where
  "pending_of cfg item call gd =
     \<lparr>pc_item = item, pc_call = gd_call gd, pc_tool = find_tool (rc_tools cfg) (tc_name call),
      pc_traits = gd_traits gd, pc_gate = gd_gate gd\<rparr>"

definition call_interrupted :: "item_id \<times> tool_call \<Rightarrow> tool_outcome" where
  "call_interrupted c =
     interrupted_outcome \<lparr>pc_item = fst c, pc_call = snd c, pc_tool = None, pc_traits = traits_default, pc_gate = GateAllowed\<rparr>"

definition admitted ::
  "round_config \<Rightarrow> (item_id \<times> timestamp) list \<Rightarrow> item option \<Rightarrow> gated \<Rightarrow> transcript \<Rightarrow> transcript" where
  "admitted cfg ks rcpt gd t =
     (let t1 = record_all cfg ks (gd_notices gd) t in
      case rcpt of Some i \<Rightarrow> folded (EvItemCompleted i) t1 | None \<Rightarrow> t1)"

text \<open>The ids of what is recorded are new, and a receipt is kept where the gate gave one.\<close>

definition recorded_apart :: "(item_id \<times> timestamp) list \<Rightarrow> item option \<Rightarrow> gated \<Rightarrow> transcript \<Rightarrow> bool" where
  "recorded_apart ks rcpt gd t \<longleftrightarrow>
     length ks = length (gd_notices gd) \<and> distinct (map fst ks)
     \<and> (\<forall>i \<in> set_option rcpt. it_id i \<notin> fst ` set ks)
     \<and> (\<forall>k \<in> fst ` set ks \<union> it_id ` set_option rcpt. get t k = None)"

text \<open>
  Where the walk takes the next landing: \<open>land_next\<close> before an unsafe call is over, while a
  reached call has to wait, and at the end; \<open>progressing\<close> while a call is being decided;
  and \<open>cancelled\<close> once the turn was stopped, when a call comes back without its tool being polled.
\<close>

definition polls_flight :: "round_state \<Rightarrow> bool" where
  "polls_flight s =
     (case ro_phase s of
        PhReach \<Rightarrow> ro_todo s \<noteq> [] \<and> \<not> fl_all_safe (flight_state (ro_flight s))
      | PhDecide _ _ \<Rightarrow> True
      | PhSettle _ _ d \<Rightarrow> round_next (flight_state (ro_flight s)) (Some (decided_action d)) = RaWait
      | PhDrain \<Rightarrow> round_next (flight_state (ro_flight s)) None = RaWait
      | PhOver \<Rightarrow> ro_cancelled s
      | _ \<Rightarrow> False)"

text \<open>
  One step of the walk.  Times, ids, how long a call took and what its tool answered
  are whatever they are.
\<close>

inductive round_step :: "round_config \<Rightarrow> round_state \<Rightarrow> round_state \<Rightarrow> bool" for cfg where
  lands:
  "polls_flight s \<Longrightarrow> ro_flight s = xs @ pc # ys \<Longrightarrow>
     round_step cfg s (land at (run_one pc (ro_phase s = PhOver) res took) (s\<lparr>ro_flight := xs @ ys\<rparr>))"
| reach:
  "ro_phase s = PhReach \<Longrightarrow> ro_todo s = (item, call) # rest \<Longrightarrow> fl_all_safe (flight_state (ro_flight s)) \<Longrightarrow>
     round_step cfg s (s\<lparr>ro_todo := rest, ro_phase := PhDecide item call\<rparr>)"
| reach_end:
  "ro_phase s = PhReach \<Longrightarrow> ro_todo s = [] \<Longrightarrow> round_step cfg s (s\<lparr>ro_phase := PhDrain\<rparr>)"
| decide:
  "ro_phase s = PhDecide item call \<Longrightarrow>
     round_step cfg s (s\<lparr>ro_phase := PhSettle item call (gate_check (round_gate cfg item call) 0 call False)\<rparr>)"
| settle:
  "ro_phase s = PhSettle item call (Settled gd) \<Longrightarrow>
     round_next (flight_state (ro_flight s)) (Some (decided_action (Settled gd))) \<noteq> RaWait \<Longrightarrow>
     round_step cfg s (s\<lparr>ro_phase := PhAdmit item call gd\<rparr>)"
| ask:
  "ro_phase s = PhSettle item call (AskFirst w) \<Longrightarrow>
     round_next (flight_state (ro_flight s)) (Some (decided_action (AskFirst w))) \<noteq> RaWait \<Longrightarrow>
     round_step cfg s (s\<lparr>ro_phase := PhAsk item call (AskFirst w), ro_transcript := mark_asked at item (ro_transcript s)\<rparr>)"
| asked:
  "ro_phase s = PhAsk item call d \<Longrightarrow>
     gate_ask (rc_json cfg) (rc_person cfg item) (round_gate cfg item call) 0 False None [] d = Some (gd, told) \<Longrightarrow>
     round_step cfg s (s\<lparr>ro_phase := PhAdmit item call gd\<rparr>)"
| admit_lands:
  "ro_phase s = PhAdmit item call gd \<Longrightarrow> (rcpt = None \<longleftrightarrow> gd_receipt gd = None) \<Longrightarrow>
     recorded_apart ks rcpt gd (ro_transcript s) \<Longrightarrow> pc = pending_of cfg item call gd \<Longrightarrow>
     round_step cfg s (land at (run_one pc False res took)
       (s\<lparr>ro_phase := PhReach, ro_transcript := mark_gated at' item gd (admitted cfg ks rcpt gd (ro_transcript s)),
          ro_ran := (if ready_at_once pc then ro_ran s else ro_ran s @ [(item, call, gd)])\<rparr>))"
| admit_flies:
  "ro_phase s = PhAdmit item call gd \<Longrightarrow> (rcpt = None \<longleftrightarrow> gd_receipt gd = None) \<Longrightarrow>
     recorded_apart ks rcpt gd (ro_transcript s) \<Longrightarrow> pc = pending_of cfg item call gd \<Longrightarrow> \<not> ready_at_once pc \<Longrightarrow>
     round_step cfg s
       (s\<lparr>ro_phase := PhReach, ro_transcript := mark_gated at item gd (admitted cfg ks rcpt gd (ro_transcript s)),
          ro_flight := ro_flight s @ [pc], ro_ran := ro_ran s @ [(item, call, gd)]\<rparr>)"
| drain_end:
  "ro_phase s = PhDrain \<Longrightarrow> round_next (flight_state (ro_flight s)) None \<noteq> RaWait \<Longrightarrow>
     round_step cfg s (s\<lparr>ro_phase := PhOver\<rparr>)"

text \<open>
  The walk is abandoned: the person stops the turn at any await, or a receipt could
  not be recorded; what an admission had recorded by then stays.
\<close>

inductive round_stop :: "round_config \<Rightarrow> round_state \<Rightarrow> round_state \<Rightarrow> bool" for cfg where
  stop:
  "ro_phase s \<noteq> PhOver \<Longrightarrow> round_stop cfg s (s\<lparr>ro_phase := PhOver, ro_cancelled := True\<rparr>)"
| stop_admit:
  "ro_phase s = PhAdmit item call gd \<Longrightarrow> recorded_apart ks rcpt gd (ro_transcript s) \<Longrightarrow>
     (rcpt \<noteq> None \<longrightarrow> gd_receipt gd \<noteq> None) \<Longrightarrow>
     round_stop cfg s (s\<lparr>ro_phase := PhOver, ro_cancelled := True,
       ro_transcript := admitted cfg ks rcpt gd (ro_transcript s)\<rparr>)"

inductive round_reaches :: "round_config \<Rightarrow> round_state \<Rightarrow> round_state \<Rightarrow> bool" for cfg where
  here: "round_reaches cfg s s"
| walks: "round_reaches cfg s s' \<Longrightarrow> round_step cfg s' s'' \<Longrightarrow> round_reaches cfg s s''"
| stops: "round_reaches cfg s s' \<Longrightarrow> round_stop cfg s' s'' \<Longrightarrow> round_reaches cfg s s''"

text \<open>
  \<open>Round::run\<close> after the walk: the calls without an outcome are interrupted, what the
  chain reported is recorded, and the outcomes are put in the order of the calls.
\<close>

fun interrupt_remaining :: "timestamp \<Rightarrow> (item_id \<times> tool_call) list \<Rightarrow> round_state \<Rightarrow> round_state" where
  "interrupt_remaining at [] s = s"
| "interrupt_remaining at (c # cs) s =
     interrupt_remaining at cs
       (if list_ex (\<lambda>out. tu_item out = fst c) (ro_outcomes s) then s else land at (call_interrupted c) s)"

definition call_rank :: "(item_id \<times> tool_call) list \<Rightarrow> tool_outcome \<Rightarrow> nat" where
  "call_rank calls out = (case position (\<lambda>c. fst c = tu_item out) calls of None \<Rightarrow> 0 | Some n \<Rightarrow> Suc n)"

definition round_finish ::
  "round_config \<Rightarrow> timestamp \<Rightarrow> (item_id \<times> timestamp) list \<Rightarrow> item_body list \<Rightarrow> (item_id \<times> tool_call) list \<Rightarrow>
   round_state \<Rightarrow> round_state" where
  "round_finish cfg at ks reported calls s =
     (let s1 = interrupt_remaining at calls s in
      s1\<lparr>ro_transcript := record_all cfg ks reported (ro_transcript s1),
         ro_outcomes := sort_key (call_rank calls) (ro_outcomes s1)\<rparr>)"

definition round_over :: "round_state \<Rightarrow> bool" where
  "round_over s \<longleftrightarrow> ro_phase s = PhOver \<and> ro_flight s = []"

end
