(* ===== verification/Core_Walk.thy ===== *)
theory Core_Walk
  imports Core_Round
begin

text \<open>
  What a round of tool calls keeps: an invariant of the walk over every interleaving
  of landings, gate decisions, answers and stops, and what the round comes to.
\<close>

section \<open>Reading a transcript after an event\<close>

named_theorems folds \<open>what an item event leaves in a transcript\<close>

lemma get_folded [folds]:
  assumes "wf_transcript t"
  shows "get (folded (EvItemCompleted i) t) k = (if k = it_id i then Some i else get t k)"
    and "get (folded (EvItemUpdated i) t) k = (if k = it_id i then Some i else get t k)"
  using get_upsert[OF assms, of i k]
  by (auto simp: folded_def transcript_apply_def change_def split_beta split: if_splits)

lemma wf_folded [folds]: "wf_transcript t \<Longrightarrow> wf_transcript (folded e t)"
  by (simp add: folded_def wf_transcript_apply)

lemma record_all_keeps [folds]:
  "wf_transcript t \<Longrightarrow> wf_transcript (record_all cfg ks bs t)
     \<and> (k \<notin> fst ` set ks \<longrightarrow> get (record_all cfg ks bs t) k = get t k)"
  by (induction cfg ks bs t rule: record_all.induct) (auto simp: folds minted_item_def)

lemma admitted_keeps [folds]:
  assumes "wf_transcript t"
  shows "wf_transcript (admitted cfg ks rcpt gd t)"
    and "k \<notin> fst ` set ks \<union> it_id ` set_option rcpt \<Longrightarrow> get (admitted cfg ks rcpt gd t) k = get t k"
  using assms by (auto simp: admitted_def Let_def folds split: option.split)

lemma landed_item_id [simp]: "it_id (landed_item out at i) = it_id i"
  by (simp add: landed_item_def Let_def split: item_body.split)

lemma gated_item_id [simp]: "it_id (gated_item at gd i) = it_id i"
  by (simp add: gated_item_def Let_def split: item_body.split)


section \<open>What is owed\<close>

text \<open>The call the walk has reached and not yet handed on.\<close>

definition reached :: "round_phase \<Rightarrow> (item_id \<times> tool_call) list" where
  "reached ph =
     (case ph of
        PhDecide item call \<Rightarrow> [(item, call)]
      | PhSettle item call _ \<Rightarrow> [(item, call)]
      | PhAsk item call _ \<Rightarrow> [(item, call)]
      | PhAdmit item call _ \<Rightarrow> [(item, call)]
      | _ \<Rightarrow> [])"

lemma reached_simps [simp]:
  "reached PhReach = []" "reached PhDrain = []" "reached PhOver = []"
  "reached (PhDecide item call) = [(item, call)]" "reached (PhSettle item call d) = [(item, call)]"
  "reached (PhAsk item call d) = [(item, call)]" "reached (PhAdmit item call gd) = [(item, call)]"
  by (simp_all add: reached_def)

definition owed :: "round_state \<Rightarrow> item_id multiset" where
  "owed s = mset (map pc_item (ro_flight s)) + mset (map fst (reached (ro_phase s))) + mset (map fst (ro_todo s))"

text \<open>The transcript shows an outcome: the item of its call is over, with its output.\<close>

definition shows_outcome :: "transcript \<Rightarrow> tool_outcome \<Rightarrow> bool" where
  "shows_outcome t out \<longleftrightarrow>
     (\<exists>i c. get t (tu_item out) = Some i \<and> it_status i = tu_status out \<and> status_is_terminal (it_status i)
        \<and> it_body i = BToolCall c \<and> cb_output c = Some (tu_output out))"

definition is_call_item :: "transcript \<Rightarrow> item_id \<Rightarrow> bool" where
  "is_call_item t k \<longleftrightarrow> (\<exists>i c. get t k = Some i \<and> it_body i = BToolCall c)"

definition accounts ::
  "(item_id \<times> tool_call) list \<Rightarrow> bool \<Rightarrow> tool_outcome list \<Rightarrow> item_id multiset \<Rightarrow> transcript \<Rightarrow> bool" where
  "accounts calls whole outs due t \<longleftrightarrow>
     wf_transcript t
     \<and> mset (map tu_item outs) + due \<subseteq># mset (map fst calls)
     \<and> (whole \<longrightarrow> mset (map tu_item outs) + due = mset (map fst calls))
     \<and> (\<forall>c \<in> set calls. is_call_item t (fst c))
     \<and> (\<forall>out \<in> set outs. shows_outcome t out)"

lemma due_is_call: "accounts calls whole outs due t \<Longrightarrow> k \<in># due \<Longrightarrow> k \<in> fst ` set calls"
  using mset_subset_eqD[of "mset (map tu_item outs) + due" "mset (map fst calls)" k] by (auto simp: accounts_def)

lemma due_not_over:
  assumes "accounts calls whole outs due t" "distinct (map fst calls)" "k \<in># due" "out \<in> set outs"
  shows "tu_item out \<noteq> k"
proof
  assume k: "tu_item out = k"
  have "1 \<le> count (mset (map tu_item outs)) k"
    using assms(4) k by (metis count_greater_eq_one_iff imageI list.set_map set_mset_mset)
  moreover have "1 \<le> count due k"
    using assms(3) by simp
  moreover have "count (mset (map tu_item outs) + due) k \<le> count (mset (map fst calls)) k"
    using assms(1) unfolding accounts_def by (blast intro: mset_subset_eq_count)
  moreover have "count (mset (map fst calls)) k \<le> 1"
    using assms(2) by (simp add: distinct_count_atmost_1)
  ultimately show False
    unfolding count_union by linarith
qed

text \<open>An edit of the transcript that keeps every item of a call, and touches only what is due or new.\<close>

lemma accounts_edit:
  assumes "accounts calls whole outs due t" "distinct (map fst calls)" "wf_transcript t'"
    and "\<And>k. k \<notin># due \<Longrightarrow> get t k \<noteq> None \<Longrightarrow> get t' k = get t k"
    and "\<And>k. k \<in># due \<Longrightarrow> is_call_item t k \<Longrightarrow> is_call_item t' k"
  shows "accounts calls whole outs due t'"
proof -
  have "shows_outcome t' out" if out: "out \<in> set outs" for out
  proof -
    have "tu_item out \<notin># due"
      using due_not_over[OF assms(1,2)] out by blast
    then show ?thesis
      using assms(1) assms(4)[of "tu_item out"] out by (auto simp: accounts_def shows_outcome_def)
  qed
  moreover have "is_call_item t' (fst c)" if "c \<in> set calls" for c
    using assms(1) that assms(4)[of "fst c"] assms(5)[of "fst c"]
    by (cases "fst c \<in># due") (auto simp: accounts_def is_call_item_def)
  ultimately show ?thesis
    using assms(1,3) by (simp add: accounts_def)
qed


lemma land_simps [simp]:
  "ro_todo (land at out s) = ro_todo s" "ro_phase (land at out s) = ro_phase s"
  "ro_flight (land at out s) = ro_flight s" "ro_outcomes (land at out s) = ro_outcomes s @ [out]"
  "ro_cancelled (land at out s) = ro_cancelled s" "ro_ran (land at out s) = ro_ran s"
  by (simp_all add: land_def)

lemma accounts_land:
  assumes "accounts calls whole (ro_outcomes s) (add_mset (tu_item out) due) (ro_transcript s)"
    and "distinct (map fst calls)" "status_is_terminal (tu_status out)"
  shows "accounts calls whole (ro_outcomes (land at out s)) due (ro_transcript (land at out s))"
proof -
  let ?t = "ro_transcript s" and ?t' = "ro_transcript (land at out s)"
  have wf: "wf_transcript ?t"
    using assms(1) by (simp add: accounts_def)
  have "tu_item out \<in> fst ` set calls"
    using due_is_call[OF assms(1)] by simp
  then have "is_call_item ?t (tu_item out)"
    using assms(1) by (auto simp: accounts_def)
  then obtain i c where i: "get ?t (tu_item out) = Some i" "it_body i = BToolCall c" "it_id i = tu_item out"
    using get_id[OF wf] by (auto simp: is_call_item_def)
  then have t': "?t' = folded (EvItemCompleted (landed_item out at i)) ?t"
    by (simp add: land_def)
  have get: "get ?t' k = (if k = tu_item out then Some (landed_item out at i) else get ?t k)" for k
    using get_folded(1)[OF wf] i(3) by (simp add: t')
  have shown: "shows_outcome ?t' out" and call: "is_call_item ?t' (tu_item out)"
    using assms(3) i(2) by (auto simp: shows_outcome_def is_call_item_def get landed_item_def Let_def)
  have "accounts calls whole (ro_outcomes s) (add_mset (tu_item out) due) ?t'"
    using wf_folded[OF wf, of "EvItemCompleted (landed_item out at i)"] call
    by (intro accounts_edit[OF assms(1,2)]) (simp_all add: t'[symmetric] get is_call_item_def split: if_splits)
  then show ?thesis
    using shown by (simp add: accounts_def)
qed

text \<open>Marking a call edits its item, and leaves it a call.\<close>

definition edits_call :: "item_id \<Rightarrow> transcript \<Rightarrow> transcript \<Rightarrow> bool" where
  "edits_call item t t' \<longleftrightarrow>
     wf_transcript t' \<and> (\<forall>k. k \<noteq> item \<longrightarrow> get t' k = get t k) \<and> (\<forall>k. is_call_item t k \<longrightarrow> is_call_item t' k)"

lemma edits_call_same: "wf_transcript t \<Longrightarrow> edits_call item t t"
  by (simp add: edits_call_def)

lemma edits_call_folded:
  assumes "wf_transcript t" "it_id i = item" "it_body i = BToolCall c"
  shows "edits_call item t (folded (EvItemUpdated i) t)"
  using assms get_folded(2)[OF assms(1), of i] wf_folded[OF assms(1)]
  by (auto simp: edits_call_def is_call_item_def)

lemma mark_asked_edits:
  assumes "wf_transcript t"
  shows "edits_call item t (mark_asked at item t)"
proof (cases "get t item")
  case (Some i)
  then show ?thesis
    using get_id[OF assms Some] assms
    by (cases "it_body i") (simp_all add: mark_asked_def edits_call_same edits_call_folded)
qed (simp add: mark_asked_def edits_call_same assms)

lemma mark_gated_edits:
  assumes "wf_transcript t" "is_call_item t item"
  shows "edits_call item t (mark_gated at item gd t)"
proof -
  obtain i c where i: "get t item = Some i" "it_body i = BToolCall c"
    using assms(2) by (auto simp: is_call_item_def)
  have "edits_call item t (folded (EvItemUpdated (gated_item at gd i)) t)"
    using get_id[OF assms(1) i(1)] i(2)
    by (intro edits_call_folded assms(1)) (simp_all add: gated_item_def Let_def)
  then show ?thesis
    by (simp add: mark_gated_def i edits_call_same assms(1))
qed

lemma run_one_terminal [simp]: "status_is_terminal (tu_status (run_one pc stopped res took))"
  by (simp add: run_one_def status_is_terminal_def Let_def split: gate.split option.split sum.split tool_error.split)

lemma run_one_item [simp]: "tu_item (run_one pc stopped res took) = pc_item pc"
  by (simp add: run_one_def Let_def split: gate.split option.split sum.split tool_error.split)


section \<open>The accounts of the walk\<close>

definition accounted :: "(item_id \<times> tool_call) list \<Rightarrow> round_state \<Rightarrow> bool" where
  "accounted calls s \<longleftrightarrow>
     accounts calls (\<not> ro_cancelled s) (ro_outcomes s) (owed s) (ro_transcript s)
     \<and> (ro_cancelled s \<longrightarrow> ro_phase s = PhOver)
     \<and> (ro_phase s \<in> {PhDrain, PhOver} \<and> \<not> ro_cancelled s \<longrightarrow> ro_todo s = [])
     \<and> (ro_phase s = PhOver \<and> \<not> ro_cancelled s \<longrightarrow> ro_flight s = [])"

lemma accounted_start:
  assumes "wf_transcript t" "\<forall>c \<in> set calls. is_call_item t (fst c)"
  shows "accounted calls (round_start calls t)"
  using assms by (simp add: accounted_def accounts_def round_start_def owed_def)

lemma accounted_lands:
  assumes "accounted calls s" "distinct (map fst calls)" "polls_flight s" "ro_flight s = xs @ pc # ys"
  shows "accounted calls (land at (run_one pc stopped res took) (s\<lparr>ro_flight := xs @ ys\<rparr>))"
proof -
  let ?s = "s\<lparr>ro_flight := xs @ ys\<rparr>" and ?out = "run_one pc stopped res took"
  have "owed s = add_mset (tu_item ?out) (owed ?s)"
    by (simp add: owed_def assms(4))
  then have "accounts calls (\<not> ro_cancelled ?s) (ro_outcomes ?s) (add_mset (tu_item ?out) (owed ?s)) (ro_transcript ?s)"
    using assms(1) by (simp add: accounted_def)
  from accounts_land[OF this assms(2) run_one_terminal, of at] show ?thesis
    using assms(1,3,4) by (auto simp: accounted_def owed_def polls_flight_def)
qed

lemma accounts_edits_call:
  assumes "accounts calls whole outs due t" "distinct (map fst calls)" "item \<in># due" "edits_call item t t'"
  shows "accounts calls whole outs due t'"
  using assms(3,4) unfolding edits_call_def by (intro accounts_edit[OF assms(1,2)]) auto

lemma accounts_admitted:
  assumes "accounts calls whole outs due t" "distinct (map fst calls)" "recorded_apart ks rcpt gd t"
  shows "accounts calls whole outs due (admitted cfg ks rcpt gd t)"
proof -
  have wf: "wf_transcript t"
    using assms(1) by (simp add: accounts_def)
  have "get (admitted cfg ks rcpt gd t) k = get t k" if "get t k \<noteq> None" for k
    using that assms(3) unfolding recorded_apart_def by (intro admitted_keeps(2)[OF wf]) metis
  then show ?thesis
    by (intro accounts_edit[OF assms(1,2)]) (auto simp: admitted_keeps(1)[OF wf] is_call_item_def)
qed

lemma accounts_gated:
  assumes "accounts calls whole outs due t" "distinct (map fst calls)" "recorded_apart ks rcpt gd t" "item \<in># due"
  shows "accounts calls whole outs due (mark_gated at item gd (admitted cfg ks rcpt gd t))"
proof -
  note admitted = accounts_admitted[OF assms(1-3), of cfg]
  then have "is_call_item (admitted cfg ks rcpt gd t) item"
    using due_is_call[OF admitted assms(4)] by (auto simp: accounts_def)
  then show ?thesis
    using admitted by (intro accounts_edits_call[OF admitted assms(2,4)] mark_gated_edits) (simp_all add: accounts_def)
qed

text \<open>Moves that leave outcomes and transcript alone.\<close>

lemma accounted_moves:
  assumes "accounted calls s" "ro_phase s \<noteq> PhOver"
    and "mset (map fst (reached (ro_phase s'))) + mset (map fst (ro_todo s')) = mset (map fst (reached (ro_phase s))) + mset (map fst (ro_todo s))"
    and "ro_flight s' = ro_flight s" "ro_outcomes s' = ro_outcomes s" "ro_cancelled s' = ro_cancelled s"
    and "accounts calls (\<not> ro_cancelled s) (ro_outcomes s) (owed s) (ro_transcript s')"
    and "ro_phase s' \<in> {PhDrain, PhOver} \<Longrightarrow> ro_todo s' = []" "ro_phase s' = PhOver \<Longrightarrow> ro_flight s' = []"
  shows "accounted calls s'"
proof -
  have "owed s' = owed s"
    using assms(3,4) by (simp add: owed_def add.assoc)
  then show ?thesis
    using assms unfolding accounted_def by simp
qed

lemma accounted_admit:
  assumes "accounted calls s" "distinct (map fst calls)" "ro_phase s = PhAdmit item call gd"
    and "recorded_apart ks rcpt gd (ro_transcript s)"
  shows "accounts calls True (ro_outcomes s) (owed s) (mark_gated at item gd (admitted cfg ks rcpt gd (ro_transcript s)))"
    and "\<not> ro_cancelled s"
proof -
  show nc: "\<not> ro_cancelled s"
    using assms(1,3) by (auto simp: accounted_def)
  have "accounts calls True (ro_outcomes s) (owed s) (ro_transcript s)"
    using assms(1) nc by (simp add: accounted_def)
  then show "accounts calls True (ro_outcomes s) (owed s) (mark_gated at item gd (admitted cfg ks rcpt gd (ro_transcript s)))"
    by (rule accounts_gated[OF _ assms(2,4)]) (simp add: owed_def assms(3))
qed

lemma accounted_admit_lands:
  assumes "accounted calls s" "distinct (map fst calls)" "ro_phase s = PhAdmit item call gd"
    and "recorded_apart ks rcpt gd (ro_transcript s)" "pc_item pc = item"
  shows "accounted calls (land at (run_one pc False res took)
      (s\<lparr>ro_phase := PhReach, ro_transcript := mark_gated at' item gd (admitted cfg ks rcpt gd (ro_transcript s)), ro_ran := rn\<rparr>))"
proof -
  let ?s = "s\<lparr>ro_phase := PhReach, ro_transcript := mark_gated at' item gd (admitted cfg ks rcpt gd (ro_transcript s)), ro_ran := rn\<rparr>"
  note gated = accounted_admit(1)[OF assms(1-4), of at' cfg] accounted_admit(2)[OF assms(1-4)]
  have "owed s = add_mset (tu_item (run_one pc False res took)) (owed ?s)"
    by (simp add: owed_def assms(3,5))
  then have "accounts calls True (ro_outcomes ?s) (add_mset (tu_item (run_one pc False res took)) (owed ?s)) (ro_transcript ?s)"
    using gated(1) by simp
  from accounts_land[OF this assms(2) run_one_terminal, of at] show ?thesis
    using gated(2) by (simp add: accounted_def owed_def)
qed

lemma accounted_admit_flies:
  assumes "accounted calls s" "distinct (map fst calls)" "ro_phase s = PhAdmit item call gd"
    and "recorded_apart ks rcpt gd (ro_transcript s)" "pc_item pc = item"
  shows "accounted calls
      (s\<lparr>ro_phase := PhReach, ro_transcript := mark_gated at item gd (admitted cfg ks rcpt gd (ro_transcript s)),
         ro_flight := ro_flight s @ [pc], ro_ran := rn\<rparr>)" (is "accounted calls ?s")
proof -
  note gated = accounted_admit(1)[OF assms(1-4), of at cfg] accounted_admit(2)[OF assms(1-4)]
  have "owed ?s = owed s"
    by (simp add: owed_def assms(3,5))
  then show ?thesis
    using gated by (simp add: accounted_def)
qed

lemma accounted_ask:
  assumes "accounted calls s" "distinct (map fst calls)" "ro_phase s = PhSettle item call d"
  shows "accounts calls (\<not> ro_cancelled s) (ro_outcomes s) (owed s) (mark_asked at item (ro_transcript s))"
proof -
  have acc: "accounts calls (\<not> ro_cancelled s) (ro_outcomes s) (owed s) (ro_transcript s)"
    using assms(1) by (simp add: accounted_def)
  then have "wf_transcript (ro_transcript s)"
    by (simp add: accounts_def)
  then show ?thesis
    by (intro accounts_edits_call[OF acc assms(2) _ mark_asked_edits]) (simp_all add: owed_def assms(3))
qed

lemma accounted_step:
  assumes "round_step cfg s s'" "accounted calls s" "distinct (map fst calls)"
  shows "accounted calls s'"
proof -
  have acc: "accounts calls (\<not> ro_cancelled s) (ro_outcomes s) (owed s) (ro_transcript s)"
    using assms(2) by (simp add: accounted_def)
  show ?thesis
    using assms(1)
  proof cases
    case (lands xs pc ys at res took)
    then show ?thesis
      using accounted_lands[OF assms(2,3)] by simp
  next
    case (ask item call w at)
    then show ?thesis
      using accounted_ask[OF assms(2,3) ask(2), of at] by (intro accounted_moves[OF assms(2)]) simp_all
  next
    case (admit_lands item call gd rcpt ks pc at res took at')
    then show ?thesis
      using accounted_admit_lands[OF assms(2,3) admit_lands(2,4)] by (simp add: pending_of_def)
  next
    case (admit_flies item call gd rcpt ks pc at)
    then show ?thesis
      using accounted_admit_flies[OF assms(2,3) admit_flies(2,4)] by (simp add: pending_of_def)
  next
    case drain_end
    then have "ro_flight s = []" "ro_todo s = []"
      using assms(2) by (auto simp: accounted_def round_next_def flight_state_def split: if_splits)
    then show ?thesis
      using acc drain_end by (intro accounted_moves[OF assms(2)]) simp_all
  qed (use acc in \<open>auto intro!: accounted_moves[OF assms(2)]\<close>)
qed


lemma accounts_less:
  "accounts calls whole outs due t \<Longrightarrow> left \<subseteq># due \<Longrightarrow> accounts calls False outs left t"
  using subset_mset.order_trans[of "mset (map tu_item outs) + left" "mset (map tu_item outs) + due" "mset (map fst calls)"]
  by (simp add: accounts_def)

lemma accounted_stop:
  assumes "round_stop cfg s s'" "accounted calls s" "distinct (map fst calls)"
  shows "accounted calls s'"
proof -
  have acc: "accounts calls (\<not> ro_cancelled s) (ro_outcomes s) (owed s) (ro_transcript s)"
    using assms(2) by (simp add: accounted_def)
  have less: "mset (map pc_item (ro_flight s)) + mset (map fst (ro_todo s)) \<subseteq># owed s"
    by (simp add: owed_def)
  show ?thesis
    using assms(1)
  proof cases
    case stop
    then show ?thesis
      using accounts_less[OF acc less] by (simp add: accounted_def owed_def)
  next
    case (stop_admit item call gd ks rcpt)
    then show ?thesis
      using accounts_less[OF accounts_admitted[OF acc assms(3) stop_admit(3)] less] by (simp add: accounted_def owed_def)
  qed
qed

lemma accounted_reaches:
  assumes "round_reaches cfg s s'" "accounted calls s" "distinct (map fst calls)"
  shows "accounted calls s'"
  using assms by (induction rule: round_reaches.induct) (auto intro: accounted_step accounted_stop)

section \<open>The end of the round\<close>

lemma accounts_missing:
  assumes "accounts calls False outs {#} t" "distinct (map fst calls)" "c \<in> set calls" "fst c \<notin> tu_item ` set outs"
  shows "accounts calls False outs {#fst c#} t"
proof -
  have "count (add_mset (fst c) (mset (map tu_item outs))) k \<le> count (mset (map fst calls)) k" for k
  proof (cases "k = fst c")
    case True
    have "count (mset (map tu_item outs)) k = 0"
      using assms(4) True by (metis count_mset_0_iff list.set_map)
    moreover have "count (mset (map fst calls)) k = 1"
      using assms(2,3) True by (simp only: distinct_count_atmost_1) (metis imageI list.set_map)
    ultimately show ?thesis
      using True by simp
  next
    case False
    then show ?thesis
      using assms(1) by (simp add: accounts_def mset_subset_eq_count)
  qed
  then show ?thesis
    using assms(1) by (simp add: accounts_def subseteq_mset_def)
qed

lemma interrupt_remaining_accounts:
  assumes "distinct (map fst calls)" "set cs \<subseteq> set calls"
    and "accounts calls False (ro_outcomes s) {#} (ro_transcript s)"
  shows "accounts calls False (ro_outcomes (interrupt_remaining at cs s)) {#} (ro_transcript (interrupt_remaining at cs s))
    \<and> tu_item ` set (ro_outcomes (interrupt_remaining at cs s)) = tu_item ` set (ro_outcomes s) \<union> fst ` set cs"
  using assms(2,3)
proof (induction cs arbitrary: s)
  case (Cons c cs)
  show ?case
  proof (cases "fst c \<in> tu_item ` set (ro_outcomes s)")
    case True
    then have "list_ex (\<lambda>out. tu_item out = fst c) (ro_outcomes s)"
      by (auto simp: list_ex_iff)
    then show ?thesis
      using Cons True by auto
  next
    case False
    let ?s = "land at (call_interrupted c) s"
    have out: "tu_item (call_interrupted c) = fst c" "status_is_terminal (tu_status (call_interrupted c))"
      by (simp_all add: call_interrupted_def interrupted_outcome_def status_is_terminal_def)
    have "accounts calls False (ro_outcomes s) {#fst c#} (ro_transcript s)"
      using Cons.prems False by (intro accounts_missing assms(1)) simp_all
    then have "accounts calls False (ro_outcomes ?s) {#} (ro_transcript ?s)"
      using accounts_land[of calls False s "call_interrupted c" "{#}" at] assms(1) out by simp
    moreover have "\<not> list_ex (\<lambda>out. tu_item out = fst c) (ro_outcomes s)"
      using False by (metis (mono_tags, lifting) image_eqI list_ex_iff)
    ultimately show ?thesis
      using Cons.IH[of ?s] Cons.prems(1) out(1) by auto
  qed
qed simp

text \<open>Sorting the outcomes by the position of their call gives them the order of the calls.\<close>

lemma position_distinct: "distinct xs \<Longrightarrow> n < length xs \<Longrightarrow> position (\<lambda>x. x = xs ! n) xs = Some n"
  by (induction xs arbitrary: n) (auto simp: nth_Cons split: nat.splits)

lemma sorted_by_rank:
  assumes "distinct (map fst calls)" "mset (map tu_item outs) = mset (map fst calls)"
  shows "map tu_item (sort_key (call_rank calls) outs) = map fst calls"
proof -
  let ?ks = "map fst calls"
  define rank where "rank k = (case position (\<lambda>x. x = k) ?ks of None \<Rightarrow> 0 | Some n \<Rightarrow> Suc n)" for k
  have rank: "call_rank calls out = rank (tu_item out)" for out
    by (simp add: call_rank_def rank_def position_map comp_def)
  have nth: "rank (?ks ! n) = Suc n" if "n < length ?ks" for n
    using position_distinct[OF assms(1) that] by (simp add: rank_def)
  then have ranks: "map rank ?ks = map Suc [0..<length ?ks]"
    by (intro nth_equalityI) (simp_all del: map_map upt_Suc)
  let ?os = "map tu_item (sort_key (call_rank calls) outs)"
  have ms: "mset ?os = mset ?ks"
    using assms(2) by simp
  then have same: "set ?os = set ?ks" "distinct ?os"
    using assms(1) mset_eq_setD[OF ms] mset_eq_imp_distinct_iff[OF ms] by blast+
  have ordered: "sorted (map rank ?ks)" "distinct (map rank ?ks)"
    unfolding ranks by (simp_all add: sorted_map distinct_map)
  then have inj: "inj_on rank (set ?ks)"
    by (simp only: distinct_map)
  have by_rank: "map rank ?os = map (call_rank calls) (sort_key (call_rank calls) outs)"
    by (simp add: rank)
  have os: "sorted (map rank ?os)"
    unfolding by_rank by (rule sorted_sort_key)
  have "distinct (map rank ?os)"
    using inj same(2) unfolding distinct_map[of rank] same(1) by blast
  moreover have "set (map rank ?os) = set (map rank ?ks)"
    unfolding set_map[of rank] same(1) by (rule refl)
  ultimately have "map rank ?os = map rank ?ks"
    using sorted_distinct_set_unique[OF os _ ordered] by blast
  moreover have "inj_on rank (set ?os \<union> set ?ks)"
    unfolding same(1) Un_absorb by (rule inj)
  ultimately show ?thesis
    by (rule map_inj_on)
qed

lemma round_finish_simps [simp]:
  "ro_outcomes (round_finish cfg at ks reported calls s) = sort_key (call_rank calls) (ro_outcomes (interrupt_remaining at calls s))"
  "ro_transcript (round_finish cfg at ks reported calls s) = record_all cfg ks reported (ro_transcript (interrupt_remaining at calls s))"
  by (simp_all add: round_finish_def Let_def)

lemma interrupt_remaining_none:
  "\<forall>c \<in> set cs. fst c \<in> tu_item ` set (ro_outcomes s) \<Longrightarrow> interrupt_remaining at cs s = s"
  by (induction cs) (auto simp: list_ex_iff)

lemma accounts_complete:
  assumes "accounts calls False outs {#} t" "distinct (map fst calls)" "fst ` set calls \<subseteq> tu_item ` set outs"
  shows "mset (map tu_item outs) = mset (map fst calls)"
proof -
  have "count (mset (map fst calls)) k \<le> count (mset (map tu_item outs)) k" for k
  proof (cases "k \<in> fst ` set calls")
    case True
    then have "k \<in># mset (map tu_item outs)"
      using assms(3) by auto
    then have "1 \<le> count (mset (map tu_item outs)) k"
      by (simp only: count_greater_eq_one_iff)
    moreover have "count (mset (map fst calls)) k \<le> 1"
      using assms(2) by (simp add: distinct_count_atmost_1)
    ultimately show ?thesis
      by (rule order_trans[rotated])
  next
    case False
    then have "k \<notin># mset (map fst calls)"
      by simp
    then show ?thesis
      by (simp only: not_in_iff)
  qed
  then have "mset (map fst calls) \<subseteq># mset (map tu_item outs)"
    by (rule mset_subset_eqI)
  then show ?thesis
    using assms(1) by (simp add: accounts_def subset_mset.order_antisym)
qed

end
