(* ===== verification/Core_Flight.thy ===== *)
theory Core_Flight
  imports Core_Walk
begin

text \<open>
  What runs in a round of tool calls, and with what: the calls in flight, the gate
  every one of them passed, and that the walk neither gets stuck nor goes on for ever.
\<close>

section \<open>The calls in flight\<close>

abbreviation runs_safely :: "pending_call \<Rightarrow> bool" where
  "runs_safely pc \<equiv> tt_concurrency_safe (pc_traits pc)"

definition flies_well :: "pending_call list \<Rightarrow> bool" where
  "flies_well fs \<longleftrightarrow> length fs \<le> MAX_CONCURRENCY \<and> (length fs \<le> 1 \<or> list_all runs_safely fs)"

text \<open>The gate, asked about this call, let it pass as this.\<close>

definition passed :: "round_config \<Rightarrow> (item_id \<times> tool_call) list \<Rightarrow> item_id \<times> tool_call \<times> gated \<Rightarrow> bool" where
  "passed cfg calls r = (case r of (item, call, gd) \<Rightarrow>
     (item, call) \<in> set calls
     \<and> (\<exists>told. gate_call (rc_json cfg) (rc_person cfg item) (round_gate cfg item call) = Some (gd, told)))"

definition may_fly :: "pending_call list \<Rightarrow> gated \<Rightarrow> bool" where
  "may_fly fs gd \<longleftrightarrow>
     fs = [] \<or> list_all runs_safely fs \<and> (gd_gate gd = GateAllowed \<longrightarrow> tt_concurrency_safe (gd_traits gd) \<and> length fs < MAX_CONCURRENCY)"

definition phase_ok :: "round_config \<Rightarrow> (item_id \<times> tool_call) list \<Rightarrow> round_state \<Rightarrow> bool" where
  "phase_ok cfg calls s =
     (case ro_phase s of
        PhDecide item call \<Rightarrow> (item, call) \<in> set calls \<and> list_all runs_safely (ro_flight s)
      | PhSettle item call d \<Rightarrow> (item, call) \<in> set calls \<and> list_all runs_safely (ro_flight s)
          \<and> d = gate_check (round_gate cfg item call) 0 call False
      | PhAsk item call d \<Rightarrow> (item, call) \<in> set calls \<and> ro_flight s = []
          \<and> d = gate_check (round_gate cfg item call) 0 call False
      | PhAdmit item call gd \<Rightarrow> passed cfg calls (item, call, gd) \<and> may_fly (ro_flight s) gd
      | _ \<Rightarrow> True)"

definition runs_well :: "round_config \<Rightarrow> (item_id \<times> tool_call) list \<Rightarrow> round_state \<Rightarrow> bool" where
  "runs_well cfg calls s \<longleftrightarrow>
     flies_well (ro_flight s) \<and> phase_ok cfg calls s \<and> set (ro_todo s) \<subseteq> set calls
     \<and> (\<forall>r \<in> set (ro_ran s). passed cfg calls r \<and> gd_gate (snd (snd r)) = GateAllowed)
     \<and> (\<forall>pc \<in> set (ro_flight s). \<exists>(item, call, gd) \<in> set (ro_ran s). pc = pending_of cfg item call gd)
     \<and> (\<forall>out \<in> set (ro_outcomes s). tu_status out = StCompleted \<longrightarrow> tu_item out \<in> fst ` set (ro_ran s))"

lemma flies_well_less: "flies_well (xs @ pc # ys) \<Longrightarrow> flies_well (xs @ ys)"
  by (auto simp: flies_well_def)

lemma phase_ok_less:
  "phase_ok cfg calls s \<Longrightarrow> ro_flight s = xs @ pc # ys \<Longrightarrow> phase_ok cfg calls (s\<lparr>ro_flight := xs @ ys\<rparr>)"
  by (auto simp: phase_ok_def may_fly_def split: round_phase.splits)

lemma completed_only_run:
  "tu_status (run_one pc stopped res took) = StCompleted \<Longrightarrow> \<not> ready_at_once pc"
  by (auto simp: run_one_def ready_at_once_def Let_def split: gate.splits option.splits)

lemma not_ready: "\<not> ready_at_once (pending_of cfg item call gd) \<Longrightarrow> gd_gate gd = GateAllowed"
  by (simp add: ready_at_once_def pending_of_def)

lemma settled_passed:
  "gate_check (round_gate cfg item call) 0 call False = Settled gd \<Longrightarrow> (item, call) \<in> set calls \<Longrightarrow> passed cfg calls (item, call, gd)"
  by (simp add: passed_def gate_call_def round_gate_def gate_ask.simps settle_asked_def)

lemma asked_passed:
  "gate_ask (rc_json cfg) (rc_person cfg item) (round_gate cfg item call) 0 False None []
     (gate_check (round_gate cfg item call) 0 call False) = Some (gd, told) \<Longrightarrow>
   (item, call) \<in> set calls \<Longrightarrow> passed cfg calls (item, call, gd)"
  by (auto simp: passed_def gate_call_def round_gate_def)

lemma settled_may_fly:
  assumes "list_all runs_safely fs" "round_next (flight_state fs) (Some (decided_action (Settled gd))) \<noteq> RaWait"
  shows "may_fly fs gd"
  using assms
  by (cases "gd_gate gd") (auto simp: may_fly_def round_next_def decided_action_def flight_state_def split: if_splits)


lemma phase_ok_simps [simp]:
  "ro_phase s = PhReach \<Longrightarrow> phase_ok cfg calls s" "ro_phase s = PhDrain \<Longrightarrow> phase_ok cfg calls s"
  "ro_phase s = PhOver \<Longrightarrow> phase_ok cfg calls s"
  by (simp_all add: phase_ok_def)

lemma phase_ok_land [simp]: "phase_ok cfg calls (land at out s) = phase_ok cfg calls s"
  by (simp add: phase_ok_def split: round_phase.split)

lemma runs_well_lands:
  assumes "runs_well cfg calls s" "ro_flight s = xs @ pc # ys"
  shows "runs_well cfg calls (land at (run_one pc stopped res took) (s\<lparr>ro_flight := xs @ ys\<rparr>))"
proof -
  have "pc \<in> set (ro_flight s)"
    using assms(2) by simp
  then obtain item call gd where "(item, call, gd) \<in> set (ro_ran s)" "pc = pending_of cfg item call gd"
    using assms(1) unfolding runs_well_def by fast
  then have "pc_item pc \<in> fst ` set (ro_ran s)"
    by (force simp: pending_of_def)
  then show ?thesis
    using assms flies_well_less[of xs pc ys] phase_ok_less[of cfg calls s xs pc ys] by (simp add: runs_well_def)
qed

lemma runs_well_moves:
  assumes "runs_well cfg calls s" "ro_flight s' = ro_flight s" "ro_ran s' = ro_ran s" "ro_outcomes s' = ro_outcomes s"
    and "set (ro_todo s') \<subseteq> set (ro_todo s)" "phase_ok cfg calls s'"
  shows "runs_well cfg calls s'"
  using assms unfolding runs_well_def by auto

lemma runs_well_admit_lands:
  assumes "runs_well cfg calls s" "ro_phase s = PhAdmit item call gd" "pc = pending_of cfg item call gd"
  shows "runs_well cfg calls (land at (run_one pc False res took)
      (s\<lparr>ro_phase := PhReach, ro_transcript := t, ro_ran := (if ready_at_once pc then ro_ran s else ro_ran s @ [(item, call, gd)])\<rparr>))"
proof -
  have "passed cfg calls (item, call, gd)"
    using assms(1,2) by (simp add: runs_well_def phase_ok_def)
  then show ?thesis
    using assms(1,3) completed_only_run[of pc False res took] not_ready[of cfg item call gd]
    by (auto simp: runs_well_def pending_of_def)
qed

lemma runs_well_admit_flies:
  assumes "runs_well cfg calls s" "ro_phase s = PhAdmit item call gd" "pc = pending_of cfg item call gd" "\<not> ready_at_once pc"
  shows "runs_well cfg calls
      (s\<lparr>ro_phase := PhReach, ro_transcript := t, ro_flight := ro_flight s @ [pc], ro_ran := ro_ran s @ [(item, call, gd)]\<rparr>)"
proof -
  have "passed cfg calls (item, call, gd)" "may_fly (ro_flight s) gd" and gd: "gd_gate gd = GateAllowed"
    using assms not_ready[of cfg item call gd] by (simp_all add: runs_well_def phase_ok_def)
  then have "flies_well (ro_flight s @ [pc])"
    using assms(3) by (auto simp: flies_well_def may_fly_def pending_of_def MAX_CONCURRENCY_def)
  then show ?thesis
    using assms(1,3) gd \<open>passed cfg calls (item, call, gd)\<close> by (auto simp: runs_well_def)
qed

lemma runs_well_step:
  assumes "round_step cfg s s'" "runs_well cfg calls s"
  shows "runs_well cfg calls s'"
proof -
  have ok: "phase_ok cfg calls s"
    using assms(2) by (simp add: runs_well_def)
  show ?thesis
    using assms(1)
  proof cases
    case lands
    then show ?thesis
      using runs_well_lands[OF assms(2)] by simp
  next
    case (reach item call rest)
    then have "(item, call) \<in> set calls"
      using assms(2) by (auto simp: runs_well_def)
    then show ?thesis
      using reach by (intro runs_well_moves[OF assms(2)]) (auto simp: phase_ok_def flight_state_def)
  next
    case settle
    then show ?thesis
      using ok by (intro runs_well_moves[OF assms(2)])
        (auto simp: phase_ok_def intro: settled_passed settled_may_fly)
  next
    case ask
    then show ?thesis
      using ok by (intro runs_well_moves[OF assms(2)])
        (auto simp: phase_ok_def round_next_def decided_action_def flight_state_def split: if_splits)
  next
    case asked
    then show ?thesis
      using ok by (intro runs_well_moves[OF assms(2)]) (auto simp: phase_ok_def may_fly_def intro: asked_passed)
  next
    case admit_lands
    then show ?thesis
      using runs_well_admit_lands[OF assms(2)] by simp
  next
    case admit_flies
    then show ?thesis
      using runs_well_admit_flies[OF assms(2)] by simp
  qed (use ok in \<open>auto simp: phase_ok_def intro!: runs_well_moves[OF assms(2)]\<close>)
qed

lemma runs_well_stop: "round_stop cfg s s' \<Longrightarrow> runs_well cfg calls s \<Longrightarrow> runs_well cfg calls s'"
  by (erule round_stop.cases; rule runs_well_moves; auto)

lemma runs_well_start: "runs_well cfg calls (round_start calls t)"
  by (simp add: runs_well_def round_start_def flies_well_def MAX_CONCURRENCY_def)

lemma runs_well_reaches: "round_reaches cfg s s' \<Longrightarrow> runs_well cfg calls s \<Longrightarrow> runs_well cfg calls s'"
proof (induction rule: round_reaches.induct)
  case (walks s s' s'')
  then show ?case
    using runs_well_step by blast
next
  case (stops s s' s'')
  then show ?case
    using runs_well_stop by blast
qed


lemma ran_passed:
  "runs_well cfg calls s \<Longrightarrow> (item, call, gd) \<in> set (ro_ran s) \<Longrightarrow> passed cfg calls (item, call, gd) \<and> gd_gate gd = GateAllowed"
  unfolding runs_well_def by (metis snd_conv)

section \<open>Progress\<close>

text \<open>Every step and every stop brings the walk closer to its end.\<close>

fun phase_weight :: "round_phase \<Rightarrow> nat" where
  "phase_weight PhReach = 2"
| "phase_weight (PhDecide _ _) = 8"
| "phase_weight (PhSettle _ _ _) = 7"
| "phase_weight (PhAsk _ _ _) = 6"
| "phase_weight (PhAdmit _ _ _) = 5"
| "phase_weight PhDrain = 1"
| "phase_weight PhOver = 0"

definition steps_left :: "round_state \<Rightarrow> nat" where
  "steps_left s = 7 * length (ro_todo s) + phase_weight (ro_phase s) + length (ro_flight s)"

lemma step_nears: "round_step cfg s s' \<Longrightarrow> steps_left s' < steps_left s"
  by (erule round_step.cases) (simp_all add: steps_left_def)

lemma stop_nears: "round_stop cfg s s' \<Longrightarrow> steps_left s' < steps_left s"
  by (erule round_stop.cases) (cases "ro_phase s"; simp add: steps_left_def)+

inductive round_run :: "round_config \<Rightarrow> nat \<Rightarrow> round_state \<Rightarrow> round_state \<Rightarrow> bool" for cfg where
  run_here: "round_run cfg 0 s s"
| run_walks: "round_run cfg n s s' \<Longrightarrow> round_step cfg s' s'' \<Longrightarrow> round_run cfg (Suc n) s s''"
| run_stops: "round_run cfg n s s' \<Longrightarrow> round_stop cfg s' s'' \<Longrightarrow> round_run cfg (Suc n) s s''"

lemma run_nears: "round_run cfg n s s' \<Longrightarrow> n + steps_left s' \<le> steps_left s"
proof (induction rule: round_run.induct)
  case (run_walks n s s' s'')
  then show ?case
    using step_nears[OF run_walks.hyps(2)] by simp
next
  case (run_stops n s s' s'')
  then show ?case
    using stop_nears[OF run_stops.hyps(2)] by simp
qed simp

lemma run_reaches: "round_run cfg n s s' \<Longrightarrow> round_reaches cfg s s'"
  by (induction rule: round_run.induct) (auto intro: round_reaches.intros)

text \<open>Ids that are new to a transcript there are as many as are needed.\<close>

lemma known_finite: "wf_transcript t \<Longrightarrow> finite {k. get t k \<noteq> None}"
proof (rule finite_subset)
  assume wf: "wf_transcript t"
  show "{k. get t k \<noteq> None} \<subseteq> it_id ` set (tr_items t)"
  proof
    fix k
    assume "k \<in> {k. get t k \<noteq> None}"
    then obtain n where "Mapping.lookup (tr_positions t) k = Some n"
      by (auto simp: get_def)
    then show "k \<in> it_id ` set (tr_items t)"
      using position_in_range[OF wf] by (intro image_eqI[of _ _ "tr_items t ! n"]) simp_all
  qed
qed simp

lemma fresh_ids:
  assumes "wf_transcript t"
  obtains ids where "length ids = n" "distinct ids" "\<forall>k \<in> set ids. get t k = None"
proof -
  have "infinite (UNIV - {k. get t k \<noteq> None})"
    using known_finite[OF assms] infinite_UNIV_listI by (rule Diff_infinite_finite)
  from infinite_arbitrarily_large[OF this, of n]
  obtain X where X: "finite X" "card X = n" "X \<subseteq> UNIV - {k. get t k \<noteq> None}"
    by (elim exE conjE)
  from finite_distinct_list[OF X(1)] obtain ids where ids: "set ids = X" "distinct ids"
    by (elim exE conjE)
  show thesis
  proof (rule that[of ids])
    show "length ids = n"
      using ids X(2) distinct_card[of ids] by simp
    show "\<forall>k \<in> set ids. get t k = None"
      using ids(1) X(3) by auto
  qed (rule ids(2))
qed

lemma receipt_ids:
  assumes "wf_transcript t"
  obtains ks rcpt where "recorded_apart ks rcpt gd t" "rcpt = None \<longleftrightarrow> gd_receipt gd = None"
proof -
  obtain ids where ids: "length ids = Suc (length (gd_notices gd))" "distinct ids" "\<forall>k \<in> set ids. get t k = None"
    using fresh_ids[OF assms] by blast
  then obtain k rest where k: "ids = k # rest"
    by (cases ids) auto
  let ?ks = "map (\<lambda>i. (i, 0)) rest"
  let ?item = "minted_item k 0 [] 0 (BNotice LvInfo [] []) StCompleted"
  let ?rcpt = "if gd_receipt gd = None then None else Some ?item"
  have "map fst ?ks = rest" "it_id ?item = k"
    by (simp_all add: comp_def minted_item_def)
  then have "recorded_apart ?ks ?rcpt gd t"
    using ids unfolding recorded_apart_def k by (auto simp: comp_def)
  then show thesis
    by (rule that) simp
qed


lemma waits_only_for_flight: "round_next (flight_state fs) d = RaWait \<Longrightarrow> fs \<noteq> []"
  by (auto simp: round_next_def flight_state_def MAX_CONCURRENCY_def split: option.splits round_decision.splits if_splits)

lemma some_lands: "polls_flight s \<Longrightarrow> ro_flight s \<noteq> [] \<Longrightarrow> \<exists>s'. round_step cfg s s'"
  by (metis append_Nil list.collapse round_step.lands)

lemma admit_goes_on:
  assumes "ro_phase s = PhAdmit item call gd" "wf_transcript (ro_transcript s)"
  shows "\<exists>s'. round_step cfg s s'"
proof -
  obtain ks rcpt where "recorded_apart ks rcpt gd (ro_transcript s)" "rcpt = None \<longleftrightarrow> gd_receipt gd = None"
    using receipt_ids[OF assms(2)] by blast
  from round_step.admit_lands[OF assms(1) this(2,1) refl] show ?thesis
    by blast
qed

lemma settle_goes_on:
  assumes "ro_phase s = PhSettle item call d"
  shows "\<exists>s'. round_step cfg s s'"
proof (cases "round_next (flight_state (ro_flight s)) (Some (decided_action d)) = RaWait")
  case True
  then show ?thesis
    using waits_only_for_flight[OF True] assms by (intro some_lands) (simp_all add: polls_flight_def)
next
  case False
  then show ?thesis
    using assms by (cases d) (blast intro: round_step.settle round_step.ask)+
qed

lemma walk_goes_on:
  assumes "accounted calls s" "\<forall>item. \<forall>m \<ge> N. decides_at (rc_person cfg item) m" "\<not> round_over s"
  shows "\<exists>s'. round_step cfg s s'"
proof (cases "ro_phase s")
  case PhReach
  show ?thesis
  proof (cases "ro_todo s")
    case Nil
    then show ?thesis
      using PhReach by (blast intro: round_step.reach_end)
  next
    case (Cons c cs)
    show ?thesis
    proof (cases "fl_all_safe (flight_state (ro_flight s))")
      case True
      then show ?thesis
        using PhReach Cons by (cases c) (blast intro: round_step.reach)
    next
      case False
      then show ?thesis
        using PhReach Cons by (intro some_lands) (auto simp: polls_flight_def flight_state_def)
    qed
  qed
next
  case (PhDecide item call)
  then show ?thesis
    by (blast intro: round_step.decide)
next
  case (PhSettle item call d)
  then show ?thesis
    by (rule settle_goes_on)
next
  case (PhAsk item call d)
  obtain gd told where "gate_ask (rc_json cfg) (rc_person cfg item) (round_gate cfg item call) 0 False None [] d = Some (gd, told)"
    using gate_ask_returns[of N "rc_person cfg item"] assms(2) by force
  from round_step.asked[OF PhAsk this] show ?thesis
    by blast
next
  case (PhAdmit item call gd)
  then show ?thesis
    using assms(1) by (intro admit_goes_on) (auto simp: accounted_def accounts_def)
next
  case PhDrain
  show ?thesis
  proof (cases "round_next (flight_state (ro_flight s)) None = RaWait")
    case True
    then show ?thesis
      using waits_only_for_flight[OF True] PhDrain by (intro some_lands) (simp_all add: polls_flight_def)
  next
    case False
    then show ?thesis
      using PhDrain by (blast intro: round_step.drain_end)
  qed
next
  case PhOver
  then show ?thesis
    using assms(1,3) by (intro some_lands) (auto simp: polls_flight_def accounted_def round_over_def)
qed

section \<open>Properties\<close>

lemma flight_bounds:
  assumes "round_reaches cfg (round_start calls t) s"
  shows "length (ro_flight s) \<le> 10"
    and "\<forall>pc \<in> set (ro_flight s). \<not> tt_concurrency_safe (pc_traits pc) \<longrightarrow> ro_flight s = [pc]"
    and "ro_phase s = PhAsk item call d \<longrightarrow> ro_flight s = []"
proof -
  have ok: "flies_well (ro_flight s)" "phase_ok cfg calls s"
    using runs_well_reaches[OF assms runs_well_start] by (simp_all add: runs_well_def)
  then show "length (ro_flight s) \<le> 10" "ro_phase s = PhAsk item call d \<longrightarrow> ro_flight s = []"
    by (auto simp: flies_well_def MAX_CONCURRENCY_def phase_ok_def)
  show "\<forall>pc \<in> set (ro_flight s). \<not> tt_concurrency_safe (pc_traits pc) \<longrightarrow> ro_flight s = [pc]"
    using ok(1) by (cases "ro_flight s"; cases "tl (ro_flight s)") (auto simp: flies_well_def list_all_iff)
qed

text \<open>
  C10: at most ten calls of a round are in flight at any moment, a call that is not safe
  to run beside others is in flight alone, and a person is asked only while nothing runs.
\<close>

theorem flight_is_bounded:
  assumes "round_reaches cfg (round_start calls t) s"
  shows "length (ro_flight s) \<le> 10
    \<and> (\<forall>pc \<in> set (ro_flight s). \<not> tt_concurrency_safe (pc_traits pc) \<longrightarrow> ro_flight s = [pc])
    \<and> (ro_phase s = PhAsk item call d \<longrightarrow> ro_flight s = [])"
  using flight_bounds[OF assms] by simp

lemma passed_calls:
  assumes "round_reaches cfg (round_start calls t) s"
    and "\<forall>item n. \<forall>l \<in> set (rc_links cfg item n). lk_tier l < TierFull"
  shows "\<forall>(item, call, gd) \<in> set (ro_ran s).
      (item, call) \<in> set calls \<and> gate_earned (rc_person cfg item) (round_gate cfg item call) gd"
    and "\<forall>pc \<in> set (ro_flight s). pc_gate pc = GateAllowed \<and> pc_item pc \<in> fst ` set (ro_ran s)"
    and "\<forall>out \<in> set (ro_outcomes s). tu_status out = StCompleted \<longrightarrow> tu_item out \<in> fst ` set (ro_ran s)"
proof -
  have ok: "runs_well cfg calls s"
    by (rule runs_well_reaches[OF assms(1) runs_well_start])
  have "gate_earned (rc_person cfg item) (round_gate cfg item call) gd \<and> (item, call) \<in> set calls"
    if r: "(item, call, gd) \<in> set (ro_ran s)" for item call gd
  proof -
    let ?g = "round_gate cfg item call"
    have links: "\<forall>n. \<forall>l \<in> set (gi_links ?g n). lk_tier l < TierFull"
      using assms(2) by (simp add: round_gate_def)
    have "passed cfg calls (item, call, gd)" and allowed: "gd_gate gd = GateAllowed"
      using ran_passed[OF ok r] by simp_all
    then obtain told where run: "gate_ask (rc_json cfg) (rc_person cfg item) ?g 0 False None []
        (gate_check ?g 0 (gi_call ?g) False) = Some (gd, told)" and item: "(item, call) \<in> set calls"
      by (auto simp: passed_def gate_call_def)
    have "decided_stood ?g 0 (gate_check ?g 0 (gi_call ?g) False)"
      using links by (intro gate_check_stood) blast
    then show ?thesis
      using gate_ask_earned[OF run links] allowed item by simp
  qed
  then show "\<forall>(item, call, gd) \<in> set (ro_ran s).
      (item, call) \<in> set calls \<and> gate_earned (rc_person cfg item) (round_gate cfg item call) gd"
    by auto
  show "\<forall>out \<in> set (ro_outcomes s). tu_status out = StCompleted \<longrightarrow> tu_item out \<in> fst ` set (ro_ran s)"
    using ok unfolding runs_well_def by blast
  show "\<forall>pc \<in> set (ro_flight s). pc_gate pc = GateAllowed \<and> pc_item pc \<in> fst ` set (ro_ran s)"
  proof
    fix pc
    assume "pc \<in> set (ro_flight s)"
    then obtain item call gd where r: "(item, call, gd) \<in> set (ro_ran s)" and pc: "pc = pending_of cfg item call gd"
      using ok unfolding runs_well_def by fast
    then show "pc_gate pc = GateAllowed \<and> pc_item pc \<in> fst ` set (ro_ran s)"
      using ran_passed[OF ok r] image_eqI[OF _ r, of item fst] by (simp add: pending_of_def)
  qed
qed


lemma round_outcomes:
  assumes "round_reaches cfg (round_start calls t) s" "round_over s"
    and "distinct (map fst calls)" "wf_transcript t" "\<forall>c \<in> set calls. is_call_item t (fst c)"
    and "\<forall>k \<in> fst ` set ks. get (ro_transcript (interrupt_remaining at calls s)) k = None"
  shows "map tu_item (ro_outcomes (round_finish cfg at ks reported calls s)) = map fst calls"
    and "\<forall>out \<in> set (ro_outcomes (round_finish cfg at ks reported calls s)).
           shows_outcome (ro_transcript (round_finish cfg at ks reported calls s)) out"
    and "\<not> ro_cancelled s \<longrightarrow> mset (ro_outcomes (round_finish cfg at ks reported calls s)) = mset (ro_outcomes s)"
proof -
  let ?s = "interrupt_remaining at calls s"
  have acc: "accounted calls s"
    by (rule accounted_reaches[OF assms(1) accounted_start[OF assms(4,5)] assms(3)])
  then have "accounts calls False (ro_outcomes s) {#} (ro_transcript s)"
    using accounts_less[of calls _ "ro_outcomes s" "owed s" "ro_transcript s" "{#}"] by (auto simp: accounted_def)
  note rest = interrupt_remaining_accounts[OF assms(3) subset_refl this, of at]
  then have all: "mset (map tu_item (ro_outcomes ?s)) = mset (map fst calls)"
    by (intro accounts_complete[OF _ assms(3)]) auto
  then show "map tu_item (ro_outcomes (round_finish cfg at ks reported calls s)) = map fst calls"
    using sorted_by_rank[OF assms(3) all] by simp
  have kept: "get (record_all cfg ks reported (ro_transcript ?s)) k = get (ro_transcript ?s) k"
    if "get (ro_transcript ?s) k \<noteq> None" for k
    using that rest assms(6) record_all_keeps[of "ro_transcript ?s" cfg ks reported k] by (auto simp: accounts_def)
  have "shows_outcome (record_all cfg ks reported (ro_transcript ?s)) out" if "out \<in> set (ro_outcomes ?s)" for out
  proof -
    have "shows_outcome (ro_transcript ?s) out"
      using rest that unfolding accounts_def by blast
    then show ?thesis
      using kept[of "tu_item out"] unfolding shows_outcome_def by auto
  qed
  then show "\<forall>out \<in> set (ro_outcomes (round_finish cfg at ks reported calls s)).
      shows_outcome (ro_transcript (round_finish cfg at ks reported calls s)) out"
    by simp
  show "\<not> ro_cancelled s \<longrightarrow> mset (ro_outcomes (round_finish cfg at ks reported calls s)) = mset (ro_outcomes s)"
  proof
    assume "\<not> ro_cancelled s"
    then have "mset (map tu_item (ro_outcomes s)) = mset (map fst calls)"
      using acc assms(2) by (auto simp: accounted_def accounts_def round_over_def owed_def)
    then have "set (map tu_item (ro_outcomes s)) = set (map fst calls)"
      by (rule mset_eq_setD)
    then show "mset (ro_outcomes (round_finish cfg at ks reported calls s)) = mset (ro_outcomes s)"
      by (simp add: interrupt_remaining_none)
  qed
qed

text \<open>
  C9: however the calls of a round interleave, and whenever the person stops the turn,
  every call comes to exactly one outcome, the outcomes are in the order of the calls,
  and the transcript shows each of them: the call's item is over and carries the output.
  A round that was not stopped interrupts nothing: the outcomes are those that landed.
\<close>

theorem every_call_has_its_outcome:
  assumes "round_reaches cfg (round_start calls t) s" "round_over s"
    and "distinct (map fst calls)" "wf_transcript t" "\<forall>c \<in> set calls. is_call_item t (fst c)"
    and "\<forall>k \<in> fst ` set ks. get (ro_transcript (interrupt_remaining at calls s)) k = None"
  shows "map tu_item (ro_outcomes (round_finish cfg at ks reported calls s)) = map fst calls
    \<and> (\<forall>out \<in> set (ro_outcomes (round_finish cfg at ks reported calls s)).
           shows_outcome (ro_transcript (round_finish cfg at ks reported calls s)) out)
    \<and> (\<not> ro_cancelled s \<longrightarrow> mset (ro_outcomes (round_finish cfg at ks reported calls s)) = mset (ro_outcomes s))"
  using round_outcomes[OF assms] by simp

text \<open>
  C12: a round ends.  However landings, answers and stops interleave, it takes at most
  seven steps a call and two more; and while it is not over, it can go on, provided no
  person keeps changing a call for ever.
\<close>

theorem round_ends:
  assumes "round_run cfg n (round_start calls t) s"
    and "distinct (map fst calls)" "wf_transcript t" "\<forall>c \<in> set calls. is_call_item t (fst c)"
    and "\<forall>item. \<forall>m \<ge> N. decides_at (rc_person cfg item) m"
  shows "n \<le> 7 * length calls + 2 \<and> (round_over s \<or> (\<exists>s'. round_step cfg s s'))"
proof
  show "n \<le> 7 * length calls + 2"
    using run_nears[OF assms(1)] by (simp add: steps_left_def round_start_def)
  have "accounted calls s"
    by (rule accounted_reaches[OF run_reaches[OF assms(1)] accounted_start[OF assms(3,4)] assms(2)])
  then show "round_over s \<or> (\<exists>s'. round_step cfg s s')"
    using walk_goes_on[OF _ assms(5)] by blast
qed

subsection \<open>Witnesses\<close>

definition sample_ls :: "item_id \<Rightarrow> tool_call" where
  "sample_ls k = \<lparr>tc_call_id = k, tc_name = ''Bash'', tc_input = JObject [(''command'', JString ''ls'')]\<rparr>"

definition sample_round :: round_config where
  "sample_round =
     (let g = sample_gate ''ls'' ModeDefault in
      \<lparr>rc_session = gi_session g, rc_cwd = gi_cwd g, rc_turn = ''t'', rc_number = 0, rc_tools = [sample_tool],
       rc_policy = (\<lambda>_. gi_policy g), rc_hooks = (\<lambda>_. gi_hooks g), rc_links = (\<lambda>_. gi_links g),
       rc_person = (\<lambda>_. sample_person), rc_json = (\<lambda>_. [])\<rparr>)"

definition sample_item :: "item_id \<Rightarrow> item" where
  "sample_item k =
     \<lparr>it_id = k, it_turn = Some ''t'', it_round = 0, it_status = StPending, it_started_at = 0, it_completed_at = None, it_intent = None,
      it_body = BToolCall \<lparr>cb_allowed_by = None, cb_asked_at = None, cb_began_at = None, cb_call_id = k, cb_name = ''Bash'',
        cb_input = tc_input (sample_ls k), cb_output = None, cb_progress = None, cb_duration_ms = None, cb_quiet = False\<rparr>,
      it_meta = []\<rparr>"

definition sample_calls :: "(item_id \<times> tool_call) list" where
  "sample_calls = [(''i'', sample_ls ''i''), (''j'', sample_ls ''j'')]"

definition sample_before :: transcript where
  "sample_before = from_items [sample_item ''i'', sample_item ''j'']"

lemma sample_gated:
  assumes "k = ''i'' \<or> k = ''j''"
  obtains gd where "gate_check (round_gate sample_round k (sample_ls k)) 0 (sample_ls k) False = Settled gd"
    "gd_gate gd = GateAllowed" "gd_receipt gd = None" "gd_notices gd = []" "tt_concurrency_safe (gd_traits gd)"
proof -
  define ok where "ok d = (case d of Settled gd \<Rightarrow> gd_gate gd = GateAllowed \<and> gd_receipt gd = None \<and> gd_notices gd = []
      \<and> tt_concurrency_safe (gd_traits gd) | _ \<Rightarrow> False)" for d
  have "ok (gate_check (round_gate sample_round ''i'' (sample_ls ''i'')) 0 (sample_ls ''i'') False)"
    "ok (gate_check (round_gate sample_round ''j'' (sample_ls ''j'')) 0 (sample_ls ''j'') False)"
    unfolding ok_def by code_simp+
  then show thesis
    using assms that by (auto simp: ok_def split: gate_decided.splits)
qed

lemma sample_before_ok: "wf_transcript sample_before" "\<forall>c \<in> set sample_calls. is_call_item sample_before (fst c)"
  "distinct (map fst sample_calls)"
proof -
  show "wf_transcript sample_before"
    by (simp add: sample_before_def wf_from_items)
  have "get sample_before ''i'' = Some (sample_item ''i'')" "get sample_before ''j'' = Some (sample_item ''j'')"
    by code_simp+
  then show "\<forall>c \<in> set sample_calls. is_call_item sample_before (fst c)"
    by (simp add: sample_calls_def is_call_item_def sample_item_def)
qed (simp add: sample_calls_def)

text \<open>A safe, allowed call takes off in four steps.\<close>

lemma pending_traits: "pc_traits (pending_of cfg item call gd) = gd_traits gd" "pc_item (pending_of cfg item call gd) = item"
  by (simp_all add: pending_of_def)

lemma run_flies:
  assumes "round_run cfg n s0 s" "ro_phase s = PhReach" "ro_todo s = (item, call) # rest"
    and "list_all runs_safely (ro_flight s)" "length (ro_flight s) < 10"
    and "gate_check (round_gate cfg item call) 0 call False = Settled gd" "gd_gate gd = GateAllowed"
    and "gd_receipt gd = None" "gd_notices gd = []" "tt_concurrency_safe (gd_traits gd)"
    and "find_tool (rc_tools cfg) (tc_name call) \<noteq> None"
  obtains s' where "round_run cfg (n + 4) s0 s'" "ro_phase s' = PhReach" "ro_todo s' = rest"
    "ro_flight s' = ro_flight s @ [pending_of cfg item call gd]" "ro_ran s' = ro_ran s @ [(item, call, gd)]"
    "ro_cancelled s' = ro_cancelled s" "ro_outcomes s' = ro_outcomes s"
proof -
  let ?s1 = "s\<lparr>ro_todo := rest, ro_phase := PhDecide item call\<rparr>"
  let ?s2 = "?s1\<lparr>ro_phase := PhSettle item call (Settled gd)\<rparr>"
  let ?s3 = "?s2\<lparr>ro_phase := PhAdmit item call gd\<rparr>"
  let ?pc = "pending_of cfg item call gd"
  let ?s4 = "?s3\<lparr>ro_phase := PhReach, ro_transcript := mark_gated 0 item gd (admitted cfg [] None gd (ro_transcript ?s3)),
      ro_flight := ro_flight ?s3 @ [?pc], ro_ran := ro_ran ?s3 @ [(item, call, gd)]\<rparr>"
  have "round_step cfg s ?s1"
    using assms(2-4) by (intro round_step.reach) (simp_all add: flight_state_def)
  moreover have "round_step cfg ?s1 ?s2"
    using round_step.decide[of ?s1 item call cfg] by (simp add: assms(6))
  moreover have "round_step cfg ?s2 ?s3"
    using assms(4,5,7,10) by (intro round_step.settle)
      (simp_all add: round_next_def decided_action_def flight_state_def MAX_CONCURRENCY_def)
  moreover have "round_step cfg ?s3 ?s4"
    using assms(7-9,11) by (intro round_step.admit_flies)
      (simp_all add: recorded_apart_def ready_at_once_def pending_of_def)
  ultimately have "round_run cfg (Suc (Suc (Suc (Suc n)))) s0 ?s4"
    using assms(1) by (blast intro: run_walks)
  then show thesis
    by (intro that[of ?s4]) (simp_all add: numeral_eq_Suc)
qed

lemma run_lands:
  assumes "round_run cfg n s0 s" "ro_phase s = PhDrain" "ro_flight s = xs @ pc # ys" "\<not> ready_at_once pc"
  obtains s' where "round_run cfg (Suc n) s0 s'" "ro_phase s' = PhDrain" "ro_flight s' = xs @ ys"
    "ro_outcomes s' = ro_outcomes s @ [run_one pc False (Inr (tool_output_text ''ok'')) 5]"
    "ro_ran s' = ro_ran s" "ro_cancelled s' = ro_cancelled s"
proof -
  have "polls_flight s"
    using assms(2,3) by (simp add: polls_flight_def round_next_def flight_state_def)
  from round_step.lands[OF this assms(3), of cfg 9 "Inr (tool_output_text ''ok'')" 5]
  have "round_step cfg s (land 9 (run_one pc False (Inr (tool_output_text ''ok'')) 5) (s\<lparr>ro_flight := xs @ ys\<rparr>))"
    by (simp add: assms(2))
  from that[OF run_walks[OF assms(1) this]] show thesis
    using assms(2) by simp
qed

lemma sample_in_flight:
  obtains gi gj s where "round_run sample_round 8 (round_start sample_calls sample_before) s" "ro_phase s = PhReach" "ro_todo s = []"
    "ro_flight s = [pending_of sample_round ''i'' (sample_ls ''i'') gi, pending_of sample_round ''j'' (sample_ls ''j'') gj]"
    "ro_ran s = [(''i'', sample_ls ''i'', gi), (''j'', sample_ls ''j'', gj)]" "\<not> ro_cancelled s"
    "\<not> ready_at_once (pending_of sample_round ''i'' (sample_ls ''i'') gi)"
    "\<not> ready_at_once (pending_of sample_round ''j'' (sample_ls ''j'') gj)" "ro_outcomes s = []"
proof -
  let ?s0 = "round_start sample_calls sample_before"
  have tool: "find_tool (rc_tools sample_round) (tc_name (sample_ls k)) \<noteq> None" for k
    by (simp add: sample_round_def sample_ls_def sample_tool_def find_tool_def Let_def)
  obtain gi where gi: "gate_check (round_gate sample_round ''i'' (sample_ls ''i'')) 0 (sample_ls ''i'') False = Settled gi"
    "gd_gate gi = GateAllowed" "gd_receipt gi = None" "gd_notices gi = []" "tt_concurrency_safe (gd_traits gi)"
    using sample_gated[of "''i''"] by blast
  obtain gj where gj: "gate_check (round_gate sample_round ''j'' (sample_ls ''j'')) 0 (sample_ls ''j'') False = Settled gj"
    "gd_gate gj = GateAllowed" "gd_receipt gj = None" "gd_notices gj = []" "tt_concurrency_safe (gd_traits gj)"
    using sample_gated[of "''j''"] by blast
  have start: "ro_phase ?s0 = PhReach" "ro_todo ?s0 = [(''i'', sample_ls ''i''), (''j'', sample_ls ''j'')]" "ro_flight ?s0 = []"
      "ro_ran ?s0 = []" "\<not> ro_cancelled ?s0" "ro_outcomes ?s0 = []"
    by (simp_all add: round_start_def sample_calls_def)
  obtain s1 where s1: "round_run sample_round 4 ?s0 s1" "ro_phase s1 = PhReach" "ro_todo s1 = [(''j'', sample_ls ''j'')]"
    "ro_flight s1 = [pending_of sample_round ''i'' (sample_ls ''i'') gi]" "ro_ran s1 = [(''i'', sample_ls ''i'', gi)]"
    "\<not> ro_cancelled s1" "ro_outcomes s1 = []"
    using run_flies[OF run_here start(1,2) _ _ gi tool] start by auto
  obtain s2 where s2: "round_run sample_round 8 ?s0 s2" "ro_phase s2 = PhReach" "ro_todo s2 = []"
    "ro_flight s2 = [pending_of sample_round ''i'' (sample_ls ''i'') gi, pending_of sample_round ''j'' (sample_ls ''j'') gj]"
    "ro_ran s2 = [(''i'', sample_ls ''i'', gi), (''j'', sample_ls ''j'', gj)]" "\<not> ro_cancelled s2" "ro_outcomes s2 = []"
    using run_flies[OF s1(1-3) _ _ gj tool] s1(4-7) gi(5) by (auto simp: pending_traits)
  have "\<not> ready_at_once (pending_of sample_round ''i'' (sample_ls ''i'') gi)"
      "\<not> ready_at_once (pending_of sample_round ''j'' (sample_ls ''j'') gj)"
    using tool gi(2) gj(2) by (simp_all add: ready_at_once_def pending_of_def)
  from that[OF s2(1-6) this s2(7)] show thesis .
qed

lemma sample_over:
  obtains s gi gj where "round_run sample_round 12 (round_start sample_calls sample_before) s" "round_over s" "\<not> ro_cancelled s"
    "map tu_item (ro_outcomes s) = [''j'', ''i'']" "ro_ran s = [(''i'', sample_ls ''i'', gi), (''j'', sample_ls ''j'', gj)]"
proof -
  obtain gi gj s where s: "round_run sample_round 8 (round_start sample_calls sample_before) s" "ro_phase s = PhReach" "ro_todo s = []"
    "ro_flight s = [pending_of sample_round ''i'' (sample_ls ''i'') gi, pending_of sample_round ''j'' (sample_ls ''j'') gj]"
    "ro_ran s = [(''i'', sample_ls ''i'', gi), (''j'', sample_ls ''j'', gj)]" "\<not> ro_cancelled s"
    "\<not> ready_at_once (pending_of sample_round ''i'' (sample_ls ''i'') gi)"
    "\<not> ready_at_once (pending_of sample_round ''j'' (sample_ls ''j'') gj)" "ro_outcomes s = []"
    by (rule sample_in_flight)
  let ?i = "pending_of sample_round ''i'' (sample_ls ''i'') gi" and ?j = "pending_of sample_round ''j'' (sample_ls ''j'') gj"
  let ?s = "s\<lparr>ro_phase := PhDrain\<rparr>" and ?ok = "Inr (tool_output_text ''ok'')"
  have r9: "round_run sample_round (Suc 8) (round_start sample_calls sample_before) ?s"
    by (rule run_walks[OF s(1) round_step.reach_end[OF s(2,3)]])
  have f9: "ro_phase ?s = PhDrain" "ro_flight ?s = [?i] @ ?j # []"
    by (simp_all add: s(4))
  obtain s1 where s1: "round_run sample_round (Suc (Suc 8)) (round_start sample_calls sample_before) s1" "ro_phase s1 = PhDrain"
      "ro_flight s1 = [?i] @ []" "ro_outcomes s1 = ro_outcomes ?s @ [run_one ?j False ?ok 5]"
      "ro_ran s1 = ro_ran ?s" "ro_cancelled s1 = ro_cancelled ?s"
    by (rule run_lands[OF r9 f9 s(8)])
  have f1: "ro_flight s1 = [] @ ?i # []"
    by (simp add: s1(3))
  obtain s2 where s2: "round_run sample_round (Suc (Suc (Suc 8))) (round_start sample_calls sample_before) s2" "ro_phase s2 = PhDrain"
      "ro_flight s2 = [] @ []" "ro_outcomes s2 = ro_outcomes s1 @ [run_one ?i False ?ok 5]"
      "ro_ran s2 = ro_ran s1" "ro_cancelled s2 = ro_cancelled s1"
    by (rule run_lands[OF s1(1,2) f1 s(7)])
  have "round_step sample_round s2 (s2\<lparr>ro_phase := PhOver\<rparr>)"
    using s2(2,3) by (intro round_step.drain_end) (simp_all add: round_next_def flight_state_def)
  from run_walks[OF s2(1) this] show thesis
    using s2(3-6) s1(4-6) s(5,6,9)
    by (intro that[of "s2\<lparr>ro_phase := PhOver\<rparr>"]) (simp_all add: round_over_def pending_traits numeral_eq_Suc)
qed

theorem flight_is_bounded_witness:
  "\<exists>s. round_reaches sample_round (round_start sample_calls sample_before) s \<and> length (ro_flight s) = 2
     \<and> (\<forall>pc \<in> set (ro_flight s). \<not> tt_concurrency_safe (pc_traits pc) \<longrightarrow> ro_flight s = [pc])"
proof -
  obtain gi gj s where s: "round_run sample_round 8 (round_start sample_calls sample_before) s"
    "ro_flight s = [pending_of sample_round ''i'' (sample_ls ''i'') gi, pending_of sample_round ''j'' (sample_ls ''j'') gj]"
    by (rule sample_in_flight)
  show ?thesis
    using run_reaches[OF s(1)] flight_is_bounded[OF run_reaches[OF s(1)]] s(2)
    by (intro exI[of _ s]) simp
qed


theorem every_call_has_its_outcome_witness:
  "\<exists>s. round_reaches sample_round (round_start sample_calls sample_before) s
     \<and> map tu_item (ro_outcomes s) = [''j'', ''i'']
     \<and> map tu_item (ro_outcomes (round_finish sample_round 9 [] [] sample_calls s)) = [''i'', ''j'']"
proof -
  obtain s gi gj where s: "round_run sample_round 12 (round_start sample_calls sample_before) s" "round_over s"
    "map tu_item (ro_outcomes s) = [''j'', ''i'']"
    by (rule sample_over)
  have "map tu_item (ro_outcomes (round_finish sample_round 9 [] [] sample_calls s)) = map fst sample_calls"
    using every_call_has_its_outcome[OF run_reaches[OF s(1)] s(2) sample_before_ok(3,1,2), of "[]"] by simp
  then show ?thesis
    using s(3) run_reaches[OF s(1)] by (intro exI[of _ s]) (simp add: sample_calls_def)
qed

theorem round_ends_witness:
  "\<exists>s. round_run sample_round 12 (round_start sample_calls sample_before) s
     \<and> 12 \<le> 7 * length sample_calls + 2 \<and> (round_over s \<or> (\<exists>s'. round_step sample_round s s'))"
proof -
  obtain s gi gj where s: "round_run sample_round 12 (round_start sample_calls sample_before) s"
    by (rule sample_over)
  have "\<forall>item. \<forall>m \<ge> 1. decides_at (rc_person sample_round item) m"
    by (simp add: sample_round_def decides_at_def sample_person_def Let_def)
  from round_ends[OF s sample_before_ok(3,1,2) this] show ?thesis
    using s by blast
qed

end
