(* ===== verification/Core_Budget.thy ===== *)
theory Core_Budget
  imports Sdk_Event Rust_Text
begin

text \<open>
  What a turn measures itself against: the lines of a model's window
  (\<open>bingo-core/src/context/budget.rs\<close>), the ruler of one turn (\<open>turn/ruler.rs\<close>), its
  budget and the breaker of its compactions (\<open>turn/config.rs\<close>), how long it waits before
  it asks again (\<open>backoff\<close> of \<open>turn/stream.rs\<close>), and the windows learned from a server's
  rejections (\<open>models/learned.rs\<close>).
\<close>

section \<open>The lines of a window\<close>

definition RECOUNT_GROWTH :: u64 where
  "RECOUNT_GROWTH = 20000"

definition RECOUNT_ROUNDS :: u32 where
  "RECOUNT_ROUNDS = 5"

record thresholds =
  th_effective :: u64
  th_warn :: u64
  th_trigger :: u64
  th_keep :: u64

text \<open>The product wraps as a release build's does.\<close>

definition thresholds_of :: "u64 \<Rightarrow> u32 \<Rightarrow> thresholds" where
  "thresholds_of win max_tokens =
     (let effective = saturating_sub win (ucast max_tokens);
          trigger = effective * 9 div 10
      in \<lparr>th_effective = effective, th_warn = saturating_sub trigger 20000, th_trigger = trigger,
          th_keep = effective div 4\<rparr>)"

definition thresholds_held :: "u64 \<Rightarrow> thresholds" where
  "thresholds_held win = \<lparr>th_effective = win, th_warn = 0, th_trigger = win, th_keep = 0\<rparr>"

record anchor =
  an_server :: u64
  an_estimate :: u64
  an_rounds_since_count :: u32

definition anchor_used :: "anchor \<Rightarrow> u64 \<Rightarrow> u64" where
  "anchor_used a estimate = saturating_add (an_server a) (saturating_sub estimate (an_estimate a))"

definition anchor_recount_due :: "anchor \<Rightarrow> u64 \<Rightarrow> bool" where
  "anchor_recount_due a estimate \<longleftrightarrow>
     an_rounds_since_count a \<ge> RECOUNT_ROUNDS \<or> saturating_sub estimate (an_estimate a) \<ge> RECOUNT_GROWTH"

definition anchor_from_response :: "u64 \<Rightarrow> u64 \<Rightarrow> u32 \<Rightarrow> anchor" where
  "anchor_from_response server estimate rounds =
     \<lparr>an_server = server, an_estimate = estimate, an_rounds_since_count = rounds\<rparr>"

definition anchor_from_count :: "u64 \<Rightarrow> u64 \<Rightarrow> anchor" where
  "anchor_from_count server estimate = \<lparr>an_server = server, an_estimate = estimate, an_rounds_since_count = 0\<rparr>"

definition budget_usage :: "anchor option \<Rightarrow> u64 \<Rightarrow> thresholds \<Rightarrow> context_usage" where
  "budget_usage anchor estimate lns =
     \<lparr>cu_parts = None, cu_used = (case anchor of None \<Rightarrow> estimate | Some a \<Rightarrow> anchor_used a estimate),
      cu_window = th_effective lns, cu_trigger = th_trigger lns\<rparr>"

section \<open>The ruler of a turn\<close>

record ruler =
  ru_lines :: thresholds
  ru_anchor :: "anchor option"
  ru_estimate :: u64
  ru_held :: "u64 option"
  ru_warned :: bool

definition ruler_new :: "u64 \<Rightarrow> u32 \<Rightarrow> bool \<Rightarrow> ruler" where
  "ruler_new win max_tokens holds =
     \<lparr>ru_lines = (if holds then thresholds_held win else thresholds_of win max_tokens), ru_anchor = None,
      ru_estimate = 0, ru_held = (if holds then Some 0 else None), ru_warned = False\<rparr>"

definition ruler_holds :: "ruler \<Rightarrow> bool" where
  "ruler_holds r \<longleftrightarrow> ru_held r \<noteq> None"

definition ruler_holding :: "ruler \<Rightarrow> context_usage option" where
  "ruler_holding r =
     map_option (\<lambda>used. \<lparr>cu_parts = None, cu_used = used, cu_window = th_effective (ru_lines r),
       cu_trigger = th_trigger (ru_lines r)\<rparr>) (ru_held r)"

definition ruler_measure :: "u64 \<Rightarrow> ruler \<Rightarrow> context_usage \<times> ruler" where
  "ruler_measure estimate r =
     (let r1 = r\<lparr>ru_estimate := estimate\<rparr> in
      (case ruler_holding r1 of
         Some u \<Rightarrow> u
       | None \<Rightarrow> budget_usage (ru_anchor r1) estimate (ru_lines r1), r1))"

definition ruler_anchored :: "ruler \<Rightarrow> context_usage \<Rightarrow> context_usage" where
  "ruler_anchored r u =
     (case ruler_holding r of
        Some h \<Rightarrow> h
      | None \<Rightarrow> u\<lparr>cu_used := (case ru_anchor r of None \<Rightarrow> cu_used u | Some a \<Rightarrow> anchor_used a (ru_estimate r))\<rparr>)"

definition context_usage_default :: context_usage where
  "context_usage_default = \<lparr>cu_parts = None, cu_used = 0, cu_window = 0, cu_trigger = 0\<rparr>"

definition ruler_reading :: "u64 \<Rightarrow> u64 \<Rightarrow> ruler \<Rightarrow> context_usage \<times> ruler" where
  "ruler_reading used win r =
     (let r1 = r\<lparr>ru_lines := thresholds_held win, ru_held := Some used, ru_anchor := None\<rparr> in
      (case ruler_holding r1 of Some u \<Rightarrow> u | None \<Rightarrow> context_usage_default, r1))"

definition ruler_recount_due :: "ruler \<Rightarrow> bool" where
  "ruler_recount_due r = (case ru_anchor r of None \<Rightarrow> True | Some a \<Rightarrow> anchor_recount_due a (ru_estimate r))"

definition ruler_counted :: "u64 \<Rightarrow> ruler \<Rightarrow> ruler" where
  "ruler_counted server r = r\<lparr>ru_anchor := Some (anchor_from_count server (ru_estimate r))\<rparr>"

definition ruler_responded :: "u64 \<Rightarrow> ruler \<Rightarrow> ruler" where
  "ruler_responded server r =
     (let rounds = (case ru_anchor r of None \<Rightarrow> 1 | Some a \<Rightarrow> an_rounds_since_count a + 1)
      in r\<lparr>ru_anchor := Some (anchor_from_response server (ru_estimate r) rounds)\<rparr>)"

definition ruler_forget :: "ruler \<Rightarrow> ruler" where
  "ruler_forget r = r\<lparr>ru_anchor := None\<rparr>"

definition ruler_warning :: "context_usage \<Rightarrow> ruler \<Rightarrow> string option \<times> ruler" where
  "ruler_warning u r =
     (if ru_warned r \<or> th_warn (ru_lines r) = 0 \<or> cu_used u < th_warn (ru_lines r) then (None, r)
      else (Some (''context at '' @ show_nat (unat (percent u)) @ ''% of the window; a summary replaces the older turns at ''
              @ show_nat (unat (th_trigger (ru_lines r) * 100 div max (th_effective (ru_lines r)) 1)) @ ''%''),
            r\<lparr>ru_warned := True\<rparr>))"

section \<open>Budget, breaker, backoff\<close>

record turn_budget =
  tb_max_rounds :: "u32 option"
  tb_max_retries :: u32

definition turn_budget_default :: turn_budget where
  "turn_budget_default = \<lparr>tb_max_rounds = None, tb_max_retries = 10\<rparr>"

definition budget_spent :: "turn_budget \<Rightarrow> u32 \<Rightarrow> bool" where
  "budget_spent b round = (case tb_max_rounds b of None \<Rightarrow> False | Some limit \<Rightarrow> round \<ge> limit)"

definition BREAKER_TRIP :: u32 where
  "BREAKER_TRIP = 3"

type_synonym breaker = u32

definition breaker_tripped :: "breaker \<Rightarrow> bool" where
  "breaker_tripped failures \<longleftrightarrow> failures \<ge> BREAKER_TRIP"

definition breaker_failed :: "breaker \<Rightarrow> breaker" where
  "breaker_failed failures = failures + 1"

definition breaker_succeeded :: "breaker \<Rightarrow> breaker" where
  "breaker_succeeded failures = 0"

definition MAX_RETRY_DELAY :: u64 where
  "MAX_RETRY_DELAY = 32000"

definition MAX_SERVER_RETRY_DELAY :: u64 where
  "MAX_SERVER_RETRY_DELAY = 60000"

text \<open>In milliseconds.\<close>

definition backoff :: "u32 \<Rightarrow> u64 option \<Rightarrow> u64" where
  "backoff attempt after =
     (case after of
        Some ms \<Rightarrow> min ms MAX_SERVER_RETRY_DELAY
      | None \<Rightarrow>
          (let e = min (saturating_sub attempt 1) 6
           in min (500 * push_bit (unat e) 1) MAX_RETRY_DELAY))"

definition provider_error_text :: "provider_error \<Rightarrow> string" where
  "provider_error_text e =
     (case e of
        PeAuth m \<Rightarrow> ''authentication required: '' @ m
      | PeRateLimited _ \<Rightarrow> ''rate limited''
      | PeContextOverflow m \<Rightarrow> ''context overflow: '' @ m
      | PeServer st m \<Rightarrow> ''server error '' @ show_nat (unat st) @ '': '' @ m
      | PeRequest m \<Rightarrow> ''bad request: '' @ m
      | PeTransport m \<Rightarrow> ''transport: '' @ m
      | PeStream m \<Rightarrow> ''stream: '' @ m
      | PeTimeout \<Rightarrow> ''timeout''
      | PeUnsupported m \<Rightarrow> ''unsupported: '' @ m
      | PeConfig m \<Rightarrow> ''configuration: '' @ m)"

section \<open>Learned windows\<close>

definition MIN_WINDOW :: u64 where
  "MIN_WINDOW = 8000"

definition MAX_WINDOW :: u64 where
  "MAX_WINDOW = 10000000"

definition sane_window :: "u64 \<Rightarrow> bool" where
  "sane_window w \<longleftrightarrow> MIN_WINDOW \<le> w \<and> w \<le> MAX_WINDOW"

text \<open>\<open>str::parse\<close> of a run of digits: nothing when it is empty or too large.\<close>

definition digits_value :: "string \<Rightarrow> nat" where
  "digits_value s = foldl (\<lambda>n c. 10 * n + (of_char c - 48)) 0 s"

definition parse_u64 :: "string \<Rightarrow> u64 option" where
  "parse_u64 s = (if s = [] \<or> digits_value s \<ge> 2 ^ 64 then None else Some (of_nat (digits_value s)))"

definition json_as_u64 :: "json \<Rightarrow> u64 option" where
  "json_as_u64 v = (case v of JNumber n \<Rightarrow> if list_all is_ascii_digit n then parse_u64 n else None | _ \<Rightarrow> None)"

definition leading_number :: "string \<Rightarrow> u64 option" where
  "leading_number s = parse_u64 (takeWhile is_ascii_digit (trim_start s))"

definition trailing_number :: "string \<Rightarrow> u64 option" where
  "trailing_number s = parse_u64 (rev (takeWhile is_ascii_digit (rev s)))"

text \<open>\<open>str::match_indices\<close>: what stands before and after each match, left to right and without overlap.\<close>

function match_from :: "string \<Rightarrow> string \<Rightarrow> string \<Rightarrow> (string \<times> string) list" where
  "match_from pat before s =
     (if s = [] then []
      else if pat \<noteq> [] \<and> starts_with s pat
      then (before, drop (length pat) s) # match_from pat (before @ pat) (drop (length pat) s)
      else match_from pat (before @ [hd s]) (tl s))"
  by pat_completeness auto
termination
  by (relation "measure (\<lambda>(_, _, s). length s)") auto

declare match_from.simps [simp del]

abbreviation match_indices :: "string \<Rightarrow> string \<Rightarrow> (string \<times> string) list" where
  "match_indices s pat \<equiv> match_from pat [] s"

definition sane_option :: "u64 \<Rightarrow> u64 option" where
  "sane_option w = (if sane_window w then Some w else None)"

fun find_map :: "('a \<Rightarrow> 'b option) \<Rightarrow> 'a list \<Rightarrow> 'b option" where
  "find_map f [] = None"
| "find_map f (x # xs) = (case f x of Some y \<Rightarrow> Some y | None \<Rightarrow> find_map f xs)"

definition window_from_overflow :: "string \<Rightarrow> u64 option" where
  "window_from_overflow message =
     (let stated = find_map (\<lambda>rest. Option.bind (leading_number rest) sane_option)
            (map snd (match_indices message ''>'') @ map snd (match_indices message ''maximum context length is''))
      in case stated of
           Some w \<Rightarrow> Some w
         | None \<Rightarrow>
             (case List.map_filter (\<lambda>m. trailing_number (fst m)) (match_indices message '' token'') of
                [] \<Rightarrow> None
              | n # ns \<Rightarrow> sane_option (of_nat (min (unat (foldl max n ns) * 85) (2 ^ 64 - 1) div 100))))"

type_synonym learned = "(string, u64) mapping"

definition learned_key :: "string \<Rightarrow> string \<Rightarrow> string" where
  "learned_key provider model = provider @ ''/'' @ model"

definition learned_record :: "string \<Rightarrow> string \<Rightarrow> u64 \<Rightarrow> learned \<Rightarrow> bool \<times> learned" where
  "learned_record provider model w m =
     (if \<not> sane_window w then (False, m)
      else let k = learned_key provider model;
               known = (case Mapping.lookup m k of None \<Rightarrow> - 1 | Some n \<Rightarrow> n)
           in if w \<ge> known then (False, Mapping.update k known m) else (True, Mapping.update k w m))"

definition learned_reported :: "string \<Rightarrow> string \<Rightarrow> u64 \<Rightarrow> learned \<Rightarrow> learned" where
  "learned_reported provider model w m = Mapping.update (learned_key provider model) w m"

definition learned_window :: "string \<Rightarrow> string \<Rightarrow> learned \<Rightarrow> u64 option" where
  "learned_window provider model m = Mapping.lookup m (learned_key provider model)"


section \<open>What the numbers keep\<close>

lemma unat_thresholds:
  assumes "unat win < 2 ^ 60"
  shows "unat (th_effective (thresholds_of win mx)) = unat win - unat mx"
    and "unat (th_trigger (thresholds_of win mx)) = (unat win - unat mx) * 9 div 10"
    and "unat (th_keep (thresholds_of win mx)) = (unat win - unat mx) div 4"
    and "unat (th_warn (thresholds_of win mx)) = (unat win - unat mx) * 9 div 10 - 20000"
proof -
  have sub: "unat (saturating_sub a b) = unat a - unat b" for a b :: u64
    by (simp add: saturating_sub_def unat_sub word_le_nat_alt)
  have mx: "unat (ucast mx :: u64) = unat mx"
  proof -
    have "unat mx < 2 ^ 32"
      using unsigned_less[of mx] by simp
    then show ?thesis
      by (simp add: unsigned_ucast_eq take_bit_nat_eq_self)
  qed
  then have eff: "unat (saturating_sub win (ucast mx)) = unat win - unat mx"
    by (simp add: sub)
  show "unat (th_effective (thresholds_of win mx)) = unat win - unat mx"
    by (simp add: thresholds_of_def Let_def eff)
  have "unat (saturating_sub win (ucast mx) * 9) = (unat win - unat mx) * 9"
    using assms by (simp add: unat_mult_lem[THEN iffD1] eff)
  then show trig: "unat (th_trigger (thresholds_of win mx)) = (unat win - unat mx) * 9 div 10"
    by (simp add: thresholds_of_def Let_def unat_div)
  show "unat (th_keep (thresholds_of win mx)) = (unat win - unat mx) div 4"
    by (simp add: thresholds_of_def Let_def unat_div eff)
  show "unat (th_warn (thresholds_of win mx)) = (unat win - unat mx) * 9 div 10 - 20000"
    using trig by (simp add: thresholds_of_def Let_def sub)
qed

lemma lines_in_order:
  assumes "unat win < 2 ^ 60"
  shows "th_warn (thresholds_of win mx) \<le> th_trigger (thresholds_of win mx)"
    and "th_trigger (thresholds_of win mx) \<le> th_effective (thresholds_of win mx)"
    and "th_keep (thresholds_of win mx) \<le> th_trigger (thresholds_of win mx)"
    and "th_effective (thresholds_of win mx) \<le> win"
proof -
  have "e * 9 div 10 \<le> e" "e div 4 \<le> e * 9 div 10" for e :: nat
    by linarith+
  then show "th_warn (thresholds_of win mx) \<le> th_trigger (thresholds_of win mx)"
    "th_trigger (thresholds_of win mx) \<le> th_effective (thresholds_of win mx)"
    "th_keep (thresholds_of win mx) \<le> th_trigger (thresholds_of win mx)"
    "th_effective (thresholds_of win mx) \<le> win"
    using unat_thresholds[OF assms, of mx] by (simp_all add: word_le_nat_alt)
qed

lemma backoff_steps: "n \<le> 6 \<Longrightarrow> min (500 * push_bit n 1) MAX_RETRY_DELAY = (of_nat (500 * 2 ^ n) :: u64)"
proof -
  assume "n \<le> 6"
  then have "n \<in> {0, 1, 2, 3, 4, 5, 6}"
    by auto
  then show ?thesis
    by (auto simp: MAX_RETRY_DELAY_def push_bit_eq_mult min_def)
qed


text \<open>
  The wait before a retry.  What the server asks for is honoured up to a minute;
  otherwise the wait starts at half a second, doubles with every attempt and stays at
  32 seconds from the seventh on.  It never exceeds a minute.
\<close>

theorem backoff_doubles_within_bounds:
  "backoff attempt (Some ms) = min ms 60000"
  "1 \<le> unat attempt \<longrightarrow> unat (backoff attempt None) = 500 * 2 ^ min (unat attempt - 1) 6"
  "backoff attempt after \<le> 60000"
proof -
  have e: "unat (min (saturating_sub attempt 1) 6) = min (unat attempt - 1) 6"
    by (auto simp: saturating_sub_def unat_sub word_le_nat_alt min_def)
  show server: "backoff attempt (Some ms) = min ms 60000"
    by (simp add: backoff_def MAX_SERVER_RETRY_DELAY_def)
  have none: "backoff attempt None = of_nat (500 * 2 ^ min (unat attempt - 1) 6)"
    using backoff_steps[of "min (unat attempt - 1) 6"] by (simp add: backoff_def Let_def e)
  have small: "500 * 2 ^ min (unat attempt - 1) 6 \<le> (32000 :: nat)"
    using power_increasing[of "min (unat attempt - 1) 6" 6 "2 :: nat"] by simp
  then have ms: "unat (backoff attempt None) = 500 * 2 ^ min (unat attempt - 1) 6"
    unfolding none by (subst unat_of_nat) (simp add: mod_less)
  then show "1 \<le> unat attempt \<longrightarrow> unat (backoff attempt None) = 500 * 2 ^ min (unat attempt - 1) 6"
    by blast
  show "backoff attempt after \<le> 60000"
  proof (cases after)
    case None
    then show ?thesis
      using ms small by (simp add: word_le_nat_alt)
  qed (simp add: backoff_def MAX_SERVER_RETRY_DELAY_def)
qed

theorem backoff_doubles_within_bounds_witness:
  "unat (backoff 3 None) = 2000 \<and> unat (backoff 40 None) = 32000 \<and> backoff 1 (Some 90000) = 60000"
proof -
  have "unat (backoff 3 None) = 500 * 2 ^ min (unat (3 :: u32) - 1) 6"
    using backoff_doubles_within_bounds(2)[of 3] by simp
  moreover have "unat (backoff 40 None) = 500 * 2 ^ min (unat (40 :: u32) - 1) 6"
    using backoff_doubles_within_bounds(2)[of 40] by simp
  moreover have "backoff 1 (Some 90000) = 60000"
    using backoff_doubles_within_bounds(1)[of 1 90000] by (simp add: min_def)
  ultimately show ?thesis
    by (simp add: min_def)
qed

lemma find_map_sane: "find_map (\<lambda>x. Option.bind (f x) sane_option) xs = Some w \<Longrightarrow> sane_window w"
  by (induction xs) (auto simp: sane_option_def split: option.splits bind_splits if_splits)

lemma overflow_window_sane: "window_from_overflow m = Some w \<Longrightarrow> sane_window w"
  by (auto simp: window_from_overflow_def Let_def sane_option_def find_map_sane
      split: option.splits list.splits if_splits dest: find_map_sane)


text \<open>The smallest plausible window a server has named is what is remembered of it.\<close>

definition learned_all :: "string \<Rightarrow> string \<Rightarrow> u64 list \<Rightarrow> learned \<Rightarrow> learned" where
  "learned_all provider model ws m = foldl (\<lambda>m w. snd (learned_record provider model w m)) m ws"

lemma sane_not_max: "sane_window w \<Longrightarrow> \<not> - 1 \<le> w"
proof
  assume "sane_window w" "- 1 \<le> w"
  then have "w = - 1" "w \<le> 10000000"
    by (auto simp: sane_window_def MAX_WINDOW_def word_order.extremum_unique)
  then have "(- 1 :: u64) = 10000000"
    by (simp add: word_order.extremum_unique)
  then show False
    by simp
qed

lemma learned_record_window:
  "learned_window p n (snd (learned_record p n w m)) =
     (if \<not> sane_window w then learned_window p n m
      else case learned_window p n m of None \<Rightarrow> Some w | Some k \<Rightarrow> Some (min k w))"
  using sane_not_max[of w]
  by (auto simp: learned_record_def learned_window_def Let_def min_def split: option.splits)

lemma learned_smallest:
  "learned_window p n (learned_all p n ws Mapping.empty) =
     (if filter sane_window ws = [] then None else Some (Min (set (filter sane_window ws))))"
proof (induction ws rule: rev_induct)
  case (snoc w ws)
  let ?ws = "filter sane_window ws"
  have "learned_window p n (learned_all p n (ws @ [w]) Mapping.empty) =
      (if \<not> sane_window w then learned_window p n (learned_all p n ws Mapping.empty)
       else case learned_window p n (learned_all p n ws Mapping.empty) of None \<Rightarrow> Some w | Some k \<Rightarrow> Some (min k w))"
    by (simp add: learned_all_def learned_record_window)
  moreover have "?ws \<noteq> [] \<Longrightarrow> Min (set (?ws @ [w])) = min (Min (set ?ws)) w"
  proof -
    assume "?ws \<noteq> []"
    then have "Min (insert w (set ?ws)) = min w (Min (set ?ws))"
      by (intro Min_insert) (simp_all only: finite_set set_empty not_False_eq_True)
    then show ?thesis
      by (simp only: set_append list.set Un_insert_right Un_empty_right min.commute)
  qed
  ultimately show ?case
    by (simp only: snoc.IH) (cases "?ws = []"; simp)
qed (simp add: learned_all_def learned_window_def)

end
