(* ===== verification/Core_Wire.thy ===== *)
theory Core_Wire
  imports Core_Budget
begin

text \<open>
  What of a conversation goes on the wire, and how large it is: the token estimate
  (\<open>bingo-sdk/src/tokens.rs\<close>), the pictures a model cannot see (\<open>models/vision.rs\<close>), the
  pictures it has answered (\<open>context/elide/images.rs\<close>) and the stale tool results
  (\<open>context/elide.rs\<close>).  Every one of them is a projection of the messages: the items
  and the journal keep everything.  The text of a JSON value is a parameter.
\<close>

section \<open>Requests\<close>

record system_block =
  sb_text :: string
  sb_cache :: bool

record tool_spec =
  ts_name :: string
  ts_description :: string
  ts_input_schema :: json

section \<open>The estimate\<close>

definition IMAGE_TOKENS :: u64 where
  "IMAGE_TOKENS = 1600"

definition is_ascii :: "char \<Rightarrow> bool" where
  "is_ascii c \<longleftrightarrow> (of_char c :: nat) < 128"

text \<open>\<open>div_ceil\<close>.\<close>

definition ceil_div :: "nat \<Rightarrow> nat \<Rightarrow> nat" where
  "ceil_div n d = (if n mod d = 0 then n div d else n div d + 1)"

definition tokens_text :: "string \<Rightarrow> u64" where
  "tokens_text s =
     of_nat (ceil_div (length (filter is_ascii s)) 4) + of_nat (length (filter (\<lambda>c. \<not> is_ascii c) s))"

definition tokens_image :: "image \<Rightarrow> u64" where
  "tokens_image img =
     (case (img_width img, img_height img) of
        (Some w, Some h) \<Rightarrow> of_nat (ceil_div (unat w * unat h) 750)
      | _ \<Rightarrow> IMAGE_TOKENS)"

definition saturating_sum :: "u64 list \<Rightarrow> u64" where
  "saturating_sum ns = foldl saturating_add 0 ns"

fun tokens_part :: "(json \<Rightarrow> string) \<Rightarrow> content_part \<Rightarrow> u64" where
  "tokens_part jtext (PText t) = tokens_text t"
| "tokens_part jtext (PReasoning t _) = tokens_text t"
| "tokens_part jtext (PImage img) = tokens_image img"
| "tokens_part jtext (PToolUse _ name input) = tokens_text name + tokens_text (jtext input)"
| "tokens_part jtext (PToolResult _ ps _) = saturating_sum (map (tokens_part jtext) ps)"

definition tokens_parts :: "(json \<Rightarrow> string) \<Rightarrow> content_part list \<Rightarrow> u64" where
  "tokens_parts jtext ps = saturating_sum (map (tokens_part jtext) ps)"

definition tokens_blocks :: "system_block list \<Rightarrow> u64" where
  "tokens_blocks bs = saturating_sum (map (\<lambda>b. tokens_text (sb_text b)) bs)"

definition tokens_item :: "(json \<Rightarrow> string) \<Rightarrow> item \<Rightarrow> u64" where
  "tokens_item jtext i =
     (case it_body i of
        BUser ps _ \<Rightarrow> tokens_parts jtext ps
      | BAssistant t \<Rightarrow> tokens_text t
      | BReasoning t _ \<Rightarrow> tokens_text t
      | BToolCall c \<Rightarrow>
          saturating_add (saturating_add (tokens_text (cb_name c)) (tokens_text (jtext (cb_input c))))
            (case cb_output c of None \<Rightarrow> 0 | Some out \<Rightarrow> tokens_parts jtext (to_parts out))
      | BCompaction c \<Rightarrow> tokens_text (co_summary c)
      | BInterruption m _ \<Rightarrow> tokens_text m
      | BQuestionAnswer _ _ _ q a \<Rightarrow> tokens_text q + tokens_text a
      | _ \<Rightarrow> 0)"

definition tokens_items :: "(json \<Rightarrow> string) \<Rightarrow> item list \<Rightarrow> u64" where
  "tokens_items jtext is = saturating_sum (map (tokens_item jtext) is)"

definition tokens_spec :: "(json \<Rightarrow> string) \<Rightarrow> tool_spec \<Rightarrow> u64" where
  "tokens_spec jtext t =
     tokens_text (ts_name t) + tokens_text (ts_description t) + tokens_text (jtext (ts_input_schema t))"

definition estimate_tokens ::
  "(json \<Rightarrow> string) \<Rightarrow> system_block list \<Rightarrow> message list \<Rightarrow> tool_spec list \<Rightarrow> u64" where
  "estimate_tokens jtext sys msgs tools =
     (let n = tokens_blocks sys;
          n1 = foldl (\<lambda>n m. saturating_add n (tokens_parts jtext (msg_parts m))) n msgs
      in foldl (\<lambda>n t. saturating_add n (tokens_spec jtext t)) n1 tools)"

fun picture_tokens_of :: "(json \<Rightarrow> string) \<Rightarrow> content_part \<Rightarrow> u64" where
  "picture_tokens_of jtext (PImage img) = tokens_parts jtext [PImage img]"
| "picture_tokens_of jtext (PToolResult _ ps _) = saturating_sum (map (picture_tokens_of jtext) ps)"
| "picture_tokens_of jtext _ = 0"

definition picture_tokens :: "(json \<Rightarrow> string) \<Rightarrow> content_part list \<Rightarrow> u64" where
  "picture_tokens jtext ps = saturating_sum (map (picture_tokens_of jtext) ps)"

definition composition ::
  "(json \<Rightarrow> string) \<Rightarrow> system_block list \<Rightarrow> message list \<Rightarrow> tool_spec list \<Rightarrow>
   context_part \<times> context_part \<times> context_part \<times> context_part" where
  "composition jtext sys msgs tools =
     (let pictures = saturating_sum (map (\<lambda>m. picture_tokens jtext (msg_parts m)) msgs);
          chat = saturating_sub (saturating_sum (map (\<lambda>m. tokens_parts jtext (msg_parts m)) msgs)) pictures
      in (\<lparr>cp_name = CkSystem, cp_tokens = tokens_blocks sys\<rparr>,
          \<lparr>cp_name = CkTools, cp_tokens = estimate_tokens jtext [] [] tools\<rparr>,
          \<lparr>cp_name = CkChat, cp_tokens = chat\<rparr>,
          \<lparr>cp_name = CkPictures, cp_tokens = pictures\<rparr>))"

section \<open>Pictures\<close>

definition whereabouts :: "image \<Rightarrow> string option" where
  "whereabouts img = map_option (\<lambda>p. ''[picture: '' @ p @ '']'') (img_path img)"

fun has_image :: "content_part \<Rightarrow> bool" where
  "has_image (PImage _) = True"
| "has_image (PToolResult _ ps _) = list_ex has_image ps"
| "has_image _ = False"

definition omitted_note :: "string \<Rightarrow> string" where
  "omitted_note model = ''[image omitted: '' @ model @ '' has no vision]''"

definition with_whereabouts :: "string \<Rightarrow> image \<Rightarrow> string" where
  "with_whereabouts what img = (case whereabouts img of Some w \<Rightarrow> what @ '' '' @ w | None \<Rightarrow> what)"

fun vision_project :: "string \<Rightarrow> content_part \<Rightarrow> content_part" where
  "vision_project nt (PImage img) = PText (with_whereabouts nt img)"
| "vision_project nt (PToolResult k ps e) = PToolResult k (map (vision_project nt) ps) e"
| "vision_project nt p = p"

definition project_images_out :: "message list \<Rightarrow> string \<Rightarrow> message list option" where
  "project_images_out msgs nt =
     (if list_ex (\<lambda>m. list_ex has_image (msg_parts m)) msgs
      then Some (map (\<lambda>m. m\<lparr>msg_parts := map (vision_project nt) (msg_parts m)\<rparr>) msgs) else None)"

text \<open>\<open>bytes::words\<close>.\<close>

definition size_words :: "nat \<Rightarrow> string" where
  "size_words n =
     (let kb = (n + 50) div 100 in
      if kb < 10000 then show_nat (kb div 10) @ ''.'' @ show_nat (kb mod 10) @ '' KB''
      else let mb = (n + 50000) div 100000 in show_nat (mb div 10) @ ''.'' @ show_nat (mb mod 10) @ '' MB'')"

definition elided_note :: "image \<Rightarrow> string" where
  "elided_note img =
     with_whereabouts (''[image elided: '' @ img_media_type img @ '' '' @ size_words (decoded_len img) @ '']'') img"

definition REQUEST_PICTURE_BYTES :: nat where
  "REQUEST_PICTURE_BYTES = 4 * 1024 * 1024"

definition IMAGE_ROUNDS_KEPT :: nat where
  "IMAGE_ROUNDS_KEPT = 3"

text \<open>\<open>answered_prefix\<close>, from the last message to the first.\<close>

fun answered_from :: "nat \<Rightarrow> nat \<Rightarrow> message list \<Rightarrow> nat" where
  "answered_from kept answers [] = 0"
| "answered_from kept answers (m # before) =
     (if answers \<ge> kept then Suc (length before)
      else answered_from kept (if msg_role m = RoleAssistant then Suc answers else answers) before)"

definition answered_prefix :: "message list \<Rightarrow> nat \<Rightarrow> nat" where
  "answered_prefix msgs kept = answered_from kept 0 (rev msgs)"

text \<open>The parts of a message are gone through from the last to the first, as is what a result holds.\<close>

fun image_project :: "bool \<Rightarrow> nat \<Rightarrow> content_part \<Rightarrow> content_part \<times> nat"
  and image_projects :: "bool \<Rightarrow> nat \<Rightarrow> content_part list \<Rightarrow> content_part list \<times> nat" where
  "image_project old left (PImage img) =
     (if old \<or> decoded_len img > left then (PText (elided_note img), left) else (PImage img, left - decoded_len img))"
| "image_project old left (PToolResult k ps e) =
     (case image_projects old left ps of (ps', left') \<Rightarrow> (PToolResult k ps' e, left'))"
| "image_project old left p = (p, left)"
| "image_projects old left [] = ([], left)"
| "image_projects old left (p # ps) =
     (case image_projects old left ps of (ps', left') \<Rightarrow>
        (case image_project old left' p of (p', left'') \<Rightarrow> (p' # ps', left'')))"

fun images_from :: "nat \<Rightarrow> nat \<Rightarrow> nat \<Rightarrow> message list \<Rightarrow> message list \<times> nat" where
  "images_from answered n left [] = ([], left)"
| "images_from answered n left (m # ms) =
     (case images_from answered (Suc n) left ms of (ms', left') \<Rightarrow>
        (case image_projects (n < answered) left' (msg_parts m) of (ps, left'') \<Rightarrow>
           (m\<lparr>msg_parts := ps\<rparr> # ms', left'')))"

text \<open>A projection that leaves every part unchanged is not reported as one.\<close>

definition elide_old_images :: "message list \<Rightarrow> nat \<Rightarrow> message list option" where
  "elide_old_images msgs kept =
     (if \<not> list_ex (\<lambda>m. list_ex has_image (msg_parts m)) msgs then None
      else let ms = fst (images_from (answered_prefix msgs kept) 0 REQUEST_PICTURE_BYTES msgs)
           in if ms = msgs then None else Some ms)"

section \<open>Stale results\<close>

definition KEEP_RECENT_AFTER_OVERFLOW :: nat where
  "KEEP_RECENT_AFTER_OVERFLOW = 4"

definition ELIDE_MIN_CHARS :: nat where
  "ELIDE_MIN_CHARS = 1000"

fun is_result :: "content_part \<Rightarrow> bool" where
  "is_result (PToolResult _ _ _) = True"
| "is_result _ = False"

definition count_results :: "message \<Rightarrow> nat" where
  "count_results m = length (filter is_result (msg_parts m))"

fun chars_of :: "(json \<Rightarrow> string) \<Rightarrow> content_part \<Rightarrow> nat" where
  "chars_of jtext (PText t) = length t"
| "chars_of jtext (PImage img) = length (img_data img)"
| "chars_of jtext (PToolResult _ ps _) = sum_list (map (chars_of jtext) ps)"
| "chars_of jtext (PToolUse _ _ input) = length (jtext input)"
| "chars_of jtext (PReasoning t _) = length t"

definition result_note :: "nat \<Rightarrow> string" where
  "result_note chars = ''[tool result elided: '' @ show_nat chars @ '' chars]''"

definition is_note :: "content_part list \<Rightarrow> bool" where
  "is_note ps = (case ps of [PText t] \<Rightarrow> starts_with t ''[tool result elided: '' | _ \<Rightarrow> False)"

fun result_project :: "(json \<Rightarrow> string) \<Rightarrow> nat \<Rightarrow> nat \<Rightarrow> nat \<Rightarrow> content_part \<Rightarrow> content_part" where
  "result_project jtext seen stale least (PToolResult k ps e) =
     (let chars = sum_list (map (chars_of jtext) ps) in
      if seen \<ge> stale \<or> chars < least \<or> is_note ps then PToolResult k ps e
      else PToolResult k [PText (result_note chars)] e)"
| "result_project jtext seen stale least p = p"

fun results_from :: "(json \<Rightarrow> string) \<Rightarrow> nat \<Rightarrow> nat \<Rightarrow> nat \<Rightarrow> content_part list \<Rightarrow> content_part list" where
  "results_from jtext seen stale least [] = []"
| "results_from jtext seen stale least (p # ps) =
     result_project jtext seen stale least p
       # results_from jtext (if is_result p then Suc seen else seen) stale least ps"

fun messages_from :: "(json \<Rightarrow> string) \<Rightarrow> nat \<Rightarrow> nat \<Rightarrow> nat \<Rightarrow> message list \<Rightarrow> message list" where
  "messages_from jtext seen stale least [] = []"
| "messages_from jtext seen stale least (m # ms) =
     m\<lparr>msg_parts := results_from jtext seen stale least (msg_parts m)\<rparr>
       # messages_from jtext (seen + count_results m) stale least ms"

definition elide_old_results ::
  "(json \<Rightarrow> string) \<Rightarrow> message list \<Rightarrow> nat \<Rightarrow> nat \<Rightarrow> message list option" where
  "elide_old_results jtext msgs keep_recent least =
     (let stale = sum_list (map count_results msgs) - keep_recent;
          ms = messages_from jtext 0 stale least msgs
      in if ms = msgs then None else Some ms)"

section \<open>On the wire\<close>

text \<open>The three projections of \<open>compose_request\<close>, in its order.\<close>

definition without_images :: "bool \<Rightarrow> string \<Rightarrow> message list \<Rightarrow> message list" where
  "without_images sees model msgs =
     (if sees then msgs else unwrap_or (project_images_out msgs (omitted_note model)) msgs)"

definition without_old_images :: "message list \<Rightarrow> message list" where
  "without_old_images msgs = unwrap_or (elide_old_images msgs IMAGE_ROUNDS_KEPT) msgs"

definition elide_after_overflow :: "(json \<Rightarrow> string) \<Rightarrow> bool \<Rightarrow> message list \<Rightarrow> message list" where
  "elide_after_overflow jtext overflowed msgs =
     (if overflowed then unwrap_or (elide_old_results jtext msgs KEEP_RECENT_AFTER_OVERFLOW ELIDE_MIN_CHARS) msgs
      else msgs)"

definition wire_messages :: "(json \<Rightarrow> string) \<Rightarrow> bool \<Rightarrow> string \<Rightarrow> bool \<Rightarrow> message list \<Rightarrow> message list" where
  "wire_messages jtext sees model overflowed msgs =
     elide_after_overflow jtext overflowed (without_old_images (without_images sees model msgs))"


section \<open>What the projections keep\<close>

text \<open>What may stand for a part on the wire: a note for a picture, a result of the same call for a result.\<close>

fun stands_for :: "content_part \<Rightarrow> content_part \<Rightarrow> bool" where
  "stands_for (PImage img) q \<longleftrightarrow> q = PImage img \<or> (\<exists>nt. q = PText nt)"
| "stands_for (PToolResult k ps e) q \<longleftrightarrow> (\<exists>qs. q = PToolResult k qs e)"
| "stands_for p q \<longleftrightarrow> q = p"

definition message_stands_for :: "message \<Rightarrow> message \<Rightarrow> bool" where
  "message_stands_for m n \<longleftrightarrow>
     msg_role n = msg_role m \<and> msg_provider_options n = msg_provider_options m
     \<and> list_all2 stands_for (msg_parts m) (msg_parts n)"

abbreviation wire_for :: "message list \<Rightarrow> message list \<Rightarrow> bool" where
  "wire_for \<equiv> list_all2 message_stands_for"

lemma stands_for_refl [simp]: "stands_for p p"
  by (cases p) simp_all

lemma stands_for_trans: "stands_for p q \<Longrightarrow> stands_for q r \<Longrightarrow> stands_for p r"
  by (cases p) auto

lemma message_stands_for_refl: "message_stands_for m m"
  by (simp add: message_stands_for_def list_all2_same)

lemma message_stands_for_trans: "message_stands_for a b \<Longrightarrow> message_stands_for b c \<Longrightarrow> message_stands_for a c"
  using list_all2_trans[of stands_for stands_for stands_for, OF stands_for_trans] by (auto simp: message_stands_for_def)

lemma wire_for_refl: "wire_for ms ms"
  by (simp add: list_all2_same message_stands_for_refl)

lemma wire_for_trans: "wire_for a b \<Longrightarrow> wire_for b c \<Longrightarrow> wire_for a c"
  by (rule list_all2_trans[OF message_stands_for_trans])

lemma vision_stands: "stands_for p (vision_project nt p)"
  by (cases p) simp_all

lemma image_stands: "stands_for p (fst (image_project old left p))"
  by (cases p) (simp_all add: split_beta)

lemma images_stand: "list_all2 stands_for ps (fst (image_projects old left ps))"
  by (induction ps) (simp_all add: split_beta image_stands)

lemma images_from_stand: "wire_for ms (fst (images_from answered n left ms))"
  by (induction ms arbitrary: n) (simp_all add: split_beta message_stands_for_def images_stand)

lemma result_stands: "stands_for p (result_project jtext seen stale least p)"
  by (cases p) (simp_all add: Let_def)

lemma results_stand: "list_all2 stands_for ps (results_from jtext seen stale least ps)"
  by (induction ps arbitrary: seen) (simp_all add: result_stands)

lemma messages_from_stand: "wire_for ms (messages_from jtext seen stale least ms)"
  by (induction ms arbitrary: seen) (simp_all add: message_stands_for_def results_stand)

lemma without_images_stand: "wire_for ms (without_images sees model ms)"
  by (auto simp: without_images_def project_images_out_def unwrap_or_def wire_for_refl message_stands_for_def vision_stands
      list_all2_map2 intro!: list_all2_refl)

lemma without_old_images_stand: "wire_for ms (without_old_images ms)"
  by (simp add: without_old_images_def elide_old_images_def unwrap_or_def Let_def wire_for_refl images_from_stand)

lemma elide_after_overflow_stand: "wire_for ms (elide_after_overflow jtext b ms)"
  by (simp add: elide_after_overflow_def elide_old_results_def unwrap_or_def Let_def wire_for_refl messages_from_stand)

lemma wire_stands: "wire_for ms (wire_messages jtext sees model overflowed ms)"
  unfolding wire_messages_def
  by (rule wire_for_trans[OF wire_for_trans[OF without_images_stand without_old_images_stand] elide_after_overflow_stand])

text \<open>The pictures of a message.\<close>

fun picture_bytes :: "content_part \<Rightarrow> nat" where
  "picture_bytes (PImage img) = decoded_len img"
| "picture_bytes (PToolResult _ ps _) = sum_list (map picture_bytes ps)"
| "picture_bytes _ = 0"

definition request_picture_bytes :: "message list \<Rightarrow> nat" where
  "request_picture_bytes ms = sum_list (map (\<lambda>m. sum_list (map picture_bytes (msg_parts m))) ms)"

lemma images_spend:
  "picture_bytes (fst (image_project old left p)) + snd (image_project old left p) = left"
  "sum_list (map picture_bytes (fst (image_projects old left ps))) + snd (image_projects old left ps) = left"
  by (induction old left p and old left ps rule: image_project_image_projects.induct)
     (auto split: prod.splits)

lemma images_from_spend:
  "request_picture_bytes (fst (images_from answered n left ms)) + snd (images_from answered n left ms) = left"
proof (induction ms arbitrary: n)
  case (Cons m ms)
  let ?rest = "images_from answered (Suc n) left ms"
  have "sum_list (map picture_bytes (fst (image_projects (n < answered) (snd ?rest) (msg_parts m))))
      + snd (image_projects (n < answered) (snd ?rest) (msg_parts m)) = snd ?rest"
    by (rule images_spend)
  then show ?case
    using Cons.IH[of "Suc n"] by (simp add: split_beta request_picture_bytes_def)
qed (simp add: request_picture_bytes_def)

lemma no_image_no_bytes: "\<not> has_image p \<Longrightarrow> picture_bytes p = 0"
  by (induction p) (auto simp: list_ex_iff)

lemma no_images_no_bytes:
  "\<not> list_ex (\<lambda>m. list_ex has_image (msg_parts m)) ms \<Longrightarrow> request_picture_bytes ms = 0"
  by (auto simp: request_picture_bytes_def list_ex_iff no_image_no_bytes)

lemma without_old_images_fit: "request_picture_bytes (without_old_images ms) \<le> REQUEST_PICTURE_BYTES"
  using images_from_spend[of "answered_prefix ms IMAGE_ROUNDS_KEPT" 0 REQUEST_PICTURE_BYTES ms]
  by (auto simp: without_old_images_def elide_old_images_def unwrap_or_def Let_def no_images_no_bytes split: if_splits)


text \<open>Eliding stale results brings no picture back.\<close>

lemma result_project_bytes: "picture_bytes (result_project jtext seen stale least p) \<le> picture_bytes p"
  by (cases p) (simp_all add: Let_def)

lemma results_from_bytes:
  "sum_list (map picture_bytes (results_from jtext seen stale least ps)) \<le> sum_list (map picture_bytes ps)"
  by (induction ps arbitrary: seen) (simp_all add: result_project_bytes add_mono)

lemma messages_from_bytes: "request_picture_bytes (messages_from jtext seen stale least ms) \<le> request_picture_bytes ms"
  by (induction ms arbitrary: seen) (simp_all add: request_picture_bytes_def results_from_bytes add_mono)

lemma elide_after_overflow_bytes: "request_picture_bytes (elide_after_overflow jtext b ms) \<le> request_picture_bytes ms"
  by (simp add: elide_after_overflow_def elide_old_results_def unwrap_or_def Let_def messages_from_bytes)

abbreviation shows_picture :: "message \<Rightarrow> bool" where
  "shows_picture m \<equiv> list_ex has_image (msg_parts m)"

lemma result_project_image: "has_image (result_project jtext seen stale least p) \<Longrightarrow> has_image p"
  by (cases p) (auto simp: Let_def split: if_splits)

lemma results_from_image: "list_ex has_image (results_from jtext seen stale least ps) \<Longrightarrow> list_ex has_image ps"
  by (induction ps arbitrary: seen) (auto dest: result_project_image)

lemma messages_from_image:
  "n < length ms \<Longrightarrow> shows_picture (messages_from jtext seen stale least ms ! n) \<Longrightarrow> shows_picture (ms ! n)"
  by (induction ms arbitrary: n seen) (auto simp: nth_Cons dest: results_from_image split: nat.splits)

lemma elide_after_overflow_image:
  "n < length ms \<Longrightarrow> shows_picture (elide_after_overflow jtext b ms ! n) \<Longrightarrow> shows_picture (ms ! n)"
  by (auto simp: elide_after_overflow_def elide_old_results_def unwrap_or_def Let_def dest: messages_from_image split: if_splits)

lemma old_images_gone:
  "\<not> has_image (fst (image_project True left p))"
  "\<not> list_ex has_image (fst (image_projects True left ps))"
  by (induction True left p and True left ps rule: image_project_image_projects.induct) (auto split: prod.splits)

lemma images_from_answered:
  "k < length ms \<Longrightarrow> n + k < answered \<Longrightarrow> \<not> shows_picture (fst (images_from answered n left ms) ! k)"
  by (induction ms arbitrary: n k) (auto simp: nth_Cons split_beta old_images_gone split: nat.splits)

lemma without_old_images_answered:
  assumes "k < length ms" "k < answered_prefix ms IMAGE_ROUNDS_KEPT"
  shows "\<not> shows_picture (without_old_images ms ! k)"
  using images_from_answered[OF assms(1), of 0 "answered_prefix ms IMAGE_ROUNDS_KEPT" REQUEST_PICTURE_BYTES] assms
  by (auto simp: without_old_images_def elide_old_images_def unwrap_or_def Let_def list_ex_iff[of _ ms] split: if_splits)

lemma vision_blind: "\<not> has_image (vision_project nt p)"
  by (induction p) (auto simp: list_ex_iff)

lemma without_images_blind: "m \<in> set (without_images False model ms) \<Longrightarrow> \<not> shows_picture m"
  by (auto simp: without_images_def project_images_out_def unwrap_or_def list_ex_iff vision_blind split: if_splits)

lemma without_old_images_blind:
  "\<forall>m \<in> set ms. \<not> shows_picture m \<Longrightarrow> without_old_images ms = ms"
  by (auto simp: without_old_images_def elide_old_images_def unwrap_or_def list_ex_iff[of _ ms])

text \<open>Messages count as answered by their roles alone.\<close>

lemma answered_from_roles:
  "map msg_role ms = map msg_role ns \<Longrightarrow> answered_from kept a ms = answered_from kept a ns"
proof (induction ms arbitrary: ns a)
  case (Cons m ms)
  then obtain n rest where "ns = n # rest" "msg_role n = msg_role m" and rest: "map msg_role ms = map msg_role rest"
    by (cases ns) auto
  then show ?case
    using Cons.IH[OF rest] map_eq_imp_length_eq[OF rest] by simp
qed simp

lemma wire_for_roles: "wire_for ms ns \<Longrightarrow> map msg_role ns = map msg_role ms"
  by (induction rule: list_all2_induct) (simp_all add: message_stands_for_def)

lemma answered_prefix_wire: "wire_for ms ns \<Longrightarrow> answered_prefix ns kept = answered_prefix ms kept"
  unfolding answered_prefix_def by (intro answered_from_roles) (simp add: wire_for_roles rev_map[symmetric])

text \<open>The results of a conversation, in order; the newest are left alone.\<close>

definition all_results :: "message list \<Rightarrow> content_part list" where
  "all_results ms = filter is_result (concat (map msg_parts ms))"

lemma all_results_Cons [simp]: "all_results [] = []" "all_results (m # ms) = filter is_result (msg_parts m) @ all_results ms"
  by (simp_all add: all_results_def)

lemma result_project_is_result [simp]: "is_result (result_project jtext seen stale least p) = is_result p"
  by (cases p) (simp_all add: Let_def)

lemma result_project_recent: "stale \<le> seen \<Longrightarrow> result_project jtext seen stale least p = p"
  by (cases p) (simp_all add: Let_def)

lemma results_from_recent:
  "drop (stale - seen) (filter is_result (results_from jtext seen stale least ps)) = drop (stale - seen) (filter is_result ps)"
proof (induction ps arbitrary: seen)
  case (Cons p ps)
  show ?case
  proof (cases "stale \<le> seen")
    case True
    then show ?thesis
      using Cons.IH[of "Suc seen"] Cons.IH[of seen] by (simp add: result_project_recent)
  next
    case False
    then have "stale - seen = Suc (stale - Suc seen)"
      by simp
    then show ?thesis
      using Cons.IH[of "Suc seen"] Cons.IH[of seen] by simp
  qed
qed simp

lemma results_from_length [simp]: "length (filter is_result (results_from jtext seen stale least ps)) = length (filter is_result ps)"
  by (induction ps arbitrary: seen) simp_all

lemma messages_from_recent:
  "drop (stale - seen) (all_results (messages_from jtext seen stale least ms)) = drop (stale - seen) (all_results ms)"
proof (induction ms arbitrary: seen)
  case (Cons m ms)
  have "stale - (seen + count_results m) = stale - seen - length (filter is_result (msg_parts m))"
    by (simp add: count_results_def)
  then show ?case
    using Cons.IH[of "seen + count_results m"] results_from_recent[of stale seen jtext least "msg_parts m"] by simp
qed simp


section \<open>The size of a request\<close>

text \<open>The reference: the sizes as plain sums of natural numbers.\<close>

definition size_text :: "string \<Rightarrow> nat" where
  "size_text s = ceil_div (length (filter is_ascii s)) 4 + length (filter (\<lambda>c. \<not> is_ascii c) s)"

definition size_image :: "image \<Rightarrow> nat" where
  "size_image img =
     (case (img_width img, img_height img) of (Some w, Some h) \<Rightarrow> ceil_div (unat w * unat h) 750 | _ \<Rightarrow> 1600)"

fun size_part :: "(json \<Rightarrow> string) \<Rightarrow> content_part \<Rightarrow> nat" where
  "size_part jtext (PText t) = size_text t"
| "size_part jtext (PReasoning t _) = size_text t"
| "size_part jtext (PImage img) = size_image img"
| "size_part jtext (PToolUse _ name input) = size_text name + size_text (jtext input)"
| "size_part jtext (PToolResult _ ps _) = sum_list (map (size_part jtext) ps)"

fun size_pictures :: "content_part \<Rightarrow> nat" where
  "size_pictures (PImage img) = size_image img"
| "size_pictures (PToolResult _ ps _) = sum_list (map size_pictures ps)"
| "size_pictures _ = 0"

definition size_messages :: "(json \<Rightarrow> string) \<Rightarrow> message list \<Rightarrow> nat" where
  "size_messages jtext ms = sum_list (map (\<lambda>m. sum_list (map (size_part jtext) (msg_parts m))) ms)"

definition size_message_pictures :: "message list \<Rightarrow> nat" where
  "size_message_pictures ms = sum_list (map (\<lambda>m. sum_list (map size_pictures (msg_parts m))) ms)"

definition size_system :: "system_block list \<Rightarrow> nat" where
  "size_system sys = sum_list (map (\<lambda>b. size_text (sb_text b)) sys)"

definition size_tools :: "(json \<Rightarrow> string) \<Rightarrow> tool_spec list \<Rightarrow> nat" where
  "size_tools jtext tools =
     sum_list (map (\<lambda>t. size_text (ts_name t) + size_text (ts_description t) + size_text (jtext (ts_input_schema t))) tools)"

lemma unat_of_small: "n < 2 ^ 64 \<Longrightarrow> unat (of_nat n :: u64) = n"
  by (simp add: unat_of_nat take_bit_nat_eq_self)

lemma unat_saturating: "unat a + unat b < 2 ^ 64 \<Longrightarrow> unat (saturating_add a (b :: u64)) = unat a + unat b"
  by (simp add: saturating_add_def no_olen_add_nat unat_plus_if_size word_size)

lemma saturating_foldl:
  "unat n + sum_list (map f xs) < 2 ^ 64 \<Longrightarrow> \<forall>x \<in> set xs. f x < 2 ^ 64 \<longrightarrow> unat (g x) = f x \<Longrightarrow>
     unat (foldl (\<lambda>n x. saturating_add n (g x :: u64)) n xs) = unat n + sum_list (map f xs)"
proof (induction xs arbitrary: n)
  case (Cons x xs)
  then have "unat (g x) = f x"
    by simp
  moreover from this have "unat (saturating_add n (g x)) = unat n + f x"
    using Cons.prems(1) by (simp add: unat_saturating)
  ultimately show ?case
    using Cons.IH[of "saturating_add n (g x)"] Cons.prems by simp
qed simp

lemma saturating_sum_exact:
  "sum_list (map f xs) < 2 ^ 64 \<Longrightarrow> \<forall>x \<in> set xs. f x < 2 ^ 64 \<longrightarrow> unat (g x) = f x \<Longrightarrow>
     unat (saturating_sum (map g xs)) = sum_list (map f xs)"
  using saturating_foldl[of 0 f xs g] by (simp add: saturating_sum_def foldl_map)

lemma unat_plus_small: "unat a + unat b < 2 ^ 64 \<Longrightarrow> unat (a + b :: u64) = unat a + unat b"
  by (simp add: unat_plus_if_size word_size)

lemma tokens_text_exact: "size_text s < 2 ^ 64 \<Longrightarrow> unat (tokens_text s) = size_text s"
  unfolding tokens_text_def size_text_def by (subst unat_plus_small) (simp_all add: unat_of_small)

lemma tokens_image_exact: "size_image img < 2 ^ 64 \<Longrightarrow> unat (tokens_image img) = size_image img"
  by (auto simp: tokens_image_def size_image_def IMAGE_TOKENS_def unat_of_small split: option.splits)

lemma tokens_part_exact: "size_part jtext p < 2 ^ 64 \<Longrightarrow> unat (tokens_part jtext p) = size_part jtext p"
proof (induction p)
  case (PToolUse k name input)
  then show ?case
    by (simp add: tokens_text_exact unat_plus_small)
next
  case (PToolResult k ps e)
  then show ?case
    by (simp add: saturating_sum_exact)
qed (simp_all add: tokens_text_exact tokens_image_exact)

lemma picture_tokens_exact: "size_pictures p < 2 ^ 64 \<Longrightarrow> unat (picture_tokens_of jtext p) = size_pictures p"
proof (induction p)
  case (PImage img)
  then show ?case
    using unat_saturating[of 0 "tokens_image img"]
    by (simp add: tokens_parts_def saturating_sum_def tokens_image_exact unat_saturating)
next
  case (PToolResult k ps e)
  then show ?case
    by (simp add: saturating_sum_exact)
qed simp_all

lemma size_pictures_le: "size_pictures p \<le> size_part jtext p"
  by (induction p) (auto intro: sum_list_mono)


lemma all_results_length: "length (all_results ms) = sum_list (map count_results ms)"
  by (induction ms) (simp_all add: count_results_def)

lemma elide_after_overflow_recent:
  "drop (length (all_results ms) - 4) (all_results (elide_after_overflow jtext b ms)) = drop (length (all_results ms) - 4) (all_results ms)"
  using messages_from_recent[of "length (all_results ms) - 4" 0 jtext ELIDE_MIN_CHARS ms]
  by (simp add: elide_after_overflow_def elide_old_results_def unwrap_or_def Let_def KEEP_RECENT_AFTER_OVERFLOW_def all_results_length)

lemma estimate_exact:
  assumes "size_system sys + size_messages jtext ms + size_tools jtext tools < 2 ^ 64"
  shows "unat (estimate_tokens jtext sys ms tools) = size_system sys + size_messages jtext ms + size_tools jtext tools"
    and "unat (tokens_blocks sys) = size_system sys"
proof -
  let ?n1 = "foldl (\<lambda>n m. saturating_add n (tokens_parts jtext (msg_parts m))) (tokens_blocks sys) ms"
  show blocks: "unat (tokens_blocks sys) = size_system sys"
    using assms saturating_sum_exact[of "\<lambda>b. size_text (sb_text b)" sys "\<lambda>b. tokens_text (sb_text b)"]
    by (simp add: tokens_blocks_def size_system_def tokens_text_exact)
  have parts: "unat (tokens_parts jtext ps) = sum_list (map (size_part jtext) ps)"
    if "sum_list (map (size_part jtext) ps) < 2 ^ 64" for ps
    using that by (simp add: tokens_parts_def saturating_sum_exact tokens_part_exact)
  have "unat ?n1 = size_system sys + size_messages jtext ms"
    using assms saturating_foldl[of "tokens_blocks sys" "\<lambda>m. sum_list (map (size_part jtext) (msg_parts m))" ms
        "\<lambda>m. tokens_parts jtext (msg_parts m)"]
    by (simp add: parts blocks size_messages_def)
  moreover have "unat (tokens_spec jtext t)
      = size_text (ts_name t) + size_text (ts_description t) + size_text (jtext (ts_input_schema t))"
    if "size_text (ts_name t) + size_text (ts_description t) + size_text (jtext (ts_input_schema t)) < 2 ^ 64" for t
    using that by (simp add: tokens_spec_def unat_plus_small tokens_text_exact)
  ultimately show "unat (estimate_tokens jtext sys ms tools) = size_system sys + size_messages jtext ms + size_tools jtext tools"
    using assms saturating_foldl[of ?n1 "\<lambda>t. size_text (ts_name t) + size_text (ts_description t) + size_text (jtext (ts_input_schema t))"
        tools "tokens_spec jtext"]
    by (simp add: estimate_tokens_def size_tools_def)
qed

lemma pictures_le_messages: "size_message_pictures ms \<le> size_messages jtext ms"
  unfolding size_message_pictures_def size_messages_def by (intro sum_list_mono size_pictures_le)

lemma wire_lengths:
  "length (without_old_images (without_images sees model ms)) = length ms" "length (without_images sees model ms) = length ms"
  using list_all2_lengthD[OF without_images_stand] list_all2_lengthD[OF without_old_images_stand] by metis+

lemma wire_answered:
  assumes "k < length ms" "k < answered_prefix ms 3"
  shows "\<not> list_ex has_image (msg_parts ((wire_messages jtext sees model overflowed ms) ! k))"
  using assms without_old_images_answered[of k "without_images sees model ms"] wire_lengths[of sees model ms]
    elide_after_overflow_image[of k "without_old_images (without_images sees model ms)" jtext overflowed]
    answered_prefix_wire[OF without_images_stand[of ms sees model], of 3]
  by (auto simp: wire_messages_def IMAGE_ROUNDS_KEPT_def)

lemma wire_blind:
  assumes "\<not> sees" "m \<in> set (wire_messages jtext sees model overflowed ms)"
  shows "\<not> list_ex has_image (msg_parts m)"
proof -
  let ?seen = "without_images sees model ms"
  let ?recent = "without_old_images ?seen"
  obtain n where n: "n < length (wire_messages jtext sees model overflowed ms)" "m = (wire_messages jtext sees model overflowed ms) ! n"
    using assms(2) by (metis in_set_conv_nth)
  have same: "?recent = ?seen"
    using assms(1) without_images_blind by (intro without_old_images_blind) auto
  have "n < length ms"
    using n(1) list_all2_lengthD[OF wire_stands] by metis
  then have "\<not> list_ex has_image (msg_parts (?recent ! n))"
    using assms(1) without_images_blind[of "?recent ! n" model ms] wire_lengths[of sees model ms] same by simp
  then show ?thesis
    using elide_after_overflow_image[of n ?recent jtext overflowed] \<open>n < length ms\<close> wire_lengths[of sees model ms] n(2)
    by (auto simp: wire_messages_def)
qed

lemma stands_for_results:
  "list_all2 stands_for ps qs \<Longrightarrow> length (filter is_result qs) = length (filter is_result ps)"
proof (induction rule: list_all2_induct)
  case (Cons p ps q qs)
  have "is_result q = is_result p"
    using Cons(1) by (cases p) auto
  then show ?case
    using Cons by simp
qed simp

lemma wire_for_results: "wire_for ms ns \<Longrightarrow> length (all_results ns) = length (all_results ms)"
  by (induction rule: list_all2_induct) (simp_all add: message_stands_for_def stands_for_results)

lemma wire_recent:
  "drop (length (all_results ms) - 4) (all_results (wire_messages jtext sees model overflowed ms))
     = drop (length (all_results ms) - 4) (all_results (without_old_images (without_images sees model ms)))"
  using wire_for_results[OF wire_for_trans[OF without_images_stand[of ms sees model] without_old_images_stand]]
    elide_after_overflow_recent[of "without_old_images (without_images sees model ms)" jtext overflowed]
  by (simp add: wire_messages_def)

lemma wire_fits: "request_picture_bytes (wire_messages jtext sees model overflowed ms) \<le> 4 * 1024 * 1024"
  using order_trans[OF elide_after_overflow_bytes without_old_images_fit]
  by (simp add: wire_messages_def REQUEST_PICTURE_BYTES_def)


text \<open>
  The estimate of a request is exact where it cannot saturate, and its four shares,
  system text, tools, talk and pictures (also those inside results), add up to it.
\<close>

theorem estimate_shares_add_up:
  assumes "size_system sys + size_messages jtext ms + size_tools jtext tools < 2 ^ 64"
    and "composition jtext sys ms tools = (sy, to, ch, pc)"
  shows "unat (estimate_tokens jtext sys ms tools) = size_system sys + size_messages jtext ms + size_tools jtext tools"
    and "unat (cp_tokens sy) + unat (cp_tokens to) + unat (cp_tokens ch) + unat (cp_tokens pc)
      = unat (estimate_tokens jtext sys ms tools)"
    and "unat (cp_tokens pc) = size_message_pictures ms"
proof -
  have small: "size_system sys + size_messages jtext ms + size_tools jtext tools < 2 ^ 64"
    by (rule assms(1))
  show total: "unat (estimate_tokens jtext sys ms tools) = size_system sys + size_messages jtext ms + size_tools jtext tools"
    by (rule estimate_exact(1)[OF small])
  have tools: "unat (estimate_tokens jtext [] [] tools) = size_tools jtext tools"
    using estimate_exact(1)[of "[]" jtext "[]" tools] small by (simp add: size_system_def size_messages_def)
  have parts: "unat (tokens_parts jtext ps) = sum_list (map (size_part jtext) ps)"
    if "sum_list (map (size_part jtext) ps) < 2 ^ 64" for ps
    using that by (simp add: tokens_parts_def saturating_sum_exact tokens_part_exact)
  have pics: "unat (picture_tokens jtext ps) = sum_list (map size_pictures ps)" if "sum_list (map size_pictures ps) < 2 ^ 64" for ps
    using that by (simp add: picture_tokens_def saturating_sum_exact picture_tokens_exact)
  have chat: "unat (saturating_sum (map (\<lambda>m. tokens_parts jtext (msg_parts m)) ms)) = size_messages jtext ms"
    unfolding size_messages_def by (rule saturating_sum_exact) (use small parts in \<open>simp_all add: size_messages_def\<close>)
  have pict: "unat (saturating_sum (map (\<lambda>m. picture_tokens jtext (msg_parts m)) ms)) = size_message_pictures ms"
    unfolding size_message_pictures_def
    by (rule saturating_sum_exact)
      (use small pics pictures_le_messages[of ms jtext] in \<open>simp_all add: size_message_pictures_def\<close>)
  show "unat (cp_tokens pc) = size_message_pictures ms"
    using assms(2) pict by (auto simp: composition_def Let_def)
  have "unat (cp_tokens ch) = size_messages jtext ms - size_message_pictures ms"
    using assms(2) chat pict by (auto simp: composition_def Let_def saturating_sub_def unat_sub word_le_nat_alt)
  then show "unat (cp_tokens sy) + unat (cp_tokens to) + unat (cp_tokens ch) + unat (cp_tokens pc)
      = unat (estimate_tokens jtext sys ms tools)"
    using assms(2) pict total tools estimate_exact(2)[OF small] pictures_le_messages[of ms jtext]
    by (auto simp: composition_def Let_def)
qed


subsection \<open>Witnesses\<close>

definition sample_picture :: image where
  "sample_picture = \<lparr>img_media_type = ''image/png'', img_data = ''QUJDREVGRw=='', img_width = Some 1500, img_height = Some 10,
     img_path = Some ''/w/a.png''\<rparr>"

definition sample_talk :: "message list" where
  "sample_talk =
     [message_user [PText ''look'', PImage sample_picture], message_assistant [PToolUse ''c'' ''Read'' JNull],
      message_user [PToolResult ''c'' [PImage sample_picture] False], message_assistant [PText ''a''],
      message_user [PText ''go on''], message_assistant [PText ''done'']]"


theorem estimate_shares_add_up_witness:
  "unat (estimate_tokens (\<lambda>_. ''{}'') [\<lparr>sb_text = ''be kind'', sb_cache = True\<rparr>] sample_talk
      [\<lparr>ts_name = ''Read'', ts_description = ''reads a file'', ts_input_schema = JNull\<rparr>]) = 54"
proof -
  let ?sys = "[\<lparr>sb_text = ''be kind'', sb_cache = True\<rparr>]"
  let ?tools = "[\<lparr>ts_name = ''Read'', ts_description = ''reads a file'', ts_input_schema = JNull\<rparr>]"
  have size: "size_system ?sys + size_messages (\<lambda>_. ''{}'') sample_talk + size_tools (\<lambda>_. ''{}'') ?tools = 54"
    by (simp add: size_system_def size_messages_def size_tools_def size_text_def size_image_def ceil_div_def is_ascii_def
        sample_talk_def sample_picture_def message_user_def message_assistant_def)
  obtain a b c d where comp: "composition (\<lambda>_. ''{}'') ?sys sample_talk ?tools = (a, b, c, d)"
    by (rule prod_cases4)
  from estimate_shares_add_up(1)[OF _ comp] show ?thesis
    by (simp only: size) simp
qed

end
