(* ===== verification/Core_Turn.thy ===== *)
theory Core_Turn
  imports Core_Flight Core_Wire Core_Context
begin

text \<open>
  The turn (\<open>bingo-core/src/turn.rs\<close>, \<open>turn/stream.rs\<close>, \<open>turn/compact.rs\<close>,
  \<open>turn/contributors.rs\<close>): round trips of assembling a request, streaming the answer,
  deciding what it means, running its calls and holding the barrier, until one closes
  the turn.

  The state is what \<open>Turn\<close> keeps and changes; everything a round trip awaits (the
  contributors, the chain, the provider, the compactor, the hooks, the round of calls,
  the person's stop) comes in as the records of answers \<open>assembling\<close>, \<open>compacting\<close>,
  \<open>streaming\<close>, \<open>deciding\<close>, \<open>acting\<close>, one set for each round trip.  \<open>None\<close> in them
  is an await the person's stop cut short (\<open>racing\<close>).  The events a turn publishes are
  its log; what a round of calls does to the transcript is the subject of
  \<open>Core_Round\<close> and comes in as the transcript it leaves.
\<close>

section \<open>Configuration and state\<close>

definition INTERRUPTED_MARKER :: string where
  "INTERRUPTED_MARKER = ''[Request interrupted by user]''"

definition CONTINUE_PROMPT :: string where
  "CONTINUE_PROMPT = ''Continue from where you left off.''"

definition KERNEL_SURFACE :: string where
  "KERNEL_SURFACE = ''kernel''"

definition MAX_LENGTH_RECOVERIES :: u32 where
  "MAX_LENGTH_RECOVERIES = 3"

definition MAX_THRESHOLD_COMPACTIONS :: u32 where
  "MAX_THRESHOLD_COMPACTIONS = 2"

record model_request =
  mq_model :: string
  mq_max_tokens :: u32
  mq_system :: "system_block list"
  mq_messages :: "message list"
  mq_tools :: "tool_spec list"
  mq_reasoning :: "effort option"
  mq_session :: "session_id option"

record turn_config =
  tg_session :: session_id
  tg_turn :: turn_id
  tg_model :: string
  tg_provider :: string
  tg_max_tokens :: u32
  tg_reasoning :: "effort option"
  tg_sees :: bool
  tg_counts :: bool
  tg_system :: "system_block list"
  tg_specs :: "tool_spec list"
  tg_tools :: "gate_tool list"
  tg_has_compactor :: bool
  tg_budget :: turn_budget
  tg_json :: "json \<Rightarrow> string"
  tg_mint :: "nat \<Rightarrow> item_id \<times> timestamp"

text \<open>\<open>tn_minted\<close> counts the items the turn minted; breaker and learned windows are the session's and the host's.\<close>

record turn_state =
  tn_transcript :: transcript
  tn_round :: u32
  tn_retries :: u32
  tn_recoveries :: u32
  tn_empty_retry_used :: bool
  tn_overflow_compacted :: bool
  tn_threshold_compactions :: u32
  tn_ruler :: ruler
  tn_breaker :: breaker
  tn_learned :: learned
  tn_minted :: nat
  tn_log :: "event list"

datatype turn_step = Assembling | Closing turn_status

section \<open>Publishing\<close>

text \<open>\<open>emit_and_fold\<close>; a charge goes to the host alone.\<close>

definition turn_emit :: "event \<Rightarrow> turn_state \<Rightarrow> turn_state" where
  "turn_emit e tn = tn\<lparr>tn_transcript := folded e (tn_transcript tn), tn_log := tn_log tn @ [e]\<rparr>"

definition turn_record :: "turn_config \<Rightarrow> item_body \<Rightarrow> turn_state \<Rightarrow> item_id \<times> turn_state" where
  "turn_record cfg body tn =
     (case tg_mint cfg (tn_minted tn) of
        (k, at) \<Rightarrow>
          (k, turn_emit (EvItemCompleted (minted_item k at (tg_turn cfg) (tn_round tn) body StCompleted))
                (tn\<lparr>tn_minted := Suc (tn_minted tn)\<rparr>)))"

definition turn_note :: "turn_config \<Rightarrow> item_body \<Rightarrow> turn_state \<Rightarrow> turn_state" where
  "turn_note cfg body tn = snd (turn_record cfg body tn)"

text \<open>What the chain reported: notices, all of them (\<open>Report::notice\<close>, \<open>Report::receipt\<close>).\<close>

type_synonym reported = "(level \<times> string \<times> string) list"

definition turn_report :: "turn_config \<Rightarrow> reported \<Rightarrow> turn_state \<Rightarrow> turn_state" where
  "turn_report cfg notices tn = foldl (\<lambda>tn (lv, code, txt). turn_note cfg (BNotice lv code txt) tn) tn notices"

definition turn_warn :: "string \<Rightarrow> string \<Rightarrow> turn_state \<Rightarrow> turn_state" where
  "turn_warn code txt tn = turn_emit (EvNotice LvWarn code txt) tn"

definition user_piece :: "turn_config \<Rightarrow> content_part list \<Rightarrow> string \<Rightarrow> turn_state \<Rightarrow> turn_state" where
  "user_piece cfg parts surface tn =
     turn_note cfg (BUser parts \<lparr>or_render_surface = None, or_voice = Some Quiet, or_surface = surface, or_principal = None,
       or_conversation = None\<rparr>) tn"

definition turn_charge :: "turn_config \<Rightarrow> string \<Rightarrow> usage \<Rightarrow> turn_state \<Rightarrow> turn_state" where
  "turn_charge cfg plugin u tn =
     (if u \<noteq> usage_default then tn\<lparr>tn_log := tn_log tn @ [EvUsageCharged (Some (tg_turn cfg)) plugin u]\<rparr> else tn)"

text \<open>The marker, with when the person asked for the stop.\<close>

definition interrupted_status :: "turn_config \<Rightarrow> timestamp option \<Rightarrow> turn_state \<Rightarrow> turn_status \<times> turn_state" where
  "interrupted_status cfg ask tn =
     (TsInterrupted IrUserCancel, turn_note cfg (BInterruption INTERRUPTED_MARKER ask) tn)"

definition turn_interrupted :: "turn_config \<Rightarrow> timestamp option \<Rightarrow> turn_state \<Rightarrow> turn_step \<times> turn_state" where
  "turn_interrupted cfg ask tn = (case interrupted_status cfg ask tn of (st, tn') \<Rightarrow> (Closing st, tn'))"

section \<open>Contributors\<close>

datatype context_placement = PlSystem int | PlRoundStart | PlBarrier

datatype context_piece = PieceSystem system_block | PieceUser "content_part list"

record contributor =
  cn_id :: string
  cn_placement :: context_placement
  cn_says :: "string + context_piece list"

record gathered =
  gh_system :: "system_block list"
  gh_user :: "(string \<times> content_part list) list"
  gh_failed :: "(string \<times> string) list"

definition order_of :: "context_placement \<Rightarrow> int" where
  "order_of p = (case p of PlSystem n \<Rightarrow> n | _ \<Rightarrow> 0)"

fun absorb_pieces :: "string \<Rightarrow> context_piece list \<Rightarrow> gathered \<Rightarrow> gathered" where
  "absorb_pieces k [] g = g"
| "absorb_pieces k (p # ps) g =
     absorb_pieces k ps
       (case p of
          PieceSystem b \<Rightarrow> g\<lparr>gh_system := gh_system g @ [b]\<rparr>
        | PieceUser parts \<Rightarrow> g\<lparr>gh_user := gh_user g @ [(CONTRIBUTOR_PREFIX @ k, parts)]\<rparr>)"

definition gather :: "(context_placement \<Rightarrow> bool) \<Rightarrow> contributor list \<Rightarrow> gathered" where
  "gather want cs =
     foldl (\<lambda>g c. case cn_says c of
          Inr pieces \<Rightarrow> absorb_pieces (cn_id c) pieces g
        | Inl e \<Rightarrow> g\<lparr>gh_failed := gh_failed g @ [(cn_id c, e)]\<rparr>)
       \<lparr>gh_system = [], gh_user = [], gh_failed = []\<rparr>
       (sort_key (\<lambda>c. order_of (cn_placement c)) (filter (\<lambda>c. want (cn_placement c)) cs))"

text \<open>\<open>contribute\<close>: the failures are warned of, the user pieces recorded, the system blocks handed back.\<close>

definition contribute ::
  "turn_config \<Rightarrow> (context_placement \<Rightarrow> bool) \<Rightarrow> contributor list option \<Rightarrow> turn_state \<Rightarrow> system_block list option \<times> turn_state" where
  "contribute cfg want speak tn =
     (case speak of
        None \<Rightarrow> (None, tn)
      | Some cs \<Rightarrow>
          (let g = gather want cs;
               tn1 = foldl (\<lambda>tn (k, e). turn_warn ''CONTRIBUTOR_FAILED'' (k @ '': '' @ e) tn) tn (gh_failed g);
               tn2 = foldl (\<lambda>tn (label, parts). user_piece cfg parts label tn) tn1 (gh_user g)
           in (Some (gh_system g), tn2)))"

definition at_start :: "context_placement \<Rightarrow> bool" where
  "at_start p = (case p of PlSystem _ \<Rightarrow> True | PlRoundStart \<Rightarrow> True | PlBarrier \<Rightarrow> False)"

section \<open>Measuring\<close>

definition measure_context ::
  "turn_config \<Rightarrow> system_block list \<Rightarrow> message list \<Rightarrow> tool_spec list \<Rightarrow> turn_state \<Rightarrow> context_usage \<times> turn_state" where
  "measure_context cfg sys msgs specs tn =
     (case ruler_measure (estimate_tokens (tg_json cfg) sys msgs specs) (tn_ruler tn) of
        (u, r) \<Rightarrow>
          ((if ruler_holds r then u else u\<lparr>cu_parts := Some (composition (tg_json cfg) sys msgs specs)\<rparr>),
           tn\<lparr>tn_ruler := r\<rparr>))"

definition measure_request :: "turn_config \<Rightarrow> model_request \<Rightarrow> turn_state \<Rightarrow> context_usage \<times> turn_state" where
  "measure_request cfg q tn = measure_context cfg (mq_system q) (mq_messages q) (mq_tools q) tn"

definition warn_once :: "context_usage \<Rightarrow> turn_state \<Rightarrow> turn_state" where
  "warn_once u tn =
     (case ruler_warning u (tn_ruler tn) of
        (txt, r) \<Rightarrow>
          (let tn1 = tn\<lparr>tn_ruler := r\<rparr> in
           case txt of Some t \<Rightarrow> turn_warn ''CONTEXT_WARNING'' t tn1 | None \<Rightarrow> tn1))"

section \<open>Assembling\<close>

definition PROMPT_COMPOSE :: entry where
  "PROMPT_COMPOSE = \<lparr>en_name = ''prompt.compose'', en_acts = WRAP\<rparr>"

definition compose_point :: "(model_request, model_request) point" where
  "compose_point =
     \<lparr>pt_entry = PROMPT_COMPOSE, pt_same_input = (=), pt_same_output = (=), pt_pinned = (\<lambda>_ _. True),
      pt_accepts = accepts_by_tier PROMPT_COMPOSE (=), pt_needs_baseline = (\<lambda>_ _. False), pt_tool = (\<lambda>_. None)\<rparr>"

text \<open>
  What the chain does at \<open>prompt.compose\<close>: the request it hands to the kernel, if it does,
  and what it makes of the kernel's answer.
\<close>

record assembling =
  as_described :: "kernel_error + tool_spec list"
  as_handed :: "model_request \<Rightarrow> model_request option"
  as_speak :: "contributor list option"
  as_answer :: "(kernel_error + model_request) option \<Rightarrow> kernel_error + model_request"
  as_reported :: reported
  as_count :: "(string + u64) option"

definition compose_request ::
  "turn_config \<Rightarrow> contributor list option \<Rightarrow> model_request \<Rightarrow> turn_state \<Rightarrow> (kernel_error + model_request) \<times> turn_state" where
  "compose_request cfg speak q tn =
     (let tn1 = snd (measure_request cfg q tn);
          original = model_view (tg_json cfg) (tn_transcript tn1)
      in case contribute cfg at_start speak tn1 of
           (None, tn2) \<Rightarrow> (Inl (kernel_error_new ErrInterrupted ''composition interrupted''), tn2)
         | (Some extra, tn2) \<Rightarrow>
             (let msgs = (if mq_messages q = original then model_view (tg_json cfg) (tn_transcript tn2) else mq_messages q)
              in (Inr (q\<lparr>mq_system := mq_system q @ extra,
                         mq_messages := wire_messages (tg_json cfg) (tg_sees cfg) (tg_model cfg) (tn_overflow_compacted tn2) msgs\<rparr>),
                  tn2)))"

definition recount :: "turn_config \<Rightarrow> (string + u64) option \<Rightarrow> turn_state \<Rightarrow> turn_state option" where
  "recount cfg counted tn =
     (if \<not> tg_counts cfg \<or> \<not> ruler_recount_due (tn_ruler tn) then Some tn
      else case counted of
             None \<Rightarrow> None
           | Some (Inr n) \<Rightarrow> Some (tn\<lparr>tn_ruler := ruler_counted n (tn_ruler tn)\<rparr>)
           | Some (Inl _) \<Rightarrow> Some tn)"

definition assemble_request ::
  "turn_config \<Rightarrow> assembling \<Rightarrow> turn_state \<Rightarrow> (model_request \<times> context_usage) option \<times> turn_state" where
  "assemble_request cfg a tn =
     (case as_described a of
        Inl _ \<Rightarrow> (None, tn)
      | Inr specs \<Rightarrow>
          (let q = \<lparr>mq_model = tg_model cfg, mq_max_tokens = tg_max_tokens cfg, mq_system = tg_system cfg,
                 mq_messages = model_view (tg_json cfg) (tn_transcript tn), mq_tools = specs,
                 mq_reasoning = tg_reasoning cfg, mq_session = Some (tg_session cfg)\<rparr>;
               (given, tn1) = (case as_handed a q of
                  None \<Rightarrow> (None, tn)
                | Some q1 \<Rightarrow> (case compose_request cfg (as_speak a) q1 tn of (r, tn') \<Rightarrow> (Some r, tn')));
               tn2 = turn_report cfg (as_reported a) tn1
           in case as_answer a given of
                Inl _ \<Rightarrow> (None, tn2)
              | Inr q2 \<Rightarrow>
                  (case measure_request cfg q2 tn2 of
                     (u, tn3) \<Rightarrow>
                       (case recount cfg (as_count a) tn3 of
                          None \<Rightarrow> (None, tn3)
                        | Some tn4 \<Rightarrow>
                            (let u1 = ruler_anchored (tn_ruler tn4) u
                             in (Some (q2, u1), warn_once u1 tn4))))))"

section \<open>Compacting\<close>

record compaction =
  cz_summary :: string
  cz_boundary :: item_id
  cz_kept :: "item_id list"
  cz_before :: u64
  cz_after :: u64
  cz_usage :: usage

text \<open>
  \<open>cq_started\<close>: the hooks of the start were not cut short; \<open>cq_stopped\<close>: the turn was
  stopped by the time the strategy answered, which it did with a cut or an error and
  what that cost.
\<close>

record compacting =
  cq_started :: bool
  cq_answer :: "(kernel_error \<times> usage) + compaction"
  cq_reported :: reported
  cq_stopped :: bool
  cq_took :: u64

definition kernel_error_text :: "kernel_error \<Rightarrow> string" where
  "kernel_error_text e = ''['' @ error_code_as_str (ke_code e) @ ''] '' @ ke_message e"

definition absorb_compaction :: "turn_config \<Rightarrow> compaction \<Rightarrow> u64 \<Rightarrow> turn_state \<Rightarrow> turn_state" where
  "absorb_compaction cfg c took tn =
     (let replaced = length (filter (\<lambda>i. it_id i \<notin> set (cz_kept c))
            (takeWhile (\<lambda>i. it_id i \<noteq> cz_boundary c) (model_items (tn_transcript tn))));
          (summary, tn1) = turn_record cfg (BCompaction \<lparr>co_summary = cz_summary c, co_replaced = of_nat replaced,
            co_before = cz_before c, co_after = cz_after c, co_duration_ms = took,
            co_window = Some (th_effective (ru_lines (tn_ruler tn)))\<rparr>) tn
      in turn_emit (EvCompacted (tr_generation (tn_transcript tn1) + 1) (cz_boundary c) summary (cz_kept c)) tn1)"

definition turn_compact :: "turn_config \<Rightarrow> compacting \<Rightarrow> turn_state \<Rightarrow> bool \<times> turn_state" where
  "turn_compact cfg q tn =
     (if \<not> cq_started q then (False, tn)
      else let tn1 = turn_report cfg (cq_reported q) tn in
        case cq_answer q of
          Inr c \<Rightarrow>
            (let tn2 = turn_charge cfg ''core'' (cz_usage c) tn1 in
             if cz_after c < cz_before c \<and> \<not> cq_stopped q
             then (let tn3 = absorb_compaction cfg c (cq_took q) (tn2\<lparr>tn_breaker := breaker_succeeded (tn_breaker tn2)\<rparr>)
                   in (True, tn3\<lparr>tn_ruler := ruler_forget (tn_ruler tn3)\<rparr>))
             else (let failures = breaker_failed (tn_breaker tn2)
                   in (False, turn_warn ''COMPACTION_USELESS''
                        (''the summary would not shrink the context ('' @ show_nat (unat (cz_before c)) @ '' '' @ [CHR 0xE2, CHR 0x86, CHR 0x92] @ '' ''
                          @ show_nat (unat (cz_after c)) @ '' tokens); discarded, '' @ show_nat (unat failures) @ '' in a row'')
                        (tn2\<lparr>tn_breaker := failures\<rparr>))))
        | Inl (e, u) \<Rightarrow>
            (let tn2 = turn_charge cfg ''core'' u tn1
             in (False, turn_warn ''COMPACTION_FAILED'' (kernel_error_text e)
                  (tn2\<lparr>tn_breaker := breaker_failed (tn_breaker tn2)\<rparr>))))"

definition try_compact :: "turn_config \<Rightarrow> compacting \<Rightarrow> turn_state \<Rightarrow> bool \<times> turn_state" where
  "try_compact cfg q tn =
     (if \<not> tg_has_compactor cfg then (False, tn)
      else if tn_threshold_compactions tn \<ge> MAX_THRESHOLD_COMPACTIONS
      then (False, turn_warn ''COMPACTION_SKIPPED''
        ''automatic compaction limit reached for this turn; continuing without another summary'' tn)
      else if breaker_tripped (tn_breaker tn)
      then (False, turn_warn ''COMPACTION_SKIPPED''
        (''no summary: the last '' @ show_nat (unat BREAKER_TRIP) @ '' bought nothing; the turn goes on uncompacted'') tn)
      else turn_compact cfg q (tn\<lparr>tn_threshold_compactions := tn_threshold_compactions tn + 1\<rparr>))"

datatype assembled = AsRequest model_request context_usage | AsCompacted

definition assemble ::
  "turn_config \<Rightarrow> assembling \<Rightarrow> compacting \<Rightarrow> turn_state \<Rightarrow> assembled option \<times> turn_state" where
  "assemble cfg a q tn =
     (case assemble_request cfg a tn of
        (None, tn1) \<Rightarrow> (None, tn1)
      | (Some (request, u), tn1) \<Rightarrow>
          if \<not> ruler_holds (tn_ruler tn1) \<and> cu_used u \<ge> th_trigger (ru_lines (tn_ruler tn1)) \<and> tn_round tn1 = 0
          then (case try_compact cfg q tn1 of
                  (True, tn2) \<Rightarrow> (Some AsCompacted, tn2)
                | (False, tn2) \<Rightarrow> (Some (AsRequest request u), tn2))
          else (Some (AsRequest request u), tn1))"


section \<open>Streaming\<close>

datatype streamed =
    StrDone finished
  | StrFailed provider_error "item_id list"
  | StrCancelled

text \<open>
  \<open>sg_established\<close>: how establishing the request came out, the events of the stream with
  it; \<open>sg_error\<close>: the error the stream ended with, if it did; \<open>sg_stopped\<close>: whether the
  turn was stopped before its end was read.
\<close>

record streaming =
  sg_env :: stream_env
  sg_reported :: reported
  sg_established :: "(kernel_error + provider_error + model_event list) option"
  sg_error :: "provider_error option"
  sg_stopped :: bool

definition publish_all :: "turn_config \<Rightarrow> emit list \<Rightarrow> turn_state \<Rightarrow> turn_state" where
  "publish_all cfg ems tn = foldl (\<lambda>tn em. turn_emit (emit_event (tg_tools cfg) em) tn) tn ems"

definition turn_stream :: "turn_config \<Rightarrow> streaming \<Rightarrow> turn_state \<Rightarrow> streamed \<times> turn_state" where
  "turn_stream cfg g tn =
     (let tn1 = turn_report cfg (sg_reported g) tn in
      case sg_established g of
        None \<Rightarrow> (StrCancelled, tn1)
      | Some (Inl e) \<Rightarrow> (StrFailed (PeRequest (ke_message e)) [], tn1)
      | Some (Inr (Inl e)) \<Rightarrow> (StrFailed e [], tn1)
      | Some (Inr (Inr events)) \<Rightarrow>
          (let (ems, acc) = acc_pushes (sg_env g) events (accumulator_new (tg_turn cfg) (tn_round tn1) 0 0);
               tn2 = publish_all cfg ems tn1;
               dropped = item_ids acc;
               (ends, fin) = acc_finish (sg_env g) (sg_stopped g) acc;
               tn3 = publish_all cfg ends tn2
           in if sg_stopped g then (StrCancelled, tn3)
              else case (case sg_error g of Some e \<Rightarrow> Some e | None \<Rightarrow> fi_error fin) of
                     Some e \<Rightarrow> (StrFailed e dropped, tn3)
                   | None \<Rightarrow>
                       if fi_finish_reason fin = None
                       then (StrFailed (PeStream ''the stream ended without a finish'') dropped, tn3)
                       else (StrDone fin, tn3)))"

definition learn_window :: "turn_config \<Rightarrow> string \<Rightarrow> turn_state \<Rightarrow> turn_state" where
  "learn_window cfg message tn =
     (case window_from_overflow message of
        None \<Rightarrow> tn
      | Some w \<Rightarrow>
          (case learned_record (tg_provider cfg) (tg_model cfg) w (tn_learned tn) of
             (learnt, m) \<Rightarrow>
               (let tn1 = tn\<lparr>tn_learned := m\<rparr> in
                if learnt
                then turn_emit (EvNotice LvInfo ''WINDOW_LEARNED'' (tg_provider cfg @ ''/'' @ tg_model cfg @ '' takes ''
                       @ show_nat (unat w) @ '' tokens of context; later sessions measure against it'')) tn1
                else tn1)))"

definition announce_retry :: "turn_config \<Rightarrow> provider_error \<Rightarrow> item_id list \<Rightarrow> u64 \<Rightarrow> turn_state \<Rightarrow> turn_state" where
  "announce_retry cfg e dropped delay tn =
     turn_emit (EvTurnRetrying (tg_turn cfg) (tn_retries tn) (tb_max_retries (tg_budget cfg)) delay dropped (provider_error_text e)) tn"

text \<open>\<open>waited\<close>: the wait before the retry was not cut short.\<close>

definition retried_or_failed ::
  "turn_config \<Rightarrow> bool \<Rightarrow> timestamp option \<Rightarrow> provider_error \<Rightarrow> item_id list \<Rightarrow> turn_state \<Rightarrow> turn_step \<times> turn_state" where
  "retried_or_failed cfg waited ask e dropped tn =
     (if retryable e \<and> tn_retries tn < tb_max_retries (tg_budget cfg)
      then (let tn1 = tn\<lparr>tn_retries := tn_retries tn + 1\<rparr>;
                tn2 = announce_retry cfg e dropped (backoff (tn_retries tn1) (retry_after_ms e)) tn1
            in if waited then (Assembling, tn2) else turn_interrupted cfg ask tn2)
      else (Closing (TsFailed (kernel_error_new (provider_error_code e) (provider_error_text e))), tn))"

definition failed_stream ::
  "turn_config \<Rightarrow> bool \<Rightarrow> timestamp option \<Rightarrow> compacting \<Rightarrow> provider_error \<Rightarrow> item_id list \<Rightarrow> turn_state \<Rightarrow>
   turn_step \<times> turn_state" where
  "failed_stream cfg waited ask q e dropped tn =
     (if ruler_holds (tn_ruler tn) then retried_or_failed cfg waited ask e dropped tn
      else case e of
             PeContextOverflow message \<Rightarrow>
               (let tn1 = learn_window cfg message tn in
                if \<not> tn_overflow_compacted tn1
                then (let tn2 = announce_retry cfg e dropped 0 (tn1\<lparr>tn_overflow_compacted := True\<rparr>)
                      in (Assembling, if tg_has_compactor cfg then snd (turn_compact cfg q tn2) else tn2))
                else retried_or_failed cfg waited ask e dropped tn1)
           | _ \<Rightarrow> retried_or_failed cfg waited ask e dropped tn)"

section \<open>Accounting and deciding\<close>

definition measured :: "finished \<Rightarrow> context_usage \<Rightarrow> turn_state \<Rightarrow> context_usage \<times> turn_state" where
  "measured fin u tn =
     (if ruler_holds (tn_ruler tn)
      then (case fi_context fin of
              Some (used, win) \<Rightarrow> (case ruler_reading used win (tn_ruler tn) of (u', r) \<Rightarrow> (u', tn\<lparr>tn_ruler := r\<rparr>))
            | None \<Rightarrow> (u, tn))
      else (u\<lparr>cu_used := max (input_total (fi_usage fin)) (cu_used u)\<rparr>,
            tn\<lparr>tn_ruler := ruler_responded (input_total (fi_usage fin)) (tn_ruler tn)\<rparr>))"

definition turn_account :: "turn_config \<Rightarrow> finished \<Rightarrow> context_usage \<Rightarrow> turn_state \<Rightarrow> turn_state" where
  "turn_account cfg fin u tn =
     (case measured fin u tn of (c, tn1) \<Rightarrow> turn_emit (EvTurnUsage (tg_turn cfg) (fi_usage fin) c) tn1)"

datatype stop_result = StopComplete | StopContinue string string

record deciding =
  dg_host_stopped :: bool
  dg_stop :: "(kernel_error + stop_result) option"
  dg_reported :: reported

definition stop_hooks ::
  "turn_config \<Rightarrow> timestamp option \<Rightarrow> deciding \<Rightarrow> turn_state \<Rightarrow> turn_step \<times> turn_state" where
  "stop_hooks cfg ask d tn =
     (let tn1 = turn_report cfg (dg_reported d) tn in
      case dg_stop d of
        Some (Inr (StopContinue og why)) \<Rightarrow>
          (let tn2 = user_piece cfg [PText why] og tn1 in (Assembling, tn2\<lparr>tn_round := tn_round tn2 + 1\<rparr>))
      | Some (Inr StopComplete) \<Rightarrow> (Closing TsCompleted, tn1)
      | Some (Inl e) \<Rightarrow> (Closing (TsFailed e), tn1)
      | None \<Rightarrow> turn_interrupted cfg ask tn1)"

definition turn_decide ::
  "turn_config \<Rightarrow> timestamp option \<Rightarrow> deciding \<Rightarrow> finished \<Rightarrow> turn_state \<Rightarrow> turn_step option \<times> turn_state" where
  "turn_decide cfg ask d fin tn =
     (if dg_host_stopped d \<and> fi_tool_calls fin = [] then (Some (Closing TsCompleted), tn)
      else if fi_items fin = []
      then (if \<not> tn_empty_retry_used tn then (Some Assembling, tn\<lparr>tn_empty_retry_used := True\<rparr>)
            else (Some (Closing TsCompleted), tn))
      else if fi_tool_calls fin \<noteq> [] then (None, tn)
      else if map_option fr_unified (fi_finish_reason fin) = Some FinLength \<and> tn_recoveries tn < MAX_LENGTH_RECOVERIES
      then (let tn1 = user_piece cfg [PText CONTINUE_PROMPT] KERNEL_SURFACE (tn\<lparr>tn_recoveries := tn_recoveries tn + 1\<rparr>)
            in (Some Assembling, tn1\<lparr>tn_round := tn_round tn1 + 1\<rparr>))
      else (case stop_hooks cfg ask d tn of (st, tn1) \<Rightarrow> (Some st, tn1)))"

section \<open>Acting\<close>

text \<open>
  \<open>ag_after\<close>: the transcript as the round of calls left it; \<open>ag_stop_after\<close>: a hook after
  the tools blocked; \<open>ag_steering\<close>: what was queued meanwhile.
\<close>

record acting =
  ag_after :: transcript
  ag_stop_after :: bool
  ag_stopped :: bool
  ag_host_stopped :: bool
  ag_steering :: "input list option"
  ag_speak :: "contributor list option"

text \<open>An item of the steering is minted with the turn's next id.\<close>

fun record_steering :: "turn_config \<Rightarrow> input list \<Rightarrow> turn_state \<Rightarrow> turn_state" where
  "record_steering cfg [] tn = tn"
| "record_steering cfg (i # is) tn =
     (case tg_mint cfg (tn_minted tn) of
        (k, at) \<Rightarrow>
          record_steering cfg is
            (case user_item i (\<lambda>body. minted_item k at (tg_turn cfg) (tn_round tn) body StCompleted) of
               Some item \<Rightarrow> turn_emit (EvItemCompleted item) (tn\<lparr>tn_minted := Suc (tn_minted tn)\<rparr>)
             | None \<Rightarrow> tn))"

definition turn_barrier :: "turn_config \<Rightarrow> acting \<Rightarrow> turn_state \<Rightarrow> bool \<times> turn_state" where
  "turn_barrier cfg a tn =
     (case ag_steering a of
        None \<Rightarrow> (False, tn)
      | Some is \<Rightarrow>
          (let tn1 = record_steering cfg is tn;
               tn2 = snd (measure_context cfg (tg_system cfg) (model_view (tg_json cfg) (tn_transcript tn1)) (tg_specs cfg) tn1)
           in case contribute cfg (\<lambda>p. p = PlBarrier) (ag_speak a) tn2 of (r, tn3) \<Rightarrow> (r \<noteq> None, tn3)))"

definition turn_act ::
  "turn_config \<Rightarrow> timestamp option \<Rightarrow> acting \<Rightarrow> turn_state \<Rightarrow> turn_step \<times> turn_state" where
  "turn_act cfg ask a tn =
     (let tn1 = tn\<lparr>tn_transcript := ag_after a\<rparr> in
      if ag_stopped a then turn_interrupted cfg ask tn1
      else if ag_stop_after a \<or> ag_host_stopped a then (Closing TsCompleted, tn1)
      else case turn_barrier cfg a tn1 of
             (True, tn2) \<Rightarrow> (Assembling, tn2\<lparr>tn_round := tn_round tn2 + 1\<rparr>)
           | (False, tn2) \<Rightarrow> turn_interrupted cfg ask tn2)"

section \<open>Round trips\<close>

record trip =
  tp_stopped :: bool
  tp_ask :: "timestamp option"
  tp_assembling :: assembling
  tp_threshold :: compacting
  tp_streaming :: streaming
  tp_waited :: bool
  tp_overflow :: compacting
  tp_deciding :: deciding
  tp_acting :: acting

definition round_trip :: "turn_config \<Rightarrow> trip \<Rightarrow> turn_state \<Rightarrow> turn_step \<times> turn_state" where
  "round_trip cfg t tn =
     (if tp_stopped t then turn_interrupted cfg (tp_ask t) tn
      else if budget_spent (tg_budget cfg) (tn_round tn)
      then (Closing (TsFailed (kernel_error_new ErrTurnBudgetExhausted (show_nat (unat (tn_round tn)) @ '' rounds''))), tn)
      else case assemble cfg (tp_assembling t) (tp_threshold t) tn of
        (None, tn1) \<Rightarrow> turn_interrupted cfg (tp_ask t) tn1
      | (Some AsCompacted, tn1) \<Rightarrow> (Assembling, tn1)
      | (Some (AsRequest request u), tn1) \<Rightarrow>
          (case turn_stream cfg (tp_streaming t) tn1 of
             (StrCancelled, tn2) \<Rightarrow> turn_interrupted cfg (tp_ask t) tn2
           | (StrFailed e dropped, tn2) \<Rightarrow> failed_stream cfg (tp_waited t) (tp_ask t) (tp_overflow t) e dropped tn2
           | (StrDone fin, tn2) \<Rightarrow>
               (case turn_decide cfg (tp_ask t) (tp_deciding t) fin (turn_account cfg fin u tn2) of
                  (Some st, tn3) \<Rightarrow> (st, tn3)
                | (None, tn3) \<Rightarrow> turn_act cfg (tp_ask t) (tp_acting t) tn3)))"

text \<open>\<open>respond\<close>: \<open>None\<close> when the trips given are used up before one closes the turn.\<close>

fun respond :: "turn_config \<Rightarrow> trip list \<Rightarrow> turn_state \<Rightarrow> (turn_status \<times> turn_state) option" where
  "respond cfg [] tn = None"
| "respond cfg (t # ts) tn =
     (case round_trip cfg t tn of
        (Closing st, tn1) \<Rightarrow> Some (st, tn1)
      | (Assembling, tn1) \<Rightarrow> respond cfg ts tn1)"

text \<open>\<open>compact::run\<close>, a turn that only makes room.\<close>

definition measure_compacted :: "turn_config \<Rightarrow> model_request \<Rightarrow> turn_state \<Rightarrow> turn_state" where
  "measure_compacted cfg q tn =
     (case measure_context cfg (mq_system q) (model_view (tg_json cfg) (tn_transcript tn)) (mq_tools q) tn of
        (u, tn1) \<Rightarrow> turn_emit (EvTurnUsage (tg_turn cfg) usage_default u) tn1)"

definition compact_run ::
  "turn_config \<Rightarrow> timestamp option \<Rightarrow> assembling \<Rightarrow> compacting \<Rightarrow> turn_state \<Rightarrow> turn_status \<times> turn_state" where
  "compact_run cfg ask a q tn =
     (if \<not> tg_has_compactor cfg
      then (TsFailed (kernel_error_new ErrInvalidInput ''no compaction strategy is registered''), tn)
      else case assemble_request cfg a tn of
             (None, tn1) \<Rightarrow> interrupted_status cfg ask tn1
           | (Some (request, u), tn1) \<Rightarrow>
               (case turn_compact cfg q tn1 of
                  (did, tn2) \<Rightarrow>
                    if cq_stopped q then interrupted_status cfg ask tn2
                    else (TsCompleted, if did then measure_compacted cfg request tn2 else tn2)))"


section \<open>The whole turn\<close>

datatype turn_kind = KindRespond "trip list" | KindCompact assembling compacting

text \<open>
  \<open>ts_answers\<close>: the session has a model at all; \<open>ts_gathered\<close>: hooks, tools and contributors were gathered, with the names of the tools a
  second one of the same name shadowed; \<open>ts_started\<close>: the hooks of the start were not cut
  short.  An endpoint that is an agent itself is not modelled.
\<close>

record turn_start =
  ts_hooks :: bool
  ts_answers :: bool
  ts_gathered :: "string list option"
  ts_started :: bool
  ts_ask :: "timestamp option"
  ts_window :: u64
  ts_holds :: bool

definition turn_new :: "turn_config \<Rightarrow> turn_start \<Rightarrow> transcript \<Rightarrow> breaker \<Rightarrow> learned \<Rightarrow> turn_state" where
  "turn_new cfg s t b m =
     \<lparr>tn_transcript = t, tn_round = 0, tn_retries = 0, tn_recoveries = 0, tn_empty_retry_used = False,
      tn_overflow_compacted = False, tn_threshold_compactions = 0,
      tn_ruler = ruler_new (ts_window s) (tg_max_tokens cfg) (ts_holds s), tn_breaker = b, tn_learned = m,
      tn_minted = 0, tn_log = []\<rparr>"

definition warn_shadowed :: "string list \<Rightarrow> turn_state \<Rightarrow> turn_state" where
  "warn_shadowed names tn =
     foldl (\<lambda>tn name. turn_warn ''TOOL_SHADOWED'' (''a second tool called '' @ name @ '' was dropped'') tn) tn names"

definition unanswered :: turn_status where
  "unanswered = TsFailed (kernel_error_new ErrInvalidInput ''this session answers nothing'')"

text \<open>\<open>stopped_early\<close> is \<open>interrupted_status\<close> of a turn that has not begun.\<close>

definition run_turn ::
  "turn_config \<Rightarrow> turn_start \<Rightarrow> turn_kind \<Rightarrow> transcript \<Rightarrow> breaker \<Rightarrow> learned \<Rightarrow> (turn_status \<times> turn_state) option" where
  "run_turn cfg s kind t b m =
     (let tn = turn_new cfg s t b m in
      if \<not> ts_hooks s then Some (interrupted_status cfg (ts_ask s) tn)
      else if \<not> ts_answers s then Some (unanswered, tn)
      else case ts_gathered s of
             None \<Rightarrow> Some (interrupted_status cfg (ts_ask s) tn)
           | Some shadowed \<Rightarrow>
               (let tn1 = warn_shadowed shadowed tn
                in if \<not> ts_started s then Some (interrupted_status cfg (ts_ask s) tn1)
                   else case kind of
                          KindRespond trips \<Rightarrow> respond cfg trips tn1
                        | KindCompact a q \<Rightarrow> Some (compact_run cfg (ts_ask s) a q tn1)))"

end
