(* ===== verification/Core_Trip.thy ===== *)
theory Core_Trip
  imports Core_Turn
begin

text \<open>
  What a turn comes to: it is bounded by its budget, one stop leaves one marker wherever
  it arrives, and what a retry withdraws is gone.
\<close>

section \<open>What leaves the counters and the markers alone\<close>

definition counters :: "turn_state \<Rightarrow> u32 \<times> u32 \<times> u32 \<times> bool \<times> bool \<times> u32" where
  "counters tn = (tn_round tn, tn_retries tn, tn_recoveries tn, tn_empty_retry_used tn, tn_overflow_compacted tn,
     tn_threshold_compactions tn)"

definition is_marker :: "item_body \<Rightarrow> bool" where
  "is_marker b = (case b of BInterruption _ _ \<Rightarrow> True | _ \<Rightarrow> False)"

definition marks :: "event \<Rightarrow> bool" where
  "marks e = (case e of EvItemCompleted i \<Rightarrow> is_marker (it_body i) | _ \<Rightarrow> False)"

definition unmarked :: "turn_state \<Rightarrow> turn_state \<Rightarrow> bool" where
  "unmarked tn tn' \<longleftrightarrow> (\<exists>es. tn_log tn' = tn_log tn @ es \<and> list_all (\<lambda>e. \<not> marks e) es)"

definition quiet :: "turn_state \<Rightarrow> turn_state \<Rightarrow> bool" where
  "quiet tn tn' \<longleftrightarrow> counters tn' = counters tn \<and> unmarked tn tn'"

named_theorems quiets \<open>operations that change neither counters nor markers\<close>

lemma is_marker_simps [simp]:
  "\<not> is_marker (BUser ps og)" "\<not> is_marker (BAssistant t)" "\<not> is_marker (BReasoning t m)" "\<not> is_marker (BToolCall c)"
  "\<not> is_marker (BCompaction c')" "\<not> is_marker (BNotice lv code txt)" "is_marker (BInterruption t at)"
  by (simp_all add: is_marker_def)

lemma unmarked_refl: "unmarked tn tn"
  by (simp add: unmarked_def)

lemma unmarked_trans: "unmarked a b \<Longrightarrow> unmarked b c \<Longrightarrow> unmarked a c"
  by (auto simp: unmarked_def)

lemma unmarked_log: "tn_log tn' = tn_log tn \<Longrightarrow> unmarked tn tn'"
  by (simp add: unmarked_def)

lemma quiet_refl [quiets]: "quiet tn tn"
  by (simp add: quiet_def unmarked_refl)

lemma quiet_trans: "quiet a b \<Longrightarrow> quiet b c \<Longrightarrow> quiet a c"
  by (auto simp: quiet_def intro: unmarked_trans)

lemma quiet_fields [quiets]:
  "quiet tn (tn\<lparr>tn_ruler := r\<rparr>)" "quiet tn (tn\<lparr>tn_breaker := b\<rparr>)" "quiet tn (tn\<lparr>tn_learned := m\<rparr>)"
  "quiet tn (tn\<lparr>tn_minted := n\<rparr>)" "quiet tn (tn\<lparr>tn_transcript := t\<rparr>)"
  by (simp_all add: quiet_def counters_def unmarked_def)

lemma quiet_emit [quiets]: "\<not> marks e \<Longrightarrow> quiet tn (turn_emit e tn)"
  by (simp add: quiet_def counters_def unmarked_def turn_emit_def)

lemma quiet_record [quiets]: "\<not> is_marker b \<Longrightarrow> quiet tn (snd (turn_record cfg b tn))"
proof -
  assume "\<not> is_marker b"
  then have "quiet (tn\<lparr>tn_minted := Suc (tn_minted tn)\<rparr>) (snd (turn_record cfg b tn))"
    by (auto simp: turn_record_def marks_def minted_item_def split_beta intro!: quiet_emit)
  then show ?thesis
    by (rule quiet_trans[OF quiet_fields(4)])
qed

lemma quiet_note [quiets]: "\<not> is_marker b \<Longrightarrow> quiet tn (turn_note cfg b tn)"
  by (simp add: turn_note_def quiets)

lemma quiet_foldl: "(\<And>tn x. quiet tn (f tn x)) \<Longrightarrow> quiet tn (foldl f tn xs)"
  by (induction xs arbitrary: tn) (auto intro: quiet_refl quiet_trans)

lemma quiet_report [quiets]: "quiet tn (turn_report cfg ns tn)"
  unfolding turn_report_def by (rule quiet_foldl) (auto intro: quiets)

lemma quiet_warn [quiets]: "quiet tn (turn_warn code txt tn)"
  by (simp add: turn_warn_def quiets marks_def)

lemma quiet_user_piece [quiets]: "quiet tn (user_piece cfg ps surface tn)"
  by (simp add: user_piece_def quiets)

lemma quiet_charge [quiets]: "quiet tn (turn_charge cfg plugin u tn)"
  by (auto simp: turn_charge_def quiet_def counters_def unmarked_def marks_def)

lemma quiet_contribute [quiets]: "quiet tn (snd (contribute cfg want speak tn))"
proof (cases speak)
  case (Some cs)
  let ?g = "gather want cs"
  let ?tn1 = "foldl (\<lambda>tn (k, e). turn_warn ''CONTRIBUTOR_FAILED'' (k @ '': '' @ e) tn) tn (gh_failed ?g)"
  have "quiet tn ?tn1"
    by (rule quiet_foldl) (auto intro: quiets)
  moreover have "quiet ?tn1 (foldl (\<lambda>tn (label, parts). user_piece cfg parts label tn) ?tn1 (gh_user ?g))"
    by (rule quiet_foldl) (auto intro: quiets)
  ultimately show ?thesis
    using quiet_trans by (simp add: contribute_def Some Let_def)
qed (simp add: contribute_def quiets)

lemma quiet_measure [quiets]: "quiet tn (snd (measure_context cfg sys msgs specs tn))" "quiet tn (snd (measure_request cfg q tn))"
  by (simp_all add: measure_request_def measure_context_def split_beta quiets)

lemma quiet_warn_once [quiets]: "quiet tn (warn_once u tn)"
proof -
  obtain said r where w: "ruler_warning u (tn_ruler tn) = (said, r)"
    by force
  have "quiet tn (tn\<lparr>tn_ruler := r\<rparr>)"
    by (rule quiets)
  then show ?thesis
    using quiet_trans[OF _ quiet_warn] by (cases said) (simp_all add: warn_once_def w)
qed

lemma quiet_compose [quiets]: "quiet tn (snd (compose_request cfg speak q tn))"
proof -
  let ?tn1 = "snd (measure_request cfg q tn)"
  have "snd (compose_request cfg speak q tn) = snd (contribute cfg at_start speak ?tn1)"
    by (simp add: compose_request_def Let_def split: prod.split option.split)
  then show ?thesis
    using quiet_trans[OF quiet_measure(2) quiet_contribute] by simp
qed

lemma quiet_recount: "recount cfg counted tn = Some tn' \<Longrightarrow> quiet tn tn'"
  by (auto simp: recount_def split: if_splits option.splits sum.splits intro: quiets)


lemma quiet_assemble_request [quiets]: "quiet tn (snd (assemble_request cfg a tn))"
proof (cases "as_described a")
  case (Inr specs)
  define q where "q = \<lparr>mq_model = tg_model cfg, mq_max_tokens = tg_max_tokens cfg, mq_system = tg_system cfg,
      mq_messages = model_view (tg_json cfg) (tn_transcript tn), mq_tools = specs, mq_reasoning = tg_reasoning cfg,
      mq_session = Some (tg_session cfg)\<rparr>"
  obtain given tn1 where given: "(case as_handed a q of None \<Rightarrow> (None, tn)
      | Some q1 \<Rightarrow> (case compose_request cfg (as_speak a) q1 tn of (r, tn') \<Rightarrow> (Some r, tn'))) = (given, tn1)"
    by force
  have "quiet tn tn1"
  proof (cases "as_handed a q")
    case (Some q1)
    then have "tn1 = snd (compose_request cfg (as_speak a) q1 tn)"
      using given by (auto split: prod.splits)
    then show ?thesis
      by (simp add: quiets)
  qed (use given in \<open>simp add: quiets\<close>)
  then have q2: "quiet tn (turn_report cfg (as_reported a) tn1)"
    by (rule quiet_trans[OF _ quiet_report])
  show ?thesis
  proof (cases "as_answer a given")
    case (Inl e)
    then show ?thesis
      using q2 given by (simp add: assemble_request_def Inr Let_def q_def[symmetric])
  next
    case (Inr q3)
    obtain u tn3 where m: "measure_request cfg q3 (turn_report cfg (as_reported a) tn1) = (u, tn3)"
      by force
    have q3: "quiet tn tn3"
      using quiet_trans[OF q2 quiet_measure(2)[of _ cfg q3]] m by simp
    show ?thesis
    proof (cases "recount cfg (as_count a) tn3")
      case None
      then show ?thesis
        using q3 given \<open>as_described a = Inr specs\<close> Inr m by (simp add: assemble_request_def Let_def q_def[symmetric])
    next
      case (Some tn4)
      have "quiet tn (warn_once (ruler_anchored (tn_ruler tn4) u) tn4)"
        by (rule quiet_trans[OF quiet_trans[OF q3 quiet_recount[OF Some]] quiet_warn_once])
      then show ?thesis
        using given \<open>as_described a = Inr specs\<close> Inr m Some by (simp add: assemble_request_def Let_def q_def[symmetric])
    qed
  qed
qed (simp add: assemble_request_def quiets)

lemma quiet_absorb [quiets]: "quiet tn (absorb_compaction cfg c took tn)"
  using quiet_trans[OF quiet_record quiet_emit] by (simp add: absorb_compaction_def Let_def split_beta marks_def)

lemma quiet_compact [quiets]: "quiet tn (snd (turn_compact cfg q tn))"
proof -
  let ?tn1 = "turn_report cfg (cq_reported q) tn"
  have charged: "quiet tn (turn_charge cfg ''core'' u ?tn1)" for u
    by (rule quiet_trans[OF quiet_report quiet_charge])
  have warned: "quiet tn (turn_warn code said ((turn_charge cfg ''core'' u ?tn1)\<lparr>tn_breaker := b\<rparr>))" for code said u b
    by (rule quiet_trans[OF quiet_trans[OF charged quiet_fields(2)] quiet_warn])
  have cut: "quiet tn ((absorb_compaction cfg c took ((turn_charge cfg ''core'' u ?tn1)\<lparr>tn_breaker := b\<rparr>))\<lparr>tn_ruler := r\<rparr>)" for c took u b r
    by (rule quiet_trans[OF quiet_trans[OF quiet_trans[OF charged quiet_fields(2)] quiet_absorb] quiet_fields(1)])
  show ?thesis
    by (cases "cq_answer q") (auto simp: turn_compact_def Let_def quiets cut warned)
qed

lemma quiet_learn [quiets]: "quiet tn (learn_window cfg m tn)"
proof (cases "window_from_overflow m")
  case (Some w)
  obtain b m' where r: "learned_record (tg_provider cfg) (tg_model cfg) w (tn_learned tn) = (b, m')"
    by force
  have "\<not> marks (EvNotice lv code said)" for lv code said
    by (simp add: marks_def)
  then show ?thesis
    using quiet_trans[OF quiet_fields(3)[of tn m'] quiet_emit] by (simp add: learn_window_def Some r Let_def quiets)
qed (simp add: learn_window_def quiets)

lemma quiet_announce [quiets]: "quiet tn (announce_retry cfg e dropped delay tn)"
  by (simp add: announce_retry_def quiets marks_def)

lemma quiet_account [quiets]: "quiet tn (turn_account cfg fin u tn)"
proof -
  have "quiet tn (snd (measured fin u tn))"
    by (auto simp: measured_def quiets split: option.split prod.split)
  then show ?thesis
    using quiet_trans[OF _ quiet_emit] by (simp add: turn_account_def split_beta marks_def)
qed

lemma user_item_unmarked:
  assumes "\<And>b. \<not> is_marker b \<Longrightarrow> \<not> is_marker (it_body (mk b))" "user_item i mk = Some item"
  shows "\<not> is_marker (it_body item)"
  using assms by (auto simp: user_item_def Let_def set_headline_def split: input.splits option.splits)

lemma quiet_steering [quiets]: "quiet tn (record_steering cfg is tn)"
proof (induction cfg "is" tn rule: record_steering.induct)
  case (2 cfg i ins tn)
  obtain k at where m: "tg_mint cfg (tn_minted tn) = (k, at)"
    by force
  let ?mint = "\<lambda>body. minted_item k at (tg_turn cfg) (tn_round tn) body StCompleted"
  have "quiet tn (case user_item i ?mint of
      Some item \<Rightarrow> turn_emit (EvItemCompleted item) (tn\<lparr>tn_minted := Suc (tn_minted tn)\<rparr>) | None \<Rightarrow> tn)"
  proof (cases "user_item i ?mint")
    case (Some item)
    have "\<not> is_marker (it_body item)"
      by (rule user_item_unmarked[OF _ Some]) (simp add: minted_item_def)
    then show ?thesis
      using quiet_trans[OF quiet_fields(4) quiet_emit] by (simp add: Some marks_def)
  qed (simp add: quiets)
  then show ?case
    using 2[OF m[symmetric]] quiet_trans by (simp add: m)
qed (simp add: quiets)

lemma quiet_barrier [quiets]: "quiet tn (snd (turn_barrier cfg a tn))"
proof (cases "ag_steering a")
  case (Some ins)
  have "quiet tn (snd (contribute cfg want speak
      (snd (measure_context cfg sys msgs specs (record_steering cfg ins tn)))))" for want speak sys msgs specs
    by (rule quiet_trans[OF quiet_trans[OF quiet_steering quiet_measure(1)] quiet_contribute])
  then show ?thesis
    by (simp add: turn_barrier_def Some Let_def split_beta)
qed (simp add: turn_barrier_def quiets)


section \<open>A stream publishes no marker\<close>

definition blocks_unmarked :: "accumulator \<Rightarrow> bool" where
  "blocks_unmarked a \<longleftrightarrow> (\<forall>k ob. map_of (ac_open a) k = Some ob \<longrightarrow> \<not> is_marker (it_body (ob_item ob)))"

definition emit_unmarked :: "emit \<Rightarrow> bool" where
  "emit_unmarked em = (case em of EmCompleted i \<Rightarrow> \<not> is_marker (it_body i) | _ \<Rightarrow> True)"

lemma blocks_unmarked_update:
  "blocks_unmarked a \<Longrightarrow> \<not> is_marker (it_body (ob_item ob)) \<Longrightarrow> blocks_unmarked (a\<lparr>ac_open := AList.update k ob (ac_open a)\<rparr>)"
  by (simp add: blocks_unmarked_def update_conv')

lemma blocks_unmarked_delete: "blocks_unmarked a \<Longrightarrow> blocks_unmarked (a\<lparr>ac_open := AList.delete k (ac_open a)\<rparr>)"
  by (simp add: blocks_unmarked_def delete_conv')

lemma end_block_unmarked:
  assumes "blocks_unmarked a"
  shows "blocks_unmarked (snd (end_block env k st a)) \<and> list_all emit_unmarked (fst (end_block env k st a))"
proof (cases "map_of (ac_open a) k")
  case (Some ob)
  then have "\<not> is_marker (it_body (ob_item ob))"
    using assms by (simp add: blocks_unmarked_def)
  then show ?thesis
    using blocks_unmarked_delete[OF assms, of k]
    by (simp add: end_block_def Some Let_def emit_unmarked_def blocks_unmarked_def)
qed (simp add: end_block_def assms)

lemma start_block_unmarked:
  assumes "blocks_unmarked a" "\<not> is_marker b"
  shows "blocks_unmarked (snd (start_block env k b a)) \<and> list_all emit_unmarked (fst (start_block env k b a))"
  using assms by (simp add: start_block_def acc_fresh_def emit_unmarked_def blocks_unmarked_def update_conv')

lemma block_delta_unmarked:
  assumes "blocks_unmarked a"
  shows "blocks_unmarked (snd (block_delta k kind d a)) \<and> list_all emit_unmarked (fst (block_delta k kind d a))"
proof (cases "map_of (ac_open a) k")
  case (Some ob)
  then show ?thesis
    using assms
    by (cases "it_body (ob_item ob)"; cases kind)
       (simp_all add: block_delta_def emit_unmarked_def blocks_unmarked_update)
qed (simp add: block_delta_def assms)

lemma end_reasoning_unmarked:
  assumes "blocks_unmarked a"
  shows "blocks_unmarked (snd (end_reasoning env k m a)) \<and> list_all emit_unmarked (fst (end_reasoning env k m a))"
proof -
  have "blocks_unmarked (case map_of (ac_open a) k of
      Some ob \<Rightarrow>
        (case it_body (ob_item ob) of
           BReasoning t _ \<Rightarrow> a\<lparr>ac_open := AList.update k (ob\<lparr>ob_item := (ob_item ob)\<lparr>it_body := BReasoning t m\<rparr>\<rparr>) (ac_open a)\<rparr>
         | _ \<Rightarrow> a)
    | None \<Rightarrow> a)"
    using assms by (auto simp: blocks_unmarked_update split: option.split item_body.split)
  then show ?thesis
    unfolding end_reasoning_def by (rule end_block_unmarked)
qed

lemma start_call_unmarked:
  "ac_open (snd (start_call env k name raw a)) = ac_open a \<and> list_all emit_unmarked (fst (start_call env k name raw a))"
  by (simp add: start_call_def acc_fresh_def Let_def split_beta emit_unmarked_def)

lemma acc_compacted_unmarked:
  "ac_open (snd (acc_compacted env b c a)) = ac_open a \<and> list_all emit_unmarked (fst (acc_compacted env b c a))"
  by (simp add: acc_compacted_def acc_fresh_def compacted_body_def Let_def emit_unmarked_def)

lemma acc_push_unmarked:
  assumes "blocks_unmarked a"
  shows "blocks_unmarked (snd (acc_push env e a)) \<and> list_all emit_unmarked (fst (acc_push env e a))"
proof (cases e)
  case (MToolCall k name input)
  then show ?thesis
    using assms start_call_unmarked[of env k name input a] by (simp add: acc_push_def blocks_unmarked_def)
next
  case (MCompacted b c)
  then show ?thesis
    using assms acc_compacted_unmarked[of env b c a] by (simp add: acc_push_def blocks_unmarked_def)
next
  case (MToolInputDelta k d)
  then have "ac_open (snd (acc_push env e a)) = ac_open a" "fst (acc_push env e a) = []"
    by (simp_all add: acc_push_def split: option.split prod.split)
  then show ?thesis
    using assms by (simp add: blocks_unmarked_def)
next
  case (MTextStart k)
  then show ?thesis
    using start_block_unmarked[OF assms, of "BAssistant []"] by (simp add: acc_push_def)
next
  case (MReasoningStart k)
  then show ?thesis
    using start_block_unmarked[OF assms, of "BReasoning [] []"] by (simp add: acc_push_def)
next
  case (MTextDelta k d)
  then show ?thesis
    using block_delta_unmarked[OF assms] by (simp add: acc_push_def)
next
  case (MReasoningDelta k d)
  then show ?thesis
    using block_delta_unmarked[OF assms] by (simp add: acc_push_def)
next
  case (MTextEnd k)
  then show ?thesis
    using end_block_unmarked[OF assms] by (simp add: acc_push_def)
next
  case (MReasoningEnd k m)
  then show ?thesis
    using end_reasoning_unmarked[OF assms] by (simp add: acc_push_def)
qed (use assms in \<open>simp_all add: acc_push_def blocks_unmarked_def\<close>)

lemma acc_pushes_unmarked:
  "blocks_unmarked a \<Longrightarrow> blocks_unmarked (snd (acc_pushes env es a)) \<and> list_all emit_unmarked (fst (acc_pushes env es a))"
proof (induction es arbitrary: a)
  case (Cons e es)
  then show ?case
    using acc_push_unmarked[OF Cons.prems, of env e] Cons.IH[of "snd (acc_push env e a)"] by (simp add: split_beta)
qed simp

lemma end_blocks_unmarked:
  "blocks_unmarked a \<Longrightarrow> list_all emit_unmarked (fst (end_blocks env st ks a))"
proof (induction ks arbitrary: a)
  case (Cons k ks)
  then show ?case
    using end_block_unmarked[OF Cons.prems, of env k st] Cons.IH[of "snd (end_block env k st a)"] by (simp add: split_beta)
qed simp

lemma emit_event_unmarked: "emit_unmarked em \<Longrightarrow> \<not> marks (emit_event tools em)"
  by (cases em) (simp_all add: emit_unmarked_def marks_def emit_event_def)

lemma quiet_publish_all: "list_all emit_unmarked ems \<Longrightarrow> quiet tn (publish_all cfg ems tn)"
proof (induction ems arbitrary: tn)
  case (Cons em ems)
  then show ?case
    using quiet_trans[OF quiet_emit[OF emit_event_unmarked], of em "tg_tools cfg" tn] by (simp add: publish_all_def)
qed (simp add: publish_all_def quiets)

lemma quiet_stream [quiets]: "quiet tn (snd (turn_stream cfg g tn))"
proof -
  let ?tn1 = "turn_report cfg (sg_reported g) tn"
  define acc where "acc es = acc_pushes (sg_env g) es (accumulator_new (tg_turn cfg) (tn_round ?tn1) 0 0)" for es
  have new: "blocks_unmarked (accumulator_new turn round m n)" for turn round m n
    by (simp add: blocks_unmarked_def accumulator_new_def)
  have published: "quiet tn (publish_all cfg (fst (acc_finish (sg_env g) b (snd (acc es)))) (publish_all cfg (fst (acc es)) ?tn1))" for es b
  proof -
    have "quiet tn (publish_all cfg (fst (acc es)) ?tn1)"
      using acc_pushes_unmarked[OF new] unfolding acc_def by (intro quiet_trans[OF quiet_report quiet_publish_all]) blast
    moreover have "list_all emit_unmarked (fst (acc_finish (sg_env g) b (snd (acc es))))"
      using acc_pushes_unmarked[OF new] end_blocks_unmarked unfolding acc_def
      by (simp add: acc_finish_def split_beta)
    ultimately show ?thesis
      by (rule quiet_trans[OF _ quiet_publish_all])
  qed
  show ?thesis
  proof (cases "sg_established g")
    case (Some r)
    show ?thesis
    proof (cases r)
      case (Inr r')
      then show ?thesis
        using published
        by (cases r') (simp_all add: turn_stream_def Some Let_def acc_def[symmetric] split_beta quiets split: option.split)
    qed (simp add: turn_stream_def Some Let_def quiets)
  qed (simp add: turn_stream_def Let_def quiets)
qed


section \<open>What a round trip spends\<close>

text \<open>The rounds, retries and one-time recoveries a turn has left.\<close>

definition trips_left :: "u32 \<Rightarrow> u32 \<Rightarrow> turn_state \<Rightarrow> nat" where
  "trips_left rounds retries tn =
     (unat rounds - unat (tn_round tn)) + (unat retries - unat (tn_retries tn))
     + (if tn_empty_retry_used tn then 0 else 1) + (if tn_overflow_compacted tn then 0 else 1)
     + (2 - unat (tn_threshold_compactions tn))"

definition along :: "turn_state \<Rightarrow> turn_state \<Rightarrow> bool" where
  "along tn tn' \<longleftrightarrow>
     unmarked tn tn' \<and> tn_round tn' = tn_round tn \<and> (\<forall>rounds retries. trips_left rounds retries tn' \<le> trips_left rounds retries tn)"

definition nearer :: "turn_config \<Rightarrow> turn_state \<Rightarrow> turn_state \<Rightarrow> bool" where
  "nearer cfg tn tn' \<longleftrightarrow>
     (\<forall>rounds. tb_max_rounds (tg_budget cfg) = Some rounds \<longrightarrow> tn_round tn < rounds \<longrightarrow>
        trips_left rounds (tb_max_retries (tg_budget cfg)) tn' < trips_left rounds (tb_max_retries (tg_budget cfg)) tn)"

definition marked_once :: "turn_state \<Rightarrow> turn_state \<Rightarrow> bool" where
  "marked_once tn tn' \<longleftrightarrow> (\<exists>es e. tn_log tn' = tn_log tn @ es @ [e] \<and> list_all (\<lambda>e. \<not> marks e) es \<and> marks e)"

text \<open>A trip that goes on publishes no marker and spends something; one that closes marks a stop, and only that.\<close>

definition trip_ok :: "turn_config \<Rightarrow> turn_state \<Rightarrow> turn_step \<times> turn_state \<Rightarrow> bool" where
  "trip_ok cfg tn r =
     (case r of
        (Assembling, tn') \<Rightarrow> unmarked tn tn' \<and> nearer cfg tn tn'
      | (Closing st, tn') \<Rightarrow>
          (case st of TsInterrupted why \<Rightarrow> why = IrUserCancel \<and> marked_once tn tn' | _ \<Rightarrow> unmarked tn tn'))"

lemma quiet_along: "quiet tn tn' \<Longrightarrow> along tn tn'"
  by (simp add: quiet_def along_def counters_def trips_left_def)

lemma along_trans: "along a b \<Longrightarrow> along b c \<Longrightarrow> along a c"
  unfolding along_def by (metis (no_types, lifting) le_trans unmarked_trans)

lemma along_trip:
  assumes "along tn tn1" "trip_ok cfg tn1 r"
  shows "trip_ok cfg tn r"
proof -
  obtain st tn' where r: "r = (st, tn')"
    by force
  have marked: "marked_once tn1 tn' \<Longrightarrow> marked_once tn tn'" "unmarked tn1 tn' \<Longrightarrow> unmarked tn tn'"
    using assms(1) unfolding along_def unmarked_def marked_once_def by fastforce+
  show ?thesis
  proof (cases st)
    case Assembling
    have "nearer cfg tn tn'"
      unfolding nearer_def
    proof (intro allI impI)
      fix rounds
      assume "tb_max_rounds (tg_budget cfg) = Some rounds" "tn_round tn < rounds"
      then have "trips_left rounds (tb_max_retries (tg_budget cfg)) tn' < trips_left rounds (tb_max_retries (tg_budget cfg)) tn1"
        using assms r Assembling by (simp add: trip_ok_def nearer_def along_def)
      then show "trips_left rounds (tb_max_retries (tg_budget cfg)) tn' < trips_left rounds (tb_max_retries (tg_budget cfg)) tn"
        using assms(1) by (meson along_def less_le_trans)
    qed
    then show ?thesis
      using assms(2) marked r Assembling by (simp add: trip_ok_def)
  next
    case (Closing status)
    then show ?thesis
      using assms(2) marked r by (cases status) (simp_all add: trip_ok_def)
  qed
qed

lemma trip_interrupted: "trip_ok cfg tn (turn_interrupted cfg ask tn)"
  by (auto simp: trip_ok_def turn_interrupted_def interrupted_status_def turn_note_def turn_record_def turn_emit_def
      marked_once_def marks_def minted_item_def split_beta)

lemma trip_closes: "unmarked tn tn' \<Longrightarrow> (\<And>why. st \<noteq> TsInterrupted why) \<Longrightarrow> trip_ok cfg tn (Closing st, tn')"
  by (cases st) (auto simp: trip_ok_def)

lemma round_spent:
  assumes "tn_round tn < rounds"
  shows "unat rounds - unat (tn_round tn + 1) < unat rounds - unat (tn_round tn)"
proof -
  have "unat (tn_round tn) < unat rounds" "unat rounds < 2 ^ 32"
    using assms unsigned_less[of rounds] by (simp_all add: word_less_nat_alt)
  moreover from this have "unat (tn_round tn + 1) = unat (tn_round tn) + 1"
    by (simp add: unat_plus_if_size word_size)
  ultimately show ?thesis
    by simp
qed

lemma nearer_round: "quiet tn tn' \<Longrightarrow> nearer cfg tn (tn'\<lparr>tn_round := tn_round tn' + 1\<rparr>)"
  using round_spent[of tn] by (auto simp: nearer_def trips_left_def quiet_def counters_def)

lemma trip_next_round: "quiet tn tn' \<Longrightarrow> trip_ok cfg tn (Assembling, tn'\<lparr>tn_round := tn_round tn' + 1\<rparr>)"
  using nearer_round[of tn tn' cfg] by (simp add: trip_ok_def quiet_def unmarked_def)


lemma try_compact_along: "along tn (snd (try_compact cfg q tn))"
  and try_compact_spends: "fst (try_compact cfg q tn) \<Longrightarrow> nearer cfg tn (snd (try_compact cfg q tn))"
proof -
  let ?tn1 = "tn\<lparr>tn_threshold_compactions := tn_threshold_compactions tn + 1\<rparr>"
  have spent: "unat (tn_threshold_compactions tn + 1) = unat (tn_threshold_compactions tn) + 1 \<and> unat (tn_threshold_compactions tn) < 2"
    if "\<not> tn_threshold_compactions tn \<ge> MAX_THRESHOLD_COMPACTIONS"
    using that by (simp add: MAX_THRESHOLD_COMPACTIONS_def word_le_nat_alt unat_plus_if_size word_size)
  have "along tn ?tn1" if "\<not> tn_threshold_compactions tn \<ge> MAX_THRESHOLD_COMPACTIONS"
    using spent[OF that] by (auto simp: along_def unmarked_def trips_left_def)
  then have cut: "along tn (snd (turn_compact cfg q ?tn1))" if "\<not> tn_threshold_compactions tn \<ge> MAX_THRESHOLD_COMPACTIONS"
    using along_trans[OF _ quiet_along[OF quiet_compact]] that by blast
  then show "along tn (snd (try_compact cfg q tn))"
    by (simp add: try_compact_def quiet_along quiets)
  have "nearer cfg tn (snd (turn_compact cfg q ?tn1))" if "\<not> tn_threshold_compactions tn \<ge> MAX_THRESHOLD_COMPACTIONS"
  proof -
    have "counters (snd (turn_compact cfg q ?tn1)) = counters ?tn1"
      using quiet_compact[of ?tn1 cfg q] by (simp add: quiet_def)
    then show ?thesis
      using spent[OF that] by (auto simp: nearer_def trips_left_def counters_def)
  qed
  then show "fst (try_compact cfg q tn) \<Longrightarrow> nearer cfg tn (snd (try_compact cfg q tn))"
    by (auto simp: try_compact_def split: if_splits)
qed

lemma assemble_along: "along tn (snd (assemble cfg a q tn))"
  and assemble_spends: "fst (assemble cfg a q tn) = Some AsCompacted \<Longrightarrow> nearer cfg tn (snd (assemble cfg a q tn))"
proof -
  obtain r tn1 where r: "assemble_request cfg a tn = (r, tn1)"
    by force
  have tn1: "quiet tn tn1"
    using quiet_assemble_request[of tn cfg a] r by simp
  obtain b tn2 where c: "try_compact cfg q tn1 = (b, tn2)"
    by force
  have tn2: "along tn tn2"
    using along_trans[OF quiet_along[OF tn1]] try_compact_along[of tn1 cfg q] c by simp
  show "along tn (snd (assemble cfg a q tn))"
    using tn2 quiet_along[OF tn1] by (auto simp: assemble_def r c split: option.split bool.split)
  have "nearer cfg tn tn2" if b
    using try_compact_spends[of cfg q tn1] that c tn1 by (simp add: nearer_def quiet_def counters_def trips_left_def)
  then show "fst (assemble cfg a q tn) = Some AsCompacted \<Longrightarrow> nearer cfg tn (snd (assemble cfg a q tn))"
    by (auto simp: assemble_def r c split: option.splits bool.splits if_splits)
qed

lemma trip_retried: "trip_ok cfg tn (retried_or_failed cfg waited ask e dropped tn)"
proof (cases "retryable e \<and> tn_retries tn < tb_max_retries (tg_budget cfg)")
  case True
  define tn1 where "tn1 = tn\<lparr>tn_retries := tn_retries tn + 1\<rparr>"
  define tn2 where "tn2 = announce_retry cfg e dropped (backoff (tn_retries tn1) (retry_after_ms e)) tn1"
  have q: "quiet tn1 tn2"
    by (simp add: tn2_def quiets)
  have less: "unat (tn_retries tn) < unat (tb_max_retries (tg_budget cfg))"
    using True by (simp add: word_less_nat_alt)
  moreover have "unat (tb_max_retries (tg_budget cfg)) < 2 ^ 32"
    using unsigned_less[of "tb_max_retries (tg_budget cfg)"] by simp
  moreover from this less have "unat (tn_retries tn + 1) = unat (tn_retries tn) + 1"
    by (simp add: unat_plus_if_size word_size)
  ultimately have "nearer cfg tn tn2"
    using q by (auto simp: nearer_def trips_left_def quiet_def counters_def tn1_def)
  moreover have "unmarked tn tn2"
    using q by (simp add: quiet_def unmarked_def tn1_def)
  ultimately have went: "trip_ok cfg tn (Assembling, tn2)"
    by (simp add: trip_ok_def)
  have "trip_ok cfg tn (turn_interrupted cfg ask tn2)"
  proof -
    have "marked_once tn2 (snd (turn_interrupted cfg ask tn2))" "fst (turn_interrupted cfg ask tn2) = Closing (TsInterrupted IrUserCancel)"
      using trip_interrupted[of cfg tn2 ask]
      by (simp_all add: trip_ok_def turn_interrupted_def interrupted_status_def)
    then show ?thesis
      using \<open>unmarked tn tn2\<close> unfolding trip_ok_def unmarked_def marked_once_def by (auto simp: split_beta)
  qed
  then show ?thesis
    using went True by (simp add: retried_or_failed_def tn1_def[symmetric] tn2_def[symmetric])
qed (auto simp: retried_or_failed_def trip_closes unmarked_refl)

lemma trip_failed_stream: "trip_ok cfg tn (failed_stream cfg waited ask q e dropped tn)"
proof (cases "ruler_holds (tn_ruler tn) \<or> (\<forall>m. e \<noteq> PeContextOverflow m)")
  case True
  then show ?thesis
    by (cases e) (auto simp: failed_stream_def trip_retried)
next
  case False
  then obtain m where e: "e = PeContextOverflow m" and h: "\<not> ruler_holds (tn_ruler tn)"
    by blast
  define tn1 where "tn1 = learn_window cfg m tn"
  have q1: "quiet tn tn1"
    by (simp add: tn1_def quiets)
  show ?thesis
  proof (cases "tn_overflow_compacted tn1")
    case True
    then show ?thesis
      using along_trip[OF quiet_along[OF q1] trip_retried] by (simp add: failed_stream_def e h tn1_def[symmetric])
  next
    case False
    define tn2 where "tn2 = announce_retry cfg e dropped 0 (tn1\<lparr>tn_overflow_compacted := True\<rparr>)"
    define tn3 where "tn3 = (if tg_has_compactor cfg then snd (turn_compact cfg q tn2) else tn2)"
    have "quiet (tn1\<lparr>tn_overflow_compacted := True\<rparr>) tn2"
      by (simp add: tn2_def quiets)
    then have "quiet (tn1\<lparr>tn_overflow_compacted := True\<rparr>) tn3"
      using quiet_trans quiet_compact by (auto simp: tn3_def)
    then have "unmarked tn tn3" "nearer cfg tn tn3"
      using q1 False by (auto simp: quiet_def counters_def unmarked_def nearer_def trips_left_def)
    then show ?thesis
      using h False by (simp add: failed_stream_def e trip_ok_def tn1_def[symmetric] tn2_def[symmetric, unfolded e] tn3_def[symmetric])
  qed
qed

lemma trip_stop_hooks: "trip_ok cfg tn (stop_hooks cfg ask d tn)"
proof -
  let ?tn1 = "turn_report cfg (dg_reported d) tn"
  have q: "quiet tn ?tn1"
    by (rule quiets)
  then have un: "unmarked tn ?tn1"
    by (simp add: quiet_def)
  show ?thesis
  proof (cases "dg_stop d")
    case None
    then show ?thesis
      using along_trip[OF quiet_along[OF q] trip_interrupted] by (simp add: stop_hooks_def Let_def)
  next
    case (Some r)
    show ?thesis
    proof (cases r)
      case (Inl e)
      then show ?thesis
        using un by (simp add: stop_hooks_def Some Let_def trip_closes)
    next
      case (Inr st)
      then show ?thesis
        using un trip_next_round[OF quiet_trans[OF q quiet_user_piece]]
        by (cases st) (simp_all add: stop_hooks_def Some Let_def trip_closes)
    qed
  qed
qed

lemma trip_decide:
  "fst (turn_decide cfg ask d fin tn) = Some st \<Longrightarrow> trip_ok cfg tn (st, snd (turn_decide cfg ask d fin tn))"
  and trip_decide_acts: "fst (turn_decide cfg ask d fin tn) = None \<Longrightarrow> snd (turn_decide cfg ask d fin tn) = tn"
proof -
  have empty: "trip_ok cfg tn (Assembling, tn\<lparr>tn_empty_retry_used := True\<rparr>)" if "\<not> tn_empty_retry_used tn"
    using that by (simp add: trip_ok_def unmarked_def nearer_def trips_left_def)
  have longer: "trip_ok cfg tn (Assembling, tn1\<lparr>tn_round := tn_round tn1 + 1\<rparr>)"
    if "tn1 = user_piece cfg ps surface (tn\<lparr>tn_recoveries := tn_recoveries tn + 1\<rparr>)" for tn1 ps surface
  proof -
    have "quiet (tn\<lparr>tn_recoveries := tn_recoveries tn + 1\<rparr>) tn1"
      by (simp add: that quiets)
    from trip_next_round[OF this, of cfg] show ?thesis
      by (simp add: trip_ok_def unmarked_def nearer_def trips_left_def)
  qed
  show "fst (turn_decide cfg ask d fin tn) = Some st \<Longrightarrow> trip_ok cfg tn (st, snd (turn_decide cfg ask d fin tn))"
    using trip_stop_hooks[of cfg tn ask d] empty longer[OF refl, of "[PText CONTINUE_PROMPT]" KERNEL_SURFACE]
    by (auto simp: turn_decide_def Let_def trip_closes unmarked_refl split_beta split: if_splits)
  show "fst (turn_decide cfg ask d fin tn) = None \<Longrightarrow> snd (turn_decide cfg ask d fin tn) = tn"
    by (auto simp: turn_decide_def Let_def split_beta split: if_splits)
qed

lemma trip_act: "trip_ok cfg tn (turn_act cfg ask a tn)"
proof -
  let ?tn1 = "tn\<lparr>tn_transcript := ag_after a\<rparr>"
  have q1: "quiet tn ?tn1"
    by (rule quiets)
  have q2: "quiet tn (snd (turn_barrier cfg a ?tn1))"
    by (rule quiet_trans[OF q1 quiet_barrier])
  show ?thesis
    using along_trip[OF quiet_along[OF q1] trip_interrupted] along_trip[OF quiet_along[OF q2] trip_interrupted]
      trip_next_round[OF q2] q1
    by (auto simp: turn_act_def Let_def quiet_def trip_closes split_beta split: bool.split prod.split)
qed


lemma trip_round_trip:
  "trip_ok cfg tn (round_trip cfg t tn)"
proof (cases "tp_stopped t \<or> budget_spent (tg_budget cfg) (tn_round tn)")
  case True
  then show ?thesis
    by (auto simp: round_trip_def trip_interrupted trip_closes unmarked_refl)
next
  case False
  obtain r tn1 where r: "assemble cfg (tp_assembling t) (tp_threshold t) tn = (r, tn1)"
    by force
  have al: "along tn tn1"
    using assemble_along[of tn cfg "tp_assembling t" "tp_threshold t"] r by simp
  show ?thesis
  proof (cases r)
    case None
    then show ?thesis
      using False along_trip[OF al trip_interrupted] by (simp add: round_trip_def r)
  next
    case (Some x)
    show ?thesis
    proof (cases x)
      case AsCompacted
      then have "nearer cfg tn tn1"
        using assemble_spends[of cfg "tp_assembling t" "tp_threshold t" tn] r Some by simp
      then show ?thesis
        using False al AsCompacted Some by (simp add: round_trip_def r trip_ok_def along_def)
    next
      case (AsRequest request u)
      obtain sr tn2 where sr: "turn_stream cfg (tp_streaming t) tn1 = (sr, tn2)"
        by force
      have al2: "along tn tn2"
        using along_trans[OF al quiet_along[OF quiet_stream[of tn1 cfg "tp_streaming t"]]] sr by simp
      show ?thesis
      proof (cases sr)
        case (StrDone fin)
        define tn3 where "tn3 = turn_account cfg fin u tn2"
        have al3: "along tn tn3"
          using along_trans[OF al2 quiet_along[OF quiet_account]] by (simp add: tn3_def)
        obtain ds tn4 where ds: "turn_decide cfg (tp_ask t) (tp_deciding t) fin tn3 = (ds, tn4)"
          by force
        show ?thesis
        proof (cases ds)
          case None
          then have "tn4 = tn3"
            using trip_decide_acts[of cfg "tp_ask t" "tp_deciding t" fin tn3] ds by simp
          then show ?thesis
            using False None along_trip[OF al3 trip_act]
            by (simp add: round_trip_def r Some AsRequest sr StrDone tn3_def[symmetric] ds)
        next
          case (Some st)
          then show ?thesis
            using False along_trip[OF al3 trip_decide[of cfg "tp_ask t" "tp_deciding t" fin tn3 st]] ds
            by (simp add: round_trip_def r \<open>r = Some x\<close> AsRequest sr StrDone tn3_def[symmetric])
        qed
      next
        case (StrFailed e dropped)
        then show ?thesis
          using False along_trip[OF al2 trip_failed_stream] by (simp add: round_trip_def r Some AsRequest sr)
      next
        case StrCancelled
        then show ?thesis
          using False along_trip[OF al2 trip_interrupted] by (simp add: round_trip_def r Some AsRequest sr)
      qed
    qed
  qed
qed


section \<open>The whole turn\<close>

lemma respond_returns:
  assumes "tb_max_rounds (tg_budget cfg) = Some rounds" "trips_left rounds (tb_max_retries (tg_budget cfg)) tn < length ts"
  shows "respond cfg ts tn \<noteq> None"
  using assms(2)
proof (induction ts arbitrary: tn)
  case (Cons t ts)
  obtain st tn' where r: "round_trip cfg t tn = (st, tn')"
    by force
  show ?case
  proof (cases st)
    case Assembling
    then have "\<not> budget_spent (tg_budget cfg) (tn_round tn)"
      using r by (auto simp: round_trip_def turn_interrupted_def interrupted_status_def split: if_splits)
    then have "tn_round tn < rounds"
      using assms(1) by (simp add: budget_spent_def)
    then have "trips_left rounds (tb_max_retries (tg_budget cfg)) tn' < trips_left rounds (tb_max_retries (tg_budget cfg)) tn"
      using trip_round_trip[of cfg tn t] assms(1) r Assembling by (simp add: trip_ok_def nearer_def)
    then show ?thesis
      using Cons r Assembling by simp
  qed (simp add: r)
qed simp

definition marker_count :: "turn_state \<Rightarrow> nat" where
  "marker_count tn = length (filter marks (tn_log tn))"

lemma unmarked_count: "unmarked tn tn' \<Longrightarrow> marker_count tn' = marker_count tn"
  by (auto simp: unmarked_def marker_count_def list_all_iff filter_empty_conv)

lemma marked_once_count: "marked_once tn tn' \<Longrightarrow> marker_count tn' = Suc (marker_count tn) \<and> marks (last (tn_log tn'))"
  by (auto simp: marked_once_def marker_count_def list_all_iff filter_empty_conv)

text \<open>How a turn that closes is marked.\<close>

definition marked_as :: "turn_state \<Rightarrow> turn_status \<times> turn_state \<Rightarrow> bool" where
  "marked_as tn r =
     (case r of (st, tn') \<Rightarrow>
        (case st of TsInterrupted why \<Rightarrow> why = IrUserCancel \<and> marked_once tn tn' | _ \<Rightarrow> unmarked tn tn'))"

lemma marked_as_after: "unmarked tn tn1 \<Longrightarrow> marked_as tn1 r \<Longrightarrow> marked_as tn r"
  unfolding marked_as_def unmarked_def marked_once_def by (cases "fst r") (auto simp: split_beta)

lemma respond_marks: "respond cfg ts tn = Some r \<Longrightarrow> marked_as tn r"
proof (induction ts arbitrary: tn)
  case (Cons t ts)
  obtain st tn' where r: "round_trip cfg t tn = (st, tn')"
    by force
  have ok: "trip_ok cfg tn (st, tn')"
    using trip_round_trip[of cfg tn t] r by simp
  show ?case
  proof (cases st)
    case Assembling
    then show ?thesis
      using Cons r ok marked_as_after[of tn tn' r] by (simp add: trip_ok_def)
  next
    case (Closing status)
    then show ?thesis
      using Cons.prems r ok by (auto simp: trip_ok_def marked_as_def)
  qed
qed simp

lemma interrupted_marks: "marked_as tn (interrupted_status cfg ask tn)"
  using trip_interrupted[of cfg tn ask] by (simp add: turn_interrupted_def trip_ok_def marked_as_def interrupted_status_def)

lemma compact_run_marks: "marked_as tn (compact_run cfg ask a q tn)"
proof -
  obtain r tn1 where r: "assemble_request cfg a tn = (r, tn1)"
    by force
  have u1: "unmarked tn tn1"
    using quiet_assemble_request[of tn cfg a] r by (simp add: quiet_def)
  obtain did tn2 where c: "turn_compact cfg q tn1 = (did, tn2)"
    by force
  have u2: "unmarked tn tn2"
    using quiet_compact[of tn1 cfg q] c unmarked_trans[OF u1] by (simp add: quiet_def)
  have "unmarked tn2 (measure_compacted cfg request tn2)" for request
    using quiet_trans[OF quiet_measure(1) quiet_emit] by (simp add: measure_compacted_def split_beta quiet_def marks_def)
  then have u3: "unmarked tn (measure_compacted cfg request tn2)" for request
    using unmarked_trans[OF u2] by blast
  show ?thesis
    using marked_as_after[OF u1 interrupted_marks] marked_as_after[OF u2 interrupted_marks] u2 u3
    by (auto simp: compact_run_def r c marked_as_def unmarked_refl split: option.split)
qed

lemma quiet_shadowed [quiets]: "quiet tn (warn_shadowed names tn)"
  unfolding warn_shadowed_def by (rule quiet_foldl) (rule quiets)

lemma run_turn_marks:
  assumes "run_turn cfg start kind t b m = Some r"
  shows "marked_as (turn_new cfg start t b m) r"
proof -
  let ?tn0 = "turn_new cfg start t b m"
  have warned: "unmarked ?tn0 (warn_shadowed names ?tn0)" for names
    using quiet_shadowed[of ?tn0 names] by (simp add: quiet_def)
  show ?thesis
  proof (cases "ts_hooks start \<and> ts_answers start")
    case True
    show ?thesis
    proof (cases "ts_gathered start")
      case None
      then have "r = interrupted_status cfg (ts_ask start) ?tn0"
        using assms True by (simp add: run_turn_def Let_def)
      then show ?thesis
        using interrupted_marks by simp
    next
      case (Some names)
      have "marked_as (warn_shadowed names ?tn0) r"
      proof (cases "ts_started start")
        case started: True
        show ?thesis
        proof (cases kind)
          case (KindRespond trips)
          then have "respond cfg trips (warn_shadowed names ?tn0) = Some r"
            using assms True Some started by (simp add: run_turn_def Let_def)
          then show ?thesis
            by (rule respond_marks)
        next
          case (KindCompact a q)
          then have "r = compact_run cfg (ts_ask start) a q (warn_shadowed names ?tn0)"
            using assms True Some started by (simp add: run_turn_def Let_def)
          then show ?thesis
            using compact_run_marks by simp
        qed
      next
        case False
        then have "r = interrupted_status cfg (ts_ask start) (warn_shadowed names ?tn0)"
          using assms True Some by (simp add: run_turn_def Let_def)
        then show ?thesis
          using interrupted_marks by simp
      qed
      then show ?thesis
        by (rule marked_as_after[OF warned])
    qed
  next
    case False
    then have "r = (if ts_hooks start then (unanswered, ?tn0) else interrupted_status cfg (ts_ask start) ?tn0)"
      using assms by (auto simp: run_turn_def Let_def)
    then show ?thesis
      using interrupted_marks by (simp add: marked_as_def unanswered_def unmarked_refl)
  qed
qed

lemma stop_marks:
  assumes "run_turn cfg start kind t b m = Some (st, tn)"
  shows "marker_count tn = (case st of TsInterrupted _ \<Rightarrow> 1 | _ \<Rightarrow> 0)"
    and "st = TsInterrupted why \<longrightarrow> why = IrUserCancel \<and> marks (last (tn_log tn))"
proof -
  let ?tn0 = "turn_new cfg start t b m"
  have "marked_as ?tn0 (st, tn)"
    by (rule run_turn_marks[OF assms])
  moreover have "marker_count ?tn0 = 0"
    by (simp add: marker_count_def turn_new_def)
  ultimately show "marker_count tn = (case st of TsInterrupted _ \<Rightarrow> 1 | _ \<Rightarrow> 0)"
    "st = TsInterrupted why \<longrightarrow> why = IrUserCancel \<and> marks (last (tn_log tn))"
    using unmarked_count[of ?tn0 tn] marked_once_count[of ?tn0 tn]
    by (auto simp: marked_as_def split: turn_status.splits)
qed


text \<open>
  C14: a turn with a bound on its rounds ends, whatever the provider, the tools, the
  hooks and the contributors answer: after at most that many rounds, its retries, one
  empty answer, one overflow, two threshold compactions and the trip that closes it.
\<close>

theorem turn_is_bounded:
  assumes "tb_max_rounds (tg_budget cfg) = Some rounds"
    and "unat rounds + unat (tb_max_retries (tg_budget cfg)) + 5 \<le> length trips"
  shows "run_turn cfg start (KindRespond trips) t b m \<noteq> None"
proof -
  let ?tn0 = "turn_new cfg start t b m"
  have "trips_left rounds (tb_max_retries (tg_budget cfg)) tn < length trips" if "quiet ?tn0 tn" for tn
    using that assms(2) by (simp add: trips_left_def quiet_def counters_def turn_new_def)
  then have "respond cfg trips (warn_shadowed names ?tn0) \<noteq> None" for names
    using respond_returns[OF assms(1)] quiet_shadowed by blast
  then show ?thesis
    by (simp add: run_turn_def Let_def split: option.split)
qed


section \<open>A refused request\<close>

text \<open>A mod that refuses to let the request be composed, as \<open>prompt.compose\<close> lets every mod do.\<close>

definition refusal :: kernel_error where
  "refusal = kernel_error_new ErrPermissionDenied ''not today''"

definition refusing_link :: "(model_request, model_request) link" where
  "refusing_link =
     \<lparr>lk_id = ''mod'', lk_external = Some ''mod'', lk_placement = PlaceOuter, lk_tier = TierTighten,
      lk_matches = (\<lambda>_ _. True), lk_does = (\<lambda>_. LinkAnswers (Inl refusal))\<rparr>"

definition sample_turn :: turn_config where
  "sample_turn =
     \<lparr>tg_session = ''s'', tg_turn = ''t'', tg_model = ''m'', tg_provider = ''p'', tg_max_tokens = 1000, tg_reasoning = None,
      tg_sees = True, tg_counts = False, tg_system = [], tg_specs = [], tg_tools = [], tg_has_compactor = False,
      tg_budget = \<lparr>tb_max_rounds = Some 2, tb_max_retries = 1\<rparr>, tg_json = (\<lambda>_. ''{}''), tg_mint = (\<lambda>n. (replicate n CHR ''i'', int n))\<rparr>"

definition sample_start :: turn_start where
  "sample_start = \<lparr>ts_hooks = True, ts_answers = True, ts_gathered = Some [], ts_started = True, ts_ask = None, ts_window = 200000, ts_holds = False\<rparr>"

definition sample_compacting :: compacting where
  "sample_compacting = \<lparr>cq_started = True, cq_answer = Inl (refusal, usage_default), cq_reported = [], cq_stopped = False, cq_took = 0\<rparr>"

text \<open>Nobody stops this trip; the mod refuses, and every other answer would have been given.\<close>

definition refused_trip :: trip where
  "refused_trip =
     \<lparr>tp_stopped = False, tp_ask = None,
      tp_assembling = \<lparr>as_described = Inr [], as_handed = (\<lambda>_. None), as_speak = Some [],
        as_answer = (\<lambda>_. fst (run_at compose_point [refusing_link] Inr
           \<lparr>mq_model = ''m'', mq_max_tokens = 1000, mq_system = [], mq_messages = [], mq_tools = [], mq_reasoning = None, mq_session = None\<rparr>)),
        as_reported = [], as_count = Some (Inr 7)\<rparr>,
      tp_threshold = sample_compacting,
      tp_streaming = \<lparr>sg_env = sample_stream_env, sg_reported = [], sg_established = Some (Inr (Inl PeTimeout)), sg_error = None,
        sg_stopped = False\<rparr>,
      tp_waited = True, tp_overflow = sample_compacting,
      tp_deciding = \<lparr>dg_host_stopped = False, dg_stop = Some (Inr StopComplete), dg_reported = []\<rparr>,
      tp_acting = \<lparr>ag_after = transcript_new, ag_stop_after = False, ag_stopped = False, ag_host_stopped = False,
        ag_steering = Some [], ag_speak = Some []\<rparr>\<rparr>"

lemma refusal_stands: "fst (run_at compose_point [refusing_link] kern q) = Inl refusal"
  by (simp add: refusing_link_def hop_def hop_accepted_def compose_point_def PROMPT_COMPOSE_def WRAP_def refusal_def
      kernel_error_new_def Let_def)

text \<open>
  C18: a mod's refusal of the request is recorded as the person's stop.  Nobody stopped
  the turn, every await came back, and a mod refused the composition, as the chain
  allows it to; the turn is closed as interrupted by the person, with the marker
  \<open>[Request interrupted by user]\<close>, and the refusal itself is published nowhere.
\<close>

theorem refused_request_reads_as_a_stop:
  "\<exists>tn. run_turn sample_turn sample_start (KindRespond [refused_trip]) transcript_new 0 Mapping.empty
      = Some (TsInterrupted IrUserCancel, tn)
    \<and> tn_log tn = [EvItemCompleted (minted_item [] 0 ''t'' 0 (BInterruption ''[Request interrupted by user]'' None) StCompleted)]"
proof -
  let ?tn = "turn_new sample_turn sample_start transcript_new 0 Mapping.empty"
  have "assemble_request sample_turn (tp_assembling refused_trip) ?tn = (None, ?tn)"
    by (simp add: assemble_request_def refused_trip_def refusal_stands turn_report_def Let_def del: run_at.simps)
  then have "round_trip sample_turn refused_trip ?tn = turn_interrupted sample_turn None ?tn"
    by (simp add: round_trip_def assemble_def)
       (simp add: refused_trip_def sample_turn_def budget_spent_def turn_new_def)
  then show ?thesis
    by (simp add: run_turn_def sample_start_def warn_shadowed_def turn_interrupted_def interrupted_status_def)
       (simp add: turn_note_def turn_record_def turn_emit_def turn_new_def sample_turn_def INTERRUPTED_MARKER_def)
qed

subsection \<open>Witnesses\<close>


theorem turn_is_bounded_witness:
  "run_turn sample_turn sample_start (KindRespond (replicate 8 refused_trip)) transcript_new 0 Mapping.empty \<noteq> None"
  by (rule turn_is_bounded[of _ 2]) (simp_all add: sample_turn_def)

end
