(* ===== verification/Store_Journal.thy ===== *)
theory Store_Journal
  imports Sdk_State
begin

text \<open>
  The journal of a session on disk (\<open>bingo-store-jsonl/src/journal.rs\<close>, \<open>journal/writer.rs\<close>):
  a header line, then a line per durable frame, appended and never rewritten.  A file is
  the list of its bytes.  A write may be cut anywhere, by a crash or an error of the
  system: \<open>torn\<close> says after how many bytes.

  What \<open>serde_json\<close> makes of a line is a parameter (\<open>codec\<close>); \<open>codec_ok\<close> says what the code
  relies on: what was printed is read back, a printed line has no line break in it, a
  trailing line break does not matter, and half of an object is not an object, also not
  with another object after it.
\<close>

section \<open>Lines and versions\<close>

definition FORMAT :: string where
  "FORMAT = ''bingo-journal''"

definition VERSION :: u32 where
  "VERSION = 3"

record version_line =
  vl_format :: string
  vl_version :: u32

record codec =
  cd_header :: "session_id \<Rightarrow> string"
  cd_marker :: string
  cd_frame :: "frame \<Rightarrow> string"
  cd_read_header :: "string \<Rightarrow> version_line option"
  cd_probe :: "string \<Rightarrow> bool option"
  cd_read_marker :: "string \<Rightarrow> version_line option"
  cd_read_frame :: "u32 \<Rightarrow> string \<Rightarrow> frame option"

datatype storage_error =
    SeIo
  | SeNotAJournal
  | SeNewer u32
  | SeLine nat

type_synonym 'a stored_result = "storage_error + 'a"

definition checked_version :: "version_line \<Rightarrow> u32 stored_result" where
  "checked_version v =
     (if vl_format v \<noteq> FORMAT \<or> vl_version v = 0 then Inl SeNotAJournal
      else if vl_version v > VERSION then Inl (SeNewer (vl_version v))
      else Inr (vl_version v))"

definition check_header :: "codec \<Rightarrow> string option \<Rightarrow> u32 stored_result" where
  "check_header cd line =
     (case Option.bind line (cd_read_header cd) of None \<Rightarrow> Inl SeNotAJournal | Some h \<Rightarrow> checked_version h)"

text \<open>The lines of a file, without the empty one that a trailing line break leaves.\<close>

definition file_lines :: "string \<Rightarrow> string list" where
  "file_lines bytes =
     (let ls = split_chars ((=) newline) bytes in if last ls = [] then butlast ls else ls)"

text \<open>The pieces \<open>read_until\<close> gives one after the other: lines with their line break.\<close>

function read_until_lines :: "string \<Rightarrow> string list" where
  "read_until_lines bytes =
     (if bytes = [] then []
      else let line = takeWhile ((\<noteq>) newline) bytes; rest = drop (length line) bytes
           in if rest = [] then [line] else (line @ [newline]) # read_until_lines (drop 1 rest))"
  by pat_completeness auto
termination
  by (relation "measure length") (auto simp: Let_def)

declare read_until_lines.simps [simp del]

section \<open>Writing\<close>

definition write_line :: "nat option \<Rightarrow> string \<Rightarrow> string \<Rightarrow> unit stored_result \<times> string" where
  "write_line torn line bytes =
     (case torn of
        None \<Rightarrow> (Inr (), bytes @ line @ [newline])
      | Some n \<Rightarrow> (Inl SeIo, bytes @ take n (line @ [newline])))"

definition journal_create :: "codec \<Rightarrow> nat option \<Rightarrow> session_id \<Rightarrow> string option \<Rightarrow> unit stored_result \<times> string option" where
  "journal_create cd torn session file =
     (case file of
        Some _ \<Rightarrow> (Inr (), file)
      | None \<Rightarrow> (case write_line torn (cd_header cd session) [] of (r, bytes) \<Rightarrow> (r, Some bytes)))"

definition append_line :: "nat option \<Rightarrow> string \<Rightarrow> string option \<Rightarrow> unit stored_result \<times> string option" where
  "append_line torn line file =
     (case file of
        None \<Rightarrow> (Inl SeIo, None)
      | Some bytes \<Rightarrow> (case write_line torn line bytes of (r, bytes') \<Rightarrow> (r, Some bytes')))"

definition append_version :: "codec \<Rightarrow> nat option \<Rightarrow> string option \<Rightarrow> unit stored_result \<times> string option" where
  "append_version cd torn file = append_line torn (cd_marker cd) file"

fun latest_version :: "codec \<Rightarrow> u32 \<Rightarrow> string list \<Rightarrow> u32 stored_result" where
  "latest_version cd v [] = Inr v"
| "latest_version cd v (l # ls) =
     (case cd_read_marker cd l of
        None \<Rightarrow> latest_version cd v ls
      | Some m \<Rightarrow> (case checked_version m of Inl e \<Rightarrow> Inl e | Inr v' \<Rightarrow> latest_version cd v' ls))"

definition journal_prepare :: "codec \<Rightarrow> nat option \<Rightarrow> string option \<Rightarrow> unit stored_result \<times> string option" where
  "journal_prepare cd torn file =
     (case file of
        None \<Rightarrow> (Inl SeIo, None)
      | Some bytes \<Rightarrow>
          (let ls = read_until_lines bytes; first = (case ls of [] \<Rightarrow> [] | l # _ \<Rightarrow> l) in
           case check_header cd (Some first) of
             Inl e \<Rightarrow> (Inl e, file)
           | Inr v \<Rightarrow>
               (case latest_version cd v (drop 1 ls) of
                  Inl e \<Rightarrow> (Inl e, file)
                | Inr v' \<Rightarrow> if v' < VERSION then append_version cd torn file else (Inr (), file))))"

definition append_prepared :: "codec \<Rightarrow> nat option \<Rightarrow> frame \<Rightarrow> string option \<Rightarrow> unit stored_result \<times> string option" where
  "append_prepared cd torn f file = append_line torn (cd_frame cd f) file"

text \<open>
  The writer of a store prepares each directory once, until it is forgotten; \<open>torns\<close> are
  those of the version line and of the frame.
\<close>

type_synonym writer = "string set"

definition writer_prepare ::
  "codec \<Rightarrow> nat option \<Rightarrow> string \<Rightarrow> writer \<times> string option \<Rightarrow> unit stored_result \<times> writer \<times> string option" where
  "writer_prepare cd torn dir disk =
     (case disk of (w, file) \<Rightarrow>
        if dir \<in> w then (Inr (), w, file)
        else case journal_prepare cd torn file of
               (Inl e, file') \<Rightarrow> (Inl e, w, file')
             | (Inr _, file') \<Rightarrow> (Inr (), insert dir w, file'))"

definition writer_append ::
  "codec \<Rightarrow> nat option \<times> nat option \<Rightarrow> string \<Rightarrow> frame \<Rightarrow> writer \<times> string option \<Rightarrow>
   unit stored_result \<times> writer \<times> string option" where
  "writer_append cd torns dir f disk =
     (case writer_prepare cd (fst torns) dir disk of
        (Inl e, w, file) \<Rightarrow> (Inl e, w, file)
      | (Inr _, w, file) \<Rightarrow> (case append_prepared cd (snd torns) f file of (r, file') \<Rightarrow> (r, w, file')))"

section \<open>Reading\<close>

datatype journal_line = LVersion version_line | LFrame frame

definition decode_line :: "codec \<Rightarrow> u32 \<Rightarrow> string \<Rightarrow> journal_line option" where
  "decode_line cd v line =
     (case cd_probe cd line of
        None \<Rightarrow> None
      | Some True \<Rightarrow> map_option LVersion (cd_read_marker cd line)
      | Some False \<Rightarrow> map_option LFrame (cd_read_frame cd v line))"

fun frames_loop :: "codec \<Rightarrow> seq \<Rightarrow> u32 \<Rightarrow> nat \<Rightarrow> string list \<Rightarrow> frame list stored_result" where
  "frames_loop cd since v n [] = Inr []"
| "frames_loop cd since v n (l # ls) =
     (case decode_line cd v l of
        Some (LVersion m) \<Rightarrow>
          (case checked_version m of Inl e \<Rightarrow> Inl e | Inr v' \<Rightarrow> frames_loop cd since v' (Suc n) ls)
      | Some (LFrame f) \<Rightarrow>
          (case frames_loop cd since v (Suc n) ls of
             Inl e \<Rightarrow> Inl e
           | Inr fs \<Rightarrow> Inr (if fr_seq f > since then f # fs else fs))
      | None \<Rightarrow> if ls = [] then Inr [] else Inl (SeLine (Suc n)))"

definition journal_frames :: "codec \<Rightarrow> string list \<Rightarrow> seq \<Rightarrow> u32 \<Rightarrow> frame list stored_result" where
  "journal_frames cd ls since v = frames_loop cd since v 1 (drop 1 ls)"

definition replay :: "codec \<Rightarrow> seq \<Rightarrow> string option \<Rightarrow> frame list stored_result" where
  "replay cd since file =
     (case file of
        None \<Rightarrow> Inl SeIo
      | Some bytes \<Rightarrow>
          (let ls = file_lines bytes in
           case check_header cd (case ls of [] \<Rightarrow> None | l # _ \<Rightarrow> Some l) of
             Inl e \<Rightarrow> Inl e
           | Inr v \<Rightarrow> journal_frames cd ls since v))"

definition tail_after :: "codec \<Rightarrow> nat \<Rightarrow> string option \<Rightarrow> frame list stored_result" where
  "tail_after cd offset file =
     (case file of
        None \<Rightarrow> Inl SeIo
      | Some bytes \<Rightarrow>
          (let first = (case read_until_lines bytes of [] \<Rightarrow> [] | l # _ \<Rightarrow> l) in
           case check_header cd (Some first) of
             Inl e \<Rightarrow> Inl e
           | Inr v \<Rightarrow> journal_frames cd (first # file_lines (drop offset bytes)) 0 v))"


section \<open>What the code relies on\<close>

definition writes :: "codec \<Rightarrow> frame set \<Rightarrow> string \<Rightarrow> bool" where
  "writes cd F l \<longleftrightarrow> l = cd_marker cd \<or> (\<exists>f \<in> F. l = cd_frame cd f)"

abbreviation this_version :: version_line where
  "this_version \<equiv> \<lparr>vl_format = FORMAT, vl_version = VERSION\<rparr>"

definition codec_ok :: "codec \<Rightarrow> frame set \<Rightarrow> bool" where
  "codec_ok cd F \<longleftrightarrow>
     (\<forall>s. newline \<notin> set (cd_header cd s) \<and> cd_read_header cd (cd_header cd s) = Some this_version)
     \<and> (\<forall>l. writes cd F l \<longrightarrow> newline \<notin> set l \<and> l \<noteq> [])
     \<and> (\<forall>l. cd_read_header cd (l @ [newline]) = cd_read_header cd l \<and> cd_read_marker cd (l @ [newline]) = cd_read_marker cd l)
     \<and> cd_probe cd (cd_marker cd) = Some True \<and> cd_read_marker cd (cd_marker cd) = Some this_version
     \<and> (\<forall>f \<in> F. cd_probe cd (cd_frame cd f) = Some False \<and> cd_read_frame cd VERSION (cd_frame cd f) = Some f)
     \<and> (\<forall>l. cd_probe cd l \<noteq> Some True \<longrightarrow> cd_read_marker cd l = None)
     \<and> (\<forall>l n. writes cd F l \<and> n < length l \<longrightarrow> cd_probe cd (take n l) = None)
     \<and> (\<forall>l l' n. writes cd F l \<and> writes cd F l' \<and> 0 < n \<and> n \<le> length l \<longrightarrow> cd_probe cd (take n l @ l') = None)"

lemma codec_okD:
  assumes "codec_ok cd F"
  shows "newline \<notin> set (cd_header cd s)" "cd_read_header cd (cd_header cd s) = Some this_version"
    and "writes cd F l \<Longrightarrow> newline \<notin> set l" "writes cd F l \<Longrightarrow> l \<noteq> []"
    and "cd_read_header cd (l @ [newline]) = cd_read_header cd l" "cd_read_marker cd (l @ [newline]) = cd_read_marker cd l"
    and "cd_probe cd (cd_marker cd) = Some True" "cd_read_marker cd (cd_marker cd) = Some this_version"
    and "f \<in> F \<Longrightarrow> cd_probe cd (cd_frame cd f) = Some False"
    and "f \<in> F \<Longrightarrow> cd_read_frame cd VERSION (cd_frame cd f) = Some f"
    and "cd_probe cd l \<noteq> Some True \<Longrightarrow> cd_read_marker cd l = None"
    and "writes cd F l \<Longrightarrow> n < length l \<Longrightarrow> cd_probe cd (take n l) = None"
    and "writes cd F l \<Longrightarrow> writes cd F l' \<Longrightarrow> 0 < n \<Longrightarrow> n \<le> length l \<Longrightarrow> cd_probe cd (take n l @ l') = None"
  using assms unfolding codec_ok_def by blast+

lemma writes_frame [simp]: "f \<in> F \<Longrightarrow> writes cd F (cd_frame cd f)"
  by (auto simp: writes_def)

lemma writes_marker [simp]: "writes cd F (cd_marker cd)"
  by (simp add: writes_def)

section \<open>What a file holds\<close>

definition unlines :: "string list \<Rightarrow> string" where
  "unlines ls = concat (map (\<lambda>l. l @ [newline]) ls)"

abbreviation whole_lines :: "string list \<Rightarrow> bool" where
  "whole_lines ls \<equiv> \<forall>l \<in> set ls. newline \<notin> set l"

lemma unlines_simps [simp]:
  "unlines [] = []" "unlines (l # ls) = l @ newline # unlines ls" "unlines (ls @ ms) = unlines ls @ unlines ms"
  by (simp_all add: unlines_def)

lemma split_line: "newline \<notin> set l \<Longrightarrow> split_chars ((=) newline) (l @ newline # s) = l # split_chars ((=) newline) s"
  by (induction l) auto

lemma split_no_line: "newline \<notin> set t \<Longrightarrow> split_chars ((=) newline) t = [t]"
  by (induction t) auto

lemma file_lines_unlines:
  assumes "whole_lines ls" "newline \<notin> set t"
  shows "file_lines (unlines ls @ t) = ls @ (if t = [] then [] else [t])"
proof -
  have "split_chars ((=) newline) (unlines ls @ t) = ls @ [t]"
    using assms by (induction ls) (auto simp: split_line split_no_line)
  then show ?thesis
    by (simp add: file_lines_def)
qed

lemma read_until_rest: "newline \<notin> set t \<Longrightarrow> read_until_lines t = (if t = [] then [] else [t])"
proof -
  assume "newline \<notin> set t"
  then have all: "takeWhile ((\<noteq>) newline) t = t"
    by (auto simp: takeWhile_eq_all_conv)
  show ?thesis
    by (simp only: read_until_lines.simps[of t] all Let_def) simp
qed

lemma read_until_unlines:
  "whole_lines ls \<Longrightarrow> newline \<notin> set t \<Longrightarrow>
     read_until_lines (unlines ls @ t) = map (\<lambda>l. l @ [newline]) ls @ (if t = [] then [] else [t])"
proof (induction ls)
  case Nil
  then show ?case
    by (simp add: read_until_rest)
next
  case (Cons l ls)
  then have "takeWhile ((\<noteq>) newline) (l @ newline # (unlines ls @ t)) = l"
    by (subst takeWhile_append2) auto
  then show ?case
    using Cons by (subst read_until_lines.simps) (simp add: Let_def)
qed

fun reads :: "codec \<Rightarrow> u32 \<Rightarrow> string list \<Rightarrow> (frame list \<times> u32) option" where
  "reads cd v [] = Some ([], v)"
| "reads cd v (l # ls) =
     (case decode_line cd v l of
        None \<Rightarrow> None
      | Some (LVersion m) \<Rightarrow> (case checked_version m of Inl _ \<Rightarrow> None | Inr v' \<Rightarrow> reads cd v' ls)
      | Some (LFrame f) \<Rightarrow> map_option (apfst ((#) f)) (reads cd v ls))"

text \<open>A file of whole lines that reads as these frames and ends at version \<open>w\<close>.\<close>

definition journal_at :: "codec \<Rightarrow> string \<Rightarrow> frame list \<Rightarrow> u32 \<Rightarrow> bool" where
  "journal_at cd bytes fs w \<longleftrightarrow>
     (\<exists>h ls v. bytes = unlines (h # ls) \<and> whole_lines (h # ls) \<and> check_header cd (Some h) = Inr v
        \<and> reads cd v ls = Some (fs, w))"

lemma reads_append:
  "reads cd v ls = Some (fs, w) \<Longrightarrow> reads cd v (ls @ ms) = map_option (apfst ((@) fs)) (reads cd w ms)"
proof (induction ls arbitrary: v fs)
  case Nil
  then show ?case
    by (cases "reads cd w ms") auto
next
  case (Cons l ls)
  then show ?case
    by (cases "reads cd w ms") (auto split: option.splits journal_line.splits sum.splits)
qed

lemma frames_loop_reads:
  "reads cd v ls = Some (fs, w) \<Longrightarrow>
     frames_loop cd since v n (ls @ ms) =
       (case frames_loop cd since w (n + length ls) ms of
          Inl e \<Rightarrow> Inl e | Inr gs \<Rightarrow> Inr (filter (\<lambda>f. since < fr_seq f) fs @ gs))"
proof (induction ls arbitrary: v fs n)
  case Nil
  then show ?case
    by (auto split: sum.split)
next
  case (Cons l ls)
  then show ?case
    by (auto split: option.splits journal_line.splits sum.splits)
qed

lemma checked_version_le: "checked_version m = Inr v \<Longrightarrow> v \<le> VERSION"
  by (auto simp: checked_version_def split: if_splits)

lemma reads_le: "reads cd v ls = Some (fs, w) \<Longrightarrow> v \<le> VERSION \<Longrightarrow> w \<le> VERSION"
  by (induction ls arbitrary: v fs)
     (auto split: option.splits journal_line.splits sum.splits dest: checked_version_le)

lemma check_header_le: "check_header cd h = Inr v \<Longrightarrow> v \<le> VERSION"
  by (auto simp: check_header_def split: option.splits dest: checked_version_le)

lemma check_header_break: "codec_ok cd F \<Longrightarrow> check_header cd (Some (h @ [newline])) = check_header cd (Some h)"
  by (simp add: check_header_def codec_okD(5))

lemma this_version_ok [simp]: "checked_version this_version = Inr VERSION"
  by (simp add: checked_version_def VERSION_def)

lemma decode_marker: "codec_ok cd F \<Longrightarrow> decode_line cd v (cd_marker cd) = Some (LVersion this_version)"
  by (simp add: decode_line_def codec_okD(7,8))

lemma decode_frame: "codec_ok cd F \<Longrightarrow> f \<in> F \<Longrightarrow> decode_line cd VERSION (cd_frame cd f) = Some (LFrame f)"
  by (simp add: decode_line_def codec_okD(9,10))

lemma latest_version_reads:
  assumes "codec_ok cd F" "t = [] \<or> cd_probe cd t \<noteq> Some True"
  shows "reads cd v ls = Some (fs, w) \<Longrightarrow>
     latest_version cd v (map (\<lambda>l. l @ [newline]) ls @ (if t = [] then [] else [t])) = Inr w"
proof (induction ls arbitrary: v fs)
  case Nil
  then show ?case
    using assms codec_okD(11)[OF assms(1), of t] by auto
next
  case (Cons l ls)
  then show ?case
    using codec_okD(6,11)[OF assms(1), of l]
    by (auto simp: decode_line_def split: option.splits journal_line.splits sum.splits bool.splits)
qed

text \<open>A journal with, after its last whole line, a rest that reads as nothing.\<close>

lemma prepare_torn:
  assumes "codec_ok cd F" "journal_at cd bytes fs VERSION" "newline \<notin> set t" "t = [] \<or> cd_probe cd t \<noteq> Some True"
  shows "journal_prepare cd torn (Some (bytes @ t)) = (Inr (), Some (bytes @ t))"
proof -
  obtain h ls v where b: "bytes = unlines (h # ls)" "whole_lines (h # ls)" "check_header cd (Some h) = Inr v"
      "reads cd v ls = Some (fs, VERSION)"
    using assms(2) unfolding journal_at_def by blast
  have "read_until_lines (bytes @ t) = (h @ [newline]) # map (\<lambda>l. l @ [newline]) ls @ (if t = [] then [] else [t])"
    using read_until_unlines[OF b(2) assms(3)] unfolding b(1) by simp
  then show ?thesis
    using latest_version_reads[OF assms(1,4) b(4)] b(3)
    by (simp add: journal_prepare_def check_header_break[OF assms(1)])
qed

lemma prepare_at:
  assumes "codec_ok cd F" "journal_at cd bytes fs w"
  obtains bytes' where "journal_prepare cd None (Some bytes) = (Inr (), Some bytes')" "journal_at cd bytes' fs VERSION"
proof (cases "w = VERSION")
  case True
  then show ?thesis
    using that[of bytes] prepare_torn[OF assms(1), of bytes fs "[]"] assms(2) by simp
next
  case False
  obtain h ls v where b: "bytes = unlines (h # ls)" "whole_lines (h # ls)" "check_header cd (Some h) = Inr v"
      "reads cd v ls = Some (fs, w)"
    using assms(2) unfolding journal_at_def by blast
  have old: "w < VERSION"
    using False reads_le[OF b(4) check_header_le[OF b(3)]] by simp
  have "read_until_lines bytes = (h @ [newline]) # map (\<lambda>l. l @ [newline]) ls"
    using read_until_unlines[OF b(2), of "[]"] unfolding b(1) by simp
  then have "journal_prepare cd None (Some bytes) = (Inr (), Some (bytes @ cd_marker cd @ [newline]))"
    using latest_version_reads[OF assms(1) _ b(4), of "[]"] b(3) old
    by (simp add: journal_prepare_def check_header_break[OF assms(1)] append_version_def append_line_def write_line_def)
  moreover have "bytes @ cd_marker cd @ [newline] = unlines (h # ls @ [cd_marker cd])"
    by (simp add: b(1))
  then have "journal_at cd (bytes @ cd_marker cd @ [newline]) fs VERSION"
    using b codec_okD(3)[OF assms(1) writes_marker] reads_append[OF b(4), of "[cd_marker cd]"]
    unfolding journal_at_def
    by (intro exI[of _ h] exI[of _ "ls @ [cd_marker cd]"] exI[of _ v]) (auto simp: decode_marker[OF assms(1)])
  ultimately show ?thesis
    using that by blast
qed

lemma append_at:
  assumes "codec_ok cd F" "journal_at cd bytes fs VERSION" "f \<in> F"
  shows "journal_at cd (bytes @ cd_frame cd f @ [newline]) (fs @ [f]) VERSION"
proof -
  obtain h ls v where b: "bytes = unlines (h # ls)" "whole_lines (h # ls)" "check_header cd (Some h) = Inr v"
      "reads cd v ls = Some (fs, VERSION)"
    using assms(2) unfolding journal_at_def by blast
  moreover have "bytes @ cd_frame cd f @ [newline] = unlines (h # ls @ [cd_frame cd f])"
    by (simp add: b(1))
  ultimately show ?thesis
    using codec_okD(3)[OF assms(1) writes_frame[OF assms(3)]] reads_append[OF b(4), of "[cd_frame cd f]"]
    unfolding journal_at_def
    by (intro exI[of _ h] exI[of _ "ls @ [cd_frame cd f]"] exI[of _ v]) (auto simp: decode_frame[OF assms(1,3)])
qed

lemma replay_more:
  assumes "journal_at cd bytes fs w" "whole_lines ms" "newline \<notin> set t"
  shows "replay cd since (Some (bytes @ unlines ms @ t)) =
     (case frames_loop cd since w (length (file_lines bytes)) (ms @ (if t = [] then [] else [t])) of
        Inl e \<Rightarrow> Inl e | Inr gs \<Rightarrow> Inr (filter (\<lambda>f. since < fr_seq f) fs @ gs))"
proof -
  obtain h ls v where b: "bytes = unlines (h # ls)" "whole_lines (h # ls)" "check_header cd (Some h) = Inr v"
      "reads cd v ls = Some (fs, w)"
    using assms(1) unfolding journal_at_def by blast
  have "file_lines bytes = h # ls"
    using file_lines_unlines[OF b(2), of "[]"] unfolding b(1) by simp
  moreover have "file_lines (bytes @ unlines ms @ t) = h # ls @ ms @ (if t = [] then [] else [t])"
    using file_lines_unlines[of "(h # ls) @ ms" t] b(2) assms(2,3) unfolding b(1) by (simp add: ball_Un)
  ultimately show ?thesis
    using frames_loop_reads[OF b(4), of since 1 "ms @ (if t = [] then [] else [t])"] b(3)
    by (simp add: replay_def journal_frames_def)
qed

lemmas replay_torn = replay_more[where ms = "[]", simplified]

lemma replay_at: "journal_at cd bytes fs w \<Longrightarrow> replay cd since (Some bytes) = Inr (filter (\<lambda>f. since < fr_seq f) fs)"
  using replay_more[of cd bytes fs w "[]" "[]"] by simp

lemma create_at:
  assumes "codec_ok cd F"
  shows "journal_at cd (cd_header cd session @ [newline]) [] VERSION"
  unfolding journal_at_def
  by (intro exI[of _ "cd_header cd session"] exI[of _ "[]"] exI[of _ VERSION])
     (simp add: check_header_def codec_okD(1,2)[OF assms])

section \<open>Properties\<close>

definition appended :: "codec \<Rightarrow> string \<Rightarrow> frame list \<Rightarrow> writer \<times> string option \<Rightarrow> writer \<times> string option" where
  "appended cd dir fs disk = foldl (\<lambda>disk f. snd (writer_append cd (None, None) dir f disk)) disk fs"

lemma writer_append_at:
  assumes "codec_ok cd F" "journal_at cd bytes fs w" "f \<in> F" "dir \<in> W \<longrightarrow> w = VERSION"
  obtains bytes' where "writer_append cd (None, None) dir f (W, Some bytes) = (Inr (), insert dir W, Some bytes')"
    "journal_at cd bytes' (fs @ [f]) VERSION"
proof -
  obtain b where b: "writer_prepare cd None dir (W, Some bytes) = (Inr (), insert dir W, Some b)" "journal_at cd b fs VERSION"
  proof (cases "dir \<in> W")
    case True
    then show ?thesis
      using that[of bytes] assms(2,4) by (simp add: writer_prepare_def insert_absorb)
  next
    case False
    obtain b where "journal_prepare cd None (Some bytes) = (Inr (), Some b)" "journal_at cd b fs VERSION"
      by (rule prepare_at[OF assms(1,2)])
    then show ?thesis
      using that[of b] False by (simp add: writer_prepare_def)
  qed
  show ?thesis
    using b(1) append_at[OF assms(1) b(2) assms(3)]
    by (intro that[of "b @ cd_frame cd f @ [newline]"])
       (simp_all add: writer_append_def append_prepared_def append_line_def write_line_def)
qed

lemma appended_at:
  assumes "codec_ok cd F"
  shows "journal_at cd bytes old w \<Longrightarrow> dir \<in> W \<longrightarrow> w = VERSION \<Longrightarrow> set fs \<subseteq> F \<Longrightarrow>
     \<exists>W' bytes' w'. appended cd dir fs (W, Some bytes) = (W', Some bytes') \<and> journal_at cd bytes' (old @ fs) w'"
proof (induction fs arbitrary: bytes old w W)
  case (Cons f fs)
  obtain b where b: "writer_append cd (None, None) dir f (W, Some bytes) = (Inr (), insert dir W, Some b)"
      "journal_at cd b (old @ [f]) VERSION"
    using writer_append_at[OF assms Cons.prems(1) _ Cons.prems(2)] Cons.prems(3) by (metis insert_subset list.simps(15))
  show ?case
    using Cons.IH[OF b(2), of "insert dir W"] Cons.prems(3) by (simp add: appended_def b(1))
qed (auto simp: appended_def)

text \<open>
  C19: what was appended is replayed.  Whatever journal of this or an older version a
  store opens, and however many frames it then appends: a replay gives the frames the
  journal held and the new ones, in order and once, those after the number asked for.
\<close>

theorem replay_gives_what_was_appended:
  assumes "codec_ok cd F" "journal_at cd bytes old w" "set fs \<subseteq> F" "dir \<in> W \<longrightarrow> w = VERSION"
  shows "replay cd since (snd (appended cd dir fs (W, Some bytes))) = Inr (filter (\<lambda>f. since < fr_seq f) (old @ fs))"
proof -
  obtain W' bytes' w' where "appended cd dir fs (W, Some bytes) = (W', Some bytes')" "journal_at cd bytes' (old @ fs) w'"
    using appended_at[OF assms(1,2,4,3)] by blast
  then show ?thesis
    using replay_at[of cd bytes' "old @ fs" w' since] by simp
qed

lemma replay_cut:
  assumes "codec_ok cd F" "journal_at cd bytes fs VERSION" "f \<in> F"
  shows "replay cd since (Some (bytes @ take n (cd_frame cd f @ [newline])))
     = Inr (filter (\<lambda>f. since < fr_seq f) (fs @ (if n < length (cd_frame cd f) then [] else [f])))"
proof -
  let ?l = "cd_frame cd f"
  note w = writes_frame[OF assms(3), of cd]
  consider "n < length ?l" | "n = length ?l" | "length ?l < n"
    by linarith
  then show ?thesis
  proof cases
    case 1
    then have "newline \<notin> set (take n ?l)" "take n (?l @ [newline]) = take n ?l" "cd_probe cd (take n ?l) = None"
      using codec_okD(3)[OF assms(1) w] in_set_takeD[of newline n ?l] codec_okD(12)[OF assms(1) w] by auto
    then show ?thesis
      using replay_torn[OF assms(2), of "take n ?l" since] 1 by (simp add: decode_line_def)
  next
    case 2
    then show ?thesis
      using replay_torn[OF assms(2) codec_okD(3)[OF assms(1) w], of since] codec_okD(4)[OF assms(1) w]
      by (simp add: decode_frame[OF assms(1,3)])
  next
    case 3
    then show ?thesis
      using replay_at[OF append_at[OF assms]] by simp
  qed
qed

text \<open>
  C20: a write that a crash cuts short loses nothing else.  Wherever the append of a frame
  is cut, the caller is told, and a replay gives every frame from before it; of the cut
  one it gives all or nothing: all when at most the line break is missing.
\<close>

theorem torn_append_keeps_the_rest:
  assumes "codec_ok cd F" "journal_at cd bytes fs VERSION" "f \<in> F" "dir \<in> W"
    and "writer_append cd (None, Some n) dir f (W, Some bytes) = (r, W', file)"
  shows "r = Inl SeIo
    \<and> replay cd since file = Inr (filter (\<lambda>f. since < fr_seq f) (fs @ (if n < length (cd_frame cd f) then [] else [f])))"
  using assms(4,5) replay_cut[OF assms(1-3), of since n]
  by (auto simp: writer_append_def writer_prepare_def append_prepared_def append_line_def write_line_def)

text \<open>
  C25: a torn line swallows what is written next.  Nothing takes the rest of a cut line
  away, so after a crash in the middle of an append the store that opens the journal
  again writes its first frame right behind it: that append succeeds and its frame is
  lost, and with the one after it the journal cannot be read at all.
\<close>

theorem torn_line_swallows_the_next:
  assumes "codec_ok cd F" "journal_at cd bytes fs VERSION" "f \<in> F" "g \<in> F" "h \<in> F"
    and "0 < n" "n \<le> length (cd_frame cd f)" "file = bytes @ take n (cd_frame cd f @ [newline])"
    and "writer_append cd (None, None) dir g ({}, Some file) = (r1, W1, file1)"
    and "writer_append cd (None, None) dir h (W1, file1) = (r2, W2, file2)"
  shows "r1 = Inr () \<and> replay cd since file1 = Inr (filter (\<lambda>f. since < fr_seq f) fs)
    \<and> r2 = Inr () \<and> (\<exists>line. replay cd since file2 = Inl (SeLine line))"
proof -
  let ?t = "take n (cd_frame cd f)" and ?glued = "take n (cd_frame cd f) @ cd_frame cd g"
  note w = writes_frame[OF assms(3), of cd] writes_frame[OF assms(4), of cd] writes_frame[OF assms(5), of cd]
  have left: "file = bytes @ ?t"
    using assms(7,8) by simp
  have t: "newline \<notin> set ?t" "cd_probe cd ?t \<noteq> Some True"
    using codec_okD(3)[OF assms(1) w(1)] in_set_takeD[of newline n] codec_okD(12)[OF assms(1) w(1), of n]
      codec_okD(9)[OF assms(1,3)] by (cases "n < length (cd_frame cd f)"; auto)+
  have glued: "newline \<notin> set ?glued" "decode_line cd v ?glued = None" for v
    using t(1) codec_okD(3)[OF assms(1) w(2)] codec_okD(13)[OF assms(1) w(1,2) assms(6,7)] by (auto simp: decode_line_def)
  have one: "r1 = Inr ()" "W1 = {dir}" "file1 = Some (bytes @ unlines [?glued])"
    using assms(9) prepare_torn[OF assms(1,2) t(1)] t(2)
    by (auto simp: left writer_append_def writer_prepare_def append_prepared_def append_line_def write_line_def)
  then have two: "r2 = Inr ()" "file2 = Some (bytes @ unlines [?glued, cd_frame cd h])"
    using assms(10) by (auto simp: writer_append_def writer_prepare_def append_prepared_def append_line_def write_line_def)
  have "replay cd since file1 = Inr (filter (\<lambda>f. since < fr_seq f) fs)"
    using replay_more[OF assms(2), of "[?glued]" "[]" since] glued one(3) by simp
  moreover have "\<exists>line. replay cd since file2 = Inl (SeLine line)"
    using replay_more[OF assms(2), of "[?glued, cd_frame cd h]" "[]" since] glued two(2) codec_okD(3)[OF assms(1) w(3)] by simp
  ultimately show ?thesis
    using one(1) two(1) by simp
qed

subsection \<open>Witnesses\<close>

definition sample_note :: "nat \<Rightarrow> frame" where
  "sample_note n = \<lparr>fr_seq = n, fr_ts = 0, fr_session = ''s'', fr_cause = None, fr_event = EvNotice LvInfo ''C'' ''t''\<rparr>"

definition first_line_of :: "string \<Rightarrow> string" where
  "first_line_of s = takeWhile ((\<noteq>) newline) s"

definition sample_codec :: codec where
  "sample_codec =
     \<lparr>cd_header = (\<lambda>_. ''{h}''), cd_marker = ''{v}'', cd_frame = (\<lambda>f. if fr_seq f = 1 then ''{1}'' else ''{2}''),
      cd_read_header = (\<lambda>s. if first_line_of s = ''{h}'' then Some this_version else None),
      cd_probe = (\<lambda>s. if first_line_of s = ''{v}'' then Some True
                     else if s = ''{1}'' \<or> s = ''{2}'' then Some False else None),
      cd_read_marker = (\<lambda>s. if first_line_of s = ''{v}'' then Some this_version else None),
      cd_read_frame = (\<lambda>v s. if s = ''{1}'' then Some (sample_note 1) else if s = ''{2}'' then Some (sample_note 2) else None)\<rparr>"

lemma first_line_of_break [simp]: "first_line_of (l @ [newline]) = first_line_of l"
  by (induction l) (auto simp: first_line_of_def)

lemma sample_writes: "writes sample_codec {sample_note 1, sample_note 2} l \<longleftrightarrow> l = ''{v}'' \<or> l = ''{1}'' \<or> l = ''{2}''"
  by (auto simp: writes_def sample_codec_def sample_note_def)

lemma sample_codec_ok: "codec_ok sample_codec {sample_note 1, sample_note 2}"
proof -
  have probe: "cd_probe sample_codec (take n l) = None"
    if "l = ''{v}'' \<or> l = ''{1}'' \<or> l = ''{2}''" "n < length l" for l n
    using that by (cases n; cases "n - 1"; cases "n - 2") (auto simp: sample_codec_def first_line_of_def)
  have glued: "cd_probe sample_codec (take n l @ l') = None"
    if "l = ''{v}'' \<or> l = ''{1}'' \<or> l = ''{2}''" "l' = ''{v}'' \<or> l' = ''{1}'' \<or> l' = ''{2}''" "0 < n" "n \<le> length l" for l l' n
  proof -
    have "n = Suc 0 \<or> n = Suc (Suc 0) \<or> n = Suc (Suc (Suc 0))"
      using that(1,3,4) by auto
    then show ?thesis
      using that(1,2) by (auto simp: sample_codec_def first_line_of_def)
  qed
  have ended: "cd_read_header sample_codec (l @ [newline]) = cd_read_header sample_codec l"
      "cd_read_marker sample_codec (l @ [newline]) = cd_read_marker sample_codec l" for l
    by (simp_all add: sample_codec_def)
  show ?thesis
    unfolding codec_ok_def sample_writes
    by (intro conjI allI impI ballI)
       (auto simp: probe glued ended, auto simp: sample_codec_def first_line_of_def sample_note_def)
qed

theorem replay_gives_what_was_appended_witness:
  "replay sample_codec 1 (snd (appended sample_codec ''d'' [sample_note 1, sample_note 2] ({}, Some (''{h}'' @ [newline]))))
     = Inr [sample_note 2]"
  using replay_gives_what_was_appended[OF sample_codec_ok create_at[OF sample_codec_ok, of "''s''"], of "[sample_note 1, sample_note 2]" "''d''" "{}" 1]
  by (simp add: sample_codec_def sample_note_def)

theorem torn_append_keeps_the_rest_witness:
  "replay sample_codec 0 (Some (''{h}'' @ [newline] @ ''{1'')) = Inr []"
  using torn_append_keeps_the_rest[OF sample_codec_ok create_at[OF sample_codec_ok, of "''s''"], of "sample_note 1" "''d''" "{''d''}" 2 _ _ _ 0]
  by (simp add: sample_codec_def sample_note_def writer_append_def writer_prepare_def append_prepared_def append_line_def write_line_def)

theorem torn_line_swallows_the_next_witness:
  "\<exists>line. replay sample_codec 0
     (snd (snd (writer_append sample_codec (None, None) ''d'' (sample_note 2)
        (snd (writer_append sample_codec (None, None) ''d'' (sample_note 1) ({}, Some (''{h}'' @ [newline] @ ''{1'')))))))
     = Inl (SeLine line)"
proof -
  have "0 < (2 :: nat)" "2 \<le> length (cd_frame sample_codec (sample_note 1))"
    "''{h}'' @ [newline] @ ''{1'' = (cd_header sample_codec ''s'' @ [newline]) @ take 2 (cd_frame sample_codec (sample_note 1) @ [newline])"
    by (simp_all add: sample_codec_def sample_note_def)
  from torn_line_swallows_the_next[OF sample_codec_ok create_at[OF sample_codec_ok, of "''s''"] _ _ _ this] show ?thesis
    by (metis insertCI prod.collapse)
qed

end
