(* ===== verification/Store_Checkpoint.thy ===== *)
theory Store_Checkpoint
  imports Store_Journal
begin

text \<open>
  Checkpoints beside the journal (\<open>bingo-store-jsonl/src/checkpoint.rs\<close>,
  \<open>checkpoint/witness.rs\<close>, \<open>bingo-sdk/src/store/checkpoint.rs\<close>): a state with the place of the
  line it was taken at and the hash of that line.  A resume trusts it only when the line
  is still there.  How checkpoints and frames are spelled as JSON and the digest of a
  line are parameters (\<open>checkpoint_codec\<close>).
\<close>

section \<open>The line before an offset\<close>

fun rposition :: "('a \<Rightarrow> bool) \<Rightarrow> 'a list \<Rightarrow> nat option" where
  "rposition P [] = None"
| "rposition P (x # xs) =
     (case rposition P xs of Some i \<Rightarrow> Some (Suc i) | None \<Rightarrow> if P x then Some 0 else None)"

definition BLOCK :: nat where
  "BLOCK = 8192"

function previous_newline :: "string \<Rightarrow> nat \<Rightarrow> nat option" where
  "previous_newline file end =
     (if end = 0 then None
      else let start = end - BLOCK in
           case rposition ((=) newline) (take (end - start) (drop start file)) of
             Some at \<Rightarrow> Some (start + at)
           | None \<Rightarrow> previous_newline file start)"
  by pat_completeness auto
termination
  by (relation "measure snd") (auto simp: BLOCK_def)

declare previous_newline.simps [simp del]

definition line_start :: "string \<Rightarrow> nat \<Rightarrow> nat" where
  "line_start file end = (case previous_newline file end of None \<Rightarrow> 0 | Some at \<Rightarrow> at + 1)"

datatype checkpoint_error =
    CeIo
  | CeFormat
  | CeIdentity
  | CeOffset
  | CeHash
  | CeNotAFrame
  | CeAbsent
  | CeUnreadable
  | CeJournal storage_error

definition before_offset :: "string \<Rightarrow> nat \<Rightarrow> checkpoint_error + nat \<times> string" where
  "before_offset file end =
     (if end = 0 \<or> end > length file \<or> file ! (end - 1) \<noteq> newline then Inl CeOffset
      else let start = line_start file (end - 1) in Inr (start, take (end - start) (drop start file)))"

section \<open>Checkpoints\<close>

definition CHECKPOINT_FORMAT :: string where
  "CHECKPOINT_FORMAT = ''bingo-checkpoint''"

definition CHECKPOINT_VERSION :: u32 where
  "CHECKPOINT_VERSION = 3"

record store_checkpoint =
  cp_format :: string
  cp_version :: u32
  cp_seq :: seq
  cp_offset :: nat
  cp_line_hash :: string
  cp_state :: session_state

definition checkpoint_new :: "session_state \<Rightarrow> store_checkpoint" where
  "checkpoint_new s =
     \<lparr>cp_format = CHECKPOINT_FORMAT, cp_version = CHECKPOINT_VERSION, cp_seq = st_seq s, cp_offset = 0,
      cp_line_hash = [], cp_state = s\<rparr>"

record checkpoint_codec =
  ck_encode :: "store_checkpoint \<Rightarrow> string"
  ck_decode :: "string \<Rightarrow> store_checkpoint option"
  ck_frame :: "string \<Rightarrow> frame option"
  ck_hash :: "string \<Rightarrow> string"

function locate_from :: "checkpoint_codec \<Rightarrow> string \<Rightarrow> session_id \<Rightarrow> seq \<Rightarrow> nat \<Rightarrow> checkpoint_error + nat \<times> string" where
  "locate_from ck file session sq end =
     (if end = 0 then Inl CeAbsent
      else case before_offset file end of
             Inl e \<Rightarrow> Inl e
           | Inr (start, line) \<Rightarrow>
               (case ck_frame ck line of
                  Some f \<Rightarrow>
                    if fr_seq f = sq \<and> fr_session f = session then Inr (end, line)
                    else if fr_seq f < sq then Inl CeAbsent
                    else if start < end then locate_from ck file session sq start else Inl CeAbsent
                | None \<Rightarrow> if start < end then locate_from ck file session sq start else Inl CeAbsent))"
  by pat_completeness auto
termination
  by (relation "measure (\<lambda>(_, _, _, _, e). e)") auto

declare locate_from.simps [simp del]

definition locate :: "checkpoint_codec \<Rightarrow> string \<Rightarrow> session_id \<Rightarrow> seq \<Rightarrow> checkpoint_error + nat \<times> string" where
  "locate ck file session sq = locate_from ck file session sq (line_start file (length file))"

definition check_identity :: "store_checkpoint \<Rightarrow> session_id \<Rightarrow> checkpoint_error option" where
  "check_identity cp session =
     (if cp_format cp \<noteq> CHECKPOINT_FORMAT \<or> cp_version cp \<noteq> CHECKPOINT_VERSION then Some CeFormat
      else if ss_id (st_summary (cp_state cp)) \<noteq> session \<or> st_seq (cp_state cp) \<noteq> cp_seq cp then Some CeIdentity
      else None)"

text \<open>The directory of a session: the bytes of its journal and of its checkpoint, where they exist.\<close>

record session_files =
  sf_journal :: "string option"
  sf_checkpoint :: "string option"

definition checkpoint_read :: "checkpoint_codec \<Rightarrow> session_id \<Rightarrow> session_files \<Rightarrow> checkpoint_error + store_checkpoint" where
  "checkpoint_read ck session dir =
     (case sf_checkpoint dir of
        None \<Rightarrow> Inl CeIo
      | Some bytes \<Rightarrow>
          (case ck_decode ck bytes of
             None \<Rightarrow> Inl CeUnreadable
           | Some cp \<Rightarrow>
               (case check_identity cp session of
                  Some e \<Rightarrow> Inl e
                | None \<Rightarrow>
                    (case sf_journal dir of
                       None \<Rightarrow> Inl CeIo
                     | Some file \<Rightarrow>
                         (case before_offset file (cp_offset cp) of
                            Inl e \<Rightarrow> Inl e
                          | Inr (_, line) \<Rightarrow>
                              if ck_hash ck line \<noteq> cp_line_hash cp then Inl CeHash
                              else case ck_frame ck line of
                                     None \<Rightarrow> Inl CeNotAFrame
                                   | Some f \<Rightarrow>
                                       if fr_seq f \<noteq> cp_seq cp \<or> fr_session f \<noteq> session then Inl CeIdentity
                                       else Inr cp)))))"

text \<open>\<open>ok\<close>: the temporary file was written and renamed; the rename replaces the old one whole.\<close>

definition checkpoint_store ::
  "checkpoint_codec \<Rightarrow> bool \<Rightarrow> session_id \<Rightarrow> store_checkpoint \<Rightarrow> session_files \<Rightarrow> (checkpoint_error + unit) \<times> session_files" where
  "checkpoint_store ck ok session cp dir =
     (case check_identity cp session of
        Some e \<Rightarrow> (Inl e, dir)
      | None \<Rightarrow>
          if (case checkpoint_read ck session dir of Inr old \<Rightarrow> cp_seq old > cp_seq cp | Inl _ \<Rightarrow> False) then (Inr (), dir)
          else case sf_journal dir of
                 None \<Rightarrow> (Inl CeIo, dir)
               | Some file \<Rightarrow>
                   (case locate ck file session (cp_seq cp) of
                      Inl e \<Rightarrow> (Inl e, dir)
                    | Inr (offset, line) \<Rightarrow>
                        if ok
                        then (Inr (), dir\<lparr>sf_checkpoint :=
                                Some (ck_encode ck (cp\<lparr>cp_offset := offset, cp_line_hash := ck_hash ck line\<rparr>))\<rparr>)
                        else (Inl CeIo, dir)))"

record store_resumed =
  sr_state :: "session_state option"
  sr_tail :: "frame list"

text \<open>
  A journal whose first frame names the session gets a new checkpoint; a failure of that
  is only reported.  \<open>torn\<close> and \<open>ok\<close> are what the disk does in it.
\<close>

definition checkpoint_repair ::
  "codec \<Rightarrow> checkpoint_codec \<Rightarrow> nat option \<Rightarrow> bool \<Rightarrow> session_id \<Rightarrow> frame list \<Rightarrow> session_files \<Rightarrow> session_files" where
  "checkpoint_repair cd ck torn ok session fs dir =
     (case fs of
        [] \<Rightarrow> dir
      | f # _ \<Rightarrow>
          (case fr_event f of
             EvSessionUpdated summary \<Rightarrow>
               (let s = state_fold (state_new summary) fs;
                    s' = s\<lparr>st_transcript := drop_before_cut (st_transcript s)\<rparr>
                in case journal_prepare cd torn (sf_journal dir) of
                     (Inl _, file) \<Rightarrow> dir\<lparr>sf_journal := file\<rparr>
                   | (Inr _, file) \<Rightarrow>
                       snd (checkpoint_store ck ok session (checkpoint_new s') (dir\<lparr>sf_journal := file\<rparr>)))
           | _ \<Rightarrow> dir))"

definition checkpoint_resume ::
  "codec \<Rightarrow> checkpoint_codec \<Rightarrow> nat option \<Rightarrow> bool \<Rightarrow> session_id \<Rightarrow> session_files \<Rightarrow>
   store_resumed stored_result \<times> session_files" where
  "checkpoint_resume cd ck torn ok session dir =
     (case (case checkpoint_read ck session dir of
              Inl e \<Rightarrow> None
            | Inr cp \<Rightarrow>
                (case tail_after cd (cp_offset cp) (sf_journal dir) of
                   Inl e \<Rightarrow> None
                 | Inr tail \<Rightarrow> Some \<lparr>sr_state = Some (cp_state cp), sr_tail = tail\<rparr>)) of
        Some r \<Rightarrow> (Inr r, dir)
      | None \<Rightarrow>
          (case replay cd 0 (sf_journal dir) of
             Inl e \<Rightarrow> (Inl e, dir)
           | Inr tail \<Rightarrow>
               (Inr \<lparr>sr_state = None, sr_tail = tail\<rparr>, checkpoint_repair cd ck torn ok session tail dir)))"

section \<open>Where lines begin and end\<close>

lemma rposition_append:
  "rposition P (xs @ ys) = (case rposition P ys of Some i \<Rightarrow> Some (length xs + i) | None \<Rightarrow> rposition P xs)"
  by (induction xs) (auto split: option.splits)

lemma rposition_None: "rposition P xs = None \<longleftrightarrow> (\<forall>x \<in> set xs. \<not> P x)"
  by (induction xs) (auto split: option.splits)

lemma previous_newline_last: "previous_newline file end = rposition ((=) newline) (take end file)"
proof (induction "end" rule: less_induct)
  case (less "end")
  show ?case
  proof (cases "end = 0")
    case False
    let ?start = "end - BLOCK"
    have "take end file = take ?start file @ take (end - ?start) (drop ?start file)"
      by (metis diff_le_self le_add_diff_inverse take_add)
    moreover have "?start < end"
      using False by (simp add: BLOCK_def)
    moreover have "length (take ?start file) = ?start \<or> take (end - ?start) (drop ?start file) = []"
      by auto
    ultimately show ?thesis
      using False less[of ?start] by (subst previous_newline.simps) (auto simp: rposition_append Let_def split: option.split)
  qed (simp add: previous_newline.simps)
qed

lemma line_start_unlines:
  assumes "newline \<notin> set t" "take end file = unlines xs @ t"
  shows "line_start file end = length (unlines xs)"
proof -
  have "rposition ((=) newline) t = None"
    using assms(1) by (auto simp: rposition_None)
  moreover have "rposition ((=) newline) (unlines xs) = (if xs = [] then None else Some (length (unlines xs) - 1))"
    by (cases xs rule: rev_cases) (simp_all add: rposition_append)
  moreover have "length (unlines xs) \<noteq> 0 \<or> xs = []"
    by (cases xs) auto
  ultimately show ?thesis
    by (auto simp: line_start_def previous_newline_last assms(2) rposition_append)
qed

lemma before_line:
  assumes "newline \<notin> set l"
  shows "before_offset (unlines (xs @ l # ys)) (length (unlines (xs @ [l]))) = Inr (length (unlines xs), l @ [newline])"
proof -
  let ?file = "unlines (xs @ l # ys)" and ?stop = "length (unlines (xs @ [l]))"
  have "take (?stop - 1) ?file = unlines xs @ l"
    by simp
  then have "line_start ?file (?stop - 1) = length (unlines xs)"
    by (rule line_start_unlines[OF assms])
  moreover have "?file ! (?stop - 1) = newline"
    by (simp add: nth_append)
  ultimately show ?thesis
    by (simp add: before_offset_def)
qed

lemma newline_ends_line:
  "whole_lines ls \<Longrightarrow> i < length (unlines ls) \<Longrightarrow> unlines ls ! i = newline \<Longrightarrow>
     \<exists>xs l ys. ls = xs @ l # ys \<and> Suc i = length (unlines (xs @ [l]))"
proof (induction ls arbitrary: i)
  case (Cons l ls)
  consider "i < length l" | "i = length l" | "length l < i"
    by linarith
  then show ?case
  proof cases
    case 1
    then have "l ! i = newline"
      using Cons.prems(3) by (simp add: nth_append)
    then show ?thesis
      using Cons.prems(1) nth_mem[OF 1] by simp
  next
    case 2
    then show ?thesis
      by (intro exI[of _ "[]"] exI[of _ l] exI[of _ ls]) simp
  next
    case 3
    then have "unlines ls ! (i - Suc (length l)) = newline" "i - Suc (length l) < length (unlines ls)"
      using Cons.prems(2,3) by (simp_all add: nth_append nth_Cons')
    then obtain xs k ys where "ls = xs @ k # ys" "Suc (i - Suc (length l)) = length (unlines (xs @ [k]))"
      using Cons.IH Cons.prems(1) by fastforce
    then show ?thesis
      using 3 by (intro exI[of _ "l # xs"] exI[of _ k] exI[of _ ys]) simp
  qed
qed simp

lemma before_offset_line:
  assumes "whole_lines ls" "before_offset (unlines ls) end = Inr (start, line)"
  obtains xs l ys where "ls = xs @ l # ys" "end = length (unlines (xs @ [l]))" "line = l @ [newline]"
proof -
  have e: "end \<noteq> 0" "end - 1 < length (unlines ls)" "unlines ls ! (end - 1) = newline"
    using assms(2) by (auto simp: before_offset_def split: if_splits)
  obtain xs l ys where ls: "ls = xs @ l # ys" "end = length (unlines (xs @ [l]))"
    using newline_ends_line[OF assms(1) e(2,3)] e(1) by auto
  have "newline \<notin> set l"
    using assms(1) ls(1) by simp
  from before_line[OF this, of xs ys] have "line = l @ [newline]"
    using assms(2) unfolding ls by simp
  with that ls show thesis
    by blast
qed


section \<open>A journal of this version\<close>

abbreviation journal_lines :: "codec \<Rightarrow> session_id \<Rightarrow> frame list \<Rightarrow> string list" where
  "journal_lines cd session fs \<equiv> cd_header cd session # map (cd_frame cd) fs"

definition journal_of :: "codec \<Rightarrow> session_id \<Rightarrow> frame list \<Rightarrow> string" where
  "journal_of cd session fs = unlines (journal_lines cd session fs)"

definition numbered :: "session_id \<Rightarrow> frame list \<Rightarrow> bool" where
  "numbered session fs \<longleftrightarrow>
     sorted_wrt (<) (map fr_seq fs) \<and> (\<forall>f \<in> set fs. 0 < fr_seq f \<and> fr_session f = session)"

text \<open>A line read on its own names its frame; a header is not a frame.\<close>

definition lines_ok :: "checkpoint_codec \<Rightarrow> codec \<Rightarrow> frame set \<Rightarrow> bool" where
  "lines_ok ck cd F \<longleftrightarrow>
     (\<forall>s. ck_frame ck (cd_header cd s @ [newline]) = None)
     \<and> (\<forall>f \<in> F. \<exists>g. ck_frame ck (cd_frame cd f @ [newline]) = Some g \<and> fr_seq g = fr_seq f \<and> fr_session g = fr_session f)"

lemma whole_journal_lines: "codec_ok cd F \<Longrightarrow> set fs \<subseteq> F \<Longrightarrow> whole_lines (journal_lines cd session fs)"
  using codec_okD(1,3) writes_frame by (fastforce simp: subset_iff)

lemma reads_frames: "codec_ok cd F \<Longrightarrow> set fs \<subseteq> F \<Longrightarrow> reads cd VERSION (map (cd_frame cd) fs) = Some (fs, VERSION)"
  by (induction fs) (simp_all add: decode_frame)

lemma header_ok: "codec_ok cd F \<Longrightarrow> check_header cd (Some (cd_header cd s)) = Inr VERSION"
  by (simp add: check_header_def codec_okD(2))

lemma journal_of_at: "codec_ok cd F \<Longrightarrow> set fs \<subseteq> F \<Longrightarrow> journal_at cd (journal_of cd session fs) fs VERSION"
  unfolding journal_at_def journal_of_def
  by (intro exI[of _ "cd_header cd session"] exI[of _ "map (cd_frame cd) fs"] exI[of _ VERSION] conjI refl
      whole_journal_lines header_ok reads_frames)

lemma numbered_split:
  assumes "numbered session (xs @ f # ys)"
  shows "filter (\<lambda>g. fr_seq f < fr_seq g) (xs @ f # ys) = ys" "filter (\<lambda>g. 0 < fr_seq g) ys = ys"
    "\<forall>g \<in> set ys. fr_seq f < fr_seq g" "fr_session f = session"
proof -
  have order: "\<forall>g \<in> set xs. fr_seq g < fr_seq f" "\<forall>g \<in> set ys. fr_seq f < fr_seq g"
    using assms by (simp_all add: numbered_def sorted_wrt_append sorted_wrt_map)
  then show "\<forall>g \<in> set ys. fr_seq f < fr_seq g"
    by simp
  have "filter (\<lambda>g. fr_seq f < fr_seq g) xs = []" "filter (\<lambda>g. fr_seq f < fr_seq g) ys = ys"
    using order by (auto simp: filter_empty_conv filter_id_conv dest: order.asym)
  then show "filter (\<lambda>g. fr_seq f < fr_seq g) (xs @ f # ys) = ys"
    by simp
  show "filter (\<lambda>g. 0 < fr_seq g) ys = ys" "fr_session f = session"
    using assms by (simp_all add: numbered_def filter_id_conv)
qed

lemma journal_line_split:
  assumes "journal_lines cd session fs = xs @ l # ys" "lines_ok ck cd F" "ck_frame ck (l @ [newline]) = Some g" "set fs \<subseteq> F"
  obtains as f bs where "fs = as @ f # bs" "l = cd_frame cd f" "xs = journal_lines cd session as" "ys = map (cd_frame cd) bs"
    "fr_seq g = fr_seq f" "fr_session g = fr_session f"
proof (cases xs)
  case Nil
  then have "ck_frame ck (l @ [newline]) = None"
    using assms(1,2) by (auto simp: lines_ok_def)
  then show thesis
    using assms(3) by simp
next
  case (Cons x xs')
  then have x: "x = cd_header cd session" "map (cd_frame cd) fs = xs' @ l # ys"
    using assms(1) by simp_all
  from x(2) obtain as bs' where fs: "fs = as @ bs'" "map (cd_frame cd) as = xs'" "map (cd_frame cd) bs' = l # ys"
    by (auto simp: map_eq_append_conv)
  then obtain f bs where bs: "bs' = f # bs" "cd_frame cd f = l" "map (cd_frame cd) bs = ys"
    by (auto simp: map_eq_Cons_conv)
  have "f \<in> F"
    using assms(4) fs(1) bs(1) by auto
  then have "fr_seq g = fr_seq f" "fr_session g = fr_session f"
    using assms(2,3) bs(2) by (auto simp: lines_ok_def)
  then show thesis
    by (intro that[of as f bs]) (use fs bs x Cons in simp_all)
qed

lemma tail_after_line:
  assumes "codec_ok cd F" "set (as @ f # bs) \<subseteq> F"
  shows "tail_after cd (length (unlines (journal_lines cd session (as @ [f])))) (Some (journal_of cd session (as @ f # bs)))
    = Inr (filter (\<lambda>g. 0 < fr_seq g) bs)"
proof -
  let ?h = "cd_header cd session" and ?bs = "map (cd_frame cd) bs"
  have "journal_of cd session (as @ f # bs) = unlines (journal_lines cd session (as @ [f])) @ unlines ?bs"
    by (simp add: journal_of_def)
  then have "drop (length (unlines (journal_lines cd session (as @ [f])))) (journal_of cd session (as @ f # bs)) = unlines ?bs"
    by simp
  moreover have "file_lines (unlines ?bs) = ?bs"
    using file_lines_unlines[of ?bs "[]"] whole_journal_lines[OF assms(1), of "as @ f # bs"] assms(2) by simp
  moreover have "read_until_lines (journal_of cd session (as @ f # bs)) = map (\<lambda>l. l @ [newline]) (journal_lines cd session (as @ f # bs))"
    using read_until_unlines[OF whole_journal_lines[OF assms], of "[]"] by (simp add: journal_of_def)
  ultimately show ?thesis
    using frames_loop_reads[OF reads_frames[OF assms(1), of bs], of 0 1 "[]"] assms(2)
    by (simp add: tail_after_def journal_frames_def check_header_break[OF assms(1)] header_ok[OF assms(1)])
qed

text \<open>What a checkpoint that is trusted says.\<close>

lemma checkpoint_read_line:
  assumes "checkpoint_read ck session dir = Inr cp" "sf_journal dir = Some (journal_of cd session fs)"
    and "codec_ok cd F" "lines_ok ck cd F" "set fs \<subseteq> F"
  obtains as f bs where "fs = as @ f # bs" "cp_offset cp = length (unlines (journal_lines cd session (as @ [f])))"
    "st_seq (cp_state cp) = fr_seq f" "ss_id (st_summary (cp_state cp)) = session"
proof -
  obtain start line g where r: "before_offset (journal_of cd session fs) (cp_offset cp) = Inr (start, line)"
      "ck_frame ck line = Some g" "fr_seq g = cp_seq cp" "check_identity cp session = None"
    using assms(1,2) by (auto simp: checkpoint_read_def split: option.splits sum.splits if_splits prod.splits)
  obtain xs l ys where l: "journal_lines cd session fs = xs @ l # ys" "cp_offset cp = length (unlines (xs @ [l]))" "line = l @ [newline]"
    using before_offset_line[OF whole_journal_lines[OF assms(3,5)]] r(1) unfolding journal_of_def by metis
  have "ck_frame ck (l @ [newline]) = Some g"
    using r(2) l(3) by simp
  then obtain as f bs where "fs = as @ f # bs" "l = cd_frame cd f" "xs = journal_lines cd session as" "fr_seq g = fr_seq f"
    by (rule journal_line_split[OF l(1) assms(4) _ assms(5)])
  then show thesis
    using l(2) r(3,4) by (intro that[of as f bs]) (auto simp: check_identity_def split: if_splits)
qed


lemma locate_line:
  assumes "codec_ok cd F" "lines_ok ck cd F" "set (as @ f # bs) \<subseteq> F" "numbered session (as @ f # bs)"
  shows "locate ck (journal_of cd session (as @ f # bs)) session (fr_seq f)
    = Inr (length (unlines (journal_lines cd session (as @ [f]))), cd_frame cd f @ [newline])"
proof -
  let ?file = "journal_of cd session (as @ f # bs)"
  have line: "before_offset ?file (length (unlines (journal_lines cd session (xs @ [g]))))
      = Inr (length (unlines (journal_lines cd session xs)), cd_frame cd g @ [newline])"
    if "as @ f # bs = xs @ g # ys" for xs g ys
    using before_line[of "cd_frame cd g" "journal_lines cd session xs" "map (cd_frame cd) ys"]
      codec_okD(3)[OF assms(1) writes_frame, of g] that assms(3) unfolding journal_of_def by auto
  have found: "locate_from ck ?file session (fr_seq f) (length (unlines (journal_lines cd session (as @ f # xs))))
      = Inr (length (unlines (journal_lines cd session (as @ [f]))), cd_frame cd f @ [newline])" if "bs = xs @ ys" for xs ys
    using that
  proof (induction xs arbitrary: ys rule: rev_induct)
    case Nil
    obtain g where "ck_frame ck (cd_frame cd f @ [newline]) = Some g" "fr_seq g = fr_seq f" "fr_session g = session"
      using assms(2,3) numbered_split(4)[OF assms(4)] by (auto simp: lines_ok_def)
    then show ?case
      using line[of as f bs] by (subst locate_from.simps) simp
  next
    case (snoc x xs)
    obtain g where g: "ck_frame ck (cd_frame cd x @ [newline]) = Some g" "fr_seq g = fr_seq x"
      using assms(2,3) snoc.prems by (auto simp: lines_ok_def)
    moreover have "fr_seq f < fr_seq x"
      using numbered_split(3)[OF assms(4)] snoc.prems by simp
    ultimately show ?case
      using line[of "as @ f # xs" x ys] snoc.IH[of "x # ys"] snoc.prems by (subst locate_from.simps) simp
  qed
  have "locate_from ck ?file session (fr_seq f) (length ?file)
      = Inr (length (unlines (journal_lines cd session (as @ [f]))), cd_frame cd f @ [newline])"
    using found[of bs "[]"] by (simp add: journal_of_def)
  moreover have "line_start ?file (length ?file) = length ?file"
    using line_start_unlines[of "[]" "length ?file" ?file "journal_lines cd session (as @ f # bs)"] by (simp add: journal_of_def)
  ultimately show ?thesis
    by (simp add: locate_def)
qed



subsection \<open>Witnesses\<close>

definition sample_head :: session_state where
  "sample_head = (state_new sample_summary)\<lparr>st_seq := 1\<rparr>"

definition sample_checkpoint_codec :: checkpoint_codec where
  "sample_checkpoint_codec =
     \<lparr>ck_encode = (\<lambda>cp. replicate (cp_offset cp) CHR ''x'' @ newline # cp_line_hash cp),
      ck_decode = (\<lambda>b. Some ((checkpoint_new sample_head)
         \<lparr>cp_offset := length (takeWhile ((\<noteq>) newline) b), cp_line_hash := drop 1 (dropWhile ((\<noteq>) newline) b)\<rparr>)),
      ck_frame = (\<lambda>l. if l = ''{1}'' @ [newline] then Some (sample_note 1)
                      else if l = ''{2}'' @ [newline] then Some (sample_note 2) else None),
      ck_hash = (\<lambda>l. l)\<rparr>"

lemma sample_lines_ok: "lines_ok sample_checkpoint_codec sample_codec {sample_note 1, sample_note 2}"
  by (simp add: lines_ok_def sample_checkpoint_codec_def sample_codec_def sample_note_def)

lemma sample_numbered: "numbered ''s'' [sample_note 1, sample_note 2]"
  by (simp add: numbered_def sample_note_def)



end
