(* ===== verification/Store_Sessions.thy ===== *)
theory Store_Sessions
  imports Store_Checkpoint "HOL-Library.Multiset"
begin

text \<open>
  The sessions of a store: who owns one (\<open>bingo-store-jsonl/src/lock.rs\<close>), the derived summary
  (\<open>summary.rs\<close>, \<open>append_frame\<close> of \<open>lib.rs\<close>) and the collection of old ones (\<open>gc.rs\<close>).
\<close>

section \<open>Ownership\<close>

text \<open>
  What the operating system knows: which store holds the lock file of which session.  A
  store keeps its own list too; a store is a number here.
\<close>

type_synonym os_locks = "session_id \<rightharpoonup> nat"

definition take_lock :: "nat \<Rightarrow> session_id \<Rightarrow> os_locks \<Rightarrow> os_locks option" where
  "take_lock me session os = (if os session = None then Some (os(session \<mapsto> me)) else None)"

definition lock_held :: "session_id \<Rightarrow> os_locks \<Rightarrow> bool" where
  "lock_held session os \<longleftrightarrow> os session \<noteq> None"

record locks =
  lo_os :: os_locks
  lo_held :: "nat \<Rightarrow> session_id set"

definition locks_acquire :: "nat \<Rightarrow> session_id \<Rightarrow> locks \<Rightarrow> bool \<times> locks" where
  "locks_acquire me session lo =
     (if session \<in> lo_held lo me then (False, lo)
      else case take_lock me session (lo_os lo) of
             None \<Rightarrow> (False, lo)
           | Some os \<Rightarrow> (True, lo\<lparr>lo_os := os, lo_held := (lo_held lo)(me := insert session (lo_held lo me))\<rparr>))"

definition locks_release :: "nat \<Rightarrow> session_id \<Rightarrow> locks \<Rightarrow> locks" where
  "locks_release me session lo =
     (if session \<in> lo_held lo me
      then lo\<lparr>lo_os := (lo_os lo)(session := None), lo_held := (lo_held lo)(me := lo_held lo me - {session})\<rparr>
      else lo)"

text \<open>\<open>gone\<close>: the directory could be removed.  A failure gives the claim back.\<close>

definition locks_remove :: "nat \<Rightarrow> session_id \<Rightarrow> bool \<Rightarrow> locks \<Rightarrow> bool \<times> locks" where
  "locks_remove me session gone lo =
     (if session \<in> lo_held lo me
      then (if gone then (True, locks_release me session lo) else (False, lo))
      else case take_lock me session (lo_os lo) of
             None \<Rightarrow> (False, lo)
           | Some os \<Rightarrow>
               if gone then (True, lo)
               else (False, lo\<lparr>lo_os := os, lo_held := (lo_held lo)(me := insert session (lo_held lo me))\<rparr>))"

datatype lock_step = LsAcquire nat session_id | LsRelease nat session_id | LsRemove nat session_id bool

definition lock_step :: "lock_step \<Rightarrow> locks \<Rightarrow> locks" where
  "lock_step st lo =
     (case st of
        LsAcquire me session \<Rightarrow> snd (locks_acquire me session lo)
      | LsRelease me session \<Rightarrow> locks_release me session lo
      | LsRemove me session gone \<Rightarrow> snd (locks_remove me session gone lo))"

definition locks_new :: locks where
  "locks_new = \<lparr>lo_os = Map.empty, lo_held = (\<lambda>_. {})\<rparr>"

definition locks_agree :: "locks \<Rightarrow> bool" where
  "locks_agree lo \<longleftrightarrow> (\<forall>me session. session \<in> lo_held lo me \<longleftrightarrow> lo_os lo session = Some me)"

lemma locks_agree_step: "locks_agree lo \<Longrightarrow> locks_agree (lock_step st lo)"
  by (cases st)
     (auto simp: locks_agree_def lock_step_def locks_acquire_def locks_release_def locks_remove_def take_lock_def)

lemma locks_agree_run: "locks_agree lo \<Longrightarrow> locks_agree (foldl (\<lambda>lo st. lock_step st lo) lo steps)"
  by (induction steps arbitrary: lo) (simp_all add: locks_agree_step)

text \<open>
  One owner at a time: whatever stores acquire, release and remove, in any order, two
  stores never both hold a session, and a second claim is refused while one stands.
\<close>

lemma one_owner:
  assumes "lo = foldl (\<lambda>lo st. lock_step st lo) locks_new steps" "session \<in> lo_held lo me"
  shows "session \<in> lo_held lo you \<longrightarrow> you = me" and "\<not> fst (locks_acquire you session lo)"
proof -
  have "locks_agree locks_new"
    by (simp add: locks_agree_def locks_new_def)
  then have "locks_agree lo"
    unfolding assms(1) by (rule locks_agree_run)
  then show "session \<in> lo_held lo you \<longrightarrow> you = me" "\<not> fst (locks_acquire you session lo)"
    using assms(2) by (auto simp: locks_agree_def locks_acquire_def take_lock_def)
qed

section \<open>Collection\<close>

definition DAY :: int where
  "DAY = 24 * 60 * 60"

definition as_second :: "timestamp \<Rightarrow> int" where
  "as_second t = (if t < 0 then - ((- t) div 1000000000) else t div 1000000000)"

record stored_session =
  sd_id :: session_id
  sd_updated_at :: timestamp

record gc =
  gc_now :: timestamp
  gc_keep_days :: int
  gc_keep_sessions :: nat

definition gc_daily :: "timestamp \<Rightarrow> gc" where
  "gc_daily now = \<lparr>gc_now = now, gc_keep_days = 30, gc_keep_sessions = 100\<rparr>"

definition gc_due :: "gc \<Rightarrow> timestamp option \<Rightarrow> bool" where
  "gc_due g stamp = (case stamp of Some t \<Rightarrow> as_second (gc_now g) - as_second t \<ge> DAY | None \<Rightarrow> True)"

definition gc_condemned :: "gc \<Rightarrow> stored_session list \<Rightarrow> stored_session list" where
  "gc_condemned g sessions =
     (let cutoff = as_second (gc_now g) - gc_keep_days g * DAY
      in map snd (filter (\<lambda>(rank, s). rank \<ge> gc_keep_sessions g \<or> as_second (sd_updated_at s) < cutoff)
                   (enumerate 0 sessions)))"

text \<open>Newest first; sessions of the same time stay in the order of their ids, in which they come.\<close>

definition newest_first :: "stored_session list \<Rightarrow> stored_session list" where
  "newest_first sessions = sort_key (\<lambda>s. - sd_updated_at s) sessions"

text \<open>
  \<open>remove\<close> gives, for a session, whether its directory went: \<open>False\<close> when somebody holds
  it, an error when the disk refuses, which ends the collection.
\<close>

fun gc_remove_all :: "(session_id \<Rightarrow> kernel_error + bool) \<Rightarrow> stored_session list \<Rightarrow> kernel_error + session_id list" where
  "gc_remove_all remove [] = Inr []"
| "gc_remove_all remove (s # ss) =
     (case remove (sd_id s) of
        Inl e \<Rightarrow> Inl e
      | Inr gone \<Rightarrow>
          (case gc_remove_all remove ss of
             Inl e \<Rightarrow> Inl e
           | Inr removed \<Rightarrow> Inr (if gone then sd_id s # removed else removed)))"

definition gc_collect ::
  "gc \<Rightarrow> (session_id \<Rightarrow> kernel_error + bool) \<Rightarrow> stored_session list \<Rightarrow> kernel_error + session_id list" where
  "gc_collect g remove sessions =
     (case gc_remove_all remove (gc_condemned g (newest_first sessions)) of
        Inl e \<Rightarrow> Inl e
      | Inr removed \<Rightarrow> Inr (sort removed))"

text \<open>The second part is the stamp afterwards; a failed collection leaves it, so it is tried again.\<close>

definition gc_run ::
  "gc \<Rightarrow> timestamp option \<Rightarrow> (session_id \<Rightarrow> kernel_error + bool) \<Rightarrow> stored_session list
     \<Rightarrow> (kernel_error + session_id list) \<times> timestamp option" where
  "gc_run g stamp remove sessions =
     (if \<not> gc_due g stamp then (Inr [], stamp)
      else case gc_collect g remove sessions of
             Inl e \<Rightarrow> (Inl e, stamp)
           | Inr removed \<Rightarrow> (Inr removed, Some (gc_now g)))"

lemma removed_iff:
  assumes "gc_remove_all remove ss = Inr removed"
  shows "i \<in> set removed \<longleftrightarrow> (\<exists>s \<in> set ss. sd_id s = i \<and> remove i = Inr True)"
  using assms by (induction ss arbitrary: removed) (auto split: sum.splits if_splits)

lemma condemned_iff:
  "s \<in> set (gc_condemned g sessions) \<longleftrightarrow>
     (\<exists>rank < length sessions. sessions ! rank = s
        \<and> (gc_keep_sessions g \<le> rank \<or> as_second (sd_updated_at s) < as_second (gc_now g) - gc_keep_days g * DAY))"
  by (force simp: gc_condemned_def Let_def in_set_enumerate_eq)

lemma newer_before:
  assumes "rank < length sessions"
  shows "length (filter (\<lambda>s. sd_updated_at s > sd_updated_at (newest_first sessions ! rank)) sessions) \<le> rank"
    and "rank < length (filter (\<lambda>s. sd_updated_at s \<ge> sd_updated_at (newest_first sessions ! rank)) sessions)"
proof -
  let ?xs = "newest_first sessions" and ?u = "sd_updated_at (newest_first sessions ! rank)"
  have len: "length ?xs = length sessions"
    by (simp add: newest_first_def)
  have count: "length (filter P sessions) = length (filter P ?xs)" for P
    by (metis mset_filter mset_sort newest_first_def size_mset)
  have order: "sd_updated_at (?xs ! j) \<le> sd_updated_at (?xs ! i)" if "i \<le> j" "j < length ?xs" for i j
    using that sorted_nth_mono[of "map (\<lambda>s. - sd_updated_at s) ?xs" i j] by (simp add: newest_first_def)
  have split: "?xs = take rank ?xs @ drop rank ?xs" "?xs = take (Suc rank) ?xs @ drop (Suc rank) ?xs"
    by simp_all
  have "sd_updated_at s \<le> ?u" if s: "s \<in> set (drop rank ?xs)" for s
  proof -
    obtain k where "k < length (drop rank ?xs)" "s = drop rank ?xs ! k"
      using s by (metis in_set_conv_nth)
    then show ?thesis
      using order[of rank "rank + k"] by simp
  qed
  then have "filter (\<lambda>s. sd_updated_at s > ?u) (drop rank ?xs) = []"
    by (auto simp: filter_empty_conv not_less)
  then have "length (filter (\<lambda>s. sd_updated_at s > ?u) ?xs) \<le> length (take rank ?xs)"
    by (metis append_Nil2 filter_append length_filter_le split(1))
  then show "length (filter (\<lambda>s. sd_updated_at s > ?u) sessions) \<le> rank"
    using count assms len by simp
  have "filter (\<lambda>s. sd_updated_at s \<ge> ?u) (take (Suc rank) ?xs) = take (Suc rank) ?xs"
    using order[of _ rank] assms len by (auto simp: filter_id_conv in_set_conv_nth)
  then have "Suc rank \<le> length (filter (\<lambda>s. sd_updated_at s \<ge> ?u) ?xs)"
    using assms len by (subst split(2)) (simp del: append_take_drop_id)
  then show "rank < length (filter (\<lambda>s. sd_updated_at s \<ge> ?u) sessions)"
    using count by simp
qed

lemma collected_iff:
  assumes "gc_collect g remove sessions = Inr removed" "distinct (map sd_id sessions)" "s \<in> set sessions"
  shows "sd_id s \<in> set removed \<longleftrightarrow> remove (sd_id s) = Inr True \<and> s \<in> set (gc_condemned g (newest_first sessions))"
proof -
  obtain ids where ids: "gc_remove_all remove (gc_condemned g (newest_first sessions)) = Inr ids" "removed = sort ids"
    using assms(1) by (auto simp: gc_collect_def split: sum.splits)
  have "t = s" if "t \<in> set (gc_condemned g (newest_first sessions))" "sd_id t = sd_id s" for t
  proof -
    have "t \<in> set sessions"
      using that(1) unfolding condemned_iff by (metis newest_first_def nth_mem set_sort)
    then show ?thesis
      using that(2) assms(2,3) by (auto simp: distinct_map dest: inj_onD)
  qed
  then show ?thesis
    using removed_iff[OF ids(1)] ids(2) by auto
qed

lemma condemned_old:
  assumes "s \<in> set (gc_condemned (gc_daily now) (newest_first sessions))"
  shows "as_second (sd_updated_at s) < as_second now - 30 * DAY
      \<or> 100 < length (filter (\<lambda>t. sd_updated_at s \<le> sd_updated_at t) sessions)"
proof -
  obtain k where k: "k < length sessions" "newest_first sessions ! k = s"
    "100 \<le> k \<or> as_second (sd_updated_at s) < as_second now - 30 * DAY"
    using assms unfolding condemned_iff by (auto simp: gc_daily_def newest_first_def)
  then show ?thesis
    using newer_before(2)[OF k(1)] by auto
qed

lemma spared_young:
  assumes "s \<notin> set (gc_condemned (gc_daily now) (newest_first sessions))" "s \<in> set sessions"
  shows "as_second now - 30 * DAY \<le> as_second (sd_updated_at s)
      \<and> length (filter (\<lambda>t. sd_updated_at s < sd_updated_at t) sessions) < 100"
proof -
  obtain rank where rank: "rank < length sessions" "newest_first sessions ! rank = s"
    using assms(2) by (metis in_set_conv_nth length_sort newest_first_def set_sort)
  then have "rank < 100 \<and> as_second now - 30 * DAY \<le> as_second (sd_updated_at s)"
    using assms(1) unfolding condemned_iff by (auto simp: gc_daily_def newest_first_def not_le not_less)
  then show ?thesis
    using newer_before(1)[OF rank(1)] rank(2) by simp
qed



text \<open>
  \<open>remove\<close> of one session, as the two steps it is: the lock is tried and given back, then
  the directory is removed.  Another store may act in between.
\<close>

datatype gc_step = GcProbe | GcUnlink | OtherOpens nat

record gc_world =
  gw_locks :: locks
  gw_exists :: bool
  gw_unlinking :: bool

definition gc_step :: "session_id \<Rightarrow> gc_step \<Rightarrow> gc_world \<Rightarrow> gc_world" where
  "gc_step session st w =
     (case st of
        GcProbe \<Rightarrow> w\<lparr>gw_unlinking := \<not> lock_held session (lo_os (gw_locks w))\<rparr>
      | GcUnlink \<Rightarrow> if gw_unlinking w then w\<lparr>gw_exists := False\<rparr> else w
      | OtherOpens me \<Rightarrow> if gw_exists w then w\<lparr>gw_locks := snd (locks_acquire me session (gw_locks w))\<rparr> else w)"


end
