(* ===== verification/Store_Summary.thy ===== *)
theory Store_Summary
  imports Store_Sessions
begin

text \<open>
  The derived summary of a session (\<open>bingo-store-jsonl/src/summary.rs\<close>, \<open>append_frame\<close> of
  \<open>lib.rs\<close>): a file that is rewritten as frames are appended, so that a listing reads no
  journal, and rebuilt from the journal when it is missing.  The file is what parses of
  it; \<open>journal\<close> is what \<open>replay\<close> gives.
\<close>

type_synonym summary_file = "session_summary option"

text \<open>The file is replaced as a whole or, when the disk refuses, not at all.\<close>

definition summary_write :: "bool \<Rightarrow> session_summary \<Rightarrow> summary_file \<Rightarrow> unit stored_result \<times> summary_file" where
  "summary_write refused summary file = (if refused then (Inl SeIo, file) else (Inr (), Some summary))"

definition journal_messages :: "frame list \<Rightarrow> nat" where
  "journal_messages fs = length (filter (\<lambda>f. completes_a_message (fr_event f)) fs)"

fun journal_first_ask :: "frame list \<Rightarrow> string option" where
  "journal_first_ask [] = None"
| "journal_first_ask (f # fs) =
     (case (case fr_event f of EvItemCompleted i \<Rightarrow> first_ask i | _ \<Rightarrow> None) of
        Some a \<Rightarrow> Some a
      | None \<Rightarrow> journal_first_ask fs)"

definition told_summary :: "event \<Rightarrow> session_summary option" where
  "told_summary e = (case e of EvSessionUpdated s \<Rightarrow> Some s | _ \<Rightarrow> None)"

definition summary_latest :: "frame list \<Rightarrow> session_summary option" where
  "summary_latest fs =
     (case rev (List.map_filter (\<lambda>f. told_summary (fr_event f)) fs) of
        [] \<Rightarrow> None
      | s # _ \<Rightarrow> Some (s\<lparr>ss_history := (ss_history s)\<lparr>sh_first_ask := journal_first_ask fs,
                              sh_messages := Some (of_nat (journal_messages fs))\<rparr>\<rparr>))"

definition summary_rebuild ::
  "bool \<Rightarrow> frame list stored_result \<Rightarrow> summary_file \<Rightarrow> session_summary option stored_result \<times> summary_file" where
  "summary_rebuild refused journal file =
     (case journal of
        Inl e \<Rightarrow> (Inl e, file)
      | Inr fs \<Rightarrow>
          (case summary_latest fs of
             None \<Rightarrow> (Inr None, file)
           | Some s \<Rightarrow>
               (case summary_write refused s file of
                  (Inl e, file') \<Rightarrow> (Inl e, file')
                | (Inr _, file') \<Rightarrow> (Inr (Some s), file'))))"

definition summary_of ::
  "bool \<Rightarrow> frame list stored_result \<Rightarrow> summary_file \<Rightarrow> session_summary option stored_result \<times> summary_file" where
  "summary_of refused journal file =
     (case file of Some s \<Rightarrow> (Inr (Some s), file) | None \<Rightarrow> summary_rebuild refused journal file)"

definition count_message ::
  "bool \<Rightarrow> frame list stored_result \<Rightarrow> string option \<Rightarrow> summary_file \<Rightarrow> unit stored_result \<times> summary_file" where
  "count_message refused journal ask file =
     (case Option.bind file (\<lambda>s. map_option (\<lambda>n. (n, s)) (sh_messages (ss_history s))) of
        Some (n, s) \<Rightarrow>
          let h = ss_history s
          in summary_write refused
               (s\<lparr>ss_history := h\<lparr>sh_first_ask := (case sh_first_ask h of Some a \<Rightarrow> Some a | None \<Rightarrow> ask),
                                  sh_messages := Some (n + 1)\<rparr>\<rparr>) file
      | None \<Rightarrow> map_prod (map_sum id (\<lambda>_. ())) id (summary_rebuild refused journal file))"

text \<open>What an append leaves in the file; the journal already holds the frame.  A failure is only logged.\<close>

definition append_derived :: "bool \<Rightarrow> frame list stored_result \<Rightarrow> frame \<Rightarrow> summary_file \<Rightarrow> summary_file" where
  "append_derived refused journal f file =
     (case fr_event f of
        EvSessionUpdated s \<Rightarrow> snd (summary_write refused s file)
      | EvItemCompleted i \<Rightarrow>
          if is_message (it_body i) then snd (count_message refused journal (first_ask i) file) else file
      | _ \<Rightarrow> file)"

record session_filter =
  sf_cwd :: "string option"
  sf_parent :: "session_id option"
  sf_limit :: "nat option"

definition filter_matches :: "session_summary \<Rightarrow> session_filter \<Rightarrow> bool" where
  "filter_matches s f \<longleftrightarrow>
     (case sf_cwd f of None \<Rightarrow> True | Some cwd \<Rightarrow> cwd = ss_cwd s)
     \<and> (case sf_parent f of None \<Rightarrow> True
        | Some parent \<Rightarrow> (case ss_parent s of None \<Rightarrow> False | Some link \<Rightarrow> pl_session link = parent))"

text \<open>\<open>read\<close> is what \<open>of\<close> gives for a session, its directory read.\<close>

fun summary_listed ::
  "(session_id \<Rightarrow> session_summary option stored_result) \<Rightarrow> session_filter \<Rightarrow> stored_session list \<Rightarrow> session_summary list stored_result" where
  "summary_listed read f [] = Inr []"
| "summary_listed read f (d # ds) =
     (case read (sd_id d) of
        Inl e \<Rightarrow> Inl e
      | Inr found \<Rightarrow>
          (case summary_listed read f ds of
             Inl e \<Rightarrow> Inl e
           | Inr listed \<Rightarrow>
               Inr (case found of
                      None \<Rightarrow> listed
                    | Some s \<Rightarrow> let s' = s\<lparr>ss_updated_at := sd_updated_at d\<rparr>
                               in if filter_matches s' f then s' # listed else listed)))"

definition summary_list ::
  "(session_id \<Rightarrow> session_summary option stored_result) \<Rightarrow> session_filter \<Rightarrow> stored_session list \<Rightarrow> session_summary list stored_result" where
  "summary_list read f sessions =
     (case summary_listed read f sessions of
        Inl e \<Rightarrow> Inl e
      | Inr listed \<Rightarrow>
          let ordered = sort_key (\<lambda>s. - ss_updated_at s) listed
          in Inr (case sf_limit f of None \<Rightarrow> ordered | Some n \<Rightarrow> take n ordered))"

section \<open>The file is derived\<close>

text \<open>
  The summaries the kernel publishes carry the counts of what it published before them:
  a session starts with none, and \<open>count_a_message\<close> of the reducer counts as this file does.
  Only messages have the words of a person in them.
\<close>

definition tells :: "session_summary \<Rightarrow> frame list \<Rightarrow> bool" where
  "tells s fs \<longleftrightarrow> sh_messages (ss_history s) = Some (of_nat (journal_messages fs))
     \<and> sh_first_ask (ss_history s) = journal_first_ask fs"

definition asks_as_message :: "event \<Rightarrow> bool" where
  "asks_as_message e =
     (case e of EvItemCompleted i \<Rightarrow> first_ask i = None \<or> is_message (it_body i) | _ \<Rightarrow> True)"

definition well_told :: "frame list \<Rightarrow> bool" where
  "well_told fs \<longleftrightarrow> list_all (\<lambda>f. asks_as_message (fr_event f)) fs \<and> (\<forall>n < length fs. case told_summary (fr_event (fs ! n)) of None \<Rightarrow> True | Some s \<Rightarrow> tells s (take n fs))"

text \<open>The file after each frame was appended; \<open>True\<close> with a frame: the file is lost just before it.\<close>

fun summary_after :: "frame list \<Rightarrow> (bool \<times> frame) list \<Rightarrow> summary_file \<Rightarrow> summary_file" where
  "summary_after fs [] disk = disk"
| "summary_after fs ((lost, f) # later) disk =
     summary_after (fs @ [f]) later (append_derived False (Inr (fs @ [f])) f (if lost then None else disk))"

lemma journal_messages_snoc:
  "journal_messages (fs @ [f]) = journal_messages fs + (if completes_a_message (fr_event f) then 1 else 0)"
  by (simp add: journal_messages_def)

lemma journal_first_ask_append:
  "journal_first_ask (fs @ gs) = (case journal_first_ask fs of Some a \<Rightarrow> Some a | None \<Rightarrow> journal_first_ask gs)"
  by (induction fs) (auto split: option.splits)

lemma well_told_snoc:
  "well_told (fs @ [f]) \<longleftrightarrow> well_told fs \<and> asks_as_message (fr_event f)
     \<and> (case told_summary (fr_event f) of None \<Rightarrow> True | Some s \<Rightarrow> tells s fs)"
  by (auto simp: well_told_def less_Suc_eq nth_append split: option.splits)

lemma well_told_prefix: "well_told (fs @ gs) \<Longrightarrow> well_told fs"
  by (induction gs rule: rev_induct) (simp_all add: well_told_snoc flip: append_assoc)

lemma latest_snoc_told:
  assumes "told_summary (fr_event f) = Some s" "tells s fs"
  shows "summary_latest (fs @ [f]) = Some s"
proof -
  have "\<not> completes_a_message (fr_event f)" "journal_first_ask [f] = None"
    using assms(1) by (auto simp: told_summary_def completes_a_message_def split: event.splits)
  then show ?thesis
    using assms
    by (simp add: summary_latest_def List.map_filter_def journal_messages_snoc journal_first_ask_append tells_def
        split: option.splits)
qed

lemma latest_snoc_other:
  assumes "told_summary (fr_event f) = None" "summary_latest fs = Some s"
  shows "summary_latest (fs @ [f]) = Some (s\<lparr>ss_history := (ss_history s)\<lparr>
       sh_first_ask := (case sh_first_ask (ss_history s) of Some a \<Rightarrow> Some a | None \<Rightarrow> journal_first_ask [f]),
       sh_messages := Some (of_nat (journal_messages fs) + (if completes_a_message (fr_event f) then 1 else 0))\<rparr>\<rparr>)"
  using assms
  by (auto simp: summary_latest_def List.map_filter_def journal_messages_snoc journal_first_ask_append split: list.splits option.splits)

lemma latest_messages: "summary_latest fs = Some s \<Longrightarrow> tells s fs"
  by (auto simp: summary_latest_def tells_def split: list.splits)

lemma latest_none: "summary_latest fs = None \<longleftrightarrow> (\<forall>f \<in> set fs. told_summary (fr_event f) = None)"
proof -
  have "summary_latest fs = None \<longleftrightarrow> List.map_filter (\<lambda>f. told_summary (fr_event f)) fs = []"
    by (auto simp: summary_latest_def split: list.splits)
  then show ?thesis
    by (simp add: List.map_filter_def filter_empty_conv)
qed

lemma latest_append: "summary_latest xs \<noteq> None \<Longrightarrow> \<exists>s. summary_latest (xs @ ys) = Some s"
  using latest_none[of "xs @ ys"] latest_none[of xs] by auto

lemma quiet_frame:
  assumes "asks_as_message (fr_event f)" "\<not> completes_a_message (fr_event f)"
  shows "journal_first_ask [f] = None"
  using assms by (auto simp: asks_as_message_def completes_a_message_def split: event.splits option.splits)

lemma latest_snoc_quiet:
  assumes "told_summary (fr_event f) = None" "asks_as_message (fr_event f)" "\<not> completes_a_message (fr_event f)"
  shows "summary_latest (fs @ [f]) = summary_latest fs"
proof -
  have same: "journal_first_ask (fs @ [f]) = journal_first_ask fs" "journal_messages (fs @ [f]) = journal_messages fs"
    using quiet_frame[OF assms(2,3)] assms(3)
    by (simp_all only: journal_first_ask_append journal_messages_snoc) (simp_all split: option.split)
  show ?thesis
    using assms(1) unfolding summary_latest_def same by (simp add: List.map_filter_def)
qed

lemma derived_told:
  assumes "told_summary (fr_event f) = Some s"
  shows "append_derived False journal f disk = Some s"
  using assms by (cases "fr_event f") (simp_all add: told_summary_def append_derived_def summary_write_def)

lemma derived_quiet:
  assumes "told_summary (fr_event f) = None" "\<not> completes_a_message (fr_event f)"
  shows "append_derived False journal f disk = disk"
  using assms by (cases "fr_event f") (simp_all add: told_summary_def append_derived_def completes_a_message_def)

lemma derived_message:
  assumes "completes_a_message (fr_event f)" "disk = None \<or> disk = summary_latest fs"
  shows "append_derived False (Inr (fs @ [f])) f disk = summary_latest (fs @ [f]) \<or> append_derived False (Inr (fs @ [f])) f disk = None"
proof -
  obtain i where i: "fr_event f = EvItemCompleted i" "is_message (it_body i)"
    using assms(1) by (auto simp: completes_a_message_def split: event.splits)
  then have f: "told_summary (fr_event f) = None" "journal_first_ask [f] = first_ask i"
    by (simp_all add: told_summary_def split: option.splits)
  have derived: "append_derived False (Inr (fs @ [f])) f d = snd (count_message False (Inr (fs @ [f])) (first_ask i) d)" for d
    using i by (simp add: append_derived_def)
  show ?thesis
  proof (cases disk)
    case None
    show ?thesis
      unfolding None derived by (simp add: count_message_def summary_rebuild_def summary_write_def split: option.splits)
  next
    case (Some s)
    then have s: "summary_latest fs = Some s" "tells s fs"
      using assms(2) latest_messages by auto
    show ?thesis
      using latest_snoc_other[OF f(1) s(1), unfolded f(2)] s(2) assms(1)
      by (simp add: derived Some count_message_def summary_write_def tells_def Let_def del: journal_first_ask.simps)
  qed
qed

lemma append_derives:
  assumes "well_told (fs @ [f])" "disk = None \<or> disk = summary_latest fs"
  shows "append_derived False (Inr (fs @ [f])) f disk = None
    \<or> append_derived False (Inr (fs @ [f])) f disk = summary_latest (fs @ [f])"
proof (cases "told_summary (fr_event f)")
  case (Some s)
  then show ?thesis
    using latest_snoc_told[OF Some] derived_told[OF Some] assms(1) by (simp add: well_told_snoc)
next
  case None
  then show ?thesis
    using latest_snoc_quiet[OF None] derived_quiet[OF None] derived_message[of f disk fs] assms
    by (cases "completes_a_message (fr_event f)") (auto simp: well_told_snoc)
qed

lemma summary_after_derives:
  assumes "well_told (fs @ map snd later)" "disk = None \<or> disk = summary_latest fs"
  shows "summary_after fs later disk = None \<or> summary_after fs later disk = summary_latest (fs @ map snd later)"
  using assms
proof (induction later arbitrary: fs disk)
  case (Cons lf later)
  obtain lost f where lf: "lf = (lost, f)"
    by fastforce
  have "well_told (fs @ [f])"
    using Cons.prems(1) well_told_prefix[of "fs @ [f]"] by (simp add: lf)
  then show ?case
    using Cons.IH[of "fs @ [f]"] append_derives[of fs f "if lost then None else disk"] Cons.prems
    by (simp add: lf)
qed auto

section \<open>The same count for clients and for a listing\<close>

lemma spent_well_told:
  assumes "told_summary (fr_event head) = Some s0"
  shows "well_told (head # fs) \<Longrightarrow>
     snd (foldl spent_step um (map fr_event (head # fs))) = Some (of_nat (journal_messages (head # fs)))"
proof (induction fs rule: rev_induct)
  case Nil
  then show ?case
    using assms
    by (cases "fr_event head")
       (simp_all add: told_summary_def well_told_def tells_def spent_step_def journal_messages_def completes_a_message_def)
next
  case (snoc f fs)
  have told: "well_told (head # fs)" "case told_summary (fr_event f) of None \<Rightarrow> True | Some s \<Rightarrow> tells s (head # fs)"
    using snoc.prems well_told_snoc[of "head # fs" f] by simp_all
  have seen: "snd (foldl spent_step um (map fr_event (head # fs))) = Some (of_nat (journal_messages (head # fs)))"
    using snoc.IH told(1) .
  have "snd (spent_step u (fr_event f)) = Some (of_nat (journal_messages ((head # fs) @ [f])))"
    if "snd u = Some (of_nat (journal_messages (head # fs)))" for u
    using that told(2) unfolding journal_messages_snoc
    by (cases "fr_event f")
       (simp_all add: spent_step_def told_summary_def tells_def completes_a_message_def unwrap_or_def)
  then show ?case
    using seen by simp
qed

lemma state_counts:
  assumes "sorted_wrt (<) (st_seq st # map fr_seq fs)"
  shows "sh_messages (ss_history (st_summary (state_fold st fs))) = snd (foldl spent_step (spent st) (map fr_event fs))"
proof -
  have "spent (state_fold st fs) = foldl (\<lambda>um f. spent_step um (fr_event f)) (spent st) fs"
    unfolding state_fold_def
    by (rule reducer.project_fold[OF _ _ assms, where p = spent])
       (auto simp: spent_apply spent_step_def charge_def completes_a_message_def is_lagged_def split: event.splits)
  then show ?thesis
    by (simp add: foldl_map) (simp add: spent_def prod_eq_iff)
qed


definition sample_head :: frame where
  "sample_head = sample_frame 1 (EvSessionUpdated (sample_summary\<lparr>ss_history :=
     \<lparr>sh_first_ask = None, sh_forked_from = None, sh_messages = Some 0\<rparr>\<rparr>))"

definition sample_said :: frame where
  "sample_said = sample_frame 2 (EvItemCompleted
     \<lparr>it_id = ''i'', it_turn = None, it_round = 0, it_status = StCompleted, it_started_at = 0, it_completed_at = None,
      it_intent = None, it_body = BAssistant ''hi'', it_meta = []\<rparr>)"


end
