(* ===== verification/Provider_Http.thy ===== *)
theory Provider_Http
  imports Sdk_Event
begin

text \<open>
  The streaming body of a provider's answer (\<open>bingo-http/src/sse.rs\<close>, \<open>stream.rs\<close>): chunks of
  bytes become server-sent frames, frames become events of a model.  How the bytes of a
  block read as text (\<open>String::from_utf8_lossy\<close>, whose alphabet is larger than the one of
  this model) and what a provider's decoder makes of a frame are parameters.
\<close>

section \<open>Framing\<close>

type_synonym bytes = "8 word list"

definition MAX_BUFFERED :: nat where
  "MAX_BUFFERED = 8 * 1024 * 1024"

definition BOUNDARY_OVERLAP :: nat where
  "BOUNDARY_OVERLAP = 3"

record sse_frame =
  sf_event :: string
  sf_data :: string

record sse_parser =
  sp_buf :: bytes
  sp_scanned :: nat

definition sse_new :: sse_parser where
  "sse_new = \<lparr>sp_buf = [], sp_scanned = 0\<rparr>"

definition windows :: "nat \<Rightarrow> 'a list \<Rightarrow> 'a list list" where
  "windows n xs = map (\<lambda>i. take n (drop i xs)) [0..<length xs + 1 - n]"

definition find_block_end :: "bytes \<Rightarrow> nat option" where
  "find_block_end buf =
     (let lf = map_option (\<lambda>i. i + 1) (position ((=) [10, 10]) (windows 2 buf));
          crlf = map_option (\<lambda>i. i + 3) (position ((=) [13, 10, 13, 10]) (windows 4 buf))
      in case (lf, crlf) of
           (Some a, Some b) \<Rightarrow> Some (min a b)
         | (found, None) \<Rightarrow> found
         | (None, found) \<Rightarrow> found)"

fun crlf_to_lf :: "string \<Rightarrow> string" where
  "crlf_to_lf (c # d # cs) =
     (if c = carriage_return \<and> d = newline then newline # crlf_to_lf cs else c # crlf_to_lf (d # cs))"
| "crlf_to_lf cs = cs"

definition block_line :: "string \<Rightarrow> string option \<times> string \<Rightarrow> string option \<times> string" where
  "block_line line acc =
     (case acc of (event, data) \<Rightarrow>
        (case strip_prefix line ''event:'' of
           Some v \<Rightarrow> (Some (trim v), data)
         | None \<Rightarrow>
             (case strip_prefix line ''data:'' of
                Some v \<Rightarrow> (event, data @ trim_start v @ [newline])
              | None \<Rightarrow> acc)))"

definition parse_block :: "(bytes \<Rightarrow> string) \<Rightarrow> bytes \<Rightarrow> sse_frame option" where
  "parse_block lossy block =
     (let (event, data) = fold block_line (split_chars ((=) newline) (crlf_to_lf (lossy block))) (None, [])
      in if event = None \<and> trim data = [] then None
         else Some \<lparr>sf_event = (case event of Some e \<Rightarrow> e | None \<Rightarrow> []), sf_data = trim data\<rparr>)"

lemma windows_nth: "i < length (windows n xs) \<Longrightarrow> windows n xs ! i = take n (drop i xs)"
  by (simp add: windows_def)

lemma length_windows [simp]: "length (windows n xs) = length xs + 1 - n"
  by (simp add: windows_def)

lemma find_block_end_lt: "find_block_end buf = Some i \<Longrightarrow> i < length buf"
  by (auto simp: find_block_end_def Let_def min_def split: option.splits if_splits dest!: position_SomeD)

function feed_loop :: "(bytes \<Rightarrow> string) \<Rightarrow> bytes \<Rightarrow> nat \<Rightarrow> sse_frame list \<times> sse_parser" where
  "feed_loop lossy buf scanned =
     (let from = scanned - BOUNDARY_OVERLAP
      in case find_block_end (drop from buf) of
           None \<Rightarrow> ([], \<lparr>sp_buf = buf, sp_scanned = length buf\<rparr>)
         | Some offset \<Rightarrow>
             let consumed = from + offset + 1;
                 (frames, p) = feed_loop lossy (drop consumed buf) (scanned - consumed)
             in (option_list (parse_block lossy (take consumed buf)) @ frames, p))"
  by pat_completeness auto
termination
  by (relation "measure (\<lambda>(_, buf, _). length buf)") (auto dest: find_block_end_lt)

declare feed_loop.simps [simp del]

definition sse_feed :: "(bytes \<Rightarrow> string) \<Rightarrow> bytes \<Rightarrow> sse_parser \<Rightarrow> (unit + sse_frame list) \<times> sse_parser" where
  "sse_feed lossy chunk p =
     (let (frames, p') = feed_loop lossy (sp_buf p @ chunk) (sp_scanned p)
      in (if length (sp_buf p') > MAX_BUFFERED then Inl () else Inr frames, p'))"

definition sse_finish :: "(bytes \<Rightarrow> string) \<Rightarrow> sse_parser \<Rightarrow> sse_frame option \<times> sse_parser" where
  "sse_finish lossy p = (parse_block lossy (sp_buf p), sse_new)"

section \<open>Blocks of a whole body\<close>

text \<open>
  The reference: the body cut after each end of a block, without any state; what is left is
  the unfinished block.
\<close>

function sse_blocks :: "bytes \<Rightarrow> bytes list \<times> bytes" where
  "sse_blocks body =
     (case find_block_end body of
        None \<Rightarrow> ([], body)
      | Some i \<Rightarrow> let (bs, rest) = sse_blocks (drop (i + 1) body) in (take (i + 1) body # bs, rest))"
  by pat_completeness auto
termination
  by (relation "measure length") (auto dest: find_block_end_lt)

declare sse_blocks.simps [simp del]

definition ends_at :: "bytes \<Rightarrow> nat \<Rightarrow> bool" where
  "ends_at buf i \<longleftrightarrow>
     (\<exists>k. i = k + 1 \<and> take 2 (drop k buf) = [10, 10]) \<or> (\<exists>k. i = k + 3 \<and> take 4 (drop k buf) = [13, 10, 13, 10])"

lemma position_least:
  "position P xs = Some i \<longleftrightarrow> i < length xs \<and> P (xs ! i) \<and> (\<forall>j < i. \<not> P (xs ! j))"
proof (induction xs arbitrary: i)
  case (Cons x xs)
  then show ?case
    by (cases i) (auto simp: less_Suc_eq_0_disj)
qed simp

lemma window_bound:
  assumes "take n (drop i buf) = p" "length p = n" "0 < n"
  shows "i + n \<le> length buf"
proof -
  have "length (take n (drop i buf)) = n"
    using assms(1,2) by simp
  then show ?thesis
    using assms(3) by simp
qed

lemma window_at:
  assumes "length p = n" "0 < n"
  shows "position ((=) p) (windows n buf) = Some i \<longleftrightarrow>
     take n (drop i buf) = p \<and> (\<forall>j < i. take n (drop j buf) \<noteq> p)"
proof -
  have bound: "take n (drop k buf) = p \<Longrightarrow> k < length buf + 1 - n" for k
    using window_bound[OF _ assms, of k buf] by linarith
  show ?thesis
  proof (cases "i < length buf + 1 - n")
    case True
    then have "windows n buf ! j = take n (drop j buf)" if "j \<le> i" for j
      using that by (simp add: windows_nth)
    then show ?thesis
      using True unfolding position_least by (auto 4 3)
  next
    case False
    then show ?thesis
      using bound[of i] unfolding position_least by auto
  qed
qed

lemma window_none:
  assumes "length p = n" "0 < n"
  shows "position ((=) p) (windows n buf) = None \<longleftrightarrow> (\<forall>j. take n (drop j buf) \<noteq> p)"
proof -
  have "set (windows n buf) = (\<lambda>i. take n (drop i buf)) ` {i. i + n \<le> length buf}"
    using assms(2) by (auto simp: windows_def)
  then show ?thesis
    using window_bound[OF _ assms] unfolding position_None_iff by (metis (mono_tags, lifting) image_iff mem_Collect_eq)
qed

text \<open>The end of a block that \<open>find_block_end\<close> gives is the first one.\<close>

lemma first_lf:
  "position ((=) [10, 10]) (windows 2 buf) = Some k \<Longrightarrow> ends_at buf (k + 1)"
  "position ((=) [13, 10, 13, 10]) (windows 4 buf) = Some k \<Longrightarrow> ends_at buf (k + 3)"
  by (auto simp: window_at ends_at_def)

lemma before_lf:
  assumes "case position ((=) [10, 10]) (windows 2 buf) of None \<Rightarrow> True | Some k \<Rightarrow> i < k + 1"
    and "case position ((=) [13, 10, 13, 10]) (windows 4 buf) of None \<Rightarrow> True | Some k \<Rightarrow> i < k + 3"
  shows "\<not> ends_at buf i"
proof -
  have "take 2 (drop k buf) \<noteq> [10, 10]" if "i = k + 1" for k
    using assms(1) that window_at[of "[10, 10]" 2 buf] window_none[of "[10, 10]" 2 buf]
    by (cases "position ((=) [10, 10]) (windows 2 buf)") auto
  moreover have "take 4 (drop k buf) \<noteq> [13, 10, 13, 10]" if "i = k + 3" for k
    using assms(2) that window_at[of "[13, 10, 13, 10]" 4 buf] window_none[of "[13, 10, 13, 10]" 4 buf]
    by (cases "position ((=) [13, 10, 13, 10]) (windows 4 buf)") auto
  ultimately show ?thesis
    unfolding ends_at_def by blast
qed

lemma find_block_end_Some: "find_block_end buf = Some i \<Longrightarrow> ends_at buf i \<and> (\<forall>j < i. \<not> ends_at buf j)"
  using first_lf[of buf] before_lf[of _ buf]
  by (auto simp: find_block_end_def Let_def min_def split: option.splits if_splits)

lemma find_block_end_None: "find_block_end buf = None \<Longrightarrow> \<not> ends_at buf i"
  by (rule before_lf) (auto simp: find_block_end_def Let_def split: option.splits)

lemma find_block_end_iff:
  "find_block_end buf = Some i \<longleftrightarrow> ends_at buf i \<and> (\<forall>j < i. \<not> ends_at buf j)"
  using find_block_end_Some[of buf] find_block_end_None[of buf i] by (metis linorder_neqE_nat option.exhaust)

lemma take_drop_append: "k + n \<le> length xs \<Longrightarrow> take n (drop k (xs @ ys)) = take n (drop k xs)"
  by simp

lemma ends_at_append:
  assumes "i < length xs"
  shows "ends_at (xs @ ys) i \<longleftrightarrow> ends_at xs i"
proof -
  have "i = k + 1 \<Longrightarrow> take 2 (drop k (xs @ ys)) = take 2 (drop k xs)"
    "i = k + 3 \<Longrightarrow> take 4 (drop k (xs @ ys)) = take 4 (drop k xs)" for k
    using assms by (simp_all only: take_drop_append)
  then show ?thesis
    unfolding ends_at_def by metis
qed

lemma ends_at_lt: "ends_at buf i \<Longrightarrow> i < length buf"
  using window_bound[of 2 _ buf "[10, 10]"] window_bound[of 4 _ buf "[13, 10, 13, 10]"] unfolding ends_at_def by fastforce

lemma ends_at_drop: "ends_at (drop d buf) i \<Longrightarrow> ends_at buf (d + i)"
  unfolding ends_at_def by (auto simp: add.commute intro: exI[of _ "_ + d"])

lemma ends_at_undrop:
  assumes "ends_at buf (d + i)" "3 \<le> i \<or> d = 0"
  shows "ends_at (drop d buf) i"
proof -
  consider k where "d + i = k + 1" "take 2 (drop k buf) = [10, 10]"
    | k where "d + i = k + 3" "take 4 (drop k buf) = [13, 10, 13, 10]"
    using assms(1) unfolding ends_at_def by auto
  then show ?thesis
  proof cases
    case 1
    then have "i = (k - d) + 1" "drop (k - d) (drop d buf) = drop k buf"
      using assms(2) by auto
    then show ?thesis
      using 1(2) unfolding ends_at_def by metis
  next
    case 2
    then have "i = (k - d) + 3" "drop (k - d) (drop d buf) = drop k buf"
      using assms(2) by auto
    then show ?thesis
      using 2(2) unfolding ends_at_def by metis
  qed
qed

text \<open>Looking again three bytes back finds what looking from the start would.\<close>

lemma resumed_scan:
  assumes "\<And>j. j < scanned \<Longrightarrow> \<not> ends_at buf j"
  shows "find_block_end buf = map_option ((+) (scanned - BOUNDARY_OVERLAP)) (find_block_end (drop (scanned - BOUNDARY_OVERLAP) buf))"
proof -
  let ?d = "scanned - BOUNDARY_OVERLAP"
  have behind: "ends_at (drop ?d buf) (j - ?d) \<and> ?d \<le> j" if "ends_at buf j" for j
  proof -
    have "scanned \<le> j"
      using that assms not_le by blast
    then have "?d \<le> j" "3 \<le> j - ?d \<or> ?d = 0"
      by (auto simp: BOUNDARY_OVERLAP_def)
    then show ?thesis
      using ends_at_undrop[of buf ?d "j - ?d"] that by simp
  qed
  show ?thesis
  proof (cases "find_block_end (drop ?d buf)")
    case None
    then show ?thesis
      using behind find_block_end_None find_block_end_Some by (metis not_None_eq option.simps(8))
  next
    case (Some i)
    then have i: "ends_at buf (?d + i)" "\<forall>j < i. \<not> ends_at (drop ?d buf) j"
      using find_block_end_Some[OF Some] ends_at_drop by auto
    have "\<not> ends_at buf j" if "j < ?d + i" for j
    proof
      assume "ends_at buf j"
      then have "ends_at (drop ?d buf) (j - ?d)" "j - ?d < i"
        using behind[of j] that by auto
      then show False
        using i(2) by blast
    qed
    then show ?thesis
      using i(1) Some find_block_end_iff[of buf "?d + i"] by simp
  qed
qed

definition block_frames :: "(bytes \<Rightarrow> string) \<Rightarrow> bytes list \<Rightarrow> sse_frame list" where
  "block_frames lossy bs = concat (map (\<lambda>b. option_list (parse_block lossy b)) bs)"

lemma feed_loop_blocks:
  "(\<And>j. j < scanned \<Longrightarrow> \<not> ends_at buf j) \<Longrightarrow>
     feed_loop lossy buf scanned =
       (block_frames lossy (fst (sse_blocks buf)),
        \<lparr>sp_buf = snd (sse_blocks buf), sp_scanned = length (snd (sse_blocks buf))\<rparr>)"
proof (induction lossy buf scanned rule: feed_loop.induct)
  case (1 lossy buf scanned)
  let ?d = "scanned - BOUNDARY_OVERLAP"
  note scan = resumed_scan[of scanned buf, OF "1.prems"]
  show ?case
  proof (cases "find_block_end (drop ?d buf)")
    case None
    then have "find_block_end buf = None"
      using scan by simp
    then show ?thesis
      using None by (subst feed_loop.simps, subst (1 2 3) sse_blocks.simps) (simp add: block_frames_def)
  next
    case (Some offset)
    then have found: "find_block_end buf = Some (?d + offset)"
      using scan by simp
    then have "scanned \<le> ?d + offset"
      using find_block_end_Some "1.prems" not_le by blast
    then have gone: "\<not> j < scanned - (?d + offset + 1)" for j
      by simp
    have rest: "feed_loop lossy (drop (?d + offset + 1) buf) (scanned - (?d + offset + 1)) =
        (block_frames lossy (fst (sse_blocks (drop (?d + offset + 1) buf))),
         \<lparr>sp_buf = snd (sse_blocks (drop (?d + offset + 1) buf)), sp_scanned = length (snd (sse_blocks (drop (?d + offset + 1) buf)))\<rparr>)"
      by (rule "1.IH"[OF refl Some refl]) (erule notE[OF gone])
    have blocks: "sse_blocks buf = (take (?d + offset + 1) buf # fst (sse_blocks (drop (?d + offset + 1) buf)), snd (sse_blocks (drop (?d + offset + 1) buf)))"
      by (subst sse_blocks.simps) (simp add: found case_prod_unfold Let_def)
    show ?thesis
      by (subst feed_loop.simps) (simp only: Let_def Some option.case rest blocks prod.case fst_conv snd_conv block_frames_def list.map concat.simps)
  qed
qed

lemma sse_rest_open: "\<not> ends_at (snd (sse_blocks body)) i"
proof (induction body rule: sse_blocks.induct)
  case (1 body)
  then show ?case
    using find_block_end_None[of body i] by (subst sse_blocks.simps) (auto split: option.splits prod.splits)
qed

lemma sse_blocks_append:
  "sse_blocks (xs @ ys) = (fst (sse_blocks xs) @ fst (sse_blocks (snd (sse_blocks xs) @ ys)), snd (sse_blocks (snd (sse_blocks xs) @ ys)))"
proof (induction xs rule: sse_blocks.induct)
  case (1 xs)
  show ?case
  proof (cases "find_block_end xs")
    case None
    then show ?thesis
      by (subst (2 3 5) sse_blocks.simps) simp
  next
    case (Some i)
    then have i: "ends_at xs i" "\<forall>j < i. \<not> ends_at xs j" "i < length xs"
      using find_block_end_Some[OF Some] find_block_end_lt[OF Some] by auto
    then have "find_block_end (xs @ ys) = Some i"
      unfolding find_block_end_iff by (simp add: ends_at_append)
    then have "sse_blocks (xs @ ys) = (take (i + 1) xs # fst (sse_blocks (drop (i + 1) xs @ ys)), snd (sse_blocks (drop (i + 1) xs @ ys)))"
      using i(3) by (subst sse_blocks.simps) (simp add: case_prod_unfold Let_def)
    moreover have "sse_blocks xs = (take (i + 1) xs # fst (sse_blocks (drop (i + 1) xs)), snd (sse_blocks (drop (i + 1) xs)))"
      using Some by (subst sse_blocks.simps) (simp add: case_prod_unfold Let_def)
    ultimately show ?thesis
      using "1.IH"[OF Some] by simp
  qed
qed

section \<open>Chunks\<close>

fun sse_feeds :: "(bytes \<Rightarrow> string) \<Rightarrow> bytes list \<Rightarrow> sse_parser \<Rightarrow> (unit + sse_frame list) \<times> sse_parser" where
  "sse_feeds lossy [] p = (Inr [], p)"
| "sse_feeds lossy (c # cs) p =
     (case sse_feed lossy c p of
        (Inl e, p') \<Rightarrow> (Inl e, p')
      | (Inr fs, p') \<Rightarrow>
          (case sse_feeds lossy cs p' of
             (Inl e, p'') \<Rightarrow> (Inl e, p'')
           | (Inr gs, p'') \<Rightarrow> (Inr (fs @ gs), p'')))"

text \<open>A parser that has read a body: it holds the unfinished block and has looked at all of it.\<close>

definition sse_at :: "bytes \<Rightarrow> sse_parser" where
  "sse_at body = \<lparr>sp_buf = snd (sse_blocks body), sp_scanned = length (snd (sse_blocks body))\<rparr>"

definition unframed :: "bytes \<Rightarrow> nat" where
  "unframed body = length (snd (sse_blocks body))"

lemma sse_feed_at:
  "sse_feed lossy chunk (sse_at body) =
     (if unframed (body @ chunk) > MAX_BUFFERED then Inl ()
      else Inr (block_frames lossy (fst (sse_blocks (snd (sse_blocks body) @ chunk)))), sse_at (body @ chunk))"
proof -
  have "\<not> ends_at (snd (sse_blocks body) @ chunk) j" if "j < length (snd (sse_blocks body))" for j
    using sse_rest_open that by (simp add: ends_at_append)
  then have "feed_loop lossy (snd (sse_blocks body) @ chunk) (length (snd (sse_blocks body))) =
      (block_frames lossy (fst (sse_blocks (snd (sse_blocks body) @ chunk))), sse_at (body @ chunk))"
    by (subst feed_loop_blocks) (simp_all add: sse_at_def sse_blocks_append[of body chunk])
  then show ?thesis
    by (simp add: sse_feed_def sse_at_def unframed_def)
qed

lemma sse_new_at: "sse_new = sse_at []"
  by (simp add: sse_new_def sse_at_def sse_blocks.simps[of "[]"] find_block_end_def windows_def)

lemma block_frames_append [simp]: "block_frames lossy (xs @ ys) = block_frames lossy xs @ block_frames lossy ys"
  by (simp add: block_frames_def)

text \<open>After each chunk the unfinished block is within the ceiling.\<close>

fun all_fit :: "bytes \<Rightarrow> bytes list \<Rightarrow> bool" where
  "all_fit body [] = True"
| "all_fit body (c # cs) = (unframed (body @ c) \<le> MAX_BUFFERED \<and> all_fit (body @ c) cs)"

lemma unframed_le: "unframed body \<le> length body"
  unfolding unframed_def
proof (induction body rule: sse_blocks.induct)
  case (1 body)
  then show ?case
    by (subst sse_blocks.simps) (fastforce split: option.splits prod.splits)
qed

lemma all_fit_small: "length (body @ concat chunks) \<le> MAX_BUFFERED \<Longrightarrow> all_fit body chunks"
proof (induction chunks arbitrary: body)
  case (Cons c cs)
  then show ?case
    using unframed_le[of "body @ c"] by simp
qed simp

lemma sse_feeds_at:
  "fst (sse_feeds lossy chunks (sse_at body)) =
     (if all_fit body chunks
      then Inr (block_frames lossy (fst (sse_blocks (snd (sse_blocks body) @ concat chunks)))) else Inl ())"
proof (induction chunks arbitrary: body)
  case Nil
  have "find_block_end (snd (sse_blocks body)) = None"
    using sse_rest_open[of body] find_block_end_Some[of "snd (sse_blocks body)"]
    by (cases "find_block_end (snd (sse_blocks body))") auto
  then have "fst (sse_blocks (snd (sse_blocks body))) = []"
    by (subst sse_blocks.simps) simp
  then show ?case
    by (simp add: block_frames_def)
next
  case (Cons c cs)
  have rest: "snd (sse_blocks (body @ c)) = snd (sse_blocks (snd (sse_blocks body) @ c))"
    by (simp add: sse_blocks_append[of body c])
  have blocks: "fst (sse_blocks (snd (sse_blocks body) @ concat (c # cs)))
      = fst (sse_blocks (snd (sse_blocks body) @ c)) @ fst (sse_blocks (snd (sse_blocks (body @ c)) @ concat cs))"
    using sse_blocks_append[of "snd (sse_blocks body) @ c" "concat cs"] by (simp add: rest)
  show ?case
    unfolding blocks using Cons.IH[of "body @ c"]
    by (auto simp: sse_feed_at split: sum.splits prod.splits if_splits)
qed

section \<open>The body of an answer\<close>

type_synonym 'd decode = "string \<Rightarrow> string \<Rightarrow> 'd \<Rightarrow> (provider_error + model_event list) \<times> 'd"

record 'd body_state =
  by_parser :: sse_parser
  by_decoder :: 'd
  by_queue :: "model_event list"
  by_failure :: "provider_error option"
  by_done :: bool

text \<open>What ended one wait on the body.\<close>

datatype pulled = PdCancelled | PdChunk "(provider_error + bytes) option" | PdSilent

definition model_stream :: "'d \<Rightarrow> 'd body_state" where
  "model_stream decoder =
     \<lparr>by_parser = sse_new, by_decoder = decoder, by_queue = [], by_failure = None, by_done = False\<rparr>"

definition body_fail :: "provider_error \<Rightarrow> 'd body_state \<Rightarrow> 'd body_state" where
  "body_fail e b = b\<lparr>by_failure := Some e\<rparr>"

definition body_absorb :: "'d decode \<Rightarrow> sse_frame \<Rightarrow> 'd body_state \<Rightarrow> bool \<times> 'd body_state" where
  "body_absorb decode f b =
     (case decode (sf_event f) (sf_data f) (by_decoder b) of
        (Inr events, d) \<Rightarrow> (True, b\<lparr>by_decoder := d, by_queue := by_queue b @ events\<rparr>)
      | (Inl e, d) \<Rightarrow> (False, body_fail e (b\<lparr>by_decoder := d\<rparr>)))"

fun absorb_each :: "'d decode \<Rightarrow> sse_frame list \<Rightarrow> 'd body_state \<Rightarrow> 'd body_state" where
  "absorb_each decode [] b = b"
| "absorb_each decode (f # fs) b = (case body_absorb decode f b of (go_on, b') \<Rightarrow> if go_on then absorb_each decode fs b' else b')"

definition OVERSIZED :: string where
  "OVERSIZED = ''sse frame exceeds '' @ show_nat MAX_BUFFERED @ '' bytes without a boundary''"

definition body_feed :: "(bytes \<Rightarrow> string) \<Rightarrow> 'd decode \<Rightarrow> bytes \<Rightarrow> 'd body_state \<Rightarrow> 'd body_state" where
  "body_feed lossy decode chunk b =
     (case sse_feed lossy chunk (by_parser b) of
        (Inr frames, p) \<Rightarrow> absorb_each decode frames (b\<lparr>by_parser := p\<rparr>)
      | (Inl _, p) \<Rightarrow> body_fail (PeStream OVERSIZED) (b\<lparr>by_parser := p\<rparr>))"

definition body_end :: "(bytes \<Rightarrow> string) \<Rightarrow> 'd decode \<Rightarrow> 'd body_state \<Rightarrow> 'd body_state" where
  "body_end lossy decode b =
     (case sse_finish lossy (by_parser b) of
        (found, p) \<Rightarrow>
          let b' = b\<lparr>by_done := True, by_parser := p\<rparr>
          in case found of None \<Rightarrow> b' | Some f \<Rightarrow> snd (body_absorb decode f b'))"

definition body_pump :: "(bytes \<Rightarrow> string) \<Rightarrow> 'd decode \<Rightarrow> pulled \<Rightarrow> 'd body_state \<Rightarrow> 'd body_state" where
  "body_pump lossy decode p b =
     (case p of
        PdCancelled \<Rightarrow> b\<lparr>by_done := True\<rparr>
      | PdSilent \<Rightarrow> body_fail PeTimeout b
      | PdChunk None \<Rightarrow> body_end lossy decode b
      | PdChunk (Some (Inl e)) \<Rightarrow> body_fail e b
      | PdChunk (Some (Inr bs)) \<Rightarrow> body_feed lossy decode bs b)"

text \<open>
  \<open>next\<close>, given what each wait of the body will end with and whether the turn was cancelled
  by then.  \<open>None\<close>: nothing more comes and nobody gives up, the caller waits.
\<close>

fun body_next ::
  "(bytes \<Rightarrow> string) \<Rightarrow> 'd decode \<Rightarrow> (bool \<times> pulled) list \<Rightarrow> 'd body_state \<Rightarrow>
   ((provider_error + model_event) option \<times> (bool \<times> pulled) list \<times> 'd body_state) option" where
  "body_next lossy decode pulls b =
     (case by_queue b of
        e # q \<Rightarrow> Some (Some (Inr e), pulls, b\<lparr>by_queue := q\<rparr>)
      | [] \<Rightarrow>
          (case by_failure b of
             Some e \<Rightarrow> Some (Some (Inl e), pulls, b\<lparr>by_failure := None, by_done := True\<rparr>)
           | None \<Rightarrow>
               if by_done b then Some (None, pulls, b)
               else (case pulls of
                       [] \<Rightarrow> None
                     | (cancelled, p) # ps \<Rightarrow>
                         if cancelled then Some (None, pulls, b)
                         else body_next lossy decode ps (body_pump lossy decode p b))))"

declare body_next.simps [simp del]

text \<open>The first items of the stream, at most \<open>n\<close>, and whether it has ended.\<close>

fun stream_items ::
  "(bytes \<Rightarrow> string) \<Rightarrow> 'd decode \<Rightarrow> nat \<Rightarrow> (bool \<times> pulled) list \<Rightarrow> 'd body_state \<Rightarrow> (provider_error + model_event) list \<times> bool" where
  "stream_items lossy decode 0 pulls b = ([], False)"
| "stream_items lossy decode (Suc n) pulls b =
     (case body_next lossy decode pulls b of
        None \<Rightarrow> ([], False)
      | Some (None, _, _) \<Rightarrow> ([], True)
      | Some (Some x, pulls', b') \<Rightarrow> apfst ((#) x) (stream_items lossy decode n pulls' b'))"

text \<open>What a decoder says of a list of frames: events up to the first frame it refuses, if any.\<close>

fun decode_run :: "'d decode \<Rightarrow> sse_frame list \<Rightarrow> 'd \<Rightarrow> model_event list \<times> provider_error option \<times> 'd" where
  "decode_run decode [] d = ([], None, d)"
| "decode_run decode (f # fs) d =
     (case decode (sf_event f) (sf_data f) d of
        (Inr events, d') \<Rightarrow> (case decode_run decode fs d' of (es, r) \<Rightarrow> (events @ es, r))
      | (Inl e, d') \<Rightarrow> ([], Some e, d'))"

definition decoded :: "'d decode \<Rightarrow> sse_frame list \<Rightarrow> 'd \<Rightarrow> (provider_error + model_event) list" where
  "decoded decode fs d =
     (case decode_run decode fs d of (es, e, _) \<Rightarrow> map Inr es @ (case e of None \<Rightarrow> [] | Some e \<Rightarrow> [Inl e]))"

definition body_frames :: "(bytes \<Rightarrow> string) \<Rightarrow> bytes \<Rightarrow> sse_frame list" where
  "body_frames lossy body =
     block_frames lossy (fst (sse_blocks body)) @ option_list (parse_block lossy (snd (sse_blocks body)))"

lemma drain_queue:
  "stream_items lossy decode (length q + n) pulls (b\<lparr>by_queue := q\<rparr>) =
     apfst ((@) (map Inr q)) (stream_items lossy decode n pulls (b\<lparr>by_queue := []\<rparr>))"
proof (induction q)
  case (Cons e q)
  then show ?case
    by (simp add: body_next.simps[of _ _ pulls "b\<lparr>by_queue := e # q\<rparr>"] prod.map_comp apfst_def map_prod_def split: prod.splits)
qed (simp add: apfst_def map_prod_def)

lemma ended_items:
  assumes "by_queue b = []" "by_failure b = None" "by_done b"
  shows "stream_items lossy decode (Suc n) pulls b = ([], True)"
  using assms by (simp add: body_next.simps)

lemma failed_items:
  assumes "by_queue b = []" "by_failure b = Some e"
  shows "stream_items lossy decode (Suc (Suc n)) pulls b = ([Inl e], True)"
  using assms ended_items[of "b\<lparr>by_failure := None, by_done := True\<rparr>"] by (simp add: body_next.simps[of _ _ _ b])

lemma decode_run_append:
  "decode_run decode (fs @ gs) d =
     (case decode_run decode fs d of
        (es, None, d') \<Rightarrow> (case decode_run decode gs d' of (es', r) \<Rightarrow> (es @ es', r))
      | (es, Some e, d') \<Rightarrow> (es, Some e, d'))"
  by (induction fs arbitrary: d) (auto split: prod.splits sum.splits option.splits)

lemma decoded_append:
  "decoded decode (fs @ gs) d =
     (case decode_run decode fs d of
        (es, None, d') \<Rightarrow> map Inr es @ decoded decode gs d'
      | (es, Some e, d') \<Rightarrow> map Inr es @ [Inl e])"
  by (auto simp: decoded_def decode_run_append split: prod.splits option.splits)

lemma absorb_each_run:
  "absorb_each decode fs b =
     (case decode_run decode fs (by_decoder b) of (es, e, d) \<Rightarrow>
        b\<lparr>by_decoder := d, by_queue := by_queue b @ es,
          by_failure := (case e of None \<Rightarrow> by_failure b | Some e \<Rightarrow> Some e)\<rparr>)"
  by (induction fs arbitrary: b) (auto simp: body_absorb_def body_fail_def split: prod.splits sum.splits option.splits)

lemma pump_items:
  assumes "by_queue b = []" "by_failure b = None" "\<not> by_done b"
  shows "stream_items lossy decode n ((False, p) # ps) b = stream_items lossy decode n ps (body_pump lossy decode p b)"
  using assms by (cases n) (simp_all add: body_next.simps[of _ _ _ b])

lemma queued_items:
  assumes "length es < n"
  shows "stream_items lossy decode n pulls (b\<lparr>by_queue := es\<rparr>) =
     apfst ((@) (map Inr es)) (stream_items lossy decode (n - length es) pulls (b\<lparr>by_queue := []\<rparr>))"
  using drain_queue[of lossy decode es "n - length es" pulls b] assms by simp

lemma end_items:
  assumes "by_queue b = []" "by_failure b = None" "\<not> by_done b" "by_parser b = sse_at body"
    and "items = decoded decode (option_list (parse_block lossy (snd (sse_blocks body)))) (by_decoder b)"
    and "length items < n"
  shows "stream_items lossy decode n ((False, PdChunk None) # later) b = (items, True)"
proof -
  let ?fs = "option_list (parse_block lossy (snd (sse_blocks body)))"
  obtain es e d where run: "decode_run decode ?fs (by_decoder b) = (es, e, d)"
    by (metis prod_cases3)
  let ?b = "b\<lparr>by_done := True, by_parser := sse_new\<rparr>"
  have "body_pump lossy decode (PdChunk None) b = absorb_each decode ?fs ?b"
    using assms(4) by (auto simp: body_pump_def body_end_def sse_finish_def sse_at_def option_list_def Let_def split: option.splits prod.splits)
  also have "\<dots> = ?b\<lparr>by_decoder := d, by_failure := e, by_queue := es\<rparr>"
    using assms(1,2) run by (simp add: absorb_each_run split: option.splits)
  finally have pump: "body_pump lossy decode (PdChunk None) b = ?b\<lparr>by_decoder := d, by_failure := e, by_queue := es\<rparr>" .
  have items: "items = map Inr es @ (case e of None \<Rightarrow> [] | Some e \<Rightarrow> [Inl e])"
    by (simp add: assms(5) decoded_def run)
  then obtain m where m: "n - length es = Suc m" "e \<noteq> None \<Longrightarrow> \<exists>k. m = Suc k"
    using assms(6) by (cases "n - length es"; cases e; cases "n - length es - 1") auto
  have "stream_items lossy decode (n - length es) later (?b\<lparr>by_decoder := d, by_failure := e, by_queue := []\<rparr>)
      = (case e of None \<Rightarrow> [] | Some e \<Rightarrow> [Inl e], True)"
    using m by (cases e) (auto intro: ended_items failed_items simp del: stream_items.simps)
  then show ?thesis
    using items assms(6) by (subst pump_items[OF assms(1-3)], simp only: pump, subst queued_items) (auto split: option.splits)
qed

lemma body_items:
  assumes "all_fit body chunks" "by_queue b = []" "by_failure b = None" "\<not> by_done b" "by_parser b = sse_at body"
    and "items = decoded decode (block_frames lossy (fst (sse_blocks (snd (sse_blocks body) @ concat chunks)))
           @ option_list (parse_block lossy (snd (sse_blocks (body @ concat chunks))))) (by_decoder b)"
    and "length items < n"
  shows "stream_items lossy decode n (map (\<lambda>c. (False, PdChunk (Some (Inr c)))) chunks @ (False, PdChunk None) # later) b
     = (items, True)"
  using assms
proof (induction chunks arbitrary: body b items n)
  case Nil
  have "find_block_end (snd (sse_blocks body)) = None"
    using sse_rest_open[of body] find_block_end_Some[of "snd (sse_blocks body)"]
    by (cases "find_block_end (snd (sse_blocks body))") auto
  then have "fst (sse_blocks (snd (sse_blocks body))) = []"
    by (subst sse_blocks.simps) simp
  then show ?case
    using Nil end_items[OF Nil.prems(2-5)] by (simp add: block_frames_def)
next
  case (Cons c cs)
  let ?fs = "block_frames lossy (fst (sse_blocks (snd (sse_blocks body) @ c)))"
  let ?gs = "block_frames lossy (fst (sse_blocks (snd (sse_blocks (body @ c)) @ concat cs)))
      @ option_list (parse_block lossy (snd (sse_blocks ((body @ c) @ concat cs))))"
  obtain es e d where run: "decode_run decode ?fs (by_decoder b) = (es, e, d)"
    by (metis prod_cases3)
  let ?b = "b\<lparr>by_parser := sse_at (body @ c), by_decoder := d, by_failure := e, by_queue := es\<rparr>"
  have "fst (sse_blocks (snd (sse_blocks body) @ concat (c # cs)))
      = fst (sse_blocks (snd (sse_blocks body) @ c)) @ fst (sse_blocks (snd (sse_blocks (body @ c)) @ concat cs))"
    using sse_blocks_append[of "snd (sse_blocks body) @ c" "concat cs"] by (simp add: sse_blocks_append[of body c])
  then have items: "items = (case e of None \<Rightarrow> map Inr es @ decoded decode ?gs d | Some e \<Rightarrow> map Inr es @ [Inl e])"
    using decoded_append[of decode ?fs ?gs "by_decoder b"] Cons.prems(6) run by (simp split: option.splits)
  have pump: "body_pump lossy decode (PdChunk (Some (Inr c))) b = ?b"
    using Cons.prems(1-5) run by (simp add: body_pump_def body_feed_def sse_feed_at absorb_each_run split: option.splits)
  have long: "length es < n"
    using items Cons.prems(7) by (simp split: option.splits)
  show ?case
  proof (cases e)
    case None
    have "stream_items lossy decode (n - length es) (map (\<lambda>c. (False, PdChunk (Some (Inr c)))) cs @ (False, PdChunk None) # later)
        (?b\<lparr>by_queue := []\<rparr>) = (decoded decode ?gs d, True)"
      using Cons.prems(1,4,7) items None by (intro Cons.IH[where body = "body @ c"]) auto
    then show ?thesis
      using items None queued_items[OF long, of lossy decode _ "?b"]
      by (simp add: pump_items[OF Cons.prems(2-4)] pump)
  next
    case (Some x)
    obtain m where "n - length es = Suc (Suc m)"
      using items Some Cons.prems(7) by (cases "n - length es"; cases "n - length es - 1") auto
    then have "stream_items lossy decode (n - length es) pulls (?b\<lparr>by_queue := []\<rparr>) = ([Inl x], True)" for pulls
      using Some failed_items[of "?b\<lparr>by_queue := []\<rparr>" x lossy decode m pulls] by (simp del: stream_items.simps)
    then show ?thesis
      using items Some queued_items[OF long, of lossy decode _ "?b"]
      by (simp add: pump_items[OF Cons.prems(2-4)] pump)
  qed
qed

text \<open>
  C28: a provider's answer does not depend on how the network cuts it.  Whatever the chunks
  of a body, as long as no unfinished block passes the ceiling, the stream gives the events
  the decoder reads from the blocks of the whole body, the unterminated last one included,
  in their order; a frame the decoder refuses gives its error once, after everything before
  it; then the stream ends.
\<close>

theorem stream_ignores_chunks:
  assumes "all_fit [] chunks"
    and "items = decoded decode (body_frames lossy (concat chunks)) d" "length items < n"
  shows "stream_items lossy decode n (map (\<lambda>c. (False, PdChunk (Some (Inr c)))) chunks @ (False, PdChunk None) # later)
       (model_stream d) = (items, True)"
proof -
  have "snd (sse_blocks []) = []"
    using sse_new_at by (simp add: sse_new_def sse_at_def)
  then show ?thesis
    using assms by (intro body_items[where body = "[]"]) (simp_all add: model_stream_def sse_new_at body_frames_def)
qed

text \<open>
  Framing alone: it fails exactly when an unfinished block is larger than the ceiling after
  some chunk, and gives the frames of the finished blocks otherwise.
\<close>

lemma framing_ignores_chunks:
  "fst (sse_feeds lossy chunks sse_new) =
     (if all_fit [] chunks then Inr (block_frames lossy (fst (sse_blocks (concat chunks)))) else Inl ())"
proof -
  have "snd (sse_blocks []) = []"
    using sse_new_at by (simp add: sse_new_def sse_at_def)
  then show ?thesis
    using sse_feeds_at[of lossy chunks "[]"] by (simp add: sse_new_at)
qed

section \<open>A witness\<close>

definition sample_lossy :: "bytes \<Rightarrow> string" where
  "sample_lossy bs = map (\<lambda>b. char_of (unat b)) bs"

definition sample_decode :: "unit decode" where
  "sample_decode event data d = (if data = ''x'' then Inl PeTimeout else Inr [MTextEnd data], d)"

definition sample_bytes :: bytes where
  "sample_bytes = [100, 97, 116, 97, 58, 97, 10, 10, 100, 97, 116, 97, 58, 98, 13, 10, 13, 10]"

theorem stream_ignores_chunks_witness:
  "stream_items sample_lossy sample_decode 3
     [(False, PdChunk (Some (Inr (take 7 sample_bytes)))), (False, PdChunk (Some (Inr (drop 7 sample_bytes)))), (False, PdChunk None)]
     (model_stream ()) = ([Inr (MTextEnd ''a''), Inr (MTextEnd ''b'')], True)"
proof -
  have "all_fit [] [take 7 sample_bytes, drop 7 sample_bytes]"
    by (rule all_fit_small) (simp add: sample_bytes_def MAX_BUFFERED_def)
  moreover have "decoded sample_decode (body_frames sample_lossy (concat [take 7 sample_bytes, drop 7 sample_bytes])) ()
      = [Inr (MTextEnd ''a''), Inr (MTextEnd ''b'')]"
    by code_simp
  ultimately show ?thesis
    using stream_ignores_chunks[of "[take 7 sample_bytes, drop 7 sample_bytes]" _ sample_decode sample_lossy "()" 3 "[]", OF _ refl]
    by simp
qed

end
