(* ===== verification/Provider_Anthropic.thy ===== *)
theory Provider_Anthropic
  imports Provider_Http Core_Accumulator Core_Budget
begin

text \<open>
  The event stream of one provider (\<open>bingo-provider-anthropic/src/events.rs\<close>, \<open>error.rs\<close>): the
  state machine that makes the kernel's events of the wire's, and how an error it sends is
  classified.  The JSON parser is a parameter.
\<close>

section \<open>Errors\<close>

definition str_contains :: "string \<Rightarrow> string \<Rightarrow> bool" where
  "str_contains s p \<longleftrightarrow> split_once p s \<noteq> None"

definition to_ascii_lowercase :: "string \<Rightarrow> string" where
  "to_ascii_lowercase s = map to_ascii_lower s"

definition OVERFLOW_PHRASES :: "string list" where
  "OVERFLOW_PHRASES =
     [''context length'', ''context window'', ''context limit'', ''max context'', ''maximum context'', ''input exceeds'',
      ''input is too long'', ''input too long'', ''prompt is too long'', ''prompt too long'', ''too many tokens'', ''token limit'']"

definition TRANSIENT_PHRASES :: "string list" where
  "TRANSIENT_PHRASES =
     [''overloaded'', ''server_error'', ''server error'', ''internal_error'', ''internal error'', ''service_unavailable'',
      ''service unavailable'', ''too_many_requests'', ''too many requests'', ''rate_limit'', ''rate limit'',
      ''resource_exhausted'', ''resource exhausted'', ''bad gateway'', ''gateway timeout'', ''try again later'']"

definition OVERLOADED :: "16 word" where
  "OVERLOADED = 529"

definition says_overflow :: "string \<Rightarrow> bool" where
  "says_overflow s =
     (let t = to_ascii_lowercase s
      in list_ex (str_contains t) OVERFLOW_PHRASES
         \<or> str_contains t ''maximum'' \<and> str_contains t ''token'' \<and> (str_contains t ''prompt'' \<or> str_contains t ''input''))"

text \<open>\<open>str::parse::<u16>\<close> of a token without punctuation.\<close>

definition parse_u16 :: "string \<Rightarrow> nat option" where
  "parse_u16 s =
     (if s = [] \<or> \<not> list_all is_ascii_digit s \<or> digits_value s \<ge> 2 ^ 16 then None else Some (digits_value s))"

fun names_5xx_loop :: "bool \<Rightarrow> string list \<Rightarrow> bool" where
  "names_5xx_loop after_marker [] = False"
| "names_5xx_loop after_marker (t # ts) =
     (if t = [] then names_5xx_loop after_marker ts
      else if after_marker \<and> (case parse_u16 t of Some s \<Rightarrow> 500 \<le> s \<and> s < 600 | None \<Rightarrow> False) then True
      else names_5xx_loop (t \<in> set [''http'', ''https'', ''status'', ''code'']) ts)"

definition names_5xx :: "string \<Rightarrow> bool" where
  "names_5xx s = names_5xx_loop True (split_chars (\<lambda>c. \<not> is_ascii_alphanumeric c) s)"

definition is_transient :: "string \<Rightarrow> bool" where
  "is_transient s =
     (let t = to_ascii_lowercase s
      in if says_overflow t \<or> str_contains t ''insufficient_quota'' then False
         else names_5xx t \<or> list_ex (str_contains t) TRANSIENT_PHRASES)"

definition unnamed_stream_error :: "string \<Rightarrow> provider_error" where
  "unnamed_stream_error message =
     (if says_overflow message then PeContextOverflow message
      else if is_transient message then PeStream message
      else PeRequest message)"

definition request_or_overflow :: "string \<Rightarrow> provider_error" where
  "request_or_overflow message = (if says_overflow message then PeContextOverflow message else PeRequest message)"

definition stream_error :: "string \<Rightarrow> string \<Rightarrow> provider_error" where
  "stream_error kind text =
     (let message = (if kind = [] then text else kind @ '': '' @ text)
      in if kind \<in> set [''authentication_error'', ''permission_error''] then PeAuth message
         else if kind = ''rate_limit_error'' then PeRateLimited None
         else if kind = ''overloaded_error'' then PeServer OVERLOADED message
         else if kind \<in> set [''api_error'', ''server_error'', ''timeout_error''] then PeServer 500 message
         else if kind \<in> set [''invalid_request_error'', ''not_found_error'', ''request_too_large''] then request_or_overflow message
         else unnamed_stream_error message)"

text \<open>
  \<open>parse\<close> reads JSON, \<open>date\<close> a date of a \<open>retry-after\<close> header as milliseconds from now.
\<close>

definition message_of :: "(string \<Rightarrow> string + json) \<Rightarrow> string \<Rightarrow> string" where
  "message_of parse body =
     (case parse body of
        Inl _ \<Rightarrow> trim body
      | Inr v \<Rightarrow>
          let found = (case Option.bind (json_get v ''error'') (\<lambda>e. json_get e ''message'') of
                         Some m \<Rightarrow> Some m
                       | None \<Rightarrow> json_get v ''message'')
          in (case map_option trim (Option.bind found json_as_str) of
                Some m \<Rightarrow> if m \<noteq> [] then m else trim body
              | None \<Rightarrow> trim body))"

text \<open>\<open>str::parse::<u64>\<close>.\<close>

definition read_u64 :: "string \<Rightarrow> u64 option" where
  "read_u64 s =
     (let digits = (case strip_prefix s ''+'' of Some r \<Rightarrow> r | None \<Rightarrow> s)
      in if list_all is_ascii_digit digits then parse_u64 digits else None)"

definition saturating_mul :: "u64 \<Rightarrow> u64 \<Rightarrow> u64" where
  "saturating_mul a b = (if unat a * unat b < 2 ^ 64 then a * b else - 1)"

definition retry_after :: "(string \<Rightarrow> int option) \<Rightarrow> string \<Rightarrow> u64 option" where
  "retry_after date header =
     (let v = trim header
      in case read_u64 v of
           Some seconds \<Rightarrow> Some (saturating_mul seconds 1000)
         | None \<Rightarrow> map_option (\<lambda>ms. if 0 \<le> ms \<and> ms < 2 ^ 64 then of_int ms else 0) (date v))"

definition classify :: "(string \<Rightarrow> string + json) \<Rightarrow> (string \<Rightarrow> int option) \<Rightarrow> nat \<Rightarrow> string \<Rightarrow> string option \<Rightarrow> provider_error" where
  "classify parse date status body header =
     (let message = message_of parse body
      in if says_overflow body \<and> (status = 400 \<or> status = 413) then PeContextOverflow message
         else if status = 401 \<or> status = 403 then PeAuth message
         else if status = 408 then PeTimeout
         else if status = 429 then PeRateLimited (Option.bind header (retry_after date))
         else if 500 \<le> status \<and> status < 600 then PeServer (of_nat status) message
         else PeRequest message)"

text \<open>
  Which errors of a stream the turn retries: the kinds the wire names as passing, and among
  those it does not name the ones whose sentence reads so.  A request that is too long is
  never among them.
\<close>

definition passing_kinds :: "string list" where
  "passing_kinds = [''rate_limit_error'', ''overloaded_error'', ''api_error'', ''server_error'', ''timeout_error'']"

definition lasting_kinds :: "string list" where
  "lasting_kinds =
     [''authentication_error'', ''permission_error'', ''invalid_request_error'', ''not_found_error'', ''request_too_large'']"

lemma to_ascii_lower_idem: "to_ascii_lower (to_ascii_lower c) = to_ascii_lower c"
  by (auto simp: to_ascii_lower_def Let_def of_char_of take_bit_eq_mod)

lemma says_overflow_lower: "says_overflow (to_ascii_lowercase s) = says_overflow s"
  by (simp add: says_overflow_def to_ascii_lowercase_def to_ascii_lower_idem comp_def)

lemma retried_errors:
  "retryable (stream_error kind message) \<longleftrightarrow>
     kind \<in> set passing_kinds
     \<or> kind \<notin> set lasting_kinds \<and> is_transient (if kind = [] then message else kind @ '': '' @ message)"
  by (auto simp: stream_error_def Let_def passing_kinds_def lasting_kinds_def retryable_def unnamed_stream_error_def
      request_or_overflow_def is_transient_def says_overflow_lower)

section \<open>The decoder\<close>

definition PROVIDER :: string where
  "PROVIDER = ''anthropic''"

datatype block_kind =
    BkText
  | BkReasoning string "string option"
  | BkTool string string

record wire_block =
  wb_id :: string
  wb_kind :: block_kind

record anthropic_decoder =
  ad_open :: "(u64 \<times> wire_block) list"
  ad_usage :: usage
  ad_stop_reason :: "string option"

definition decoder_new :: anthropic_decoder where
  "decoder_new = \<lparr>ad_open = [], ad_usage = usage_default, ad_stop_reason = None\<rparr>"

definition str_at :: "json \<Rightarrow> string \<Rightarrow> string option" where
  "str_at v k = Option.bind (json_get v k) json_as_str"

definition u64_at :: "json \<Rightarrow> string \<Rightarrow> u64 option" where
  "u64_at v k = Option.bind (json_get v k) json_as_u64"

definition index_of :: "json \<Rightarrow> u64" where
  "index_of v = unwrap_or (u64_at v ''index'') 0"

definition malformed :: "string \<Rightarrow> provider_error" where
  "malformed message = PeStream message"

definition parse_event :: "(string \<Rightarrow> string + json) \<Rightarrow> string \<Rightarrow> string \<Rightarrow> provider_error + json" where
  "parse_event parse data what =
     (case parse data of Inl e \<Rightarrow> Inl (malformed (''bad '' @ what @ '': '' @ e)) | Inr v \<Rightarrow> Inr v)"

definition block_open :: "u64 \<Rightarrow> json \<Rightarrow> provider_error + wire_block option" where
  "block_open index content =
     (case str_at content ''type'' of
        None \<Rightarrow> Inl (malformed ''content_block without a type'')
      | Some t \<Rightarrow>
          if t = ''text'' then Inr (Some \<lparr>wb_id = show_nat (unat index), wb_kind = BkText\<rparr>)
          else if t = ''thinking'' then Inr (Some \<lparr>wb_id = show_nat (unat index), wb_kind = BkReasoning [] None\<rparr>)
          else if t = ''redacted_thinking''
          then Inr (Some \<lparr>wb_id = show_nat (unat index), wb_kind = BkReasoning [] (Some (unwrap_or (str_at content ''data'') []))\<rparr>)
          else if t = ''tool_use''
          then (case str_at content ''name'' of
                  None \<Rightarrow> Inl (malformed ''tool_use without a name'')
                | Some name \<Rightarrow>
                    (case str_at content ''id'' of
                       None \<Rightarrow> Inl (malformed ''tool_use without an id'')
                     | Some i \<Rightarrow> Inr (Some \<lparr>wb_id = i, wb_kind = BkTool name []\<rparr>)))
          else Inr None)"

definition block_started :: "wire_block \<Rightarrow> model_event" where
  "block_started b =
     (case wb_kind b of
        BkText \<Rightarrow> MTextStart (wb_id b)
      | BkReasoning _ _ \<Rightarrow> MReasoningStart (wb_id b)
      | BkTool name _ \<Rightarrow> MToolInputStart (wb_id b) name)"

definition wire_delta :: "json \<Rightarrow> wire_block \<Rightarrow> model_event option \<times> wire_block" where
  "wire_delta dv b =
     (case str_at dv ''type'' of
        None \<Rightarrow> (None, b)
      | Some t \<Rightarrow>
          (case wb_kind b of
             BkText \<Rightarrow>
               (if t = ''text_delta'' then map_option (MTextDelta (wb_id b)) (str_at dv ''text'') else None, b)
           | BkReasoning signature redacted \<Rightarrow>
               if t = ''thinking_delta'' then (map_option (MReasoningDelta (wb_id b)) (str_at dv ''thinking''), b)
               else if t = ''signature_delta''
               then (None, case str_at dv ''signature'' of
                             None \<Rightarrow> b
                           | Some s \<Rightarrow> b\<lparr>wb_kind := BkReasoning (signature @ s) redacted\<rparr>)
               else (None, b)
           | BkTool name input \<Rightarrow>
               if t = ''input_json_delta''
               then (case str_at dv ''partial_json'' of
                       None \<Rightarrow> (None, b)
                     | Some fragment \<Rightarrow>
                         (Some (MToolInputDelta (wb_id b) fragment), b\<lparr>wb_kind := BkTool name (input @ fragment)\<rparr>))
               else (None, b)))"

definition reasoning_metadata :: "string \<Rightarrow> string option \<Rightarrow> provider_metadata" where
  "reasoning_metadata signature redacted =
     (let mine = (if signature \<noteq> [] then [(''signature'', JString signature)] else [])
                 @ (case redacted of Some data \<Rightarrow> [(''redacted'', JString data)] | None \<Rightarrow> [])
      in if mine = [] then [] else [(PROVIDER, mine)])"

definition tool_input :: "string \<Rightarrow> string" where
  "tool_input input = (if trim input = [] then ''{}'' else input)"

definition block_close :: "wire_block \<Rightarrow> model_event list" where
  "block_close b =
     (case wb_kind b of
        BkText \<Rightarrow> [MTextEnd (wb_id b)]
      | BkReasoning signature redacted \<Rightarrow> [MReasoningEnd (wb_id b) (reasoning_metadata signature redacted)]
      | BkTool name input \<Rightarrow> [MToolInputEnd (wb_id b), MToolCall (wb_id b) name (tool_input input)])"

definition set_some :: "('a \<Rightarrow> 'b \<Rightarrow> 'b) \<Rightarrow> 'a option \<Rightarrow> 'b \<Rightarrow> 'b" where
  "set_some f x s = (case x of None \<Rightarrow> s | Some v \<Rightarrow> f v s)"

definition read_usage :: "json option \<Rightarrow> anthropic_decoder \<Rightarrow> anthropic_decoder" where
  "read_usage found d =
     (case found of
        None \<Rightarrow> d
      | Some u \<Rightarrow>
          d\<lparr>ad_usage :=
            set_some (\<lambda>n us. us\<lparr>us_output_tokens := n\<rparr>) (u64_at u ''output_tokens'')
              (set_some (\<lambda>n us. us\<lparr>us_cache_write_tokens := n\<rparr>) (u64_at u ''cache_creation_input_tokens'')
                (set_some (\<lambda>n us. us\<lparr>us_cache_read_tokens := n\<rparr>) (u64_at u ''cache_read_input_tokens'')
                  (set_some (\<lambda>n us. us\<lparr>us_input_tokens := n\<rparr>) (u64_at u ''input_tokens'') (ad_usage d))))\<rparr>)"

definition finish_reason_of :: "string option \<Rightarrow> finish_reason" where
  "finish_reason_of raw =
     (case raw of
        None \<Rightarrow> \<lparr>fr_unified = FinOther, fr_raw = None\<rparr>
      | Some r \<Rightarrow>
          \<lparr>fr_unified =
             (if r = ''end_turn'' \<or> r = ''stop_sequence'' then FinStop
              else if r = ''max_tokens'' then FinLength
              else if r = ''tool_use'' then FinToolCalls
              else if r = ''refusal'' then FinContentFilter
              else FinOther),
           fr_raw = Some r\<rparr>)"

definition error_event :: "(string \<Rightarrow> string + json) \<Rightarrow> string \<Rightarrow> provider_error" where
  "error_event parse data =
     (case parse data of
        Inl _ \<Rightarrow> stream_error [] data
      | Inr v \<Rightarrow>
          let error = (case json_get v ''error'' of Some e \<Rightarrow> e | None \<Rightarrow> v)
          in stream_error (unwrap_or (str_at error ''type'') []) (unwrap_or (str_at error ''message'') data))"

text \<open>The handlers of the wire's events.\<close>

definition message_start :: "json \<Rightarrow> anthropic_decoder \<Rightarrow> (provider_error + model_event list) \<times> anthropic_decoder" where
  "message_start v d =
     (let message = (case json_get v ''message'' of Some m \<Rightarrow> m | None \<Rightarrow> JNull)
      in (Inr [MStreamStart [], MResponseMetadata (str_at message ''id'') (str_at message ''model'')],
          read_usage (json_get message ''usage'') d))"

definition content_block_start :: "json \<Rightarrow> anthropic_decoder \<Rightarrow> (provider_error + model_event list) \<times> anthropic_decoder" where
  "content_block_start v d =
     (case json_get v ''content_block'' of
        None \<Rightarrow> (Inl (malformed ''content_block_start without a content_block''), d)
      | Some content \<Rightarrow>
          (case block_open (index_of v) content of
             Inl e \<Rightarrow> (Inl e, d)
           | Inr None \<Rightarrow> (Inr [], d)
           | Inr (Some b) \<Rightarrow> (Inr [block_started b], d\<lparr>ad_open := AList.update (index_of v) b (ad_open d)\<rparr>)))"

definition content_block_delta :: "json \<Rightarrow> anthropic_decoder \<Rightarrow> (provider_error + model_event list) \<times> anthropic_decoder" where
  "content_block_delta v d =
     (case json_get v ''delta'' of
        None \<Rightarrow> (Inl (malformed ''content_block_delta without a delta''), d)
      | Some dv \<Rightarrow>
          (case map_of (ad_open d) (index_of v) of
             None \<Rightarrow> (Inr [], d)
           | Some b \<Rightarrow>
               (case wire_delta dv b of (event, b') \<Rightarrow>
                  (Inr (option_list event), d\<lparr>ad_open := AList.update (index_of v) b' (ad_open d)\<rparr>))))"

definition content_block_stop :: "json \<Rightarrow> anthropic_decoder \<Rightarrow> (provider_error + model_event list) \<times> anthropic_decoder" where
  "content_block_stop v d =
     (case map_of (ad_open d) (index_of v) of
        None \<Rightarrow> (Inr [], d)
      | Some b \<Rightarrow> (Inr (block_close b), d\<lparr>ad_open := AList.delete (index_of v) (ad_open d)\<rparr>))"

definition message_delta :: "json \<Rightarrow> anthropic_decoder \<Rightarrow> (provider_error + model_event list) \<times> anthropic_decoder" where
  "message_delta v d =
     (let d' = read_usage (json_get v ''usage'') d
      in (Inr [], case Option.bind (json_get v ''delta'') (\<lambda>x. str_at x ''stop_reason'') of
                    Some r \<Rightarrow> d'\<lparr>ad_stop_reason := Some r\<rparr>
                  | None \<Rightarrow> d'))"

definition with_parsed ::
  "(string \<Rightarrow> string + json) \<Rightarrow> string \<Rightarrow> string \<Rightarrow> (json \<Rightarrow> 'd \<Rightarrow> (provider_error + 'a) \<times> 'd) \<Rightarrow> 'd \<Rightarrow> (provider_error + 'a) \<times> 'd" where
  "with_parsed parse data what f d = (case parse_event parse data what of Inl e \<Rightarrow> (Inl e, d) | Inr v \<Rightarrow> f v d)"

definition anthropic_decode :: "(string \<Rightarrow> string + json) \<Rightarrow> anthropic_decoder decode" where
  "anthropic_decode parse event data d =
     (if event = ''message_start'' then with_parsed parse data event message_start d
      else if event = ''content_block_start'' then with_parsed parse data event content_block_start d
      else if event = ''content_block_delta'' then with_parsed parse data event content_block_delta d
      else if event = ''content_block_stop'' then with_parsed parse data event content_block_stop d
      else if event = ''message_delta'' then with_parsed parse data event message_delta d
      else if event = ''message_stop''
      then (Inr [MFinish (ad_usage d) (finish_reason_of (ad_stop_reason d))], d)
      else if event = ''error'' then (Inl (error_event parse data), d)
      else (Inr [], d))"

section \<open>Blocks of the wire are blocks of the stream\<close>

text \<open>What the API documents of a stream: a block is not started at an index that is open.\<close>

definition starts_afresh :: "(string \<Rightarrow> string + json) \<Rightarrow> sse_frame \<Rightarrow> anthropic_decoder \<Rightarrow> bool" where
  "starts_afresh parse f d =
     (sf_event f = ''content_block_start'' \<longrightarrow>
        (case parse (sf_data f) of Inl _ \<Rightarrow> True | Inr v \<Rightarrow> map_of (ad_open d) (index_of v) = None))"

fun wire_ok :: "(string \<Rightarrow> string + json) \<Rightarrow> sse_frame list \<Rightarrow> anthropic_decoder \<Rightarrow> bool" where
  "wire_ok parse [] d = True"
| "wire_ok parse (f # fs) d =
     (starts_afresh parse f d \<and> wire_ok parse fs (snd (anthropic_decode parse (sf_event f) (sf_data f) d)))"

definition is_tool :: "wire_block \<Rightarrow> bool" where
  "is_tool b = (case wb_kind b of BkTool _ _ \<Rightarrow> True | _ \<Rightarrow> False)"

definition name_of :: "wire_block option \<Rightarrow> string set" where
  "name_of x = (case x of None \<Rightarrow> {} | Some b \<Rightarrow> if is_tool b then {} else {wb_id b})"

definition open_names :: "anthropic_decoder \<Rightarrow> string set" where
  "open_names d = (\<Union>i. name_of (map_of (ad_open d) i))"

definition named_by_index :: "anthropic_decoder \<Rightarrow> bool" where
  "named_by_index d \<longleftrightarrow> (\<forall>i b. map_of (ad_open d) i = Some b \<longrightarrow> \<not> is_tool b \<longrightarrow> wb_id b = show_nat (unat i))"

lemma digit_value: "n < 10 \<Longrightarrow> of_char (char_of (48 + n) :: char) - (48 :: nat) = n"
  by (simp add: of_char_of take_bit_eq_mod)

lemma digits_value_snoc: "digits_value (s @ [c]) = 10 * digits_value s + (of_char c - 48)"
  by (simp add: digits_value_def)

lemma digits_value_show: "digits_value (show_nat n) = n"
proof (induction n rule: show_nat.induct)
  case (1 n)
  show ?case
  proof (cases "n < 10")
    case True
    then show ?thesis
      by (subst show_nat.simps) (simp add: digits_value_def digit_value)
  next
    case False
    then show ?thesis
      using 1 by (subst show_nat.simps) (simp add: digits_value_snoc digit_value)
  qed
qed

lemma show_nat_inj: "show_nat m = show_nat n \<longleftrightarrow> m = n"
  by (metis digits_value_show)

lemma unat_same: "unat (a :: u64) = unat b \<longleftrightarrow> a = b"
  by (auto intro: unsigned_word_eqI)

lemma started_block:
  assumes "block_open i content = Inr (Some b)" "\<not> is_tool b"
  shows "wb_id b = show_nat (unat i)"
  using assms by (auto simp: block_open_def is_tool_def split: option.splits if_splits)

lemma wire_delta_keeps:
  "wb_id (snd (wire_delta v b)) = wb_id b" "is_tool (snd (wire_delta v b)) \<longleftrightarrow> is_tool b"
  by (auto simp: wire_delta_def is_tool_def split: option.splits block_kind.splits)

lemma delta_event: "fst (wire_delta v b) = Some e \<Longrightarrow> well_blocked ks (e # es) = well_blocked ks es"
  by (auto simp: wire_delta_def split: option.splits block_kind.splits if_splits)

lemma name_of_None: "name_of None = {}"
  by (simp add: name_of_def)

lemma names_split: "(\<Union>j. name_of (m j)) = name_of (m i) \<union> (\<Union>j\<in>- {i}. name_of (m j))"
  by auto

lemma names_upd: "(\<Union>j. name_of ((m(i := x)) j)) = name_of x \<union> (\<Union>j\<in>- {i}. name_of (m j))"
  by (subst names_split[of _ i]) auto

lemma named_update:
  assumes "named_by_index d" "is_tool b \<or> wb_id b = show_nat (unat i)"
  shows "named_by_index (d\<lparr>ad_open := AList.update i b (ad_open d)\<rparr>)"
  using assms by (auto simp: named_by_index_def update_conv')

lemma open_names_update:
  assumes "name_of (map_of (ad_open d) i) = {} \<or> name_of (map_of (ad_open d) i) = name_of (Some b)"
  shows "open_names (d\<lparr>ad_open := AList.update i b (ad_open d)\<rparr>) = name_of (Some b) \<union> open_names d"
  using assms unfolding open_names_def
  by (simp add: update_conv' names_upd del: fun_upd_apply) (subst names_split[of "map_of (ad_open d)" i], auto)

lemma name_is_open: "name_of (map_of (ad_open d) i) \<subseteq> open_names d"
  by (auto simp: open_names_def)

lemma name_index: "named_by_index d \<Longrightarrow> name_of (map_of (ad_open d) j) \<subseteq> {show_nat (unat j)}"
  by (auto simp: name_of_def named_by_index_def split: option.splits)

lemma name_is_free:
  assumes "named_by_index d" "map_of (ad_open d) i = None"
  shows "show_nat (unat i) \<notin> open_names d"
proof
  assume "show_nat (unat i) \<in> open_names d"
  then obtain j where "show_nat (unat i) \<in> name_of (map_of (ad_open d) j)"
    by (auto simp: open_names_def)
  moreover from this have "show_nat (unat i) = show_nat (unat j)"
    using name_index[OF assms(1), of j] by blast
  ultimately show False
    using assms(2) by (simp only: show_nat_inj unat_same) (simp add: name_of_None)
qed

lemma union_diff: "R \<inter> A = {} \<Longrightarrow> X = A \<union> R \<Longrightarrow> Y = R \<Longrightarrow> Y = X - A"
  by blast

lemma open_names_delete:
  assumes "named_by_index d"
  shows "named_by_index (d\<lparr>ad_open := AList.delete i (ad_open d)\<rparr>)"
    and "open_names (d\<lparr>ad_open := AList.delete i (ad_open d)\<rparr>) = open_names d - name_of (map_of (ad_open d) i)"
proof -
  show "named_by_index (d\<lparr>ad_open := AList.delete i (ad_open d)\<rparr>)"
    using assms(1) by (auto simp: named_by_index_def delete_conv')
  have "name_of (map_of (ad_open d) j) \<inter> name_of (map_of (ad_open d) i) = {}" if "j \<noteq> i" for j
  proof -
    have "show_nat (unat j) \<noteq> show_nat (unat i)"
      using that unfolding show_nat_inj unat_same .
    then show ?thesis
      using name_index[OF assms, of j] name_index[OF assms, of i] by blast
  qed
  then have "(\<Union>j\<in>- {i}. name_of (map_of (ad_open d) j)) \<inter> name_of (map_of (ad_open d) i) = {}"
    by blast
  moreover have "open_names d = name_of (map_of (ad_open d) i) \<union> (\<Union>j\<in>- {i}. name_of (map_of (ad_open d) j))"
    unfolding open_names_def by (rule names_split)
  moreover have "open_names (d\<lparr>ad_open := AList.delete i (ad_open d)\<rparr>) = (\<Union>j\<in>- {i}. name_of (map_of (ad_open d) j))"
  proof -
    have deleted: "map_of (ad_open (d\<lparr>ad_open := AList.delete i (ad_open d)\<rparr>)) = (map_of (ad_open d))(i := None)"
      by (simp add: delete_conv')
    show ?thesis
      using names_upd[of "map_of (ad_open d)" i None] unfolding open_names_def deleted name_of_None Un_empty_left .
  qed
  ultimately show "open_names (d\<lparr>ad_open := AList.delete i (ad_open d)\<rparr>) = open_names d - name_of (map_of (ad_open d) i)"
    by (rule union_diff)
qed

lemma read_usage_open [simp]: "ad_open (read_usage u d) = ad_open d"
  by (simp add: read_usage_def split: option.splits)

lemma names_of_open: "ad_open d' = ad_open d \<Longrightarrow> open_names d' = open_names d \<and> (named_by_index d' \<longleftrightarrow> named_by_index d)"
  by (simp add: open_names_def named_by_index_def)

definition step_ok :: "(provider_error + model_event list) \<times> anthropic_decoder \<Rightarrow> anthropic_decoder \<Rightarrow> bool" where
  "step_ok r d \<longleftrightarrow> named_by_index (snd r)
     \<and> (\<forall>es rest. fst r = Inr es \<longrightarrow> well_blocked (open_names (snd r)) rest \<longrightarrow> well_blocked (open_names d) (es @ rest))"

lemma step_ok_quiet:
  assumes "named_by_index d" "ad_open (snd r) = ad_open d"
    and "\<And>es ks rest. fst r = Inr es \<Longrightarrow> well_blocked ks rest \<Longrightarrow> well_blocked ks (es @ rest)"
  shows "step_ok r d"
  using assms(1,3) names_of_open[OF assms(2)] by (simp add: step_ok_def)

lemma step_ok_start:
  assumes "named_by_index d" "map_of (ad_open d) (index_of v) = None"
  shows "step_ok (content_block_start v d) d"
proof (cases "\<exists>content b. json_get v ''content_block'' = Some content \<and> block_open (index_of v) content = Inr (Some b)")
  case True
  then obtain content b where b: "json_get v ''content_block'' = Some content" "block_open (index_of v) content = Inr (Some b)"
    by blast
  let ?d = "d\<lparr>ad_open := AList.update (index_of v) b (ad_open d)\<rparr>"
  have after: "named_by_index ?d" "open_names ?d = name_of (Some b) \<union> open_names d"
    using named_update[OF assms(1), of b] started_block[OF b(2)] open_names_update[of d "index_of v" b] assms(2)
    by (auto simp: name_of_def)
  have "well_blocked (open_names d) (block_started b # rest)" if "well_blocked (open_names ?d) rest" for rest
    using that name_is_free[OF assms] started_block[OF b(2)] unfolding after(2)
    by (auto simp: block_started_def name_of_def is_tool_def split: block_kind.splits)
  then show ?thesis
    using after(1) b by (simp add: step_ok_def content_block_start_def)
next
  case False
  then show ?thesis
    using assms(1)
    by (intro step_ok_quiet) (auto simp: content_block_start_def split: option.splits sum.splits)
qed

lemma step_ok_delta:
  assumes "named_by_index d"
  shows "step_ok (content_block_delta v d) d"
proof (cases "\<exists>dv b. json_get v ''delta'' = Some dv \<and> map_of (ad_open d) (index_of v) = Some b")
  case True
  then obtain dv b where b: "json_get v ''delta'' = Some dv" "map_of (ad_open d) (index_of v) = Some b"
    by blast
  obtain e b' where e: "wire_delta dv b = (e, b')"
    by fastforce
  have kept: "wb_id b' = wb_id b" "is_tool b' \<longleftrightarrow> is_tool b"
    using wire_delta_keeps[of dv b] e by simp_all
  have "named_by_index (d\<lparr>ad_open := AList.update (index_of v) b' (ad_open d)\<rparr>)"
  proof (rule named_update[OF assms])
    show "is_tool b' \<or> wb_id b' = show_nat (unat (index_of v))"
      using assms b(2) kept unfolding named_by_index_def by metis
  qed
  moreover have "name_of (map_of (ad_open d) (index_of v)) = name_of (Some b')"
    using b(2) kept by (simp add: name_of_def)
  then have "open_names (d\<lparr>ad_open := AList.update (index_of v) b' (ad_open d)\<rparr>) = open_names d"
    using open_names_update[of d "index_of v" b'] name_is_open[of d "index_of v"] by (simp add: Un_absorb1)
  moreover have "well_blocked ks rest \<Longrightarrow> well_blocked ks (option_list e @ rest)" for ks rest
    using delta_event[of dv b _ ks rest] e by (cases e) (simp_all add: option_list_def del: well_blocked.simps)
  ultimately show ?thesis
    using b e by (simp add: step_ok_def content_block_delta_def)
next
  case False
  then show ?thesis
    using assms by (intro step_ok_quiet) (auto simp: content_block_delta_def split: option.splits)
qed

lemma step_ok_stop:
  assumes "named_by_index d"
  shows "step_ok (content_block_stop v d) d"
proof (cases "map_of (ad_open d) (index_of v)")
  case None
  then show ?thesis
    using assms by (intro step_ok_quiet) (auto simp: content_block_stop_def)
next
  case (Some b)
  have "well_blocked (open_names d) (block_close b @ rest)"
    if "well_blocked (open_names (d\<lparr>ad_open := AList.delete (index_of v) (ad_open d)\<rparr>)) rest" for rest
    using that Some unfolding open_names_delete(2)[OF assms]
    by (auto simp: block_close_def name_of_def is_tool_def split: block_kind.splits)
  then show ?thesis
    using Some open_names_delete(1)[OF assms] by (simp add: step_ok_def content_block_stop_def)
qed

lemma step_ok_decode:
  assumes "named_by_index d" "starts_afresh parse f d"
  shows "step_ok (anthropic_decode parse (sf_event f) (sf_data f) d) d"
proof -
  have quiet: "step_ok (Inl e, d) d" "step_ok (Inr [], d) d" "step_ok (Inr [MFinish u r], d) d" for e u r
    using assms(1) by (auto intro!: step_ok_quiet)
  have "step_ok (message_start v d) d" "step_ok (message_delta v d) d" for v
    using assms(1) by (auto intro!: step_ok_quiet simp: message_start_def message_delta_def Let_def split: option.splits)
  moreover have "step_ok (with_parsed parse (sf_data f) ''content_block_start'' content_block_start d) d"
    if "sf_event f = ''content_block_start''"
    using that assms step_ok_start[OF assms(1)] quiet(1)
    by (auto simp: with_parsed_def parse_event_def starts_afresh_def split: sum.splits)
  ultimately show ?thesis
    using quiet step_ok_delta[OF assms(1)] step_ok_stop[OF assms(1)]
    by (auto simp: anthropic_decode_def with_parsed_def split: sum.splits)
qed

lemma decoder_blocks:
  assumes "named_by_index d" "wire_ok parse fs d" "decode_run (anthropic_decode parse) fs d = (es, e, d')"
  shows "well_blocked (open_names d) es"
  using assms
proof (induction fs arbitrary: d es)
  case (Cons f fs)
  obtain r d1 where step: "anthropic_decode parse (sf_event f) (sf_data f) d = (r, d1)"
    by fastforce
  have ok: "step_ok (r, d1) d" "wire_ok parse fs d1"
    using step_ok_decode[OF Cons.prems(1), of parse f] Cons.prems(2) step by simp_all
  show ?case
  proof (cases r)
    case (Inr events)
    obtain es' x where run: "decode_run (anthropic_decode parse) fs d1 = (es', x)"
      by (cases "decode_run (anthropic_decode parse) fs d1")
    then have "es = events @ es'" "x = (e, d')"
      using Cons.prems(3) step Inr by auto
    moreover have "well_blocked (open_names d1) es'"
      using Cons.IH[of d1 es'] ok run \<open>x = (e, d')\<close> by (simp add: step_ok_def)
    ultimately show ?thesis
      using ok(1) Inr by (simp add: step_ok_def)
  qed (use Cons.prems(3) step in simp)
qed simp


section \<open>A witness\<close>

text \<open>Three blocks, read as the start, a delta and the end of a text.\<close>

definition wire_text :: "bytes \<Rightarrow> string" where
  "wire_text b =
     (if take 1 b = [65] then ''event:content_block_start'' @ [newline] @ ''data:s''
      else if take 1 b = [66] then ''event:content_block_delta'' @ [newline] @ ''data:d''
      else if take 1 b = [67] then ''event:content_block_stop'' @ [newline] @ ''data:e''
      else [])"

definition wire_json :: "string \<Rightarrow> string + json" where
  "wire_json s =
     (if s = ''s'' then Inr (JObject [(''index'', JNumber ''1''), (''content_block'', JObject [(''type'', JString ''text'')])])
      else if s = ''d''
      then Inr (JObject [(''index'', JNumber ''1''), (''delta'', JObject [(''type'', JString ''text_delta''), (''text'', JString ''hi'')])])
      else if s = ''e'' then Inr (JObject [(''index'', JNumber ''1'')])
      else Inl ''no'')"

definition wire_bytes :: bytes where
  "wire_bytes = [65, 10, 10, 66, 10, 10, 67, 10, 10]"

definition wire_frames :: "sse_frame list" where
  "wire_frames =
     [\<lparr>sf_event = ''content_block_start'', sf_data = ''s''\<rparr>, \<lparr>sf_event = ''content_block_delta'', sf_data = ''d''\<rparr>,
      \<lparr>sf_event = ''content_block_stop'', sf_data = ''e''\<rparr>]"

lemma wire_blocks: "sse_blocks wire_bytes = ([[65, 10, 10], [66, 10, 10], [67, 10, 10]], [])"
proof -
  have "find_block_end [x, 10, 10, y, 10, 10, z, 10, 10] = Some 2" if "x = 65" "y = 66" "z = 67" for x y z
    using that by (simp add: find_block_end_def windows_def upt_rec)
  moreover have "find_block_end [x, 10, 10, y, 10, 10] = Some 2" if "x = 66" "y = 67" for x y
    using that by (simp add: find_block_end_def windows_def upt_rec)
  moreover have "find_block_end [x, 10, 10] = Some 2" if "x = 67" for x
    using that by (simp add: find_block_end_def windows_def upt_rec)
  moreover have "find_block_end [] = None"
    by (simp add: find_block_end_def windows_def)
  ultimately show ?thesis
    by (simp add: wire_bytes_def sse_blocks.simps)
qed

lemma wire_frames_read: "wire_frames = body_frames wire_text (concat [take 2 wire_bytes, drop 2 wire_bytes])"
proof -
  have "parse_block wire_text [] = None"
    by (simp add: parse_block_def wire_text_def block_line_def strip_prefix_def starts_with_def trim_def trim_start_def trim_end_def)
  moreover have "map (parse_block wire_text) [[65, 10, 10], [66, 10, 10], [67, 10, 10]] = map Some wire_frames"
    by (simp add: parse_block_def wire_text_def block_line_def strip_prefix_def starts_with_def trim_def trim_start_def trim_end_def
        wire_frames_def is_white_def)
  ultimately show ?thesis
    by (simp add: body_frames_def wire_blocks block_frames_def option_list_def wire_frames_def)
qed

lemmas decode_defs = anthropic_decode_def with_parsed_def parse_event_def wire_json_def content_block_start_def json_get_def
  block_open_def str_at_def json_as_str_def block_started_def index_of_def u64_at_def json_as_u64_def parse_u64_def
  digits_value_def is_ascii_digit_def unwrap_or_def content_block_delta_def wire_delta_def content_block_stop_def
  block_close_def option_list_def decoder_new_def

lemma wire_frames_ok: "wire_ok wire_json wire_frames decoder_new"
  by (simp add: wire_frames_def starts_afresh_def decode_defs)

lemma show_one: "show_nat (Suc 0) = ''1''"
  by code_simp

lemma wire_frames_run:
  "decode_run (anthropic_decode wire_json) wire_frames decoder_new = ([MTextStart ''1'', MTextDelta ''1'' ''hi'', MTextEnd ''1''], None, decoder_new)"
  by (simp add: wire_frames_def decode_defs show_one)


end
