(* ===== verification/Settings_Merge.thy ===== *)
theory Settings_Merge
  imports Core_Budget
begin

text \<open>
  Settings (\<open>bingo-core/src/settings.rs\<close>, \<open>settings/merge.rs\<close>, \<open>settings/approval.rs\<close>,
  \<open>approval.rs\<close>): layers of JSON objects, lowest first, folded key path by key path with the
  rule the claiming plugin gave, then cut into slices.  Objects keep the order of their keys
  and have each key once.  What serde makes of a kernel key (\<open>from_value\<close>) and the digest of a
  text are parameters.
\<close>

section \<open>Layers and claims\<close>

type_synonym fields = "(string \<times> json) list"

datatype merge_rule = MrReplace | MrAccumulate | MrPersonalAccumulate | MrByName

datatype layer_origin = LoUser | LoRepository string | LoExplicit

record layer =
  ly_origin :: layer_origin
  ly_source :: string
  ly_value :: fields

record claim =
  cl_plugin :: string
  cl_keys :: "(string \<times> merge_rule) list"
  cl_approve :: "string list"

datatype settings_error =
    SrConflict string string string
  | SrType string string string

type_synonym 'a settings_result = "settings_error + 'a"

definition is_user :: "layer \<Rightarrow> bool" where
  "is_user l \<longleftrightarrow> ly_origin l = LoUser"

definition repository :: "layer \<Rightarrow> string option" where
  "repository l = (case ly_origin l of LoRepository root \<Rightarrow> Some root | _ \<Rightarrow> None)"

definition KERNEL_KEYS :: "string list" where
  "KERNEL_KEYS =
     [''provider'', ''model'', ''thinking'', ''maxTokens'', ''models'', ''pictures'', ''enabledPlugins'', ''pluginTrust'',
      ''keys'', ''pinned'', ''approved'']"

definition claim_roots :: "claim \<Rightarrow> string list" where
  "claim_roots c = map (\<lambda>(key, _). hd (split_chars ((=) CHR ''.'') key)) (cl_keys c)"

definition canonical_pictures :: "layer list \<Rightarrow> layer list" where
  "canonical_pictures = map (\<lambda>l.
     (case map_of (ly_value l) ''pictures'' of
        Some (JObject pictures) \<Rightarrow>
          (case map_of pictures ''cache_days'' of
             Some v \<Rightarrow> l\<lparr>ly_value := AList.update ''pictures''
               (JObject (AList.update ''cacheDays'' v (AList.delete ''cache_days'' pictures))) (ly_value l)\<rparr>
           | None \<Rightarrow> l)
      | _ \<Rightarrow> l))"

fun claim_owners :: "string \<Rightarrow> string list \<Rightarrow> (string \<times> string) list \<Rightarrow> (string \<times> string) list settings_result" where
  "claim_owners plugin [] owners = Inr owners"
| "claim_owners plugin (root # roots) owners =
     (case map_of owners root of
        Some first \<Rightarrow>
          if first \<noteq> plugin then Inl (SrConflict root first plugin)
          else claim_owners plugin roots (AList.update root plugin owners)
      | None \<Rightarrow> claim_owners plugin roots (AList.update root plugin owners))"

fun owners_loop :: "claim list \<Rightarrow> (string \<times> string) list \<Rightarrow> (string \<times> string) list settings_result" where
  "owners_loop [] owners = Inr owners"
| "owners_loop (c # cs) owners =
     (case claim_owners (cl_plugin c) (claim_roots c) owners of Inl e \<Rightarrow> Inl e | Inr owners' \<Rightarrow> owners_loop cs owners')"

definition settings_owners :: "claim list \<Rightarrow> (string \<times> string) list settings_result" where
  "settings_owners claims = owners_loop claims (map (\<lambda>k. (k, ''kernel'')) KERNEL_KEYS)"

definition merge_modes :: "claim list \<Rightarrow> string \<Rightarrow> merge_rule option" where
  "merge_modes claims = map_of (rev (concat (map cl_keys claims)))"

definition unknown_keys :: "layer list \<Rightarrow> (string \<times> string) list \<Rightarrow> (string \<times> string) list" where
  "unknown_keys layers owners =
     concat (map (\<lambda>l. map (\<lambda>(k, _). (ly_source l, k)) (filter (\<lambda>(k, _). map_of owners k = None) (ly_value l))) layers)"

section \<open>The fold\<close>

definition child_path :: "string \<Rightarrow> string \<Rightarrow> string" where
  "child_path path key = (if path = [] then key else path @ ''.'' @ key)"

type_synonym sourced = "string \<times> json"

definition keys_of :: "(string \<times> fields) list \<Rightarrow> string list" where
  "keys_of objects = rev (remdups (rev (concat (map (\<lambda>(_, fs). map fst fs) objects))))"

definition values_at :: "string \<Rightarrow> (string \<times> fields) list \<Rightarrow> sourced list" where
  "values_at key objects = List.map_filter (\<lambda>(source, fs). map_option (Pair source) (map_of fs key)) objects"

text \<open>What is left after the last null.\<close>

definition live_values :: "sourced list \<Rightarrow> sourced list" where
  "live_values vs = rev (takeWhile (\<lambda>(_, v). v \<noteq> JNull) (rev vs))"

definition is_object :: "json \<Rightarrow> bool" where
  "is_object v = (case v of JObject _ \<Rightarrow> True | _ \<Rightarrow> False)"

definition object_fields :: "json \<Rightarrow> fields" where
  "object_fields v = (case v of JObject fs \<Rightarrow> fs | _ \<Rightarrow> [])"

fun arrays :: "string \<Rightarrow> sourced list \<Rightarrow> json list settings_result" where
  "arrays path [] = Inr []"
| "arrays path ((source, v) # vs) =
     (case v of
        JArray items \<Rightarrow> (case arrays path vs of Inl e \<Rightarrow> Inl e | Inr rest \<Rightarrow> Inr (items @ rest))
      | _ \<Rightarrow> Inl (SrType path source ''expected a list''))"

fun push_new :: "json list \<Rightarrow> json list \<Rightarrow> json list" where
  "push_new out [] = out"
| "push_new out (x # xs) = push_new (if x \<in> set out then out else out @ [x]) xs"

definition accumulate :: "string \<Rightarrow> sourced list \<Rightarrow> json settings_result" where
  "accumulate path vs = (case arrays path vs of Inl e \<Rightarrow> Inl e | Inr items \<Rightarrow> Inr (JArray (push_new [] items)))"

definition entry_name :: "string \<Rightarrow> json \<Rightarrow> string settings_result" where
  "entry_name path item =
     (case Option.bind (case json_get item ''name'' of Some v \<Rightarrow> Some v | None \<Rightarrow> json_get item ''id'') json_as_str of
        Some n \<Rightarrow> Inr n
      | None \<Rightarrow> Inl (SrType path ''merged'' ''every entry needs a string `name` or `id`''))"

text \<open>A named entry takes the place of the one before it.\<close>

fun by_name_loop :: "string \<Rightarrow> fields \<Rightarrow> json list \<Rightarrow> fields settings_result" where
  "by_name_loop path out [] = Inr out"
| "by_name_loop path out (x # xs) =
     (case entry_name path x of Inl e \<Rightarrow> Inl e | Inr n \<Rightarrow> by_name_loop path (AList.update n x out) xs)"

definition by_name :: "string \<Rightarrow> sourced list \<Rightarrow> json settings_result" where
  "by_name path vs =
     (case arrays path vs of
        Inl e \<Rightarrow> Inl e
      | Inr items \<Rightarrow> (case by_name_loop path [] items of Inl e \<Rightarrow> Inl e | Inr out \<Rightarrow> Inr (JArray (map snd out))))"

definition fold_leaf :: "(string \<Rightarrow> merge_rule option) \<Rightarrow> string \<Rightarrow> sourced list \<Rightarrow> json settings_result" where
  "fold_leaf modes path live =
     (case unwrap_or (modes path) MrReplace of
        MrReplace \<Rightarrow> Inr (snd (last live))
      | MrAccumulate \<Rightarrow> accumulate path live
      | MrPersonalAccumulate \<Rightarrow> accumulate path live
      | MrByName \<Rightarrow> by_name path live)"

function (sequential) fold_keys ::
  "(string \<Rightarrow> merge_rule option) \<Rightarrow> string \<Rightarrow> (string \<times> fields) list \<Rightarrow> string list \<Rightarrow> fields settings_result"
and fold_value :: "(string \<Rightarrow> merge_rule option) \<Rightarrow> string \<Rightarrow> sourced list \<Rightarrow> json option settings_result" where
  "fold_keys modes path objects [] = Inr []"
| "fold_keys modes path objects (key # ks) =
     (case fold_value modes (child_path path key) (values_at key objects) of
        Inl e \<Rightarrow> Inl e
      | Inr v \<Rightarrow>
          (case fold_keys modes path objects ks of
             Inl e \<Rightarrow> Inl e
           | Inr out \<Rightarrow> Inr (case v of None \<Rightarrow> out | Some x \<Rightarrow> (key, x) # out)))"
| "fold_value modes path vs =
     (let live = live_values vs
      in if live = [] then Inr None
         else if path = ''keys'' then Inr (Some (snd (last live)))
         else if list_all (\<lambda>(_, v). is_object v) live
         then (let objects = map (\<lambda>(s, v). (s, object_fields v)) live
               in case fold_keys modes path objects (keys_of objects) of Inl e \<Rightarrow> Inl e | Inr out \<Rightarrow> Inr (Some (JObject out)))
         else map_sum id Some (fold_leaf modes path live))"
  by pat_completeness auto

text \<open>Every step down looks at fewer constructors of the layers.\<close>

definition fields_weight :: "(string \<times> fields) list \<Rightarrow> nat" where
  "fields_weight objects = sum_list (map (\<lambda>(_, fs). sum_list (map (\<lambda>(_, v). size v) fs)) objects)"

definition values_weight :: "sourced list \<Rightarrow> nat" where
  "values_weight vs = sum_list (map (\<lambda>(_, v). size v) vs)"

lemma size_fields: "sum_list (map (\<lambda>(_, v). size v) fs) < size (JObject fs)"
  by (induction fs) auto

lemma map_of_weight: "map_of fs k = Some v \<Longrightarrow> size v \<le> sum_list (map (\<lambda>(_, v). size (v :: json)) fs)"
  by (induction fs) (auto split: if_splits)

lemma values_at_weight: "values_weight (values_at k objects) \<le> fields_weight objects"
  unfolding values_at_def values_weight_def fields_weight_def
proof (induction objects)
  case (Cons a objects)
  obtain source fs where a: "a = (source, fs)"
    by fastforce
  show ?case
    using Cons.IH map_of_weight[of fs k] unfolding a
    by (cases "map_of fs k") (auto simp: map_filter_simps add_mono trans_le_add2)
qed (simp add: map_filter_simps)

lemma takeWhile_weight: "sum_list (map f (takeWhile P xs)) \<le> (sum_list (map f xs) :: nat)"
  by (induction xs) auto

lemma live_weight: "values_weight (live_values vs) \<le> values_weight vs"
  using takeWhile_weight[of "\<lambda>(_, v). size (v :: json)" _ "rev vs"]
  by (simp add: values_weight_def live_values_def rev_map[symmetric])

lemma objects_weight:
  assumes "live \<noteq> []" "list_all (\<lambda>(_, v). is_object v) live"
  shows "fields_weight (map (\<lambda>(s, v). (s, object_fields v)) live) < values_weight live"
  using assms
proof (induction live)
  case (Cons a live)
  obtain s v where a: "a = (s, v)"
    by fastforce
  then obtain fs where v: "v = JObject fs"
    using Cons.prems by (auto simp: is_object_def split: json.splits)
  have "fields_weight (map (\<lambda>(s, v). (s, object_fields v)) live) \<le> values_weight live"
    using Cons by (cases "live = []") (auto simp: fields_weight_def values_weight_def)
  then show ?case
    using size_fields[of fs] a v by (simp add: fields_weight_def values_weight_def object_fields_def)
qed simp

termination fold_keys
proof (relation "measures
    [\<lambda>x. (case x of Inl (_, _, objects, _) \<Rightarrow> fields_weight objects | Inr (_, _, vs) \<Rightarrow> values_weight vs),
     \<lambda>x. (case x of Inl (_, _, _, ks) \<Rightarrow> Suc (length ks) | Inr _ \<Rightarrow> 0)]", goal_cases)
  case (2 modes path objects key ks)
  then show ?case
    using values_at_weight[of key objects] by auto
next
  case (4 modes path vs live objects)
  then have "fields_weight objects < values_weight live"
    using objects_weight[of live] by simp
  then show ?case
    using 4 live_weight[of vs] by simp
qed auto

declare fold_keys.simps [simp del] fold_value.simps [simp del]

definition fold_objects :: "(string \<Rightarrow> merge_rule option) \<Rightarrow> string \<Rightarrow> (string \<times> fields) list \<Rightarrow> fields settings_result" where
  "fold_objects modes path objects = fold_keys modes path objects (keys_of objects)"

section \<open>Slices, personal keys and approvals\<close>

text \<open>\<open>remove\<close> of a dotted path.\<close>

fun remove_path :: "string list \<Rightarrow> fields \<Rightarrow> bool \<times> fields" where
  "remove_path [] object = (False, object)"
| "remove_path [key] object = (map_of object key \<noteq> None, AList.delete key object)"
| "remove_path (h # rest) object =
     (case map_of object h of
        Some (JObject child) \<Rightarrow>
          (case remove_path rest child of (gone, child') \<Rightarrow> (gone, AList.update h (JObject child') object))
      | _ \<Rightarrow> (False, object))"

definition personal_keys :: "claim list \<Rightarrow> string list" where
  "personal_keys claims = map fst (filter (\<lambda>(_, r). r = MrPersonalAccumulate) (concat (map cl_keys claims)))"

fun remove_keys :: "string list \<Rightarrow> layer \<Rightarrow> layer \<times> (string \<times> string) list" where
  "remove_keys [] l = (l, [])"
| "remove_keys (key # ks) l =
     (case remove_path (split_chars ((=) CHR ''.'') key) (ly_value l) of (gone, v) \<Rightarrow>
        (case remove_keys ks (l\<lparr>ly_value := v\<rparr>) of (l', notices) \<Rightarrow>
           (l', (if gone
                 then [(''PROJECT_SETTING_IGNORED'',
                        key @ '' in '' @ ly_source l @ '' is ignored; executable directories must be supplied by the person'')]
                 else []) @ notices)))"

definition personal_layer :: "claim list \<Rightarrow> layer \<Rightarrow> layer \<times> (string \<times> string) list" where
  "personal_layer claims l = (if repository l \<noteq> None then remove_keys (personal_keys claims) l else (l, []))"

definition personal :: "layer list \<Rightarrow> claim list \<Rightarrow> layer list \<times> (string \<times> string) list" where
  "personal layers claims =
     (map (fst \<circ> personal_layer claims) layers, concat (map (snd \<circ> personal_layer claims) layers))"

fun at_parts :: "string list \<Rightarrow> json \<Rightarrow> json option" where
  "at_parts [] v = Some v"
| "at_parts (k # ks) v = Option.bind (json_get v k) (at_parts ks)"

definition at_path :: "fields \<Rightarrow> string \<Rightarrow> json option" where
  "at_path fs path = at_parts (split_chars ((=) CHR ''.'') path) (JObject fs)"

type_synonym entries = "((string \<times> string) \<times> string) list"

fun json_canonical :: "json \<Rightarrow> json" where
  "json_canonical (JObject fs) = JObject (sort_key fst (map (\<lambda>(k, v). (k, json_canonical v)) fs))"
| "json_canonical (JArray vs) = JArray (map json_canonical vs)"
| "json_canonical v = v"

definition digest_entry :: "(json \<Rightarrow> string) \<Rightarrow> json \<Rightarrow> string" where
  "digest_entry hash v = hash (json_canonical v)"

definition layer_entries :: "(json \<Rightarrow> string) \<Rightarrow> claim list \<Rightarrow> fields \<Rightarrow> layer \<Rightarrow> entries" where
  "layer_entries hash claims merged l =
     (case repository l of
        None \<Rightarrow> []
      | Some root \<Rightarrow>
          concat (map (\<lambda>key.
            concat (map (\<lambda>name.
              (case Option.bind (at_path merged key) (\<lambda>v. json_get v name) of
                 Some v \<Rightarrow> [((root, key @ '':'' @ name), digest_entry hash v)]
               | None \<Rightarrow> []))
              (case at_path (ly_value l) key of Some (JObject fs) \<Rightarrow> map fst fs | _ \<Rightarrow> [])))
            (concat (map cl_approve claims))))"

definition settings_entries :: "(json \<Rightarrow> string) \<Rightarrow> layer list \<Rightarrow> claim list \<Rightarrow> fields \<Rightarrow> entries" where
  "settings_entries hash layers claims merged =
     foldl (\<lambda>es (k, v). AList.update k v es) [] (concat (map (layer_entries hash claims merged) layers))"

type_synonym approved = "(string \<times> (string \<times> string) list) list"

text \<open>The two states of a plugin that a verdict gives.\<close>

datatype approval_state = PlOn | PlWaiting bool

definition approval_verdict :: "approved \<Rightarrow> string \<Rightarrow> string \<Rightarrow> string \<Rightarrow> approval_state" where
  "approval_verdict app root what digest =
     (case Option.bind (map_of app root) (\<lambda>es. map_of es what) of
        Some saved \<Rightarrow> if saved = digest then PlOn else PlWaiting True
      | None \<Rightarrow> PlWaiting False)"

record waiting_entry =
  wt_root :: string
  wt_key :: string
  wt_name :: string
  wt_changed :: bool

definition entry_waiting :: "approved \<Rightarrow> string list \<Rightarrow> (string \<times> string) \<times> string \<Rightarrow> waiting_entry list" where
  "entry_waiting app approve entry =
     (case entry of ((root, what), digest) \<Rightarrow>
        (case split_once '':'' what of
           None \<Rightarrow> []
         | Some (key, name) \<Rightarrow>
             if key \<notin> set approve then []
             else (case approval_verdict app root what digest of
                     PlWaiting changed \<Rightarrow> [\<lparr>wt_root = root, wt_key = key, wt_name = name, wt_changed = changed\<rparr>]
                   | PlOn \<Rightarrow> [])))"

text \<open>The entries in the order of a sorted map.\<close>

definition claim_waiting :: "approved \<Rightarrow> entries \<Rightarrow> claim \<Rightarrow> waiting_entry list" where
  "claim_waiting app es c =
     concat (map (entry_waiting app (cl_approve c)) (sort_key (fst \<circ> fst) (sort_key (snd \<circ> fst) es)))"

definition waiting_json :: "waiting_entry \<Rightarrow> json" where
  "waiting_json w =
     JObject [(''root'', JString (wt_root w)), (''key'', JString (wt_key w)), (''name'', JString (wt_name w)),
              (''changed'', JBool (wt_changed w))]"

definition waiting_step :: "approved \<Rightarrow> entries \<Rightarrow> claim \<Rightarrow> (string \<times> fields) list \<Rightarrow> (string \<times> fields) list" where
  "waiting_step app es c plugins =
     (if cl_approve c = [] then plugins
      else case map_of plugins (cl_plugin c) of
             Some sl \<Rightarrow>
               AList.update (cl_plugin c)
                 (AList.update ''waiting'' (JArray (map waiting_json (claim_waiting app es c))) sl) plugins
           | None \<Rightarrow> plugins)"

definition settings_waiting :: "approved \<Rightarrow> entries \<Rightarrow> claim list \<Rightarrow> (string \<times> fields) list \<Rightarrow> (string \<times> fields) list" where
  "settings_waiting app es claims plugins = fold (waiting_step app es) claims plugins"

definition claim_slice :: "fields \<Rightarrow> claim \<Rightarrow> fields" where
  "claim_slice merged c =
     fold (\<lambda>root sl. case map_of merged root of Some v \<Rightarrow> AList.update root v sl | None \<Rightarrow> sl) (claim_roots c) []"

definition slices :: "fields \<Rightarrow> claim list \<Rightarrow> (string \<times> fields) list" where
  "slices merged claims = fold (\<lambda>c ps. AList.update (cl_plugin c) (claim_slice merged c) ps) claims []"

section \<open>The merge\<close>

definition bind_result :: "'e + 'a \<Rightarrow> ('a \<Rightarrow> 'e + 'b) \<Rightarrow> 'e + 'b" where
  "bind_result r f = (case r of Inl e \<Rightarrow> Inl e | Inr x \<Rightarrow> f x)"

definition last_source :: "layer list \<Rightarrow> string \<Rightarrow> string" where
  "last_source layers key =
     (case find (\<lambda>l. map_of (ly_value l) key \<noteq> None) (rev layers) of Some l \<Rightarrow> ly_source l | None \<Rightarrow> ''settings'')"

definition typed_setting :: "(json \<Rightarrow> string + 'v) \<Rightarrow> fields \<Rightarrow> layer list \<Rightarrow> string \<Rightarrow> 'v option settings_result" where
  "typed_setting from_value merged layers key =
     (case map_of merged key of
        None \<Rightarrow> Inr None
      | Some v \<Rightarrow>
          (case from_value v of Inl e \<Rightarrow> Inl (SrType key (last_source layers key) e) | Inr x \<Rightarrow> Inr (Some x)))"

definition layer_objects :: "layer list \<Rightarrow> (string \<times> fields) list" where
  "layer_objects layers = map (\<lambda>l. (ly_source l, ly_value l)) layers"

definition user_value :: "(json \<Rightarrow> string + 'v) \<Rightarrow> 'v \<Rightarrow> layer list \<Rightarrow> string \<Rightarrow> 'v settings_result" where
  "user_value from_value fallback layers key =
     (let user = filter is_user layers
      in bind_result (fold_objects (\<lambda>_. None) [] (layer_objects user)) (\<lambda>merged.
         map_sum id (\<lambda>x. unwrap_or x fallback) (typed_setting from_value merged user key)))"

fun said_loop :: "string \<Rightarrow> fields \<Rightarrow> u64 option \<Rightarrow> u64 option settings_result" where
  "said_loop source [] days = Inr days"
| "said_loop source ((k, v) # fs) days =
     (if k \<notin> set [''cacheDays'', ''cache_days'']
      then Inl (SrType (''pictures.'' @ k) source ''no such setting; `cacheDays` is the one'')
      else if v = JNull then said_loop source fs days
      else case json_as_u64 v of
             None \<Rightarrow> Inl (SrType (''pictures.'' @ k) source ''expected a whole number of days, `0` for never'')
           | Some n \<Rightarrow> said_loop source fs (Some n))"

definition pictures_said :: "string \<Rightarrow> json \<Rightarrow> u64 option settings_result" where
  "pictures_said source pictures =
     (case pictures of
        JNull \<Rightarrow> Inr None
      | JObject fs \<Rightarrow> said_loop source fs None
      | _ \<Rightarrow> Inl (SrType ''pictures'' source ''expected an object''))"

definition cache_days :: "fields \<Rightarrow> layer list \<Rightarrow> u64 option settings_result" where
  "cache_days merged layers =
     (case map_of merged ''pictures'' of None \<Rightarrow> Inr None | Some p \<Rightarrow> pictures_said (last_source layers ''pictures'') p)"

text \<open>What serde makes of a kernel key; a value of a type is the JSON it was read from.\<close>

record serde =
  sv_value :: "string \<Rightarrow> json \<Rightarrow> string + json"
  sv_trust :: "json \<Rightarrow> string + (string \<times> json) list"
  sv_approved :: "json \<Rightarrow> string + approved"
  sv_hash :: "json \<Rightarrow> string"

record kernel_settings =
  kt_picture_cache_days :: "u64 option"
  kt_provider :: "json option"
  kt_model :: "json option"
  kt_thinking :: "json option"
  kt_max_tokens :: "json option"
  kt_models :: "json option"
  kt_plugin_trust :: "(string \<times> json) list"
  kt_approved :: approved
  kt_enabled_plugins :: "json option"
  kt_keys :: "json option"
  kt_pinned :: "json option"

definition kernel_settings_of :: "serde \<Rightarrow> fields \<Rightarrow> layer list \<Rightarrow> kernel_settings settings_result" where
  "kernel_settings_of sv merged layers =
     (let value = (\<lambda>key. typed_setting (sv_value sv key) merged layers key)
      in bind_result (cache_days merged layers) (\<lambda>days.
         bind_result (value ''provider'') (\<lambda>provider.
         bind_result (value ''model'') (\<lambda>model.
         bind_result (value ''thinking'') (\<lambda>thinking.
         bind_result (value ''maxTokens'') (\<lambda>max_tokens.
         bind_result (value ''models'') (\<lambda>models.
         bind_result (user_value (sv_trust sv) [] layers ''pluginTrust'') (\<lambda>trust.
         bind_result (user_value (sv_approved sv) [] layers ''approved'') (\<lambda>app.
         bind_result (value ''enabledPlugins'') (\<lambda>enabled.
         bind_result (value ''keys'') (\<lambda>ks.
         bind_result (value ''pinned'') (\<lambda>pinned.
         Inr \<lparr>kt_picture_cache_days = days, kt_provider = provider, kt_model = model, kt_thinking = thinking,
              kt_max_tokens = max_tokens, kt_models = models, kt_plugin_trust = trust, kt_approved = app,
              kt_enabled_plugins = enabled, kt_keys = ks, kt_pinned = pinned\<rparr>))))))))))))"

record merged_settings =
  ms_repository_entries :: entries
  ms_notices :: "(string \<times> string) list"
  ms_kernel :: kernel_settings
  ms_plugins :: "(string \<times> fields) list"
  ms_unknown :: "(string \<times> string) list"

definition ignored_notice :: "string \<Rightarrow> string \<Rightarrow> string \<Rightarrow> layer list \<Rightarrow> (string \<times> string) list" where
  "ignored_notice code key why layers =
     map (\<lambda>l. (code, key @ '' in '' @ ly_source l @ '' is ignored; '' @ why))
       (filter (\<lambda>l. \<not> is_user l \<and> map_of (ly_value l) key \<noteq> None) layers)"

definition settings_merge :: "serde \<Rightarrow> layer list \<Rightarrow> claim list \<Rightarrow> merged_settings settings_result" where
  "settings_merge sv given claims =
     (case personal given claims of (kept, personal_notices) \<Rightarrow>
        let layers = canonical_pictures kept
        in bind_result (settings_owners claims) (\<lambda>owners.
           bind_result (fold_objects (merge_modes claims) [] (layer_objects layers)) (\<lambda>merged.
           bind_result (kernel_settings_of sv merged layers) (\<lambda>kernel.
           let es = settings_entries (sv_hash sv) layers claims merged
           in Inr \<lparr>ms_repository_entries = es,
                  ms_notices = ignored_notice ''PLUGIN_TRUST_IGNORED'' ''pluginTrust'' ''grants belong in user settings'' layers
                    @ ignored_notice ''APPROVED_IGNORED'' ''approved'' ''approvals belong in user settings'' layers
                    @ personal_notices,
                  ms_kernel = kernel,
                  ms_plugins = settings_waiting (kt_approved kernel) es claims (slices merged claims),
                  ms_unknown = unknown_keys layers owners\<rparr>))))"

section \<open>What a key comes to\<close>

lemma fold_value_nothing [simp]: "fold_value modes path [] = Inr None"
  by (simp add: fold_value.simps live_values_def)

lemma fold_keys_lookup:
  "fold_keys modes path objects ks = Inr out \<Longrightarrow> distinct ks \<Longrightarrow>
     (if k \<in> set ks then fold_value modes (child_path path k) (values_at k objects) = Inr (map_of out k) else map_of out k = None)"
proof (induction ks arbitrary: out)
  case (Cons key ks)
  then show ?case
    by (auto simp: fold_keys.simps split: sum.splits option.splits if_splits)
qed (simp add: fold_keys.simps)

lemma keys_of_distinct: "distinct (keys_of objects)"
  by (simp add: keys_of_def)

lemma values_at_absent: "k \<notin> set (keys_of objects) \<Longrightarrow> values_at k objects = []"
proof (induction objects)
  case (Cons a objects)
  then show ?case
    by (cases a) (auto simp: values_at_def keys_of_def map_filter_simps map_of_eq_None_iff split: option.splits)
qed (simp add: values_at_def map_filter_simps)

text \<open>A key of the merged settings is the fold of what the layers say of it.\<close>

lemma fold_objects_lookup:
  assumes "fold_objects modes path objects = Inr out"
  shows "fold_value modes (child_path path k) (values_at k objects) = Inr (map_of out k)"
  using fold_keys_lookup[OF assms[unfolded fold_objects_def] keys_of_distinct, of k] values_at_absent[of k objects]
  by (auto split: if_splits)

text \<open>An accumulated list has everything the layers after the last null say, once.\<close>

lemma push_new_all: "set (push_new out xs) = set out \<union> set xs \<and> (distinct out \<longrightarrow> distinct (push_new out xs))"
  by (induction xs arbitrary: out) auto

lemma live_suffix: "\<exists>cleared. vs = cleared @ live_values vs \<and> (cleared = [] \<or> snd (last cleared) = JNull)"
proof -
  let ?rest = "dropWhile (\<lambda>(_, v). v \<noteq> JNull) (rev vs)"
  have "vs = rev ?rest @ live_values vs"
    unfolding live_values_def by (metis rev_append rev_rev_ident takeWhile_dropWhile_id)
  moreover have "rev ?rest = [] \<or> snd (last (rev ?rest)) = JNull"
    using hd_dropWhile[of "\<lambda>(_, v). v \<noteq> JNull" "rev vs"] by (cases "?rest = []") (auto simp: last_rev split: prod.splits)
  ultimately show ?thesis
    by blast
qed

section \<open>What a repository cannot say\<close>

definition same_but_repository :: "layer list \<Rightarrow> layer list \<Rightarrow> bool" where
  "same_but_repository layers layers' \<longleftrightarrow>
     list_all2 (\<lambda>l l'. ly_origin l = ly_origin l' \<and> (repository l = None \<longrightarrow> l = l')) layers layers'"

definition canonical_layer :: "layer \<Rightarrow> layer" where
  "canonical_layer l = hd (canonical_pictures [l])"

lemma canonical_pictures_map: "canonical_pictures layers = map canonical_layer layers"
  by (simp add: canonical_pictures_def canonical_layer_def)

lemma canonical_layer_origin [simp]: "ly_origin (canonical_layer l) = ly_origin l"
  by (simp add: canonical_layer_def canonical_pictures_def split: option.splits json.splits)

lemma canonical_layer_absent: "map_of (ly_value l) k = None \<Longrightarrow> map_of (ly_value (canonical_layer l)) k = None"
  by (auto simp: canonical_layer_def canonical_pictures_def update_conv' split: option.splits json.splits)

lemma remove_path_absent: "map_of object k = None \<Longrightarrow> map_of (snd (remove_path parts object)) k = None"
  by (induction parts object rule: remove_path.induct)
     (auto simp: update_conv' delete_conv' split: option.splits json.splits prod.splits if_splits)

lemma remove_keys_origin [simp]: "ly_origin (fst (remove_keys ks l)) = ly_origin l"
  by (induction ks arbitrary: l) (auto split: prod.splits, metis fst_conv layer.select_convs(1) layer.surjective layer.update_convs(3))

lemma remove_keys_absent: "map_of (ly_value l) k = None \<Longrightarrow> map_of (ly_value (fst (remove_keys ks l))) k = None"
proof (induction ks arbitrary: l)
  case (Cons key ks)
  obtain gone v where r: "remove_path (split_chars ((=) CHR ''.'') key) (ly_value l) = (gone, v)"
    by fastforce
  then have "map_of v k = None"
    using remove_path_absent[OF Cons.prems, of "split_chars ((=) CHR ''.'') key"] by simp
  then show ?case
    using Cons.IH[of "l\<lparr>ly_value := v\<rparr>"] r by (auto split: prod.splits)
qed simp

lemma plain_key: "CHR ''.'' \<notin> set k \<Longrightarrow> split_chars ((=) CHR ''.'') k = [k]"
  by (induction k) auto

lemma remove_keys_removes:
  "k \<in> set ks \<Longrightarrow> CHR ''.'' \<notin> set k \<Longrightarrow> map_of (ly_value (fst (remove_keys ks l))) k = None"
proof (induction ks arbitrary: l)
  case (Cons key ks)
  obtain gone v where r: "remove_path (split_chars ((=) CHR ''.'') key) (ly_value l) = (gone, v)"
    by fastforce
  show ?case
  proof (cases "k = key")
    case True
    then have "map_of v k = None"
      using r Cons.prems(2) by (auto simp: plain_key delete_conv')
    then show ?thesis
      using remove_keys_absent[of "l\<lparr>ly_value := v\<rparr>" k ks] r by (auto split: prod.splits)
  next
    case False
    then show ?thesis
      using Cons.IH[of "l\<lparr>ly_value := v\<rparr>"] Cons.prems r by (auto split: prod.splits)
  qed
qed simp

definition effective :: "layer list \<Rightarrow> claim list \<Rightarrow> layer list" where
  "effective layers claims = canonical_pictures (fst (personal layers claims))"

lemma effective_map: "effective layers claims = map (\<lambda>l. canonical_layer (fst (personal_layer claims l))) layers"
  by (simp add: effective_def personal_def canonical_pictures_map)

lemma personal_layer_origin [simp]: "ly_origin (fst (personal_layer claims l)) = ly_origin l"
  by (simp add: personal_layer_def)

lemma effective_user:
  assumes "same_but_repository layers layers'"
  shows "filter is_user (effective layers claims) = filter is_user (effective layers' claims)"
  using assms unfolding same_but_repository_def effective_map
proof (induction rule: list_all2_induct)
  case (Cons l ls l' ls')
  then show ?case
    by (cases "ly_origin l") (auto simp: is_user_def repository_def)
qed simp

lemma values_at_Cons:
  "values_at k ((s, fs) # xs) = (case map_of fs k of Some v \<Rightarrow> (s, v) # values_at k xs | None \<Rightarrow> values_at k xs)"
  by (simp add: values_at_def map_filter_simps split: option.splits)

lemma effective_values:
  assumes "same_but_repository layers layers'" "k \<in> set (personal_keys claims)" "CHR ''.'' \<notin> set k"
  shows "values_at k (layer_objects (effective layers claims)) = values_at k (layer_objects (effective layers' claims))"
proof -
  have gone: "map_of (ly_value (canonical_layer (fst (personal_layer claims l)))) k = None" if "repository l \<noteq> None" for l
    using that assms(2,3) by (simp add: personal_layer_def canonical_layer_absent remove_keys_removes)
  show ?thesis
    using assms(1) unfolding same_but_repository_def effective_map layer_objects_def
  proof (induction rule: list_all2_induct)
    case (Cons l ls l' ls')
    show ?case
    proof (cases "repository l")
      case None
      then have "l' = l"
        using Cons.hyps(1) by simp
      then show ?thesis
        using Cons.IH by (simp add: values_at_Cons split: option.splits)
    next
      case (Some root)
      then have "repository l' \<noteq> None"
        using Cons.hyps(1) by (simp add: repository_def)
      then show ?thesis
        using Cons.IH gone[of l] gone[of l'] Some by (simp add: values_at_Cons)
    qed
  qed (simp add: values_at_def map_filter_simps)
qed

definition slice_key :: "(string \<times> fields) list \<Rightarrow> string \<Rightarrow> string \<Rightarrow> json option option" where
  "slice_key plugins plugin k = map_option (\<lambda>sl. map_of sl k) (map_of plugins plugin)"

lemma waiting_keeps_keys: "k \<noteq> ''waiting'' \<Longrightarrow> slice_key (settings_waiting app es claims plugins) p k = slice_key plugins p k"
  unfolding settings_waiting_def
proof (induction claims arbitrary: plugins)
  case (Cons c claims)
  then show ?case
    by (auto simp: slice_key_def waiting_step_def update_conv' split: option.splits)
qed simp

lemma claim_slice_lookup: "map_of (claim_slice merged c) k = (if k \<in> set (claim_roots c) then map_of merged k else None)"
proof -
  have "map_of (fold (\<lambda>root sl. case map_of merged root of Some v \<Rightarrow> AList.update root v sl | None \<Rightarrow> sl) roots sl) k
      = (if k \<in> set roots \<and> map_of merged k \<noteq> None then map_of merged k else map_of sl k)" for roots sl
    by (induction roots arbitrary: sl) (auto simp: update_conv' split: option.splits)
  then show ?thesis
    by (auto simp: claim_slice_def)
qed

lemma slices_lookup:
  assumes "map_of merged k = map_of merged' k"
  shows "slice_key (slices merged claims) p k = slice_key (slices merged' claims) p k"
proof -
  have "slice_key ps p k = slice_key ps' p k \<Longrightarrow>
      slice_key (fold (\<lambda>c ps. AList.update (cl_plugin c) (claim_slice merged c) ps) claims ps) p k
      = slice_key (fold (\<lambda>c ps. AList.update (cl_plugin c) (claim_slice merged' c) ps) claims ps') p k" for ps ps'
  proof (induction claims arbitrary: ps ps')
    case (Cons c claims)
    have "slice_key (AList.update (cl_plugin c) (claim_slice merged c) ps) p k
        = slice_key (AList.update (cl_plugin c) (claim_slice merged' c) ps') p k"
      using Cons.prems assms by (auto simp: slice_key_def update_conv' claim_slice_lookup)
    then show ?case
      using Cons.IH by simp
  qed simp
  then show ?thesis
    by (simp add: slices_def slice_key_def)
qed

lemma merge_parts:
  assumes "settings_merge sv layers claims = Inr m"
  obtains merged where "fold_objects (merge_modes claims) [] (layer_objects (effective layers claims)) = Inr merged"
    "kernel_settings_of sv merged (effective layers claims) = Inr (ms_kernel m)"
    "ms_repository_entries m = settings_entries (sv_hash sv) (effective layers claims) claims merged"
    "ms_plugins m = settings_waiting (kt_approved (ms_kernel m)) (ms_repository_entries m) claims (slices merged claims)"
  using assms
  by (auto simp: settings_merge_def effective_def Let_def bind_result_def split: prod.splits sum.splits)

lemma kernel_user_values:
  assumes "kernel_settings_of sv merged layers = Inr kern"
  shows "user_value (sv_trust sv) [] layers ''pluginTrust'' = Inr (kt_plugin_trust kern)"
    and "user_value (sv_approved sv) [] layers ''approved'' = Inr (kt_approved kern)"
  using assms by (auto simp: kernel_settings_of_def Let_def bind_result_def split: sum.splits)


section \<open>What a repository says to run\<close>

lemma foldl_update: "map_of (foldl (\<lambda>es (k, v). AList.update k v es) es0 kvs) k = (case map_of (rev kvs) k of Some v \<Rightarrow> Some v | None \<Rightarrow> map_of es0 k)"
  by (induction kvs arbitrary: es0) (auto simp: update_conv' map_add_def split: option.splits prod.splits)

lemma split_first_colon: "CHR '':'' \<notin> set key \<Longrightarrow> split_once '':'' (key @ '':'' @ name) = Some (key, name)"
  by (induction key) (auto simp: starts_with_def)

lemma object_names: "name \<in> set (case x of Some (JObject fs) \<Rightarrow> map fst fs | _ \<Rightarrow> []) \<longleftrightarrow> (\<exists>fs. x = Some (JObject fs) \<and> name \<in> set (map fst fs))"
  by (auto split: option.splits json.splits)

lemma layer_entry_iff:
  "e \<in> set (layer_entries hash claims merged l) \<longleftrightarrow>
     (\<exists>root key fs name v. repository l = Some root \<and> key \<in> set (concat (map cl_approve claims))
        \<and> at_path (ly_value l) key = Some (JObject fs) \<and> name \<in> set (map fst fs)
        \<and> Option.bind (at_path merged key) (\<lambda>v. json_get v name) = Some v
        \<and> e = ((root, key @ '':'' @ name), digest_entry hash v))"
proof (cases "repository l")
  case (Some root)
  define names where "names = (\<lambda>key. case at_path (ly_value l) key of Some (JObject fs) \<Rightarrow> map fst fs | _ \<Rightarrow> [])"
  have names: "name \<in> set (names key) \<longleftrightarrow> (\<exists>fs. at_path (ly_value l) key = Some (JObject fs) \<and> name \<in> set (map fst fs))" for key name
    unfolding names_def by (rule object_names)
  define made where "made = (\<lambda>key name v. ((root, key @ '':'' @ name), digest_entry hash v))"
  define found where "found = (\<lambda>key name. Option.bind (at_path merged key) (\<lambda>v. json_get v name))"
  define entry where "entry = (\<lambda>key name. case found key name of Some v \<Rightarrow> [made key name v] | None \<Rightarrow> [])"
  have entry: "e \<in> set (entry key name) \<longleftrightarrow> (\<exists>v. found key name = Some v \<and> e = made key name v)" for key name
    unfolding entry_def by (cases "found key name") auto
  have "layer_entries hash claims merged l =
      concat (map (\<lambda>key. concat (map (entry key) (names key))) (concat (map cl_approve claims)))"
    unfolding layer_entries_def Some entry_def names_def made_def found_def by simp
  then have "e \<in> set (layer_entries hash claims merged l) \<longleftrightarrow>
      (\<exists>key \<in> set (concat (map cl_approve claims)). \<exists>name \<in> set (names key). e \<in> set (entry key name))"
    by auto
  then have "e \<in> set (layer_entries hash claims merged l) \<longleftrightarrow>
      (\<exists>key fs name v. key \<in> set (concat (map cl_approve claims)) \<and> at_path (ly_value l) key = Some (JObject fs)
         \<and> name \<in> set (map fst fs) \<and> found key name = Some v \<and> e = made key name v)"
    unfolding Bex_def names entry by blast
  then show ?thesis
    using Some by (simp add: made_def found_def)
qed (simp add: layer_entries_def)

lemma entry_kept:
  assumes "list_all (\<lambda>c. list_all (\<lambda>key. CHR '':'' \<notin> set key) (cl_approve c)) claims"
    and "l \<in> set layers" "repository l = Some root" "c \<in> set claims" "key \<in> set (cl_approve c)"
    and "at_path (ly_value l) key = Some (JObject fs)" "name \<in> set (map fst fs)"
    and "Option.bind (at_path merged key) (\<lambda>v. json_get v name) = Some v"
  shows "map_of (settings_entries hash layers claims merged) (root, key @ '':'' @ name) = Some (digest_entry hash v)"
proof -
  let ?es = "concat (map (layer_entries hash claims merged) layers)"
  have colon: "CHR '':'' \<notin> set k" if "k \<in> set (concat (map cl_approve claims))" for k
    using that assms(1) by (auto simp: list_all_iff)
  have "d = digest_entry hash v" if d: "((root, key @ '':'' @ name), d) \<in> set ?es" for d
  proof -
    obtain k n w where k: "k \<in> set (concat (map cl_approve claims))" "key @ '':'' @ name = k @ '':'' @ n"
      "Option.bind (at_path merged k) (\<lambda>v. json_get v n) = Some w" "d = digest_entry hash w"
    proof -
      obtain l' where "((root, key @ '':'' @ name), d) \<in> set (layer_entries hash claims merged l')"
        using d by auto
      then show ?thesis
        using that unfolding layer_entry_iff prod.inject by blast
    qed
    then have "key = k" "name = n"
      using split_first_colon[of key name] split_first_colon[of k n] colon assms(4,5) by auto
    then show ?thesis
      using k assms(8) by simp
  qed
  moreover have "((root, key @ '':'' @ name), digest_entry hash v) \<in> set ?es"
  proof -
    have "key \<in> set (concat (map cl_approve claims))"
      using assms(4,5) by auto
    then have "((root, key @ '':'' @ name), digest_entry hash v) \<in> set (layer_entries hash claims merged l)"
      using assms(3,6-8) unfolding layer_entry_iff by blast
    then show ?thesis
      using assms(2) by auto
  qed
  ultimately have "map_of (rev ?es) (root, key @ '':'' @ name) = Some (digest_entry hash v)"
    by (metis map_of_SomeD not_None_eq set_rev weak_map_of_SomeI)
  then show ?thesis
    by (simp add: settings_entries_def foldl_update)
qed

lemma entry_waits:
  assumes "((root, key @ '':'' @ name), digest) \<in> set es" "CHR '':'' \<notin> set key" "key \<in> set (cl_approve c)"
    and "Option.bind (map_of app root) (\<lambda>es. map_of es (key @ '':'' @ name)) \<noteq> Some digest"
  shows "\<exists>changed. \<lparr>wt_root = root, wt_key = key, wt_name = name, wt_changed = changed\<rparr> \<in> set (claim_waiting app es c)"
proof -
  obtain changed where "approval_verdict app root (key @ '':'' @ name) digest = PlWaiting changed"
    using assms(4) unfolding approval_verdict_def
    by (cases "Option.bind (map_of app root) (\<lambda>es. map_of es (key @ '':'' @ name))") auto
  then have "\<lparr>wt_root = root, wt_key = key, wt_name = name, wt_changed = changed\<rparr>
      \<in> set (entry_waiting app (cl_approve c) ((root, key @ '':'' @ name), digest))"
    using assms(2,3) split_first_colon[of key name] by (simp add: entry_waiting_def)
  then show ?thesis
    using assms(1) unfolding claim_waiting_def by fastforce
qed

lemma slices_claim:
  assumes "distinct (map cl_plugin claims)" "c \<in> set claims"
  shows "map_of (slices merged claims) (cl_plugin c) = Some (claim_slice merged c)"
proof -
  have other: "cl_plugin c \<notin> cl_plugin ` set cs \<Longrightarrow>
      map_of (fold (\<lambda>c ps. AList.update (cl_plugin c) (claim_slice merged c) ps) cs ps) (cl_plugin c) = map_of ps (cl_plugin c)" for cs ps
    by (induction cs arbitrary: ps) (auto simp: update_conv')
  have "map_of (fold (\<lambda>c ps. AList.update (cl_plugin c) (claim_slice merged c) ps) claims ps) (cl_plugin c) = Some (claim_slice merged c)" for ps
    using assms by (induction claims arbitrary: ps) (auto simp: update_conv' other)
  then show ?thesis
    by (simp add: slices_def)
qed

lemma waiting_claim:
  assumes "distinct (map cl_plugin claims)" "c \<in> set claims" "cl_approve c \<noteq> []" "map_of plugins (cl_plugin c) = Some sl"
  shows "map_of (settings_waiting app es claims plugins) (cl_plugin c)
    = Some (AList.update ''waiting'' (JArray (map waiting_json (claim_waiting app es c))) sl)"
  using assms unfolding settings_waiting_def
proof (induction claims arbitrary: plugins)
  case (Cons b claims)
  have other: "cl_plugin c \<notin> cl_plugin ` set cs \<Longrightarrow>
      map_of (fold (waiting_step app es) cs ps) (cl_plugin c) = map_of ps (cl_plugin c)" for cs ps
    by (induction cs arbitrary: ps) (auto simp: waiting_step_def update_conv' split: option.splits)
  show ?case
  proof (cases "c = b")
    case True
    then have "map_of (waiting_step app es b plugins) (cl_plugin c)
        = Some (AList.update ''waiting'' (JArray (map waiting_json (claim_waiting app es c))) sl)"
      using Cons.prems(3,4) by (simp add: waiting_step_def update_conv')
    then show ?thesis
      using other[of claims "waiting_step app es b plugins"] Cons.prems(1) True by simp
  next
    case False
    then have "cl_plugin b \<noteq> cl_plugin c"
      using Cons.prems(1,2) by (auto simp: image_iff)
    then have "map_of (waiting_step app es b plugins) (cl_plugin c) = Some sl"
      using Cons.prems(4) by (auto simp: waiting_step_def update_conv' split: option.splits)
    then show ?thesis
      using Cons.IH[of "waiting_step app es b plugins"] Cons.prems False by simp
  qed
qed simp

lemma at_path_root:
  assumes "map_of fs (hd (split_chars ((=) CHR ''.'') path)) = map_of gs (hd (split_chars ((=) CHR ''.'') path))"
  shows "at_path fs path = at_path gs path"
proof -
  have "split_chars ((=) CHR ''.'') path \<noteq> []"
    by (induction path) (auto split: list.splits)
  then obtain k ks where "split_chars ((=) CHR ''.'') path = k # ks"
    by (cases "split_chars ((=) CHR ''.'') path") auto
  then show ?thesis
    using assms by (simp add: at_path_def json_get_def)
qed

text \<open>
  C30: what a repository says to run waits for the person.  An entry that a layer of a
  repository names under a key whose entries are run, and that reaches the slice of the
  plugin that runs them, was approved by the person for that repository exactly as it was
  merged, or the plugin is told that it waits.
\<close>

theorem unapproved_entries_wait:
  assumes "settings_merge sv layers claims = Inr m"
    and "distinct (map cl_plugin claims)" "list_all (\<lambda>c. list_all (\<lambda>key. CHR '':'' \<notin> set key) (cl_approve c)) claims"
    and "l \<in> set (effective layers claims)" "repository l = Some root"
    and "c \<in> set claims" "key \<in> set (cl_approve c)" "hd (split_chars ((=) CHR ''.'') key) \<in> set (claim_roots c) - {''waiting''}"
    and "at_path (ly_value l) key = Some (JObject fs)" "name \<in> set (map fst fs)"
    and "map_of (ms_plugins m) (cl_plugin c) = Some sl" "Option.bind (at_path sl key) (\<lambda>v. json_get v name) = Some v"
  shows "Option.bind (map_of (kt_approved (ms_kernel m)) root) (\<lambda>es. map_of es (key @ '':'' @ name)) = Some (digest_entry (sv_hash sv) v)
    \<or> (\<exists>ws changed. map_of sl ''waiting'' = Some (JArray (map waiting_json ws))
         \<and> \<lparr>wt_root = root, wt_key = key, wt_name = name, wt_changed = changed\<rparr> \<in> set ws)"
proof -
  obtain merged where m: "ms_repository_entries m = settings_entries (sv_hash sv) (effective layers claims) claims merged"
    "ms_plugins m = settings_waiting (kt_approved (ms_kernel m)) (ms_repository_entries m) claims (slices merged claims)"
    using merge_parts[OF assms(1)] .
  let ?ws = "claim_waiting (kt_approved (ms_kernel m)) (ms_repository_entries m) c"
  have sl: "sl = AList.update ''waiting'' (JArray (map waiting_json ?ws)) (claim_slice merged c)"
    using waiting_claim[OF assms(2,6) _ slices_claim[OF assms(2,6)], of "kt_approved (ms_kernel m)" "ms_repository_entries m" merged]
      assms(7,11) m(2) by force
  have "at_path sl key = at_path merged key"
    using assms(8) by (intro at_path_root) (simp add: sl update_conv' claim_slice_lookup)
  then have merged: "Option.bind (at_path merged key) (\<lambda>v. json_get v name) = Some v"
    using assms(12) by simp
  have "((root, key @ '':'' @ name), digest_entry (sv_hash sv) v) \<in> set (ms_repository_entries m)"
    unfolding m(1) by (rule map_of_SomeD) (rule entry_kept[OF assms(3-7,9,10) merged])
  then have "Option.bind (map_of (kt_approved (ms_kernel m)) root) (\<lambda>es. map_of es (key @ '':'' @ name)) \<noteq> Some (digest_entry (sv_hash sv) v)
      \<Longrightarrow> \<exists>changed. \<lparr>wt_root = root, wt_key = key, wt_name = name, wt_changed = changed\<rparr> \<in> set ?ws"
    using entry_waits[of root key name _ "ms_repository_entries m" c] assms(3,6,7) by (auto simp: list_all_iff)
  moreover have "map_of sl ''waiting'' = Some (JArray (map waiting_json ?ws))"
    by (simp add: sl update_conv')
  ultimately show ?thesis
    by blast
qed

section \<open>Witnesses\<close>

definition sample_serde :: serde where
  "sample_serde = \<lparr>sv_value = (\<lambda>_. Inr), sv_trust = (\<lambda>v. Inr (object_fields v)), sv_approved = (\<lambda>_. Inr []), sv_hash = (\<lambda>_. ''h'')\<rparr>"

definition sample_claims :: "claim list" where
  "sample_claims = [\<lparr>cl_plugin = ''p'', cl_keys = [(''dirs'', MrPersonalAccumulate), (''mcp'', MrByName)], cl_approve = [''mcp'']\<rparr>]"

definition sample_layers :: "fields \<Rightarrow> layer list" where
  "sample_layers project =
     [\<lparr>ly_origin = LoUser, ly_source = ''user'', ly_value = [(''dirs'', JArray [JString ''/mine''])]\<rparr>,
      \<lparr>ly_origin = LoRepository ''/r'', ly_source = ''project'', ly_value = project\<rparr>]"

definition sample_project :: fields where
  "sample_project = [(''dirs'', JArray [JString ''/theirs'']), (''pluginTrust'', JObject [(''x'', JString ''full'')]), (''mcp'', JObject [(''s'', JString ''run'')])]"

lemma sample_merges:
  "case settings_merge sample_serde (sample_layers sample_project) sample_claims of
     Inl _ \<Rightarrow> False
   | Inr m \<Rightarrow> map_of (ms_plugins m) ''p'' = Some
       [(''dirs'', JArray [JString ''/mine'']), (''mcp'', JObject [(''s'', JString ''run'')]),
        (''waiting'', JArray [waiting_json \<lparr>wt_root = ''/r'', wt_key = ''mcp'', wt_name = ''s'', wt_changed = False\<rparr>])]
     \<and> kt_approved (ms_kernel m) = []"
  "case settings_merge sample_serde (sample_layers []) sample_claims of Inl _ \<Rightarrow> False | Inr m \<Rightarrow> True"
  by code_simp+


theorem unapproved_entries_wait_witness:
  "\<exists>m sl. settings_merge sample_serde (sample_layers sample_project) sample_claims = Inr m
     \<and> map_of (ms_plugins m) ''p'' = Some sl
     \<and> (\<exists>ws changed. map_of sl ''waiting'' = Some (JArray (map waiting_json ws))
          \<and> \<lparr>wt_root = ''/r'', wt_key = ''mcp'', wt_name = ''s'', wt_changed = changed\<rparr> \<in> set ws)"
proof -
  let ?sl = "[(''dirs'', JArray [JString ''/mine'']), (''mcp'', JObject [(''s'', JString ''run'')]),
        (''waiting'', JArray [waiting_json \<lparr>wt_root = ''/r'', wt_key = ''mcp'', wt_name = ''s'', wt_changed = False\<rparr>])]"
  let ?l = "\<lparr>ly_origin = LoRepository ''/r'', ly_source = ''project'', ly_value = tl sample_project\<rparr>"
  obtain m where m: "settings_merge sample_serde (sample_layers sample_project) sample_claims = Inr m"
    "map_of (ms_plugins m) ''p'' = Some ?sl" "kt_approved (ms_kernel m) = []"
    using sample_merges(1) by (auto split: sum.splits)
  have "?l \<in> set (effective (sample_layers sample_project) sample_claims)"
    by (simp add: effective_map sample_layers_def personal_layer_def repository_def personal_keys_def sample_claims_def
        sample_project_def canonical_layer_def canonical_pictures_def)
  then show ?thesis
    using unapproved_entries_wait[OF m(1), where sl = ?sl and l = ?l and c = "hd sample_claims" and key = "''mcp''"
        and fs = "[(''s'', JString ''run'')]" and name = "''s''" and root = "''/r''" and v = "JString ''run''"] m
    by (simp add: sample_claims_def sample_project_def repository_def claim_roots_def at_path_def json_get_def)
qed

end
