(* ===== verification/Spec2Isabelle.thy ===== *)
theory Spec2Isabelle
  imports Core_Replay Core_Subscribers Core_Trip Store_Summary Provider_Anthropic Settings_Merge
begin

text \<open>
  A verification library for bingo, a coding agent whose kernel runs sessions as
  actors, journals every change of a session as a numbered frame and shows clients a
  state folded from those frames.  Source paths are below \<open>src/crates/\<close>.

  \<^bold>\<open>The parts and how they interact.\<close>  A client sends input to the actor of a session
  (\<open>bingo-core/src/session.rs\<close> and \<open>session/\<close>).  The actor gates it, queues it, opens a
  turn, asks the person where the permission policy says so
  (\<open>bingo-permissions\<close>) and publishes what happens: each frame is numbered, appended
  to the store if it is durable, folded into the shared state by the same reducer the
  clients run (\<open>bingo-sdk/src/state.rs\<close>, \<open>transcript.rs\<close>) and offered to every
  subscriber (\<open>session/subscribers.rs\<close>).  A turn (\<open>bingo-core/src/turn.rs\<close>, \<open>turn/\<close>) goes
  round: it folds what the provider reads from the transcript (\<open>context.rs\<close>), takes from
  it what may not go on the wire, streams an answer into items (\<open>accumulator.rs\<close>), walks
  the calls of the answer through the gate (\<open>gate.rs\<close>, \<open>chain/\<close>) and the executor
  (\<open>executor.rs\<close>, \<open>turn/round.rs\<close>), and decides whether there is another round.  A session
  that ends is resumed from its journal or from a checkpoint and the journal after it
  (\<open>session/spawn.rs\<close>).

  \<^bold>\<open>The library.\<close>
  \<^item> \<open>Bingo_Prelude\<close>, \<open>Rust_Text\<close>: generic lemmas on lists, options and maps, and the
    operations of Rust's standard library on text that the sources use.
  \<^item> \<open>Sdk_Model\<close>, \<open>Sdk_Event\<close>: the vocabulary (\<open>bingo-sdk/src/model.rs\<close>, \<open>event.rs\<close>,
    \<open>event/\<close>, \<open>error.rs\<close>, \<open>policy.rs\<close>, \<open>tool.rs\<close>).
  \<^item> \<open>Sdk_Transcript\<close>: the client order and the model order of a transcript, its
    edits, release before a checkpoint, windows and codecs, with the invariant
    \<open>wf_transcript\<close> that every operation keeps.
  \<^item> \<open>Sdk_State\<close>: the reducer; re-applied frames change nothing, and what each part of
    the state is in terms of the frames.
  \<^item> \<open>Sdk_Clock\<close>: the working time of a turn, the live state of a call, the turns of a
    transcript.
  \<^item> \<open>Core_Context\<close>: the provider messages; equal to the reference fold of the whole
    journal, every call answered, roles alternating.
  \<^item> \<open>Core_Input\<close>, \<open>Core_Queue\<close>: typed lines and actions, and the queue of a busy
    session.
  \<^item> \<open>Core_Actor\<close>: the actor's record, publishing, store failures, checkpoints.
    \<open>Core_Publish\<close> holds the invariant \<open>ordered\<close> of the frames and the rules
    (\<open>good\<close>, \<open>steady\<close>, \<open>still\<close>) by which lemmas follow the text of an operation.
  \<^item> \<open>Core_Interactions\<close>, \<open>Core_Session\<close>, \<open>Core_Life\<close>: asks and answers, inputs and
    the gate, turns, closing, rewinding, the dispatch of every message, start and
    resume.
  \<^item> \<open>Core_Past\<close>: pages, pins, snapshots and streams, and history read back from the
    store.
  \<^item> \<open>Core_Subscribers\<close>: one subscription as interleaved steps of actor and client.
  \<^item> \<open>Core_Mirror\<close>: the relation \<open>reaches\<close> of everything an actor can come to under any
    mail and any answers of the store, and what holds there; \<open>Core_Replay\<close> what
    catching up and rewinding come to.
  \<^item> \<open>Perm_Path\<close>, \<open>Perm_Rule\<close>, \<open>Perm_Decide\<close>, \<open>Perm_Session\<close>: the permission policy:
    paths and shell lines, rules, the ladder of decisions, session answers and the
    command that changes them.
  \<^item> \<open>Core_Chain\<close>: the plugins around a kernel operation, held to their tiers of trust
    (\<open>bingo-core/src/chain/\<close>).  \<open>Core_Gate\<close>: the permission gate of a tool call, from hooks
    and policy to the person (\<open>gate.rs\<close>, \<open>gate/prompt.rs\<close>), and what may pass it.
  \<^item> \<open>Core_Accumulator\<close>: a provider stream folded into items; the items are the blocks
    of the stream.  \<open>Core_Stream\<close>: what clients make of the published events, and that a
    failed stream can be taken back without a trace.
  \<^item> \<open>Core_Round\<close>: the walk over the calls of one answer as a step relation
    (\<open>round_step\<close>), with the gate's question, the calls in flight, their landings and a stop
    at any point.  \<open>Core_Walk\<close> keeps account of what each call is owed; \<open>Core_Flight\<close> shows
    how many calls fly, which may, that each comes to one outcome, and that rounds end.
  \<^item> \<open>Core_Budget\<close>: thresholds, the ruler of a turn, budgets, back-off and the windows
    learned from overflow messages (\<open>context/budget.rs\<close>, \<open>turn/ruler.rs\<close>, \<open>turn/config.rs\<close>,
    \<open>models/learned.rs\<close>).  \<open>Core_Wire\<close>: what is taken out of a request before it is sent and
    the estimate of its tokens (\<open>context/elide.rs\<close>, \<open>models/vision.rs\<close>, \<open>tokens.rs\<close>).
  \<^item> \<open>Core_Turn\<close>: the turn, one definition per method of \<open>Turn\<close>; \<open>Core_Trip\<close>: a stop leaves
    one marker and a turn with a bound on its rounds ends.
  \<^item> \<open>Store_Journal\<close>: the journal on disk as bytes, appends that may be cut anywhere and
    reading back (\<open>bingo-store-jsonl/src/journal.rs\<close>).  \<open>Store_Checkpoint\<close>: the checkpoint
    beside it, found and checked by the line before its offset (\<open>checkpoint.rs\<close>).
    \<open>Store_Sessions\<close>: who owns a session and what the daily collection takes (\<open>lock.rs\<close>,
    \<open>gc.rs\<close>).  \<open>Store_Summary\<close>: the summary file that is derived from the journal
    (\<open>summary.rs\<close>).
  \<^item> \<open>Provider_Http\<close>: the streaming body of an answer, from chunks of bytes to events
    (\<open>bingo-http/src/sse.rs\<close>, \<open>stream.rs\<close>), independent of how it is cut.
    \<open>Provider_Anthropic\<close>: the decoder of one provider's events and the classes of its
    errors (\<open>bingo-provider-anthropic/src/events.rs\<close>, \<open>error.rs\<close>), and the way from the wire
    to the items of a turn.
  \<^item> \<open>Settings_Merge\<close>: the layers of settings, their merge and what of a repository waits for
    the person (\<open>bingo-core/src/settings.rs\<close>, \<open>settings/\<close>, \<open>approval.rs\<close>).

  \<^bold>\<open>How state and code correspond.\<close>  A Rust struct is a record with the fields of the
  source under a two-letter prefix, an enum a datatype.  An async method on the actor
  is a function to a result and the actor after it (\<open>'a result\<close>), \<open>?\<close> is \<open>and_then\<close>.
  The clock, the minter of ids, the store, the order of a hash map and the JSON of
  values are fields of the \<open>world\<close> a function is given; what a task started by the
  actor finds comes back as a message, so every interleaving of tasks and clients is
  an order of messages.  Widths are kept where the source relies on them (\<open>u32\<close> and
  \<open>u64\<close> counters and generations); byte counts and sequence numbers are naturals.

  A turn is a function of what it is told from outside: one \<open>trip\<close> per pass through
  \<open>round_trip\<close> holds what contributors, the provider, the tools, hooks and the person
  answered in it, and whether the stop had come at each place where the code looks.

  \<^bold>\<open>Fuel and bounds.\<close>  Every definition that models code is total, but for \<open>gate_ask\<close>,
  where a person may change a call for ever (\<open>partial_function\<close>; \<open>gate_returns\<close> says when it
  returns).  \<open>walk_back\<close>, a client that follows page cursors, takes a number of pages; one
  more than there are items is enough (\<open>paging_visits_everything\<close>).  \<open>respond\<close> goes
  through a list of trips; with at most \<open>r\<close> rounds and \<open>m\<close> retries, \<open>r + m + 5\<close> are enough
  (\<open>turn_is_bounded\<close>).  A round of \<open>n\<close> calls takes at most \<open>7 n + 2\<close> steps (\<open>round_ends\<close>).

  \<^bold>\<open>Not modelled.\<close>  Terminal, print and RPC surfaces, channels, other providers, plugin
  processes, tools and the binary are input and output over the state modelled here.
  In the kernel: what hooks and observers do, the gathering of late tools, turns of an
  endpoint that is an agent itself, the host that keeps many sessions, and the commands
  other than \<open>/permission\<close>.  In the store: pictures kept as blobs, renaming, directories.
\<close>

end
